(* ===== verification/FB_Prelude.thy ===== *)
theory FB_Prelude
  imports Main
begin

section \<open>Shared vocabulary\<close>

text \<open>
  What every component theory uses: the byte type of the text-processing components, the ASCII
  classes of the Rust standard library that they test, error results, the collections of
  simplification rules, and the interface shared by the byte-fed validators of
  \<^verbatim>\<open>crates/runtime\<close>.

  A Rust \<^verbatim>\<open>u8\<close> that is read from a text is a \<^typ>\<open>char\<close>: the type has exactly 256
  elements, and a byte literal such as \<^verbatim>\<open>b'a'\<close> is written \<open>CHR ''a''\<close>.
\<close>

type_synonym byte = char
type_synonym bytes = "byte list"

abbreviation dquote :: byte where "dquote \<equiv> CHR 0x22"
abbreviation backslash :: byte where "backslash \<equiv> CHR 0x5C"

text \<open>Rules that evaluate the operations of a component on a state of known shape.\<close>

named_theorems step_simps "one step of a component on a state of known shape"

text \<open>Facts that say what an operation keeps of its component's invariant.\<close>

named_theorems inv_intros "an operation keeps its component's invariant"

subsection \<open>ASCII classes\<close>

text \<open>\<^verbatim>\<open>u8::is_ascii_digit\<close> and \<^verbatim>\<open>u8::is_ascii_hexdigit\<close>.\<close>

definition is_digit :: "byte \<Rightarrow> bool" where
  "is_digit b \<longleftrightarrow> (48::nat) \<le> of_char b \<and> of_char b \<le> (57::nat)"

definition is_hexdigit :: "byte \<Rightarrow> bool" where
  "is_hexdigit b \<longleftrightarrow> is_digit b
     \<or> ((65::nat) \<le> of_char b \<and> of_char b \<le> (70::nat))
     \<or> ((97::nat) \<le> of_char b \<and> of_char b \<le> (102::nat))"

text \<open>The whitespace of the JSON validators: blank, tab, line feed, carriage return.\<close>

definition is_ws :: "byte \<Rightarrow> bool" where
  "is_ws b \<longleftrightarrow> b = CHR 0x20 \<or> b = CHR 0x09 \<or> b = CHR 0x0A \<or> b = CHR 0x0D"

definition is_control :: "byte \<Rightarrow> bool" where
  "is_control b \<longleftrightarrow> of_char b < (32::nat)"

lemma digit_not_ws: "is_digit b \<Longrightarrow> \<not> is_ws b"
  by (auto simp: is_digit_def is_ws_def)

lemma digit_cases:
  assumes "is_digit b"
  shows "b \<noteq> CHR ''.'' \<and> b \<noteq> CHR ''e'' \<and> b \<noteq> CHR ''E'' \<and> b \<noteq> CHR ''+'' \<and> b \<noteq> CHR ''-''
    \<and> b \<noteq> dquote \<and> b \<noteq> CHR ''{'' \<and> b \<noteq> CHR ''['' \<and> b \<noteq> CHR ''t'' \<and> b \<noteq> CHR ''f''
    \<and> b \<noteq> CHR ''n'' \<and> b \<noteq> CHR '']'' \<and> b \<noteq> CHR ''}'' \<and> b \<noteq> CHR '','' \<and> b \<noteq> CHR '':''"
  using assms by (auto simp: is_digit_def)

subsection \<open>Suffixes\<close>

definition suffix_of :: "'a list \<Rightarrow> 'a list \<Rightarrow> bool" where
  "suffix_of xs ys \<longleftrightarrow> length xs \<le> length ys \<and> drop (length ys - length xs) ys = xs"

lemma suffix_of_iff: "suffix_of xs ys \<longleftrightarrow> (\<exists>zs. ys = zs @ xs)"
proof
  assume "suffix_of xs ys"
  then have "ys = take (length ys - length xs) ys @ xs"
    by (metis suffix_of_def append_take_drop_id)
  then show "\<exists>zs. ys = zs @ xs" ..
qed (auto simp: suffix_of_def)

lemma suffix_of_tl: "suffix_of (x # xs) ys \<Longrightarrow> suffix_of xs ys"
  by (metis append.assoc append_Cons append_Nil suffix_of_iff)

subsection \<open>The interface of a byte-fed validator\<close>

text \<open>
  \<^verbatim>\<open>JsonState\<close> and \<^verbatim>\<open>SchemaState\<close> have the same surface, and
  \<^verbatim>\<open>JsonConstraint\<close> and the sampler's token mask use only that surface: a byte is accepted
  exactly when the state it leads to is valid, an invalid state absorbs every further byte, and a
  slice is fed byte by byte up to the first rejection.
\<close>

locale byte_validator =
  fixes feed :: "'s \<Rightarrow> byte \<Rightarrow> bool \<times> 's"
    and feed_slice :: "'s \<Rightarrow> bytes \<Rightarrow> bool \<times> 's"
    and valid :: "'s \<Rightarrow> bool"
  assumes feed_latch: "\<not> valid s \<Longrightarrow> feed s b = (False, s)"
    and feed_accepts: "fst (feed s b) \<longleftrightarrow> valid (snd (feed s b))"
    and slice_Nil: "feed_slice s [] = (True, s)"
    and slice_Cons: "feed_slice s (b # bs) =
      (let (ok, s') = feed s b in if \<not> ok then (False, s') else feed_slice s' bs)"
begin

lemma slice_accepts: "valid s \<Longrightarrow> fst (feed_slice s bs) \<longleftrightarrow> valid (snd (feed_slice s bs))"
proof (induction bs arbitrary: s)
  case Nil
  then show ?case by (simp add: slice_Nil)
next
  case (Cons b bs)
  then show ?case
    using feed_accepts [of s b] by (auto simp: slice_Cons split: prod.splits)
qed

lemma slice_append:
  "feed_slice s (xs @ ys) =
     (let (ok, s') = feed_slice s xs in if \<not> ok then (False, s') else feed_slice s' ys)"
proof (induction xs arbitrary: s)
  case Nil
  then show ?case by (simp add: slice_Nil)
next
  case (Cons x xs)
  then show ?case by (simp add: slice_Cons split: prod.splits)
qed

lemma slice_step: "feed s b = (True, s') \<Longrightarrow> feed_slice s (b # bs) = feed_slice s' bs"
  by (simp add: slice_Cons)

lemma slice_join:
  "feed_slice s xs = (True, s') \<Longrightarrow> feed_slice s (xs @ ys) = feed_slice s' ys"
  by (simp add: slice_append)

lemma slice_prefix: "fst (feed_slice s (xs @ ys)) \<Longrightarrow> fst (feed_slice s xs)"
  by (auto simp: slice_append split: prod.splits if_splits)

lemma slice_latch: "\<not> valid s \<Longrightarrow> snd (feed_slice s bs) = s"
  by (induction bs) (simp_all add: slice_Nil slice_Cons feed_latch)

lemma slice_inv:
  assumes step: "\<And>s b. P s \<Longrightarrow> P (snd (feed s b))" and init: "P s"
  shows "P (snd (feed_slice s bs))"
  using init
proof (induction bs arbitrary: s)
  case Nil
  then show ?case by (simp add: slice_Nil)
next
  case (Cons b bs)
  from step [OF Cons.prems, of b] Cons.IH show ?case
    by (auto simp: slice_Cons split: prod.splits)
qed

end

subsection \<open>Slices\<close>

text \<open>
  \<^verbatim>\<open>&xs[a..b]\<close> with the bounds in range; where the source slices, the lemmas show they are.
\<close>

definition slice_of :: "'a list \<Rightarrow> nat \<Rightarrow> nat \<Rightarrow> 'a list" where
  "slice_of xs a b = take (b - a) (drop a xs)"

lemma length_slice_of [simp]: "b \<le> length xs \<Longrightarrow> length (slice_of xs a b) = b - a"
  by (simp add: slice_of_def)

lemma nth_slice_of: "b \<le> length xs \<Longrightarrow> i < b - a \<Longrightarrow> slice_of xs a b ! i = xs ! (a + i)"
  by (simp add: slice_of_def)

lemma slice_of_all [simp]: "slice_of xs 0 (length xs) = xs"
  by (simp add: slice_of_def)

lemma slice_of_join: "a \<le> b \<Longrightarrow> b \<le> c \<Longrightarrow> slice_of xs a b @ slice_of xs b c = slice_of xs a c"
  using take_add [of "b - a" "c - b" "drop a xs"] by (simp add: slice_of_def)

lemma slice_of_slice: "slice_of (slice_of xs a b) c d = slice_of xs (a + c) (min (a + d) b)"
  by (simp add: slice_of_def min_def drop_take) (simp add: add.commute)

text \<open>\<^verbatim>\<open>iter().position(p)\<close>.\<close>

fun position :: "('a \<Rightarrow> bool) \<Rightarrow> 'a list \<Rightarrow> nat option" where
  "position p [] = None"
| "position p (x # xs) = (if p x then Some 0 else map_option Suc (position p xs))"

lemma position_None_iff [simp]: "position p xs = None \<longleftrightarrow> (\<forall>x \<in> set xs. \<not> p x)"
  by (induction xs) auto

lemma position_Some:
  "position p xs = Some i \<Longrightarrow> i < length xs \<and> p (xs ! i) \<and> (\<forall>j < i. \<not> p (xs ! j))"
  by (induction xs arbitrary: i) (auto simp: nth_Cons less_Suc_eq_0_disj split: if_splits nat.splits)

text \<open>Concatenations of consecutive slices.\<close>

lemma concat_slices:
  "(\<And>i. i < n \<Longrightarrow> f i \<le> f (Suc i)) \<Longrightarrow>
     concat (map (\<lambda>i. slice_of xs (f i) (f (Suc i))) [0..<n]) = slice_of xs (f 0) (f n)"
proof (induction n)
  case (Suc n)
  have "f 0 \<le> f m" if "m \<le> n" for m
    using that Suc.prems by (induction m) (auto intro: order_trans)
  then show ?case using Suc by (simp add: slice_of_join)
qed (simp add: slice_of_def)

subsection \<open>Results of fallible code\<close>

text \<open>
  \<^verbatim>\<open>Result\<close> and the panics a function may run into: an assertion, a division by zero, a
  slice out of range, a request the allocator refuses. The release profile aborts on a panic.
\<close>

datatype ('e, 'a) outcome = Ok 'a | Err 'e | Panic

fun obind :: "('e, 'a) outcome \<Rightarrow> ('a \<Rightarrow> ('e, 'b) outcome) \<Rightarrow> ('e, 'b) outcome" where
  "obind (Ok x) f = f x"
| "obind (Err e) f = Err e"
| "obind Panic f = Panic"

fun map_err :: "('e \<Rightarrow> 'f) \<Rightarrow> ('e, 'a) outcome \<Rightarrow> ('f, 'a) outcome" where
  "map_err g (Ok x) = Ok x"
| "map_err g (Err e) = Err (g e)"
| "map_err g Panic = Panic"

fun opt_err :: "'e \<Rightarrow> 'a option \<Rightarrow> ('e, 'a) outcome" where
  "opt_err e None = Err e"
| "opt_err e (Some x) = Ok x"

lemma obind_Ok_iff: "obind r f = Ok y \<longleftrightarrow> (\<exists>x. r = Ok x \<and> f x = Ok y)"
  by (cases r) auto

lemma map_err_Ok_iff [simp]: "map_err g r = Ok y \<longleftrightarrow> r = Ok y"
  by (cases r) auto

lemma opt_err_Ok_iff [simp]: "opt_err e r = Ok y \<longleftrightarrow> r = Some y"
  by (cases r) auto

lemma obind_Panic_iff: "obind r f = Panic \<longleftrightarrow> r = Panic \<or> (\<exists>x. r = Ok x \<and> f x = Panic)"
  by (cases r) auto

lemma obind_cong [fundef_cong]: "r = r' \<Longrightarrow> (\<And>x. r' = Ok x \<Longrightarrow> f x = f' x) \<Longrightarrow> obind r f = obind r' f'"
  by (cases r') auto

text \<open>Arithmetic of \<^verbatim>\<open>u64\<close> and \<^verbatim>\<open>usize\<close> in the release profile.\<close>

definition wrap64 :: "nat \<Rightarrow> nat" where
  "wrap64 n = n mod 2 ^ 64"

lemma wrap64_small [simp]: "n < 2 ^ 64 \<Longrightarrow> wrap64 n = n"
  by (simp add: wrap64_def)

lemma wrap64_less: "wrap64 n < 2 ^ 64"
  by (simp add: wrap64_def)

lemmas wrap64_less_num [simp] = wrap64_less [simplified]

lemma le_mult_pos: "0 < m \<Longrightarrow> (n :: nat) \<le> n * m"
  by (cases m) simp_all

text \<open>The decimal digits \<^verbatim>\<open>Display\<close> prints of an unsigned integer.\<close>

fun show_dec :: "nat \<Rightarrow> string" where
  "show_dec n =
     (if n < 10 then [char_of (48 + n)] else show_dec (n div 10) @ [char_of (48 + n mod 10)])"

declare show_dec.simps [simp del]

end
