(* ===== verification/Json_Grammar.thy ===== *)
theory Json_Grammar
  imports FB_Prelude
begin

section \<open>The streaming JSON validator (\<^verbatim>\<open>crates/runtime/src/json_grammar.rs\<close>)\<close>

text \<open>
  \<^verbatim>\<open>JsonState\<close> is fed one byte at a time and keeps a stack of open frames. The Rust
  \<^verbatim>\<open>VecDeque\<close> is pushed and popped at its back only; here the back is the head of the list.
  Every handler returns the Rust return value and the new state.
\<close>

subsection \<open>State\<close>

datatype js_frame =
    JObject (expecting_key: bool) (expecting_colon: bool)
            (expecting_value: bool) (expecting_comma_or_close: bool)
  | JArray (arr_expecting_value: bool) (arr_expecting_comma_or_close: bool)
  | JString (escape: bool) (unicode_remaining: nat) (is_key: bool)
  | JNumber (seen_digit: bool) (seen_dot: bool) (seen_exp: bool)
            (seen_exp_sign: bool) (seen_exp_digit: bool)
  | JLiteral (expected: bytes)

record json_state =
  stack :: "js_frame list"
  finished :: bool
  invalid :: bool

definition js_new :: json_state where
  "js_new = \<lparr>stack = [], finished = False, invalid = False\<rparr>"

definition js_is_valid :: "json_state \<Rightarrow> bool" where
  "js_is_valid s = (\<not> invalid s)"

definition js_is_complete :: "json_state \<Rightarrow> bool" where
  "js_is_complete s = (\<not> invalid s \<and> finished s \<and> stack s = [])"

definition js_has_started :: "json_state \<Rightarrow> bool" where
  "js_has_started s = (stack s \<noteq> [] \<or> finished s)"

definition js_reject :: "json_state \<Rightarrow> bool \<times> json_state" where
  "js_reject s = (False, s\<lparr>invalid := True\<rparr>)"

definition js_push :: "js_frame \<Rightarrow> json_state \<Rightarrow> json_state" where
  "js_push f s = s\<lparr>stack := f # stack s\<rparr>"

definition js_pop :: "json_state \<Rightarrow> json_state" where
  "js_pop s = s\<lparr>stack := tl (stack s)\<rparr>"

subsection \<open>Handlers\<close>

definition js_fold_after_value :: "json_state \<Rightarrow> json_state" where
  "js_fold_after_value s =
     (case stack s of
        [] \<Rightarrow> s\<lparr>finished := True\<rparr>
      | JObject ek ec ev cc # rest \<Rightarrow>
          (if ev then s\<lparr>stack := JObject ek ec False True # rest\<rparr> else s)
      | JArray ev cc # rest \<Rightarrow>
          (if ev then s\<lparr>stack := JArray False True # rest\<rparr> else s)
      | _ \<Rightarrow> s)"

definition js_start_value :: "json_state \<Rightarrow> byte \<Rightarrow> bool \<times> json_state" where
  "js_start_value s b =
     (if b = CHR ''{'' then (True, js_push (JObject True False False False) s)
      else if b = CHR ''['' then (True, js_push (JArray True False) s)
      else if b = dquote then (True, js_push (JString False 0 False) s)
      else if b = CHR ''t'' then (True, js_push (JLiteral ''rue'') s)
      else if b = CHR ''f'' then (True, js_push (JLiteral ''alse'') s)
      else if b = CHR ''n'' then (True, js_push (JLiteral ''ull'') s)
      else if b = CHR ''-'' \<or> is_digit b
        then (True, js_push (JNumber (is_digit b) False False False False) s)
      else js_reject s)"

definition js_feed_top_level_byte :: "json_state \<Rightarrow> byte \<Rightarrow> bool \<times> json_state" where
  "js_feed_top_level_byte s b =
     (if finished s then js_reject s else js_start_value s b)"

definition simple_escape :: "byte \<Rightarrow> bool" where
  "simple_escape b \<longleftrightarrow> b = dquote \<or> b = backslash \<or> b = CHR ''/'' \<or> b = CHR ''b''
     \<or> b = CHR ''f'' \<or> b = CHR ''n'' \<or> b = CHR ''r'' \<or> b = CHR ''t''"

definition js_close_key :: "json_state \<Rightarrow> json_state" where
  "js_close_key s =
     (case stack s of
        JObject ek ec ev cc # rest \<Rightarrow> s\<lparr>stack := JObject False True ev cc # rest\<rparr>
      | _ \<Rightarrow> s)"

definition js_feed_string_byte ::
    "json_state \<Rightarrow> byte \<Rightarrow> bool \<Rightarrow> nat \<Rightarrow> bool \<times> json_state" where
  "js_feed_string_byte s b esc urem =
     (case stack s of
        JString e u k # rest \<Rightarrow>
          (if urem > 0 then
             (if is_hexdigit b then (True, s\<lparr>stack := JString e (u - 1) k # rest\<rparr>)
              else js_reject s)
           else if esc then
             (if simple_escape b then (True, s\<lparr>stack := JString False u k # rest\<rparr>)
              else if b = CHR ''u'' then (True, s\<lparr>stack := JString False 4 k # rest\<rparr>)
              else js_reject (s\<lparr>stack := JString False u k # rest\<rparr>))
           else if b = backslash then (True, s\<lparr>stack := JString True u k # rest\<rparr>)
           else if b = dquote then
             (True, if k then js_close_key (js_pop s) else js_fold_after_value (js_pop s))
           else if is_control b then js_reject s
           else (True, s))
      | _ \<Rightarrow> js_reject s)"

definition js_feed_literal_byte :: "json_state \<Rightarrow> byte \<Rightarrow> bool \<times> json_state" where
  "js_feed_literal_byte s b =
     (case stack s of
        JLiteral ex # rest \<Rightarrow>
          (case ex of
             [] \<Rightarrow> js_reject s
           | x # xs \<Rightarrow>
               (if x \<noteq> b then js_reject s
                else if xs = [] then
                  (True, js_fold_after_value (js_pop (s\<lparr>stack := JLiteral xs # rest\<rparr>)))
                else (True, s\<lparr>stack := JLiteral xs # rest\<rparr>)))
      | _ \<Rightarrow> js_reject s)"

definition js_feed_object_byte :: "json_state \<Rightarrow> byte \<Rightarrow> bool \<times> json_state" where
  "js_feed_object_byte s b =
     (case stack s of
        JObject ek ec ev cc # rest \<Rightarrow>
          (if ek then
             (if b = dquote then
                (True, js_push (JString False 0 True) (s\<lparr>stack := JObject False ec ev cc # rest\<rparr>))
              else if b = CHR ''}'' then (True, js_fold_after_value (js_pop s))
              else js_reject s)
           else if ec then
             (if b = CHR '':'' then (True, s\<lparr>stack := JObject ek False True cc # rest\<rparr>)
              else js_reject s)
           else if ev then js_start_value (s\<lparr>stack := JObject ek ec False True # rest\<rparr>) b
           else if cc then
             (if b = CHR '','' then (True, s\<lparr>stack := JObject True ec ev False # rest\<rparr>)
              else if b = CHR ''}'' then (True, js_fold_after_value (js_pop s))
              else js_reject s)
           else js_reject s)
      | _ \<Rightarrow> js_reject s)"

definition js_feed_array_byte :: "json_state \<Rightarrow> byte \<Rightarrow> bool \<times> json_state" where
  "js_feed_array_byte s b =
     (case stack s of
        JArray ev cc # rest \<Rightarrow>
          (if ev then
             (if b = CHR '']'' then (True, js_fold_after_value (js_pop s))
              else js_start_value (s\<lparr>stack := JArray False True # rest\<rparr>) b)
           else if cc then
             (if b = CHR '','' then (True, s\<lparr>stack := JArray True False # rest\<rparr>)
              else if b = CHR '']'' then (True, js_fold_after_value (js_pop s))
              else js_reject s)
           else js_reject s)
      | _ \<Rightarrow> js_reject s)"

text \<open>
  \<^verbatim>\<open>feed\<close> and \<^verbatim>\<open>feed_number_byte\<close> call each other: a byte that ends a number is fed again
  to the parent frame. The number's frame is popped first, so the stack gets shorter.
\<close>

lemma length_fold_after_value [simp]:
  "length (stack (js_fold_after_value s)) = length (stack s)"
  by (auto simp: js_fold_after_value_def split: list.splits js_frame.splits)

function (sequential) js_feed :: "json_state \<Rightarrow> byte \<Rightarrow> bool \<times> json_state"
  and js_feed_number_byte :: "json_state \<Rightarrow> byte \<Rightarrow> bool \<times> json_state" where
  "js_feed s b =
     (if invalid s then (False, s)
      else if is_ws b then
        (case stack s of
           JNumber sd dt ex sg xd # _ \<Rightarrow>
             (if \<not> sd then js_reject s else (True, js_fold_after_value (js_pop s)))
         | _ \<Rightarrow> (True, s))
      else
        (case stack s of
           JString e u k # _ \<Rightarrow> js_feed_string_byte s b e u
         | JNumber sd dt ex sg xd # _ \<Rightarrow> js_feed_number_byte s b
         | JLiteral ex # _ \<Rightarrow> js_feed_literal_byte s b
         | JObject ek ec ev cc # _ \<Rightarrow> js_feed_object_byte s b
         | JArray ev cc # _ \<Rightarrow> js_feed_array_byte s b
         | [] \<Rightarrow> js_feed_top_level_byte s b))"
| "js_feed_number_byte s b =
     (case stack s of
        JNumber sd dt ex sg xd # rest \<Rightarrow>
          (if is_digit b then
             (True, s\<lparr>stack := JNumber True dt ex sg (if ex then True else xd) # rest\<rparr>)
           else if b = CHR ''.'' \<and> \<not> dt \<and> \<not> ex \<and> sd then
             (True, s\<lparr>stack := JNumber sd True ex sg xd # rest\<rparr>)
           else if (b = CHR ''e'' \<or> b = CHR ''E'') \<and> \<not> ex \<and> sd then
             (True, s\<lparr>stack := JNumber sd dt True sg xd # rest\<rparr>)
           else if (b = CHR ''+'' \<or> b = CHR ''-'') \<and> ex \<and> \<not> sg \<and> \<not> xd then
             (True, s\<lparr>stack := JNumber sd dt ex True xd # rest\<rparr>)
           else if \<not> sd \<or> (ex \<and> \<not> xd) then js_reject s
           else js_feed (js_fold_after_value (js_pop s)) b)
      | _ \<Rightarrow> js_reject s)"
  by pat_completeness auto
termination
  by (relation "measure (\<lambda>x. case x of Inl (s, b) \<Rightarrow> 2 * length (stack s) + 1
                                    | Inr (s, b) \<Rightarrow> 2 * length (stack s))")
     (auto simp: js_pop_def)

declare js_feed.simps [simp del] js_feed_number_byte.simps [simp del]

fun js_feed_slice :: "json_state \<Rightarrow> bytes \<Rightarrow> bool \<times> json_state" where
  "js_feed_slice s [] = (True, s)"
| "js_feed_slice s (b # bs) =
     (let (ok, s') = js_feed s b in if \<not> ok then (False, s') else js_feed_slice s' bs)"

definition js_finalize_at_eos :: "json_state \<Rightarrow> json_state" where
  "js_finalize_at_eos s =
     (if invalid s then s
      else case stack s of
        JNumber sd dt ex sg xd # _ \<Rightarrow>
          (if \<not> sd \<or> (ex \<and> \<not> xd) then s\<lparr>invalid := True\<rparr>
           else js_fold_after_value (js_pop s))
      | _ \<Rightarrow> s)"

subsection \<open>Each handler accepts exactly when it leaves a valid state\<close>

lemma fold_frame [simp]:
  "invalid (js_fold_after_value s) = invalid s" "invalid (js_pop s) = invalid s"
  "invalid (js_push f s) = invalid s" "invalid (js_close_key s) = invalid s"
  "finished (js_push f s) = finished s" "finished (js_pop s) = finished s"
  "stack (js_push f s) = f # stack s" "stack (js_pop s) = tl (stack s)"
  by (auto simp: js_fold_after_value_def js_pop_def js_push_def js_close_key_def
      split: list.splits js_frame.splits)

lemma reject_simps [simp]:
  "fst (js_reject s) = False" "invalid (snd (js_reject s))"
  "stack (snd (js_reject s)) = stack s" "finished (snd (js_reject s)) = finished s"
  by (simp_all add: js_reject_def)

lemma start_value_accepts:
  "\<not> invalid s \<Longrightarrow> fst (js_start_value s b) \<longleftrightarrow> \<not> invalid (snd (js_start_value s b))"
  by (simp add: js_start_value_def)

lemma handler_accepts:
  assumes "\<not> invalid s"
  shows "fst (js_feed_top_level_byte s b) \<longleftrightarrow> \<not> invalid (snd (js_feed_top_level_byte s b))"
    and "fst (js_feed_string_byte s b e u) \<longleftrightarrow> \<not> invalid (snd (js_feed_string_byte s b e u))"
    and "fst (js_feed_literal_byte s b) \<longleftrightarrow> \<not> invalid (snd (js_feed_literal_byte s b))"
    and "fst (js_feed_object_byte s b) \<longleftrightarrow> \<not> invalid (snd (js_feed_object_byte s b))"
    and "fst (js_feed_array_byte s b) \<longleftrightarrow> \<not> invalid (snd (js_feed_array_byte s b))"
  using assms
  by (auto simp: js_feed_top_level_byte_def js_feed_string_byte_def js_feed_literal_byte_def
      js_feed_object_byte_def js_feed_array_byte_def start_value_accepts
      split: list.splits js_frame.splits)

lemma feed_number_accepts:
  "\<not> invalid s \<Longrightarrow> fst (js_feed s b) \<longleftrightarrow> \<not> invalid (snd (js_feed s b))"
  "\<not> invalid s \<Longrightarrow> fst (js_feed_number_byte s b) \<longleftrightarrow> \<not> invalid (snd (js_feed_number_byte s b))"
proof (induction s b and s b rule: js_feed_js_feed_number_byte.induct)
  case (1 s b)
  show ?case
  proof (cases "\<not> is_ws b \<and> (\<exists>sd dt ex sg xd r. stack s = JNumber sd dt ex sg xd # r)")
    case True
    then obtain sd dt ex sg xd r where "\<not> is_ws b" "stack s = JNumber sd dt ex sg xd # r"
      by blast
    with 1 show ?thesis by (simp add: js_feed.simps [of s b])
  next
    case False
    with "1.prems" show ?thesis
      by (subst (1 2) js_feed.simps)
         (auto simp: handler_accepts split: list.splits js_frame.splits)
  qed
next
  case (2 s b)
  then show ?case
    by (subst (1 2) js_feed_number_byte.simps) (auto split: list.splits js_frame.splits)
qed

lemma js_feed_latch: "invalid s \<Longrightarrow> js_feed s b = (False, s)"
  by (simp add: js_feed.simps)

interpretation js: byte_validator js_feed js_feed_slice js_is_valid
proof unfold_locales
  fix s b
  show "\<not> js_is_valid s \<Longrightarrow> js_feed s b = (False, s)"
    by (simp add: js_is_valid_def js_feed_latch)
  show "fst (js_feed s b) \<longleftrightarrow> js_is_valid (snd (js_feed s b))"
    by (cases "invalid s") (simp_all add: js_is_valid_def js_feed_latch feed_number_accepts)
qed simp_all

subsection \<open>The shape of a reachable state\<close>

text \<open>
  The Rust types allow any stack of any frames with any flags. The states the validator can reach
  are far fewer: below the top frame there are only containers that wait for a comma or their
  closing bracket (a value updates its parent before its own frame is pushed), a key string sits
  on an object all of whose flags are clear, exactly one flag of a container on top is set, and
  nothing is open once the top-level value is finished.
\<close>

definition js_waiting :: "js_frame list \<Rightarrow> bool" where
  "js_waiting fs =
     list_all (\<lambda>f. f = JArray False True \<or> f = JObject False False False True) fs"

fun js_wf_stack :: "js_frame list \<Rightarrow> bool" where
  "js_wf_stack [] = True"
| "js_wf_stack (JArray ev cc # r) = (cc = (\<not> ev) \<and> js_waiting r)"
| "js_wf_stack (JObject ek ec ev cc # r) =
     ((ek, ec, ev, cc) \<in> {(True, False, False, False), (False, True, False, False),
        (False, False, True, False), (False, False, False, True)} \<and> js_waiting r)"
| "js_wf_stack (JString e u k # r) =
     (u \<le> 4 \<and> (u > 0 \<longrightarrow> \<not> e) \<and>
      (if k then r \<noteq> [] \<and> hd r = JObject False False False False \<and> js_waiting (tl r)
       else js_waiting r))"
| "js_wf_stack (JNumber sd dt ex sg xd # r) =
     ((dt \<longrightarrow> sd) \<and> (ex \<longrightarrow> sd) \<and> (sg \<longrightarrow> ex) \<and> (xd \<longrightarrow> ex) \<and> js_waiting r)"
| "js_wf_stack (JLiteral ex # r) =
     (ex \<noteq> [] \<and> (suffix_of ex ''rue'' \<or> suffix_of ex ''alse'' \<or> suffix_of ex ''ull'')
      \<and> js_waiting r)"

definition js_inv :: "json_state \<Rightarrow> bool" where
  "js_inv s \<longleftrightarrow> js_wf_stack (stack s) \<and> (finished s \<longrightarrow> stack s = [])"

lemma js_waiting_simps [simp]:
  "js_waiting []"
  "js_waiting (f # fs) \<longleftrightarrow>
     (f = JArray False True \<or> f = JObject False False False True) \<and> js_waiting fs"
  by (simp_all add: js_waiting_def)

lemma fold_waiting:
  "js_waiting (stack s) \<Longrightarrow>
     js_fold_after_value s = (if stack s = [] then s\<lparr>finished := True\<rparr> else s)"
  by (cases "stack s") (auto simp: js_fold_after_value_def)

lemma waiting_wf: "js_waiting fs \<Longrightarrow> js_wf_stack fs"
  by (cases fs) auto

lemma fold_inv [inv_intros]:
  "js_waiting (stack s) \<Longrightarrow> \<not> finished s \<Longrightarrow> js_inv (js_fold_after_value s)"
  by (auto simp: fold_waiting js_inv_def waiting_wf)

lemma reject_inv [inv_intros]: "js_inv s \<Longrightarrow> js_inv (snd (js_reject s))"
  by (simp add: js_inv_def)

lemma start_value_inv [inv_intros]:
  "js_waiting (stack s) \<Longrightarrow> \<not> finished s \<Longrightarrow> js_inv (snd (js_start_value s b))"
  by (auto simp: js_start_value_def js_inv_def js_reject_def js_push_def suffix_of_def waiting_wf)

lemma top_level_inv:
  "js_inv s \<Longrightarrow> stack s = [] \<Longrightarrow> js_inv (snd (js_feed_top_level_byte s b))"
  by (auto simp: js_feed_top_level_byte_def intro!: inv_intros)

lemma string_inv:
  assumes "js_inv s" and "stack s = JString e u k # r"
  shows "js_inv (snd (js_feed_string_byte s b e u))"
  using assms
  by (cases r)
     (auto simp: js_feed_string_byte_def js_inv_def js_close_key_def js_pop_def js_reject_def
        fold_waiting waiting_wf split: if_splits)

lemma literal_inv:
  assumes "js_inv s" and "stack s = JLiteral ex # r"
  shows "js_inv (snd (js_feed_literal_byte s b))"
  using assms
  by (auto simp: js_feed_literal_byte_def js_inv_def js_reject_def fold_waiting waiting_wf
      js_pop_def dest: suffix_of_tl split: list.splits)

lemma array_inv:
  assumes "js_inv s" and st: "stack s = JArray ev cc # r"
  shows "js_inv (snd (js_feed_array_byte s b))"
proof -
  from assms have r: "js_waiting r" "cc = (\<not> ev)" "\<not> finished s"
    by (auto simp: js_inv_def)
  have "js_inv (snd (js_start_value (s\<lparr>stack := JArray False True # r\<rparr>) c))" for c
    using r by (intro start_value_inv) simp_all
  moreover have "js_inv (js_fold_after_value (js_pop s))"
    using r st by (intro fold_inv) (simp_all add: js_pop_def)
  ultimately show ?thesis
    using r st assms(1) by (simp add: js_feed_array_byte_def js_inv_def)
qed

lemma object_inv:
  assumes "js_inv s" and st: "stack s = JObject ek ec ev cc # r"
  shows "js_inv (snd (js_feed_object_byte s b))"
proof -
  from assms have r: "js_waiting r" "\<not> finished s"
    and flags: "(ek, ec, ev, cc) \<in> {(True, False, False, False), (False, True, False, False),
        (False, False, True, False), (False, False, False, True)}"
    by (auto simp: js_inv_def)
  have start: "js_inv (snd (js_start_value (s\<lparr>stack := JObject False False False True # r\<rparr>) c))" for c
    using r by (intro start_value_inv) simp_all
  have close: "js_inv (js_fold_after_value (js_pop s))"
    using r st by (intro fold_inv) (simp_all add: js_pop_def)
  have rej: "js_inv (snd (js_reject s))"
    using assms(1) by (rule reject_inv)
  from flags consider "ek \<and> \<not> ec \<and> \<not> ev \<and> \<not> cc" | "\<not> ek \<and> ec \<and> \<not> ev \<and> \<not> cc"
    | "\<not> ek \<and> \<not> ec \<and> ev \<and> \<not> cc" | "\<not> ek \<and> \<not> ec \<and> \<not> ev \<and> cc"
    by auto
  then show ?thesis
    using r st start close rej
    by cases (simp_all add: js_feed_object_byte_def js_inv_def)
qed

lemma number_pop_inv:
  assumes "js_inv s" and "stack s = JNumber sd dt ex sg xd # r"
  shows "js_inv (js_fold_after_value (js_pop s))"
    and "stack (js_fold_after_value (js_pop s)) = r"
  using assms by (auto simp: js_inv_def fold_waiting waiting_wf js_pop_def)

lemma number_inv:
  assumes "js_inv s" and "stack s = JNumber sd dt ex sg xd # r"
    and "js_inv (snd (js_feed (js_fold_after_value (js_pop s)) b))"
  shows "js_inv (snd (js_feed_number_byte s b))"
  using assms by (auto simp: js_feed_number_byte.simps [of s] js_inv_def)

lemma feed_inv_non_number:
  assumes "js_inv s" and "\<not> (\<exists>sd dt ex sg xd r. stack s = JNumber sd dt ex sg xd # r)"
  shows "js_inv (snd (js_feed s b))"
  using assms
  by (auto simp: js_feed.simps [of s] split: list.splits js_frame.splits
      intro: top_level_inv string_inv literal_inv array_inv object_inv)

lemma feed_inv [inv_intros]:
  assumes "js_inv s"
  shows "js_inv (snd (js_feed s b))"
proof (cases "\<exists>sd dt ex sg xd r. stack s = JNumber sd dt ex sg xd # r")
  case True
  then obtain sd dt ex sg xd r where st: "stack s = JNumber sd dt ex sg xd # r" by blast
  let ?s = "js_fold_after_value (js_pop s)"
  have "js_waiting r" using assms st by (simp add: js_inv_def)
  then have "\<not> (\<exists>sd dt ex sg xd r'. stack ?s = JNumber sd dt ex sg xd # r')"
    using number_pop_inv(2) [OF assms st] by (cases r) auto
  then have "js_inv (snd (js_feed ?s b))"
    using number_pop_inv(1) [OF assms st] by (intro feed_inv_non_number)
  then show ?thesis
    using number_inv [OF assms st, of b] number_pop_inv [OF assms st] assms st
    by (auto simp: js_feed.simps [of s] intro: reject_inv)
next
  case False
  with assms show ?thesis by (intro feed_inv_non_number)
qed

lemma new_inv [inv_intros]: "js_inv js_new"
  by (simp add: js_inv_def js_new_def)

lemma js_slice_inv [inv_intros]: "js_inv s \<Longrightarrow> js_inv (snd (js_feed_slice s bs))"
  by (rule js.slice_inv [where P = js_inv]) (rule feed_inv)

lemma finalize_inv [inv_intros]: "js_inv s \<Longrightarrow> js_inv (js_finalize_at_eos s)"
  by (auto simp: js_finalize_at_eos_def number_pop_inv js_inv_def [of "s\<lparr>invalid := True\<rparr>"]
      js_inv_def [of s] split: list.splits js_frame.splits intro: number_pop_inv)

subsection \<open>Property\<close>

text \<open>
  C2: Whatever bytes are fed, before and after the end of the stream is settled, the stack has the
  shape the handlers assume: every frame below the top one is a container waiting for a comma or
  its bracket, a key string lies on an object with all flags clear, exactly one flag of a container
  on top is set, escapes never overlap a \<^verbatim>\<open>\u\<close> sequence, and a finished text has no open
  frame.
\<close>

theorem js_reachable_shape:
  "js_inv (snd (js_feed_slice js_new t))
   \<and> js_inv (js_finalize_at_eos (snd (js_feed_slice js_new t)))"
  by (intro conjI inv_intros)

end
