(* ===== verification/Json_Rfc.thy ===== *)
theory Json_Rfc
  imports Json_Grammar
begin

section \<open>JSON texts as RFC 8259 defines them, and the validator's verdict on them\<close>

text \<open>
  The abstract specification of the streaming validator: the texts of RFC 8259 as an inductive
  grammar over bytes. The theorem at the end says that the validator accepts every such text, byte
  by byte, and reports it complete once the end of the stream settles a trailing number.
\<close>

subsection \<open>The grammar\<close>

text \<open>
  The byte classes of the grammar are written out here, so that the specification shares no
  definition with the validator; the lemmas below say that the validator's classes agree.
\<close>

definition rfc_ws :: "byte \<Rightarrow> bool" where
  "rfc_ws b \<longleftrightarrow> b \<in> {CHR 0x20, CHR 0x09, CHR 0x0A, CHR 0x0D}"

definition rfc_escape :: "byte \<Rightarrow> bool" where
  "rfc_escape b \<longleftrightarrow> b \<in> {CHR 0x22, CHR 0x5C, CHR 0x2F, CHR 0x62, CHR 0x66, CHR 0x6E, CHR 0x72, CHR 0x74}"

definition rfc_unescaped :: "byte \<Rightarrow> bool" where
  "rfc_unescaped b \<longleftrightarrow> (0x20 :: nat) \<le> of_char b \<and> b \<notin> {CHR 0x22, CHR 0x5C}"

definition all_ws :: "bytes \<Rightarrow> bool" where
  "all_ws w = list_all rfc_ws w"

lemma rfc_ws_is_ws: "rfc_ws = is_ws"
  by (auto simp: rfc_ws_def is_ws_def fun_eq_iff)

lemma all_ws_is_ws: "all_ws w = list_all is_ws w"
  by (simp add: all_ws_def rfc_ws_is_ws)

lemma rfc_escape_simple: "rfc_escape b \<Longrightarrow> simple_escape b"
  by (auto simp: rfc_escape_def simple_escape_def)

lemma rfc_unescaped_plain:
  "rfc_unescaped b \<Longrightarrow> \<not> is_control b \<and> b \<noteq> dquote \<and> b \<noteq> backslash"
  by (simp add: rfc_unescaped_def is_control_def)

definition digits1 :: "bytes \<Rightarrow> bool" where
  "digits1 ds \<longleftrightarrow> ds \<noteq> [] \<and> list_all is_digit ds"

text \<open>The characters of a string after its opening quote and before its closing one.\<close>

inductive string_body :: "bytes \<Rightarrow> bool" where
  body_nil: "string_body []"
| body_plain: "rfc_unescaped b \<Longrightarrow> string_body t \<Longrightarrow> string_body (b # t)"
| body_escape: "rfc_escape e \<Longrightarrow> string_body t \<Longrightarrow> string_body (backslash # e # t)"
| body_unicode: "list_all is_hexdigit [h1, h2, h3, h4] \<Longrightarrow> string_body t \<Longrightarrow>
     string_body (backslash # CHR ''u'' # h1 # h2 # h3 # h4 # t)"

definition json_string :: "bytes \<Rightarrow> bool" where
  "json_string t \<longleftrightarrow> (\<exists>body. string_body body \<and> t = dquote # body @ [dquote])"

text \<open>\<open>number = [ minus ] int [ frac ] [ exp ]\<close>.\<close>

definition json_int :: "bytes \<Rightarrow> bool" where
  "json_int t \<longleftrightarrow> digits1 t \<and> (hd t = CHR ''0'' \<longrightarrow> t = ''0'')"

definition json_frac :: "bytes \<Rightarrow> bool" where
  "json_frac t \<longleftrightarrow> t = [] \<or> (\<exists>ds. digits1 ds \<and> t = CHR ''.'' # ds)"

definition json_exp :: "bytes \<Rightarrow> bool" where
  "json_exp t \<longleftrightarrow> t = [] \<or> (\<exists>e sg ds. e \<in> {CHR ''e'', CHR ''E''} \<and>
     sg \<in> {[], ''+'', ''-''} \<and> digits1 ds \<and> t = e # sg @ ds)"

definition json_number :: "bytes \<Rightarrow> bool" where
  "json_number t \<longleftrightarrow> (\<exists>mn ip fp ep. mn \<in> {[], ''-''} \<and> json_int ip \<and> json_frac fp \<and>
     json_exp ep \<and> t = mn @ ip @ fp @ ep)"

inductive json_value :: "bytes \<Rightarrow> bool"
  and json_elements :: "bytes \<Rightarrow> bool"
  and json_members :: "bytes \<Rightarrow> bool" where
  value_true: "json_value ''true''"
| value_false: "json_value ''false''"
| value_null: "json_value ''null''"
| value_number: "json_number t \<Longrightarrow> json_value t"
| value_string: "json_string t \<Longrightarrow> json_value t"
| value_array_empty: "all_ws w \<Longrightarrow> json_value (CHR ''['' # w @ '']'')"
| value_array: "json_elements t \<Longrightarrow> json_value (CHR ''['' # t @ '']'')"
| value_object_empty: "all_ws w \<Longrightarrow> json_value (CHR ''{'' # w @ ''}'')"
| value_object: "json_members t \<Longrightarrow> json_value (CHR ''{'' # t @ ''}'')"
| elements_one: "all_ws w1 \<Longrightarrow> json_value v \<Longrightarrow> all_ws w2 \<Longrightarrow> json_elements (w1 @ v @ w2)"
| elements_more: "all_ws w1 \<Longrightarrow> json_value v \<Longrightarrow> all_ws w2 \<Longrightarrow> json_elements t \<Longrightarrow>
     json_elements (w1 @ v @ w2 @ CHR '','' # t)"
| members_one: "all_ws w1 \<Longrightarrow> json_string k \<Longrightarrow> all_ws w2 \<Longrightarrow> all_ws w3 \<Longrightarrow> json_value v \<Longrightarrow>
     all_ws w4 \<Longrightarrow> json_members (w1 @ k @ w2 @ CHR '':'' # w3 @ v @ w4)"
| members_more: "all_ws w1 \<Longrightarrow> json_string k \<Longrightarrow> all_ws w2 \<Longrightarrow> all_ws w3 \<Longrightarrow> json_value v \<Longrightarrow>
     all_ws w4 \<Longrightarrow> json_members t \<Longrightarrow>
     json_members (w1 @ k @ w2 @ CHR '':'' # w3 @ v @ w4 @ CHR '','' # t)"

definition json_text :: "bytes \<Rightarrow> bool" where
  "json_text t \<longleftrightarrow> (\<exists>w1 v w2. all_ws w1 \<and> json_value v \<and> all_ws w2 \<and> t = w1 @ v @ w2)"

subsection \<open>States between two bytes of a text\<close>

text \<open>
  A number has no terminator, so after its last digit the validator still holds its frame. Such a
  state differs from the state after the value only until the next byte, whichever it is.
\<close>

definition top_number :: "json_state \<Rightarrow> bool" where
  "top_number s \<longleftrightarrow> (\<exists>sd dt ex sg xd r. stack s = JNumber sd dt ex sg xd # r)"

definition calm :: "json_state \<Rightarrow> bool" where
  "calm s \<longleftrightarrow> \<not> invalid s \<and> \<not> top_number s"

definition settles :: "json_state \<Rightarrow> json_state \<Rightarrow> bool" where
  "settles s' s \<longleftrightarrow> \<not> invalid s' \<and> \<not> invalid s \<and> (s' = s \<or> (\<exists>dt ex sg xd r.
     stack s' = JNumber True dt ex sg xd # r \<and> (ex \<longrightarrow> xd) \<and>
     js_fold_after_value (js_pop s') = s))"

definition number_byte :: "byte \<Rightarrow> bool" where
  "number_byte b \<longleftrightarrow> is_digit b \<or> b \<in> {CHR ''.'', CHR ''e'', CHR ''E'', CHR ''+'', CHR ''-''}"

lemma feed_ws: "calm s \<Longrightarrow> is_ws b \<Longrightarrow> js_feed s b = (True, s)"
  by (auto simp: js_feed.simps calm_def top_number_def split: list.splits js_frame.splits)

lemma settles_feed:
  assumes "settles s' s" and "calm s" and "\<not> number_byte b"
  shows "js_feed s' b = js_feed s b"
proof (cases "s' = s")
  case False
  with assms(1) obtain dt ex sg xd r where st: "stack s' = JNumber True dt ex sg xd # r"
    and e: "ex \<longrightarrow> xd" and f: "js_fold_after_value (js_pop s') = s" "\<not> invalid s'"
    by (auto simp: settles_def)
  show ?thesis
  proof (cases "is_ws b")
    case True
    then show ?thesis using st f assms(2) by (simp add: js_feed.simps [of s'] feed_ws)
  next
    case False
    then show ?thesis using st e f assms(3)
      by (auto simp: js_feed.simps [of s'] js_feed_number_byte.simps [of s'] number_byte_def)
  qed
qed simp

lemma settles_refl: "\<not> invalid s \<Longrightarrow> settles s s"
  by (simp add: settles_def)

lemma ws_not_number: "is_ws b \<Longrightarrow> \<not> number_byte b"
  by (auto simp: is_ws_def number_byte_def is_digit_def)

lemma feed_all_ws:
  "calm s \<Longrightarrow> all_ws w \<Longrightarrow> js_feed_slice s w = (True, s)"
  by (induction w) (simp_all add: all_ws_is_ws feed_ws)

lemma settles_ws:
  assumes "settles s' s" and "calm s" and "all_ws w"
  shows "\<exists>s''. js_feed_slice s' w = (True, s'') \<and> settles s'' s"
proof (cases w)
  case Nil
  with assms show ?thesis by simp
next
  case (Cons b bs)
  then have "js_feed s' b = (True, s)"
    using assms by (simp add: all_ws_is_ws settles_feed ws_not_number feed_ws)
  moreover have "js_feed_slice s bs = (True, s)"
    using Cons assms by (intro feed_all_ws) (simp_all add: all_ws_is_ws)
  ultimately show ?thesis
    using Cons assms(2) by (simp add: settles_refl calm_def)
qed

subsection \<open>Strings, literals and numbers\<close>

lemma feed_in_string:
  assumes "\<not> invalid s" and "stack s = JString e u k # r" and "\<not> is_ws b"
  shows "js_feed s b = js_feed_string_byte s b e u"
  using assms by (simp add: js_feed.simps)

lemma hexdigit_not_ws: "is_hexdigit b \<Longrightarrow> \<not> is_ws b"
  by (auto simp: is_hexdigit_def is_digit_def is_ws_def)

lemma escape_not_ws: "simple_escape b \<Longrightarrow> \<not> is_ws b"
  by (auto simp: simple_escape_def is_ws_def)

lemma feed_string_body:
  assumes "string_body t" and "\<not> invalid s" and "stack s = JString False 0 k # r"
  shows "js_feed_slice s t = (True, s)"
  using assms
proof (induction t rule: string_body.induct)
  case (body_plain b t)
  then have "js_feed s b = (True, s)"
    using rfc_unescaped_plain [OF body_plain.hyps(1)]
    by (cases "is_ws b") (simp_all add: feed_ws calm_def top_number_def feed_in_string
        js_feed_string_byte_def)
  with body_plain show ?case by simp
next
  case (body_escape e t)
  let ?s = "s\<lparr>stack := JString True 0 k # r\<rparr>"
  have "js_feed s backslash = (True, ?s)"
    using body_escape.prems by (simp add: feed_in_string js_feed_string_byte_def is_ws_def)
  moreover have "js_feed ?s e = (True, s)"
    using body_escape.prems rfc_escape_simple [OF body_escape.hyps(1)]
    by (simp add: feed_in_string js_feed_string_byte_def escape_not_ws)
  ultimately show ?case using body_escape by simp
next
  case (body_unicode h1 h2 h3 h4 t)
  let ?s = "\<lambda>e u. s\<lparr>stack := JString e u k # r\<rparr>"
  have "js_feed s backslash = (True, ?s True 0)"
    using body_unicode.prems by (simp add: feed_in_string js_feed_string_byte_def is_ws_def)
  moreover have "js_feed (?s True 0) CHR ''u'' = (True, ?s False 4)"
    using body_unicode.prems
    by (simp add: feed_in_string js_feed_string_byte_def is_ws_def simple_escape_def)
  moreover have "js_feed (?s False u) h = (True, ?s False (u - 1))"
    if "u > 0" "is_hexdigit h" for u h
    using body_unicode.prems that
    by (simp add: feed_in_string js_feed_string_byte_def hexdigit_not_ws)
  moreover have "js_feed_slice (?s False 0) t = (True, s)"
  proof -
    have "?s False 0 = s" using body_unicode.prems(2) by (metis json_state.surjective
          json_state.update_convs(1) json_state.select_convs(1))
    with body_unicode.IH [OF body_unicode.prems] show ?thesis by (simp only:)
  qed
  ultimately show ?case using body_unicode.hyps(1) by (simp add: numeral_eq_Suc)
qed simp

text \<open>A state at which a value may begin, and what the value makes of it.\<close>

definition can_start :: "json_state \<Rightarrow> bool" where
  "can_start s \<longleftrightarrow> \<not> invalid s \<and>
     (case stack s of
        [] \<Rightarrow> \<not> finished s
      | JArray ev cc # r \<Rightarrow> ev \<and> \<not> cc
      | JObject ek ec ev cc # r \<Rightarrow> \<not> ek \<and> \<not> ec \<and> ev \<and> \<not> cc
      | _ \<Rightarrow> False)"

definition started :: "json_state \<Rightarrow> json_state" where
  "started s =
     (case stack s of
        JArray ev cc # r \<Rightarrow> s\<lparr>stack := JArray False True # r\<rparr>
      | JObject ek ec ev cc # r \<Rightarrow> s\<lparr>stack := JObject False False False True # r\<rparr>
      | _ \<Rightarrow> s)"

definition after_value :: "json_state \<Rightarrow> json_state" where
  "after_value s = js_fold_after_value (started s)"

lemma started_valid [simp]: "invalid (started s) = invalid s"
  by (auto simp: started_def split: list.splits js_frame.splits)

lemma after_value_calm: "can_start s \<Longrightarrow> calm (after_value s)"
  by (auto simp: can_start_def after_value_def started_def js_fold_after_value_def calm_def
      top_number_def split: list.splits js_frame.splits)

lemma can_start_calm: "can_start s \<Longrightarrow> calm s"
  by (auto simp: can_start_def calm_def top_number_def split: list.splits js_frame.splits)

lemma feed_start:
  assumes "can_start s" and "\<not> is_ws b" and "b \<noteq> CHR '']''"
  shows "js_feed s b = js_start_value (started s) b"
  using assms
  by (auto simp: js_feed.simps [of s] can_start_def started_def js_feed_top_level_byte_def
      js_feed_array_byte_def js_feed_object_byte_def split: list.splits js_frame.splits)

lemma pop_push [simp]: "js_pop (js_push f s) = s"
  by (simp add: js_pop_def js_push_def)

lemma push_update [simp]: "(js_push f s)\<lparr>stack := g # stack s\<rparr> = js_push g s"
  by (simp add: js_push_def)

lemma feed_literal_step:
  assumes "\<not> invalid s" and "\<not> is_ws x"
  shows "js_feed (js_push (JLiteral (x # xs)) s) x =
    (True, if xs = [] then js_fold_after_value s else js_push (JLiteral xs) s)"
  using assms by (simp add: js_feed.simps js_feed_literal_byte_def)

lemma feed_literal:
  assumes "\<not> invalid s" and "list_all (\<lambda>b. \<not> is_ws b) xs" and "xs \<noteq> []"
  shows "js_feed_slice (js_push (JLiteral xs) s) xs = (True, js_fold_after_value s)"
  using assms
proof (induction xs)
  case (Cons x xs)
  then show ?case
    by (cases "xs = []") (simp_all add: feed_literal_step del: js_feed.simps)
qed simp

lemma feed_key_or_string:
  assumes "\<not> invalid s" and "string_body t"
  shows "js_feed_slice (js_push (JString False 0 k) s) (t @ [dquote]) =
    (True, if k then js_close_key s else js_fold_after_value s)"
proof -
  let ?s = "js_push (JString False 0 k) s"
  have "js_feed_slice ?s t = (True, ?s)"
    using assms by (intro feed_string_body) simp_all
  moreover have "js_feed ?s dquote = (True, if k then js_close_key s else js_fold_after_value s)"
    using assms(1) by (simp add: feed_in_string js_feed_string_byte_def is_ws_def)
  ultimately show ?thesis by (simp add: js.slice_append)
qed

lemma feed_number_step:
  assumes "\<not> invalid s" and "\<not> is_ws b"
  shows "js_feed (js_push (JNumber sd dt ex sg xd) s) b =
    (if is_digit b then (True, js_push (JNumber True dt ex sg (if ex then True else xd)) s)
     else if b = CHR ''.'' \<and> \<not> dt \<and> \<not> ex \<and> sd then (True, js_push (JNumber sd True ex sg xd) s)
     else if (b = CHR ''e'' \<or> b = CHR ''E'') \<and> \<not> ex \<and> sd
       then (True, js_push (JNumber sd dt True sg xd) s)
     else if (b = CHR ''+'' \<or> b = CHR ''-'') \<and> ex \<and> \<not> sg \<and> \<not> xd
       then (True, js_push (JNumber sd dt ex True xd) s)
     else if \<not> sd \<or> (ex \<and> \<not> xd) then js_reject (js_push (JNumber sd dt ex sg xd) s)
     else js_feed (js_fold_after_value s) b)"
  using assms
  by (simp add: js_feed.simps [of "js_push (JNumber sd dt ex sg xd) s"]
      js_feed_number_byte.simps [of "js_push (JNumber sd dt ex sg xd) s"]
      split del: if_split cong: if_cong)

lemma feed_digits:
  assumes "\<not> invalid s" and "list_all is_digit ds"
  shows "js_feed_slice (js_push (JNumber sd dt ex sg xd) s) ds =
    (True, js_push (JNumber (sd \<or> ds \<noteq> []) dt ex sg (if ex then xd \<or> ds \<noteq> [] else xd)) s)"
  using assms(2)
proof (induction ds arbitrary: sd xd)
  case (Cons d ds)
  then have "js_feed (js_push (JNumber sd dt ex sg xd) s) d =
      (True, js_push (JNumber True dt ex sg (if ex then True else xd)) s)"
    using assms(1) by (simp add: feed_number_step digit_not_ws)
  with Cons show ?case by simp
qed simp

lemma feed_number_char:
  assumes "\<not> invalid s"
  shows "js_feed (js_push (JNumber True False False False False) s) CHR ''.'' =
      (True, js_push (JNumber True True False False False) s)"
    and "e \<in> {CHR ''e'', CHR ''E''} \<Longrightarrow> js_feed (js_push (JNumber True dt False False False) s) e =
      (True, js_push (JNumber True dt True False False) s)"
    and "g \<in> {CHR ''+'', CHR ''-''} \<Longrightarrow> js_feed (js_push (JNumber True dt True False False) s) g =
      (True, js_push (JNumber True dt True True False) s)"
  using assms
  by (auto simp: feed_number_step is_ws_def is_digit_def)

lemma feed_exponent:
  assumes "\<not> invalid s" and "json_exp ep"
  shows "\<exists>ex sg xd. js_feed_slice (js_push (JNumber True dt False False False) s) ep =
    (True, js_push (JNumber True dt ex sg xd) s) \<and> (ex \<longrightarrow> xd)"
proof (cases "ep = []")
  case True
  then show ?thesis by auto
next
  case False
  with assms(2) obtain e sg ds where e: "e \<in> {CHR ''e'', CHR ''E''}"
    and sg: "sg \<in> {[], ''+'', ''-''}" and ds: "digits1 ds" and ep: "ep = e # sg @ ds"
    by (auto simp: json_exp_def)
  let ?n = "\<lambda>sg. js_push (JNumber True dt True sg False) s"
  have "js_feed_slice (?n False) sg = (True, ?n (sg \<noteq> []))"
    using sg assms(1) by (auto simp: feed_number_char(3))
  moreover have "js_feed_slice (?n g) ds = (True, js_push (JNumber True dt True g True) s)" for g
    using ds assms(1) by (simp add: feed_digits digits1_def)
  ultimately show ?thesis
    using e ep assms(1)
    by (fastforce simp: feed_number_char(2) js.slice_append)
qed

lemma feed_fraction:
  assumes "\<not> invalid s" and "json_frac fp"
  shows "\<exists>dt. js_feed_slice (js_push (JNumber True False False False False) s) fp =
    (True, js_push (JNumber True dt False False False) s)"
proof (cases "fp = []")
  case False
  with assms(2) obtain ds where "digits1 ds" and "fp = CHR ''.'' # ds"
    by (auto simp: json_frac_def)
  with assms(1) show ?thesis by (auto simp: feed_number_char(1) feed_digits digits1_def)
qed auto

lemma settles_number:
  "\<not> invalid s \<Longrightarrow> (ex \<longrightarrow> xd) \<Longrightarrow>
     settles (js_push (JNumber True dt ex sg xd) s) (js_fold_after_value s)"
  by (auto simp: settles_def)

lemma feed_number_rest:
  assumes "\<not> invalid s" and "list_all is_digit ds" and "sd \<or> ds \<noteq> []"
    and "json_frac fp" and "json_exp ep"
  shows "\<exists>s'. js_feed_slice (js_push (JNumber sd False False False False) s) (ds @ fp @ ep)
    = (True, s') \<and> settles s' (js_fold_after_value s)"
proof -
  let ?n = "\<lambda>sd dt. js_push (JNumber sd dt False False False) s"
  have "js_feed_slice (?n sd False) ds = (True, ?n True False)"
    using assms(1-3) by (simp add: feed_digits)
  moreover obtain dt where "js_feed_slice (?n True False) fp = (True, ?n True dt)"
    using feed_fraction [OF assms(1,4)] by blast
  moreover obtain ex sg xd where "js_feed_slice (?n True dt) ep =
      (True, js_push (JNumber True dt ex sg xd) s)" and "ex \<longrightarrow> xd"
    using feed_exponent [OF assms(1,5)] by blast
  ultimately show ?thesis
    using assms(1) settles_number by (simp add: js.slice_append)
qed

subsection \<open>Values\<close>

lemma feed_literal_value:
  assumes "can_start s" and "(b, rest) \<in> {(CHR ''t'', ''rue''), (CHR ''f'', ''alse''), (CHR ''n'', ''ull'')}"
  shows "js_feed_slice s (b # rest) = (True, after_value s)"
proof -
  have v: "\<not> invalid (started s)" using assms(1) by (simp add: can_start_def)
  have "js_feed s b = (True, js_push (JLiteral rest) (started s))"
    using assms by (auto simp: feed_start is_ws_def js_start_value_def)
  moreover have "js_feed_slice (js_push (JLiteral rest) (started s)) rest = (True, after_value s)"
    unfolding after_value_def using assms(2) v by (intro feed_literal) (auto simp: is_ws_def)
  ultimately show ?thesis by (simp only: js.slice_step)
qed

lemma feed_string_value:
  assumes "can_start s" and "json_string t"
  shows "js_feed_slice s t = (True, after_value s)"
proof -
  obtain body where body: "string_body body" and t: "t = dquote # body @ [dquote]"
    using assms(2) by (auto simp: json_string_def)
  have v: "\<not> invalid (started s)" using assms(1) by (simp add: can_start_def)
  have "js_feed s dquote = (True, js_push (JString False 0 False) (started s))"
    using assms(1) by (simp add: feed_start is_ws_def js_start_value_def)
  with feed_key_or_string [OF v body, of False] show ?thesis
    by (simp add: t after_value_def)
qed

lemma feed_number_value:
  assumes "can_start s" and "json_number t"
  shows "\<exists>s'. js_feed_slice s t = (True, s') \<and> settles s' (after_value s)"
proof -
  from assms(2) obtain mn ip fp ep where mn: "mn \<in> {[], ''-''}" and ip: "json_int ip"
    and fp: "json_frac fp" and ep: "json_exp ep" and t: "t = mn @ ip @ fp @ ep"
    unfolding json_number_def by blast
  have v: "\<not> invalid (started s)" using assms(1) by (simp add: can_start_def)
  from ip obtain d ds where ip_eq: "ip = d # ds" and d: "is_digit d" and ds: "list_all is_digit ds"
    by (cases ip) (auto simp: json_int_def digits1_def)
  show ?thesis
  proof (cases "mn = []")
    case True
    have "js_feed s d = (True, js_push (JNumber True False False False False) (started s))"
      using assms(1) d digit_cases [OF d]
      by (simp add: feed_start digit_not_ws js_start_value_def)
    with feed_number_rest [OF v ds _ fp ep, of True] show ?thesis
      by (simp add: t True ip_eq after_value_def)
  next
    case False
    then have t': "t = CHR ''-'' # ip @ fp @ ep" using mn t by simp
    have "js_feed s CHR ''-'' = (True, js_push (JNumber False False False False False) (started s))"
      using assms(1) by (simp add: feed_start is_ws_def js_start_value_def is_digit_def)
    with feed_number_rest [OF v _ _ fp ep, of ip False] ip_eq d ds show ?thesis
      by (simp add: t' after_value_def)
  qed
qed

lemma feed_open:
  assumes "can_start s"
  shows "js_feed s CHR ''['' = (True, js_push (JArray True False) (started s))"
    and "js_feed s CHR ''{'' = (True, js_push (JObject True False False False) (started s))"
  using assms by (simp_all add: feed_start is_ws_def js_start_value_def)

lemma feed_close_array:
  assumes "\<not> invalid s"
  shows "js_feed (js_push (JArray ev True) s) CHR '']'' = (True, js_fold_after_value s)"
    and "js_feed (js_push (JArray True cc) s) CHR '']'' = (True, js_fold_after_value s)"
    and "js_feed (js_push (JArray False True) s) CHR '','' = (True, js_push (JArray True False) s)"
  using assms by (simp_all add: js_feed.simps js_feed_array_byte_def is_ws_def)

lemma feed_close_object:
  assumes "\<not> invalid s"
  shows "js_feed (js_push (JObject False False False True) s) CHR ''}'' = (True, js_fold_after_value s)"
    and "js_feed (js_push (JObject True ec ev cc) s) CHR ''}'' = (True, js_fold_after_value s)"
    and "js_feed (js_push (JObject False False False True) s) CHR '','' =
      (True, js_push (JObject True False False False) s)"
    and "js_feed (js_push (JObject False True ev cc) s) CHR '':'' =
      (True, js_push (JObject False False True cc) s)"
    and "js_feed (js_push (JObject True ec ev cc) s) dquote =
      (True, js_push (JString False 0 True) (js_push (JObject False ec ev cc) s))"
  using assms by (simp_all add: js_feed.simps js_feed_object_byte_def is_ws_def js_push_def js_pop_def)

lemma calm_push:
  "\<not> invalid s \<Longrightarrow> calm (js_push (JArray ev cc) s)"
  "\<not> invalid s \<Longrightarrow> calm (js_push (JObject ek ec ev cc) s)"
  by (simp_all add: calm_def top_number_def)

lemma can_start_push:
  "\<not> invalid s \<Longrightarrow> can_start (js_push (JArray True False) s)"
  "\<not> invalid s \<Longrightarrow> can_start (js_push (JObject False False True False) s)"
  by (simp_all add: can_start_def)

lemma after_value_push:
  "after_value (js_push (JArray True False) s) = js_push (JArray False True) s"
  "after_value (js_push (JObject False False True False) s) =
     js_push (JObject False False False True) s"
  by (simp_all add: after_value_def started_def js_fold_after_value_def js_push_def)

text \<open>Whitespace, a value, whitespace: the part the elements and the members share.\<close>

lemma feed_padded_value:
  assumes "can_start s" and "all_ws w1" and "all_ws w2"
    and v: "\<And>s. can_start s \<Longrightarrow> \<exists>s'. js_feed_slice s v = (True, s') \<and> settles s' (after_value s)"
  shows "\<exists>s'. js_feed_slice s (w1 @ v @ w2) = (True, s') \<and> settles s' (after_value s)"
proof -
  have "js_feed_slice s w1 = (True, s)"
    using assms(1,2) by (intro feed_all_ws can_start_calm)
  moreover obtain s1 where "js_feed_slice s v = (True, s1)" and s1: "settles s1 (after_value s)"
    using v [OF assms(1)] by blast
  moreover obtain s2 where "js_feed_slice s1 w2 = (True, s2)" and "settles s2 (after_value s)"
    using settles_ws [OF s1 after_value_calm [OF assms(1)] assms(3)] by blast
  ultimately show ?thesis by (simp add: js.slice_append)
qed

lemma feed_key:
  assumes "\<not> invalid s" and "all_ws w1" and "json_string k" and "all_ws w2"
  shows "js_feed_slice (js_push (JObject True False False False) s) (w1 @ k @ w2 @ CHR '':'' # t)
    = js_feed_slice (js_push (JObject False False True False) s) t"
proof -
  let ?o = "\<lambda>ek ec ev. js_push (JObject ek ec ev False) s"
  obtain body where body: "string_body body" and k: "k = dquote # body @ [dquote]"
    using assms(3) by (auto simp: json_string_def)
  have w: "js_feed_slice (?o ek ec ev) w = (True, ?o ek ec ev)" if "all_ws w" for w ek ec ev
    using assms(1) that by (intro feed_all_ws calm_push)
  have "js_feed_slice (?o True False False) k = (True, js_close_key (?o False False False))"
    using feed_key_or_string [OF _ body, of "?o False False False" True] assms(1)
    by (simp add: k feed_close_object)
  also have "js_close_key (?o False False False) = ?o False True False"
    by (simp add: js_close_key_def js_push_def)
  finally show ?thesis
    using w [OF assms(2)] w [OF assms(4)] assms(1)
    by (simp add: js.slice_append feed_close_object)
qed

lemma feed_value_parts:
  "json_value v \<Longrightarrow> can_start s \<Longrightarrow>
     \<exists>s'. js_feed_slice s v = (True, s') \<and> settles s' (after_value s)"
  "json_elements es \<Longrightarrow> \<not> invalid p \<Longrightarrow>
     \<exists>s'. js_feed_slice (js_push (JArray True False) p) es = (True, s')
       \<and> settles s' (js_push (JArray False True) p)"
  "json_members ms \<Longrightarrow> \<not> invalid q \<Longrightarrow>
     \<exists>s'. js_feed_slice (js_push (JObject True False False False) q) ms = (True, s')
       \<and> settles s' (js_push (JObject False False False True) q)"
proof (induction arbitrary: s and p and q rule: json_value_json_elements_json_members.inducts)
  case value_true
  with feed_literal_value [of s "CHR ''t''" "''rue''"] show ?case
    by (simp add: settles_refl after_value_calm [unfolded calm_def])
next
  case value_false
  with feed_literal_value [of s "CHR ''f''" "''alse''"] show ?case
    by (simp add: settles_refl after_value_calm [unfolded calm_def])
next
  case value_null
  with feed_literal_value [of s "CHR ''n''" "''ull''"] show ?case
    by (simp add: settles_refl after_value_calm [unfolded calm_def])
next
  case (value_number t)
  then show ?case by (intro feed_number_value)
next
  case (value_string t)
  with feed_string_value [of s t] show ?case
    by (simp add: settles_refl after_value_calm [unfolded calm_def])
next
  case (value_array_empty w)
  then have v: "\<not> invalid (started s)" by (simp add: can_start_def)
  have "js_feed_slice (js_push (JArray True False) (started s)) w =
      (True, js_push (JArray True False) (started s))"
    using v value_array_empty by (intro feed_all_ws calm_push)
  then show ?case
    using value_array_empty v feed_close_array [OF v] after_value_calm [of s]
    by (simp add: feed_open js.slice_append settles_refl calm_def after_value_def)
next
  case (value_array t)
  then have v: "\<not> invalid (started s)" by (simp add: can_start_def)
  obtain s1 where "js_feed_slice (js_push (JArray True False) (started s)) t = (True, s1)"
    and "settles s1 (js_push (JArray False True) (started s))"
    using value_array.IH [OF v] by blast
  then show ?case
    using value_array.prems v feed_close_array [OF v] after_value_calm [of s]
      settles_feed [of s1 "js_push (JArray False True) (started s)" "CHR '']''"]
    by (simp add: feed_open js.slice_append settles_refl calm_def after_value_def
        calm_push number_byte_def is_digit_def top_number_def)
next
  case (value_object_empty w)
  then have v: "\<not> invalid (started s)" by (simp add: can_start_def)
  have "js_feed_slice (js_push (JObject True False False False) (started s)) w =
      (True, js_push (JObject True False False False) (started s))"
    using v value_object_empty by (intro feed_all_ws calm_push)
  then show ?case
    using value_object_empty v feed_close_object [OF v] after_value_calm [of s]
    by (simp add: feed_open js.slice_append settles_refl calm_def after_value_def)
next
  case (value_object t)
  then have v: "\<not> invalid (started s)" by (simp add: can_start_def)
  obtain s1 where "js_feed_slice (js_push (JObject True False False False) (started s)) t = (True, s1)"
    and "settles s1 (js_push (JObject False False False True) (started s))"
    using value_object.IH [OF v] by blast
  then show ?case
    using value_object.prems v feed_close_object [OF v] after_value_calm [of s]
      settles_feed [of s1 "js_push (JObject False False False True) (started s)" "CHR ''}''"]
    by (simp add: feed_open js.slice_append settles_refl calm_def after_value_def
        calm_push number_byte_def is_digit_def top_number_def)
next
  case (elements_one w1 v w2)
  then show ?case
    using feed_padded_value [OF can_start_push(1) _ _ elements_one.IH, of p w1 w2]
    by (simp add: after_value_push)
next
  case (elements_more w1 v w2 t)
  obtain s1 where "js_feed_slice (js_push (JArray True False) p) (w1 @ v @ w2) = (True, s1)"
    and "settles s1 (js_push (JArray False True) p)"
    using feed_padded_value [OF can_start_push(1) _ _ elements_more.IH(1), of p w1 w2]
      elements_more by (auto simp: after_value_push)
  then show ?case
    using elements_more.IH(2) [OF elements_more.prems] elements_more.prems
      settles_feed [of s1 "js_push (JArray False True) p" "CHR '',''"]
      js.slice_join [of "js_push (JArray True False) p" "w1 @ v @ w2" s1 "CHR '','' # t"]
    by (simp add: calm_push number_byte_def is_digit_def feed_close_array)
next
  case (members_one w1 k w2 w3 v w4)
  then show ?case
    using feed_padded_value [OF can_start_push(2) _ _ members_one.IH, of q w3 w4]
    by (simp add: after_value_push feed_key)
next
  case (members_more w1 k w2 w3 v w4 t)
  obtain s1 where "js_feed_slice (js_push (JObject False False True False) q) (w3 @ v @ w4) = (True, s1)"
    and "settles s1 (js_push (JObject False False False True) q)"
    using feed_padded_value [OF can_start_push(2) _ _ members_more.IH(1), of q w3 w4]
      members_more by (auto simp: after_value_push)
  then show ?case
    using members_more.IH(2) [OF members_more.prems] members_more.prems members_more.hyps
      settles_feed [of s1 "js_push (JObject False False False True) q" "CHR '',''"]
      js.slice_join [of "js_push (JObject False False True False) q" "w3 @ v @ w4" s1 "CHR '','' # t"]
    by (simp add: calm_push number_byte_def is_digit_def feed_close_object feed_key)
qed

text \<open>
  The end of the stream settles a number, and a text that does not end in one is complete as it
  stands.
\<close>

lemma settles_complete:
  assumes "settles s' s" and "js_is_complete s" and "calm s"
  shows "js_is_complete (js_finalize_at_eos s')"
  using assms
  by (auto simp: settles_def js_finalize_at_eos_def js_is_complete_def calm_def top_number_def
      split: list.splits js_frame.splits)

lemma accepts_text:
  assumes "json_text t"
  shows "\<exists>s. js_feed_slice js_new t = (True, s) \<and> js_is_complete (js_finalize_at_eos s)"
proof -
  obtain w1 v w2 where w: "all_ws w1" "all_ws w2" and v: "json_value v" and t: "t = w1 @ v @ w2"
    using assms by (auto simp: json_text_def)
  have s0: "can_start js_new" by (simp add: can_start_def js_new_def)
  obtain s where "js_feed_slice js_new t = (True, s)" and "settles s (after_value js_new)"
    using feed_padded_value [OF s0 w feed_value_parts(1) [OF v]] by (auto simp: t)
  moreover have "js_is_complete (after_value js_new)"
    by (simp add: after_value_def started_def js_fold_after_value_def js_new_def js_is_complete_def)
  ultimately show ?thesis
    using settles_complete after_value_calm [OF s0] by blast
qed

subsection \<open>Properties\<close>

text \<open>
  C1: Every text of RFC 8259, with whitespace wherever the grammar allows it, is accepted byte by
  byte, and after the end of the stream has settled a trailing number the validator reports it
  complete.
\<close>

theorem js_accepts_rfc8259:
  assumes "json_text t"
  shows "fst (js_feed_slice js_new t)
    \<and> js_is_complete (js_finalize_at_eos (snd (js_feed_slice js_new t)))"
  using accepts_text [OF assms] by auto

lemma json_text_example: "json_text '' [1,true]''"
proof -
  have "json_number ''1''"
    unfolding json_number_def json_int_def json_frac_def json_exp_def digits1_def
    by (intro exI [of _ "[]"] exI [of _ "''1''"]) (simp add: is_digit_def)
  then have "json_value ''1''" by (rule value_number)
  moreover have "json_elements ''true''"
    using elements_one [of "[]" "''true''" "[]"] value_true by (simp add: all_ws_is_ws)
  ultimately have "json_elements ''1,true''"
    using elements_more [of "[]" "''1''" "[]" "''true''"] by (simp add: all_ws_is_ws)
  then have "json_value ''[1,true]''"
    using value_array [of "''1,true''"] by simp
  then show ?thesis
    unfolding json_text_def
    by (intro exI [of _ "'' ''"] exI [of _ "''[1,true]''"] exI [of _ "[]"])
       (simp add: all_ws_is_ws is_ws_def)
qed

theorem js_accepts_rfc8259_witness:
  "fst (js_feed_slice js_new '' [1,true]'')
   \<and> js_is_complete (js_finalize_at_eos (snd (js_feed_slice js_new '' [1,true]'')))"
  using js_accepts_rfc8259 [OF json_text_example] by blast

lemma feed_elements_closed:
  assumes "json_elements t"
  shows "\<exists>s'. js_feed_slice js_new (CHR ''['' # t) = (True, s')
    \<and> settles s' (js_push (JArray False True) js_new)"
proof -
  have new: "can_start js_new" "started js_new = js_new" "\<not> invalid js_new"
    by (simp_all add: can_start_def js_new_def started_def)
  show ?thesis
    using feed_value_parts(2) [OF assms new(3)] by (simp add: feed_open(1) [OF new(1)] new(2))
qed

text \<open>
  The validator does not enforce RFC 8259 on separators: after any list of elements, a comma
  and then the closing bracket are accepted, and the text counts as complete.
\<close>

theorem js_trailing_comma:
  assumes "json_elements t"
  shows "js_is_complete (snd (js_feed_slice js_new (CHR ''['' # t @ '',]'')))"
proof -
  have v: "\<not> invalid js_new" by (simp add: js_new_def)
  obtain s' where s': "js_feed_slice js_new (CHR ''['' # t) = (True, s')"
    and "settles s' (js_push (JArray False True) js_new)"
    using feed_elements_closed [OF assms] by blast
  then have "js_feed s' CHR '','' = (True, js_push (JArray True False) js_new)"
    using settles_feed [of s' "js_push (JArray False True) js_new" "CHR '',''"]
      feed_close_array(3) [OF v]
    by (simp add: calm_push [OF v] number_byte_def is_digit_def)
  then have "js_feed_slice js_new (CHR ''['' # t @ '',]'') = (True, js_fold_after_value js_new)"
    using js.slice_join [OF s', of "'',]''"] by (simp add: feed_close_array(2) [OF v])
  then show ?thesis
    by (simp only: snd_conv)
       (simp add: js_fold_after_value_def js_new_def js_is_complete_def)
qed

theorem js_trailing_comma_witness:
  "json_elements ''true'' \<and> js_is_complete (snd (js_feed_slice js_new ''[true,]''))"
proof -
  have e: "json_elements ''true''"
    using elements_one [of "[]" "''true''" "[]"] value_true by (simp add: all_ws_is_ws)
  show ?thesis using js_trailing_comma [OF e] e by simp
qed

text \<open>
  Inside a string the validator skips the whitespace bytes before it looks at them, so a raw
  tab, line feed or carriage return, which RFC 8259 forbids there, is accepted after any string
  content.
\<close>

theorem js_raw_whitespace_in_string:
  assumes "string_body t" and "is_ws w"
  shows "js_is_complete (snd (js_feed_slice js_new (dquote # t @ [w, dquote])))"
proof -
  let ?s = "js_push (JString False 0 False) js_new"
  have v: "\<not> invalid ?s" "\<not> invalid js_new" by (simp_all add: js_new_def)
  have "js_feed js_new dquote = (True, ?s)"
    using feed_start [of js_new dquote]
    by (simp add: can_start_def started_def js_new_def is_ws_def js_start_value_def)
  moreover have "js_feed_slice ?s t = (True, ?s)"
    using assms(1) v by (intro feed_string_body) simp_all
  moreover have "js_feed ?s w = (True, ?s)"
    using assms(2) v by (intro feed_ws) (simp_all add: calm_def top_number_def)
  ultimately have "js_feed_slice js_new (dquote # t @ [w, dquote]) =
      (True, js_fold_after_value js_new)"
    using feed_key_or_string [OF v(2) body_nil, of False]
    by (simp add: js.slice_append del: js_feed_slice.simps(2) add: js.slice_step)
  then show ?thesis
    by (simp only: snd_conv)
       (simp add: js_fold_after_value_def js_new_def js_is_complete_def)
qed

theorem js_raw_whitespace_in_string_witness:
  "js_is_complete (snd (js_feed_slice js_new [dquote, CHR ''a'', CHR 0x0A, dquote]))"
proof -
  have "string_body ''a''"
    by (intro string_body.intros) (simp_all add: rfc_unescaped_def)
  moreover have "is_ws CHR 0x0A" by (simp add: is_ws_def)
  ultimately show ?thesis
    using js_raw_whitespace_in_string [of "''a''" "CHR 0x0A"] by simp
qed

end
