(* ===== verification/Json_Schema.thy ===== *)
theory Json_Schema
  imports Json_Grammar "HOL-Library.AList"
begin

section \<open>Schema-constrained decoding (\<^verbatim>\<open>crates/runtime/src/json_schema.rs\<close>)\<close>

text \<open>
  \<^verbatim>\<open>SchemaState\<close> has the surface of \<^verbatim>\<open>JsonState\<close> and enforces a compiled JSON schema as
  well. The Rust \<^verbatim>\<open>Vec\<close> of frames is pushed and popped at its end only; here the end is the
  head of the list.

  A Rust \<^verbatim>\<open>String\<close> is a list of code points. The model keeps it so, because a key is read with
  \<^verbatim>\<open>pending_key.push(b as char)\<close>, which makes one code point of each byte.
\<close>

type_synonym ustring = "nat list"

definition ustr :: "string \<Rightarrow> ustring" where
  "ustr s = map of_char s"

definition byte_char :: "byte \<Rightarrow> nat" where
  "byte_char b = of_char b"

subsection \<open>Compiled schemas\<close>

text \<open>
  A \<^verbatim>\<open>BTreeMap<String, Node>\<close> is an association list: the code asks only for a key's node and
  for the set of keys.
\<close>

datatype node =
    NAny
  | NBool
  | NNull
  | NInt
  | NNum
  | NStr
  | NEnum "bytes list"
  | NObject (properties: "(ustring \<times> node) list") (required: "ustring list") (additional: bool)
  | NArray node

text \<open>
  The schema arrives as a \<^verbatim>\<open>serde_json::Value\<close>: the variants below are those the code matches
  on, with the numbers left abstract. \<^verbatim>\<open>serde_json::to_vec\<close>, which renders an \<^verbatim>\<open>enum\<close>
  literal, is a parameter.
\<close>

datatype 'n jvalue =
    VNull
  | VBool bool
  | VNumber 'n
  | VString ustring
  | VArray "'n jvalue list"
  | VObject "(ustring \<times> 'n jvalue) list"

fun as_str :: "'n jvalue \<Rightarrow> ustring option" where
  "as_str (VString s) = Some s"
| "as_str _ = None"

fun as_array :: "'n jvalue \<Rightarrow> 'n jvalue list option" where
  "as_array (VArray vs) = Some vs"
| "as_array _ = None"

fun as_object :: "'n jvalue \<Rightarrow> (ustring \<times> 'n jvalue) list option" where
  "as_object (VObject m) = Some m"
| "as_object _ = None"

definition obj_get :: "(ustring \<times> 'n jvalue) list \<Rightarrow> string \<Rightarrow> 'n jvalue option" where
  "obj_get obj k = map_of obj (ustr k)"

definition schema_required :: "(ustring \<times> 'n jvalue) list \<Rightarrow> ustring list" where
  "schema_required obj =
     (case obj_get obj ''required'' of
        Some v \<Rightarrow> (case as_array v of Some a \<Rightarrow> List.map_filter as_str a | None \<Rightarrow> [])
      | None \<Rightarrow> [])"

definition schema_additional :: "(ustring \<times> 'n jvalue) list \<Rightarrow> bool" where
  "schema_additional obj =
     (case obj_get obj ''additionalProperties'' of Some (VBool True) \<Rightarrow> True | _ \<Rightarrow> False)"

definition schema_props :: "(ustring \<times> 'n jvalue) list \<Rightarrow> (ustring \<times> 'n jvalue) list" where
  "schema_props obj =
     (case obj_get obj ''properties'' of
        Some v \<Rightarrow> (case as_object v of Some m \<Rightarrow> m | None \<Rightarrow> [])
      | None \<Rightarrow> [])"

definition insert_all :: "(ustring \<times> 'b) list \<Rightarrow> (ustring \<times> 'b) list" where
  "insert_all kvs = fold (\<lambda>(k, v) m. AList.update k v m) kvs []"

lemma as_object_Some: "as_object v = Some m \<longleftrightarrow> v = VObject m"
  "Some m = as_object v \<longleftrightarrow> v = VObject m"
  by (cases v; auto)+

lemma obj_get_size [termination_simp]:
  "obj_get obj k = Some v \<Longrightarrow> size v < size (VObject obj)"
  unfolding obj_get_def by (induction obj) (auto split: if_splits)

lemma schema_props_size [termination_simp]:
  "(k, v) \<in> set (schema_props obj) \<Longrightarrow> size v < size (VObject obj)"
proof -
  assume kv: "(k, v) \<in> set (schema_props obj)"
  then obtain m where m: "obj_get obj ''properties'' = Some (VObject m)"
    by (cases "obj_get obj ''properties''"; cases "as_object (the (obj_get obj ''properties''))")
       (auto simp: schema_props_def as_object_Some)
  with kv have "(k, v) \<in> set m" by (simp add: schema_props_def)
  then have "size v < size (VObject m)"
    by (induction m) auto
  with obj_get_size [OF m] show ?thesis by simp
qed

function node_compile :: "('n jvalue \<Rightarrow> bytes) \<Rightarrow> 'n jvalue \<Rightarrow> node" where
  "node_compile to_vec schema =
     (case schema of
        VObject obj \<Rightarrow>
          (case obj_get obj ''const'' of
             Some c \<Rightarrow> NEnum [to_vec c]
           | None \<Rightarrow>
          (case obj_get obj ''enum'' of
             Some (VArray values) \<Rightarrow> NEnum (map to_vec values)
           | _ \<Rightarrow>
          (let ty = Option.bind (obj_get obj ''type'') as_str;
               compile_object = NObject
                 (insert_all (map (\<lambda>(k, v). (k, node_compile to_vec v)) (schema_props obj)))
                 (schema_required obj) (schema_additional obj)
           in if ty = Some (ustr ''object'') then compile_object
              else if ty = Some (ustr ''array'') then
                NArray (case obj_get obj ''items'' of
                          Some it \<Rightarrow> node_compile to_vec it | None \<Rightarrow> NAny)
              else if ty = Some (ustr ''string'') then NStr
              else if ty = Some (ustr ''integer'') then NInt
              else if ty = Some (ustr ''number'') then NNum
              else if ty = Some (ustr ''boolean'') then NBool
              else if ty = Some (ustr ''null'') then NNull
              else if obj_get obj ''properties'' \<noteq> None then compile_object
              else NAny)))
      | _ \<Rightarrow> NAny)"
  by pat_completeness auto
termination
  by (relation "measure (\<lambda>(_, v). size v)")
     (auto dest: obj_get_size schema_props_size simp del: jvalue.size)

declare node_compile.simps [simp del]

subsection \<open>State\<close>

datatype obj_stage =
    ExpectKeyOrClose | ExpectKey | InKey | ExpectColon | ExpectValue | ExpectCommaOrClose

datatype arr_stage = ArrExpectValueOrClose | ArrExpectValue | ArrExpectCommaOrClose

datatype ss_frame =
    SEnum (candidates: "bytes list") (pos: nat)
  | SStr (str_escape: bool) (str_unicode_remaining: nat)
  | SNum (num_integer: bool) (num_seen_digit: bool) (num_seen_dot: bool) (num_seen_exp: bool)
         (num_seen_exp_sign: bool) (num_seen_exp_digit: bool)
  | SLiteral (lit_expected: bytes)
  | SObject (node_props: "(ustring \<times> node) list") (obj_required: "ustring list")
            (obj_additional: bool) (seen: "ustring list") (obj_stage: obj_stage)
            (pending_key: ustring)
  | SArray (items: node) (arr_stage: arr_stage)

record schema_state =
  ss_root :: node
  ss_stack :: "ss_frame list"
  ss_started :: bool
  ss_finished :: bool
  ss_invalid :: bool

definition ss_new :: "node \<Rightarrow> schema_state" where
  "ss_new root = \<lparr>ss_root = root, ss_stack = [], ss_started = False, ss_finished = False,
     ss_invalid = False\<rparr>"

definition ss_is_valid :: "schema_state \<Rightarrow> bool" where
  "ss_is_valid s = (\<not> ss_invalid s)"

definition ss_is_complete :: "schema_state \<Rightarrow> bool" where
  "ss_is_complete s = (\<not> ss_invalid s \<and> ss_finished s \<and> ss_stack s = [])"

definition ss_has_started :: "schema_state \<Rightarrow> bool" where
  "ss_has_started s = ss_started s"

definition ss_reject :: "schema_state \<Rightarrow> bool \<times> schema_state" where
  "ss_reject s = (False, s\<lparr>ss_invalid := True\<rparr>)"

definition ss_push :: "ss_frame \<Rightarrow> schema_state \<Rightarrow> schema_state" where
  "ss_push f s = s\<lparr>ss_stack := f # ss_stack s\<rparr>"

definition ss_pop :: "schema_state \<Rightarrow> schema_state" where
  "ss_pop s = s\<lparr>ss_stack := tl (ss_stack s)\<rparr>"

definition ss_fold_after_value :: "schema_state \<Rightarrow> schema_state" where
  "ss_fold_after_value s =
     (case ss_stack s of
        [] \<Rightarrow> s\<lparr>ss_finished := True\<rparr>
      | SArray it st # rest \<Rightarrow>
          (if st = ArrExpectValueOrClose
           then s\<lparr>ss_stack := SArray it ArrExpectCommaOrClose # rest\<rparr> else s)
      | _ \<Rightarrow> s)"

subsection \<open>Opening a value\<close>

definition object_frame :: "node \<Rightarrow> ss_frame" where
  "object_frame n =
     (case n of
        NObject ps req add \<Rightarrow> SObject ps req add [] ExpectKeyOrClose []
      | _ \<Rightarrow> SObject [] [] True [] ExpectKeyOrClose [])"

definition single_byte_enum_done :: "ss_frame \<Rightarrow> bool" where
  "single_byte_enum_done f =
     (case f of SEnum cands p \<Rightarrow> list_all (\<lambda>c. length c = p) cands | _ \<Rightarrow> False)"

definition ss_open_string :: "schema_state \<Rightarrow> byte \<Rightarrow> bool \<times> schema_state" where
  "ss_open_string s b =
     (if b \<noteq> dquote then ss_reject s else (True, ss_push (SStr False 0) s))"

definition ss_open_literal :: "schema_state \<Rightarrow> bytes \<Rightarrow> bool \<times> schema_state" where
  "ss_open_literal s ex = (True, ss_push (SLiteral ex) s)"

definition ss_open_number :: "schema_state \<Rightarrow> byte \<Rightarrow> bool \<Rightarrow> bool \<times> schema_state" where
  "ss_open_number s b integer =
     (if b \<noteq> CHR ''-'' \<and> \<not> is_digit b then ss_reject s
      else (True, ss_push (SNum integer (is_digit b) False False False False) s))"

definition ss_start_any :: "schema_state \<Rightarrow> byte \<Rightarrow> bool \<times> schema_state" where
  "ss_start_any s0 b =
     (let s = s0\<lparr>ss_started := True\<rparr> in
      if b = CHR ''{'' then (True, ss_push (SObject [] [] True [] ExpectKeyOrClose []) s)
      else if b = CHR ''['' then (True, ss_push (SArray NAny ArrExpectValueOrClose) s)
      else if b = dquote then ss_open_string s b
      else if b = CHR ''t'' then ss_open_literal s ''rue''
      else if b = CHR ''f'' then ss_open_literal s ''alse''
      else if b = CHR ''n'' then ss_open_literal s ''ull''
      else if b = CHR ''-'' \<or> is_digit b then ss_open_number s b False
      else ss_reject s)"

definition ss_start_value :: "schema_state \<Rightarrow> byte \<Rightarrow> node \<Rightarrow> bool \<times> schema_state" where
  "ss_start_value s0 b n =
     (let s = s0\<lparr>ss_started := True\<rparr> in
      case n of
        NEnum cands \<Rightarrow>
          (let cs = filter (\<lambda>c. c \<noteq> [] \<and> hd c = b) cands in
           if cs = [] then ss_reject s
           else
             (let done = list_ex (\<lambda>c. length c = 1) cs; s' = ss_push (SEnum cs 1) s in
              if done \<and> single_byte_enum_done (SEnum cs 1)
              then (True, ss_fold_after_value (ss_pop s')) else (True, s')))
      | NObject ps req add \<Rightarrow>
          (if b \<noteq> CHR ''{'' then ss_reject s else (True, ss_push (object_frame n) s))
      | NArray it \<Rightarrow>
          (if b \<noteq> CHR ''['' then ss_reject s
           else (True, ss_push (SArray it ArrExpectValueOrClose) s))
      | NStr \<Rightarrow> ss_open_string s b
      | NBool \<Rightarrow>
          (if b = CHR ''t'' then ss_open_literal s ''rue''
           else if b = CHR ''f'' then ss_open_literal s ''alse'' else ss_reject s)
      | NNull \<Rightarrow> (if b = CHR ''n'' then ss_open_literal s ''ull'' else ss_reject s)
      | NInt \<Rightarrow> ss_open_number s b True
      | NNum \<Rightarrow> ss_open_number s b False
      | NAny \<Rightarrow> ss_start_any s b)"

subsection \<open>Handlers\<close>

definition ss_feed_enum :: "schema_state \<Rightarrow> byte \<Rightarrow> bool \<times> schema_state" where
  "ss_feed_enum s b =
     (case ss_stack s of
        SEnum cands p # rest \<Rightarrow>
          (let cs = filter (\<lambda>c. p < length c \<and> c ! p = b) cands in
           if cs = [] then ss_reject (s\<lparr>ss_stack := SEnum cs p # rest\<rparr>)
           else
             (let p' = p + 1; s' = s\<lparr>ss_stack := SEnum cs p' # rest\<rparr>;
                  complete = list_ex (\<lambda>c. length c = p') cs in
              if complete \<and> list_all (\<lambda>c. length c = p') cs
              then (True, ss_fold_after_value (ss_pop s')) else (True, s')))
      | _ \<Rightarrow> ss_reject s)"

definition ss_feed_string :: "schema_state \<Rightarrow> byte \<Rightarrow> bool \<times> schema_state" where
  "ss_feed_string s b =
     (case ss_stack s of
        SStr e u # rest \<Rightarrow>
          (if u > 0 then
             (if is_hexdigit b then (True, s\<lparr>ss_stack := SStr e (u - 1) # rest\<rparr>)
              else ss_reject s)
           else if e then
             (if simple_escape b then (True, s\<lparr>ss_stack := SStr False u # rest\<rparr>)
              else if b = CHR ''u'' then (True, s\<lparr>ss_stack := SStr False 4 # rest\<rparr>)
              else ss_reject (s\<lparr>ss_stack := SStr False u # rest\<rparr>))
           else if b = backslash then (True, s\<lparr>ss_stack := SStr True u # rest\<rparr>)
           else if b = dquote then (True, ss_fold_after_value (ss_pop s))
           else if is_control b then ss_reject s
           else (True, s))
      | _ \<Rightarrow> ss_reject s)"

definition ss_feed_literal :: "schema_state \<Rightarrow> byte \<Rightarrow> bool \<times> schema_state" where
  "ss_feed_literal s b =
     (case ss_stack s of
        SLiteral ex # rest \<Rightarrow>
          (case ex of
             [] \<Rightarrow> ss_reject s
           | x # xs \<Rightarrow>
               (if x \<noteq> b then ss_reject s
                else if xs = [] then
                  (True, ss_fold_after_value (ss_pop (s\<lparr>ss_stack := SLiteral xs # rest\<rparr>)))
                else (True, s\<lparr>ss_stack := SLiteral xs # rest\<rparr>)))
      | _ \<Rightarrow> ss_reject s)"

definition ss_close_object :: "schema_state \<Rightarrow> bool \<times> schema_state" where
  "ss_close_object s =
     (case ss_stack s of
        SObject ps req add sn st pk # rest \<Rightarrow>
          (if list_all (\<lambda>r. r \<in> set sn) req then (True, ss_fold_after_value (ss_pop s))
           else ss_reject s)
      | _ \<Rightarrow> ss_reject s)"

definition str_starts_with :: "ustring \<Rightarrow> ustring \<Rightarrow> bool" where
  "str_starts_with k p \<longleftrightarrow> take (length p) k = p"

text \<open>
  The node the next value must satisfy: the one of the key read last, or \<^verbatim>\<open>Any\<close>.
\<close>

definition value_node :: "(ustring \<times> node) list \<Rightarrow> ustring list \<Rightarrow> node" where
  "value_node ps sn =
     (if sn = [] then NAny
      else case map_of ps (last sn) of Some n \<Rightarrow> n | None \<Rightarrow> NAny)"

definition ss_feed_object :: "schema_state \<Rightarrow> byte \<Rightarrow> bool \<times> schema_state" where
  "ss_feed_object s b =
     (case ss_stack s of
        SObject ps req add sn st pk # rest \<Rightarrow>
          (let upd = (\<lambda>sn' st' pk'. s\<lparr>ss_stack := SObject ps req add sn' st' pk' # rest\<rparr>) in
           case st of
             InKey \<Rightarrow>
               (if b = dquote then
                  (if \<not> (add \<or> pk \<in> fst ` set ps) \<or> pk \<in> set sn then ss_reject s
                   else (True, upd (sn @ [pk]) ExpectColon pk))
                else if b = backslash \<or> is_control b then ss_reject s
                else if \<not> add \<and> \<not> list_ex (\<lambda>k. k \<notin> set sn \<and> str_starts_with k (pk @ [byte_char b]))
                          (map fst ps) then ss_reject s
                else (True, upd sn InKey (pk @ [byte_char b])))
           | ExpectColon \<Rightarrow>
               (if b = CHR '':'' then (True, upd sn ExpectValue pk) else ss_reject s)
           | ExpectValue \<Rightarrow>
               ss_start_value (upd sn ExpectCommaOrClose pk) b (value_node ps sn)
           | ExpectCommaOrClose \<Rightarrow>
               (if b = CHR '','' then
                  (if \<not> (add \<or> list_ex (\<lambda>k. k \<notin> set sn) (map fst ps)) then ss_reject s
                   else (True, upd sn ExpectKey pk))
                else if b = CHR ''}'' then ss_close_object s
                else ss_reject s)
           | _ \<Rightarrow>
               (if b = CHR ''}'' \<and> st = ExpectKeyOrClose then ss_close_object s
                else if b = dquote then (True, upd sn InKey [])
                else ss_reject s))
      | _ \<Rightarrow> ss_reject s)"

definition ss_feed_array :: "schema_state \<Rightarrow> byte \<Rightarrow> bool \<times> schema_state" where
  "ss_feed_array s b =
     (case ss_stack s of
        SArray it st # rest \<Rightarrow>
          (let upd = (\<lambda>st'. s\<lparr>ss_stack := SArray it st' # rest\<rparr>) in
           case st of
             ArrExpectValueOrClose \<Rightarrow>
               (if b = CHR '']'' then (True, ss_fold_after_value (ss_pop s))
                else ss_start_value (upd ArrExpectCommaOrClose) b it)
           | ArrExpectValue \<Rightarrow> ss_start_value (upd ArrExpectCommaOrClose) b it
           | ArrExpectCommaOrClose \<Rightarrow>
               (if b = CHR '','' then (True, upd ArrExpectValue)
                else if b = CHR '']'' then (True, ss_fold_after_value (ss_pop s))
                else ss_reject s))
      | _ \<Rightarrow> ss_reject s)"

lemma length_ss_fold [simp]:
  "length (ss_stack (ss_fold_after_value s)) = length (ss_stack s)"
  by (auto simp: ss_fold_after_value_def split: list.splits ss_frame.splits)

text \<open>
  The whitespace test of \<^verbatim>\<open>feed\<close>: a string, literal or enum on top takes a whitespace byte as
  any other byte, a number ends, every other state ignores it.
\<close>

fun takes_ws :: "ss_frame list \<Rightarrow> bool" where
  "takes_ws (SStr _ _ # _) = True"
| "takes_ws (SLiteral _ # _) = True"
| "takes_ws (SEnum _ _ # _) = True"
| "takes_ws _ = False"

function (sequential) ss_feed :: "schema_state \<Rightarrow> byte \<Rightarrow> bool \<times> schema_state"
  and ss_feed_number :: "schema_state \<Rightarrow> byte \<Rightarrow> bool \<times> schema_state" where
  "ss_feed s b =
     (if ss_invalid s then (False, s)
      else if is_ws b \<and> \<not> takes_ws (ss_stack s) then
        (case ss_stack s of
           SNum _ sd _ _ _ _ # _ \<Rightarrow>
             (if \<not> sd then ss_reject s else (True, ss_fold_after_value (ss_pop s)))
         | _ \<Rightarrow> (True, s))
      else
        (case ss_stack s of
           [] \<Rightarrow> (if ss_finished s then ss_reject s else ss_start_value s b (ss_root s))
         | SEnum _ _ # _ \<Rightarrow> ss_feed_enum s b
         | SStr _ _ # _ \<Rightarrow> ss_feed_string s b
         | SNum _ _ _ _ _ _ # _ \<Rightarrow> ss_feed_number s b
         | SLiteral _ # _ \<Rightarrow> ss_feed_literal s b
         | SObject _ _ _ _ _ _ # _ \<Rightarrow> ss_feed_object s b
         | SArray _ _ # _ \<Rightarrow> ss_feed_array s b))"
| "ss_feed_number s b =
     (case ss_stack s of
        SNum integer sd dt ex sg xd # rest \<Rightarrow>
          (if is_digit b then
             (True, s\<lparr>ss_stack := SNum integer True dt ex sg (if ex then True else xd) # rest\<rparr>)
           else if \<not> integer \<and> b = CHR ''.'' \<and> \<not> dt \<and> \<not> ex \<and> sd then
             (True, s\<lparr>ss_stack := SNum integer sd True ex sg xd # rest\<rparr>)
           else if \<not> integer \<and> (b = CHR ''e'' \<or> b = CHR ''E'') \<and> \<not> ex \<and> sd then
             (True, s\<lparr>ss_stack := SNum integer sd dt True sg xd # rest\<rparr>)
           else if \<not> integer \<and> (b = CHR ''+'' \<or> b = CHR ''-'') \<and> ex \<and> \<not> sg \<and> \<not> xd then
             (True, s\<lparr>ss_stack := SNum integer sd dt ex True xd # rest\<rparr>)
           else if \<not> sd \<or> (ex \<and> \<not> xd) then ss_reject s
           else ss_feed (ss_fold_after_value (ss_pop s)) b)
      | _ \<Rightarrow> ss_reject s)"
  by pat_completeness auto
termination
  by (relation "measure (\<lambda>x. case x of Inl (s, b) \<Rightarrow> 2 * length (ss_stack s) + 1
                                    | Inr (s, b) \<Rightarrow> 2 * length (ss_stack s))")
     (auto simp: ss_pop_def)

declare ss_feed.simps [simp del] ss_feed_number.simps [simp del]

fun ss_feed_slice :: "schema_state \<Rightarrow> bytes \<Rightarrow> bool \<times> schema_state" where
  "ss_feed_slice s [] = (True, s)"
| "ss_feed_slice s (b # bs) =
     (let (ok, s') = ss_feed s b in if \<not> ok then (False, s') else ss_feed_slice s' bs)"

definition ss_settle_enum :: "schema_state \<Rightarrow> schema_state" where
  "ss_settle_enum s =
     (case ss_stack s of
        SEnum cands p # _ \<Rightarrow>
          (if list_ex (\<lambda>c. length c = p) cands then ss_fold_after_value (ss_pop s) else s)
      | _ \<Rightarrow> s)"

definition ss_finalize_at_eos :: "schema_state \<Rightarrow> schema_state" where
  "ss_finalize_at_eos s =
     (if ss_invalid s then s
      else case ss_stack s of
        SNum integer sd dt ex sg xd # _ \<Rightarrow>
          (if \<not> sd \<or> (ex \<and> \<not> xd) then s\<lparr>ss_invalid := True\<rparr>
           else ss_settle_enum (ss_fold_after_value (ss_pop s)))
      | _ \<Rightarrow> ss_settle_enum s)"

subsection \<open>Each handler accepts exactly when it leaves a valid state\<close>

lemma ss_frame_simps [simp]:
  "ss_invalid (ss_fold_after_value s) = ss_invalid s" "ss_invalid (ss_pop s) = ss_invalid s"
  "ss_invalid (ss_push f s) = ss_invalid s"
  "ss_finished (ss_push f s) = ss_finished s" "ss_finished (ss_pop s) = ss_finished s"
  "ss_stack (ss_push f s) = f # ss_stack s" "ss_stack (ss_pop s) = tl (ss_stack s)"
  "ss_root (ss_push f s) = ss_root s" "ss_root (ss_pop s) = ss_root s"
  "ss_root (ss_fold_after_value s) = ss_root s"
  by (auto simp: ss_fold_after_value_def ss_pop_def ss_push_def
      split: list.splits ss_frame.splits)

lemma ss_reject_simps [simp]:
  "fst (ss_reject s) = False" "ss_invalid (snd (ss_reject s))"
  "ss_stack (snd (ss_reject s)) = ss_stack s" "ss_finished (snd (ss_reject s)) = ss_finished s"
  "ss_root (snd (ss_reject s)) = ss_root s"
  by (simp_all add: ss_reject_def)

lemmas ss_open_defs = ss_open_string_def ss_open_literal_def ss_open_number_def

lemma ss_start_any_accepts:
  "\<not> ss_invalid s \<Longrightarrow> fst (ss_start_any s b) \<longleftrightarrow> \<not> ss_invalid (snd (ss_start_any s b))"
  by (simp add: ss_start_any_def ss_open_defs Let_def)

lemma ss_start_value_accepts:
  "\<not> ss_invalid s \<Longrightarrow> fst (ss_start_value s b n) \<longleftrightarrow> \<not> ss_invalid (snd (ss_start_value s b n))"
  by (cases n) (simp_all add: ss_start_value_def ss_start_any_accepts ss_open_defs Let_def)

lemma ss_close_object_accepts:
  "\<not> ss_invalid s \<Longrightarrow> fst (ss_close_object s) \<longleftrightarrow> \<not> ss_invalid (snd (ss_close_object s))"
  by (auto simp: ss_close_object_def split: list.splits ss_frame.splits)

lemma ss_handler_accepts:
  assumes "\<not> ss_invalid s"
  shows "fst (ss_feed_enum s b) \<longleftrightarrow> \<not> ss_invalid (snd (ss_feed_enum s b))"
    and "fst (ss_feed_string s b) \<longleftrightarrow> \<not> ss_invalid (snd (ss_feed_string s b))"
    and "fst (ss_feed_literal s b) \<longleftrightarrow> \<not> ss_invalid (snd (ss_feed_literal s b))"
    and "fst (ss_feed_object s b) \<longleftrightarrow> \<not> ss_invalid (snd (ss_feed_object s b))"
    and "fst (ss_feed_array s b) \<longleftrightarrow> \<not> ss_invalid (snd (ss_feed_array s b))"
proof -
  show "fst (ss_feed_enum s b) \<longleftrightarrow> \<not> ss_invalid (snd (ss_feed_enum s b))"
    using assms by (simp add: ss_feed_enum_def Let_def split: list.splits ss_frame.splits)
  show "fst (ss_feed_string s b) \<longleftrightarrow> \<not> ss_invalid (snd (ss_feed_string s b))"
    using assms by (simp add: ss_feed_string_def split: list.splits ss_frame.splits)
  show "fst (ss_feed_literal s b) \<longleftrightarrow> \<not> ss_invalid (snd (ss_feed_literal s b))"
    using assms by (simp add: ss_feed_literal_def split: list.splits ss_frame.splits)
  show "fst (ss_feed_object s b) \<longleftrightarrow> \<not> ss_invalid (snd (ss_feed_object s b))"
    using assms
    by (simp add: ss_feed_object_def Let_def ss_start_value_accepts ss_close_object_accepts
        split: list.splits ss_frame.splits obj_stage.splits)
  show "fst (ss_feed_array s b) \<longleftrightarrow> \<not> ss_invalid (snd (ss_feed_array s b))"
    using assms
    by (simp add: ss_feed_array_def Let_def ss_start_value_accepts
        split: list.splits ss_frame.splits arr_stage.splits)
qed

lemma ss_feed_accepts:
  "\<not> ss_invalid s \<Longrightarrow> fst (ss_feed s b) \<longleftrightarrow> \<not> ss_invalid (snd (ss_feed s b))"
  "\<not> ss_invalid s \<Longrightarrow> fst (ss_feed_number s b) \<longleftrightarrow> \<not> ss_invalid (snd (ss_feed_number s b))"
proof (induction s b and s b rule: ss_feed_ss_feed_number.induct)
  case (1 s b)
  show ?case
  proof (cases "\<not> is_ws b \<and> (\<exists>i sd dt ex sg xd r. ss_stack s = SNum i sd dt ex sg xd # r)")
    case True
    then obtain i sd dt ex sg xd r where "\<not> is_ws b" "ss_stack s = SNum i sd dt ex sg xd # r"
      by blast
    with 1 show ?thesis by (simp add: ss_feed.simps [of s b])
  next
    case False
    with "1.prems" show ?thesis
      by (subst (1 2) ss_feed.simps)
         (auto simp: ss_handler_accepts ss_start_value_accepts
           split: list.splits ss_frame.splits)
  qed
next
  case (2 s b)
  then show ?case
    by (subst (1 2) ss_feed_number.simps) (auto split: list.splits ss_frame.splits)
qed

lemma ss_feed_latch: "ss_invalid s \<Longrightarrow> ss_feed s b = (False, s)"
  by (simp add: ss_feed.simps)

interpretation ss: byte_validator ss_feed ss_feed_slice ss_is_valid
proof unfold_locales
  fix s b
  show "\<not> ss_is_valid s \<Longrightarrow> ss_feed s b = (False, s)"
    by (simp add: ss_is_valid_def ss_feed_latch)
  show "fst (ss_feed s b) \<longleftrightarrow> ss_is_valid (snd (ss_feed s b))"
    by (cases "ss_invalid s") (simp_all add: ss_is_valid_def ss_feed_latch ss_feed_accepts)
qed simp_all

end
