(* ===== verification/Json_Schema_Inv.thy ===== *)
theory Json_Schema_Inv
  imports Json_Schema
begin

section \<open>What every reachable \<^verbatim>\<open>SchemaState\<close> satisfies\<close>

text \<open>
  The keys an object frame has matched: no key twice, none outside \<^verbatim>\<open>properties\<close> unless
  additional ones are allowed, and each made of the bytes that can be appended to
  \<^verbatim>\<open>pending_key\<close>: one code point per byte, no quote, backslash, control character, and no
  blank, because the whitespace test of \<^verbatim>\<open>feed\<close> comes before the key handler.
\<close>

definition key_char :: "nat \<Rightarrow> bool" where
  "key_char c \<longleftrightarrow> 32 < c \<and> c < 256 \<and> c \<noteq> 34 \<and> c \<noteq> 92"

definition readable_key :: "ustring \<Rightarrow> bool" where
  "readable_key k = list_all key_char k"

fun keys_ok :: "ss_frame \<Rightarrow> bool" where
  "keys_ok (SObject ps req add sn st pk) =
     (distinct sn \<and> (\<not> add \<longrightarrow> set sn \<subseteq> fst ` set ps) \<and> list_all readable_key sn
      \<and> readable_key pk)"
| "keys_ok _ = True"

definition waiting_frame :: "ss_frame \<Rightarrow> bool" where
  "waiting_frame f =
     (case f of
        SArray it st \<Rightarrow> st = ArrExpectCommaOrClose
      | SObject ps req add sn st pk \<Rightarrow> st = ExpectCommaOrClose
      | _ \<Rightarrow> False)"

text \<open>
  As in \<^verbatim>\<open>JsonState\<close>, everything below the top frame waits for a comma or its bracket.
\<close>

definition ss_inv :: "schema_state \<Rightarrow> bool" where
  "ss_inv s \<longleftrightarrow> list_all keys_ok (ss_stack s) \<and> list_all waiting_frame (tl (ss_stack s))
     \<and> (ss_finished s \<longrightarrow> ss_stack s = [])"

definition ss_ready :: "schema_state \<Rightarrow> bool" where
  "ss_ready s \<longleftrightarrow> list_all keys_ok (ss_stack s) \<and> list_all waiting_frame (ss_stack s)
     \<and> \<not> ss_finished s"

lemma waiting_frame_simps [simp]:
  "waiting_frame (SArray it st) \<longleftrightarrow> st = ArrExpectCommaOrClose"
  "waiting_frame (SObject ps req add sn ost pk) \<longleftrightarrow> ost = ExpectCommaOrClose"
  "\<not> waiting_frame (SStr e u)" "\<not> waiting_frame (SLiteral x)" "\<not> waiting_frame (SEnum cs p)"
  "\<not> waiting_frame (SNum i a b c d e)"
  by (simp_all add: waiting_frame_def)

lemma ss_fold_waiting:
  "list_all waiting_frame (ss_stack s) \<Longrightarrow>
     ss_fold_after_value s = (if ss_stack s = [] then s\<lparr>ss_finished := True\<rparr> else s)"
  by (cases "ss_stack s") (auto simp: ss_fold_after_value_def split: ss_frame.splits)

lemma list_all_tl: "list_all P xs \<Longrightarrow> list_all P (tl xs)"
  by (cases xs) auto

lemma ss_fold_inv [inv_intros]: "ss_ready s \<Longrightarrow> ss_inv (ss_fold_after_value s)"
  by (auto simp: ss_ready_def ss_fold_waiting ss_inv_def list_all_tl)

lemma ss_reject_inv [inv_intros]: "ss_inv s \<Longrightarrow> ss_inv (snd (ss_reject s))"
  by (simp add: ss_inv_def)

lemma ss_push_inv [inv_intros]: "ss_ready s \<Longrightarrow> keys_ok f \<Longrightarrow> ss_inv (ss_push f s)"
  by (simp add: ss_ready_def ss_inv_def)

lemma ss_ready_inv: "ss_ready s \<Longrightarrow> ss_inv s"
  by (simp add: ss_ready_def ss_inv_def list_all_tl)

lemma ss_ready_started [simp]: "ss_ready (s\<lparr>ss_started := x\<rparr>) = ss_ready s"
  by (simp add: ss_ready_def)

lemma object_frame_ok [simp]: "keys_ok (object_frame n)"
  by (cases n) (simp_all add: object_frame_def readable_key_def)

lemma ss_start_any_inv [inv_intros]: "ss_ready s \<Longrightarrow> ss_inv (snd (ss_start_any s b))"
  by (simp add: ss_start_any_def ss_open_defs readable_key_def Let_def
      ss_push_inv ss_reject_inv ss_ready_inv)

lemma ss_pop_push [simp]: "ss_pop (ss_push f s) = s"
  by (simp add: ss_pop_def ss_push_def)

lemma ss_start_value_inv [inv_intros]: "ss_ready s \<Longrightarrow> ss_inv (snd (ss_start_value s b n))"
  by (cases n)
     (simp_all add: ss_start_value_def ss_open_defs Let_def ss_push_inv ss_reject_inv ss_ready_inv
       ss_start_any_inv ss_fold_inv)

lemma ss_pop_ready:
  "ss_inv s \<Longrightarrow> ss_stack s \<noteq> [] \<Longrightarrow> ss_ready (ss_pop s)"
  by (auto simp: ss_inv_def ss_ready_def list_all_tl)

lemma ss_replace_ready:
  assumes "ss_inv s" and "ss_stack s = f # r" and "keys_ok g" and "waiting_frame g"
  shows "ss_ready (s\<lparr>ss_stack := g # r\<rparr>)"
  using assms by (auto simp: ss_inv_def ss_ready_def)

lemma ss_replace_inv:
  assumes "ss_inv s" and "ss_stack s = f # r" and "keys_ok g"
  shows "ss_inv (s\<lparr>ss_stack := g # r\<rparr>)"
  using assms by (auto simp: ss_inv_def)

lemma ss_pop_fold_inv:
  "ss_inv s \<Longrightarrow> ss_stack s \<noteq> [] \<Longrightarrow> ss_inv (ss_fold_after_value (ss_pop s))"
  by (intro ss_fold_inv ss_pop_ready)

lemma ss_enum_inv:
  assumes "ss_inv s" and st: "ss_stack s = SEnum cs p # r"
  shows "ss_inv (snd (ss_feed_enum s b))"
proof -
  have upd: "ss_inv (s\<lparr>ss_stack := SEnum cs' p' # r\<rparr>)" for cs' p'
    using assms by (rule ss_replace_inv) simp
  then have "ss_inv (ss_fold_after_value (ss_pop (s\<lparr>ss_stack := SEnum cs' p' # r\<rparr>)))" for cs' p'
    by (rule ss_pop_fold_inv) simp
  with upd st show ?thesis
    by (simp add: ss_feed_enum_def Let_def ss_reject_inv)
qed

lemma ss_string_inv:
  assumes "ss_inv s" and st: "ss_stack s = SStr e u # r"
  shows "ss_inv (snd (ss_feed_string s b))"
proof -
  have "ss_inv (s\<lparr>ss_stack := SStr e' u' # r\<rparr>)" for e' u'
    using assms by (rule ss_replace_inv) simp
  moreover have "ss_inv (ss_fold_after_value (ss_pop s))"
    using assms by (intro ss_pop_fold_inv) simp_all
  ultimately show ?thesis
    using assms by (simp add: ss_feed_string_def ss_reject_inv)
qed

lemma ss_literal_inv:
  assumes "ss_inv s" and st: "ss_stack s = SLiteral ex # r"
  shows "ss_inv (snd (ss_feed_literal s b))"
proof -
  have upd: "ss_inv (s\<lparr>ss_stack := SLiteral ex' # r\<rparr>)" for ex'
    using assms by (rule ss_replace_inv) simp
  then have "ss_inv (ss_fold_after_value (ss_pop (s\<lparr>ss_stack := SLiteral ex' # r\<rparr>)))" for ex'
    by (rule ss_pop_fold_inv) simp
  with upd assms show ?thesis
    by (simp add: ss_feed_literal_def ss_reject_inv split: list.splits)
qed

lemma ss_close_inv:
  assumes "ss_inv s" and st: "ss_stack s = SObject ps req add sn ost pk # r"
  shows "ss_inv (snd (ss_close_object s))"
  using assms by (simp add: ss_close_object_def ss_reject_inv ss_pop_fold_inv)

lemma ss_array_inv:
  assumes "ss_inv s" and st: "ss_stack s = SArray it ast # r"
  shows "ss_inv (snd (ss_feed_array s b))"
proof -
  have upd: "ss_inv (s\<lparr>ss_stack := SArray it st' # r\<rparr>)" for st'
    using assms by (rule ss_replace_inv) simp
  have "ss_ready (s\<lparr>ss_stack := SArray it ArrExpectCommaOrClose # r\<rparr>)"
    using assms by (rule ss_replace_ready) simp_all
  then have start: "ss_inv (snd (ss_start_value
      (s\<lparr>ss_stack := SArray it ArrExpectCommaOrClose # r\<rparr>) c n))" for c n
    by (rule ss_start_value_inv)
  have close: "ss_inv (ss_fold_after_value (ss_pop s))"
    using assms by (intro ss_pop_fold_inv) simp_all
  have rej: "ss_inv (snd (ss_reject s))"
    using assms(1) by (rule ss_reject_inv)
  show ?thesis
    using upd start close rej st by (cases ast) (simp_all add: ss_feed_array_def Let_def)
qed

lemma key_char_byte:
  assumes "\<not> is_ws b" and "b \<noteq> dquote" and "b \<noteq> backslash" and "\<not> is_control b"
  shows "key_char (byte_char b)"
proof -
  have *: "of_char b = (of_char c :: nat) \<longleftrightarrow> b = c" for c
    by simp
  have "(of_char b :: nat) \<noteq> 32" "(of_char b :: nat) \<noteq> 34" "(of_char b :: nat) \<noteq> 92"
    using assms * [of "CHR 0x20"] * [of dquote] * [of backslash] by (auto simp: is_ws_def)
  moreover have "(of_char b :: nat) < 256"
    by (rule nat_of_char_less_256)
  ultimately show ?thesis
    using assms(4) by (simp add: key_char_def byte_char_def is_control_def)
qed

lemma ss_object_inv:
  assumes "ss_inv s" and st: "ss_stack s = SObject ps req add sn ost pk # r" and ws: "\<not> is_ws b"
  shows "ss_inv (snd (ss_feed_object s b))"
proof -
  let ?upd = "\<lambda>sn' st' pk'. s\<lparr>ss_stack := SObject ps req add sn' st' pk' # r\<rparr>"
  have keys: "distinct sn" "\<not> add \<longrightarrow> set sn \<subseteq> fst ` set ps" "list_all readable_key sn"
    "readable_key pk"
    using assms by (simp_all add: ss_inv_def)
  have upd: "ss_inv (?upd sn' st' pk')"
    if "keys_ok (SObject ps req add sn' st' pk')" for sn' st' pk'
    using assms(1) st that by (rule ss_replace_inv)
  have same: "ss_inv (?upd sn st' pk)" "ss_inv (?upd sn st' [])" for st'
    using keys by (intro upd; simp add: readable_key_def)+
  have rej: "ss_inv (snd (ss_reject s))"
    using assms(1) by (rule ss_reject_inv)
  have close: "ss_inv (snd (ss_close_object s))"
    using assms(1) st by (rule ss_close_inv)
  show ?thesis
  proof (cases ost)
    case InKey
    have "ss_inv (?upd (sn @ [pk]) ExpectColon pk)"
      if "add \<or> pk \<in> fst ` set ps" "pk \<notin> set sn"
      using keys that by (intro upd) auto
    moreover have "ss_inv (?upd sn InKey (pk @ [byte_char b]))"
      if "b \<noteq> dquote" "b \<noteq> backslash" "\<not> is_control b"
      using keys that ws key_char_byte [of b] by (intro upd) (simp add: readable_key_def)
    ultimately show ?thesis
      using InKey st rej by (cases add) (simp_all add: ss_feed_object_def Let_def)
  next
    case ExpectValue
    have "ss_ready (?upd sn ExpectCommaOrClose pk)"
      using assms(1) st by (rule ss_replace_ready) (simp_all add: keys)
    then have "ss_inv (snd (ss_start_value (?upd sn ExpectCommaOrClose pk) b n))" for n
      by (rule ss_start_value_inv)
    then show ?thesis
      using ExpectValue st by (simp add: ss_feed_object_def Let_def)
  qed (use st rej close same in \<open>simp_all add: ss_feed_object_def Let_def\<close>)
qed

lemma ss_feed_inv_non_number:
  assumes "ss_inv s" and "\<not> (\<exists>i sd dt ex sg xd r. ss_stack s = SNum i sd dt ex sg xd # r)"
  shows "ss_inv (snd (ss_feed s b))"
proof (cases "ss_invalid s \<or> (is_ws b \<and> \<not> takes_ws (ss_stack s))")
  case True
  with assms show ?thesis
    by (auto simp: ss_feed.simps [of s] split: list.splits ss_frame.splits)
next
  case False
  show ?thesis
  proof (cases "ss_stack s")
    case Nil
    with assms(1) False show ?thesis
      by (auto simp: ss_feed.simps [of s] ss_ready_def ss_inv_def
          intro!: ss_start_value_inv [unfolded ss_inv_def])
  next
    case (Cons f r)
    with assms False show ?thesis
      by (cases f) (simp_all add: ss_feed.simps [of s] ss_enum_inv ss_string_inv ss_literal_inv
          ss_array_inv ss_object_inv)
  qed
qed

lemma ss_feed_inv [inv_intros]:
  assumes "ss_inv s"
  shows "ss_inv (snd (ss_feed s b))"
proof (cases "\<exists>i sd dt ex sg xd r. ss_stack s = SNum i sd dt ex sg xd # r")
  case True
  then obtain i sd dt ex sg xd r where st: "ss_stack s = SNum i sd dt ex sg xd # r" by blast
  let ?s = "ss_fold_after_value (ss_pop s)"
  have ready: "ss_ready (ss_pop s)" using assms st by (intro ss_pop_ready) simp_all
  then have stack: "ss_stack ?s = r" by (auto simp: ss_ready_def ss_fold_waiting st)
  have "list_all waiting_frame r" using ready st by (simp add: ss_ready_def)
  then have "\<not> (\<exists>i sd dt ex sg xd r'. ss_stack ?s = SNum i sd dt ex sg xd # r')"
    using stack by (cases r) auto
  then have again: "ss_inv (snd (ss_feed ?s b))"
    using ss_fold_inv [OF ready] by (intro ss_feed_inv_non_number)
  have upd: "ss_inv (s\<lparr>ss_stack := SNum i' sd' dt' ex' sg' xd' # r\<rparr>)" for i' sd' dt' ex' sg' xd'
    using assms st by (rule ss_replace_inv) simp
  have number: "ss_inv (snd (ss_feed_number s b))"
    using again upd st ss_reject_inv [OF assms]
    by (simp add: ss_feed_number.simps [of s])
  show ?thesis
    using number st ss_reject_inv [OF assms] ss_fold_inv [OF ready] assms
    by (simp add: ss_feed.simps [of s])
next
  case False
  with assms show ?thesis by (intro ss_feed_inv_non_number)
qed

lemma ss_new_inv [inv_intros]: "ss_inv (ss_new root)"
  by (simp add: ss_inv_def ss_new_def)

lemma ss_slice_inv [inv_intros]: "ss_inv s \<Longrightarrow> ss_inv (snd (ss_feed_slice s bs))"
  by (rule ss.slice_inv [where P = ss_inv]) (rule ss_feed_inv)

subsection \<open>Closing an object\<close>

text \<open>
  An object frame leaves the stack only through \<^verbatim>\<open>close_object\<close>; by then every required key
  has been read.
\<close>

lemma start_value_grows:
  "length (ss_stack s) \<le> length (ss_stack (snd (ss_start_value s b n)))"
  by (cases n) (simp_all add: ss_start_value_def ss_open_defs ss_start_any_def Let_def)

lemma close_object_shrinks:
  assumes "ss_inv s" and "ss_stack s = SObject ps req add sn ost pk # r"
    and "fst (ss_feed_object s b)"
    and "length (ss_stack (snd (ss_feed_object s b))) < length (ss_stack s)"
  shows "set req \<subseteq> set sn"
proof (rule ccontr)
  assume "\<not> set req \<subseteq> set sn"
  then have "ss_close_object s = ss_reject s"
    using assms(2) by (auto simp: ss_close_object_def list_all_iff)
  moreover have "Suc (length r) \<le> length (ss_stack (snd (ss_start_value
      (s\<lparr>ss_stack := SObject ps req add sn ExpectCommaOrClose pk # r\<rparr>) c n)))" for c n
    using start_value_grows [of "s\<lparr>ss_stack := SObject ps req add sn ExpectCommaOrClose pk # r\<rparr>" c n]
    by simp
  ultimately show False
    using assms(2-4)
    by (cases ost) (auto simp: ss_feed_object_def Let_def not_less split: if_splits
        dest: leD)
qed

subsection \<open>A handler touches the top frame only\<close>

lemma suffix_refl [simp]: "suffix_of xs xs" "suffix_of xs (x # xs)" "suffix_of xs (y # x # xs)"
  by (auto simp: suffix_of_iff)

lemma start_value_below:
  "list_all waiting_frame (ss_stack s) \<Longrightarrow> ss_stack s \<noteq> [] \<Longrightarrow>
     suffix_of (ss_stack s) (ss_stack (snd (ss_start_value s b n)))
     \<and> ss_finished (snd (ss_start_value s b n)) = ss_finished s"
  by (cases n)
     (simp_all add: ss_start_value_def ss_open_defs ss_start_any_def Let_def ss_fold_waiting)

lemma suffix_trans: "suffix_of xs ys \<Longrightarrow> suffix_of ys zs \<Longrightarrow> suffix_of xs zs"
  by (metis append.assoc suffix_of_iff)

lemma feed_below:
  assumes "ss_inv s" and st: "ss_stack s = f # r" and r: "r \<noteq> []"
    and n: "\<not> (\<exists>i sd dt ex sg xd. f = SNum i sd dt ex sg xd)"
  shows "suffix_of r (ss_stack (snd (ss_feed s b)))
    \<and> ss_finished (snd (ss_feed s b)) = ss_finished s"
proof -
  have w: "list_all waiting_frame r" using assms by (simp add: ss_inv_def)
  have fold: "ss_fold_after_value (s'\<lparr>ss_stack := r\<rparr>) = s'\<lparr>ss_stack := r\<rparr>" for s'
    using w r by (simp add: ss_fold_waiting)
  have start: "suffix_of r (ss_stack (snd (ss_start_value (s\<lparr>ss_stack := g # r\<rparr>) c m)))"
      "ss_finished (snd (ss_start_value (s\<lparr>ss_stack := g # r\<rparr>) c m)) = ss_finished s"
    if "waiting_frame g" for g c m
  proof -
    have *: "suffix_of (g # r) (ss_stack (snd (ss_start_value (s\<lparr>ss_stack := g # r\<rparr>) c m)))
        \<and> ss_finished (snd (ss_start_value (s\<lparr>ss_stack := g # r\<rparr>) c m)) = ss_finished s"
      using start_value_below [of "s\<lparr>ss_stack := g # r\<rparr>" c m] w that by simp
    then show "suffix_of r (ss_stack (snd (ss_start_value (s\<lparr>ss_stack := g # r\<rparr>) c m)))"
      "ss_finished (snd (ss_start_value (s\<lparr>ss_stack := g # r\<rparr>) c m)) = ss_finished s"
      by (blast intro: suffix_trans [OF suffix_refl(2)], blast)
  qed
  show ?thesis
  proof (cases f)
    case (SArray it ast)
    then show ?thesis using st start fold
      by (cases ast) (simp_all add: ss_feed.simps [of s] ss_feed_array_def Let_def ss_pop_def)
  next
    case (SObject ps req add sn ost pk)
    then show ?thesis using st start fold
      by (cases ost) (simp_all add: ss_feed.simps [of s] ss_feed_object_def ss_close_object_def
          Let_def ss_pop_def)
  qed (use st n fold in \<open>simp_all add: ss_feed.simps [of s] ss_feed_enum_def ss_feed_string_def
         ss_feed_literal_def Let_def ss_pop_def split: list.splits\<close>)
qed

subsection \<open>A required key that cannot be read\<close>

definition root_pending ::
    "(ustring \<times> node) list \<Rightarrow> ustring list \<Rightarrow> bool \<Rightarrow> schema_state \<Rightarrow> bool" where
  "root_pending ps req add s \<longleftrightarrow> ss_inv s \<and> ss_root s = NObject ps req add \<and> \<not> ss_finished s \<and>
     (ss_stack s = [] \<or> (\<exists>sn st pk. last (ss_stack s) = SObject ps req add sn st pk))"

lemma root_started [simp]:
  "ss_root (snd (ss_start_value s b n)) = ss_root s"
  by (cases n) (simp_all add: ss_start_value_def ss_open_defs ss_start_any_def Let_def)

lemma handler_root:
  "ss_root (snd (ss_feed_enum s b)) = ss_root s"
  "ss_root (snd (ss_feed_string s b)) = ss_root s"
  "ss_root (snd (ss_feed_literal s b)) = ss_root s"
  "ss_root (snd (ss_close_object s)) = ss_root s"
  "ss_root (snd (ss_feed_object s b)) = ss_root s"
  "ss_root (snd (ss_feed_array s b)) = ss_root s"
proof -
  show "ss_root (snd (ss_feed_enum s b)) = ss_root s"
    by (simp add: ss_feed_enum_def Let_def split: list.splits ss_frame.splits)
  show "ss_root (snd (ss_feed_string s b)) = ss_root s"
    by (simp add: ss_feed_string_def split: list.splits ss_frame.splits)
  show "ss_root (snd (ss_feed_literal s b)) = ss_root s"
    by (simp add: ss_feed_literal_def split: list.splits ss_frame.splits)
  show close: "ss_root (snd (ss_close_object s)) = ss_root s"
    by (simp add: ss_close_object_def split: list.splits ss_frame.splits)
  show "ss_root (snd (ss_feed_object s b)) = ss_root s"
    by (simp add: ss_feed_object_def Let_def close
        split: list.splits ss_frame.splits obj_stage.splits)
  show "ss_root (snd (ss_feed_array s b)) = ss_root s"
    by (simp add: ss_feed_array_def Let_def split: list.splits ss_frame.splits arr_stage.splits)
qed

lemma root_feed:
  "ss_root (snd (ss_feed s b)) = ss_root s"
  "ss_root (snd (ss_feed_number s b)) = ss_root s"
proof (induction s b and s b rule: ss_feed_ss_feed_number.induct)
  case (1 s b)
  show ?case
  proof (cases "\<not> is_ws b \<and> \<not> ss_invalid s \<and>
      (\<exists>i sd dt ex sg xd r. ss_stack s = SNum i sd dt ex sg xd # r)")
    case True
    then obtain i sd dt ex sg xd r where "\<not> is_ws b" "ss_stack s = SNum i sd dt ex sg xd # r"
      "\<not> ss_invalid s" by blast
    with 1 show ?thesis by (simp add: ss_feed.simps [of s b])
  next
    case False
    then show ?thesis
      by (subst ss_feed.simps) (auto simp: handler_root split: list.splits ss_frame.splits)
  qed
next
  case (2 s b)
  then show ?case
    by (subst ss_feed_number.simps) (auto split: list.splits ss_frame.splits)
qed

lemma root_pending_object:
  assumes "root_pending ps req add s" and "ss_stack s = [f]" and "\<not> is_ws b"
    and "k \<in> set req" and "\<not> readable_key k"
  shows "root_pending ps req add (snd (ss_feed_object s b))"
proof -
  obtain sn ost pk where f: "f = SObject ps req add sn ost pk"
    using assms(1,2) by (auto simp: root_pending_def)
  have inv: "ss_inv (snd (ss_feed_object s b))"
    using assms f by (auto simp: root_pending_def intro: ss_object_inv)
  have "list_all readable_key sn"
    using assms(1,2) f by (simp add: root_pending_def ss_inv_def)
  then have "\<not> set req \<subseteq> set sn"
    using assms(4,5) by (auto simp: list_all_iff)
  then have "ss_close_object s = ss_reject s"
    using assms(2) f by (auto simp: ss_close_object_def list_all_iff)
  moreover have "suffix_of [g] (ss_stack (snd (ss_start_value (s\<lparr>ss_stack := [g]\<rparr>) c m)))"
      "\<not> ss_finished (snd (ss_start_value (s\<lparr>ss_stack := [g]\<rparr>) c m))"
    if "waiting_frame g" for g c m
    using start_value_below [of "s\<lparr>ss_stack := [g]\<rparr>" c m] that assms(1)
    by (simp_all add: root_pending_def)
  ultimately show ?thesis
    using assms(1,2) f inv
    by (cases ost)
       (auto simp: root_pending_def handler_root ss_feed_object_def Let_def suffix_of_iff,
        (metis last_snoc waiting_frame_simps(2))+)
qed

lemma root_pending_non_number:
  assumes p: "root_pending ps req add s" and k: "k \<in> set req" "\<not> readable_key k"
    and n: "\<not> (\<exists>i sd dt ex sg xd r. ss_stack s = SNum i sd dt ex sg xd # r)"
  shows "root_pending ps req add (snd (ss_feed s b))"
proof -
  have inv: "ss_inv (snd (ss_feed s b))" "ss_root (snd (ss_feed s b)) = NObject ps req add"
    using p by (auto simp: root_pending_def root_feed intro: ss_feed_inv)
  show ?thesis
  proof (cases "ss_stack s")
    case Nil
    then show ?thesis
      using p inv by (auto simp: root_pending_def ss_feed.simps [of s] ss_start_value_def
          object_frame_def Let_def ss_push_def ss_reject_def)
  next
    case (Cons f r)
    show ?thesis
    proof (cases "r = []")
      case True
      then obtain sn ost pk where f: "f = SObject ps req add sn ost pk"
        using p Cons by (auto simp: root_pending_def)
      show ?thesis
      proof (cases "ss_invalid s \<or> is_ws b")
        case True
        then show ?thesis using p f Cons by (auto simp: ss_feed.simps [of s])
      next
        case False
        then have "ss_feed s b = ss_feed_object s b"
          using f Cons by (simp add: ss_feed.simps [of s])
        moreover have "root_pending ps req add (snd (ss_feed_object s b))"
          using False True Cons by (intro root_pending_object [OF p _ _ k]) simp_all
        ultimately show ?thesis by simp
      qed
    next
      case False
      have "suffix_of r (ss_stack (snd (ss_feed s b)))
          \<and> ss_finished (snd (ss_feed s b)) = ss_finished s"
        using p n Cons False by (intro feed_below) (auto simp: root_pending_def)
      then show ?thesis
        using p inv Cons False by (auto simp: root_pending_def suffix_of_iff)
    qed
  qed
qed

lemma root_pending_pop:
  assumes p: "root_pending ps req add s" and st: "ss_stack s = f # r"
    and f: "\<not> (\<exists>sn st pk. f = SObject ps req add sn st pk)"
  shows "root_pending ps req add (ss_fold_after_value (ss_pop s))"
    and "ss_fold_after_value (ss_pop s) = ss_pop s"
proof -
  have r: "r \<noteq> []" using p st f by (auto simp: root_pending_def)
  have "ss_ready (ss_pop s)" using p st by (intro ss_pop_ready) (simp_all add: root_pending_def)
  then show *: "ss_fold_after_value (ss_pop s) = ss_pop s"
    using r st by (simp add: ss_ready_def ss_fold_waiting)
  have "ss_inv (ss_fold_after_value (ss_pop s))"
    using p st by (intro ss_pop_fold_inv) (simp_all add: root_pending_def)
  then show "root_pending ps req add (ss_fold_after_value (ss_pop s))"
    using p st r * by (auto simp: root_pending_def)
qed

lemma root_pending_feed:
  assumes p: "root_pending ps req add s" and k: "k \<in> set req" "\<not> readable_key k"
  shows "root_pending ps req add (snd (ss_feed s b))"
proof (cases "\<exists>i sd dt ex sg xd r. ss_stack s = SNum i sd dt ex sg xd # r")
  case True
  then obtain i sd dt ex sg xd r where st: "ss_stack s = SNum i sd dt ex sg xd # r" by blast
  have r: "r \<noteq> []" "list_all waiting_frame r"
    using p st by (auto simp: root_pending_def ss_inv_def)
  note pop = root_pending_pop [OF p st]
  have "ss_stack (ss_fold_after_value (ss_pop s)) = r" using pop st by simp
  then have "root_pending ps req add (snd (ss_feed (ss_fold_after_value (ss_pop s)) b))"
    using r pop(1) by (intro root_pending_non_number [OF _ k]) (auto simp: neq_Nil_conv)
  moreover have "root_pending ps req add (s\<lparr>ss_stack := SNum i' sd' dt' ex' sg' xd' # r\<rparr>)"
    for i' sd' dt' ex' sg' xd'
    using p st r by (auto simp: root_pending_def ss_inv_def)
  moreover have "root_pending ps req add (snd (ss_reject s))"
    using p by (simp add: root_pending_def ss_inv_def)
  ultimately show ?thesis
    using p st pop by (simp add: ss_feed.simps [of s] ss_feed_number.simps [of s])
next
  case False
  with assms show ?thesis by (intro root_pending_non_number) auto
qed

lemma root_pending_finalize:
  assumes "root_pending ps req add s"
  shows "\<not> ss_is_complete (ss_finalize_at_eos s)"
proof -
  have enum: "root_pending ps req add (ss_settle_enum s')"
    if "root_pending ps req add s'" for s'
    using that root_pending_pop(1) [OF that]
    by (auto simp: ss_settle_enum_def split: list.splits ss_frame.splits)
  have "root_pending ps req add (ss_finalize_at_eos s) \<or> ss_invalid (ss_finalize_at_eos s)"
    using assms enum root_pending_pop(1) [OF assms]
    by (auto simp: ss_finalize_at_eos_def split: list.splits ss_frame.splits)
  then show ?thesis
    by (auto simp: root_pending_def ss_is_complete_def)
qed

lemma unreadable_required_never_complete:
  assumes "k \<in> set req" and "\<not> readable_key k"
  shows "\<not> ss_is_complete (ss_finalize_at_eos (snd (ss_feed_slice (ss_new (NObject ps req add)) t)))"
proof (rule root_pending_finalize)
  have "root_pending ps req add (ss_new (NObject ps req add))"
    by (simp add: root_pending_def ss_new_def ss_inv_def)
  then show "root_pending ps req add (snd (ss_feed_slice (ss_new (NObject ps req add)) t))"
    by (rule ss.slice_inv [where P = "root_pending ps req add", rotated])
       (rule root_pending_feed [OF _ assms])
qed

subsection \<open>Properties\<close>


abbreviation age_schema :: node where
  "age_schema \<equiv> NObject [(ustr ''a'', NBool)] [ustr ''a''] False"


text \<open>
  A schema whose top-level object requires a key that holds a blank, a control character, a
  quote, a backslash or a code point above 255 can never be satisfied: whatever bytes are fed, the
  validator does not report the value complete, although JSON has such objects.
\<close>

theorem schema_unreadable_required_key:
  assumes "k \<in> set req" and "\<not> readable_key k"
  shows "\<not> ss_is_complete
    (ss_finalize_at_eos (snd (ss_feed_slice (ss_new (NObject ps req add)) t)))"
  using assms by (rule unreadable_required_never_complete)

theorem schema_unreadable_required_key_witness:
  "\<not> ss_is_complete (ss_finalize_at_eos (snd (ss_feed_slice
      (ss_new (NObject [(ustr ''a b'', NBool)] [ustr ''a b''] False))
      (''{'' @ [dquote] @ ''a b'' @ [dquote] @ '':true}''))))"
proof -
  have "\<not> readable_key (ustr ''a b'')"
    by (simp add: readable_key_def key_char_def ustr_def)
  then show ?thesis
    by (intro schema_unreadable_required_key [of "ustr ''a b''"]) simp
qed

end
