(* ===== verification/Json_Schema_Refine.thy ===== *)
theory Json_Schema_Refine
  imports Json_Schema_Inv
begin

section \<open>A schema only narrows the JSON grammar\<close>

text \<open>
  Forgetting the schema maps a \<^verbatim>\<open>SchemaState\<close> to a \<^verbatim>\<open>JsonState\<close>. Every step the schema
  validator accepts is the step of the structural validator on the mapped state, for schemas
  without \<^verbatim>\<open>enum\<close> or \<^verbatim>\<open>const\<close> (whose literals are copied from the request as bytes).
\<close>

fun enum_free :: "node \<Rightarrow> bool" where
  "enum_free (NEnum _) = False"
| "enum_free (NObject ps _ _) = list_all (\<lambda>kn. enum_free (snd kn)) ps"
| "enum_free (NArray n) = enum_free n"
| "enum_free _ = True"

fun abs_frame :: "ss_frame \<Rightarrow> js_frame list" where
  "abs_frame (SEnum _ _) = []"
| "abs_frame (SStr e u) = [JString e u False]"
| "abs_frame (SNum _ sd dt ex sg xd) = [JNumber sd dt ex sg xd]"
| "abs_frame (SLiteral ex) = [JLiteral ex]"
| "abs_frame (SObject _ _ _ _ st _) =
     (case st of
        InKey \<Rightarrow> [JString False 0 True, JObject False False False False]
      | ExpectColon \<Rightarrow> [JObject False True False False]
      | ExpectValue \<Rightarrow> [JObject False False True False]
      | ExpectCommaOrClose \<Rightarrow> [JObject False False False True]
      | _ \<Rightarrow> [JObject True False False False])"
| "abs_frame (SArray _ st) =
     (if st = ArrExpectCommaOrClose then [JArray False True] else [JArray True False])"

definition forget :: "schema_state \<Rightarrow> json_state" where
  "forget s = \<lparr>stack = concat (map abs_frame (ss_stack s)), finished = ss_finished s,
     invalid = ss_invalid s\<rparr>"

fun plain_frame :: "ss_frame \<Rightarrow> bool" where
  "plain_frame (SEnum _ _) = False"
| "plain_frame (SLiteral ex) = list_all (\<lambda>b. \<not> is_ws b) ex"
| "plain_frame (SObject ps _ _ _ _ _) = list_all (\<lambda>kn. enum_free (snd kn)) ps"
| "plain_frame (SArray n _) = enum_free n"
| "plain_frame _ = True"

definition plain :: "schema_state \<Rightarrow> bool" where
  "plain s \<longleftrightarrow> ss_inv s \<and> enum_free (ss_root s) \<and> list_all plain_frame (ss_stack s)"

lemma abs_waiting:
  "list_all waiting_frame fs \<Longrightarrow> js_waiting (concat (map abs_frame fs))"
  by (induction fs) (auto simp: waiting_frame_def split: ss_frame.splits)

lemma abs_frame_Nil: "plain_frame f \<Longrightarrow> abs_frame f \<noteq> []"
  by (cases f) (auto split: obj_stage.splits)

lemma forget_Nil: "list_all plain_frame fs \<Longrightarrow> concat (map abs_frame fs) = [] \<longleftrightarrow> fs = []"
  by (cases fs) (auto simp: abs_frame_Nil)

lemma forget_fold:
  assumes "list_all waiting_frame (ss_stack s)" and "list_all plain_frame (ss_stack s)"
  shows "js_fold_after_value (forget s) = forget (ss_fold_after_value s)"
proof -
  have "js_waiting (stack (forget s))" using abs_waiting [OF assms(1)] by (simp add: forget_def)
  then show ?thesis
    using assms(1) forget_Nil [OF assms(2)]
    by (auto simp: fold_waiting ss_fold_waiting forget_def)
qed

lemma forget_push: "forget (ss_push f s) = (forget s)\<lparr>stack := abs_frame f @ stack (forget s)\<rparr>"
  by (simp add: forget_def ss_push_def)

lemma forget_simps [simp]:
  "invalid (forget s) = ss_invalid s" "finished (forget s) = ss_finished s"
  "forget (s\<lparr>ss_started := x\<rparr>) = forget s"
  by (simp_all add: forget_def)

lemma value_node_enum_free:
  "list_all (\<lambda>kn. enum_free (snd kn)) ps \<Longrightarrow> enum_free (value_node ps sn)"
  by (auto simp: value_node_def list_all_iff split: option.splits dest!: map_of_SomeD)

text \<open>Opening a value: what the schema accepts, the grammar accepts with the same frame.\<close>

lemma push_forget: "js_push f (forget s) = forget (ss_push g s)" if "abs_frame g = [f]"
  using that by (simp add: forget_push js_push_def)

lemma start_any_forget:
  "fst (ss_start_any s b) \<longrightarrow> js_start_value (forget s) b = (True, forget (snd (ss_start_any s b)))"
  by (simp add: ss_start_any_def ss_open_defs js_start_value_def Let_def forget_push js_push_def)

lemma start_value_forget:
  assumes "fst (ss_start_value s b n)" and "enum_free n"
  shows "js_start_value (forget s) b = (True, forget (snd (ss_start_value s b n)))"
proof -
  have number: "js_start_value (forget s) b = (True, js_push (JNumber (is_digit b) False False False False) (forget s))"
    if "b = CHR ''-'' \<or> is_digit b"
  proof (cases "b = CHR ''-''")
    case False
    with that digit_cases [of b] show ?thesis by (simp add: js_start_value_def)
  qed (simp add: js_start_value_def)
  note opens = ss_start_value_def ss_open_defs Let_def forget_push js_push_def object_frame_def
  show ?thesis
  proof (cases n)
    case NBool
    with assms(1) show ?thesis
      by (cases "b = CHR ''t''"; cases "b = CHR ''f''") (simp_all add: opens js_start_value_def)
  next
    case NNull
    with assms(1) show ?thesis
      by (cases "b = CHR ''n''") (simp_all add: opens js_start_value_def)
  next
    case NStr
    with assms(1) show ?thesis
      by (cases "b = dquote") (simp_all add: opens js_start_value_def)
  next
    case NObject
    with assms(1) show ?thesis
      by (cases "b = CHR ''{''") (simp_all add: opens js_start_value_def)
  next
    case NArray
    with assms(1) show ?thesis
      by (cases "b = CHR ''[''") (simp_all add: opens js_start_value_def)
  next
    case NInt
    with assms(1) number show ?thesis
      by (cases "b = CHR ''-''"; cases "is_digit b") (simp_all add: opens)
  next
    case NNum
    with assms(1) number show ?thesis
      by (cases "b = CHR ''-''"; cases "is_digit b") (simp_all add: opens)
  next
    case NAny
    with assms(1) start_any_forget [of "s\<lparr>ss_started := True\<rparr>" b] show ?thesis
      by (simp add: ss_start_value_def)
  qed (use assms in simp)
qed

subsection \<open>One byte\<close>

lemma forget_update:
  "forget (s\<lparr>ss_stack := fs\<rparr>) = (forget s)\<lparr>stack := concat (map abs_frame fs)\<rparr>"
  by (simp add: forget_def)

lemma forget_stack: "stack (forget s) = concat (map abs_frame (ss_stack s))"
  by (simp add: forget_def)

text \<open>The end of a value whose structural frames are \<open>js_push f p\<close>.\<close>

lemma pop_forget:
  assumes "plain s" and st: "ss_stack s = f # r" and "abs_frame f = [g]"
  shows "js_fold_after_value (js_pop (forget s)) = forget (ss_fold_after_value (ss_pop s))"
proof -
  have "list_all waiting_frame (ss_stack (ss_pop s))" "list_all plain_frame (ss_stack (ss_pop s))"
    using assms(1) st by (simp_all add: plain_def ss_inv_def)
  moreover have "js_pop (forget s) = forget (ss_pop s)"
    using st assms(3) by (simp add: forget_def js_pop_def ss_pop_def)
  ultimately show ?thesis by (simp add: forget_fold)
qed

lemma string_forget:
  assumes "plain s" and st: "ss_stack s = SStr e u # r" and "fst (ss_feed_string s b)"
  shows "js_feed_string_byte (forget s) b e u = (True, forget (snd (ss_feed_string s b)))"
proof -
  have "js_fold_after_value (js_pop (forget s)) = forget (ss_fold_after_value (ss_pop s))"
    using assms(1) st by (rule pop_forget) simp
  moreover have "fst (ss_feed_string s b) \<longrightarrow>
      js_feed_string_byte (forget s) b e u = (True, forget (snd (ss_feed_string s b)))"
    using st calculation
    by (simp add: ss_feed_string_def js_feed_string_byte_def forget_stack forget_update)
  ultimately show ?thesis using assms(3) by simp
qed

lemma literal_forget:
  assumes p: "plain s" and st: "ss_stack s = SLiteral ex # r" and "fst (ss_feed_literal s b)"
  shows "js_feed_literal_byte (forget s) b = (True, forget (snd (ss_feed_literal s b)))"
proof -
  have ex: "list_all (\<lambda>b. \<not> is_ws b) ex" using p st by (simp add: plain_def)
  have "plain (s\<lparr>ss_stack := SLiteral (tl ex) # r\<rparr>)"
    using p st by (cases ex) (simp_all add: plain_def ss_inv_def)
  then have "js_fold_after_value (js_pop ((forget s)\<lparr>stack := JLiteral (tl ex) # concat (map abs_frame r)\<rparr>))
      = forget (ss_fold_after_value (ss_pop (s\<lparr>ss_stack := SLiteral (tl ex) # r\<rparr>)))"
    using pop_forget [of "s\<lparr>ss_stack := SLiteral (tl ex) # r\<rparr>" "SLiteral (tl ex)" r "JLiteral (tl ex)"]
    by (simp add: forget_update)
  then have "fst (ss_feed_literal s b) \<longrightarrow>
      js_feed_literal_byte (forget s) b = (True, forget (snd (ss_feed_literal s b)))"
    using st
    by (cases ex; cases "tl ex")
       (simp_all add: ss_feed_literal_def js_feed_literal_byte_def forget_stack forget_update)
  with assms(3) show ?thesis by simp
qed

lemma close_object_forget:
  assumes "plain s" and st: "ss_stack s = SObject ps req add sn ost pk # r"
    and "ost \<noteq> InKey" and "fst (ss_close_object s)"
  shows "js_fold_after_value (js_pop (forget s)) = forget (snd (ss_close_object s))"
proof -
  obtain g where "abs_frame (SObject ps req add sn ost pk) = [g]"
    using assms(3) by (cases ost) simp_all
  then have "js_fold_after_value (js_pop (forget s)) = forget (ss_fold_after_value (ss_pop s))"
    using assms(1) st by (intro pop_forget)
  with st assms(4) show ?thesis by (simp add: ss_close_object_def split: if_splits)
qed

lemma array_forget:
  assumes p: "plain s" and st: "ss_stack s = SArray it ast # r" and "fst (ss_feed_array s b)"
  shows "js_feed_array_byte (forget s) b = (True, forget (snd (ss_feed_array s b)))"
proof -
  obtain g where "abs_frame (SArray it ast) = [g]" by (cases ast) simp_all
  with p st have close: "js_fold_after_value (js_pop (forget s)) =
      forget (ss_fold_after_value (ss_pop s))"
    by (intro pop_forget)
  have start: "fst (ss_start_value (s\<lparr>ss_stack := SArray it ArrExpectCommaOrClose # r\<rparr>) c it) \<longrightarrow>
    js_start_value ((forget s)\<lparr>stack := JArray False True # concat (map abs_frame r)\<rparr>) c =
      (True, forget (snd (ss_start_value (s\<lparr>ss_stack := SArray it ArrExpectCommaOrClose # r\<rparr>) c it)))"
    for c
    using start_value_forget [of "s\<lparr>ss_stack := SArray it ArrExpectCommaOrClose # r\<rparr>" c it] p st
    by (simp add: forget_update plain_def)
  have bracket: "\<not> fst (ss_start_value s' CHR '']'' it)" for s'
    using p st by (cases it) (simp_all add: plain_def ss_start_value_def ss_start_any_def
        ss_open_defs is_digit_def Let_def)
  have "fst (ss_feed_array s b) \<longrightarrow>
      js_feed_array_byte (forget s) b = (True, forget (snd (ss_feed_array s b)))"
    using st start close bracket
    by (cases ast)
       (simp_all add: ss_feed_array_def js_feed_array_byte_def forget_stack forget_update Let_def)
  with assms(3) show ?thesis by simp
qed

lemma object_forget:
  assumes p: "plain s" and st: "ss_stack s = SObject ps req add sn ost pk # r"
    and "fst (ss_feed_object s b)" and "ost \<noteq> InKey"
  shows "js_feed_object_byte (forget s) b = (True, forget (snd (ss_feed_object s b)))"
proof -
  have close: "fst (ss_close_object s) \<longrightarrow>
      js_fold_after_value (js_pop (forget s)) = forget (snd (ss_close_object s))"
    using close_object_forget [OF p st assms(4)] by simp
  let ?s = "s\<lparr>ss_stack := SObject ps req add sn ExpectCommaOrClose pk # r\<rparr>"
  have start: "fst (ss_start_value ?s c (value_node ps sn)) \<longrightarrow>
    js_start_value ((forget s)\<lparr>stack := JObject False False False True # concat (map abs_frame r)\<rparr>) c =
      (True, forget (snd (ss_start_value ?s c (value_node ps sn))))" for c
    using start_value_forget [of ?s c "value_node ps sn"] p st value_node_enum_free [of ps sn]
    by (simp add: forget_update plain_def)
  have "fst (ss_feed_object s b) \<longrightarrow>
      js_feed_object_byte (forget s) b = (True, forget (snd (ss_feed_object s b)))"
    using st start close assms(4)
    by (cases ost)
       (simp_all add: ss_feed_object_def js_feed_object_byte_def forget_stack forget_update Let_def
         js_push_def)
  with assms(3) show ?thesis by simp
qed

lemma key_forget:
  assumes st: "ss_stack s = SObject ps req add sn InKey pk # r" and "fst (ss_feed_object s b)"
  shows "js_feed_string_byte (forget s) b False 0 = (True, forget (snd (ss_feed_object s b)))"
proof -
  have "fst (ss_feed_object s b) \<longrightarrow>
      js_feed_string_byte (forget s) b False 0 = (True, forget (snd (ss_feed_object s b)))"
    using st
    by (simp add: ss_feed_object_def js_feed_string_byte_def forget_stack forget_update Let_def
        js_close_key_def js_pop_def)
  with assms(2) show ?thesis by simp
qed

lemma ws_facts:
  "is_ws b \<Longrightarrow> \<not> is_hexdigit b \<and> \<not> simple_escape b \<and> b \<noteq> CHR ''u'' \<and> b \<noteq> backslash \<and> b \<noteq> dquote"
  by (auto simp: is_ws_def is_hexdigit_def is_digit_def simple_escape_def)

lemma feed_forget_non_number:
  assumes p: "plain s" and ok: "fst (ss_feed s b)"
    and n: "\<not> (\<exists>i sd dt ex sg xd r. ss_stack s = SNum i sd dt ex sg xd # r)"
  shows "js_feed (forget s) b = (True, forget (snd (ss_feed s b)))"
proof (cases "ss_stack s")
  case Nil
  have "fst (ss_start_value s b (ss_root s)) \<longrightarrow>
      js_start_value (forget s) b = (True, forget (snd (ss_start_value s b (ss_root s))))"
    using p start_value_forget by (simp add: plain_def)
  with Nil ok show ?thesis
    by (auto simp: ss_feed.simps [of s] js_feed.simps [of "forget s"] forget_stack
        js_feed_top_level_byte_def split: if_splits)
next
  case (Cons f r)
  have valid: "\<not> ss_invalid s" using ok by (auto simp: ss_feed.simps [of s])
  show ?thesis
  proof (cases f)
    case SEnum
    with p Cons show ?thesis by (simp add: plain_def)
  next
    case (SStr e u)
    with ok Cons valid have "fst (ss_feed_string s b)" and f: "ss_feed s b = ss_feed_string s b"
      by (simp_all add: ss_feed.simps [of s])
    with p SStr Cons have s: "js_feed_string_byte (forget s) b e u = (True, forget (snd (ss_feed_string s b)))"
      by (intro string_forget) simp_all
    show ?thesis
    proof (cases "is_ws b")
      case True
      with \<open>fst (ss_feed_string s b)\<close> Cons SStr have "snd (ss_feed_string s b) = s"
        using ws_facts [of b] by (simp add: ss_feed_string_def split: if_splits)
      with True f Cons SStr valid show ?thesis
        by (simp add: js_feed.simps [of "forget s"] forget_stack)
    next
      case False
      with s f Cons SStr valid show ?thesis
        by (simp add: js_feed.simps [of "forget s"] forget_stack)
    qed
  next
    case (SNum i sd dt ex sg xd)
    with n Cons show ?thesis by simp
  next
    case (SLiteral ex)
    with ok Cons valid have l: "fst (ss_feed_literal s b)" and f: "ss_feed s b = ss_feed_literal s b"
      by (simp_all add: ss_feed.simps [of s])
    with p SLiteral Cons
    have s: "js_feed_literal_byte (forget s) b = (True, forget (snd (ss_feed_literal s b)))"
      by (intro literal_forget) simp_all
    have "\<not> is_ws b"
      using l p SLiteral Cons by (auto simp: ss_feed_literal_def plain_def split: list.splits if_splits)
    with s f Cons SLiteral valid show ?thesis
      by (simp add: js_feed.simps [of "forget s"] forget_stack)
  next
    case (SObject ps req add sn ost pk)
    show ?thesis
    proof (cases "is_ws b")
      case True
      with SObject Cons valid show ?thesis
        by (simp add: ss_feed.simps [of s] js_feed.simps [of "forget s"] forget_stack
            split: obj_stage.splits)
    next
      case False
      with SObject Cons valid ok have "fst (ss_feed_object s b)" and "ss_feed s b = ss_feed_object s b"
        by (simp_all add: ss_feed.simps [of s])
      with False SObject Cons valid p object_forget [of s ps req add sn ost pk r b]
        key_forget [of s ps req add sn pk r b]
      show ?thesis
        by (cases ost) (simp_all add: js_feed.simps [of "forget s"] forget_stack)
    qed
  next
    case (SArray it ast)
    show ?thesis
    proof (cases "is_ws b")
      case True
      with SArray Cons valid show ?thesis
        by (simp add: ss_feed.simps [of s] js_feed.simps [of "forget s"] forget_stack)
    next
      case False
      with SArray Cons valid ok have "fst (ss_feed_array s b)" and "ss_feed s b = ss_feed_array s b"
        by (simp_all add: ss_feed.simps [of s])
      with False SArray Cons valid p array_forget [of s it ast r b] show ?thesis
        by (simp add: js_feed.simps [of "forget s"] forget_stack)
    qed
  qed
qed

subsection \<open>The invariant and the runs\<close>

lemma plain_start_value:
  "list_all plain_frame (ss_stack s) \<Longrightarrow> enum_free n \<Longrightarrow>
     list_all plain_frame (ss_stack (snd (ss_start_value s b n)))"
  by (cases n) (simp_all add: ss_start_value_def ss_open_defs ss_start_any_def object_frame_def
      Let_def is_ws_def)

lemma plain_fold:
  "list_all plain_frame (ss_stack s) \<Longrightarrow> list_all plain_frame (ss_stack (ss_fold_after_value s))"
  by (auto simp: ss_fold_after_value_def split: list.splits ss_frame.splits)

lemma handler_plain:
  assumes "list_all plain_frame fs" and "ss_stack s = fs"
  shows "list_all plain_frame (ss_stack (snd (ss_feed_string s b)))"
    and "list_all plain_frame (ss_stack (snd (ss_feed_literal s b)))"
    and "list_all plain_frame (ss_stack (snd (ss_close_object s)))"
    and "list_all plain_frame (ss_stack (snd (ss_feed_object s b)))"
    and "list_all plain_frame (ss_stack (snd (ss_feed_array s b)))"
proof -
  show "list_all plain_frame (ss_stack (snd (ss_feed_string s b)))"
    using assms by (cases fs; cases "hd fs") (simp_all add: ss_feed_string_def plain_fold)
  show "list_all plain_frame (ss_stack (snd (ss_feed_literal s b)))"
    using assms
    by (cases fs; cases "hd fs")
       (auto simp: ss_feed_literal_def plain_fold split: list.splits)
  show close: "list_all plain_frame (ss_stack (snd (ss_close_object s)))"
    using assms by (cases fs; cases "hd fs") (simp_all add: ss_close_object_def plain_fold)
  show "list_all plain_frame (ss_stack (snd (ss_feed_object s b)))"
    using assms close
    by (cases fs; cases "hd fs")
       (simp_all add: ss_feed_object_def plain_start_value value_node_enum_free Let_def
         split: obj_stage.split)
  show "list_all plain_frame (ss_stack (snd (ss_feed_array s b)))"
    using assms
    by (cases fs; cases "hd fs")
       (simp_all add: ss_feed_array_def plain_fold plain_start_value Let_def split: arr_stage.split)
qed

lemma feed_plain_non_number:
  assumes f: "list_all plain_frame (ss_stack s)" and r: "enum_free (ss_root s)"
    and n: "\<not> (\<exists>i sd dt ex sg xd r. ss_stack s = SNum i sd dt ex sg xd # r)"
  shows "list_all plain_frame (ss_stack (snd (ss_feed s b)))"
proof (cases "ss_stack s")
  case Nil
  with r show ?thesis by (simp add: ss_feed.simps [of s] plain_start_value)
next
  case (Cons f r)
  with assms handler_plain [OF f refl] show ?thesis
    by (cases f) (simp_all add: ss_feed.simps [of s])
qed

lemma plain_pop:
  assumes p: "plain s" and st: "ss_stack s = f # r"
  shows "plain (ss_fold_after_value (ss_pop s))"
    and "ss_stack (ss_fold_after_value (ss_pop s)) = r"
proof -
  have ready: "ss_ready (ss_pop s)" using p st by (intro ss_pop_ready) (simp_all add: plain_def)
  then show stack: "ss_stack (ss_fold_after_value (ss_pop s)) = r"
    using st by (auto simp: ss_ready_def ss_fold_waiting)
  show "plain (ss_fold_after_value (ss_pop s))"
    using p st stack ss_fold_inv [OF ready] by (simp add: plain_def)
qed

lemma pop_not_number:
  assumes p: "plain s" and st: "ss_stack s = f # r"
  shows "\<not> (\<exists>i sd dt ex sg xd r'. ss_stack (ss_fold_after_value (ss_pop s)) = SNum i sd dt ex sg xd # r')"
proof -
  have "list_all waiting_frame r" using p st by (simp add: plain_def ss_inv_def)
  then show ?thesis using plain_pop(2) [OF p st] by (cases r) auto
qed

lemma plain_feed:
  assumes p: "plain s"
  shows "plain (snd (ss_feed s b))"
proof -
  have "list_all plain_frame (ss_stack (snd (ss_feed s b)))"
  proof (cases "\<exists>i sd dt ex sg xd r. ss_stack s = SNum i sd dt ex sg xd # r")
    case True
    then obtain i sd dt ex sg xd r where st: "ss_stack s = SNum i sd dt ex sg xd # r" by blast
    let ?s = "ss_fold_after_value (ss_pop s)"
    have "list_all plain_frame (ss_stack (snd (ss_feed ?s b)))"
      using plain_pop(1) [OF p st] pop_not_number [OF p st]
      by (intro feed_plain_non_number) (simp_all add: plain_def)
    then have "list_all plain_frame (ss_stack (snd (ss_feed_number s b)))"
      using p st by (simp add: ss_feed_number.simps [of s] plain_def)
    then show ?thesis
      using p st plain_pop(1) [OF p st] by (simp add: ss_feed.simps [of s] plain_def)
  next
    case False
    with p show ?thesis by (intro feed_plain_non_number) (simp_all add: plain_def)
  qed
  with p show ?thesis by (simp add: plain_def ss_feed_inv root_feed)
qed

text \<open>
  An integer ends at a byte that would continue a number. What follows a value is a comma, a
  closing bracket or whitespace, so such a byte is rejected there.
\<close>

lemma waiting_rejects:
  assumes "list_all waiting_frame (ss_stack s)" and "ss_stack s = [] \<longrightarrow> ss_finished s"
    and "\<not> is_ws b" and "b \<notin> {CHR '','', CHR '']'', CHR ''}''}"
  shows "\<not> fst (ss_feed s b)"
proof (cases "ss_stack s")
  case Nil
  with assms show ?thesis by (simp add: ss_feed.simps [of s])
next
  case (Cons f r)
  with assms show ?thesis
    by (cases f) (simp_all add: ss_feed.simps [of s] ss_feed_object_def ss_feed_array_def)
qed

lemma feed_forget:
  assumes p: "plain s" and ok: "fst (ss_feed s b)"
  shows "js_feed (forget s) b = (True, forget (snd (ss_feed s b)))"
proof (cases "\<exists>i sd dt ex sg xd r. ss_stack s = SNum i sd dt ex sg xd # r")
  case True
  then obtain i sd dt ex sg xd r where st: "ss_stack s = SNum i sd dt ex sg xd # r" by blast
  let ?s = "ss_fold_after_value (ss_pop s)"
  have valid: "\<not> ss_invalid s" using ok by (auto simp: ss_feed.simps [of s])
  have pop: "js_fold_after_value (js_pop (forget s)) = forget ?s"
    using p st by (rule pop_forget) simp
  have again: "fst (ss_feed ?s b) \<longrightarrow>
      js_feed (forget ?s) b = (True, forget (snd (ss_feed ?s b)))"
    using feed_forget_non_number [OF plain_pop(1) [OF p st] _ pop_not_number [OF p st]] by blast
  have "fst (ss_feed_number s b) \<longrightarrow>
      js_feed_number_byte (forget s) b = (True, forget (snd (ss_feed_number s b)))"
  proof (cases "i \<and> b \<in> {CHR ''.'', CHR ''e'', CHR ''E'', CHR ''+'', CHR ''-''}")
    case True
    have ready: "list_all waiting_frame (ss_stack (ss_pop s))"
      using p st by (simp add: plain_def ss_inv_def)
    have b: "\<not> is_ws b" "b \<notin> {CHR '','', CHR '']'', CHR ''}''}" "\<not> is_digit b"
      using True by (auto simp: is_ws_def is_digit_def)
    have "\<not> fst (ss_feed ?s b)"
      using ready b(1,2) by (intro waiting_rejects) (simp_all add: ss_fold_waiting)
    with True st b(3) show ?thesis by (simp add: ss_feed_number.simps [of s])
  next
    case False
    then show ?thesis
      using st pop again
      by (cases i; cases "b = CHR ''+''"; cases "b = CHR ''-''")
         (simp_all add: ss_feed_number.simps [of s] js_feed_number_byte.simps [of "forget s"]
           forget_stack forget_update is_digit_def)
  qed
  then show ?thesis
    using ok st valid pop
    by (simp add: ss_feed.simps [of s] js_feed.simps [of "forget s"] forget_stack split: if_splits)
next
  case False
  with assms show ?thesis by (intro feed_forget_non_number)
qed

lemma slice_forget:
  assumes "plain s" and "fst (ss_feed_slice s t)"
  shows "js_feed_slice (forget s) t = (True, forget (snd (ss_feed_slice s t)))
    \<and> plain (snd (ss_feed_slice s t))"
  using assms
proof (induction t arbitrary: s)
  case (Cons b t)
  then have "fst (ss_feed s b)" by (auto simp: split: prod.splits if_splits)
  with Cons plain_feed [of s b] feed_forget [of s b] show ?case
    by (auto split: prod.splits)
qed simp

lemma finalize_forget:
  assumes p: "plain s"
  shows "js_finalize_at_eos (forget s) = forget (ss_finalize_at_eos s)"
proof (cases "\<exists>i sd dt ex sg xd r. ss_stack s = SNum i sd dt ex sg xd # r")
  case True
  then obtain i sd dt ex sg xd r where st: "ss_stack s = SNum i sd dt ex sg xd # r" by blast
  have pop: "js_fold_after_value (js_pop (forget s)) = forget (ss_fold_after_value (ss_pop s))"
    using p st by (rule pop_forget) simp
  have "ss_settle_enum (ss_fold_after_value (ss_pop s)) = ss_fold_after_value (ss_pop s)"
    using plain_pop [OF p st] by (auto simp: ss_settle_enum_def plain_def split: list.splits ss_frame.splits)
  with st pop show ?thesis
    by (simp add: ss_finalize_at_eos_def js_finalize_at_eos_def forget_stack)
next
  case False
  have "ss_settle_enum s = s"
    using p by (auto simp: ss_settle_enum_def plain_def split: list.splits ss_frame.splits)
  moreover have "\<not> (\<exists>cs p r. ss_stack s = SEnum cs p # r)"
    using p by (auto simp: plain_def)
  ultimately show ?thesis
    using False
    by (auto simp: ss_finalize_at_eos_def js_finalize_at_eos_def forget_stack
        split: list.splits ss_frame.splits js_frame.splits obj_stage.splits)
qed

lemma schema_refines_json:
  assumes "enum_free root" and "fst (ss_feed_slice (ss_new root) t)"
  shows "js_feed_slice js_new t = (True, forget (snd (ss_feed_slice (ss_new root) t)))"
    and "js_finalize_at_eos (snd (js_feed_slice js_new t)) =
      forget (ss_finalize_at_eos (snd (ss_feed_slice (ss_new root) t)))"
proof -
  have new: "plain (ss_new root)" "forget (ss_new root) = js_new"
    using assms(1) ss_new_inv by (simp_all add: plain_def forget_def ss_new_def js_new_def)
  note run = slice_forget [OF new(1) assms(2)]
  then show *: "js_feed_slice js_new t = (True, forget (snd (ss_feed_slice (ss_new root) t)))"
    by (simp add: new(2))
  show "js_finalize_at_eos (snd (js_feed_slice js_new t)) =
      forget (ss_finalize_at_eos (snd (ss_feed_slice (ss_new root) t)))"
    using finalize_forget run * by simp
qed

lemma forget_complete:
  assumes "plain s"
  shows "js_is_complete (forget s) = ss_is_complete s"
  using assms forget_Nil [of "ss_stack s"]
  by (auto simp: js_is_complete_def ss_is_complete_def plain_def forget_stack)

subsection \<open>Property\<close>

text \<open>
  C4: For a schema without literal sets, the schema validator refines the structural one: every
  text it accepts is accepted by \<^verbatim>\<open>JsonState\<close>, the structural state is the schema state with
  the schema forgotten, and what it reports complete, the structural validator reports complete.
\<close>

theorem schema_validator_refines_json:
  assumes "enum_free root" and "fst (ss_feed_slice (ss_new root) t)"
  shows "js_feed_slice js_new t = (True, forget (snd (ss_feed_slice (ss_new root) t)))
    \<and> (ss_is_complete (ss_finalize_at_eos (snd (ss_feed_slice (ss_new root) t))) \<longrightarrow>
      js_is_complete (js_finalize_at_eos (snd (js_feed_slice js_new t))))"
proof (intro conjI impI)
  show "js_feed_slice js_new t = (True, forget (snd (ss_feed_slice (ss_new root) t)))"
    using assms by (rule schema_refines_json)
next
  assume "ss_is_complete (ss_finalize_at_eos (snd (ss_feed_slice (ss_new root) t)))"
  then show "js_is_complete (js_finalize_at_eos (snd (js_feed_slice js_new t)))"
    by (simp add: schema_refines_json(2) [OF assms] js_is_complete_def ss_is_complete_def
        forget_stack)
qed

theorem schema_validator_refines_json_witness:
  "js_is_complete (js_finalize_at_eos (snd (js_feed_slice js_new
     (''{'' @ [dquote] @ ''a'' @ [dquote] @ '':true}''))))"
proof -
  let ?t = "''{'' @ [dquote] @ ''a'' @ [dquote] @ '':true}''"
  have "enum_free age_schema" by simp
  moreover have "fst (ss_feed_slice (ss_new age_schema) ?t)" by code_simp
  moreover have "ss_is_complete (ss_finalize_at_eos (snd (ss_feed_slice (ss_new age_schema) ?t)))"
    by code_simp
  ultimately show ?thesis using schema_validator_refines_json by blast
qed

end
