(* ===== verification/Json_Mask.thy ===== *)
theory Json_Mask
  imports Json_Rfc Json_Schema_Refine "HOL-Library.Multiset"
begin

section \<open>Constrained sampling: \<^verbatim>\<open>JsonConstraint\<close> and the token mask\<close>

text \<open>
  The sampler holds one of the two validators behind \<^verbatim>\<open>JsonConstraint\<close>
  (\<^verbatim>\<open>crates/runtime/src/json_schema.rs\<close>) and, before each draw, sets the logit of every
  candidate token the constraint would reject to minus infinity
  (\<^verbatim>\<open>apply_json_mask_to_logits\<close> in \<^verbatim>\<open>crates/server/src/gpu_sampler.rs\<close>).

  Logits are of any type, with minus infinity a parameter. The tokenizer's \<^verbatim>\<open>decode\<close> of one id
  (a third-party tokenizer behind \<^verbatim>\<open>GgufTokenizer\<close>) and the partial sort
  \<^verbatim>\<open>select_nth_unstable_by\<close> of the standard library are parameters.
\<close>

subsection \<open>The constraint\<close>

datatype json_constraint = CObject json_state | CSchema schema_state

definition jc_object :: json_constraint where
  "jc_object = CObject js_new"

definition jc_for_schema :: "('n jvalue \<Rightarrow> bytes) \<Rightarrow> 'n jvalue \<Rightarrow> json_constraint" where
  "jc_for_schema to_vec schema = CSchema (ss_new (node_compile to_vec schema))"

fun jc_feed :: "json_constraint \<Rightarrow> byte \<Rightarrow> bool \<times> json_constraint" where
  "jc_feed (CObject s) b = (let (ok, s') = js_feed s b in (ok, CObject s'))"
| "jc_feed (CSchema s) b = (let (ok, s') = ss_feed s b in (ok, CSchema s'))"

fun jc_feed_slice :: "json_constraint \<Rightarrow> bytes \<Rightarrow> bool \<times> json_constraint" where
  "jc_feed_slice (CObject s) bs = (let (ok, s') = js_feed_slice s bs in (ok, CObject s'))"
| "jc_feed_slice (CSchema s) bs = (let (ok, s') = ss_feed_slice s bs in (ok, CSchema s'))"

fun jc_is_valid :: "json_constraint \<Rightarrow> bool" where
  "jc_is_valid (CObject s) = js_is_valid s"
| "jc_is_valid (CSchema s) = ss_is_valid s"

fun jc_is_complete :: "json_constraint \<Rightarrow> bool" where
  "jc_is_complete (CObject s) = js_is_complete s"
| "jc_is_complete (CSchema s) = ss_is_complete s"

fun jc_has_started :: "json_constraint \<Rightarrow> bool" where
  "jc_has_started (CObject s) = js_has_started s"
| "jc_has_started (CSchema s) = ss_has_started s"

fun jc_finalize_at_eos :: "json_constraint \<Rightarrow> json_constraint" where
  "jc_finalize_at_eos (CObject s) = CObject (js_finalize_at_eos s)"
| "jc_finalize_at_eos (CSchema s) = CSchema (ss_finalize_at_eos s)"

fun jc_top_must_be_object :: "json_constraint \<Rightarrow> bool" where
  "jc_top_must_be_object (CObject s) = True"
| "jc_top_must_be_object (CSchema s) = False"

interpretation jc: byte_validator jc_feed jc_feed_slice jc_is_valid
proof unfold_locales
  fix c b bs
  show "\<not> jc_is_valid c \<Longrightarrow> jc_feed c b = (False, c)"
    by (cases c) (simp_all add: js.feed_latch ss.feed_latch)
  show "fst (jc_feed c b) \<longleftrightarrow> jc_is_valid (snd (jc_feed c b))"
    by (cases c) (simp_all add: js.feed_accepts ss.feed_accepts split_beta)
  show "jc_feed_slice c [] = (True, c)"
    by (cases c) simp_all
  show "jc_feed_slice c (b # bs) =
      (let (ok, c') = jc_feed c b in if \<not> ok then (False, c') else jc_feed_slice c' bs)"
    by (cases c) (simp_all add: split_beta Let_def)
qed

subsection \<open>The mask\<close>

definition mask_candidates ::
    "(nat \<Rightarrow> (nat \<times> 'f) list \<Rightarrow> (nat \<times> 'f) list) \<Rightarrow> nat \<Rightarrow> 'f list \<Rightarrow> nat list" where
  "mask_candidates select k logits =
     (let pairs = zip [0..<length logits] logits in
      map fst (if k < length pairs then take k (select (k - 1) pairs) else pairs))"

text \<open>
  What the loop body decides for one candidate: the branches in the order of the code, \<open>True\<close>
  where it writes minus infinity.
\<close>

definition mask_rejects :: "json_constraint \<Rightarrow> (nat \<Rightarrow> bytes option) \<Rightarrow> nat \<Rightarrow> bool" where
  "mask_rejects st decode i =
     (case decode i of
        None \<Rightarrow> True
      | Some bs \<Rightarrow>
          (if bs = [] then \<not> jc_is_complete st
           else
             (let (ok, probe) = jc_feed_slice st bs in
              if \<not> ok then True
              else if \<not> jc_has_started st \<and> \<not> jc_has_started probe then True
              else if jc_top_must_be_object st \<and> \<not> jc_has_started st \<and> jc_has_started probe
                        \<and> list_all (\<lambda>b. b \<noteq> CHR ''{'') bs then True
              else False)))"

definition apply_json_mask ::
    "(nat \<Rightarrow> (nat \<times> 'f) list \<Rightarrow> (nat \<times> 'f) list) \<Rightarrow> 'f \<Rightarrow> json_constraint \<Rightarrow> (nat \<Rightarrow> bytes option)
      \<Rightarrow> 'f list \<Rightarrow> nat \<Rightarrow> 'f list" where
  "apply_json_mask select ninf st decode logits max_candidates =
     (if logits = [] then logits
      else
        (let k = min max_candidates (length logits) in
         if k = 0 then logits
         else fold (\<lambda>i ls. if mask_rejects st decode i then ls[i := ninf] else ls)
                (mask_candidates select k logits) logits))"

text \<open>After the draw the decode loop advances the constraint by the token's bytes.\<close>

definition advance_constraint ::
    "json_constraint \<Rightarrow> (nat \<Rightarrow> bytes option) \<Rightarrow> nat \<Rightarrow> json_constraint" where
  "advance_constraint st decode i =
     (case decode i of None \<Rightarrow> st | Some bs \<Rightarrow> snd (jc_feed_slice st bs))"

subsection \<open>What the mask leaves standing\<close>

lemma mask_fold:
  "i < length ls \<Longrightarrow>
     fold (\<lambda>i ls. if R i then ls[i := ninf] else ls) ids ls ! i =
       (if i \<in> set ids \<and> R i then ninf else ls ! i)"
proof (induction ids arbitrary: ls)
  case (Cons j ids)
  then show ?case by (cases "R j"; cases "i = j") (auto simp: nth_list_update)
qed simp

lemma mask_length [simp]:
  "length (fold (\<lambda>i ls. if R i then ls[i := ninf] else ls) ids ls) = length ls"
  by (induction ids arbitrary: ls) auto

lemma apply_json_mask_nth:
  assumes "i < length logits" and "0 < max_candidates"
  shows "apply_json_mask select ninf st decode logits max_candidates ! i =
    (if i \<in> set (mask_candidates select (min max_candidates (length logits)) logits)
        \<and> mask_rejects st decode i then ninf else logits ! i)"
  using assms by (auto simp: apply_json_mask_def mask_fold Let_def)

lemma kept_candidate_feeds:
  assumes "\<not> mask_rejects st decode i"
  shows "(decode i = Some [] \<and> jc_is_complete st) \<or>
    (\<exists>bs. decode i = Some bs \<and> bs \<noteq> [] \<and> fst (jc_feed_slice st bs))"
  using assms by (auto simp: mask_rejects_def split: option.splits if_splits prod.splits)

lemma advance_valid:
  assumes "jc_is_valid st" and "\<not> mask_rejects st decode i"
  shows "jc_is_valid (advance_constraint st decode i)"
  using kept_candidate_feeds [OF assms(2)] jc.slice_accepts [OF assms(1)] assms(1)
  by (auto simp: advance_constraint_def jc.slice_Nil)

text \<open>A decode: each token was a kept candidate of the constraint's state when it was drawn.\<close>

fun masked_run :: "(nat \<Rightarrow> bytes option) \<Rightarrow> json_constraint \<Rightarrow> nat list \<Rightarrow> bool" where
  "masked_run decode st [] = True"
| "masked_run decode st (i # is) =
     (\<not> mask_rejects st decode i \<and> masked_run decode (advance_constraint st decode i) is)"

definition run_text :: "(nat \<Rightarrow> bytes option) \<Rightarrow> nat list \<Rightarrow> bytes" where
  "run_text decode is = concat (map (\<lambda>i. case decode i of None \<Rightarrow> [] | Some bs \<Rightarrow> bs) is)"

lemma masked_run_text:
  assumes "jc_is_valid st" and "masked_run decode st is"
  shows "jc_feed_slice st (run_text decode is) = (True, foldl (\<lambda>s i. advance_constraint s decode i) st is)"
  using assms
proof (induction "is" arbitrary: st)
  case Nil
  then show ?case by (simp add: run_text_def jc.slice_Nil)
next
  case (Cons i "is")
  from Cons.prems have keep: "\<not> mask_rejects st decode i" by simp
  have "jc_feed_slice st (case decode i of None \<Rightarrow> [] | Some bs \<Rightarrow> bs) =
      (True, advance_constraint st decode i)"
    using kept_candidate_feeds [OF keep]
    by (auto simp: advance_constraint_def jc.slice_Nil prod_eq_iff)
  moreover have "jc_feed_slice (advance_constraint st decode i) (run_text decode is) =
      (True, foldl (\<lambda>s i. advance_constraint s decode i) (advance_constraint st decode i) is)"
    using Cons advance_valid [OF Cons.prems(1) keep] by simp
  ultimately show ?case
    by (simp add: run_text_def jc.slice_append)
qed

subsection \<open>Properties\<close>


abbreviation toy_decode :: "nat \<Rightarrow> bytes option" where
  "toy_decode i \<equiv> (if i = 0 then Some [] else if i = 1 then Some ''{'' else if i = 2 then Some ''}''
     else None)"


text \<open>
  The mask changes only the logits it means to: at every index the result is minus infinity
  when the index is one of the candidates and the constraint rejects its token, and the original
  logit otherwise. In particular tokens outside the top candidates keep their logits even when the
  constraint rejects them.
\<close>

theorem json_mask_pointwise:
  assumes "i < length logits" and "0 < max_candidates"
  shows "apply_json_mask select ninf st decode logits max_candidates ! i =
    (if i \<in> set (mask_candidates select (min max_candidates (length logits)) logits)
        \<and> mask_rejects st decode i then ninf else logits ! i)"
  using assms by (rule apply_json_mask_nth)

theorem json_mask_pointwise_witness:
  "apply_json_mask (\<lambda>_ ps. ps) (-1) jc_object toy_decode [5, 6, 7 :: int] 3 ! 2 = -1
   \<and> apply_json_mask (\<lambda>_ ps. ps) (-1) jc_object toy_decode [5, 6, 7 :: int] 3 ! 1 = 6"
proof -
  have len: "2 < length [5, 6, 7 :: int]" "1 < length [5, 6, 7 :: int]" "0 < (3::nat)"
    by simp_all
  have "mask_rejects jc_object toy_decode 2" and "\<not> mask_rejects jc_object toy_decode 1"
    by code_simp+
  moreover have "set (mask_candidates (\<lambda>_ ps. ps) (min 3 (length [5, 6, 7 :: int])) [5, 6, 7 :: int])
      = {0, 1, 2}"
    by code_simp
  ultimately show ?thesis
    using json_mask_pointwise [OF len(1,3), of "\<lambda>_ ps. ps" "-1" jc_object toy_decode]
      json_mask_pointwise [OF len(2,3), of "\<lambda>_ ps. ps" "-1" jc_object toy_decode]
    by simp
qed

text \<open>
  In \<^verbatim>\<open>json_object\<close> mode the first token is only required to contain an opening brace
  somewhere, so a token that opens an array first is left standing by the mask, and the value it
  starts is not an object.
\<close>

theorem object_mode_admits_array:
  assumes "decode i = Some (CHR ''['' # w @ CHR ''{'' # [])" and "all_ws w"
  shows "\<not> mask_rejects jc_object decode i
    \<and> advance_constraint jc_object decode i =
        CObject (js_push (JObject True False False False) (js_push (JArray False True) js_new))"
proof -
  have new: "can_start js_new" "started js_new = js_new" "\<not> invalid js_new"
    by (simp_all add: can_start_def js_new_def started_def)
  let ?a = "js_push (JArray True False) js_new"
  have "js_feed ?a CHR ''{'' =
      (True, js_push (JObject True False False False) (js_push (JArray False True) js_new))"
    using feed_open(2) [OF can_start_push(1) [OF new(3)]]
    by (simp add: started_def js_push_def)
  then have "js_feed_slice js_new (CHR ''['' # w @ CHR ''{'' # []) =
      (True, js_push (JObject True False False False) (js_push (JArray False True) js_new))"
    using feed_all_ws [OF calm_push(1) [OF new(3)] assms(2)]
    by (simp add: feed_open(1) [OF new(1)] new(2) js.slice_append)
  then have "jc_feed_slice jc_object (CHR ''['' # w @ CHR ''{'' # []) = (True, CObject
      (js_push (JObject True False False False) (js_push (JArray False True) js_new)))"
    by (simp add: jc_object_def)
  moreover have "jc_has_started (CObject (js_push f s))" for f s
    by (simp add: js_has_started_def)
  ultimately show ?thesis
    using assms(1) by (simp add: mask_rejects_def advance_constraint_def)
qed

theorem object_mode_admits_array_witness:
  "\<not> mask_rejects jc_object (\<lambda>_. Some ''[{'') 0"
  using object_mode_admits_array [of "\<lambda>_. Some ''[{''" 0 "[]"] by (simp add: all_ws_def)

end
