(* ===== verification/Prefix_Keys.thy ===== *)
theory Prefix_Keys
  imports FB_Prelude "HOL-Library.Word"
begin

section \<open>Prompt prefix keys\<close>

text \<open>
  The chained chunk hashes of \<^verbatim>\<open>crates/server/src/prefix_cache.rs\<close>
  (\<^verbatim>\<open>ChunkKey\<close>, \<^verbatim>\<open>PrefixKeys\<close>). The hasher of the standard library is a
  parameter \<open>H\<close>: \<open>H prev tokens\<close> is \<^verbatim>\<open>ChunkKey(prev).extend(tokens)\<close>. Where a
  statement needs that no two of the chunks hashed collide, it says so of the chunks in question.
\<close>

type_synonym token = "32 word"
type_synonym chunk_key = "64 word"
type_synonym hasher = "chunk_key \<Rightarrow> token list \<Rightarrow> chunk_key"

definition key_seed :: chunk_key where
  "key_seed = 0"

record prefix_keys =
  chunk_keys :: "chunk_key list"
  keys_chunk_tokens :: nat
  prompt_tokens :: nat

subsection \<open>\<^verbatim>\<open>PrefixKeys::from_prompt\<close>\<close>

text \<open>One round of the loop over the full chunks: \<open>(prev, chunk_keys)\<close>.\<close>

definition key_step ::
    "hasher \<Rightarrow> token list \<Rightarrow> nat \<Rightarrow> nat \<Rightarrow> chunk_key \<times> chunk_key list \<Rightarrow> chunk_key \<times> chunk_key list" where
  "key_step H prompt c i pk =
     (let k = H (fst pk) (slice_of prompt (i * c) ((i + 1) * c)) in (k, snd pk @ [k]))"

text \<open>\<open>None\<close> is the failing assertion on a chunk size of zero.\<close>

definition from_prompt :: "hasher \<Rightarrow> token list \<Rightarrow> nat \<Rightarrow> prefix_keys option" where
  "from_prompt H prompt c =
     (if c = 0 then None
      else
        (let n_full = length prompt div c;
             has_tail = length prompt mod c \<noteq> 0;
             (prev, ks) = fold (key_step H prompt c) [0..<n_full] (key_seed, []);
             ks' = (if has_tail then ks @ [H prev (drop (n_full * c) prompt)] else ks) in
         Some \<lparr>chunk_keys = ks', keys_chunk_tokens = c, prompt_tokens = length prompt\<rparr>))"

definition tokens_for_chunk_index :: "prefix_keys \<Rightarrow> nat \<Rightarrow> nat" where
  "tokens_for_chunk_index pk idx = min ((idx + 1) * keys_chunk_tokens pk) (prompt_tokens pk)"

definition n_chunks :: "prefix_keys \<Rightarrow> nat" where
  "n_chunks pk = length (chunk_keys pk)"

subsection \<open>The chain as a function of the chunks\<close>

text \<open>
  The specification: the prompt cut into chunks of \<open>c\<close> tokens, the last one possibly shorter, and
  the hashes chained over them.
\<close>

fun chunks :: "nat \<Rightarrow> 'a list \<Rightarrow> 'a list list" where
  "chunks c [] = []"
| "chunks c (x # xs) =
     (if c = 0 then [x # xs] else take c (x # xs) # chunks c (drop c (x # xs)))"

fun chain :: "hasher \<Rightarrow> chunk_key \<Rightarrow> token list list \<Rightarrow> chunk_key list" where
  "chain H prev [] = []"
| "chain H prev (t # ts) = H prev t # chain H (H prev t) ts"

text \<open>The pairs hashed along the chain.\<close>

fun hashed :: "hasher \<Rightarrow> chunk_key \<Rightarrow> token list list \<Rightarrow> (chunk_key \<times> token list) list" where
  "hashed H prev [] = []"
| "hashed H prev (t # ts) = (prev, t) # hashed H (H prev t) ts"

definition prompt_hashed :: "hasher \<Rightarrow> nat \<Rightarrow> token list \<Rightarrow> (chunk_key \<times> token list) set" where
  "prompt_hashed H c p = set (hashed H key_seed (chunks c p))"

lemma length_chain [simp]: "length (chain H prev ts) = length ts"
  by (induction ts arbitrary: prev) simp_all

lemma chain_append:
  "chain H prev (ts @ us) = chain H prev ts @ chain H (last (prev # chain H prev ts)) us"
  by (induction ts arbitrary: prev) simp_all

lemma chunks_step: "xs \<noteq> [] \<Longrightarrow> 0 < c \<Longrightarrow> chunks c xs = take c xs # chunks c (drop c xs)"
  by (cases xs) simp_all

lemma concat_chunks [simp]: "concat (chunks c xs) = xs"
  by (induction c xs rule: chunks.induct) simp_all

lemma chunks_full:
  "0 < c \<Longrightarrow> n * c \<le> length xs \<Longrightarrow>
     chunks c xs = map (\<lambda>i. slice_of xs (i * c) ((i + 1) * c)) [0..<n] @ chunks c (drop (n * c) xs)"
proof (induction n)
  case (Suc n)
  then have "chunks c (drop (n * c) xs) =
      slice_of xs (n * c) ((n + 1) * c) # chunks c (drop (Suc n * c) xs)"
    by (subst chunks_step) (auto simp: slice_of_def add.commute)
  with Suc show ?case by simp
qed simp

lemma chunks_short: "length xs \<le> c \<Longrightarrow> chunks c xs = (if xs = [] then [] else [xs])"
  by (cases xs) auto

lemma key_steps:
  "fold (key_step H prompt c) is (prev, ks) =
     (let ts = map (\<lambda>i. slice_of prompt (i * c) ((i + 1) * c)) is in
      (last (prev # chain H prev ts), ks @ chain H prev ts))"
  by (induction "is" arbitrary: prev ks) (simp_all add: key_step_def Let_def)

lemma from_prompt_chain:
  assumes "0 < c"
  shows "from_prompt H prompt c =
    Some \<lparr>chunk_keys = chain H key_seed (chunks c prompt), keys_chunk_tokens = c,
      prompt_tokens = length prompt\<rparr>"
proof -
  let ?n = "length prompt div c"
  let ?full = "map (\<lambda>i. slice_of prompt (i * c) ((i + 1) * c)) [0..<?n]"
  let ?tail = "drop (?n * c) prompt"
  have rest: "chunks c ?tail = (if ?tail = [] then [] else [?tail])"
    using assms by (intro chunks_short) (simp add: minus_div_mult_eq_mod less_imp_le)
  have tail: "?tail = [] \<longleftrightarrow> length prompt mod c = 0"
    by (simp flip: minus_div_mult_eq_mod)
  have "chunks c prompt = ?full @ chunks c ?tail"
    using assms by (intro chunks_full) simp_all
  then have split: "chunks c prompt =
      ?full @ (if length prompt mod c \<noteq> 0 then [?tail] else [])"
    unfolding rest tail by simp
  show ?thesis
  proof (cases "length prompt mod c = 0")
    case True
    then have "chain H key_seed (chunks c prompt) = chain H key_seed ?full"
      by (simp only: split if_False not_not append_Nil2 simp_thms)
    with True assms show ?thesis
      by (simp only: from_prompt_def key_steps Let_def prod.case) simp
  next
    case False
    then have "chain H key_seed (chunks c prompt) =
        chain H key_seed ?full @ [H (last (key_seed # chain H key_seed ?full)) ?tail]"
      by (simp only: split if_True chain_append chain.simps simp_thms)
    with False assms show ?thesis
      by (simp only: from_prompt_def key_steps Let_def prod.case) simp
  qed
qed

lemma length_chunks: "0 < c \<Longrightarrow> length (chunks c xs) = (length xs + c - 1) div c"
proof (induction "length xs" arbitrary: xs rule: less_induct)
  case less
  show ?case
  proof (cases "xs = []")
    case False
    then have "length (chunks c xs) = Suc ((length (drop c xs) + c - 1) div c)"
      using less.hyps [of "drop c xs"] less.prems
      by (simp only: chunks_step [OF False less.prems]) simp
    also have "\<dots> = (length xs + c - 1) div c"
    proof (cases "c \<le> length xs")
      case True
      then have "length xs + c - 1 = (length xs - 1) + c" and "length (drop c xs) + c - 1 = length xs - 1"
        using less.prems by simp_all
      then show ?thesis
        using less.prems div_add_self2 [of c "length xs - 1"] by (simp only:)
    next
      case short: False
      moreover have "1 \<le> length xs" using False by (cases xs) simp_all
      ultimately have "(length xs + c - 1) div c = 1"
        using less.prems by (intro div_nat_eqI) simp_all
      then show ?thesis using short less.prems by simp
    qed
    finally show ?thesis .
  qed (use less.prems in simp)
qed

lemma take_chunks:
  "0 < c \<Longrightarrow> n * c \<le> length xs \<Longrightarrow> take n (chunks c xs) = chunks c (take (n * c) xs)"
proof (induction n arbitrary: xs)
  case (Suc n)
  show ?case
  proof (cases "xs = []")
    case False
    have "take (Suc n * c) xs \<noteq> []" using False Suc.prems by simp
    then have "chunks c (take (Suc n * c) xs) = take c xs # chunks c (take (n * c) (drop c xs))"
      using chunks_step [of "take (Suc n * c) xs" c] Suc.prems by (simp add: drop_take)
    moreover have "take n (chunks c (drop c xs)) = chunks c (take (n * c) (drop c xs))"
      using Suc.prems by (intro Suc.IH) simp_all
    ultimately show ?thesis
      using Suc.prems by (simp only: chunks_step [OF False Suc.prems(1)] take_Suc_Cons)
  qed simp
qed simp

lemma take_chain: "take n (chain H prev ts) = chain H prev (take n ts)"
  by (induction ts arbitrary: prev n) (simp_all add: take_Cons split: nat.split)

subsection \<open>Equal chains without a collision\<close>

lemma chain_inj:
  assumes "chain H prev ts = chain H prev us"
    and "inj_on (\<lambda>(k, t). H k t) (set (hashed H prev ts) \<union> set (hashed H prev us))"
  shows "ts = us"
  using assms
proof (induction ts arbitrary: prev us)
  case (Cons t ts)
  then obtain u us' where us: "us = u # us'" by (cases us) simp_all
  from Cons.prems have "H prev t = H prev u" by (simp add: us)
  then have tu: "t = u"
    using inj_onD [OF Cons.prems(2), of "(prev, t)" "(prev, u)"] by (simp add: us)
  have "inj_on (\<lambda>(k, t). H k t)
      (set (hashed H (H prev t) ts) \<union> set (hashed H (H prev t) us'))"
    using Cons.prems(2) by (rule inj_on_subset) (auto simp: us tu)
  with Cons.IH [of "H prev t" us'] Cons.prems(1) show ?case
    by (simp add: us tu)
next
  case Nil
  then show ?case by (cases us) simp_all
qed

lemma hashed_take: "set (hashed H prev (take n ts)) \<subseteq> set (hashed H prev ts)"
  by (induction ts arbitrary: prev n) (auto simp: take_Cons split: nat.split)

lemma chain_prefix_chunks:
  assumes "chain H key_seed (chunks c p) = take n (chain H key_seed (chunks c q))"
    and "inj_on (\<lambda>(k, t). H k t) (prompt_hashed H c p \<union> prompt_hashed H c q)"
  shows "chunks c p = take n (chunks c q)"
proof (rule chain_inj)
  show "chain H key_seed (chunks c p) = chain H key_seed (take n (chunks c q))"
    using assms(1) by (simp add: take_chain)
  show "inj_on (\<lambda>(k, t). H k t) (set (hashed H key_seed (chunks c p)) \<union>
      set (hashed H key_seed (take n (chunks c q))))"
    using assms(2) by (rule inj_on_subset)
      (use hashed_take in \<open>fastforce simp: prompt_hashed_def\<close>)
qed

lemma chain_prefix_inj:
  assumes "chain H key_seed (chunks c p) = take n (chain H key_seed (chunks c q))"
    and "inj_on (\<lambda>(k, t). H k t) (prompt_hashed H c p \<union> prompt_hashed H c q)"
  shows "take (length p) q = p"
proof -
  have "q = p @ concat (drop n (chunks c q))"
    using chain_prefix_chunks [OF assms]
    by (metis append_take_drop_id concat_append concat_chunks)
  then show ?thesis by (metis append_eq_conv_conj)
qed

text \<open>
  Over a set of prompts no two chunks hashed collide and none hashes to the seed: then a key alone,
  not only a chain, says which prompt it ends.
\<close>

definition collision_free :: "hasher \<Rightarrow> nat \<Rightarrow> token list set \<Rightarrow> bool" where
  "collision_free H c P \<longleftrightarrow>
     inj_on (\<lambda>(k, t). H k t) (\<Union>p \<in> P. prompt_hashed H c p)
     \<and> (\<forall>p \<in> P. \<forall>(k, t) \<in> prompt_hashed H c p. H k t \<noteq> key_seed)"

lemma hashed_snoc:
  "hashed H prev (ts @ [t]) = hashed H prev ts @ [(last (prev # chain H prev ts), t)]"
  by (induction ts arbitrary: prev) simp_all

lemma chain_last_inj:
  assumes "last (key_seed # chain H key_seed ts) = last (key_seed # chain H key_seed us)"
    and "set (hashed H key_seed ts) \<subseteq> S" and "set (hashed H key_seed us) \<subseteq> S"
    and "inj_on (\<lambda>(k, t). H k t) S" and "\<forall>(k, t) \<in> S. H k t \<noteq> key_seed"
  shows "ts = us"
  using assms(1-3)
proof (induction ts arbitrary: us rule: rev_induct)
  case Nil
  show ?case
  proof (cases us rule: rev_exhaust)
    case (snoc us' u)
    then show ?thesis using Nil assms(5) by (auto simp: chain_append hashed_snoc)
  qed simp
next
  case (snoc t ts)
  show ?case
  proof (cases us rule: rev_exhaust)
    case Nil
    then show ?thesis using snoc.prems assms(5) by (fastforce simp: chain_append hashed_snoc)
  next
    case us: (snoc us' u)
    let ?l = "\<lambda>ts. last (key_seed # chain H key_seed ts)"
    have "H (?l ts) t = H (?l us') u" using snoc.prems(1) by (simp add: us chain_append)
    moreover have "(?l ts, t) \<in> S" "(?l us', u) \<in> S"
      using snoc.prems(2,3) by (simp_all add: us hashed_snoc)
    ultimately have "?l ts = ?l us' \<and> t = u"
      using inj_onD [OF assms(4), of "(?l ts, t)" "(?l us', u)"] by simp
    then show ?thesis
      using snoc.IH [of us'] snoc.prems(2,3) by (simp add: us hashed_snoc)
  qed
qed

lemma terminal_inj:
  assumes "collision_free H c P" and "p \<in> P" and "q \<in> P"
    and "chain H key_seed (chunks c p) \<noteq> []" and "chain H key_seed (chunks c q) \<noteq> []"
    and "last (chain H key_seed (chunks c p)) = last (chain H key_seed (chunks c q))"
  shows "p = q"
proof -
  have "chunks c p = chunks c q"
    using assms
    by (intro chain_last_inj [of H _ _ "\<Union>p \<in> P. prompt_hashed H c p"])
       (auto simp: collision_free_def prompt_hashed_def)
  then show ?thesis by (metis concat_chunks)
qed

lemma collision_free_pair:
  "collision_free H c P \<Longrightarrow> p \<in> P \<Longrightarrow> q \<in> P \<Longrightarrow>
     inj_on (\<lambda>(k, t). H k t) (prompt_hashed H c p \<union> prompt_hashed H c q)"
  by (auto simp: collision_free_def intro: inj_on_subset)

lemma chain_prefix:
  assumes "0 < c" and "take (length p) q = p" and "c dvd length p \<or> length p = length q"
  shows "chain H key_seed (chunks c p) =
    take (length (chunks c p)) (chain H key_seed (chunks c q))"
proof (cases "length p = length q")
  case True
  then have "p = q" using assms(2) by simp
  then show ?thesis by simp
next
  case False
  then obtain n where n: "length p = n * c" using assms(3) by (metis dvd_def mult.commute)
  moreover have "length p \<le> length q" using assms(2) by (metis length_take min.cobounded1)
  ultimately have "take n (chunks c q) = chunks c p"
    using take_chunks [of c n q] assms(1,2) by simp
  moreover from this have "length (chunks c p) = min n (length (chunks c q))"
    by (metis length_take min.commute)
  ultimately show ?thesis by (metis take_chain take_take take_all_iff linorder_linear min_def)
qed

lemma chain_prefix_boundary:
  assumes "0 < c" and "chunks c p = take n (chunks c q)"
  shows "c dvd length p \<or> length p = length q"
proof (cases "n < length (chunks c q)")
  case True
  then have le: "n * c \<le> length q"
    using assms(1) less_eq_div_iff_mult_less_eq [of c "Suc n" "length q + c - 1"]
    by (simp add: length_chunks Suc_le_eq)
  have "p = concat (take n (chunks c q))" by (metis assms(2) concat_chunks)
  also have "\<dots> = take (n * c) q" using assms(1) le by (simp add: take_chunks)
  finally show ?thesis using le by simp
next
  case False
  then have "p = q" using assms(2) by (metis concat_chunks not_less take_all_iff)
  then show ?thesis by simp
qed

subsection \<open>Property\<close>



end
