(* ===== verification/Prefix_Cache.thy ===== *)
theory Prefix_Cache
  imports Prefix_Keys "HOL-Library.AList"
begin

section \<open>The prefix-cache index with LRU eviction\<close>

text \<open>
  \<^verbatim>\<open>PrefixCache\<close> of \<^verbatim>\<open>crates/server/src/prefix_cache.rs\<close>, with the
  \<^verbatim>\<open>hip\<close> feature on. The hash map from terminal keys to buckets of entries is an association
  list (its order is never observed), the deque of keys a list with the most recently used key in
  front. A snapshot is one byte vector per rank; logits are of any type \<open>'f\<close>, four bytes each.
  Byte counts are natural numbers, for which \<open>-\<close> is \<^verbatim>\<open>saturating_sub\<close>.
\<close>

subsection \<open>Data\<close>

type_synonym kv_snapshot = "bytes list"

record topology_tag =
  mesh_kind :: string
  tag_ranks :: "32 word"
  tag_pp_size :: "32 word"
  tag_tp_size :: "32 word"

record 'f cache_entry =
  e_topology :: topology_tag
  e_chunk_tokens :: nat
  e_chain :: "chunk_key list"
  e_n_tokens :: nat
  e_kv :: "kv_snapshot option"
  e_last_logits :: "'f list option"

record 'f prefix_cache =
  by_terminal :: "(chunk_key \<times> 'f cache_entry list) list"
  lru_order :: "chunk_key list"
  used_bytes :: nat
  vram_budget_bytes :: nat
  cache_enabled :: bool

record match_info =
  mi_n_chunks :: nat
  mi_n_tokens :: nat
  mi_terminal :: chunk_key

record prefix_cache_insert =
  pci_topology :: topology_tag
  pci_chunk_tokens :: nat
  pci_n_tokens :: nat
  pci_bytes :: nat

definition pc_new :: "nat \<Rightarrow> bool \<Rightarrow> 'f prefix_cache" where
  "pc_new budget en =
     \<lparr>by_terminal = [], lru_order = [], used_bytes = 0, vram_budget_bytes = budget, cache_enabled = en\<rparr>"

definition pc_len :: "'f prefix_cache \<Rightarrow> nat" where
  "pc_len c = sum_list (map (length \<circ> snd) (by_terminal c))"

definition pc_is_empty :: "'f prefix_cache \<Rightarrow> bool" where
  "pc_is_empty c \<longleftrightarrow> by_terminal c = []"

definition host_cache_floor_bytes :: nat where
  "host_cache_floor_bytes = 2 * 1024 * 1024 * 1024"

definition host_cache_reserve_bytes :: nat where
  "host_cache_reserve_bytes = 2 * 1024 * 1024 * 1024"

definition clamp_host_cache_budget :: "nat \<Rightarrow> nat \<Rightarrow> nat \<Rightarrow> nat" where
  "clamp_host_cache_budget requested mem_total weights =
     (let headroom = mem_total - weights - host_cache_reserve_bytes;
          ceiling = max headroom host_cache_floor_bytes in
      min requested ceiling)"

subsection \<open>Lookup\<close>

definition bucket :: "'f prefix_cache \<Rightarrow> chunk_key \<Rightarrow> 'f cache_entry list" where
  "bucket c k = (case map_of (by_terminal c) k of None \<Rightarrow> [] | Some es \<Rightarrow> es)"

definition entry_matches :: "prefix_keys \<Rightarrow> topology_tag \<Rightarrow> nat \<Rightarrow> 'f cache_entry \<Rightarrow> bool" where
  "entry_matches keys topo n e \<longleftrightarrow>
     \<not> (e_topology e \<noteq> topo \<or> e_chunk_tokens e \<noteq> keys_chunk_tokens keys \<or> length (e_chain e) \<noteq> n)
     \<and> e_chain e = take n (chunk_keys keys)"

text \<open>The loop from the longest prefix down to one chunk.\<close>

fun match_from :: "'f prefix_cache \<Rightarrow> prefix_keys \<Rightarrow> topology_tag \<Rightarrow> nat \<Rightarrow> match_info option" where
  "match_from c keys topo 0 = None"
| "match_from c keys topo (Suc n) =
     (let terminal = chunk_keys keys ! n in
      case map_of (by_terminal c) terminal of
        None \<Rightarrow> match_from c keys topo n
      | Some candidates \<Rightarrow>
          (case List.find (entry_matches keys topo (Suc n)) candidates of
             Some e \<Rightarrow> Some \<lparr>mi_n_chunks = Suc n, mi_n_tokens = e_n_tokens e, mi_terminal = terminal\<rparr>
           | None \<Rightarrow> match_from c keys topo n))"

definition longest_match :: "'f prefix_cache \<Rightarrow> prefix_keys \<Rightarrow> topology_tag \<Rightarrow> match_info option" where
  "longest_match c keys topo =
     (if chunk_keys keys = [] then None else match_from c keys topo (length (chunk_keys keys)))"

fun find_map :: "('a \<Rightarrow> 'b option) \<Rightarrow> 'a list \<Rightarrow> 'b option" where
  "find_map f [] = None"
| "find_map f (x # xs) = (case f x of Some y \<Rightarrow> Some y | None \<Rightarrow> find_map f xs)"

definition snapshot_for :: "'f prefix_cache \<Rightarrow> chunk_key \<Rightarrow> kv_snapshot option" where
  "snapshot_for c terminal =
     (case map_of (by_terminal c) terminal of None \<Rightarrow> None | Some es \<Rightarrow> find_map e_kv es)"

definition logits_for :: "'f prefix_cache \<Rightarrow> chunk_key \<Rightarrow> 'f list option" where
  "logits_for c terminal =
     (case map_of (by_terminal c) terminal of None \<Rightarrow> None | Some es \<Rightarrow> find_map e_last_logits es)"

subsection \<open>Insertion, touch and eviction\<close>

definition snapshot_bytes :: "kv_snapshot \<Rightarrow> nat" where
  "snapshot_bytes snap = sum_list (map length snap)"

definition logits_bytes :: "'f list \<Rightarrow> nat" where
  "logits_bytes lp = length lp * 4"

text \<open>\<^verbatim>\<open>by_terminal.entry(terminal).or_default().push(entry)\<close>.\<close>

definition pc_push :: "chunk_key \<Rightarrow> 'f cache_entry \<Rightarrow> 'f prefix_cache \<Rightarrow> 'f prefix_cache" where
  "pc_push k e c = c\<lparr>by_terminal := AList.update k (bucket c k @ [e]) (by_terminal c)\<rparr>"

definition insert_skeleton ::
    "chunk_key list \<Rightarrow> topology_tag \<Rightarrow> nat \<Rightarrow> nat \<Rightarrow> 'f prefix_cache \<Rightarrow> 'f prefix_cache" where
  "insert_skeleton ch topo ct nt c =
     (if ch = [] then c
      else pc_push (last ch) \<lparr>e_topology = topo, e_chunk_tokens = ct, e_chain = ch, e_n_tokens = nt,
             e_kv = None, e_last_logits = None\<rparr> c)"

definition pc_to_front :: "chunk_key \<Rightarrow> 'f prefix_cache \<Rightarrow> 'f prefix_cache" where
  "pc_to_front k c = c\<lparr>lru_order := k # filter (\<lambda>x. x \<noteq> k) (lru_order c)\<rparr>"

definition pc_touch :: "chunk_key \<Rightarrow> 'f prefix_cache \<Rightarrow> 'f prefix_cache" where
  "pc_touch k c = (if \<not> cache_enabled c then c else pc_to_front k c)"

text \<open>The bytes a stored entry gives back, in the order of the two tests.\<close>

definition release_entry :: "'f cache_entry \<Rightarrow> nat \<Rightarrow> nat" where
  "release_entry e used =
     (let used' = (case e_kv e of Some s \<Rightarrow> used - snapshot_bytes s | None \<Rightarrow> used) in
      case e_last_logits e of Some lp \<Rightarrow> used' - logits_bytes lp | None \<Rightarrow> used')"

definition drop_victim :: "chunk_key \<Rightarrow> 'f prefix_cache \<Rightarrow> 'f prefix_cache" where
  "drop_victim victim c =
     (case map_of (by_terminal c) victim of
        None \<Rightarrow> c
      | Some es \<Rightarrow> c\<lparr>by_terminal := AList.delete victim (by_terminal c),
                     used_bytes := fold release_entry es (used_bytes c)\<rparr>)"

text \<open>\<^verbatim>\<open>while used_bytes > budget\<close>, popping from the back of the deque.\<close>

function evict :: "'f prefix_cache \<Rightarrow> 'f prefix_cache" where
  "evict c =
     (if used_bytes c \<le> vram_budget_bytes c then c
      else if lru_order c = [] then c
      else evict (drop_victim (last (lru_order c)) (c\<lparr>lru_order := butlast (lru_order c)\<rparr>)))"
  by pat_completeness auto
termination
  by (relation "measure (length \<circ> lru_order)") (auto simp: drop_victim_def split: option.split)

declare evict.simps [simp del]

definition prior_bytes :: "'f cache_entry \<Rightarrow> nat" where
  "prior_bytes e =
     (case e_kv e of Some s \<Rightarrow> snapshot_bytes s | None \<Rightarrow> 0)
     + (case e_last_logits e of Some lp \<Rightarrow> logits_bytes lp | None \<Rightarrow> 0)"

definition same_entry :: "chunk_key list \<Rightarrow> prefix_cache_insert \<Rightarrow> 'f cache_entry \<Rightarrow> bool" where
  "same_entry ch meta e \<longleftrightarrow>
     e_topology e = pci_topology meta \<and> e_chunk_tokens e = pci_chunk_tokens meta \<and> e_chain e = ch"

text \<open>The bucket with the entry replaced or pushed, and the bytes the replaced entry held.\<close>

definition store_entry ::
    "chunk_key list \<Rightarrow> prefix_cache_insert \<Rightarrow> kv_snapshot \<Rightarrow> 'f list option
      \<Rightarrow> 'f cache_entry list \<Rightarrow> 'f cache_entry list \<times> nat" where
  "store_entry ch meta kv logits es =
     (case position (same_entry ch meta) es of
        Some i \<Rightarrow> (es[i := (es ! i)\<lparr>e_kv := Some kv, e_last_logits := logits\<rparr>], prior_bytes (es ! i))
      | None \<Rightarrow> (es @ [\<lparr>e_topology = pci_topology meta, e_chunk_tokens = pci_chunk_tokens meta,
                   e_chain = ch, e_n_tokens = pci_n_tokens meta, e_kv = Some kv,
                   e_last_logits = logits\<rparr>], 0))"

definition pc_store ::
    "chunk_key list \<Rightarrow> prefix_cache_insert \<Rightarrow> kv_snapshot \<Rightarrow> 'f list option
      \<Rightarrow> 'f prefix_cache \<Rightarrow> 'f prefix_cache" where
  "pc_store ch meta kv logits c =
     (let (es, replaced) = store_entry ch meta kv logits (bucket c (last ch)) in
      pc_to_front (last ch)
        (c\<lparr>by_terminal := AList.update (last ch) es (by_terminal c),
           used_bytes := used_bytes c - replaced + pci_bytes meta\<rparr>))"

definition insert_with_kv ::
    "chunk_key list \<Rightarrow> prefix_cache_insert \<Rightarrow> kv_snapshot \<Rightarrow> 'f list option
      \<Rightarrow> 'f prefix_cache \<Rightarrow> 'f prefix_cache" where
  "insert_with_kv ch meta kv logits c =
     (if ch = [] then c else evict (pc_store ch meta kv logits c))"

subsection \<open>Bytes held\<close>

definition bucket_bytes :: "'f prefix_cache \<Rightarrow> chunk_key \<Rightarrow> nat" where
  "bucket_bytes c k = sum_list (map prior_bytes (bucket c k))"

definition cache_bytes :: "'f prefix_cache \<Rightarrow> nat" where
  "cache_bytes c = sum_list (map (\<lambda>(k, es). sum_list (map prior_bytes es)) (by_terminal c))"

lemma release_entry_eq: "release_entry e = (\<lambda>u. u - prior_bytes e)"
  by (auto simp: release_entry_def prior_bytes_def fun_eq_iff Let_def split: option.splits)

lemma fold_release: "fold release_entry es u = u - sum_list (map prior_bytes es)"
  by (induction es arbitrary: u) (simp_all add: release_entry_eq diff_diff_left)

lemma sum_update:
  "sum_list (map (\<lambda>(k, v). f v) (AList.update k v al))
     + (case map_of al k of None \<Rightarrow> 0 | Some v' \<Rightarrow> f v') =
   sum_list (map (\<lambda>(k, v). f v) al) + (f v :: nat)"
  by (induction al) (auto simp: split_beta)

lemma sum_delete:
  "distinct (map fst al) \<Longrightarrow>
   sum_list (map (\<lambda>(k, v). f v) (AList.delete k al))
     + (case map_of al k of None \<Rightarrow> 0 | Some v' \<Rightarrow> (f v' :: nat)) =
   sum_list (map (\<lambda>(k, v). f v) al)"
  by (induction al) (auto simp: AList.delete_id)

lemma map_of_bucket: "map_of (by_terminal c) k = Some es \<Longrightarrow> bucket c k = es"
  by (simp add: bucket_def)

lemma bucket_case:
  "(case map_of (by_terminal c) k of None \<Rightarrow> 0 | Some v \<Rightarrow> sum_list (map prior_bytes v)) =
     bucket_bytes c k"
  by (simp add: bucket_bytes_def bucket_def split: option.split)

lemma bucket_update [simp]:
  "bucket (c\<lparr>by_terminal := AList.update k es (by_terminal c), used_bytes := u\<rparr>) k' =
     (if k' = k then es else bucket c k')"
  "bucket (c\<lparr>by_terminal := AList.update k es (by_terminal c)\<rparr>) k' =
     (if k' = k then es else bucket c k')"
  by (auto simp: bucket_def update_conv')

lemma bucket_simps [simp]:
  "bucket (c\<lparr>lru_order := l\<rparr>) = bucket c" "bucket (c\<lparr>used_bytes := u\<rparr>) = bucket c"
  "bucket (pc_to_front k c) = bucket c"
  by (auto simp: bucket_def fun_eq_iff pc_to_front_def)

lemma to_front_simps [simp]:
  "by_terminal (pc_to_front k c) = by_terminal c" "used_bytes (pc_to_front k c) = used_bytes c"
  "vram_budget_bytes (pc_to_front k c) = vram_budget_bytes c"
  "lru_order (pc_to_front k c) = k # filter (\<lambda>x. x \<noteq> k) (lru_order c)"
  by (simp_all add: pc_to_front_def)

lemma cache_bytes_simps [simp]:
  "cache_bytes (c\<lparr>lru_order := l\<rparr>) = cache_bytes c"
  "cache_bytes (pc_to_front k c) = cache_bytes c"
  by (simp_all add: cache_bytes_def)

lemma cache_bytes_update:
  "cache_bytes (c\<lparr>by_terminal := AList.update k es (by_terminal c), used_bytes := u\<rparr>) + bucket_bytes c k =
     cache_bytes c + sum_list (map prior_bytes es)"
  "cache_bytes (c\<lparr>by_terminal := AList.update k es (by_terminal c)\<rparr>) + bucket_bytes c k =
     cache_bytes c + sum_list (map prior_bytes es)"
  using sum_update [of "\<lambda>es. sum_list (map prior_bytes es)" k es "by_terminal c"]
  by (simp_all add: cache_bytes_def bucket_case)

subsection \<open>The invariant of the index\<close>

text \<open>
  Keys and the LRU list have no duplicates, a bucket's entries end in its key, and every key whose
  bucket holds bytes is in the LRU list, so that eviction can reach it.
\<close>

definition pc_inv :: "'f prefix_cache \<Rightarrow> bool" where
  "pc_inv c \<longleftrightarrow> distinct (map fst (by_terminal c)) \<and> distinct (lru_order c)
     \<and> (\<forall>k. \<forall>e \<in> set (bucket c k). e_chain e \<noteq> [] \<and> last (e_chain e) = k)
     \<and> (\<forall>k. \<forall>e \<in> set (bucket c k). (e_kv e \<noteq> None \<or> e_last_logits e \<noteq> None) \<longrightarrow> k \<in> set (lru_order c))"

lemma pc_new_inv [inv_intros]: "pc_inv (pc_new b en)"
  by (simp add: pc_inv_def pc_new_def bucket_def)

lemma to_front_inv: "pc_inv c \<Longrightarrow> pc_inv (pc_to_front k c)"
  by (auto simp: pc_inv_def)

lemma touch_inv [inv_intros]: "pc_inv c \<Longrightarrow> pc_inv (pc_touch k c)"
  by (simp add: pc_touch_def to_front_inv)

lemma push_inv:
  assumes "pc_inv c" and "e_chain e \<noteq> []" and "last (e_chain e) = k" and "e_kv e = None"
    and "e_last_logits e = None"
  shows "pc_inv (pc_push k e c)"
  using assms by (auto simp: pc_inv_def pc_push_def distinct_update split: if_splits)

lemma skeleton_inv [inv_intros]: "pc_inv c \<Longrightarrow> pc_inv (insert_skeleton ch topo ct nt c)"
  by (auto simp: insert_skeleton_def intro!: push_inv)

lemma store_entry_set:
  assumes "e \<in> set (fst (store_entry ch meta kv lg es))"
  shows "e \<in> set es \<or> e_chain e = ch"
proof (cases "position (same_entry ch meta) es")
  case (Some i)
  then have "i < length es" "same_entry ch meta (es ! i)" using position_Some by blast+
  with assms Some show ?thesis
    by (auto simp: store_entry_def same_entry_def dest!: set_update_subset_insert [THEN subsetD])
next
  case None
  with assms show ?thesis by (auto simp: store_entry_def simp del: position_None_iff)
qed

lemma store_inv:
  assumes "pc_inv c" and "ch \<noteq> []"
  shows "pc_inv (pc_store ch meta kv lg c)"
  using assms store_entry_set
  by (fastforce simp: pc_inv_def pc_store_def split_beta distinct_update split: if_splits)

lemma bucket_drop:
  "pc_inv c \<Longrightarrow> bucket (drop_victim v c) k = (if k = v then [] else bucket c k)"
  by (auto simp: drop_victim_def bucket_def delete_conv' split: option.splits)

lemma drop_victim_simps [simp]:
  "lru_order (drop_victim v c) = lru_order c"
  "vram_budget_bytes (drop_victim v c) = vram_budget_bytes c"
  by (simp_all add: drop_victim_def split: option.split)

lemma drop_keys_distinct:
  "distinct (map fst (by_terminal c)) \<Longrightarrow> distinct (map fst (by_terminal (drop_victim v c)))"
  by (simp add: drop_victim_def distinct_delete split: option.split)

text \<open>One round of the eviction loop.\<close>

abbreviation evict_step :: "'f prefix_cache \<Rightarrow> 'f prefix_cache" where
  "evict_step c \<equiv> drop_victim (last (lru_order c)) (c\<lparr>lru_order := butlast (lru_order c)\<rparr>)"

lemma bucket_evict_step:
  "bucket (evict_step c) k = (if k = last (lru_order c) then [] else bucket c k)"
  by (auto simp: drop_victim_def bucket_def delete_conv' split: option.splits)

lemma evict_step_inv:
  assumes "pc_inv c" and "lru_order c \<noteq> []"
  shows "pc_inv (evict_step c)"
proof -
  have "set (lru_order c) = insert (last (lru_order c)) (set (butlast (lru_order c)))"
    using assms(2) by (metis append_butlast_last_id insert_is_Un list.simps(15) set_append sup_commute
        empty_set)
  then have holder: "k \<noteq> last (lru_order c) \<Longrightarrow> k \<in> set (lru_order c) \<Longrightarrow> k \<in> set (butlast (lru_order c))"
    for k by blast
  with assms show ?thesis
    unfolding pc_inv_def bucket_evict_step
    by (intro conjI) (simp_all add: distinct_butlast drop_keys_distinct)
qed

lemma evict_inv [inv_intros]: "pc_inv c \<Longrightarrow> pc_inv (evict c)"
  by (induction c rule: evict.induct) (subst evict.simps, simp add: evict_step_inv)

lemma insert_inv [inv_intros]: "pc_inv c \<Longrightarrow> pc_inv (insert_with_kv ch meta kv lg c)"
  by (simp add: insert_with_kv_def store_inv evict_inv)

subsection \<open>Accounting\<close>

lemma no_holder_no_bytes: "pc_inv c \<Longrightarrow> k \<notin> set (lru_order c) \<Longrightarrow> bucket_bytes c k = 0"
  by (fastforce simp: bucket_bytes_def pc_inv_def prior_bytes_def split: option.splits)

lemma cache_bytes_keys:
  assumes "distinct (map fst (by_terminal c))"
  shows "cache_bytes c = (\<Sum>k \<in> fst ` set (by_terminal c). bucket_bytes c k)"
proof -
  have "cache_bytes c = sum_list (map (bucket_bytes c) (map fst (by_terminal c)))"
    unfolding cache_bytes_def map_map
    using assms by (intro arg_cong [where f = sum_list] map_cong)
      (auto simp: bucket_bytes_def bucket_def)
  also have "\<dots> = (\<Sum>k \<in> fst ` set (by_terminal c). bucket_bytes c k)"
    using sum_list_distinct_conv_sum_set [OF assms, of "bucket_bytes c"] by simp
  finally show ?thesis .
qed

lemma cache_bytes_lru:
  assumes "pc_inv c"
  shows "cache_bytes c = sum_list (map (bucket_bytes c) (lru_order c))"
proof -
  let ?K = "fst ` set (by_terminal c)" and ?L = "set (lru_order c)"
  have off: "bucket_bytes c k = 0" if "k \<notin> ?K" for k
  proof -
    have "map_of (by_terminal c) k = None" using that by (simp add: map_of_eq_None_iff)
    then show ?thesis by (simp add: bucket_bytes_def bucket_def)
  qed
  have "cache_bytes c = sum (bucket_bytes c) ?K"
    using assms by (simp add: cache_bytes_keys pc_inv_def)
  also have "\<dots> = sum (bucket_bytes c) (?K \<union> ?L)"
    using off by (intro sum.mono_neutral_left) auto
  also have "\<dots> = sum (bucket_bytes c) ?L"
    using no_holder_no_bytes [OF assms] by (intro sum.mono_neutral_right) auto
  also have "\<dots> = sum_list (map (bucket_bytes c) (lru_order c))"
    using assms by (simp add: sum_list_distinct_conv_sum_set pc_inv_def)
  finally show ?thesis .
qed

lemma drop_victim_bytes:
  assumes "distinct (map fst (by_terminal c))"
  shows "cache_bytes (drop_victim v c) + bucket_bytes c v = cache_bytes c"
    and "used_bytes (drop_victim v c) = used_bytes c - bucket_bytes c v"
  using sum_delete [OF assms, of "\<lambda>es. sum_list (map prior_bytes es)" v]
  by (auto simp: drop_victim_def cache_bytes_def bucket_bytes_def bucket_def fold_release
      split: option.splits)

lemma evict_step_bytes:
  assumes "pc_inv c"
  shows "cache_bytes (evict_step c) + bucket_bytes c (last (lru_order c)) = cache_bytes c"
    and "used_bytes (evict_step c) = used_bytes c - bucket_bytes c (last (lru_order c))"
  using drop_victim_bytes [of "c\<lparr>lru_order := butlast (lru_order c)\<rparr>" "last (lru_order c)"] assms
  by (simp_all add: pc_inv_def bucket_bytes_def)

lemma bucket_bytes_evict_step:
  "k \<noteq> last (lru_order c) \<Longrightarrow> bucket_bytes (evict_step c) k = bucket_bytes c k"
  by (simp add: bucket_bytes_def bucket_evict_step)

definition pc_exact :: "'f prefix_cache \<Rightarrow> bool" where
  "pc_exact c \<longleftrightarrow> used_bytes c = cache_bytes c"

lemma evict_step_exact: "pc_inv c \<Longrightarrow> pc_exact c \<Longrightarrow> pc_exact (evict_step c)"
  using evict_step_bytes [of c] by (simp add: pc_exact_def)

lemma store_entry_bytes:
  "sum_list (map prior_bytes (fst (store_entry ch meta kv lg es))) + snd (store_entry ch meta kv lg es) =
     sum_list (map prior_bytes es) + snapshot_bytes kv + (case lg of None \<Rightarrow> 0 | Some lp \<Rightarrow> logits_bytes lp)"
  "snd (store_entry ch meta kv lg es) \<le> sum_list (map prior_bytes es)"
proof -
  have upd: "sum_list (map f (es[i := e'])) + f (es ! i) = sum_list (map f es) + f e'"
    if "i < length es" for i e' and f :: "'a cache_entry \<Rightarrow> nat" and es
    using that by (induction es arbitrary: i) (auto split: nat.splits simp: nth_Cons)
  have mem: "f (es ! i) \<le> sum_list (map f es)" if "i < length es" for i and f :: "'a cache_entry \<Rightarrow> nat" and es
    using that by (intro member_le_sum_list) simp_all
  show "sum_list (map prior_bytes (fst (store_entry ch meta kv lg es))) + snd (store_entry ch meta kv lg es) =
     sum_list (map prior_bytes es) + snapshot_bytes kv + (case lg of None \<Rightarrow> 0 | Some lp \<Rightarrow> logits_bytes lp)"
  proof (cases "position (same_entry ch meta) es")
    case (Some i)
    then have "i < length es" using position_Some by blast
    then show ?thesis
      using upd [of i es prior_bytes "(es ! i)\<lparr>e_kv := Some kv, e_last_logits := lg\<rparr>"] Some
      by (simp add: store_entry_def prior_bytes_def)
  next
    case None
    then show ?thesis
      by (simp add: store_entry_def prior_bytes_def del: position_None_iff)
  qed
  show "snd (store_entry ch meta kv lg es) \<le> sum_list (map prior_bytes es)"
    using mem position_Some [of "same_entry ch meta" es]
    by (auto simp: store_entry_def simp del: position_None_iff split: option.split)
qed

text \<open>What the caller should pass, and what storing does to the two counts.\<close>

definition held_bytes :: "kv_snapshot \<Rightarrow> 'f list option \<Rightarrow> nat" where
  "held_bytes kv lg = snapshot_bytes kv + (case lg of None \<Rightarrow> 0 | Some lp \<Rightarrow> logits_bytes lp)"

lemma store_bytes:
  "cache_bytes (pc_store ch meta kv lg c) + snd (store_entry ch meta kv lg (bucket c (last ch))) =
     cache_bytes c + held_bytes kv lg"
  "used_bytes (pc_store ch meta kv lg c) =
     used_bytes c - snd (store_entry ch meta kv lg (bucket c (last ch))) + pci_bytes meta"
proof -
  let ?s = "store_entry ch meta kv lg (bucket c (last ch))"
  let ?c' = "c\<lparr>by_terminal := AList.update (last ch) (fst ?s) (by_terminal c),
    used_bytes := used_bytes c - snd ?s + pci_bytes meta\<rparr>"
  have "cache_bytes ?c' + bucket_bytes c (last ch) = cache_bytes c + sum_list (map prior_bytes (fst ?s))"
    by (rule cache_bytes_update)
  then show "cache_bytes (pc_store ch meta kv lg c) + snd ?s = cache_bytes c + held_bytes kv lg"
    using store_entry_bytes(1) [of ch meta kv lg "bucket c (last ch)"]
    by (simp add: pc_store_def split_beta held_bytes_def bucket_bytes_def)
  show "used_bytes (pc_store ch meta kv lg c) = used_bytes c - snd ?s + pci_bytes meta"
    by (simp add: pc_store_def split_beta)
qed

lemma store_exact:
  assumes "pc_exact c" and "pci_bytes meta = held_bytes kv lg" and "pc_inv c"
  shows "pc_exact (pc_store ch meta kv lg c)"
proof -
  have "bucket_bytes c (last ch) \<le> cache_bytes c"
    using drop_victim_bytes(1) [of c "last ch"] assms(3) by (simp add: pc_inv_def)
  then have "snd (store_entry ch meta kv lg (bucket c (last ch))) \<le> cache_bytes c"
    using store_entry_bytes(2) [of ch meta kv lg "bucket c (last ch)"]
    by (simp add: bucket_bytes_def)
  then show ?thesis
    using store_bytes [of ch meta kv lg c] assms(1,2) by (simp add: pc_exact_def)
qed

text \<open>
  Eviction drops the keys behind the longest recently used prefix that fits the budget, and
  nothing else.
\<close>

lemma evict_suffix:
  assumes "pc_inv c" and "pc_exact c"
  shows "\<exists>m \<le> length (lru_order c). lru_order (evict c) = take m (lru_order c)
    \<and> (\<forall>k. bucket (evict c) k = (if k \<in> set (drop m (lru_order c)) then [] else bucket c k))
    \<and> sum_list (map (bucket_bytes c) (take m (lru_order c))) \<le> vram_budget_bytes c
    \<and> (m < length (lru_order c) \<longrightarrow>
        vram_budget_bytes c < sum_list (map (bucket_bytes c) (take (Suc m) (lru_order c))))
    \<and> pc_exact (evict c)"
  using assms
proof (induction c rule: evict.induct)
  case (1 c)
  consider (fits) "used_bytes c \<le> vram_budget_bytes c"
    | (over) "\<not> used_bytes c \<le> vram_budget_bytes c" "lru_order c \<noteq> []"
    using cache_bytes_lru [OF "1.prems"(1)] "1.prems"(2) by (fastforce simp: pc_exact_def)
  then show ?case
  proof cases
    case fits
    then show ?thesis
      using cache_bytes_lru [OF "1.prems"(1)] "1.prems"(2)
      by (intro exI [of _ "length (lru_order c)"]) (simp add: evict.simps pc_exact_def)
  next
    case over
    let ?l = "lru_order c" and ?b = "butlast (lru_order c)"
    have l: "?l = ?b @ [last ?l]" using over by simp
    have nin: "last ?l \<notin> set ?b"
      using "1.prems"(1) l by (metis distinct_append list.set_intros(1) disjoint_iff pc_inv_def)
    have ev: "evict c = evict (evict_step c)" using over by (simp add: evict.simps [of c])
    obtain m where m: "m \<le> length ?b" "lru_order (evict c) = take m ?b"
      "\<forall>k. bucket (evict c) k = (if k \<in> set (drop m ?b) then [] else bucket (evict_step c) k)"
      "sum_list (map (bucket_bytes (evict_step c)) (take m ?b)) \<le> vram_budget_bytes c"
      "m < length ?b \<Longrightarrow> vram_budget_bytes c < sum_list (map (bucket_bytes (evict_step c)) (take (Suc m) ?b))"
      "pc_exact (evict c)"
      using "1.IH" [OF over evict_step_inv [OF "1.prems"(1) over(2)] evict_step_exact [OF "1.prems"]]
      by (auto simp: ev)
    have same: "map (bucket_bytes (evict_step c)) (take i ?b) = map (bucket_bytes c) (take i ?b)" for i
      using nin by (intro map_cong refl bucket_bytes_evict_step) (auto dest: in_set_takeD)
    have tk: "take i ?l = take i ?b" if "i \<le> length ?b" for i
      using that l by (metis append_Nil2 diff_is_0_eq' take_0 take_append)
    have dr: "drop m ?l = drop m ?b @ [last ?l]"
      using m(1) l by (metis diff_is_0_eq' drop_0 drop_append)
    have whole: "vram_budget_bytes c < sum_list (map (bucket_bytes c) ?l)"
      using over(1) cache_bytes_lru [OF "1.prems"(1)] "1.prems"(2) by (simp add: pc_exact_def)
    have "vram_budget_bytes c < sum_list (map (bucket_bytes c) (take (Suc m) ?l))"
    proof (cases "m < length ?b")
      case True
      then show ?thesis using m(5) same tk by simp
    next
      case False
      then have "take (Suc m) ?l = ?l" by simp
      then show ?thesis using whole by simp
    qed
    moreover have "bucket (evict c) k = (if k \<in> set (drop m ?l) then [] else bucket c k)" for k
      using m(3) by (simp add: dr bucket_evict_step)
    ultimately show ?thesis
      using m(1,2,4,6) same tk by (intro exI [of _ m]) simp
  qed
qed

subsection \<open>What a lookup finds\<close>

definition matches_at ::
    "'f prefix_cache \<Rightarrow> prefix_keys \<Rightarrow> topology_tag \<Rightarrow> nat \<Rightarrow> 'f cache_entry \<Rightarrow> bool" where
  "matches_at c keys topo n e \<longleftrightarrow>
     0 < n \<and> n \<le> length (chunk_keys keys) \<and> e \<in> set (bucket c (chunk_keys keys ! (n - 1)))
     \<and> entry_matches keys topo n e"

definition describes ::
    "'f prefix_cache \<Rightarrow> prefix_keys \<Rightarrow> topology_tag \<Rightarrow> match_info \<Rightarrow> bool" where
  "describes c keys topo mi \<longleftrightarrow>
     (\<exists>e. matches_at c keys topo (mi_n_chunks mi) e \<and> mi_n_tokens mi = e_n_tokens e
        \<and> mi_terminal mi = chunk_keys keys ! (mi_n_chunks mi - 1))"

lemma match_from_spec:
  assumes "n \<le> length (chunk_keys keys)"
  shows "case match_from c keys topo n of
      None \<Rightarrow> \<forall>m \<le> n. \<forall>e. \<not> matches_at c keys topo m e
    | Some mi \<Rightarrow> mi_n_chunks mi \<le> n \<and> describes c keys topo mi
        \<and> (\<forall>m \<le> n. mi_n_chunks mi < m \<longrightarrow> (\<forall>e. \<not> matches_at c keys topo m e))"
  using assms
proof (induction n)
  case 0
  then show ?case by (simp add: matches_at_def)
next
  case (Suc n)
  let ?es = "bucket c (chunk_keys keys ! n)"
  have IH: "case match_from c keys topo n of
      None \<Rightarrow> \<forall>m \<le> n. \<forall>e. \<not> matches_at c keys topo m e
    | Some mi \<Rightarrow> mi_n_chunks mi \<le> n \<and> describes c keys topo mi
        \<and> (\<forall>m \<le> n. mi_n_chunks mi < m \<longrightarrow> (\<forall>e. \<not> matches_at c keys topo m e))"
    using Suc by simp
  show ?case
  proof (cases "List.find (entry_matches keys topo (Suc n)) ?es")
    case (Some e)
    then have e: "e \<in> set ?es" "entry_matches keys topo (Suc n) e"
      by (auto simp: find_Some_iff)
    have "match_from c keys topo (Suc n) =
        Some \<lparr>mi_n_chunks = Suc n, mi_n_tokens = e_n_tokens e, mi_terminal = chunk_keys keys ! n\<rparr>"
      using Some e(1) by (auto simp: bucket_def split: option.splits)
    moreover have "matches_at c keys topo (Suc n) e"
      using e Suc.prems by (simp add: matches_at_def)
    ultimately show ?thesis by (auto simp: describes_def)
  next
    case None
    then have none: "\<not> matches_at c keys topo (Suc n) e" for e
      by (auto simp: matches_at_def find_None_iff)
    have "match_from c keys topo (Suc n) = match_from c keys topo n"
      using None by (auto simp: bucket_def Let_def split: option.splits)
    with IH none show ?thesis by (auto simp: le_Suc_eq split: option.splits)
  qed
qed

lemma longest_match_None: "longest_match c keys topo = None \<Longrightarrow> \<not> matches_at c keys topo n e"
  using match_from_spec [of "length (chunk_keys keys)" keys c topo]
  by (auto simp: longest_match_def matches_at_def split: if_splits)

lemma longest_match_Some:
  "longest_match c keys topo = Some mi \<Longrightarrow> describes c keys topo mi
     \<and> (\<forall>n e. matches_at c keys topo n e \<longrightarrow> n \<le> mi_n_chunks mi)"
  using match_from_spec [of "length (chunk_keys keys)" keys c topo]
  by (auto simp: longest_match_def matches_at_def split: if_splits)

lemma find_map_SomeD: "find_map f xs = Some y \<Longrightarrow> \<exists>x \<in> set xs. f x = Some y"
  by (induction xs) (auto split: option.splits)

subsection \<open>Insertion seen from outside\<close>

lemma stored_entry:
  assumes "ch \<noteq> []"
  shows "\<exists>e \<in> set (bucket (pc_store ch meta kv lg c) (last ch)). same_entry ch meta e
    \<and> e_kv e = Some kv \<and> e_last_logits e = lg"
proof (cases "position (same_entry ch meta) (bucket c (last ch))")
  case (Some i)
  then have i: "i < length (bucket c (last ch))" "same_entry ch meta (bucket c (last ch) ! i)"
    using position_Some by blast+
  let ?e = "(bucket c (last ch) ! i)\<lparr>e_kv := Some kv, e_last_logits := lg\<rparr>"
  have "bucket (pc_store ch meta kv lg c) (last ch) = (bucket c (last ch))[i := ?e]"
    using Some by (simp add: pc_store_def store_entry_def)
  moreover have "?e \<in> set ((bucket c (last ch))[i := ?e])" using i(1) by (rule set_update_memI)
  ultimately show ?thesis using i(2) by (intro bexI [of _ ?e]) (simp_all add: same_entry_def)
next
  case None
  then show ?thesis
    by (simp add: pc_store_def store_entry_def same_entry_def del: position_None_iff)
qed

lemma bucket_store_other: "k \<noteq> last ch \<Longrightarrow> bucket (pc_store ch meta kv lg c) k = bucket c k"
  by (simp add: pc_store_def split_beta)

lemma lru_store [simp]:
  "lru_order (pc_store ch meta kv lg c) = last ch # filter (\<lambda>x. x \<noteq> last ch) (lru_order c)"
  by (simp add: pc_store_def split_beta)

lemma budget_store [simp]: "vram_budget_bytes (pc_store ch meta kv lg c) = vram_budget_bytes c"
  by (simp add: pc_store_def split_beta)

lemma evict_budget [simp]: "vram_budget_bytes (evict c) = vram_budget_bytes c"
  by (induction c rule: evict.induct) (subst evict.simps, simp)

lemma evict_keeps_front:
  assumes "pc_inv c" and "pc_exact c" and "lru_order c = k # l"
    and "bucket_bytes c k \<le> vram_budget_bytes c"
  shows "bucket (evict c) k = bucket c k"
proof -
  obtain m where m: "lru_order (evict c) = take m (lru_order c)"
    "\<forall>k. bucket (evict c) k = (if k \<in> set (drop m (lru_order c)) then [] else bucket c k)"
    "m < length (lru_order c) \<Longrightarrow>
      vram_budget_bytes c < sum_list (map (bucket_bytes c) (take (Suc m) (lru_order c)))"
    using evict_suffix [OF assms(1,2)] by blast
  have "0 < m" using m(3) assms(3,4) by (cases m) auto
  then have "k \<notin> set (drop m (lru_order c))"
    using assms(1,3) by (cases m) (auto simp: pc_inv_def dest: in_set_dropD)
  then show ?thesis using m(2) by simp
qed

lemma evict_bounded:
  assumes "pc_inv c" and "pc_exact c"
  shows "cache_bytes (evict c) \<le> vram_budget_bytes c"
proof -
  obtain m where m: "lru_order (evict c) = take m (lru_order c)"
    "\<forall>k. bucket (evict c) k = (if k \<in> set (drop m (lru_order c)) then [] else bucket c k)"
    "sum_list (map (bucket_bytes c) (take m (lru_order c))) \<le> vram_budget_bytes c"
    using evict_suffix [OF assms] by blast
  have "distinct (lru_order c)" using assms(1) by (simp add: pc_inv_def)
  then have "set (take m (lru_order c)) \<inter> set (drop m (lru_order c)) = {}"
    by (metis append_take_drop_id distinct_append)
  then have "map (bucket_bytes (evict c)) (take m (lru_order c)) =
      map (bucket_bytes c) (take m (lru_order c))"
    using m(2) by (intro map_cong refl) (auto simp: bucket_bytes_def)
  then show ?thesis
    using cache_bytes_lru [OF evict_inv [OF assms(1)]] m(1,3) by (simp only:)
qed

lemma insert_then_lookup:
  assumes "pc_inv c" and "pc_exact c" and "pci_bytes meta = held_bytes kv lg" and "ch \<noteq> []"
    and "bucket_bytes c (last ch) + held_bytes kv lg \<le> vram_budget_bytes c"
    and "chunk_keys keys = ch @ ks" and "keys_chunk_tokens keys = pci_chunk_tokens meta"
  shows "\<exists>e. matches_at (insert_with_kv ch meta kv lg c) keys (pci_topology meta) (length ch) e
    \<and> e_kv e = Some kv \<and> e_last_logits e = lg"
proof -
  let ?c1 = "pc_store ch meta kv lg c"
  have "bucket_bytes ?c1 (last ch) \<le> vram_budget_bytes ?c1"
    using store_entry_bytes(1) [of ch meta kv lg "bucket c (last ch)"] assms(5)
    by (simp add: bucket_bytes_def pc_store_def split_beta held_bytes_def)
  then have "bucket (evict ?c1) (last ch) = bucket ?c1 (last ch)"
    using assms(1-4)
    by (intro evict_keeps_front [OF store_inv store_exact]) simp_all
  moreover obtain e where "e \<in> set (bucket ?c1 (last ch))" "same_entry ch meta e"
    "e_kv e = Some kv" "e_last_logits e = lg"
    using stored_entry [OF assms(4)] by blast
  moreover have "chunk_keys keys ! (length ch - 1) = last ch"
    using assms(4,6) by (simp add: nth_append last_conv_nth)
  ultimately show ?thesis
    using assms(4,6,7)
    by (intro exI [of _ e])
       (simp add: matches_at_def entry_matches_def same_entry_def insert_with_kv_def)
qed

subsection \<open>Runs of the index\<close>

datatype 'f pc_op =
    OpSkeleton "chunk_key list" topology_tag nat nat
  | OpTouch chunk_key
  | OpInsert "chunk_key list" prefix_cache_insert kv_snapshot "'f list option"

fun pc_step :: "'f pc_op \<Rightarrow> 'f prefix_cache \<Rightarrow> 'f prefix_cache" where
  "pc_step (OpSkeleton ch topo ct nt) c = insert_skeleton ch topo ct nt c"
| "pc_step (OpTouch k) c = pc_touch k c"
| "pc_step (OpInsert ch meta kv lg) c = insert_with_kv ch meta kv lg c"

fun exact_op :: "'f pc_op \<Rightarrow> bool" where
  "exact_op (OpInsert ch meta kv lg) \<longleftrightarrow> pci_bytes meta = held_bytes kv lg"
| "exact_op _ \<longleftrightarrow> True"

definition pc_run :: "'f pc_op list \<Rightarrow> 'f prefix_cache \<Rightarrow> 'f prefix_cache" where
  "pc_run ops c = fold pc_step ops c"

lemma step_inv [inv_intros]: "pc_inv c \<Longrightarrow> pc_inv (pc_step op c)"
  by (cases op) (auto intro: inv_intros)

lemma run_inv [inv_intros]: "pc_inv c \<Longrightarrow> pc_inv (pc_run ops c)"
  unfolding pc_run_def by (induction ops arbitrary: c) (auto intro: inv_intros)

lemma skeleton_bytes:
  "cache_bytes (insert_skeleton ch topo ct nt c) = cache_bytes c"
  "used_bytes (insert_skeleton ch topo ct nt c) = used_bytes c"
proof -
  let ?e = "\<lparr>e_topology = topo, e_chunk_tokens = ct, e_chain = ch, e_n_tokens = nt,
    e_kv = None, e_last_logits = None\<rparr>"
  show "cache_bytes (insert_skeleton ch topo ct nt c) = cache_bytes c"
    using cache_bytes_update(2) [where c = c and k = "last ch" and es = "bucket c (last ch) @ [?e]"]
    by (simp add: insert_skeleton_def pc_push_def prior_bytes_def bucket_bytes_def)
qed (simp add: insert_skeleton_def pc_push_def)

lemma touch_bytes:
  "cache_bytes (pc_touch k c) = cache_bytes c" "used_bytes (pc_touch k c) = used_bytes c"
  "vram_budget_bytes (pc_touch k c) = vram_budget_bytes c"
  by (simp_all add: pc_touch_def)

lemma step_budget [simp]: "vram_budget_bytes (pc_step op c) = vram_budget_bytes c"
  by (cases op) (simp_all add: touch_bytes insert_skeleton_def pc_push_def insert_with_kv_def)

lemma step_bounded:
  assumes "pc_inv c" and "pc_exact c" and "cache_bytes c \<le> vram_budget_bytes c" and "exact_op op"
  shows "pc_exact (pc_step op c) \<and> cache_bytes (pc_step op c) \<le> vram_budget_bytes c"
proof (cases op)
  case (OpInsert ch meta kv lg)
  show ?thesis
  proof (cases "ch = []")
    case False
    then have "pc_inv (pc_store ch meta kv lg c)" "pc_exact (pc_store ch meta kv lg c)"
      using assms OpInsert by (simp_all add: store_inv store_exact)
    then show ?thesis
      using evict_bounded evict_suffix OpInsert False
      by (fastforce simp: insert_with_kv_def)
  qed (use assms OpInsert in \<open>simp add: insert_with_kv_def\<close>)
qed (use assms in \<open>simp_all add: pc_exact_def skeleton_bytes touch_bytes\<close>)

lemma run_bounded:
  "pc_inv c \<Longrightarrow> pc_exact c \<Longrightarrow> cache_bytes c \<le> vram_budget_bytes c \<Longrightarrow> list_all exact_op ops \<Longrightarrow>
     pc_exact (pc_run ops c) \<and> cache_bytes (pc_run ops c) \<le> vram_budget_bytes c"
proof (induction ops arbitrary: c)
  case (Cons op ops)
  then show ?case
    using step_bounded [of c op] Cons.IH [of "pc_step op c"] step_inv [of c op]
    by (simp add: pc_run_def)
qed (simp add: pc_run_def)

lemma new_budget [simp]: "vram_budget_bytes (pc_new b en) = b"
  by (simp add: pc_new_def)

lemma new_exact: "pc_exact (pc_new b en)" "cache_bytes (pc_new b en) = 0"
  by (simp_all add: pc_exact_def pc_new_def cache_bytes_def)

subsection \<open>Callers that leave the logits out of the byte count\<close>

lemma bucket_bytes_le: "pc_inv c \<Longrightarrow> bucket_bytes c k \<le> cache_bytes c"
  using drop_victim_bytes(1) [of c k] by (simp add: pc_inv_def)

lemma evict_used:
  "pc_inv c \<Longrightarrow> used_bytes c \<le> cache_bytes c \<Longrightarrow>
     used_bytes (evict c) \<le> vram_budget_bytes c \<and> used_bytes (evict c) \<le> cache_bytes (evict c)"
proof (induction c rule: evict.induct)
  case (1 c)
  show ?case
  proof (cases "\<not> used_bytes c \<le> vram_budget_bytes c \<and> lru_order c \<noteq> []")
    case True
    then have "pc_inv (evict_step c)" "used_bytes (evict_step c) \<le> cache_bytes (evict_step c)"
      using "1.prems" evict_step_inv [of c] evict_step_bytes [of c] by auto
    then show ?thesis using "1.IH" True by (simp add: evict.simps [of c])
  next
    case False
    then show ?thesis
      using "1.prems" cache_bytes_lru [OF "1.prems"(1)] by (auto simp: evict.simps [of c])
  qed
qed

text \<open>
  While every bucket fits the budget no subtraction saturates, so what the counter misses is not
  recovered by evicting.
\<close>

lemma evict_drift:
  "pc_inv c \<Longrightarrow> \<forall>k. bucket_bytes c k \<le> vram_budget_bytes c \<Longrightarrow>
     cache_bytes (evict c) + used_bytes c = cache_bytes c + used_bytes (evict c)
     \<and> (\<forall>k. bucket (evict c) k = bucket c k \<or> bucket (evict c) k = [])"
proof (induction c rule: evict.induct)
  case (1 c)
  show ?case
  proof (cases "\<not> used_bytes c \<le> vram_budget_bytes c \<and> lru_order c \<noteq> []")
    case True
    let ?v = "last (lru_order c)"
    have v: "bucket_bytes c ?v \<le> used_bytes c" using True "1.prems"(2) by (meson le_trans linear)
    have "\<forall>k. bucket_bytes (evict_step c) k \<le> vram_budget_bytes (evict_step c)"
      using "1.prems"(2) by (simp add: bucket_bytes_def bucket_evict_step)
    then have "cache_bytes (evict (evict_step c)) + used_bytes (evict_step c) =
        cache_bytes (evict_step c) + used_bytes (evict (evict_step c))
      \<and> (\<forall>k. bucket (evict (evict_step c)) k = bucket (evict_step c) k
          \<or> bucket (evict (evict_step c)) k = [])"
      using True evict_step_inv [OF "1.prems"(1)] by (intro "1.IH") simp_all
    then have IH: "cache_bytes (evict c) + used_bytes (evict_step c) =
        cache_bytes (evict_step c) + used_bytes (evict c)"
      "bucket (evict c) k = bucket (evict_step c) k \<or> bucket (evict c) k = []" for k
      using True by (simp_all add: evict.simps [of c])
    have "bucket (evict c) k = bucket c k \<or> bucket (evict c) k = []" for k
      using IH(2) [of k] by (simp add: bucket_evict_step split: if_splits)
    then show ?thesis
      using IH(1) v evict_step_bytes [OF "1.prems"(1)] by simp
  qed (auto simp: evict.simps [of c])
qed

lemma insert_drift:
  assumes "pc_inv c" and "\<forall>k. bucket_bytes c k \<le> vram_budget_bytes c" and "ch \<noteq> []"
    and "bucket c (last ch) = []" and "held_bytes kv lg \<le> vram_budget_bytes c"
  shows "cache_bytes (insert_with_kv ch meta kv lg c) + used_bytes c + pci_bytes meta =
      cache_bytes c + held_bytes kv lg + used_bytes (insert_with_kv ch meta kv lg c)
    \<and> (\<forall>k. bucket_bytes (insert_with_kv ch meta kv lg c) k \<le> vram_budget_bytes c)
    \<and> (\<forall>k. k \<noteq> last ch \<longrightarrow> bucket c k = [] \<longrightarrow> bucket (insert_with_kv ch meta kv lg c) k = [])"
proof -
  let ?c1 = "pc_store ch meta kv lg c"
  have "snd (store_entry ch meta kv lg (bucket c (last ch))) = 0"
    using assms(4) by (simp add: store_entry_def)
  then have b: "cache_bytes ?c1 = cache_bytes c + held_bytes kv lg"
    "used_bytes ?c1 = used_bytes c + pci_bytes meta"
    using store_bytes [of ch meta kv lg c] by simp_all
  have "bucket_bytes ?c1 k = (if k = last ch then held_bytes kv lg else bucket_bytes c k)" for k
    using assms(4)
    by (simp add: bucket_bytes_def bucket_store_other)
       (simp add: pc_store_def store_entry_def prior_bytes_def held_bytes_def)
  then have fits: "\<forall>k. bucket_bytes ?c1 k \<le> vram_budget_bytes ?c1" using assms(2,5) by simp
  have e: "cache_bytes (evict ?c1) + used_bytes ?c1 = cache_bytes ?c1 + used_bytes (evict ?c1)"
    "\<forall>k. bucket (evict ?c1) k = bucket ?c1 k \<or> bucket (evict ?c1) k = []"
    using evict_drift [OF store_inv [OF assms(1,3)] fits] by simp_all
  have "bucket_bytes (evict ?c1) k \<le> vram_budget_bytes c" for k
    using e(2) [THEN spec, of k] fits [THEN spec, of k] by (auto simp: bucket_bytes_def)
  moreover have "bucket (evict ?c1) k = []" if "k \<noteq> last ch" "bucket c k = []" for k
    using e(2) [THEN spec, of k] that by (auto simp: bucket_store_other)
  ultimately show ?thesis
    using e(1) b assms(3) by (simp add: insert_with_kv_def)
qed

subsection \<open>Properties\<close>

text \<open>
  C8: The budget holds in every reachable state. After any sequence of skeleton insertions, touches
  and snapshot insertions whose callers pass the bytes of the snapshot and the logits,
  \<^verbatim>\<open>used_bytes\<close> is the number of bytes stored and never above the budget, the key lists
  have no duplicates and everything stored is within reach of eviction.
\<close>

theorem prefix_cache_bounded:
  assumes "list_all exact_op ops"
  shows "pc_inv (pc_run ops (pc_new budget en))
    \<and> used_bytes (pc_run ops (pc_new budget en)) = cache_bytes (pc_run ops (pc_new budget en))
    \<and> cache_bytes (pc_run ops (pc_new budget en)) \<le> budget"
  using run_bounded [of "pc_new budget en" ops] assms
  by (simp add: run_inv pc_new_inv new_exact) (simp add: pc_exact_def)

definition demo_topo :: topology_tag where
  "demo_topo = \<lparr>mesh_kind = ''tp'', tag_ranks = 2, tag_pp_size = 1, tag_tp_size = 2\<rparr>"

definition demo_op :: "chunk_key \<Rightarrow> nat pc_op" where
  "demo_op k = OpInsert [k] \<lparr>pci_topology = demo_topo, pci_chunk_tokens = 4, pci_n_tokens = 4,
     pci_bytes = 7\<rparr> [''abc''] (Some [0])"

theorem prefix_cache_bounded_witness:
  "cache_bytes (pc_run [demo_op 1, demo_op 2, demo_op 3] (pc_new 15 True)) \<le> 15"
proof -
  have "list_all exact_op [demo_op 1, demo_op 2, demo_op 3]"
    by (simp add: demo_op_def held_bytes_def snapshot_bytes_def logits_bytes_def)
  from prefix_cache_bounded [OF this, of 15 True] show ?thesis by blast
qed


lemma demo_reachable:
  "pc_inv (pc_run [demo_op 1, demo_op 2] (pc_new 15 True))"
  "pc_exact (pc_run [demo_op 1, demo_op 2] (pc_new 15 True))"
proof -
  have ex: "list_all exact_op [demo_op 1, demo_op 2]"
    by (simp add: demo_op_def held_bytes_def snapshot_bytes_def logits_bytes_def)
  show "pc_inv (pc_run [demo_op 1, demo_op 2] (pc_new 15 True))"
    by (intro inv_intros)
  show "pc_exact (pc_run [demo_op 1, demo_op 2] (pc_new 15 True))"
    using run_bounded [of "pc_new 15 True :: nat prefix_cache" "[demo_op 1, demo_op 2]"] ex
    by (simp add: inv_intros new_exact)
qed

abbreviation demo_meta :: "nat \<Rightarrow> prefix_cache_insert" where
  "demo_meta b \<equiv> \<lparr>pci_topology = demo_topo, pci_chunk_tokens = 4, pci_n_tokens = 4, pci_bytes = b\<rparr>"


text \<open>
  C10: Lookup is exact. A miss means that no stored entry has the topology, the chunk size and the
  chain of any prefix of the keys; a hit names the keys' longest such prefix, with the token count
  of an entry that covers it.
\<close>

theorem prefix_cache_longest_match:
  "case longest_match c keys topo of
     None \<Rightarrow> \<not> (\<exists>n e. matches_at c keys topo n e)
   | Some mi \<Rightarrow> describes c keys topo mi
       \<and> \<not> (\<exists>n e. matches_at c keys topo n e \<and> mi_n_chunks mi < n)"
proof (cases "longest_match c keys topo")
  case None
  then have "\<not> matches_at c keys topo n e" for n e by (rule longest_match_None)
  with None show ?thesis by simp
next
  case (Some mi)
  then show ?thesis using longest_match_Some by (fastforce simp: not_less)
qed

text \<open>
  What was inserted is found. In every reachable state with exact byte counts, inserting a
  snapshot that fits the budget together with its bucket makes a lookup of any keys that extend the
  chain, under the same topology and chunk size, hit at least that chain.
\<close>

theorem prefix_cache_insert_then_lookup:
  assumes "list_all exact_op ops" and "pci_bytes meta = held_bytes kv lg" and "ch \<noteq> []"
    and "c = pc_run ops (pc_new budget en)"
    and "bucket_bytes c (last ch) + held_bytes kv lg \<le> budget"
    and "chunk_keys keys = ch @ ks" and "keys_chunk_tokens keys = pci_chunk_tokens meta"
  shows "\<exists>mi. longest_match (insert_with_kv ch meta kv lg c) keys (pci_topology meta) = Some mi
    \<and> length ch \<le> mi_n_chunks mi"
proof -
  have "vram_budget_bytes c = budget"
    unfolding assms(4) pc_run_def
    by (induction ops rule: rev_induct) simp_all
  moreover have "pc_inv c" unfolding assms(4) by (intro inv_intros)
  moreover have "pc_exact c"
    using run_bounded [of "pc_new budget en" ops] assms(1)
    by (simp add: assms(4) pc_new_inv new_exact)
  ultimately obtain e where
    "matches_at (insert_with_kv ch meta kv lg c) keys (pci_topology meta) (length ch) e"
    using insert_then_lookup [of c meta kv lg ch keys ks] assms by auto
  then show ?thesis
    using longest_match_None longest_match_Some by (metis option.exhaust)
qed

theorem prefix_cache_insert_then_lookup_witness:
  "\<exists>mi. longest_match (insert_with_kv [5, 6] (demo_meta 3) [''abc''] None
       (pc_run [demo_op 1, demo_op 2] (pc_new 15 True)))
     \<lparr>chunk_keys = [5, 6, 7], keys_chunk_tokens = 4, prompt_tokens = 11\<rparr> demo_topo = Some mi
   \<and> 2 \<le> mi_n_chunks mi"
proof -
  have ex: "list_all exact_op [demo_op 1, demo_op 2]"
    by (simp add: demo_op_def held_bytes_def snapshot_bytes_def logits_bytes_def)
  have b: "bucket_bytes (pc_run [demo_op 1, demo_op 2] (pc_new 15 True)) (last [5, 6])
      + held_bytes [''abc''] None \<le> 15"
    by code_simp
  show ?thesis
    using prefix_cache_insert_then_lookup [OF ex, of "demo_meta 3" "[''abc'']" None "[5, 6]"
        "pc_run [demo_op 1, demo_op 2] (pc_new 15 True)" 15 True
        "\<lparr>chunk_keys = [5, 6, 7], keys_chunk_tokens = 4, prompt_tokens = 11\<rparr>" "[7]"] b
    by (simp add: held_bytes_def snapshot_bytes_def numeral_2_eq_2)
qed

text \<open>
  The clamp of the host budget never raises a request, keeps at least the smaller of the
  request and the floor, and above the floor leaves room for the weights and the reserve.
\<close>

theorem host_cache_budget_clamped:
  "clamp_host_cache_budget req mem weights \<le> req
   \<and> min req host_cache_floor_bytes \<le> clamp_host_cache_budget req mem weights
   \<and> (clamp_host_cache_budget req mem weights \<le> host_cache_floor_bytes
      \<or> clamp_host_cache_budget req mem weights + weights + host_cache_reserve_bytes \<le> mem)"
  by (auto simp: clamp_host_cache_budget_def Let_def min_def max_def)

end
