(* ===== verification/Prefix_Restore.thy ===== *)
theory Prefix_Restore
  imports Prefix_Cache
begin

section \<open>The server's use of the prefix cache\<close>

text \<open>
  \<^verbatim>\<open>prefix_cache_try_restore\<close>, \<^verbatim>\<open>prefix_cache_insert_intermediate\<close> and
  \<^verbatim>\<open>prefix_cache_try_capture_full\<close> of \<^verbatim>\<open>crates/server/src/routes.rs\<close>. A session
  is of any type \<open>'s\<close>; its device operations, which are not modelled, are the fields of
  \<open>session_ops\<close>: each takes the session and returns it with its result. Logging is left out.
\<close>

record 's session_ops =
  has_driver :: "'s \<Rightarrow> bool"
  snapshot_slot :: "'s \<Rightarrow> nat \<Rightarrow> kv_snapshot option \<times> 's"
  restore_slot :: "'s \<Rightarrow> nat \<Rightarrow> kv_snapshot \<Rightarrow> bool \<times> 's"
  reset_for_next_request :: "'s \<Rightarrow> bool \<times> 's"

record 'f server_cache =
  prefix_cache :: "'f prefix_cache"
  prefix_cache_chunk_tokens :: nat
  server_topology :: topology_tag

datatype 'f cache_restore = Miss | FullHit "'f list" | PrefixHit nat

text \<open>The two ways a restore does not return an outcome: the assertion in \<open>from_prompt\<close> and a
  failing reset.\<close>

datatype restore_error = ChunkPanic | ResetFailed

definition try_restore ::
    "hasher \<Rightarrow> 's session_ops \<Rightarrow> 'f server_cache \<Rightarrow> 's \<Rightarrow> token list
      \<Rightarrow> (restore_error + 'f cache_restore) \<times> 'f server_cache \<times> 's" where
  "try_restore H ops sv s prompt =
     (if \<not> cache_enabled (prefix_cache sv) \<or> prompt = [] then (Inr Miss, sv, s)
      else
        case from_prompt H prompt (prefix_cache_chunk_tokens sv) of
          None \<Rightarrow> (Inl ChunkPanic, sv, s)
        | Some keys \<Rightarrow>
            (case longest_match (prefix_cache sv) keys (server_topology sv) of
               None \<Rightarrow> (Inr Miss, sv, s)
             | Some m \<Rightarrow>
                 (let full = (mi_n_tokens m = length prompt);
                      logits = (if full then logits_for (prefix_cache sv) (mi_terminal m) else None) in
                  if (full \<and> logits = None) \<or> mi_n_tokens m > length prompt then (Inr Miss, sv, s)
                  else
                    case snapshot_for (prefix_cache sv) (mi_terminal m) of
                      None \<Rightarrow> (Inr Miss, sv, s)
                    | Some kv \<Rightarrow>
                        (if \<not> has_driver ops s then (Inr Miss, sv, s)
                         else
                           let (ok, s') = restore_slot ops s (mi_n_tokens m) kv in
                           if \<not> ok then
                             (let (rok, s'') = reset_for_next_request ops s' in
                              if rok then (Inr Miss, sv, s'') else (Inl ResetFailed, sv, s''))
                           else
                             (Inr (case logits of Some l \<Rightarrow> FullHit l
                                   | None \<Rightarrow> PrefixHit (mi_n_tokens m)),
                              sv\<lparr>prefix_cache := pc_touch (mi_terminal m) (prefix_cache sv)\<rparr>, s')))))"

text \<open>
  The common end of the two insertions: the snapshot, the byte count over its ranks, the keys of
  the tokens covered, the insertion. \<open>None\<close> is the assertion in \<open>from_prompt\<close>.
\<close>

definition capture ::
    "hasher \<Rightarrow> 's session_ops \<Rightarrow> 'f server_cache \<Rightarrow> 's \<Rightarrow> token list \<Rightarrow> 'f list option
      \<Rightarrow> ('f server_cache \<times> 's) option" where
  "capture H ops sv s covered lg =
     (if \<not> has_driver ops s then Some (sv, s)
      else
        let (snap, s') = snapshot_slot ops s (length covered) in
        case snap of
          None \<Rightarrow> Some (sv, s')
        | Some snaps \<Rightarrow>
            (let bytes = sum_list (map length snaps) in
             case from_prompt H covered (prefix_cache_chunk_tokens sv) of
               None \<Rightarrow> None
             | Some keys \<Rightarrow>
                 Some (sv\<lparr>prefix_cache := insert_with_kv (chunk_keys keys)
                        \<lparr>pci_topology = server_topology sv,
                         pci_chunk_tokens = prefix_cache_chunk_tokens sv,
                         pci_n_tokens = length covered, pci_bytes = bytes\<rparr> snaps lg
                        (prefix_cache sv)\<rparr>, s')))"

text \<open>Rust's \<^verbatim>\<open>n % 0\<close> panics, which here is the panic of the zero chunk size too.\<close>

definition insert_intermediate ::
    "hasher \<Rightarrow> 's session_ops \<Rightarrow> 'f server_cache \<Rightarrow> 's \<Rightarrow> token list \<Rightarrow> nat
      \<Rightarrow> ('f server_cache \<times> 's) option" where
  "insert_intermediate H ops sv s prompt n =
     (if \<not> cache_enabled (prefix_cache sv) \<or> n = 0 then Some (sv, s)
      else if prefix_cache_chunk_tokens sv = 0 then None
      else if n mod prefix_cache_chunk_tokens sv \<noteq> 0 \<or> n \<ge> length prompt then Some (sv, s)
      else capture H ops sv s (slice_of prompt 0 n) None)"

definition min_capture_tokens :: nat where
  "min_capture_tokens = 50"

definition capture_full ::
    "hasher \<Rightarrow> 's session_ops \<Rightarrow> 'f server_cache \<Rightarrow> 's \<Rightarrow> token list \<Rightarrow> 'f list
      \<Rightarrow> ('f server_cache \<times> 's) option" where
  "capture_full H ops sv s prompt last_logits =
     (if \<not> cache_enabled (prefix_cache sv) \<or> length prompt < min_capture_tokens then Some (sv, s)
      else capture H ops sv s prompt (Some last_logits))"

subsection \<open>Runs of the server and what they captured\<close>

text \<open>
  A run is any interleaving of the three operations over any sessions and prompts. The second
  argument lists what was captured: the tokens covered, the snapshot, the logits.
\<close>

type_synonym 'f captured = "token list \<times> kv_snapshot option \<times> 'f list option"

inductive srv_reach ::
    "hasher \<Rightarrow> 's session_ops \<Rightarrow> 'f server_cache \<Rightarrow> 'f captured list \<Rightarrow> bool"
  for H :: hasher and ops :: "'s session_ops" where
  reach_start: "srv_reach H ops
     \<lparr>prefix_cache = pc_new budget en, prefix_cache_chunk_tokens = c, server_topology = topo\<rparr> []"
| reach_full: "srv_reach H ops sv h \<Longrightarrow> capture_full H ops sv s prompt l = Some (sv', s') \<Longrightarrow>
     srv_reach H ops sv' ((prompt, fst (snapshot_slot ops s (length prompt)), Some l) # h)"
| reach_boundary: "srv_reach H ops sv h \<Longrightarrow> insert_intermediate H ops sv s prompt n = Some (sv', s') \<Longrightarrow>
     srv_reach H ops sv'
       ((take n prompt, fst (snapshot_slot ops s (length (take n prompt))), None) # h)"
| reach_restore: "srv_reach H ops sv h \<Longrightarrow> try_restore H ops sv s prompt = (r, sv', s') \<Longrightarrow>
     srv_reach H ops sv' h"

text \<open>Every stored entry is a capture, and no bucket has two entries with the same chain.\<close>

definition entry_of ::
    "hasher \<Rightarrow> nat \<Rightarrow> topology_tag \<Rightarrow> 'f captured list \<Rightarrow> 'f cache_entry \<Rightarrow> bool" where
  "entry_of H c topo h e \<longleftrightarrow> e_topology e = topo \<and> e_chunk_tokens e = c
     \<and> (\<exists>p kv lg. (p, Some kv, lg) \<in> set h \<and> e_chain e = chain H key_seed (chunks c p)
          \<and> e_n_tokens e = length p \<and> e_kv e = Some kv \<and> e_last_logits e = lg)"

definition recorded :: "hasher \<Rightarrow> 'f server_cache \<Rightarrow> 'f captured list \<Rightarrow> bool" where
  "recorded H sv h \<longleftrightarrow> pc_inv (prefix_cache sv)
     \<and> (\<forall>k. \<forall>e \<in> set (bucket (prefix_cache sv) k).
          entry_of H (prefix_cache_chunk_tokens sv) (server_topology sv) h e)
     \<and> (\<forall>k. distinct (map e_chain (bucket (prefix_cache sv) k)))"

lemma entry_of_mono: "entry_of H c topo h e \<Longrightarrow> entry_of H c topo (x # h) e"
  by (fastforce simp: entry_of_def)

lemma recorded_mono: "recorded H sv h \<Longrightarrow> recorded H sv (x # h)"
  by (auto simp: recorded_def entry_of_mono)

lemma bucket_evict_shrinks: "set (bucket (evict c) k) \<subseteq> set (bucket c k)
    \<and> (distinct (map e_chain (bucket c k)) \<longrightarrow> distinct (map e_chain (bucket (evict c) k)))"
proof (induction c rule: evict.induct)
  case (1 c)
  show ?case
  proof (cases "\<not> used_bytes c \<le> vram_budget_bytes c \<and> lru_order c \<noteq> []")
    case True
    then have "set (bucket (evict (evict_step c)) k) \<subseteq> set (bucket (evict_step c) k)
      \<and> (distinct (map e_chain (bucket (evict_step c) k)) \<longrightarrow>
          distinct (map e_chain (bucket (evict (evict_step c)) k)))"
      using "1.IH" by blast
    then show ?thesis
      using True by (auto simp: evict.simps [of c] bucket_evict_step split: if_splits)
  qed (auto simp: evict.simps [of c])
qed

lemma entry_of_prompt:
  assumes "entry_of H c topo h e" and "collision_free H c P" and "fst ` set h \<subseteq> P" and "p \<in> P"
    and "e_chain e = chain H key_seed (chunks c p)"
  shows "e_n_tokens e = length p"
proof -
  obtain p' where p': "p' \<in> P" "e_chain e = chain H key_seed (chunks c p')" "e_n_tokens e = length p'"
    using assms(1,3) by (force simp: entry_of_def)
  have "chunks c p' = chunks c p"
  proof (rule chain_inj)
    show "chain H key_seed (chunks c p') = chain H key_seed (chunks c p)"
      using p'(2) assms(5) by (rule subst)
    show "inj_on (\<lambda>(k, t). H k t)
        (set (hashed H key_seed (chunks c p')) \<union> set (hashed H key_seed (chunks c p)))"
      using collision_free_pair [OF assms(2) p'(1) assms(4)] by (simp only: prompt_hashed_def)
  qed
  then have "p' = p" by (metis concat_chunks)
  then show ?thesis using p'(3) by simp
qed

lemma store_entry_of:
  assumes "\<forall>e \<in> set es. entry_of H c topo h e" and "collision_free H c P"
    and "fst ` set h \<subseteq> P" and "p \<in> P" and "ch = chain H key_seed (chunks c p)"
    and "meta = \<lparr>pci_topology = topo, pci_chunk_tokens = c, pci_n_tokens = length p, pci_bytes = b\<rparr>"
  shows "\<forall>e \<in> set (fst (store_entry ch meta kv lg es)). entry_of H c topo ((p, Some kv, lg) # h) e"
    and "distinct (map e_chain es) \<Longrightarrow> distinct (map e_chain (fst (store_entry ch meta kv lg es)))"
proof -
  show "\<forall>e \<in> set (fst (store_entry ch meta kv lg es)). entry_of H c topo ((p, Some kv, lg) # h) e"
  proof (cases "position (same_entry ch meta) es")
    case (Some i)
    then have i: "i < length es" "same_entry ch meta (es ! i)" using position_Some by blast+
    have "entry_of H c topo h (es ! i)" using assms(1) i(1) by simp
    then have "e_n_tokens (es ! i) = length p"
      using entry_of_prompt [OF _ assms(2-4)] i(2) assms(5) by (simp add: same_entry_def)
    then have "entry_of H c topo ((p, Some kv, lg) # h) ((es ! i)\<lparr>e_kv := Some kv, e_last_logits := lg\<rparr>)"
      using i(2) by (auto simp: entry_of_def same_entry_def assms(5,6))
    with Some show ?thesis
      using assms(1)
      by (auto simp: store_entry_def intro: entry_of_mono
          dest!: set_update_subset_insert [THEN subsetD])
  next
    case None
    let ?e = "\<lparr>e_topology = pci_topology meta, e_chunk_tokens = pci_chunk_tokens meta,
      e_chain = ch, e_n_tokens = pci_n_tokens meta, e_kv = Some kv, e_last_logits = lg\<rparr>"
    have "entry_of H c topo ((p, Some kv, lg) # h) ?e"
      unfolding entry_of_def assms(5,6) by (intro conjI exI [of _ p] exI [of _ kv] exI [of _ lg]) simp_all
    then show ?thesis
      using assms(1) None
      by (auto simp: store_entry_def intro: entry_of_mono simp del: position_None_iff)
  qed
  assume d: "distinct (map e_chain es)"
  show "distinct (map e_chain (fst (store_entry ch meta kv lg es)))"
  proof (cases "position (same_entry ch meta) es")
    case (Some i)
    then have "i < length es" using position_Some by blast
    then have "map e_chain (fst (store_entry ch meta kv lg es)) = map e_chain es"
      using Some by (simp add: store_entry_def map_update list_update_same_conv)
    with d show ?thesis by simp
  next
    case None
    then have "\<forall>e \<in> set es. e_chain e \<noteq> ch"
      using assms(1,6) by (auto simp: same_entry_def entry_of_def)
    then show ?thesis
      using d None by (auto simp: store_entry_def simp del: position_None_iff)
  qed
qed

lemma capture_recorded:
  assumes "recorded H sv h" and "capture H ops sv s p lg = Some (sv', s')" and "p \<noteq> []"
    and "collision_free H (prefix_cache_chunk_tokens sv) (insert p (fst ` set h))"
  shows "recorded H sv' ((p, fst (snapshot_slot ops s (length p)), lg) # h)"
proof (cases "has_driver ops s \<and> fst (snapshot_slot ops s (length p)) \<noteq> None")
  case False
  then have "sv' = sv" using assms(2) by (auto simp: capture_def split_beta split: if_splits)
  then show ?thesis using recorded_mono [OF assms(1)] by simp
next
  case True
  then obtain kv where kv: "fst (snapshot_slot ops s (length p)) = Some kv" by blast
  let ?c = "prefix_cache_chunk_tokens sv" and ?pc = "prefix_cache sv"
  let ?ch = "chain H key_seed (chunks ?c p)"
  let ?meta = "\<lparr>pci_topology = server_topology sv, pci_chunk_tokens = ?c,
    pci_n_tokens = length p, pci_bytes = sum_list (map length kv)\<rparr>"
  have c: "0 < ?c"
    using assms(2) True kv by (cases "?c = 0") (auto simp: capture_def split_beta from_prompt_def)
  have sv': "sv' = sv\<lparr>prefix_cache := insert_with_kv ?ch ?meta kv lg ?pc\<rparr>"
    using assms(2) True kv c by (auto simp: capture_def split_beta from_prompt_chain)
  have ch: "?ch \<noteq> []" using assms(3) c by (cases p) simp_all
  have old: "pc_inv ?pc" "\<forall>e \<in> set (bucket ?pc k). entry_of H ?c (server_topology sv) h e"
    "distinct (map e_chain (bucket ?pc k))" for k
    using assms(1) by (simp_all add: recorded_def)
  let ?h = "(p, Some kv, lg) # h"
  let ?c1 = "pc_store ?ch ?meta kv lg ?pc"
  have stored: "(\<forall>e \<in> set (bucket ?c1 k). entry_of H ?c (server_topology sv) ?h e)
      \<and> distinct (map e_chain (bucket ?c1 k))" for k
  proof (cases "k = last ?ch")
    case True
    have "bucket ?c1 k = fst (store_entry ?ch ?meta kv lg (bucket ?pc k))"
      using True by (simp add: pc_store_def split_beta)
    then show ?thesis
      using store_entry_of [OF old(2) [of k] assms(4) subset_insertI insertI1 refl refl,
          of "sum_list (map length kv)" kv lg] old(3) [of k]
      by simp
  next
    case False
    then show ?thesis using old(2,3) [of k] by (simp add: bucket_store_other entry_of_mono)
  qed
  have "pc_inv (prefix_cache sv')" using old(1) by (simp add: sv' insert_inv)
  then show ?thesis
    using stored bucket_evict_shrinks [of ?c1] ch
    by (fastforce simp: recorded_def sv' kv insert_with_kv_def)
qed

lemma reach_recorded:
  "srv_reach H ops sv h \<Longrightarrow> collision_free H (prefix_cache_chunk_tokens sv) P \<Longrightarrow> fst ` set h \<subseteq> P \<Longrightarrow>
     recorded H sv h"
proof (induction arbitrary: P rule: srv_reach.induct)
  case (reach_start budget en c topo)
  then show ?case by (simp add: recorded_def pc_new_inv) (simp add: pc_new_def bucket_def)
next
  case (reach_full sv h s prompt l sv' s')
  have c: "prefix_cache_chunk_tokens sv' = prefix_cache_chunk_tokens sv"
    using reach_full.hyps(2) by (auto simp: capture_full_def capture_def split_beta
        split: if_splits option.splits)
  have rec: "recorded H sv h" using reach_full.IH [of P] reach_full.prems c by simp
  have cf: "collision_free H (prefix_cache_chunk_tokens sv) (insert prompt (fst ` set h))"
    using reach_full.prems c by (auto simp: collision_free_def elim!: inj_on_subset)
  show ?case
  proof (cases "cache_enabled (prefix_cache sv) \<and> min_capture_tokens \<le> length prompt")
    case True
    then have "capture H ops sv s prompt (Some l) = Some (sv', s')" "prompt \<noteq> []"
      using reach_full.hyps(2) by (auto simp: capture_full_def min_capture_tokens_def)
    then show ?thesis using capture_recorded [OF rec _ _ cf] by simp
  next
    case False
    then have "sv' = sv" using reach_full.hyps(2) by (auto simp: capture_full_def split: if_splits)
    then show ?thesis using recorded_mono [OF rec] by simp
  qed
next
  case (reach_boundary sv h s prompt n sv' s')
  have c: "prefix_cache_chunk_tokens sv' = prefix_cache_chunk_tokens sv"
    using reach_boundary.hyps(2) by (auto simp: insert_intermediate_def capture_def split_beta
        split: if_splits option.splits)
  have rec: "recorded H sv h" using reach_boundary.IH [of P] reach_boundary.prems c by simp
  have cf: "collision_free H (prefix_cache_chunk_tokens sv) (insert (take n prompt) (fst ` set h))"
    using reach_boundary.prems c by (auto simp: collision_free_def elim!: inj_on_subset)
  show ?case
  proof (cases "sv' = sv")
    case True
    then show ?thesis using recorded_mono [OF rec] by simp
  next
    case False
    then have "capture H ops sv s (take n prompt) None = Some (sv', s')" "take n prompt \<noteq> []"
      using reach_boundary.hyps(2)
      by (auto simp: insert_intermediate_def slice_of_def split: if_splits)
    then show ?thesis using capture_recorded [OF rec _ _ cf] by simp
  qed
next
  case (reach_restore sv h s prompt r sv' s')
  have "sv' = sv \<or> (\<exists>k. sv' = sv\<lparr>prefix_cache := pc_touch k (prefix_cache sv)\<rparr>)"
    using reach_restore.hyps(2)
    by (auto simp: try_restore_def Let_def split_beta split: if_splits option.splits)
  then show ?case
  proof
    assume "\<exists>k. sv' = sv\<lparr>prefix_cache := pc_touch k (prefix_cache sv)\<rparr>"
    then obtain k where sv': "sv' = sv\<lparr>prefix_cache := pc_touch k (prefix_cache sv)\<rparr>" by blast
    have "bucket (pc_touch k (prefix_cache sv)) = bucket (prefix_cache sv)"
      by (simp add: pc_touch_def)
    then show ?thesis
      using reach_restore.IH [of P] reach_restore.prems by (simp add: recorded_def sv' touch_inv)
  qed (use reach_restore in simp)
qed

text \<open>What a hit restores, in a recorded state whose captures and prompt have no collision.\<close>

lemma hit_entry:
  assumes "recorded H sv h" and "collision_free H (prefix_cache_chunk_tokens sv) P"
    and "fst ` set h \<subseteq> P" and "q \<in> P" and "0 < prefix_cache_chunk_tokens sv"
    and "longest_match (prefix_cache sv)
      \<lparr>chunk_keys = chain H key_seed (chunks (prefix_cache_chunk_tokens sv) q),
       keys_chunk_tokens = prefix_cache_chunk_tokens sv, prompt_tokens = length q\<rparr> topo = Some m"
  shows "\<exists>p kv lg. (p, Some kv, lg) \<in> set h \<and> p \<noteq> [] \<and> take (length p) q = p
    \<and> mi_n_tokens m = length p
    \<and> snapshot_for (prefix_cache sv) (mi_terminal m) = Some kv
    \<and> logits_for (prefix_cache sv) (mi_terminal m) = lg"
proof -
  let ?c = "prefix_cache_chunk_tokens sv" and ?pc = "prefix_cache sv"
  let ?n = "mi_n_chunks m" and ?k = "mi_terminal m"
  let ?Q = "chain H key_seed (chunks ?c q)"
  obtain e where e: "0 < ?n" "?n \<le> length ?Q" "e \<in> set (bucket ?pc (?Q ! (?n - 1)))"
    "e_chain e = take ?n ?Q" "mi_n_tokens m = e_n_tokens e" "?k = ?Q ! (?n - 1)"
    using longest_match_Some [OF assms(6)]
    by (auto simp: describes_def matches_at_def entry_matches_def)
  have mem: "e \<in> set (bucket ?pc ?k)" using e(3,6) by simp
  have ent: "entry_of H ?c (server_topology sv) h x" if "x \<in> set (bucket ?pc ?k)" for x
    using assms(1) that by (simp add: recorded_def)
  obtain p kv lg where p: "(p, Some kv, lg) \<in> set h" "e_chain e = chain H key_seed (chunks ?c p)"
    "e_n_tokens e = length p" "e_kv e = Some kv" "e_last_logits e = lg"
    using ent [OF mem] by (auto simp: entry_of_def)
  have pP: "p \<in> P" using p(1) assms(3) by force
  have pre: "take (length p) q = p"
    using chain_prefix_inj [of H ?c p ?n q] collision_free_pair [OF assms(2) pP assms(4)] p(2) e(4)
    by simp
  have ne: "p \<noteq> []" using assms(1) mem p(2) by (auto simp: recorded_def pc_inv_def)
  have same: "x = e" if x: "x \<in> set (bucket ?pc ?k)" for x
  proof -
    obtain p' where p': "p' \<in> P" "e_chain x = chain H key_seed (chunks ?c p')"
      using ent [OF x] assms(3) by (force simp: entry_of_def)
    have "e_chain x \<noteq> [] \<and> last (e_chain x) = ?k" "e_chain e \<noteq> [] \<and> last (e_chain e) = ?k"
      using assms(1) x mem by (auto simp: recorded_def pc_inv_def)
    then have "p' = p"
      using terminal_inj [OF assms(2) p'(1) pP] p'(2) p(2) by simp
    then have "e_chain x = e_chain e" using p'(2) p(2) by simp
    moreover have "distinct (map e_chain (bucket ?pc ?k))" using assms(1) by (simp add: recorded_def)
    ultimately show ?thesis using x mem by (auto simp: distinct_map dest: inj_onD)
  qed
  have "bucket ?pc ?k = [e]"
  proof -
    have only: "set (bucket ?pc ?k) = {e}" using same mem by blast
    moreover have "distinct (bucket ?pc ?k)"
      using assms(1) by (simp add: recorded_def distinct_map)
    ultimately have "length (bucket ?pc ?k) = 1" using distinct_card [of "bucket ?pc ?k"] by simp
    then show ?thesis using only by (auto simp: length_Suc_conv)
  qed
  then have "map_of (by_terminal ?pc) ?k = Some [e]" by (auto simp: bucket_def split: option.splits)
  then have "snapshot_for ?pc ?k = Some kv" "logits_for ?pc ?k = lg"
    using p(4,5) by (simp_all add: snapshot_for_def logits_for_def split: option.split)
  then show ?thesis using p(1,3) ne pre e(5) by auto
qed

lemma restore_cases:
  assumes "try_restore H ops sv s q = (r, sv', s')"
  shows "(r = Inr Miss \<and> (s' = s \<or> (\<exists>x. reset_for_next_request ops x = (True, s')))) \<or> (\<exists>e. r = Inl e)
    \<or> (\<exists>m kv. 0 < prefix_cache_chunk_tokens sv
        \<and> longest_match (prefix_cache sv)
          \<lparr>chunk_keys = chain H key_seed (chunks (prefix_cache_chunk_tokens sv) q),
           keys_chunk_tokens = prefix_cache_chunk_tokens sv, prompt_tokens = length q\<rparr>
          (server_topology sv) = Some m
        \<and> mi_n_tokens m \<le> length q
        \<and> snapshot_for (prefix_cache sv) (mi_terminal m) = Some kv
        \<and> restore_slot ops s (mi_n_tokens m) kv = (True, s')
        \<and> (if mi_n_tokens m = length q
            then \<exists>l. logits_for (prefix_cache sv) (mi_terminal m) = Some l \<and> r = Inr (FullHit l)
            else r = Inr (PrefixHit (mi_n_tokens m))))"
proof (cases "cache_enabled (prefix_cache sv) \<and> q \<noteq> [] \<and> 0 < prefix_cache_chunk_tokens sv")
  case False
  then show ?thesis
    using assms by (auto simp: try_restore_def from_prompt_def split: if_splits option.splits)
next
  case True
  let ?keys = "\<lparr>chunk_keys = chain H key_seed (chunks (prefix_cache_chunk_tokens sv) q),
    keys_chunk_tokens = prefix_cache_chunk_tokens sv, prompt_tokens = length q\<rparr>"
  show ?thesis
  proof (cases "longest_match (prefix_cache sv) ?keys (server_topology sv)")
    case None
    then show ?thesis using assms True by (simp add: try_restore_def from_prompt_chain)
  next
    case (Some m)
    with assms True show ?thesis
      by (auto simp: try_restore_def from_prompt_chain Let_def split_beta prod_eq_iff
          split: if_splits option.splits)
  qed
qed

subsection \<open>The byte count of full captures\<close>

text \<open>A sequence of full captures, each from its own session.\<close>

fun capture_all ::
    "hasher \<Rightarrow> 's session_ops \<Rightarrow> 'f server_cache \<Rightarrow> ('s \<times> token list \<times> 'f list) list
      \<Rightarrow> 'f server_cache option" where
  "capture_all H ops sv [] = Some sv"
| "capture_all H ops sv ((s, p, l) # xs) =
     (case capture_full H ops sv s p l of
        None \<Rightarrow> None
      | Some (sv', _) \<Rightarrow> capture_all H ops sv' xs)"

definition terminal_key :: "hasher \<Rightarrow> nat \<Rightarrow> token list \<Rightarrow> chunk_key" where
  "terminal_key H c p = last (chain H key_seed (chunks c p))"

text \<open>A capture that is stored: long enough, with a snapshot, and within the budget.\<close>

definition storable :: "'s session_ops \<Rightarrow> nat \<Rightarrow> 's \<times> token list \<times> 'f list \<Rightarrow> bool" where
  "storable ops budget = (\<lambda>(s, p, l). has_driver ops s \<and> min_capture_tokens \<le> length p
     \<and> (\<exists>kv. fst (snapshot_slot ops s (length p)) = Some kv \<and> held_bytes kv (Some l) \<le> budget))"

lemma store_enabled: "cache_enabled (pc_store ch meta kv lg c) = cache_enabled c"
  by (simp add: pc_store_def split_beta pc_to_front_def)

lemma evict_enabled: "cache_enabled (evict c) = cache_enabled c"
proof (induction c rule: evict.induct)
  case (1 c)
  have "cache_enabled (evict_step c) = cache_enabled c"
    by (simp add: drop_victim_def split: option.split)
  with 1 show ?case by (simp add: evict.simps [of c])
qed

lemma insert_enabled: "cache_enabled (insert_with_kv ch meta kv lg c) = cache_enabled c"
  by (simp add: insert_with_kv_def evict_enabled store_enabled)

lemma insert_budget: "vram_budget_bytes (insert_with_kv ch meta kv lg c) = vram_budget_bytes c"
  by (simp add: insert_with_kv_def)

lemma insert_used:
  assumes "pc_inv c" and "used_bytes c \<le> cache_bytes c" and "ch \<noteq> []"
    and "bucket c (last ch) = []" and "pci_bytes meta \<le> held_bytes kv lg"
  shows "used_bytes (insert_with_kv ch meta kv lg c) \<le> vram_budget_bytes c
    \<and> used_bytes (insert_with_kv ch meta kv lg c) \<le> cache_bytes (insert_with_kv ch meta kv lg c)"
proof -
  have "snd (store_entry ch meta kv lg (bucket c (last ch))) = 0"
    using assms(4) by (simp add: store_entry_def)
  then have "used_bytes (pc_store ch meta kv lg c) \<le> cache_bytes (pc_store ch meta kv lg c)"
    using store_bytes [of ch meta kv lg c] assms(2,5) by simp
  then show ?thesis
    using evict_used [OF store_inv [OF assms(1,3)]] assms(3) by (simp add: insert_with_kv_def)
qed

lemma capture_all_drift:
  assumes "pc_inv (prefix_cache sv)" and "cache_enabled (prefix_cache sv)"
    and "0 < prefix_cache_chunk_tokens sv"
    and "\<forall>k. bucket_bytes (prefix_cache sv) k \<le> vram_budget_bytes (prefix_cache sv)"
    and "used_bytes (prefix_cache sv) \<le> cache_bytes (prefix_cache sv)"
    and "used_bytes (prefix_cache sv) \<le> vram_budget_bytes (prefix_cache sv)"
    and "\<forall>(s, p, l) \<in> set xs.
      bucket (prefix_cache sv) (terminal_key H (prefix_cache_chunk_tokens sv) p) = []"
    and "distinct (map (\<lambda>(s, p, l). terminal_key H (prefix_cache_chunk_tokens sv) p) xs)"
    and "list_all (storable ops (vram_budget_bytes (prefix_cache sv))) xs"
  shows "\<exists>sv'. capture_all H ops sv xs = Some sv'
    \<and> cache_bytes (prefix_cache sv') + used_bytes (prefix_cache sv) =
        cache_bytes (prefix_cache sv) + used_bytes (prefix_cache sv')
          + sum_list (map (\<lambda>(s, p, l). logits_bytes l) xs)
    \<and> used_bytes (prefix_cache sv') \<le> vram_budget_bytes (prefix_cache sv)"
  using assms
proof (induction xs arbitrary: sv)
  case (Cons x xs)
  obtain s p l where x: "x = (s, p, l)" by (cases x)
  let ?c = "prefix_cache_chunk_tokens sv" and ?pc = "prefix_cache sv"
  let ?ch = "chain H key_seed (chunks ?c p)"
  obtain kv where kv: "fst (snapshot_slot ops s (length p)) = Some kv"
    "held_bytes kv (Some l) \<le> vram_budget_bytes ?pc" "has_driver ops s" "min_capture_tokens \<le> length p"
    using Cons.prems(9) by (auto simp: storable_def x)
  let ?meta = "\<lparr>pci_topology = server_topology sv, pci_chunk_tokens = ?c,
    pci_n_tokens = length p, pci_bytes = sum_list (map length kv)\<rparr>"
  let ?pc' = "insert_with_kv ?ch ?meta kv (Some l) ?pc"
  let ?sv' = "sv\<lparr>prefix_cache := ?pc'\<rparr>"
  have step: "capture_full H ops sv s p l = Some (?sv', snd (snapshot_slot ops s (length p)))"
    using kv Cons.prems(2,3)
    by (simp add: capture_full_def capture_def split_beta from_prompt_chain)
  have ch: "?ch \<noteq> []" using kv(4) Cons.prems(3) by (cases p) (simp_all add: min_capture_tokens_def)
  have fresh: "bucket ?pc (last ?ch) = []" using Cons.prems(7) by (simp add: x terminal_key_def)
  have held: "held_bytes kv (Some l) = sum_list (map length kv) + logits_bytes l"
    by (simp add: held_bytes_def snapshot_bytes_def)
  have d: "cache_bytes ?pc' + used_bytes ?pc + pci_bytes ?meta =
      cache_bytes ?pc + held_bytes kv (Some l) + used_bytes ?pc'"
    "\<forall>k. bucket_bytes ?pc' k \<le> vram_budget_bytes ?pc"
    "\<forall>k. k \<noteq> last ?ch \<longrightarrow> bucket ?pc k = [] \<longrightarrow> bucket ?pc' k = []"
    using insert_drift [OF Cons.prems(1,4) ch fresh kv(2), of ?meta] by blast+
  have u: "used_bytes ?pc' \<le> vram_budget_bytes ?pc" "used_bytes ?pc' \<le> cache_bytes ?pc'"
    using insert_used [OF Cons.prems(1,5) ch fresh, of ?meta kv "Some l"] held by simp_all
  have empty: "bucket ?pc' (terminal_key H ?c p') = []" if m: "(s', p', l') \<in> set xs" for s' p' l'
  proof -
    have "terminal_key H ?c p' \<noteq> last ?ch"
      using Cons.prems(8) m by (force simp: x terminal_key_def)
    moreover have "bucket ?pc (terminal_key H ?c p') = []" using Cons.prems(7) m by (auto simp: x)
    ultimately show ?thesis using d(3) by blast
  qed
  have "\<exists>sv''. capture_all H ops ?sv' xs = Some sv''
    \<and> cache_bytes (prefix_cache sv'') + used_bytes (prefix_cache ?sv') =
        cache_bytes (prefix_cache ?sv') + used_bytes (prefix_cache sv'')
          + sum_list (map (\<lambda>(s, p, l). logits_bytes l) xs)
    \<and> used_bytes (prefix_cache sv'') \<le> vram_budget_bytes (prefix_cache ?sv')"
  proof (rule Cons.IH)
    show "\<forall>(s', p', l') \<in> set xs.
        bucket (prefix_cache ?sv') (terminal_key H (prefix_cache_chunk_tokens ?sv') p') = []"
      using empty by auto
  qed (use Cons.prems u d(2) in \<open>simp_all add: insert_inv insert_enabled insert_budget x\<close>)
  then show ?case
    using step d(1) held by (auto simp: x insert_budget)
qed simp

subsection \<open>Properties\<close>


definition demo_ops :: "nat session_ops" where
  "demo_ops = \<lparr>has_driver = \<lambda>s. True, snapshot_slot = \<lambda>s n. (Some [''kv''], s),
     restore_slot = \<lambda>s n kv. (True, n), reset_for_next_request = \<lambda>s. (True, 0)\<rparr>"

definition demo_server :: "nat server_cache" where
  "demo_server = \<lparr>prefix_cache = pc_new 1000 True, prefix_cache_chunk_tokens = 50,
     server_topology = demo_topo\<rparr>"

definition demo_hash :: hasher where
  "demo_hash k t = 1"

definition demo_prompt :: "token list" where
  "demo_prompt = replicate 50 7"

definition demo_captured :: "nat server_cache" where
  "demo_captured = fst (the (capture_full demo_hash demo_ops demo_server 0 demo_prompt [3]))"

lemma demo_captured_eq:
  "capture_full demo_hash demo_ops demo_server 0 demo_prompt [3] = Some (demo_captured, 0)"
proof -
  have "map_option snd (capture_full demo_hash demo_ops demo_server 0 demo_prompt [3]) = Some 0"
    by code_simp
  then show ?thesis by (cases "capture_full demo_hash demo_ops demo_server 0 demo_prompt [3]")
      (auto simp: demo_captured_def)
qed


text \<open>
  The budget does not bound what the server stores. A full capture passes only the snapshot's
  bytes while eviction gives back the logits' bytes too, so after captures of any prompts with
  different terminal keys, each of which fits the budget alone, \<^verbatim>\<open>used_bytes\<close> respects
  the budget but the bytes stored exceed \<^verbatim>\<open>used_bytes\<close> by those of all logits ever
  captured, evicted ones included.
\<close>

theorem full_captures_outgrow_budget:
  assumes "0 < c" and "list_all (storable ops budget) xs"
    and "distinct (map (\<lambda>(s, p, l). terminal_key H c p) xs)"
  shows "\<exists>sv. capture_all H ops \<lparr>prefix_cache = pc_new budget True, prefix_cache_chunk_tokens = c,
        server_topology = topo\<rparr> xs = Some sv
    \<and> used_bytes (prefix_cache sv) \<le> budget
    \<and> cache_bytes (prefix_cache sv) =
        used_bytes (prefix_cache sv) + sum_list (map (\<lambda>(s, p, l). logits_bytes l) xs)"
proof -
  let ?sv = "\<lparr>prefix_cache = pc_new budget True, prefix_cache_chunk_tokens = c, server_topology = topo\<rparr>
    :: 'b server_cache"
  have "\<exists>sv'. capture_all H ops ?sv xs = Some sv'
    \<and> cache_bytes (prefix_cache sv') + used_bytes (prefix_cache ?sv) =
        cache_bytes (prefix_cache ?sv) + used_bytes (prefix_cache sv')
          + sum_list (map (\<lambda>(s, p, l). logits_bytes l) xs)
    \<and> used_bytes (prefix_cache sv') \<le> vram_budget_bytes (prefix_cache ?sv)"
    using assms
    by (intro capture_all_drift)
       (simp_all add: pc_new_inv, simp_all add: pc_new_def bucket_bytes_def bucket_def cache_bytes_def)
  moreover have "used_bytes (prefix_cache ?sv) = 0" "cache_bytes (prefix_cache ?sv) = 0"
    "vram_budget_bytes (prefix_cache ?sv) = budget"
    by (simp_all add: pc_new_def cache_bytes_def)
  ultimately show ?thesis by auto
qed

abbreviation three_captures :: "(nat \<times> token list \<times> nat list) list" where
  "three_captures \<equiv> [(0, replicate 50 1, [0]), (0, replicate 51 1, [0]), (0, replicate 52 1, [0])]"

definition length_hash :: hasher where
  "length_hash k t = of_nat (length t)"

theorem full_captures_outgrow_budget_witness:
  "\<exists>sv. capture_all length_hash demo_ops
      \<lparr>prefix_cache = pc_new 6 True, prefix_cache_chunk_tokens = 64, server_topology = demo_topo\<rparr>
      three_captures = Some sv
    \<and> used_bytes (prefix_cache sv) \<le> 6 \<and> 12 \<le> cache_bytes (prefix_cache sv)"
proof -
  have c: "0 < (64::nat)" by simp
  have st: "list_all (storable demo_ops 6) three_captures"
    by (simp add: storable_def demo_ops_def min_capture_tokens_def held_bytes_def snapshot_bytes_def
        logits_bytes_def)
  have d: "distinct (map (\<lambda>(s, p, l). terminal_key length_hash 64 p) three_captures)"
    by code_simp
  show ?thesis
    using full_captures_outgrow_budget [OF c st d, of demo_topo] by (auto simp: logits_bytes_def)
qed

end
