(* ===== verification/Gguf_Dtype.thy ===== *)
theory Gguf_Dtype
  imports FB_Prelude
begin

section \<open>The block-quantised dtypes\<close>

text \<open>
  \<^verbatim>\<open>GgmlDType\<close> of \<^verbatim>\<open>crates/quant/src/dtype.rs\<close>: the wire codes, the names, the
  elements per block and the bytes per block. The struct sizes of the block types of
  \<^verbatim>\<open>crates/quant/src/blocks.rs\<close> are written as the sums of their fields, which the source
  asserts them to be.
\<close>

datatype ggml_dtype =
    F32 | F16 | BF16 | Q4_0 | Q4_1 | Q5_0 | Q5_1 | Q8_0 | Q8_1 | Q2K | Q3K | Q4K
     | Q5K | Q6K | Q8K | Mxfp4 | Iq4Xs | Iq3Xxs | Iq4Nl | Iq3S | Iq2Xxs | Iq2Xs
     | Iq2S | Iq1S | Iq1M

datatype dtype_error = UnknownWireId nat | UnsupportedWireId nat

definition qk_k :: nat where "qk_k = 256"

definition qk4_0 :: nat where "qk4_0 = 32"

definition qk4_1 :: nat where "qk4_1 = 32"

definition qk5_0 :: nat where "qk5_0 = 32"

definition qk5_1 :: nat where "qk5_1 = 32"

definition qk8_0 :: nat where "qk8_0 = 32"

definition qk8_1 :: nat where "qk8_1 = 32"

definition k_scale_size :: nat where "k_scale_size = 12"

lemmas qk_defs = qk_k_def qk4_0_def qk4_1_def qk5_0_def qk5_1_def qk8_0_def qk8_1_def k_scale_size_def

definition dtype_from_wire :: "nat \<Rightarrow> (dtype_error, ggml_dtype) outcome" where
  "dtype_from_wire u =
     (if u = 0 then Ok F32
      else if u = 1 then Ok F16
      else if u = 2 then Ok Q4_0
      else if u = 3 then Ok Q4_1
      else if u = 6 then Ok Q5_0
      else if u = 7 then Ok Q5_1
      else if u = 8 then Ok Q8_0
      else if u = 9 then Ok Q8_1
      else if u = 10 then Ok Q2K
      else if u = 11 then Ok Q3K
      else if u = 12 then Ok Q4K
      else if u = 13 then Ok Q5K
      else if u = 14 then Ok Q6K
      else if u = 15 then Ok Q8K
      else if u = 16 then Ok Iq2Xxs
      else if u = 17 then Ok Iq2Xs
      else if u = 18 then Ok Iq3Xxs
      else if u = 19 then Ok Iq1S
      else if u = 20 then Ok Iq4Nl
      else if u = 21 then Ok Iq3S
      else if u = 22 then Ok Iq2S
      else if u = 23 then Ok Iq4Xs
      else if u = 29 then Ok Iq1M
      else if u = 30 then Ok BF16
      else if u = 39 then Ok Mxfp4
      else if 24 \<le> u \<and> u \<le> 28 \<or> 31 \<le> u \<and> u \<le> 38 then Err (UnsupportedWireId u)
      else Err (UnknownWireId u))"

fun dtype_to_wire :: "ggml_dtype \<Rightarrow> nat" where
  "dtype_to_wire F32 = 0"
| "dtype_to_wire F16 = 1"
| "dtype_to_wire BF16 = 30"
| "dtype_to_wire Q4_0 = 2"
| "dtype_to_wire Q4_1 = 3"
| "dtype_to_wire Q5_0 = 6"
| "dtype_to_wire Q5_1 = 7"
| "dtype_to_wire Q8_0 = 8"
| "dtype_to_wire Q8_1 = 9"
| "dtype_to_wire Q2K = 10"
| "dtype_to_wire Q3K = 11"
| "dtype_to_wire Q4K = 12"
| "dtype_to_wire Q5K = 13"
| "dtype_to_wire Q6K = 14"
| "dtype_to_wire Q8K = 15"
| "dtype_to_wire Mxfp4 = 39"
| "dtype_to_wire Iq4Xs = 23"
| "dtype_to_wire Iq3Xxs = 18"
| "dtype_to_wire Iq4Nl = 20"
| "dtype_to_wire Iq3S = 21"
| "dtype_to_wire Iq2Xxs = 16"
| "dtype_to_wire Iq2Xs = 17"
| "dtype_to_wire Iq2S = 22"
| "dtype_to_wire Iq1S = 19"
| "dtype_to_wire Iq1M = 29"

fun dtype_name :: "ggml_dtype \<Rightarrow> string" where
  "dtype_name F32 = ''F32''"
| "dtype_name F16 = ''F16''"
| "dtype_name BF16 = ''BF16''"
| "dtype_name Q4_0 = ''Q4_0''"
| "dtype_name Q4_1 = ''Q4_1''"
| "dtype_name Q5_0 = ''Q5_0''"
| "dtype_name Q5_1 = ''Q5_1''"
| "dtype_name Q8_0 = ''Q8_0''"
| "dtype_name Q8_1 = ''Q8_1''"
| "dtype_name Q2K = ''Q2_K''"
| "dtype_name Q3K = ''Q3_K''"
| "dtype_name Q4K = ''Q4_K''"
| "dtype_name Q5K = ''Q5_K''"
| "dtype_name Q6K = ''Q6_K''"
| "dtype_name Q8K = ''Q8_K''"
| "dtype_name Mxfp4 = ''MXFP4''"
| "dtype_name Iq4Xs = ''IQ4_XS''"
| "dtype_name Iq3Xxs = ''IQ3_XXS''"
| "dtype_name Iq4Nl = ''IQ4_NL''"
| "dtype_name Iq3S = ''IQ3_S''"
| "dtype_name Iq2Xxs = ''IQ2_XXS''"
| "dtype_name Iq2Xs = ''IQ2_XS''"
| "dtype_name Iq2S = ''IQ2_S''"
| "dtype_name Iq1S = ''IQ1_S''"
| "dtype_name Iq1M = ''IQ1_M''"

fun dtype_block_size :: "ggml_dtype \<Rightarrow> nat" where
  "dtype_block_size F32 = 1"
| "dtype_block_size F16 = 1"
| "dtype_block_size BF16 = 1"
| "dtype_block_size Q4_0 = qk4_0"
| "dtype_block_size Q4_1 = qk4_1"
| "dtype_block_size Q5_0 = qk5_0"
| "dtype_block_size Q5_1 = qk5_1"
| "dtype_block_size Q8_0 = qk8_0"
| "dtype_block_size Q8_1 = qk8_1"
| "dtype_block_size Q2K = qk_k"
| "dtype_block_size Q3K = qk_k"
| "dtype_block_size Q4K = qk_k"
| "dtype_block_size Q5K = qk_k"
| "dtype_block_size Q6K = qk_k"
| "dtype_block_size Q8K = qk_k"
| "dtype_block_size Mxfp4 = qk4_0"
| "dtype_block_size Iq4Xs = qk_k"
| "dtype_block_size Iq3Xxs = qk_k"
| "dtype_block_size Iq4Nl = qk4_0"
| "dtype_block_size Iq3S = qk_k"
| "dtype_block_size Iq2Xxs = qk_k"
| "dtype_block_size Iq2Xs = qk_k"
| "dtype_block_size Iq2S = qk_k"
| "dtype_block_size Iq1S = qk_k"
| "dtype_block_size Iq1M = qk_k"

fun dtype_type_size :: "ggml_dtype \<Rightarrow> nat" where
  "dtype_type_size F32 = 4"
| "dtype_type_size F16 = 2"
| "dtype_type_size BF16 = 2"
| "dtype_type_size Q4_0 = 2 + qk4_0 div 2"
| "dtype_type_size Q4_1 = 2 + 2 + qk4_1 div 2"
| "dtype_type_size Q5_0 = 2 + 4 + qk5_0 div 2"
| "dtype_type_size Q5_1 = 2 + 2 + 4 + qk5_1 div 2"
| "dtype_type_size Q8_0 = 2 + qk8_0"
| "dtype_type_size Q8_1 = 2 + 2 + qk8_1"
| "dtype_type_size Q2K = qk_k div 16 + qk_k div 4 + 2 + 2"
| "dtype_type_size Q3K = qk_k div 8 + qk_k div 4 + 12 + 2"
| "dtype_type_size Q4K = 2 + 2 + k_scale_size + qk_k div 2"
| "dtype_type_size Q5K = 2 + 2 + k_scale_size + qk_k div 8 + qk_k div 2"
| "dtype_type_size Q6K = qk_k div 2 + qk_k div 4 + qk_k div 16 + 2"
| "dtype_type_size Q8K = 4 + qk_k + qk_k div 16 * 2"
| "dtype_type_size Mxfp4 = 1 + qk4_0 div 2"
| "dtype_type_size Iq4Xs = 2 + 2 + qk_k div 64 + qk_k div 2"
| "dtype_type_size Iq3Xxs = 2 + 3 * qk_k div 8"
| "dtype_type_size Iq4Nl = 2 + qk4_0 div 2"
| "dtype_type_size Iq3S = 2 + qk_k div 4 + qk_k div 32 + qk_k div 8 + qk_k div 64"
| "dtype_type_size Iq2Xxs = 2 + 2 * (qk_k div 8)"
| "dtype_type_size Iq2Xs = 2 + 2 * (qk_k div 8) + qk_k div 32"
| "dtype_type_size Iq2S = 2 + qk_k div 4 + qk_k div 32 + qk_k div 32"
| "dtype_type_size Iq1S = 2 + qk_k div 8 + 2 * (qk_k div 32)"
| "dtype_type_size Iq1M = qk_k div 8 + qk_k div 16 + qk_k div 32"

lemma from_to_wire [simp]: "dtype_from_wire (dtype_to_wire d) = Ok d"
  by (cases d) (simp_all add: dtype_from_wire_def)

lemma to_wire_bound: "dtype_to_wire d < 40"
  by (cases d) simp_all

lemma block_size_pos [simp]: "0 < dtype_block_size d" "dtype_block_size d \<noteq> 0"
  by (cases d; simp add: qk_defs)+

lemma type_size_pos [simp]: "0 < dtype_type_size d"
  by (cases d) (simp_all add: qk_defs)

lemma from_wire_Ok: "dtype_from_wire u = Ok d \<Longrightarrow> u = dtype_to_wire d"
  unfolding dtype_from_wire_def by (simp split: if_splits)

subsection \<open>Property\<close>

text \<open>
  The wire codes are a bijection. A code is read as a dtype exactly when it is the code that
  dtype is written with, so no two dtypes share a code; the codes from 24 to 28 and from 31 to 38
  are ggml's dtypes the engine does not support; 4, 5 and every code from 40 on are unknown.
\<close>

theorem dtype_wire_bijection:
  "(dtype_from_wire u = Ok d \<longleftrightarrow> u = dtype_to_wire d)
   \<and> (dtype_from_wire u = Err (UnsupportedWireId u) \<longleftrightarrow> u \<in> {24..28} \<union> {31..38})
   \<and> (dtype_from_wire u = Err (UnknownWireId u) \<longleftrightarrow> u = 4 \<or> u = 5 \<or> 40 \<le> u)"
proof (intro conjI)
  show "dtype_from_wire u = Ok d \<longleftrightarrow> u = dtype_to_wire d"
    using from_wire_Ok by auto
  show "dtype_from_wire u = Err (UnsupportedWireId u) \<longleftrightarrow> u \<in> {24..28} \<union> {31..38}"
    by (simp add: dtype_from_wire_def)
  show "dtype_from_wire u = Err (UnknownWireId u) \<longleftrightarrow> u = 4 \<or> u = 5 \<or> 40 \<le> u"
    by (simp add: dtype_from_wire_def) arith
qed

end
