(* ===== verification/Gguf_Parse.thy ===== *)
theory Gguf_Parse
  imports Gguf_Dtype "HOL-Library.Word" "HOL-Library.AList"
begin

section \<open>The GGUF reader\<close>

text \<open>
  The header parser of \<^verbatim>\<open>crates/quant/src/gguf.rs\<close>: metadata values, the tensor index,
  the data offset. A mapped file is its list of bytes; hash maps are association lists updated in
  place, of which only lookup is used. Two resources that the code takes without a check are
  parameters in \<open>limits\<close>: whether the allocator grants a capacity computed from the file, and how
  many nested arrays the call stack holds; exceeding either is a panic.
\<close>

type_synonym octet = "8 word"
type_synonym octets = "octet list"

datatype alloc_site = StringBytes | ArrayValues | MetadataMap | TensorMap | TensorOrder | TensorDims

record limits =
  alloc_ok :: "alloc_site \<Rightarrow> nat \<Rightarrow> bool"
  stack_depth :: nat

datatype quant_error =
    Io
  | DTypeErr dtype_error
  | BadMagic nat
  | UnsupportedVersion nat
  | InvalidValueType nat
  | UnknownTensor octets
  | DuplicateTensor octets
  | RangeOutOfBounds octets nat nat nat
  | RangeUnaligned octets string nat nat nat
  | ElemCountNotDivisible nat nat string
  | ByteLenMismatch nat nat string

subsection \<open>Reading\<close>

type_synonym 'a reader = "octets \<Rightarrow> (quant_error, 'a \<times> octets) outcome"

definition rbind :: "'a reader \<Rightarrow> ('a \<Rightarrow> 'b reader) \<Rightarrow> 'b reader" where
  "rbind p f = (\<lambda>bs. obind (p bs) (\<lambda>(x, rest). f x rest))"

definition rret :: "'a \<Rightarrow> 'a reader" where
  "rret x = (\<lambda>bs. Ok (x, bs))"

definition rlift :: "(quant_error, 'a) outcome \<Rightarrow> 'a reader" where
  "rlift r = (\<lambda>bs. obind r (\<lambda>x. Ok (x, bs)))"

text \<open>\<^verbatim>\<open>with_capacity\<close> or \<^verbatim>\<open>vec![0; n]\<close> for a count from the file.\<close>

definition ralloc :: "limits \<Rightarrow> alloc_site \<Rightarrow> nat \<Rightarrow> unit reader" where
  "ralloc lim site n = (\<lambda>bs. if alloc_ok lim site n then Ok ((), bs) else Panic)"

definition read_exact :: "nat \<Rightarrow> octets reader" where
  "read_exact n = (\<lambda>bs. if length bs < n then Err Io else Ok (take n bs, drop n bs))"

definition le_nat :: "octets \<Rightarrow> nat" where
  "le_nat bs = foldr (\<lambda>b n. unat b + 256 * n) bs 0"

text \<open>The little-endian reads of \<open>n\<close> bytes.\<close>

definition read_uint :: "nat \<Rightarrow> nat reader" where
  "read_uint n = rbind (read_exact n) (\<lambda>b. rret (le_nat b))"

primrec repeat_read :: "nat \<Rightarrow> 'a reader \<Rightarrow> 'a list reader" where
  "repeat_read 0 p = rret []"
| "repeat_read (Suc n) p = rbind p (\<lambda>x. rbind (repeat_read n p) (\<lambda>xs. rret (x # xs)))"

subsection \<open>Strings\<close>

text \<open>
  \<^verbatim>\<open>String::from_utf8_lossy\<close>: every maximal ill-formed sequence becomes U+FFFD.
\<close>

definition utf8_replacement :: octets where
  "utf8_replacement = [0xEF, 0xBF, 0xBD]"

definition utf8_cont :: "octet \<Rightarrow> bool" where
  "utf8_cont b \<longleftrightarrow> 0x80 \<le> b \<and> b \<le> 0xBF"

definition utf8_second3 :: "octet \<Rightarrow> octet \<Rightarrow> bool" where
  "utf8_second3 b c \<longleftrightarrow>
     b = 0xE0 \<and> 0xA0 \<le> c \<and> c \<le> 0xBF \<or> 0xE1 \<le> b \<and> b \<le> 0xEC \<and> utf8_cont c
     \<or> b = 0xED \<and> 0x80 \<le> c \<and> c \<le> 0x9F \<or> 0xEE \<le> b \<and> b \<le> 0xEF \<and> utf8_cont c"

definition utf8_second4 :: "octet \<Rightarrow> octet \<Rightarrow> bool" where
  "utf8_second4 b c \<longleftrightarrow>
     b = 0xF0 \<and> 0x90 \<le> c \<and> c \<le> 0xBF \<or> 0xF1 \<le> b \<and> b \<le> 0xF3 \<and> utf8_cont c
     \<or> b = 0xF4 \<and> 0x80 \<le> c \<and> c \<le> 0x8F"

fun utf8_lossy :: "octets \<Rightarrow> octets" where
  "utf8_lossy [] = []"
| "utf8_lossy (b # bs) =
     (if b < 0x80 then b # utf8_lossy bs
      else if 0xC2 \<le> b \<and> b \<le> 0xDF then
        (case bs of
           [] \<Rightarrow> utf8_replacement
         | c # cs \<Rightarrow> if utf8_cont c then b # c # utf8_lossy cs else utf8_replacement @ utf8_lossy bs)
      else if 0xE0 \<le> b \<and> b \<le> 0xEF then
        (case bs of
           [] \<Rightarrow> utf8_replacement
         | c # cs \<Rightarrow>
             if \<not> utf8_second3 b c then utf8_replacement @ utf8_lossy bs
             else
               (case cs of
                  [] \<Rightarrow> utf8_replacement
                | d # ds \<Rightarrow> if utf8_cont d then b # c # d # utf8_lossy ds
                            else utf8_replacement @ utf8_lossy cs))
      else if 0xF0 \<le> b \<and> b \<le> 0xF4 then
        (case bs of
           [] \<Rightarrow> utf8_replacement
         | c # cs \<Rightarrow>
             if \<not> utf8_second4 b c then utf8_replacement @ utf8_lossy bs
             else
               (case cs of
                  [] \<Rightarrow> utf8_replacement
                | d # ds \<Rightarrow>
                    if \<not> utf8_cont d then utf8_replacement @ utf8_lossy cs
                    else
                      (case ds of
                         [] \<Rightarrow> utf8_replacement
                       | e # es \<Rightarrow> if utf8_cont e then b # c # d # e # utf8_lossy es
                                   else utf8_replacement @ utf8_lossy ds)))
      else utf8_replacement @ utf8_lossy bs)"

definition strip_nuls :: "octets \<Rightarrow> octets" where
  "strip_nuls buf = rev (dropWhile (\<lambda>b. b = 0) (rev buf))"

definition read_string :: "limits \<Rightarrow> octets reader" where
  "read_string lim =
     rbind (read_uint 8) (\<lambda>len.
     rbind (ralloc lim StringBytes len) (\<lambda>_.
     rbind (read_exact len) (\<lambda>buf.
     rret (utf8_lossy (strip_nuls buf)))))"

subsection \<open>Metadata values\<close>

datatype value_type =
  TU8 | TI8 | TU16 | TI16 | TU32 | TI32 | TF32 | TBool | TString | TArray | TU64 | TI64 | TF64

definition value_type_from_wire :: "nat \<Rightarrow> (quant_error, value_type) outcome" where
  "value_type_from_wire u =
     (if u = 0 then Ok TU8 else if u = 1 then Ok TI8 else if u = 2 then Ok TU16
      else if u = 3 then Ok TI16 else if u = 4 then Ok TU32 else if u = 5 then Ok TI32
      else if u = 6 then Ok TF32 else if u = 7 then Ok TBool else if u = 8 then Ok TString
      else if u = 9 then Ok TArray else if u = 10 then Ok TU64 else if u = 11 then Ok TI64
      else if u = 12 then Ok TF64 else Err (InvalidValueType u))"

text \<open>Signed integers are their two's complement words, floats their bits.\<close>

datatype gvalue =
    VU8 octet | VI8 octet | VU16 "16 word" | VI16 "16 word" | VU32 "32 word" | VI32 "32 word"
  | VU64 "64 word" | VI64 "64 word" | VF32 "32 word" | VF64 "64 word" | VBool bool
  | VString octets | VArray "gvalue list"

fun as_u32 :: "gvalue \<Rightarrow> nat option" where
  "as_u32 (VU8 v) = Some (unat v)"
| "as_u32 (VU16 v) = Some (unat v)"
| "as_u32 (VU32 v) = Some (unat v)"
| "as_u32 (VI8 v) = (if 0 \<le> sint v then Some (nat (sint v)) else None)"
| "as_u32 (VI16 v) = (if 0 \<le> sint v then Some (nat (sint v)) else None)"
| "as_u32 (VI32 v) = (if 0 \<le> sint v then Some (nat (sint v)) else None)"
| "as_u32 _ = None"

fun as_u64 :: "gvalue \<Rightarrow> nat option" where
  "as_u64 (VU64 v) = Some (unat v)"
| "as_u64 (VU32 v) = Some (unat v)"
| "as_u64 (VU16 v) = Some (unat v)"
| "as_u64 (VU8 v) = Some (unat v)"
| "as_u64 (VI64 v) = (if 0 \<le> sint v then Some (nat (sint v)) else None)"
| "as_u64 (VI32 v) = (if 0 \<le> sint v then Some (nat (sint v)) else None)"
| "as_u64 _ = None"

fun as_gstr :: "gvalue \<Rightarrow> octets option" where
  "as_gstr (VString s) = Some s"
| "as_gstr _ = None"

fun as_garray :: "gvalue \<Rightarrow> gvalue list option" where
  "as_garray (VArray vs) = Some vs"
| "as_garray _ = None"

definition read_scalar :: "limits \<Rightarrow> value_type \<Rightarrow> gvalue reader" where
  "read_scalar lim vt =
     (case vt of
        TU8 \<Rightarrow> rbind (read_uint 1) (\<lambda>n. rret (VU8 (of_nat n)))
      | TI8 \<Rightarrow> rbind (read_uint 1) (\<lambda>n. rret (VI8 (of_nat n)))
      | TU16 \<Rightarrow> rbind (read_uint 2) (\<lambda>n. rret (VU16 (of_nat n)))
      | TI16 \<Rightarrow> rbind (read_uint 2) (\<lambda>n. rret (VI16 (of_nat n)))
      | TU32 \<Rightarrow> rbind (read_uint 4) (\<lambda>n. rret (VU32 (of_nat n)))
      | TI32 \<Rightarrow> rbind (read_uint 4) (\<lambda>n. rret (VI32 (of_nat n)))
      | TF32 \<Rightarrow> rbind (read_uint 4) (\<lambda>n. rret (VF32 (of_nat n)))
      | TBool \<Rightarrow> rbind (read_uint 1) (\<lambda>n. rret (VBool (n \<noteq> 0)))
      | TString \<Rightarrow> rbind (read_string lim) (\<lambda>s. rret (VString s))
      | TU64 \<Rightarrow> rbind (read_uint 8) (\<lambda>n. rret (VU64 (of_nat n)))
      | TI64 \<Rightarrow> rbind (read_uint 8) (\<lambda>n. rret (VI64 (of_nat n)))
      | TF64 \<Rightarrow> rbind (read_uint 8) (\<lambda>n. rret (VF64 (of_nat n)))
      | TArray \<Rightarrow> (\<lambda>_. Panic))"

definition read_array :: "limits \<Rightarrow> (value_type \<Rightarrow> gvalue reader) \<Rightarrow> gvalue reader" where
  "read_array lim rv =
     rbind (read_uint 4) (\<lambda>tag.
     rbind (rlift (value_type_from_wire tag)) (\<lambda>inner.
     rbind (read_uint 8) (\<lambda>len.
     rbind (ralloc lim ArrayValues len) (\<lambda>_.
     rbind (repeat_read len (rv inner)) (\<lambda>vs.
     rret (VArray vs))))))"

text \<open>The first argument is the number of nested arrays the stack still holds.\<close>

primrec read_value :: "nat \<Rightarrow> limits \<Rightarrow> value_type \<Rightarrow> gvalue reader" where
  "read_value 0 lim vt = (if vt = TArray then (\<lambda>_. Panic) else read_scalar lim vt)"
| "read_value (Suc d) lim vt =
     (if vt = TArray then read_array lim (read_value d lim) else read_scalar lim vt)"

subsection \<open>The header\<close>

record tensor_info =
  ti_name :: octets
  ti_dtype :: ggml_dtype
  ti_dims :: "nat list"
  ti_rel_offset :: nat
  ti_split_idx :: nat

datatype gguf_version = V2 | V3

definition magic_gguf :: nat where
  "magic_gguf = 0x46554747"

definition default_alignment :: nat where
  "default_alignment = 32"

text \<open>ASCII text as bytes, for the metadata keys the code names.\<close>

definition ascii :: "string \<Rightarrow> octets" where
  "ascii s = map of_char s"

definition read_kv :: "limits \<Rightarrow> (octets \<times> gvalue) reader" where
  "read_kv lim =
     rbind (read_string lim) (\<lambda>key.
     rbind (read_uint 4) (\<lambda>tag.
     rbind (rlift (value_type_from_wire tag)) (\<lambda>vt.
     rbind (read_value (stack_depth lim) lim vt) (\<lambda>v.
     rret (key, v)))))"

definition read_tensor_info :: "limits \<Rightarrow> tensor_info reader" where
  "read_tensor_info lim =
     rbind (read_string lim) (\<lambda>name.
     rbind (read_uint 4) (\<lambda>n_dims.
     rbind (ralloc lim TensorDims n_dims) (\<lambda>_.
     rbind (repeat_read n_dims (read_uint 8)) (\<lambda>dims.
     rbind (read_uint 4) (\<lambda>dtype_wire.
     rbind (rlift (map_err DTypeErr (dtype_from_wire dtype_wire))) (\<lambda>dtype.
     rbind (read_uint 8) (\<lambda>rel_offset.
     rret \<lparr>ti_name = name, ti_dtype = dtype, ti_dims = rev dims, ti_rel_offset = rel_offset,
           ti_split_idx = 0\<rparr>)))))))"

record parsed_header =
  ph_version :: gguf_version
  ph_metadata :: "(octets \<times> gvalue) list"
  ph_tensors :: "(octets \<times> tensor_info) list"
  ph_order :: "octets list"
  ph_data_offset :: nat

definition insert_kvs :: "(octets \<times> 'v) list \<Rightarrow> (octets \<times> 'v) list" where
  "insert_kvs kvs = fold (\<lambda>(k, v) m. AList.update k v m) kvs []"

definition div_ceil :: "nat \<Rightarrow> nat \<Rightarrow> nat" where
  "div_ceil a b = (a + b - 1) div b"

definition version_of :: "nat \<Rightarrow> (quant_error, gguf_version) outcome" where
  "version_of v = (if v = 2 then Ok V2 else if v = 3 then Ok V3 else Err (UnsupportedVersion v))"

definition alignment_of :: "(octets \<times> gvalue) list \<Rightarrow> nat" where
  "alignment_of md =
     (case Option.bind (map_of md (ascii ''general.alignment'')) as_u64 of
        None \<Rightarrow> default_alignment | Some a \<Rightarrow> a)"

text \<open>Everything up to the tensor index, then the data offset; a zero alignment divides by zero.\<close>

definition read_index ::
    "limits \<Rightarrow> (gguf_version \<times> (octets \<times> gvalue) list \<times> tensor_info list) reader" where
  "read_index lim =
     rbind (read_uint 4) (\<lambda>magic.
     rbind (rlift (if magic \<noteq> magic_gguf then Err (BadMagic magic) else Ok ())) (\<lambda>_.
     rbind (read_uint 4) (\<lambda>version_raw.
     rbind (rlift (version_of version_raw)) (\<lambda>version.
     rbind (read_uint 8) (\<lambda>tensor_count.
     rbind (read_uint 8) (\<lambda>metadata_kv_count.
     rbind (ralloc lim MetadataMap metadata_kv_count) (\<lambda>_.
     rbind (repeat_read metadata_kv_count (read_kv lim)) (\<lambda>kvs.
     rbind (ralloc lim TensorMap tensor_count) (\<lambda>_.
     rbind (ralloc lim TensorOrder tensor_count) (\<lambda>_.
     rbind (repeat_read tensor_count (read_tensor_info lim)) (\<lambda>infos.
     rret (version, insert_kvs kvs, infos))))))))))))"

definition parse_gguf_header :: "limits \<Rightarrow> octets \<Rightarrow> (quant_error, parsed_header) outcome" where
  "parse_gguf_header lim mmap =
     obind (read_index lim mmap) (\<lambda>((version, md, infos), rest).
       let header_end = length mmap - length rest; alignment = alignment_of md in
       if alignment = 0 then Panic
       else Ok \<lparr>ph_version = version, ph_metadata = md,
                ph_tensors = insert_kvs (map (\<lambda>i. (ti_name i, i)) infos),
                ph_order = map ti_name infos,
                ph_data_offset = div_ceil header_end alignment * alignment\<rparr>)"

end
