(* ===== verification/Gguf_Roundtrip.thy ===== *)
theory Gguf_Roundtrip
  imports Gguf_Parse
begin

section \<open>Writing a GGUF header and reading it back\<close>

text \<open>
  The specification of the parser: the header a writer of the format emits for a version, a list of
  metadata entries and a list of tensor infos. The engine has no writer; the encoder is the format's
  definition, and the theorem says the parser inverts it, whatever follows the header.
\<close>

subsection \<open>The encoder\<close>

primrec le_bytes :: "nat \<Rightarrow> nat \<Rightarrow> octets" where
  "le_bytes 0 n = []"
| "le_bytes (Suc w) n = of_nat n # le_bytes w (n div 256)"

definition enc_string :: "octets \<Rightarrow> octets" where
  "enc_string s = le_bytes 8 (length s) @ s"

fun value_type_to_wire :: "value_type \<Rightarrow> nat" where
  "value_type_to_wire TU8 = 0"
| "value_type_to_wire TI8 = 1"
| "value_type_to_wire TU16 = 2"
| "value_type_to_wire TI16 = 3"
| "value_type_to_wire TU32 = 4"
| "value_type_to_wire TI32 = 5"
| "value_type_to_wire TF32 = 6"
| "value_type_to_wire TBool = 7"
| "value_type_to_wire TString = 8"
| "value_type_to_wire TArray = 9"
| "value_type_to_wire TU64 = 10"
| "value_type_to_wire TI64 = 11"
| "value_type_to_wire TF64 = 12"

fun type_of_value :: "gvalue \<Rightarrow> value_type" where
  "type_of_value (VU8 _) = TU8"
| "type_of_value (VI8 _) = TI8"
| "type_of_value (VU16 _) = TU16"
| "type_of_value (VI16 _) = TI16"
| "type_of_value (VU32 _) = TU32"
| "type_of_value (VI32 _) = TI32"
| "type_of_value (VU64 _) = TU64"
| "type_of_value (VI64 _) = TI64"
| "type_of_value (VF32 _) = TF32"
| "type_of_value (VF64 _) = TF64"
| "type_of_value (VBool _) = TBool"
| "type_of_value (VString _) = TString"
| "type_of_value (VArray _) = TArray"

text \<open>An empty array may carry any element type; the encoder picks one.\<close>

definition elem_type :: "gvalue list \<Rightarrow> value_type" where
  "elem_type vs = (case vs of [] \<Rightarrow> TU8 | v # _ \<Rightarrow> type_of_value v)"

fun enc_value :: "gvalue \<Rightarrow> octets" where
  "enc_value (VU8 v) = le_bytes 1 (unat v)"
| "enc_value (VI8 v) = le_bytes 1 (unat v)"
| "enc_value (VU16 v) = le_bytes 2 (unat v)"
| "enc_value (VI16 v) = le_bytes 2 (unat v)"
| "enc_value (VU32 v) = le_bytes 4 (unat v)"
| "enc_value (VI32 v) = le_bytes 4 (unat v)"
| "enc_value (VU64 v) = le_bytes 8 (unat v)"
| "enc_value (VI64 v) = le_bytes 8 (unat v)"
| "enc_value (VF32 v) = le_bytes 4 (unat v)"
| "enc_value (VF64 v) = le_bytes 8 (unat v)"
| "enc_value (VBool b) = le_bytes 1 (if b then 1 else 0)"
| "enc_value (VString s) = enc_string s"
| "enc_value (VArray vs) =
     le_bytes 4 (value_type_to_wire (elem_type vs)) @ le_bytes 8 (length vs) @ concat (map enc_value vs)"

definition enc_kv :: "octets \<times> gvalue \<Rightarrow> octets" where
  "enc_kv kv = enc_string (fst kv) @ le_bytes 4 (value_type_to_wire (type_of_value (snd kv)))
     @ enc_value (snd kv)"

definition enc_tensor :: "tensor_info \<Rightarrow> octets" where
  "enc_tensor i = enc_string (ti_name i) @ le_bytes 4 (length (ti_dims i))
     @ concat (map (le_bytes 8) (rev (ti_dims i)))
     @ le_bytes 4 (dtype_to_wire (ti_dtype i)) @ le_bytes 8 (ti_rel_offset i)"

fun version_wire :: "gguf_version \<Rightarrow> nat" where
  "version_wire V2 = 2"
| "version_wire V3 = 3"

definition enc_header ::
    "gguf_version \<Rightarrow> (octets \<times> gvalue) list \<Rightarrow> tensor_info list \<Rightarrow> octets" where
  "enc_header v kvs infos =
     le_bytes 4 magic_gguf @ le_bytes 4 (version_wire v) @ le_bytes 8 (length infos)
     @ le_bytes 8 (length kvs) @ concat (map enc_kv kvs) @ concat (map enc_tensor infos)"

subsection \<open>What can be written\<close>

text \<open>
  Strings in valid UTF-8 without a trailing NUL, arrays of one element type nested no deeper than
  the stack, counts within their widths that the allocator grants.
\<close>

definition wf_string :: "limits \<Rightarrow> octets \<Rightarrow> bool" where
  "wf_string lim s \<longleftrightarrow> length s < 2 ^ 64 \<and> alloc_ok lim StringBytes (length s)
     \<and> (s = [] \<or> last s \<noteq> 0) \<and> utf8_lossy s = s"

fun wf_value :: "limits \<Rightarrow> nat \<Rightarrow> gvalue \<Rightarrow> bool" where
  "wf_value lim d (VString s) \<longleftrightarrow> wf_string lim s"
| "wf_value lim 0 (VArray vs) \<longleftrightarrow> False"
| "wf_value lim (Suc d) (VArray vs) \<longleftrightarrow> length vs < 2 ^ 64 \<and> alloc_ok lim ArrayValues (length vs)
     \<and> (\<forall>v \<in> set vs. type_of_value v = elem_type vs \<and> wf_value lim d v)"
| "wf_value lim d v \<longleftrightarrow> True"

definition wf_kv :: "limits \<Rightarrow> octets \<times> gvalue \<Rightarrow> bool" where
  "wf_kv lim kv \<longleftrightarrow> wf_string lim (fst kv) \<and> wf_value lim (stack_depth lim) (snd kv)"

definition wf_tensor :: "limits \<Rightarrow> tensor_info \<Rightarrow> bool" where
  "wf_tensor lim i \<longleftrightarrow> wf_string lim (ti_name i) \<and> length (ti_dims i) < 2 ^ 32
     \<and> alloc_ok lim TensorDims (length (ti_dims i)) \<and> (\<forall>d \<in> set (ti_dims i). d < 2 ^ 64)
     \<and> ti_rel_offset i < 2 ^ 64 \<and> ti_split_idx i = 0"

definition wf_header :: "limits \<Rightarrow> (octets \<times> gvalue) list \<Rightarrow> tensor_info list \<Rightarrow> bool" where
  "wf_header lim kvs infos \<longleftrightarrow>
     length kvs < 2 ^ 64 \<and> alloc_ok lim MetadataMap (length kvs)
     \<and> length infos < 2 ^ 64 \<and> alloc_ok lim TensorMap (length infos) \<and> alloc_ok lim TensorOrder (length infos)
     \<and> list_all (wf_kv lim) kvs \<and> list_all (wf_tensor lim) infos"

subsection \<open>A reader reads exactly an encoding\<close>

definition reads :: "'a reader \<Rightarrow> octets \<Rightarrow> 'a \<Rightarrow> bool" where
  "reads p bs x \<longleftrightarrow> (\<forall>rest. p (bs @ rest) = Ok (x, rest))"

named_theorems read_rules "a reader reads exactly an encoding"

lemma reads_ret [read_rules]: "reads (rret x) [] x"
  by (simp add: reads_def rret_def)

lemma reads_bind [read_rules]: "reads p a x \<Longrightarrow> reads (f x) b y \<Longrightarrow> reads (rbind p f) (a @ b) y"
  by (simp add: reads_def rbind_def)

lemma reads_bind_nil: "reads p [] x \<Longrightarrow> reads (f x) b y \<Longrightarrow> reads (rbind p f) b y"
  using reads_bind [of p "[]" x f b y] by simp

lemma reads_bind_last: "reads p a x \<Longrightarrow> reads (f x) [] y \<Longrightarrow> reads (rbind p f) a y"
  using reads_bind [of p a x f "[]" y] by simp

lemma reads_exact: "length a = n \<Longrightarrow> reads (read_exact n) a a"
  by (simp add: reads_def read_exact_def)

lemma reads_alloc: "alloc_ok lim site n \<Longrightarrow> reads (ralloc lim site n) [] ()"
  by (simp add: reads_def ralloc_def)

lemma reads_lift: "r = Ok x \<Longrightarrow> reads (rlift r) [] x"
  by (simp add: reads_def rlift_def)

lemma length_le_bytes [simp]: "length (le_bytes w n) = w"
  by (induction w arbitrary: n) simp_all

lemma le_nat_Cons: "le_nat (b # bs) = unat b + 256 * le_nat bs"
  by (simp add: le_nat_def)

lemma le_nat_le_bytes: "n < 256 ^ w \<Longrightarrow> le_nat (le_bytes w n) = n"
proof (induction w arbitrary: n)
  case (Suc w)
  then have "n div 256 < 256 ^ w" by (simp add: less_mult_imp_div_less mult.commute)
  with Suc.IH have "le_nat (le_bytes w (n div 256)) = n div 256" by blast
  moreover have "unat (of_nat n :: octet) = n mod 256" by (simp add: unat_of_nat)
  ultimately show ?case by (simp add: le_nat_Cons)
qed (simp add: le_nat_def)

lemma reads_uint:
  assumes "n < 256 ^ w"
  shows "reads (read_uint w) (le_bytes w n) n"
  unfolding read_uint_def
  by (rule reads_bind_last [OF reads_exact]) (simp_all add: le_nat_le_bytes assms reads_ret)

lemma reads_uints:
  "n < 256 \<Longrightarrow> reads (read_uint 1) (le_bytes 1 n) n"
  "n < 2 ^ 16 \<Longrightarrow> reads (read_uint 2) (le_bytes 2 n) n"
  "n < 2 ^ 32 \<Longrightarrow> reads (read_uint 4) (le_bytes 4 n) n"
  "n < 2 ^ 64 \<Longrightarrow> reads (read_uint 8) (le_bytes 8 n) n"
  by (rule reads_uint, simp)+

lemma reads_word:
  "n < 256 ^ w \<Longrightarrow> f n = x \<Longrightarrow> reads (rbind (read_uint w) (\<lambda>n. rret (f n))) (le_bytes w n) x"
  by (rule reads_bind_last [OF reads_uint]) (simp_all add: reads_ret)

lemma reads_repeat:
  "(\<And>x. x \<in> set xs \<Longrightarrow> reads p (enc x) x) \<Longrightarrow>
     reads (repeat_read (length xs) p) (concat (map enc xs)) xs"
proof (induction xs)
  case (Cons x xs)
  then show ?case
    by (auto intro!: reads_bind reads_bind_last [where p = "repeat_read (length xs) p"] reads_ret)
qed (simp add: reads_ret)

lemma strip_nuls_id: "s = [] \<or> last s \<noteq> 0 \<Longrightarrow> strip_nuls s = s"
  by (cases s rule: rev_cases) (simp_all add: strip_nuls_def)

lemma reads_string:
  assumes "wf_string lim s"
  shows "reads (read_string lim) (enc_string s) s"
proof -
  have "reads (rret (utf8_lossy (strip_nuls s))) [] s"
    using assms by (simp add: wf_string_def strip_nuls_id reads_ret)
  moreover have "length s < 2 ^ 64" "alloc_ok lim StringBytes (length s)"
    using assms by (simp_all add: wf_string_def)
  ultimately show ?thesis
    unfolding read_string_def enc_string_def
    by (intro reads_bind [OF reads_uints(4)] reads_bind_nil [OF reads_alloc] reads_bind_last [OF reads_exact])
       simp_all
qed

lemma value_type_wire [simp]: "value_type_from_wire (value_type_to_wire vt) = Ok vt"
  by (cases vt) (simp_all add: value_type_from_wire_def)

lemma value_type_wire_bound: "value_type_to_wire vt < 2 ^ 32"
  by (cases vt) simp_all

lemma unat_bounds:
  "unat (a :: 8 word) < 256 ^ 1" "unat (b :: 16 word) < 256 ^ 2" "unat (c :: 32 word) < 256 ^ 4"
  "unat (d :: 64 word) < 256 ^ 8"
  by (rule order_less_le_trans [OF unsigned_less], simp)+

lemma reads_scalar:
  assumes "type_of_value v \<noteq> TArray" and "wf_value lim d v"
  shows "reads (read_scalar lim (type_of_value v)) (enc_value v) v"
proof -
  have bool: "reads (rbind (read_uint 1) (\<lambda>n. rret (VBool (n \<noteq> 0)))) (le_bytes 1 (if b then 1 else 0)) (VBool b)"
    for b by (rule reads_word) simp_all
  have str: "wf_string lim s \<Longrightarrow> reads (rbind (read_string lim) (\<lambda>s. rret (VString s))) (enc_string s) (VString s)"
    for s by (rule reads_bind_last [OF reads_string reads_ret])
  show ?thesis
    by (insert assms, cases v; simp only: read_scalar_def type_of_value.simps value_type.case enc_value.simps
        wf_value.simps bool str; (rule reads_word [OF unat_bounds(1)] reads_word [OF unat_bounds(2)]
          reads_word [OF unat_bounds(3)] reads_word [OF unat_bounds(4)])?; simp)
qed

lemma reads_array:
  assumes "length vs < 2 ^ 64" and "alloc_ok lim ArrayValues (length vs)"
    and "\<And>v. v \<in> set vs \<Longrightarrow> reads (rv (elem_type vs)) (enc_value v) v"
  shows "reads (read_array lim rv) (enc_value (VArray vs)) (VArray vs)"
  unfolding read_array_def enc_value.simps
  by (intro reads_bind [OF reads_uints(3)] reads_bind_nil [OF reads_lift] reads_bind [OF reads_uints(4)]
        reads_bind_nil [OF reads_alloc] reads_bind_last [OF reads_repeat] reads_ret)
     (simp_all only: value_type_wire value_type_wire_bound assms(1,2), rule assms(3))

lemma reads_value:
  "wf_value lim d v \<Longrightarrow> reads (read_value d lim (type_of_value v)) (enc_value v) v"
proof (induction d arbitrary: v)
  case 0
  then have "type_of_value v \<noteq> TArray" by (cases v) simp_all
  then show ?case using reads_scalar 0 by simp
next
  case (Suc d)
  show ?case
  proof (cases "type_of_value v = TArray")
    case True
    then obtain vs where v: "v = VArray vs" by (cases v) simp_all
    have "reads (read_array lim (read_value d lim)) (enc_value (VArray vs)) (VArray vs)"
    proof (rule reads_array)
      show "reads (read_value d lim (elem_type vs)) (enc_value x) x" if "x \<in> set vs" for x
        using Suc.IH [of x] Suc.prems that by (simp add: v)
    qed (use Suc.prems in \<open>simp_all add: v\<close>)
    then show ?thesis by (simp add: v del: enc_value.simps)
  next
    case False
    then show ?thesis using reads_scalar Suc.prems by simp
  qed
qed

lemma reads_kv: "wf_kv lim kv \<Longrightarrow> reads (read_kv lim) (enc_kv kv) kv"
  unfolding read_kv_def enc_kv_def wf_kv_def
  by (intro reads_bind [OF reads_string] reads_bind [OF reads_uints(3)]
        reads_bind_nil [OF reads_lift [OF value_type_wire]] reads_bind_last [OF reads_value])
     (simp_all add: value_type_wire_bound [simplified] reads_ret del: wf_value.simps)

lemma reads_tensor:
  assumes "wf_tensor lim i"
  shows "reads (read_tensor_info lim) (enc_tensor i) i"
proof -
  have w: "dtype_to_wire (ti_dtype i) < 2 ^ 32"
    using to_wire_bound [of "ti_dtype i"] by simp
  have dims: "reads (repeat_read (length (ti_dims i)) (read_uint 8))
      (concat (map (le_bytes 8) (rev (ti_dims i)))) (rev (ti_dims i))"
    using reads_repeat [of "rev (ti_dims i)" "read_uint 8" "le_bytes 8"] reads_uints(4) assms
    by (simp add: wf_tensor_def)
  have eq: "\<lparr>ti_name = ti_name i, ti_dtype = ti_dtype i, ti_dims = ti_dims i,
      ti_rel_offset = ti_rel_offset i, ti_split_idx = 0\<rparr> = i"
    using assms by (cases i) (simp add: wf_tensor_def)
  have dt: "map_err DTypeErr (dtype_from_wire (dtype_to_wire (ti_dtype i))) = Ok (ti_dtype i)"
    by simp
  show ?thesis
    unfolding read_tensor_info_def enc_tensor_def
    using assms w
    by (intro reads_bind [OF reads_string] reads_bind [OF reads_uints(3)] reads_bind_nil [OF reads_alloc]
          reads_bind [OF dims] reads_bind_nil [OF reads_lift [OF dt]] reads_bind_last [OF reads_uints(4)])
       (simp_all add: wf_tensor_def eq reads_ret)
qed

lemma reads_index:
  assumes "wf_header lim kvs infos"
  shows "reads (read_index lim) (enc_header v kvs infos) (v, insert_kvs kvs, infos)"
proof -
  have v: "version_of (version_wire v) = Ok v" "version_wire v < 2 ^ 32" "magic_gguf < 2 ^ 32"
    by (cases v; simp add: version_of_def magic_gguf_def)+
  have kvs: "reads (repeat_read (length kvs) (read_kv lim)) (concat (map enc_kv kvs)) kvs"
    using assms by (intro reads_repeat reads_kv) (auto simp: wf_header_def list_all_iff)
  have infos: "reads (repeat_read (length infos) (read_tensor_info lim)) (concat (map enc_tensor infos)) infos"
    using assms by (intro reads_repeat reads_tensor) (auto simp: wf_header_def list_all_iff)
  have magic: "(if magic_gguf \<noteq> magic_gguf then Err (BadMagic magic_gguf) else Ok ()) = Ok ()"
    by simp
  show ?thesis
    unfolding read_index_def enc_header_def
    using assms v
    by (intro reads_bind [OF reads_uints(3)] reads_bind_nil [OF reads_lift [OF magic]]
          reads_bind_nil [OF reads_lift [OF v(1)]] reads_bind [OF reads_uints(4)]
          reads_bind_nil [OF reads_alloc] reads_bind [OF kvs] reads_bind_last [OF infos])
       (simp_all add: wf_header_def reads_ret)
qed

lemma gguf_header_ok:
  assumes "wf_header lim kvs infos" and "alignment_of (insert_kvs kvs) \<noteq> 0"
  shows "parse_gguf_header lim (enc_header v kvs infos @ payload) = Ok
    \<lparr>ph_version = v, ph_metadata = insert_kvs kvs,
     ph_tensors = insert_kvs (map (\<lambda>i. (ti_name i, i)) infos), ph_order = map ti_name infos,
     ph_data_offset = div_ceil (length (enc_header v kvs infos)) (alignment_of (insert_kvs kvs))
       * alignment_of (insert_kvs kvs)\<rparr>"
  using reads_index [OF assms(1), of v] assms(2)
  by (simp add: reads_def parse_gguf_header_def Let_def)

definition no_limits :: limits where
  "no_limits = \<lparr>alloc_ok = \<lambda>_ _. True, stack_depth = Suc (Suc 0)\<rparr>"

definition demo_info :: tensor_info where
  "demo_info = \<lparr>ti_name = ascii ''w'', ti_dtype = Q8_0, ti_dims = [2, 64], ti_rel_offset = 0,
     ti_split_idx = 0\<rparr>"

definition demo_kvs :: "(octets \<times> gvalue) list" where
  "demo_kvs = [(ascii ''general.alignment'', VU32 64), (ascii ''t'', VArray [VArray [VBool True], VArray []])]"

subsection \<open>Properties\<close>

text \<open>
  C11: The parser inverts the format. For every version, metadata list and tensor list that can be
  written, whatever bytes follow the header, the parser returns that version, the metadata with a
  later duplicate key replacing an earlier one, the tensors with their dimensions outer-major in the
  order written, and as data offset the end of the header rounded up to the alignment.
\<close>

theorem gguf_header_roundtrip:
  assumes "wf_header lim kvs infos" and "alignment_of (insert_kvs kvs) \<noteq> 0"
  shows "parse_gguf_header lim (enc_header v kvs infos @ payload) = Ok
    \<lparr>ph_version = v, ph_metadata = insert_kvs kvs,
     ph_tensors = insert_kvs (map (\<lambda>i. (ti_name i, i)) infos), ph_order = map ti_name infos,
     ph_data_offset = div_ceil (length (enc_header v kvs infos)) (alignment_of (insert_kvs kvs))
       * alignment_of (insert_kvs kvs)\<rparr>"
  using assms by (rule gguf_header_ok)

theorem gguf_header_roundtrip_witness:
  "\<exists>h. parse_gguf_header no_limits (enc_header V3 demo_kvs [demo_info] @ [1, 2, 3]) = Ok h
    \<and> ph_order h = [ascii ''w''] \<and> 64 dvd ph_data_offset h"
proof -
  have str: "wf_string no_limits (ascii ''w'')" "wf_string no_limits (ascii ''t'')"
    "wf_string no_limits (ascii ''general.alignment'')"
    by (simp_all add: wf_string_def no_limits_def ascii_def)
  have wf: "wf_header no_limits demo_kvs [demo_info]"
    by (simp add: wf_header_def wf_kv_def wf_tensor_def demo_kvs_def demo_info_def str)
       (simp add: no_limits_def elem_type_def)
  have al: "alignment_of (insert_kvs demo_kvs) = 64" by code_simp
  then have "alignment_of (insert_kvs demo_kvs) \<noteq> 0" by simp
  from gguf_header_roundtrip [OF wf this, of V3 "[1, 2, 3]"] show ?thesis
    by (simp add: al demo_info_def)
qed

end
