(* ===== verification/Gguf_File.thy ===== *)
theory Gguf_File
  imports Gguf_Parse
begin

section \<open>GGUF files: split parts and tensor payloads\<close>

text \<open>
  \<^verbatim>\<open>GgufFile\<close> of \<^verbatim>\<open>crates/quant/src/gguf.rs\<close>: opening a file with its sibling
  parts, and the zero-copy reads of a tensor's bytes. A path is its directory and its file name, the
  file system a map from paths to contents. The kernel hints (\<^verbatim>\<open>posix_fadvise\<close>,
  \<^verbatim>\<open>munmap\<close>) are left out. Arithmetic on \<^verbatim>\<open>u64\<close> wraps as in the release profile.
\<close>

subsection \<open>Tensor sizes\<close>

definition elem_count :: "tensor_info \<Rightarrow> nat" where
  "elem_count i = fold (\<lambda>d acc. wrap64 (acc * d)) (ti_dims i) 1"

definition info_block_size :: "tensor_info \<Rightarrow> nat" where
  "info_block_size i = dtype_block_size (ti_dtype i)"

definition info_type_size :: "tensor_info \<Rightarrow> nat" where
  "info_type_size i = dtype_type_size (ti_dtype i)"

definition size_in_bytes :: "tensor_info \<Rightarrow> nat" where
  "size_in_bytes i = wrap64 (elem_count i div info_block_size i * info_type_size i)"

subsection \<open>The file\<close>

record split_mmap =
  sp_mmap :: octets
  sp_data_offset :: nat

record gguf_file =
  gf_version :: gguf_version
  gf_metadata :: "(octets \<times> gvalue) list"
  gf_tensors :: "(octets \<times> tensor_info) list"
  gf_order :: "octets list"
  gf_data_offset :: nat
  gf_splits :: "split_mmap list"

type_synonym path = "string \<times> string"

type_synonym file_system = "path \<Rightarrow> octets option"

definition from_mmap :: "limits \<Rightarrow> octets \<Rightarrow> (quant_error, gguf_file) outcome" where
  "from_mmap lim mmap =
     obind (parse_gguf_header lim mmap) (\<lambda>h.
       Ok \<lparr>gf_version = ph_version h, gf_metadata = ph_metadata h, gf_tensors = ph_tensors h,
           gf_order = ph_order h, gf_data_offset = ph_data_offset h,
           gf_splits = [\<lparr>sp_mmap = mmap, sp_data_offset = ph_data_offset h\<rparr>]\<rparr>)"

definition open_one_split ::
    "limits \<Rightarrow> file_system \<Rightarrow> path \<Rightarrow> nat \<Rightarrow> (quant_error, octets \<times> parsed_header) outcome" where
  "open_one_split lim fs p idx =
     obind (opt_err Io (fs p)) (\<lambda>mmap.
     obind (parse_gguf_header lim mmap) (\<lambda>h.
       Ok (mmap, h\<lparr>ph_tensors := map (\<lambda>(k, i). (k, i\<lparr>ti_split_idx := idx\<rparr>)) (ph_tensors h)\<rparr>)))"

subsection \<open>Sibling parts\<close>

definition strip_suffix_str :: "string \<Rightarrow> string \<Rightarrow> string option" where
  "strip_suffix_str suf s =
     (if suffix_of suf s then Some (take (length s - length suf) s) else None)"

definition rsplit_once :: "string \<Rightarrow> string \<Rightarrow> (string \<times> string) option" where
  "rsplit_once pat s =
     (case List.find (\<lambda>i. take (length pat) (drop i s) = pat) (rev [0..<Suc (length s)]) of
        None \<Rightarrow> None
      | Some i \<Rightarrow> Some (take i s, drop (i + length pat) s))"

definition digit_val :: "char \<Rightarrow> nat" where
  "digit_val c = of_char c - 48"

definition dec_val :: "string \<Rightarrow> nat" where
  "dec_val ds = foldl (\<lambda>n c. 10 * n + digit_val c) 0 ds"

text \<open>\<^verbatim>\<open>str::parse::<usize>\<close>: an optional plus sign, digits, no overflow.\<close>

definition parse_usize :: "string \<Rightarrow> nat option" where
  "parse_usize s =
     (let ds = (case s of c # cs \<Rightarrow> if c = CHR ''+'' then cs else s | [] \<Rightarrow> []) in
      if ds \<noteq> [] \<and> list_all is_digit ds \<and> dec_val ds < 2 ^ 64 then Some (dec_val ds) else None)"

definition show_padded :: "nat \<Rightarrow> nat \<Rightarrow> string" where
  "show_padded width n = (let s = show_dec n in replicate (width - length s) CHR ''0'' @ s)"

definition split_sibling_paths :: "path \<Rightarrow> nat \<Rightarrow> path list option" where
  "split_sibling_paths p split_count =
     (case strip_suffix_str ''.gguf'' (snd p) of None \<Rightarrow> None
      | Some stem \<Rightarrow>
     (case rsplit_once ''-of-'' stem of None \<Rightarrow> None
      | Some (prefix, total_str) \<Rightarrow>
     (case rsplit_once ''-'' prefix of None \<Rightarrow> None
      | Some (head, part_str) \<Rightarrow>
     (case parse_usize part_str of None \<Rightarrow> None
      | Some part_num \<Rightarrow>
     (case parse_usize total_str of None \<Rightarrow> None
      | Some tot \<Rightarrow>
          (if part_num \<noteq> 1 \<or> tot \<noteq> split_count then None
           else Some (map (\<lambda>i. (fst p, head @ ''-'' @ show_padded (length part_str) i @ ''-of-'' @ total_str @ ''.gguf''))
                  [1..<Suc tot])))))))"

text \<open>The tensors of one more part, in its order; a name seen before is an error.\<close>

fun merge_names ::
    "nat \<Rightarrow> octets list \<Rightarrow> (octets \<times> tensor_info) list \<Rightarrow> (octets \<times> tensor_info) list \<Rightarrow> octets list
      \<Rightarrow> (quant_error, (octets \<times> tensor_info) list \<times> octets list) outcome" where
  "merge_names idx [] sib tensors order = Ok (tensors, order)"
| "merge_names idx (name # names) sib tensors order =
     (case map_of sib name of
        None \<Rightarrow> merge_names idx names sib tensors order
      | Some info \<Rightarrow>
          (if map_of tensors name \<noteq> None then Err (DuplicateTensor name)
           else merge_names idx names (AList.delete name sib)
                  (AList.update name (info\<lparr>ti_split_idx := idx\<rparr>) tensors) (order @ [name])))"

text \<open>The loop over the further parts; the index is cut to 16 bits.\<close>

fun open_siblings ::
    "limits \<Rightarrow> file_system \<Rightarrow> nat \<Rightarrow> path list
      \<Rightarrow> (octets \<times> tensor_info) list \<Rightarrow> octets list \<Rightarrow> split_mmap list
      \<Rightarrow> (quant_error, (octets \<times> tensor_info) list \<times> octets list \<times> split_mmap list) outcome" where
  "open_siblings lim fs i [] tensors order splits = Ok (tensors, order, splits)"
| "open_siblings lim fs i (p # ps) tensors order splits =
     obind (open_one_split lim fs p (i mod 2 ^ 16)) (\<lambda>(mmap, h).
     obind (merge_names (i mod 2 ^ 16) (ph_order h) (ph_tensors h) tensors order) (\<lambda>(tensors', order').
       open_siblings lim fs (Suc i) ps tensors' order'
         (splits @ [\<lparr>sp_mmap = mmap, sp_data_offset = ph_data_offset h\<rparr>])))"

definition open_gguf :: "limits \<Rightarrow> file_system \<Rightarrow> path \<Rightarrow> (quant_error, gguf_file) outcome" where
  "open_gguf lim fs p =
     obind (open_one_split lim fs p 0) (\<lambda>(mmap, h).
       let split0 = \<lparr>sp_mmap = mmap, sp_data_offset = ph_data_offset h\<rparr>;
           split_count = (case Option.bind (map_of (ph_metadata h) (ascii ''split.count'')) as_u64 of
                            None \<Rightarrow> 0 | Some n \<Rightarrow> n);
           siblings = (if split_count > 1 then split_sibling_paths p split_count else None) in
       case siblings of
         None \<Rightarrow>
           Ok \<lparr>gf_version = ph_version h, gf_metadata = ph_metadata h, gf_tensors = ph_tensors h,
               gf_order = ph_order h, gf_data_offset = ph_data_offset h, gf_splits = [split0]\<rparr>
       | Some ps \<Rightarrow>
           obind (open_siblings lim fs 1 (drop 1 ps) (ph_tensors h) (ph_order h) [split0])
             (\<lambda>(tensors, order, splits).
           Ok \<lparr>gf_version = ph_version h, gf_metadata = ph_metadata h, gf_tensors = tensors,
               gf_order = order, gf_data_offset = ph_data_offset h, gf_splits = splits\<rparr>))"

subsection \<open>Reading payloads\<close>

definition gf_info :: "gguf_file \<Rightarrow> octets \<Rightarrow> (quant_error, tensor_info) outcome" where
  "gf_info f name = opt_err (UnknownTensor name) (map_of (gf_tensors f) name)"

text \<open>
  The range check against the tensor, then against the mapped part; the slice itself panics when
  its bounds are not in order, which the wrapped end can bring about.
\<close>

definition raw_for :: "gguf_file \<Rightarrow> tensor_info \<Rightarrow> nat \<Rightarrow> nat \<Rightarrow> (quant_error, octets) outcome" where
  "raw_for f info byte_start byte_len =
     (let tot = size_in_bytes info; end = min (byte_start + byte_len) (2 ^ 64 - 1) in
      if end > tot then Err (RangeOutOfBounds (ti_name info) byte_start byte_len tot)
      else if length (gf_splits f) \<le> ti_split_idx info then Panic
      else
        (let split = gf_splits f ! ti_split_idx info;
             abs_start = wrap64 (wrap64 (sp_data_offset split + ti_rel_offset info) + byte_start);
             abs_end = wrap64 (abs_start + byte_len) in
         if abs_end > length (sp_mmap split) then
           Err (RangeOutOfBounds (ti_name info) byte_start byte_len
             (length (sp_mmap split) - wrap64 (sp_data_offset split + ti_rel_offset info)))
         else if abs_start > abs_end then Panic
         else Ok (slice_of (sp_mmap split) abs_start abs_end)))"

definition raw_range :: "gguf_file \<Rightarrow> octets \<Rightarrow> nat \<Rightarrow> nat \<Rightarrow> (quant_error, octets) outcome" where
  "raw_range f name byte_start byte_len =
     obind (gf_info f name) (\<lambda>info. raw_for f info byte_start byte_len)"

definition tensor_raw :: "gguf_file \<Rightarrow> octets \<Rightarrow> (quant_error, octets) outcome" where
  "tensor_raw f name = obind (gf_info f name) (\<lambda>info. raw_for f info 0 (size_in_bytes info))"

definition tensor_row_range_raw ::
    "gguf_file \<Rightarrow> octets \<Rightarrow> nat \<Rightarrow> nat \<Rightarrow> (quant_error, octets) outcome" where
  "tensor_row_range_raw f name row_start row_count =
     obind (gf_info f name) (\<lambda>info.
       if length (ti_dims info) \<noteq> 2 then
         Err (RangeOutOfBounds name row_start row_count (length (ti_dims info)))
       else
         (let rows = ti_dims info ! 0; cols = ti_dims info ! 1; bs = info_block_size info in
          if cols mod bs \<noteq> 0 then
            Err (RangeUnaligned name (dtype_name (ti_dtype info)) (info_type_size info) row_start row_count)
          else if wrap64 (row_start + row_count) > rows then
            Err (RangeOutOfBounds name row_start row_count rows)
          else
            (let bytes_per_row = wrap64 (cols div bs * info_type_size info) in
             raw_range f name (wrap64 (row_start * bytes_per_row)) (wrap64 (row_count * bytes_per_row)))))"

definition tensor_expert_range_raw ::
    "gguf_file \<Rightarrow> octets \<Rightarrow> nat \<Rightarrow> nat \<Rightarrow> (quant_error, octets) outcome" where
  "tensor_expert_range_raw f name e_start e_count =
     obind (gf_info f name) (\<lambda>info.
       if length (ti_dims info) \<noteq> 3 then
         Err (RangeOutOfBounds name e_start e_count (length (ti_dims info)))
       else
         (let e_total = ti_dims info ! 0;
              per_expert_elems = wrap64 (ti_dims info ! 1 * ti_dims info ! 2);
              bs = info_block_size info in
          if per_expert_elems mod bs \<noteq> 0 then
            Err (RangeUnaligned name (dtype_name (ti_dtype info)) (info_type_size info) e_start e_count)
          else if wrap64 (e_start + e_count) > e_total then
            Err (RangeOutOfBounds name e_start e_count e_total)
          else
            (let bytes_per_expert = wrap64 (per_expert_elems div bs * info_type_size info) in
             raw_range f name (wrap64 (e_start * bytes_per_expert)) (wrap64 (e_count * bytes_per_expert)))))"

end
