(* ===== verification/Gguf_Reads.thy ===== *)
theory Gguf_Reads
  imports Gguf_File Gguf_Roundtrip
begin

section \<open>Reading tensors: exactness, bounds and hostile files\<close>

text \<open>
  What the payload reads return on a consistent file, which files make them or the parser panic,
  and the invariant of the tensor index across split parts.
\<close>

subsection \<open>Sizes without overflow\<close>

definition dims_prod :: "nat list \<Rightarrow> nat" where
  "dims_prod ds = prod_list ds"

definition payload_bytes :: "tensor_info \<Rightarrow> nat" where
  "payload_bytes i = dims_prod (ti_dims i) div info_block_size i * info_type_size i"

text \<open>No dimension is zero and no product leaves 64 bits.\<close>

definition sized :: "tensor_info \<Rightarrow> bool" where
  "sized i \<longleftrightarrow> (\<forall>d \<in> set (ti_dims i). 0 < d) \<and> dims_prod (ti_dims i) * info_type_size i < 2 ^ 64"

text \<open>The payload lies in the mapped part.\<close>

definition mapped_in :: "gguf_file \<Rightarrow> tensor_info \<Rightarrow> bool" where
  "mapped_in f i \<longleftrightarrow> ti_split_idx i < length (gf_splits f)
     \<and> (let sp = gf_splits f ! ti_split_idx i in
        sp_data_offset sp + ti_rel_offset i + payload_bytes i \<le> length (sp_mmap sp)
        \<and> length (sp_mmap sp) < 2 ^ 64)"

definition payload :: "gguf_file \<Rightarrow> tensor_info \<Rightarrow> octets" where
  "payload f i =
     (let sp = gf_splits f ! ti_split_idx i; off = sp_data_offset sp + ti_rel_offset i in
      slice_of (sp_mmap sp) off (off + payload_bytes i))"

lemma type_block_pos [simp]: "0 < info_type_size i" "0 < info_block_size i"
  by (simp_all add: info_type_size_def info_block_size_def)

lemma fold_wrap_prod:
  "(\<forall>d \<in> set ds. 0 < d) \<Longrightarrow> a * prod_list ds < 2 ^ 64 \<Longrightarrow>
     fold (\<lambda>d acc. wrap64 (acc * d)) ds a = a * prod_list ds"
proof (induction ds arbitrary: a)
  case (Cons d ds)
  have "0 < prod_list ds" using Cons.prems(1) by (induction ds) auto
  then have "a * d \<le> a * d * prod_list ds" by (rule le_mult_pos)
  also have "a * d * prod_list ds < 2 ^ 64"
    using Cons.prems(2) by (simp only: prod_list.Cons mult.assoc)
  finally have "a * d < 2 ^ 64" .
  then show ?case using Cons by (simp add: mult.assoc)
qed simp

lemma sized_prod: "sized i \<Longrightarrow> dims_prod (ti_dims i) < 2 ^ 64"
proof -
  assume s: "sized i"
  have "dims_prod (ti_dims i) \<le> dims_prod (ti_dims i) * info_type_size i" by (rule le_mult_pos) simp
  with s show ?thesis unfolding sized_def by linarith
qed

lemma elem_count_exact: "sized i \<Longrightarrow> elem_count i = dims_prod (ti_dims i)"
  using fold_wrap_prod [of "ti_dims i" 1] sized_prod [of i]
  by (simp add: elem_count_def sized_def dims_prod_def)

lemma payload_bytes_bound: "sized i \<Longrightarrow> payload_bytes i < 2 ^ 64"
proof -
  assume s: "sized i"
  have "payload_bytes i \<le> dims_prod (ti_dims i) * info_type_size i"
    unfolding payload_bytes_def by (rule mult_right_mono) simp_all
  with s show ?thesis unfolding sized_def by linarith
qed

lemma size_exact: "sized i \<Longrightarrow> size_in_bytes i = payload_bytes i"
  using payload_bytes_bound [of i]
  by (simp add: size_in_bytes_def elem_count_exact payload_bytes_def)

lemma length_payload [simp]: "mapped_in f i \<Longrightarrow> length (payload f i) = payload_bytes i"
  by (simp add: mapped_in_def payload_def Let_def)

lemma raw_for_exact:
  assumes "sized i" and "mapped_in f i" and "a + n \<le> payload_bytes i"
  shows "raw_for f i a n = Ok (slice_of (payload f i) a (a + n))"
proof -
  let ?sp = "gf_splits f ! ti_split_idx i"
  let ?off = "sp_data_offset ?sp + ti_rel_offset i"
  have m: "ti_split_idx i < length (gf_splits f)" "?off + payload_bytes i \<le> length (sp_mmap ?sp)"
    "length (sp_mmap ?sp) < 2 ^ 64"
    using assms(2) by (simp_all add: mapped_in_def Let_def)
  have b: "payload_bytes i < 2 ^ 64" using assms(1) by (rule payload_bytes_bound)
  have w: "wrap64 ?off = ?off" "wrap64 (?off + a) = ?off + a" "wrap64 (?off + a + n) = ?off + a + n"
    using m assms(3) by simp_all
  have e: "min (a + n) (2 ^ 64 - 1) = a + n" using b assms(3) by simp
  have "slice_of (payload f i) a (a + n) = slice_of (sp_mmap ?sp) (?off + a) (?off + a + n)"
    using assms(3) by (simp add: payload_def Let_def slice_of_slice min_def add.assoc)
  then show ?thesis
    using m assms(3) by (simp only: raw_for_def Let_def e w size_exact [OF assms(1)]) simp
qed

lemma tensor_raw_exact:
  assumes "map_of (gf_tensors f) name = Some i" and "sized i" and "mapped_in f i"
  shows "tensor_raw f name = Ok (payload f i)"
  using raw_for_exact [OF assms(2,3), of 0 "payload_bytes i"] assms length_payload [OF assms(3)]
    slice_of_all [of "payload f i"]
  by (simp add: tensor_raw_def gf_info_def size_exact)

text \<open>What a read returns always has the length asked for, on any file.\<close>

lemma raw_for_length:
  assumes "raw_for f i a n = Ok bs" and "n < 2 ^ 64"
  shows "length bs = n"
proof -
  let ?sp = "gf_splits f ! ti_split_idx i"
  define s where "s = wrap64 (wrap64 (sp_data_offset ?sp + ti_rel_offset i) + a)"
  have bs: "bs = slice_of (sp_mmap ?sp) s (wrap64 (s + n))" "wrap64 (s + n) \<le> length (sp_mmap ?sp)"
    "s \<le> wrap64 (s + n)"
    using assms(1) by (auto simp: raw_for_def Let_def s_def split: if_splits)
  have "s < 2 ^ 64" by (simp add: s_def)
  have "wrap64 (s + n) = s + n"
  proof (cases "s + n < 2 ^ 64")
    case False
    then have "wrap64 (s + n) = s + n - 2 ^ 64"
      using \<open>s < 2 ^ 64\<close> assms(2) by (simp add: wrap64_def mod_if)
    then show ?thesis using bs(3) False assms(2) by simp
  qed simp
  then show ?thesis using bs by simp
qed

text \<open>Rows of a two-dimensional tensor.\<close>

definition row_bytes :: "tensor_info \<Rightarrow> nat" where
  "row_bytes i = ti_dims i ! 1 div info_block_size i * info_type_size i"

lemma payload_rows:
  assumes "length (ti_dims i) = 2" and "info_block_size i dvd ti_dims i ! 1"
  shows "payload_bytes i = ti_dims i ! 0 * row_bytes i"
proof -
  obtain a b where d: "ti_dims i = [a, b]"
    using assms(1) by (auto simp: length_Suc_conv numeral_2_eq_2)
  have "a * b div info_block_size i = a * (b div info_block_size i)"
    using assms(2) by (simp add: d div_mult_swap)
  then show ?thesis by (simp add: payload_bytes_def dims_prod_def row_bytes_def d)
qed

lemma row_range_exact:
  assumes "map_of (gf_tensors f) name = Some i" and "sized i" and "mapped_in f i"
    and "length (ti_dims i) = 2" and "info_block_size i dvd ti_dims i ! 1"
    and "a + n \<le> ti_dims i ! 0"
  shows "tensor_row_range_raw f name a n =
    Ok (slice_of (payload f i) (a * row_bytes i) ((a + n) * row_bytes i))"
proof -
  have pb: "payload_bytes i = ti_dims i ! 0 * row_bytes i"
    by (rule payload_rows [OF assms(4,5)])
  have le: "a * row_bytes i + n * row_bytes i \<le> payload_bytes i"
    using assms(6) by (simp add: pb flip: add_mult_distrib)
  have lt: "payload_bytes i < 2 ^ 64" by (rule payload_bytes_bound [OF assms(2)])
  obtain r b where d: "ti_dims i = [r, b]"
    using assms(4) by (auto simp: length_Suc_conv numeral_2_eq_2)
  have pos: "0 < r" "0 < b" using assms(2) by (auto simp: sized_def d)
  have rb: "row_bytes i \<le> payload_bytes i" using pos by (simp add: pb d)
  have "r * b < 2 ^ 64" using sized_prod [OF assms(2)] by (simp add: d dims_prod_def)
  moreover have "r \<le> r * b" by (rule le_mult_pos [OF pos(2)])
  moreover have "a + n \<le> r" using assms(6) by (simp add: d)
  ultimately have "a + n < 2 ^ 64" by linarith
  then have w: "wrap64 (a + n) = a + n" "wrap64 (row_bytes i) = row_bytes i"
    "wrap64 (a * row_bytes i) = a * row_bytes i" "wrap64 (n * row_bytes i) = n * row_bytes i"
    using le lt rb by (simp_all)
  have "raw_for f i (a * row_bytes i) (n * row_bytes i) =
      Ok (slice_of (payload f i) (a * row_bytes i) ((a + n) * row_bytes i))"
    using raw_for_exact [OF assms(2,3) le] by (simp add: add_mult_distrib)
  moreover have "ti_dims i ! Suc 0 div info_block_size i * info_type_size i = row_bytes i"
    by (simp add: row_bytes_def)
  ultimately show ?thesis
    using assms(1,4,5,6) w
    by (simp add: tensor_row_range_raw_def gf_info_def raw_range_def Let_def dvd_eq_mod_eq_0)
qed

subsection \<open>The tensor index of an opened file\<close>

text \<open>
  Every indexed tensor is in the declaration order and the other way round, and its split index
  names one of the parts that were mapped.
\<close>

definition index_ok :: "(octets \<times> tensor_info) list \<Rightarrow> octets list \<Rightarrow> nat \<Rightarrow> bool" where
  "index_ok tensors order n \<longleftrightarrow>
     (\<forall>name. name \<in> set order \<longleftrightarrow> map_of tensors name \<noteq> None)
     \<and> (\<forall>name i. map_of tensors name = Some i \<longrightarrow> ti_split_idx i < n)"

lemma map_of_insert_kvs:
  "map_of (insert_kvs kvs) = (\<lambda>k. map_of (rev kvs) k)"
proof -
  have "map_of (fold (\<lambda>(k, v) m. AList.update k v m) kvs al) k =
      (case map_of (rev kvs) k of None \<Rightarrow> map_of al k | Some v \<Rightarrow> Some v)" for al k
    by (induction kvs arbitrary: al) (auto simp: update_conv' map_add_def split: option.splits)
  then show ?thesis by (auto simp: insert_kvs_def fun_eq_iff split: option.split)
qed

lemma parsed_index:
  assumes "parse_gguf_header lim mmap = Ok h"
  shows "name \<in> set (ph_order h) \<longleftrightarrow> map_of (ph_tensors h) name \<noteq> None"
proof -
  obtain infos where "ph_order h = map ti_name infos"
    "ph_tensors h = insert_kvs (map (\<lambda>i. (ti_name i, i)) infos)"
    using assms by (auto simp: parse_gguf_header_def obind_Ok_iff Let_def split: if_splits)
  then show ?thesis
    by (auto simp: map_of_insert_kvs map_of_eq_None_iff rev_map image_image)
qed

lemma map_of_map_snd: "map_of (map (\<lambda>(k, v). (k, f v)) al) k = map_option f (map_of al k)"
  by (induction al) auto

lemma open_one_index:
  assumes "open_one_split lim fs p idx = Ok (mmap, h)" and "idx < n"
  shows "index_ok (ph_tensors h) (ph_order h) n"
  using assms parsed_index
  by (force simp: open_one_split_def obind_Ok_iff index_ok_def map_of_map_snd)

lemma index_ok_mono: "index_ok ts order n \<Longrightarrow> n \<le> m \<Longrightarrow> index_ok ts order m"
  by (force simp: index_ok_def)

lemma merge_names_index:
  "merge_names idx names sib ts order = Ok (ts', order') \<Longrightarrow> index_ok ts order n \<Longrightarrow> idx < n \<Longrightarrow>
     index_ok ts' order' n"
proof (induction idx names sib ts order rule: merge_names.induct)
  case (2 idx name names sib ts order)
  show ?case
  proof (cases "map_of sib name")
    case None
    then show ?thesis using 2 by simp
  next
    case (Some info)
    then have new: "map_of ts name = None"
      using "2.prems"(1) by (simp split: if_splits)
    have "index_ok (AList.update name (info\<lparr>ti_split_idx := idx\<rparr>) ts) (order @ [name]) n"
      using "2.prems"(2,3) by (auto simp: index_ok_def update_conv')
    then show ?thesis
      using "2.IH"(2) [OF Some] new "2.prems"(1,3) Some by simp
  qed
qed simp

lemma open_siblings_index:
  "open_siblings lim fs i ps ts order sps = Ok (ts', order', sps') \<Longrightarrow> index_ok ts order (length sps) \<Longrightarrow>
     i = length sps \<Longrightarrow> index_ok ts' order' (length sps')"
proof (induction lim fs i ps ts order sps rule: open_siblings.induct)
  case (2 lim fs i p ps ts order sps)
  obtain mmap h ts1 order1 where st:
    "open_one_split lim fs p (i mod 2 ^ 16) = Ok (mmap, h)"
    "merge_names (i mod 2 ^ 16) (ph_order h) (ph_tensors h) ts order = Ok (ts1, order1)"
    "open_siblings lim fs (Suc i) ps ts1 order1
       (sps @ [\<lparr>sp_mmap = mmap, sp_data_offset = ph_data_offset h\<rparr>]) = Ok (ts', order', sps')"
    using "2.prems"(1) by (auto simp: obind_Ok_iff)
  have "i mod 2 ^ 16 < Suc (length sps)"
    using "2.prems"(3) mod_less_eq_dividend [of i "2 ^ 16"] by simp
  then have "index_ok ts1 order1 (Suc (length sps))"
    using merge_names_index [OF st(2)] index_ok_mono [OF "2.prems"(2)] by simp
  then show ?case
    using "2.IH" [OF st(1) _ st(2) _ st(3)] "2.prems"(3) by simp
qed simp

lemma open_index:
  assumes "open_gguf lim fs p = Ok f"
  shows "index_ok (gf_tensors f) (gf_order f) (length (gf_splits f))"
proof -
  obtain mmap h where o: "open_one_split lim fs p 0 = Ok (mmap, h)"
    using assms by (auto simp: open_gguf_def obind_Ok_iff)
  then have ok: "index_ok (ph_tensors h) (ph_order h) (length [\<lparr>sp_mmap = mmap, sp_data_offset = ph_data_offset h\<rparr>])"
    using open_one_index by simp
  show ?thesis
    using assms ok
    by (auto simp: open_gguf_def o Let_def obind_Ok_iff split: option.splits dest!: open_siblings_index)
qed

subsection \<open>Properties\<close>

text \<open>
  C14: Tensor reads are exact. For an indexed tensor whose dimensions are positive, whose size fits
  64 bits and whose payload lies in its mapped part, \<^verbatim>\<open>tensor_raw\<close> returns exactly
  the payload's bytes, and for a two-dimensional tensor with block-aligned rows every row range
  within the tensor returns exactly those rows of it.
\<close>

theorem gguf_reads_exact:
  assumes "map_of (gf_tensors f) name = Some i" and "sized i" and "mapped_in f i"
  shows "tensor_raw f name = Ok (payload f i)
    \<and> (length (ti_dims i) = 2 \<longrightarrow> info_block_size i dvd ti_dims i ! 1 \<longrightarrow>
        (\<forall>a n. a + n \<le> ti_dims i ! 0 \<longrightarrow>
          tensor_row_range_raw f name a n =
            Ok (slice_of (payload f i) (a * row_bytes i) ((a + n) * row_bytes i))))"
  using tensor_raw_exact [OF assms] row_range_exact [OF assms] by simp

definition demo_file :: gguf_file where
  "demo_file = \<lparr>gf_version = V3, gf_metadata = [], gf_tensors = [(ascii ''w'', demo_info)],
     gf_order = [ascii ''w''], gf_data_offset = 4,
     gf_splits = [\<lparr>sp_mmap = [1, 2, 3, 4] @ replicate 68 5 @ replicate 68 6, sp_data_offset = 4\<rparr>]\<rparr>"

lemma demo_file_ok:
  "map_of (gf_tensors demo_file) (ascii ''w'') = Some demo_info"
  "sized demo_info" "mapped_in demo_file demo_info"
  by (simp_all add: demo_file_def demo_info_def sized_def mapped_in_def payload_bytes_def dims_prod_def
      info_block_size_def info_type_size_def qk_defs)

theorem gguf_reads_exact_witness:
  "tensor_row_range_raw demo_file (ascii ''w'') 1 1 = Ok (replicate 68 6)"
proof -
  have al: "length (ti_dims demo_info) = 2" "info_block_size demo_info dvd ti_dims demo_info ! 1"
    "1 + 1 \<le> ti_dims demo_info ! 0"
    by (simp_all add: demo_info_def info_block_size_def qk_defs)
  have sl: "slice_of (payload demo_file demo_info) (1 * row_bytes demo_info) ((1 + 1) * row_bytes demo_info)
      = replicate 68 6"
    by code_simp
  show ?thesis
    using gguf_reads_exact [OF demo_file_ok] al sl by (simp del: One_nat_def)
qed

text \<open>
  C15: The index of an opened file is consistent, split or not: a name is in the declaration order
  exactly when it is indexed, and the split index of every tensor names a part that was mapped, so
  that no read panics on it.
\<close>

theorem gguf_open_index_consistent:
  assumes "open_gguf lim fs p = Ok f"
  shows "(\<forall>name. name \<in> set (gf_order f) \<longleftrightarrow> map_of (gf_tensors f) name \<noteq> None)
    \<and> (\<forall>name i. map_of (gf_tensors f) name = Some i \<longrightarrow> ti_split_idx i < length (gf_splits f))"
  using open_index [OF assms] by (simp add: index_ok_def)

definition demo_fs :: file_system where
  "demo_fs = (\<lambda>p. if p = (''/m'', ''w.gguf'') then Some (enc_header V3 [] [demo_info]) else None)"

theorem gguf_open_index_consistent_witness:
  "\<exists>f. open_gguf no_limits demo_fs (''/m'', ''w.gguf'') = Ok f
    \<and> (\<forall>name. name \<in> set (gf_order f) \<longleftrightarrow> map_of (gf_tensors f) name \<noteq> None)"
proof -
  have str: "wf_string no_limits (ascii ''w'')"
    by (simp add: wf_string_def no_limits_def ascii_def)
  have wf: "wf_header no_limits [] [demo_info]"
    by (simp add: wf_header_def wf_tensor_def demo_info_def str) (simp add: no_limits_def)
  have al: "alignment_of (insert_kvs []) = 32"
    by (simp add: alignment_of_def insert_kvs_def default_alignment_def)
  have nz: "alignment_of (insert_kvs []) \<noteq> 0" by (simp add: al)
  obtain h where h: "parse_gguf_header no_limits (enc_header V3 [] [demo_info]) = Ok h"
    "ph_metadata h = []"
    using gguf_header_ok [OF wf nz, of V3 "[]"] by (auto simp: insert_kvs_def)
  then have "\<exists>f. open_gguf no_limits demo_fs (''/m'', ''w.gguf'') = Ok f"
    by (simp add: open_gguf_def open_one_split_def demo_fs_def Let_def)
  then obtain f where f: "open_gguf no_limits demo_fs (''/m'', ''w.gguf'') = Ok f" by blast
  show ?thesis using gguf_open_index_consistent [OF f] f by blast
qed

text \<open>
  A read returns the number of bytes asked for or none, on any file, but the sum of the data
  offset and the tensor's offset is not checked: when it leaves 64 bits the read starts over at the
  beginning of the mapped file and returns header bytes as the tensor's payload.
\<close>

theorem gguf_wrapped_offset_reads_header:
  assumes "map_of (gf_tensors f) name = Some i" and "ti_split_idx i < length (gf_splits f)"
    and "sp_data_offset (gf_splits f ! ti_split_idx i) + ti_rel_offset i = 2 ^ 64 + k"
    and "k + size_in_bytes i \<le> length (sp_mmap (gf_splits f ! ti_split_idx i))"
    and "length (sp_mmap (gf_splits f ! ti_split_idx i)) < 2 ^ 64"
  shows "tensor_raw f name =
    Ok (slice_of (sp_mmap (gf_splits f ! ti_split_idx i)) k (k + size_in_bytes i))"
proof -
  have "wrap64 (2 ^ 64 + k) = k" using assms(4,5) by (simp add: wrap64_def)
  moreover have "wrap64 k = k" "wrap64 (k + size_in_bytes i) = k + size_in_bytes i"
    using assms(4,5) by simp_all
  ultimately show ?thesis
    using assms by (simp add: tensor_raw_def gf_info_def raw_for_def Let_def)
qed

definition hostile_info :: tensor_info where
  "hostile_info = \<lparr>ti_name = ascii ''w'', ti_dtype = F32, ti_dims = [1], ti_rel_offset = 2 ^ 64 - 4,
     ti_split_idx = 0\<rparr>"

theorem gguf_wrapped_offset_reads_header_witness:
  "tensor_raw \<lparr>gf_version = V3, gf_metadata = [], gf_tensors = [(ascii ''w'', hostile_info)],
     gf_order = [ascii ''w''], gf_data_offset = 4,
     gf_splits = [\<lparr>sp_mmap = [1, 2, 3, 4], sp_data_offset = 4\<rparr>]\<rparr> (ascii ''w'') = Ok [1, 2, 3, 4]"
proof -
  let ?f = "\<lparr>gf_version = V3, gf_metadata = [], gf_tensors = [(ascii ''w'', hostile_info)],
     gf_order = [ascii ''w''], gf_data_offset = 4,
     gf_splits = [\<lparr>sp_mmap = [1, 2, 3, 4], sp_data_offset = 4\<rparr>]\<rparr>"
  have size: "size_in_bytes hostile_info = 4"
    by (simp add: size_in_bytes_def elem_count_def hostile_info_def info_block_size_def
        info_type_size_def)
  have hi: "ti_rel_offset hostile_info = 2 ^ 64 - 4" "ti_split_idx hostile_info = 0"
    by (simp_all add: hostile_info_def)
  have "tensor_raw ?f (ascii ''w'') =
      Ok (slice_of (sp_mmap (gf_splits ?f ! ti_split_idx hostile_info)) 0 (0 + size_in_bytes hostile_info))"
    by (rule gguf_wrapped_offset_reads_header) (simp_all add: size hi)
  then show ?thesis by (simp add: size hi slice_of_def)
qed

text \<open>
  Three kinds of header abort the process instead of being reported as malformed: a metadata
  count the allocator does not grant, whatever follows it; a well-formed header whose
  \<^verbatim>\<open>general.alignment\<close> is zero; and an array value nested deeper than the stack holds.
\<close>

theorem gguf_hostile_headers_panic:
  assumes "n < 2 ^ 64" and "m < 2 ^ 64" and "\<not> alloc_ok lim MetadataMap n"
    and "wf_header lim' kvs infos" and "alignment_of (insert_kvs kvs) = 0"
  shows "parse_gguf_header lim
      (le_bytes 4 magic_gguf @ le_bytes 4 (version_wire v) @ le_bytes 8 m @ le_bytes 8 n @ rest) = Panic
    \<and> parse_gguf_header lim' (enc_header v kvs infos @ junk) = Panic
    \<and> read_value 0 lim'' TArray bs = Panic"
proof (intro conjI)
  have v: "version_of (version_wire v) = Ok v" "version_wire v < 2 ^ 32" "magic_gguf < 2 ^ 32"
    by (cases v; simp add: version_of_def magic_gguf_def)+
  have u: "read_uint 4 (le_bytes 4 k @ bs) = Ok (k, bs)" if "k < 2 ^ 32" for k bs
    using reads_uints(3) [OF that] by (simp add: reads_def)
  have u8: "read_uint 8 (le_bytes 8 k @ bs) = Ok (k, bs)" if "k < 2 ^ 64" for k bs
    using reads_uints(4) [OF that] by (simp add: reads_def)
  show "parse_gguf_header lim
      (le_bytes 4 magic_gguf @ le_bytes 4 (version_wire v) @ le_bytes 8 m @ le_bytes 8 n @ rest) = Panic"
    unfolding parse_gguf_header_def read_index_def rbind_def
    using v assms(1-3) by (simp add: u u8 rlift_def ralloc_def del: le_bytes.simps)
  show "parse_gguf_header lim' (enc_header v kvs infos @ junk) = Panic"
    using reads_index [OF assms(4), of v] assms(5)
    by (simp add: reads_def parse_gguf_header_def Let_def)
qed simp

theorem gguf_hostile_headers_panic_witness:
  "parse_gguf_header no_limits (enc_header V3 [(ascii ''general.alignment'', VU32 0)] []) = Panic"
proof -
  have str: "wf_string no_limits (ascii ''general.alignment'')"
    by (simp add: wf_string_def no_limits_def ascii_def)
  have wf: "wf_header no_limits [(ascii ''general.alignment'', VU32 0)] []"
    by (simp add: wf_header_def wf_kv_def str) (simp add: no_limits_def)
  have al: "alignment_of (insert_kvs [(ascii ''general.alignment'', VU32 0)]) = 0"
    by (simp add: alignment_of_def insert_kvs_def)
  show ?thesis
    using gguf_hostile_headers_panic [of 1 0 "no_limits\<lparr>alloc_ok := \<lambda>_ _. False\<rparr>", OF _ _ _ wf al,
        of V3 "[]" "[]"]
    by simp
qed

end
