(* ===== verification/Dequant.thy ===== *)
theory Dequant
  imports Gguf_File Iq_Tables
begin

unbundle bit_operations_syntax

section \<open>Dequantisation\<close>

text \<open>
  \<^verbatim>\<open>crates/quant/src/dequant.rs\<close> over the block layouts of \<^verbatim>\<open>crates/quant/src/blocks.rs\<close>: a block
  is its bytes, a field its slice at the offset of the struct, and each \<^verbatim>\<open>dequant_*\<close> function is the
  list of the elements that it writes for one block. Binary32 arithmetic and the conversions of
  the \<^verbatim>\<open>half\<close> crate are parameters; \<open>qf_dyadic m k\<close> is the literal \<open>m / 2 ^ k\<close>.
\<close>

record 'f quant_floats =
  qf_half :: "16 word \<Rightarrow> 'f"
  qf_bf16 :: "16 word \<Rightarrow> 'f"
  qf_bits :: "32 word \<Rightarrow> 'f"
  qf_dyadic :: "int \<Rightarrow> nat \<Rightarrow> 'f"
  qf_add :: "'f \<Rightarrow> 'f \<Rightarrow> 'f"
  qf_sub :: "'f \<Rightarrow> 'f \<Rightarrow> 'f"
  qf_mul :: "'f \<Rightarrow> 'f \<Rightarrow> 'f"
  qf_neg :: "'f \<Rightarrow> 'f"

text \<open>An integer cast to \<^verbatim>\<open>f32\<close>; the integers here have at most 24 bits.\<close>

definition qf_int :: "('f, 'm) quant_floats_scheme \<Rightarrow> int \<Rightarrow> 'f" where
  "qf_int F n = qf_dyadic F n 0"

definition u16_at :: "octets \<Rightarrow> nat \<Rightarrow> 16 word" where
  "u16_at b i = ucast (b ! i) OR push_bit 8 (ucast (b ! (i + 1)))"

definition u32_at :: "octets \<Rightarrow> nat \<Rightarrow> 32 word" where
  "u32_at b i = ucast (b ! i) OR push_bit 8 (ucast (b ! (i + 1))) OR push_bit 16 (ucast (b ! (i + 2)))
     OR push_bit 24 (ucast (b ! (i + 3)))"

definition half_at :: "('f, 'm) quant_floats_scheme \<Rightarrow> octets \<Rightarrow> nat \<Rightarrow> 'f" where
  "half_at F b i = qf_half F (u16_at b i)"

text \<open>\<^verbatim>\<open>as f32\<close> of an unsigned byte and of a byte read as \<^verbatim>\<open>i8\<close>.\<close>

definition of_u8 :: "('f, 'm) quant_floats_scheme \<Rightarrow> octet \<Rightarrow> 'f" where
  "of_u8 F w = qf_int F (uint w)"

definition of_i8 :: "('f, 'm) quant_floats_scheme \<Rightarrow> octet \<Rightarrow> 'f" where
  "of_i8 F w = qf_int F (sint w)"

subsection \<open>The legacy formats\<close>

definition dequant_q4_0 :: "('f, 'm) quant_floats_scheme \<Rightarrow> octets \<Rightarrow> 'f list" where
  "dequant_q4_0 F b =
     (let d = half_at F b 0; qs = slice_of b 2 18 in
      map (\<lambda>j. qf_mul F (qf_int F (uint (qs ! j AND 0x0F) - 8)) d) [0..<16] @
      map (\<lambda>j. qf_mul F (qf_int F (uint (drop_bit 4 (qs ! j)) - 8)) d) [0..<16])"

definition dequant_q4_1 :: "('f, 'm) quant_floats_scheme \<Rightarrow> octets \<Rightarrow> 'f list" where
  "dequant_q4_1 F b =
     (let d = half_at F b 0; m = half_at F b 2; qs = slice_of b 4 20 in
      map (\<lambda>j. qf_add F (qf_mul F (of_u8 F (qs ! j AND 0x0F)) d) m) [0..<16] @
      map (\<lambda>j. qf_add F (qf_mul F (of_u8 F (drop_bit 4 (qs ! j))) d) m) [0..<16])"

text \<open>The fifth bit of element \<open>j\<close> and of element \<open>j + 16\<close>.\<close>

definition xh_0 :: "32 word \<Rightarrow> nat \<Rightarrow> octet" where
  "xh_0 qh j = ucast (push_bit 4 (drop_bit j qh) AND 0x10)"

definition xh_1 :: "32 word \<Rightarrow> nat \<Rightarrow> octet" where
  "xh_1 qh j = ucast (drop_bit (j + 12) qh AND 0x10)"

definition dequant_q5_0 :: "('f, 'm) quant_floats_scheme \<Rightarrow> octets \<Rightarrow> 'f list" where
  "dequant_q5_0 F b =
     (let d = half_at F b 0; qh = u32_at b 2; qs = slice_of b 6 22 in
      map (\<lambda>j. qf_mul F (qf_int F (uint (qs ! j AND 0x0F OR xh_0 qh j) - 16)) d) [0..<16] @
      map (\<lambda>j. qf_mul F (qf_int F (uint (drop_bit 4 (qs ! j) OR xh_1 qh j) - 16)) d) [0..<16])"

definition dequant_q5_1 :: "('f, 'm) quant_floats_scheme \<Rightarrow> octets \<Rightarrow> 'f list" where
  "dequant_q5_1 F b =
     (let d = half_at F b 0; m = half_at F b 2; qh = u32_at b 4; qs = slice_of b 8 24 in
      map (\<lambda>j. qf_add F (qf_mul F (of_u8 F (qs ! j AND 0x0F OR xh_0 qh j)) d) m) [0..<16] @
      map (\<lambda>j. qf_add F (qf_mul F (of_u8 F (drop_bit 4 (qs ! j) OR xh_1 qh j)) d) m) [0..<16])"

definition dequant_q8_0 :: "('f, 'm) quant_floats_scheme \<Rightarrow> octets \<Rightarrow> 'f list" where
  "dequant_q8_0 F b =
     (let d = half_at F b 0; qs = slice_of b 2 34 in map (\<lambda>j. qf_mul F (of_i8 F (qs ! j)) d) [0..<32])"

definition dequant_q8_1 :: "('f, 'm) quant_floats_scheme \<Rightarrow> octets \<Rightarrow> 'f list" where
  "dequant_q8_1 F b =
     (let d = half_at F b 0; qs = slice_of b 4 36 in map (\<lambda>j. qf_mul F (of_i8 F (qs ! j)) d) [0..<32])"

definition mxfp4_lut :: "('f, 'm) quant_floats_scheme \<Rightarrow> 'f list" where
  "mxfp4_lut F = map (\<lambda>m. qf_dyadic F m 1) [0, 1, 2, 3, 4, 6, 8, 12] @
     qf_neg F (qf_dyadic F 0 1) # map (\<lambda>m. qf_dyadic F m 1) [-1, -2, -3, -4, -6, -8, -12]"

definition dequant_mxfp4 :: "('f, 'm) quant_floats_scheme \<Rightarrow> octets \<Rightarrow> 'f list" where
  "dequant_mxfp4 F b =
     (let e = b ! 0; scale = (if e = 0 then qf_int F 0 else qf_bits F (push_bit 23 (ucast e)));
          nibbles = slice_of b 1 17 in
      map (\<lambda>j. qf_mul F (mxfp4_lut F ! unat (nibbles ! j AND 0x0F)) scale) [0..<16] @
      map (\<lambda>j. qf_mul F (mxfp4_lut F ! unat (drop_bit 4 (nibbles ! j) AND 0x0F)) scale) [0..<16])"

subsection \<open>The K formats\<close>

definition get_scale_min_k4 :: "nat \<Rightarrow> octets \<Rightarrow> octet \<times> octet" where
  "get_scale_min_k4 j q =
     (if j < 4 then (q ! j AND 63, q ! (j + 4) AND 63)
      else (q ! (j + 4) AND 0xF OR push_bit 4 (drop_bit 6 (q ! (j - 4))),
            drop_bit 4 (q ! (j + 4)) OR push_bit 4 (drop_bit 6 (q ! j))))"

definition dequant_q2_k :: "('f, 'm) quant_floats_scheme \<Rightarrow> octets \<Rightarrow> 'f list" where
  "dequant_q2_k F b =
     (let scales = slice_of b 0 16; qs = slice_of b 16 80; d = half_at F b 80; min = half_at F b 82 in
      concat (map (\<lambda>c. concat (map (\<lambda>s. concat (map (\<lambda>h.
        (let sc = scales ! (8 * c + 2 * s + h); dl = qf_mul F d (of_u8 F (sc AND 0xF));
             ml = qf_mul F min (of_u8 F (drop_bit 4 sc)) in
         map (\<lambda>l. qf_sub F (qf_mul F dl (of_u8 F (drop_bit (2 * s) (qs ! (32 * c + 16 * h + l)) AND 3))) ml)
           [0..<16])) [0..<2])) [0..<4])) [0..<2]))"

text \<open>The sixteen 6-bit scales of \<^verbatim>\<open>Q3_K\<close>, unpacked over three 32-bit words.\<close>

definition kmask1 :: "32 word" where "kmask1 = 0x03030303"

definition kmask2 :: "32 word" where "kmask2 = 0x0f0f0f0f"

definition word_bytes :: "32 word \<Rightarrow> octets" where
  "word_bytes w = map (\<lambda>k. ucast (drop_bit (8 * k) w)) [0..<4]"

definition q3_scales :: "octets \<Rightarrow> octets" where
  "q3_scales sc =
     (let a0 = u32_at sc 0; a1 = u32_at sc 4; tmp = u32_at sc 8 in
      concat (map word_bytes
        [(a0 AND kmask2) OR push_bit 4 (tmp AND kmask1),
         (a1 AND kmask2) OR push_bit 4 (drop_bit 2 tmp AND kmask1),
         (drop_bit 4 a0 AND kmask2) OR push_bit 4 (drop_bit 4 tmp AND kmask1),
         (drop_bit 4 a1 AND kmask2) OR push_bit 4 (drop_bit 6 tmp AND kmask1)]))"

definition dequant_q3_k :: "('f, 'm) quant_floats_scheme \<Rightarrow> octets \<Rightarrow> 'f list" where
  "dequant_q3_k F b =
     (let hmask = slice_of b 0 32; qs = slice_of b 32 96; scales = q3_scales (slice_of b 96 108);
          d_all = half_at F b 108 in
      concat (map (\<lambda>blk. concat (map (\<lambda>s. concat (map (\<lambda>h.
        (let dl = qf_mul F d_all (qf_sub F (of_i8 F (scales ! (8 * blk + 2 * s + h))) (qf_int F 32)) in
         map (\<lambda>l.
           (let qi = l + 16 * h; q = qs ! (32 * blk + qi);
                sub = (if hmask ! qi AND push_bit (4 * blk + s) 1 = 0 then 4 else 0) in
            qf_mul F dl (qf_int F (uint (drop_bit (2 * s) q AND 3) - sub))))
           [0..<16])) [0..<2])) [0..<4])) [0..<2]))"

definition dequant_q4_k :: "('f, 'm) quant_floats_scheme \<Rightarrow> octets \<Rightarrow> 'f list" where
  "dequant_q4_k F b =
     (let d = half_at F b 0; min = half_at F b 2; scales = slice_of b 4 16; q = slice_of b 16 144 in
      concat (map (\<lambda>c.
        (let qslice = slice_of q (32 * c) (32 * c + 32);
             (sc1, mn1) = get_scale_min_k4 (2 * c) scales; (sc2, mn2) = get_scale_min_k4 (2 * c + 1) scales;
             d1 = qf_mul F d (of_u8 F sc1); m1 = qf_mul F min (of_u8 F mn1);
             d2 = qf_mul F d (of_u8 F sc2); m2 = qf_mul F min (of_u8 F mn2) in
         map (\<lambda>qb. qf_sub F (qf_mul F d1 (of_u8 F (qb AND 0xF))) m1) qslice @
         map (\<lambda>qb. qf_sub F (qf_mul F d2 (of_u8 F (drop_bit 4 qb))) m2) qslice)) [0..<4]))"

definition dequant_q5_k :: "('f, 'm) quant_floats_scheme \<Rightarrow> octets \<Rightarrow> 'f list" where
  "dequant_q5_k F b =
     (let d = half_at F b 0; min = half_at F b 2; scales = slice_of b 4 16; qh = slice_of b 16 48;
          ql = slice_of b 48 176 in
      concat (map (\<lambda>c.
        (let ql_slice = slice_of ql (32 * c) (32 * c + 32); u1 = push_bit (2 * c) 1; u2 = push_bit (2 * c) 2;
             (sc1, mn1) = get_scale_min_k4 (2 * c) scales; (sc2, mn2) = get_scale_min_k4 (2 * c + 1) scales;
             d1 = qf_mul F d (of_u8 F sc1); m1 = qf_mul F min (of_u8 F mn1);
             d2 = qf_mul F d (of_u8 F sc2); m2 = qf_mul F min (of_u8 F mn2) in
         map (\<lambda>(qlb, qhb). qf_sub F (qf_mul F d1 (qf_add F (of_u8 F (qlb AND 0xF))
             (qf_int F (if qhb AND u1 \<noteq> 0 then 16 else 0)))) m1) (zip ql_slice qh) @
         map (\<lambda>(qlb, qhb). qf_sub F (qf_mul F d2 (qf_add F (of_u8 F (drop_bit 4 qlb))
             (qf_int F (if qhb AND u2 \<noteq> 0 then 16 else 0)))) m2) (zip ql_slice qh))) [0..<4]))"

definition dequant_q6_k :: "('f, 'm) quant_floats_scheme \<Rightarrow> octets \<Rightarrow> 'f list" where
  "dequant_q6_k F b =
     (let d = half_at F b 208; value = (\<lambda>sc q. qf_mul F (qf_mul F d (of_i8 F sc)) (qf_int F (uint q - 32))) in
      concat (map (\<lambda>idx.
        (let sc = slice_of b (192 + 8 * idx) (200 + 8 * idx); ql = slice_of b (64 * idx) (64 * idx + 64);
             qh = slice_of b (128 + 32 * idx) (160 + 32 * idx) in
         map (\<lambda>l. value (sc ! (l div 16)) (ql ! l AND 0xF OR push_bit 4 (qh ! l AND 3))) [0..<32] @
         map (\<lambda>l. value (sc ! (l div 16 + 2)) (ql ! (l + 32) AND 0xF OR push_bit 4 (drop_bit 2 (qh ! l) AND 3))) [0..<32] @
         map (\<lambda>l. value (sc ! (l div 16 + 4)) (drop_bit 4 (ql ! l) OR push_bit 4 (drop_bit 4 (qh ! l) AND 3))) [0..<32] @
         map (\<lambda>l. value (sc ! (l div 16 + 6)) (drop_bit 4 (ql ! (l + 32)) OR push_bit 4 (drop_bit 6 (qh ! l) AND 3)))
           [0..<32])) [0..<2]))"

definition dequant_q8_k :: "('f, 'm) quant_floats_scheme \<Rightarrow> octets \<Rightarrow> 'f list" where
  "dequant_q8_k F b =
     (let d = qf_bits F (u32_at b 0); qs = slice_of b 4 260 in map (\<lambda>j. qf_mul F d (of_i8 F (qs ! j))) [0..<256])"

subsection \<open>The IQ formats\<close>

definition iq1_delta :: "('f, 'm) quant_floats_scheme \<Rightarrow> 'f" where
  "iq1_delta F = qf_dyadic F 1 3"

text \<open>Byte \<open>j\<close> of a codebook word, and its value as \<^verbatim>\<open>i8\<close>.\<close>

definition grid_byte :: "nat \<Rightarrow> nat \<Rightarrow> octet" where
  "grid_byte g j = of_nat (g div 256 ^ j)"

definition kvalue :: "('f, 'm) quant_floats_scheme \<Rightarrow> octet \<Rightarrow> 'f" where
  "kvalue F w = qf_int F (kvalues_iq4nl ! unat w)"

definition sign_of :: "('f, 'm) quant_floats_scheme \<Rightarrow> octet \<Rightarrow> octet \<Rightarrow> 'f" where
  "sign_of F signs mbit = (if signs AND mbit \<noteq> 0 then qf_int F (-1) else qf_int F 1)"

definition kmask_bit :: "nat \<Rightarrow> octet" where
  "kmask_bit j = of_nat (kmask_iq2xs ! j)"

text \<open>The eight elements of a codebook word under a scale and a sign byte.\<close>

definition signed_grid :: "('f, 'm) quant_floats_scheme \<Rightarrow> 'f \<Rightarrow> nat \<Rightarrow> (nat \<Rightarrow> octet) \<Rightarrow> octet \<Rightarrow> nat \<Rightarrow> nat \<Rightarrow> 'f list" where
  "signed_grid F db g mbit signs n k =
     map (\<lambda>j. qf_mul F (qf_mul F db (of_u8 F (grid_byte g j))) (sign_of F signs (mbit (j + k)))) [0..<n]"

definition dequant_iq4_nl :: "('f, 'm) quant_floats_scheme \<Rightarrow> octets \<Rightarrow> 'f list" where
  "dequant_iq4_nl F b =
     (let d = half_at F b 0; qs = slice_of b 2 18 in
      map (\<lambda>j. qf_mul F d (kvalue F (qs ! j AND 0x0F))) [0..<16] @
      map (\<lambda>j. qf_mul F d (kvalue F (drop_bit 4 (qs ! j)))) [0..<16])"

definition dequant_iq4_xs :: "('f, 'm) quant_floats_scheme \<Rightarrow> octets \<Rightarrow> 'f list" where
  "dequant_iq4_xs F b =
     (let d = half_at F b 0; scales_h = u16_at b 2; scales_l = slice_of b 4 8; qs = slice_of b 8 136 in
      concat (map (\<lambda>ib.
        (let l_nib = drop_bit (4 * (ib mod 2)) (scales_l ! (ib div 2)) AND 0x0F;
             h_bits = ucast (drop_bit (2 * ib) scales_h AND 0x03);
             dl = qf_mul F d (qf_int F (uint (l_nib OR push_bit 4 h_bits) - 32));
             qs_sub = slice_of qs (16 * ib) (16 * ib + 16) in
         map (\<lambda>j. qf_mul F dl (kvalue F (qs_sub ! j AND 0x0F))) [0..<16] @
         map (\<lambda>j. qf_mul F dl (kvalue F (drop_bit 4 (qs_sub ! j)))) [0..<16])) [0..<8]))"

definition dequant_iq3_xxs :: "('f, 'm) quant_floats_scheme \<Rightarrow> octets \<Rightarrow> 'f list" where
  "dequant_iq3_xxs F b =
     (let d = half_at F b 0; qs = slice_of b 2 66; scs = slice_of b 66 98 in
      concat (map (\<lambda>ib32.
        (let aux32 = u32_at scs (4 * ib32);
             db = qf_mul F (qf_mul F d (qf_add F (qf_dyadic F 1 1) (qf_int F (uint (drop_bit 28 aux32))))) (qf_dyadic F 1 1) in
         concat (map (\<lambda>l.
           (let signs = of_nat (ksigns_iq2xs ! unat (drop_bit (7 * l) aux32 AND 127));
                g1 = iq3xxs_grid ! unat (qs ! (8 * ib32 + 2 * l)); g2 = iq3xxs_grid ! unat (qs ! (8 * ib32 + 2 * l + 1)) in
            signed_grid F db g1 (\<lambda>j. push_bit j 1) signs 4 0 @ signed_grid F db g2 (\<lambda>j. push_bit j 1) signs 4 4))
           [0..<4]))) [0..<8]))"

text \<open>The 9-bit codebook index: \<open>k\<close> is the number of the byte in its group of eight.\<close>

definition iq3_s_index :: "octet \<Rightarrow> octet \<Rightarrow> nat \<Rightarrow> 32 word" where
  "iq3_s_index q qh k = ucast q OR (push_bit (8 - k) (ucast qh) AND 256)"

definition dequant_iq3_s :: "('f, 'm) quant_floats_scheme \<Rightarrow> octets \<Rightarrow> 'f list" where
  "dequant_iq3_s F b =
     (let d = half_at F b 0; qs = slice_of b 2 66; qh = slice_of b 66 74; sgn = slice_of b 74 106;
          sc = slice_of b 106 110 in
      concat (map (\<lambda>ib32.
        (let sc_byte = sc ! (ib32 div 2); nib = (if even ib32 then sc_byte AND 0x0F else drop_bit 4 sc_byte);
             db = qf_mul F d (qf_add F (qf_int F 1) (qf_mul F (qf_int F 2) (of_u8 F nib))) in
         concat (map (\<lambda>l.
           (let g1 = iq3s_grid ! unat (iq3_s_index (qs ! (8 * ib32 + 2 * l)) (qh ! ib32) (2 * l));
                g2 = iq3s_grid ! unat (iq3_s_index (qs ! (8 * ib32 + 2 * l + 1)) (qh ! ib32) (2 * l + 1));
                signs = sgn ! (4 * ib32 + l) in
            signed_grid F db g1 kmask_bit signs 4 0 @ signed_grid F db g2 kmask_bit signs 4 4)) [0..<4]))) [0..<8]))"

definition dequant_iq2_xxs :: "('f, 'm) quant_floats_scheme \<Rightarrow> octets \<Rightarrow> 'f list" where
  "dequant_iq2_xxs F b =
     (let d = half_at F b 0; qs = slice_of b 2 66 in
      concat (map (\<lambda>ib32.
        (let aux1 = u32_at qs (8 * ib32 + 4);
             db = qf_mul F (qf_mul F d (qf_add F (qf_dyadic F 1 1) (qf_int F (uint (drop_bit 28 aux1))))) (qf_dyadic F 1 2) in
         concat (map (\<lambda>l.
           (let grid = iq2xxs_grid ! unat (word_bytes (u32_at qs (8 * ib32)) ! l);
                signs = of_nat (ksigns_iq2xs ! unat (drop_bit (7 * l) aux1 AND 127)) in
            signed_grid F db grid (\<lambda>j. push_bit j 1) signs 8 0)) [0..<4]))) [0..<8]))"

text \<open>The scale of the \<open>IQ2\<close> formats: half a unit plus a nibble, by a quarter of \<open>d\<close>.\<close>

definition iq2_db :: "('f, 'm) quant_floats_scheme \<Rightarrow> 'f \<Rightarrow> octet \<Rightarrow> 'f" where
  "iq2_db F d nib = qf_mul F (qf_mul F d (qf_add F (qf_dyadic F 1 1) (of_u8 F nib))) (qf_dyadic F 1 2)"

definition dequant_iq2_xs :: "('f, 'm) quant_floats_scheme \<Rightarrow> octets \<Rightarrow> 'f list" where
  "dequant_iq2_xs F b =
     (let d = half_at F b 0 in
      concat (map (\<lambda>p.
        (let sc_byte = b ! (66 + p); db_lo = iq2_db F d (sc_byte AND 0x0F); db_hi = iq2_db F d (drop_bit 4 sc_byte);
             qbase = 2 + 16 * p;
             group = (\<lambda>db base. concat (map (\<lambda>l.
               (let q = u16_at b (base + 2 * l); grid = iq2xs_grid ! unat (q AND 511);
                    signs = of_nat (ksigns_iq2xs ! unat (drop_bit 9 q AND 127)) in
                signed_grid F db grid (\<lambda>j. push_bit j 1) signs 8 0)) [0..<4])) in
         group db_lo qbase @ group db_hi (qbase + 8))) [0..<4]))"

definition iq2_s_index :: "octet \<Rightarrow> octet \<Rightarrow> nat \<Rightarrow> 64 word" where
  "iq2_s_index q qh l = ucast q OR (push_bit (8 - 2 * l) (ucast qh) AND 0x300)"

definition dequant_iq2_s :: "('f, 'm) quant_floats_scheme \<Rightarrow> octets \<Rightarrow> 'f list" where
  "dequant_iq2_s F b =
     (let d = half_at F b 0 in
      concat (map (\<lambda>p.
        (let sc_byte = b ! (74 + p); db_lo = iq2_db F d (sc_byte AND 0x0F); db_hi = iq2_db F d (drop_bit 4 sc_byte);
             group = (\<lambda>db ib32. concat (map (\<lambda>l.
               (let grid = iq2s_grid ! unat (iq2_s_index (b ! (2 + 4 * ib32 + l)) (b ! (66 + ib32)) l);
                    signs = b ! (34 + 4 * ib32 + l) in
                signed_grid F db grid kmask_bit signs 8 0)) [0..<4])) in
         group db_lo (2 * p) @ group db_hi (2 * p + 1))) [0..<4]))"

text \<open>The eight elements of an \<open>IQ1\<close> codebook word, offset by the group's delta.\<close>

definition delta_grid :: "('f, 'm) quant_floats_scheme \<Rightarrow> 'f \<Rightarrow> nat \<Rightarrow> 'f \<Rightarrow> 'f list" where
  "delta_grid F dl g delta = map (\<lambda>j. qf_mul F dl (qf_add F (of_i8 F (grid_byte g j)) delta)) [0..<8]"

definition iq1_scale :: "('f, 'm) quant_floats_scheme \<Rightarrow> 'f \<Rightarrow> 16 word \<Rightarrow> 'f" where
  "iq1_scale F d s = qf_mul F d (qf_add F (qf_mul F (qf_int F 2) (qf_int F (uint (s AND 7)))) (qf_int F 1))"

definition iq1_s_index :: "octet \<Rightarrow> 16 word \<Rightarrow> nat \<Rightarrow> 64 word" where
  "iq1_s_index lo qh l = ucast lo OR push_bit 8 (drop_bit (3 * l) (ucast qh) AND 7)"

definition dequant_iq1_s :: "('f, 'm) quant_floats_scheme \<Rightarrow> octets \<Rightarrow> 'f list" where
  "dequant_iq1_s F b =
     (let d = half_at F b 0 in
      concat (map (\<lambda>ib.
        (let qh = u16_at b (34 + 2 * ib); dl = iq1_scale F d (drop_bit 12 qh);
             delta = (if qh AND 0x8000 \<noteq> 0 then qf_neg F (iq1_delta F) else iq1_delta F) in
         concat (map (\<lambda>l. delta_grid F dl (iq1s_grid ! unat (iq1_s_index (b ! (2 + 4 * ib + l)) qh l)) delta) [0..<4])))
         [0..<8]))"

definition iq1_m_index :: "octet \<Rightarrow> octet \<Rightarrow> nat \<Rightarrow> 64 word" where
  "iq1_m_index qs qh s = ucast qs OR (push_bit s (ucast qh) AND 0x700)"

definition iq1_m_delta :: "('f, 'm) quant_floats_scheme \<Rightarrow> octet \<Rightarrow> octet \<Rightarrow> 'f" where
  "iq1_m_delta F qh mbit = (if qh AND mbit \<noteq> 0 then qf_neg F (iq1_delta F) else iq1_delta F)"

definition dequant_iq1_m :: "('f, 'm) quant_floats_scheme \<Rightarrow> octets \<Rightarrow> 'f list" where
  "dequant_iq1_m F b =
     (let sc = map (\<lambda>k. u16_at b (48 + 2 * k)) [0..<4];
          d = qf_half F (drop_bit 12 (sc ! 0) OR (drop_bit 8 (sc ! 1) AND 0x00f0) OR (drop_bit 4 (sc ! 2) AND 0x0f00)
            OR (sc ! 3 AND 0xf000)) in
      concat (map (\<lambda>ib.
        (let dl1 = iq1_scale F d (drop_bit (6 * (ib mod 2)) (sc ! (ib div 2)));
             dl2 = iq1_scale F d (drop_bit (6 * (ib mod 2) + 3) (sc ! (ib div 2)));
             qh0 = b ! (32 + 2 * ib); qh1 = b ! (32 + 2 * ib + 1);
             part = (\<lambda>dl qh k s mbit. delta_grid F dl (iq1s_grid ! unat (iq1_m_index (b ! (4 * ib + k)) qh s))
               (iq1_m_delta F qh mbit)) in
         part dl1 qh0 0 8 0x08 @ part dl1 qh0 1 4 0x80 @ part dl2 qh1 2 8 0x08 @ part dl2 qh1 3 4 0x80)) [0..<8]))"

subsection \<open>Dispatch\<close>

fun dequant_block :: "('f, 'm) quant_floats_scheme \<Rightarrow> ggml_dtype \<Rightarrow> octets \<Rightarrow> 'f list" where
  "dequant_block F F32 b = [qf_bits F (u32_at b 0)]"
| "dequant_block F F16 b = [half_at F b 0]"
| "dequant_block F BF16 b = [qf_bf16 F (u16_at b 0)]"
| "dequant_block F Q4_0 b = dequant_q4_0 F b"
| "dequant_block F Q4_1 b = dequant_q4_1 F b"
| "dequant_block F Q5_0 b = dequant_q5_0 F b"
| "dequant_block F Q5_1 b = dequant_q5_1 F b"
| "dequant_block F Q8_0 b = dequant_q8_0 F b"
| "dequant_block F Q8_1 b = dequant_q8_1 F b"
| "dequant_block F Q2K b = dequant_q2_k F b"
| "dequant_block F Q3K b = dequant_q3_k F b"
| "dequant_block F Q4K b = dequant_q4_k F b"
| "dequant_block F Q5K b = dequant_q5_k F b"
| "dequant_block F Q6K b = dequant_q6_k F b"
| "dequant_block F Q8K b = dequant_q8_k F b"
| "dequant_block F Mxfp4 b = dequant_mxfp4 F b"
| "dequant_block F Iq4Xs b = dequant_iq4_xs F b"
| "dequant_block F Iq3Xxs b = dequant_iq3_xxs F b"
| "dequant_block F Iq4Nl b = dequant_iq4_nl F b"
| "dequant_block F Iq3S b = dequant_iq3_s F b"
| "dequant_block F Iq2Xxs b = dequant_iq2_xxs F b"
| "dequant_block F Iq2Xs b = dequant_iq2_xs F b"
| "dequant_block F Iq2S b = dequant_iq2_s F b"
| "dequant_block F Iq1S b = dequant_iq1_s F b"
| "dequant_block F Iq1M b = dequant_iq1_m F b"

definition dequantize_into ::
    "('f, 'm) quant_floats_scheme \<Rightarrow> ggml_dtype \<Rightarrow> octets \<Rightarrow> nat \<Rightarrow> (quant_error, 'f list) outcome" where
  "dequantize_into F dtype raw n_elems =
     (let block_size = dtype_block_size dtype; type_size = dtype_type_size dtype in
      if n_elems mod block_size \<noteq> 0 then Err (ElemCountNotDivisible n_elems block_size (dtype_name dtype))
      else
        (let n_blocks = n_elems div block_size; expected_bytes = wrap64 (n_blocks * type_size) in
         if length raw \<noteq> expected_bytes then Err (ByteLenMismatch (length raw) expected_bytes (dtype_name dtype))
         else Ok (concat (map (\<lambda>i. dequant_block F dtype (slice_of raw (i * type_size) ((i + 1) * type_size)))
           [0..<n_blocks]))))"

definition dequantize_to_vec ::
    "('f, 'm) quant_floats_scheme \<Rightarrow> ggml_dtype \<Rightarrow> octets \<Rightarrow> nat \<Rightarrow> (quant_error, 'f list) outcome" where
  "dequantize_to_vec F dtype raw n_elems = dequantize_into F dtype raw n_elems"

text \<open>\<^verbatim>\<open>GgufFile::dequantize_tensor\<close>.\<close>

definition dequantize_tensor ::
    "('f, 'm) quant_floats_scheme \<Rightarrow> gguf_file \<Rightarrow> octets \<Rightarrow> (quant_error, 'f list) outcome" where
  "dequantize_tensor F f name =
     obind (gf_info f name) (\<lambda>info. obind (tensor_raw f name) (\<lambda>raw.
       dequantize_to_vec F (ti_dtype info) raw (elem_count info)))"

end
