(* ===== verification/Quantize.thy ===== *)
theory Quantize
  imports Dequant
begin

section \<open>Quantisation on the host\<close>

text \<open>
  \<^verbatim>\<open>crates/quant/src/quantize_k.rs\<close>: the searches for scales and codes, over the binary32
  operations that they use, and the packing of a super-block. A fixed array is the list of its
  elements, filled in the order of the source; the parallel loop over blocks is a loop.
\<close>

record 'f quantize_floats = "'f quant_floats" +
  qz_div :: "'f \<Rightarrow> 'f \<Rightarrow> 'f"
  qz_abs :: "'f \<Rightarrow> 'f"
  qz_sqrt :: "'f \<Rightarrow> 'f"
  qz_max :: "'f \<Rightarrow> 'f \<Rightarrow> 'f"
  qz_lt :: "'f \<Rightarrow> 'f \<Rightarrow> bool"
  qz_eq :: "'f \<Rightarrow> 'f \<Rightarrow> bool"
  qz_decimal :: "int \<Rightarrow> nat \<Rightarrow> 'f"
  qz_ties_even :: "'f \<Rightarrow> int"
  qz_to_half :: "'f \<Rightarrow> 16 word"

text \<open>
  \<open>qz_decimal m k\<close> is the literal \<open>m / 10 ^ k\<close>; \<open>qz_ties_even\<close> is \<^verbatim>\<open>round_ties_even() as i32\<close>, which
  saturates.
\<close>

definition nearest_int :: "('f, 'm) quantize_floats_scheme \<Rightarrow> 'f \<Rightarrow> int" where
  "nearest_int F x = qz_ties_even F x"

definition clamp_int :: "int \<Rightarrow> int \<Rightarrow> int \<Rightarrow> int" where
  "clamp_int lo hi n = min (max n lo) hi"

text \<open>\<^verbatim>\<open>as u8\<close> of an \<^verbatim>\<open>i32\<close>: the low byte.\<close>

definition as_u8 :: "int \<Rightarrow> octet" where
  "as_u8 n = word_of_int n"

definition group_max_eps :: "('f, 'm) quantize_floats_scheme \<Rightarrow> 'f" where
  "group_max_eps F = qz_decimal F 1 15"

record 'f qkx_knobs =
  kn_rmin :: 'f
  kn_rdelta :: 'f
  kn_nstep :: nat
  kn_use_mad :: bool

subsection \<open>The affine fit\<close>

text \<open>Minimum, maximum, sum of the weights and weighted sum.\<close>

definition qkx_sums :: "('f, 'm) quantize_floats_scheme \<Rightarrow> 'f list \<Rightarrow> 'f list \<Rightarrow> 'f \<times> 'f \<times> 'f \<times> 'f" where
  "qkx_sums F x weights =
     foldl (\<lambda>(mn, mx, sum_w, sum_x) (xi, w).
         (if qz_lt F xi mn then xi else mn, if qz_lt F mx xi then xi else mx,
          qf_add F sum_w w, qf_add F sum_x (qf_mul F w xi)))
       (x ! 0, x ! 0, weights ! 0, qf_mul F (weights ! 0) (x ! 0)) (zip (tl x) (tl weights))"

definition qkx_code :: "('f, 'm) quantize_floats_scheme \<Rightarrow> int \<Rightarrow> 'f \<Rightarrow> 'f \<Rightarrow> 'f \<Rightarrow> octet" where
  "qkx_code F nmax iscale mn xi = as_u8 (clamp_int 0 nmax (nearest_int F (qf_mul F iscale (qf_sub F xi mn))))"

definition qkx_error ::
    "('f, 'm) quantize_floats_scheme \<Rightarrow> bool \<Rightarrow> 'f \<Rightarrow> 'f \<Rightarrow> octet list \<Rightarrow> 'f list \<Rightarrow> 'f list \<Rightarrow> 'f" where
  "qkx_error F use_mad scale mn ls x weights =
     foldl (\<lambda>err (l, xi, w).
         (let diff = qf_sub F (qf_add F (qf_mul F scale (of_u8 F l)) mn) xi;
              diff = (if use_mad then qz_abs F diff else qf_mul F diff diff) in
          qf_add F err (qf_mul F w diff))) (qf_int F 0) (zip ls (zip x weights))"

text \<open>Codes, error, scale and minimum after one refinement.\<close>

definition qkx_refine ::
    "('f, 'm) quantize_floats_scheme \<Rightarrow> int \<Rightarrow> 'f list \<Rightarrow> 'f list \<Rightarrow> 'f qkx_knobs \<Rightarrow> 'f \<Rightarrow> 'f \<Rightarrow> 'f
      \<Rightarrow> octet list \<times> 'f \<times> 'f \<times> 'f \<Rightarrow> nat \<Rightarrow> octet list \<times> 'f \<times> 'f \<times> 'f" where
  "qkx_refine F nmax x weights kn mx sum_w sum_x = (\<lambda>(out_l, best_error, scale, mn) is.
     (let iscale_try = qz_div F (qf_add F (qf_add F (kn_rmin kn) (qf_mul F (kn_rdelta kn) (qf_int F (int is)))) (qf_int F nmax))
            (qf_sub F mx mn);
          aux_l = map (qkx_code F nmax iscale_try mn) x;
          (sum_l, sum_l2, sum_xl) = foldl (\<lambda>(sl, sl2, sxl) (l, xi, w).
             (qf_add F sl (qf_mul F w (of_u8 F l)), qf_add F sl2 (qf_mul F (qf_mul F w (of_u8 F l)) (of_u8 F l)),
              qf_add F sxl (qf_mul F (qf_mul F w (of_u8 F l)) xi)))
            (qf_int F 0, qf_int F 0, qf_int F 0) (zip aux_l (zip x weights));
          d_det = qf_sub F (qf_mul F sum_w sum_l2) (qf_mul F sum_l sum_l) in
      if qz_lt F (qf_int F 0) d_det then
        (let this_scale = qz_div F (qf_sub F (qf_mul F sum_w sum_xl) (qf_mul F sum_x sum_l)) d_det;
             this_min = qz_div F (qf_sub F (qf_mul F sum_l2 sum_x) (qf_mul F sum_l sum_xl)) d_det;
             (this_min, this_scale) =
               (if qz_lt F (qf_int F 0) this_min then (qf_int F 0, qz_div F sum_xl sum_l2) else (this_min, this_scale));
             cur_error = qkx_error F (kn_use_mad kn) this_scale this_min aux_l x weights in
         if qz_lt F cur_error best_error then (aux_l, cur_error, this_scale, this_min)
         else (out_l, best_error, scale, mn))
      else (out_l, best_error, scale, mn)))"

text \<open>The scale, the negated minimum and the codes.\<close>

definition make_qkx2_quants ::
    "('f, 'm) quantize_floats_scheme \<Rightarrow> int \<Rightarrow> 'f list \<Rightarrow> 'f list \<Rightarrow> 'f qkx_knobs \<Rightarrow> 'f \<times> 'f \<times> octet list" where
  "make_qkx2_quants F nmax x weights kn =
     (let (mn, mx, sum_w, sum_x) = qkx_sums F x weights;
          mn = (if qz_lt F (qf_int F 0) mn then qf_int F 0 else mn) in
      if qz_eq F mx mn then (qf_int F 0, qf_neg F mn, map (\<lambda>_. 0) x)
      else
        (let iscale = qz_div F (qf_int F nmax) (qf_sub F mx mn); scale = qz_div F (qf_int F 1) iscale;
             out_l = map (qkx_code F nmax iscale mn) x;
             best_error = qkx_error F (kn_use_mad kn) scale mn out_l x weights in
         if kn_nstep kn < 1 then (scale, qf_neg F mn, out_l)
         else
           (let (out_l, best_error, scale, mn) =
                  foldl (qkx_refine F nmax x weights kn mx sum_w sum_x) (out_l, best_error, scale, mn) [0..<kn_nstep kn + 1] in
            (scale, qf_neg F mn, out_l))))"

subsection \<open>The signed fit\<close>

definition q3_absmax :: "('f, 'm) quantize_floats_scheme \<Rightarrow> 'f list \<Rightarrow> 'f \<times> 'f" where
  "q3_absmax F x = foldl (\<lambda>(mx, amax) v. let ax = qz_abs F v in if qz_lt F amax ax then (v, ax) else (mx, amax))
     (qf_int F 0, qf_int F 0) x"

text \<open>One element of a pass that moves codes while the fit improves.\<close>

definition q3_improve ::
    "('f, 'm) quantize_floats_scheme \<Rightarrow> int \<Rightarrow> 'f list \<Rightarrow> int list \<times> 'f \<times> 'f \<times> nat \<Rightarrow> nat
      \<Rightarrow> int list \<times> 'f \<times> 'f \<times> nat" where
  "q3_improve F nmax x = (\<lambda>(out_l, sumlx, suml2, n_changed) i.
     (let xi = x ! i; w = qf_mul F xi xi; l = qf_int F (out_l ! i);
          slx_base = qf_sub F sumlx (qf_mul F (qf_mul F w xi) l) in
      if qz_lt F (qf_int F 0) slx_base then
        (let sl2_base = qf_sub F suml2 (qf_mul F (qf_mul F w l) l);
             new_l = clamp_int (- nmax) (nmax - 1) (nearest_int F (qz_div F (qf_mul F xi sl2_base) slx_base)) in
         if new_l \<noteq> out_l ! i then
           (let slx = qf_add F slx_base (qf_mul F (qf_mul F w xi) (qf_int F new_l));
                sl2 = qf_add F sl2_base (qf_mul F (qf_mul F w (qf_int F new_l)) (qf_int F new_l)) in
            if qz_lt F (qf_int F 0) sl2 \<and>
               qz_lt F (qf_mul F (qf_mul F sumlx sumlx) sl2) (qf_mul F (qf_mul F slx slx) suml2)
            then (out_l[i := new_l], slx, sl2, n_changed + 1) else (out_l, sumlx, suml2, n_changed))
         else (out_l, sumlx, suml2, n_changed))
      else (out_l, sumlx, suml2, n_changed)))"

text \<open>At most \<open>n\<close> passes, until one changes nothing.\<close>

fun q3_passes ::
    "('f, 'm) quantize_floats_scheme \<Rightarrow> int \<Rightarrow> 'f list \<Rightarrow> nat \<Rightarrow> int list \<times> 'f \<times> 'f \<Rightarrow> int list \<times> 'f \<times> 'f" where
  "q3_passes F nmax x 0 st = st"
| "q3_passes F nmax x (Suc n) (out_l, sumlx, suml2) =
     (let (out_l, sumlx, suml2, n_changed) = foldl (q3_improve F nmax x) (out_l, sumlx, suml2, 0) [0..<length x] in
      if n_changed = 0 then (out_l, sumlx, suml2) else q3_passes F nmax x n (out_l, sumlx, suml2))"

definition make_q3_quants ::
    "('f, 'm) quantize_floats_scheme \<Rightarrow> int \<Rightarrow> 'f list \<Rightarrow> bool \<Rightarrow> 'f \<times> int list" where
  "make_q3_quants F nmax x do_rmse =
     (let (mx, amax) = q3_absmax F x in
      if qz_lt F amax (group_max_eps F) then (qf_int F 0, map (\<lambda>_. 0) x)
      else
        (let iscale = qz_div F (qf_neg F (qf_int F nmax)) mx;
             codes = map (\<lambda>xi. clamp_int (- nmax) (nmax - 1) (nearest_int F (qf_mul F iscale xi))) x in
         if do_rmse then
           (let (sumlx, suml2) = foldl (\<lambda>(slx, sl2) (xi, l). let w = qf_mul F xi xi; lf = qf_int F l in
                  (qf_add F slx (qf_mul F (qf_mul F w xi) lf), qf_add F sl2 (qf_mul F (qf_mul F w lf) lf)))
                  (qf_int F 0, qf_int F 0) (zip x codes);
                (out_l, sumlx, suml2) = q3_passes F nmax x 5 (codes, sumlx, suml2) in
            (if qz_lt F (qf_int F 0) suml2 then qz_div F sumlx suml2 else qf_int F 0, map (\<lambda>l. l + nmax) out_l))
         else (qz_div F (qf_int F 1) iscale, map (\<lambda>l. l + nmax) codes)))"

subsection \<open>Packing a super-block\<close>

definition le_bytes16 :: "16 word \<Rightarrow> octets" where
  "le_bytes16 w = [ucast w, ucast (drop_bit 8 w)]"

definition group_of :: "nat \<Rightarrow> 'a list \<Rightarrow> nat \<Rightarrow> 'a list" where
  "group_of n xs j = slice_of xs (n * j) (n * j + n)"

text \<open>The largest of the values, starting at zero.\<close>

definition max_of :: "('f, 'm) quantize_floats_scheme \<Rightarrow> 'f list \<Rightarrow> 'f" where
  "max_of F = foldl (\<lambda>m v. if qz_lt F m v then v else m) (qf_int F 0)"

definition q4_k_group :: "('f, 'm) quantize_floats_scheme \<Rightarrow> 'f list \<Rightarrow> 'f \<times> 'f \<times> octet list" where
  "q4_k_group F xj =
     (let sum_x2 = foldl (\<lambda>s v. qf_add F s (qf_mul F v v)) (qf_int F 0) xj;
          av_x = qz_sqrt F (qz_div F sum_x2 (qf_int F 32)) in
      make_qkx2_quants F 15 xj (map (\<lambda>v. qf_add F av_x (qz_abs F v)) xj)
        \<lparr>kn_rmin = qf_int F (-1), kn_rdelta = qz_decimal F 1 1, kn_nstep = 20, kn_use_mad = False\<rparr>)"

text \<open>Eight scales and eight minima of six bits in twelve bytes.\<close>

definition pack_scale_min :: "octets \<Rightarrow> nat \<times> octet \<times> octet \<Rightarrow> octets" where
  "pack_scale_min bs = (\<lambda>(j, ls, lm).
     (if j < 4 then bs[j := ls, j + 4 := lm]
      else
        (let bs = bs[j + 4 := (ls AND 0xF) OR push_bit 4 (lm AND 0xF)];
             bs = bs[j - 4 := bs ! (j - 4) OR push_bit 6 (drop_bit 4 ls)] in
         bs[j := bs ! j OR push_bit 6 (drop_bit 4 lm)])))"

definition pack_scales_k4 :: "octet list \<Rightarrow> octet list \<Rightarrow> octets" where
  "pack_scales_k4 ls lm = foldl pack_scale_min (replicate 12 0) (zip [0..<8] (zip ls lm))"

text \<open>The codes of a group under its final scale and minimum; a zero scale keeps the search's.\<close>

definition requantize ::
    "('f, 'm) quantize_floats_scheme \<Rightarrow> int \<Rightarrow> 'f \<Rightarrow> 'f \<Rightarrow> 'f list \<Rightarrow> octet list \<Rightarrow> octet list" where
  "requantize F nmax d dm xj ls =
     (if qz_eq F d (qf_int F 0) then ls
      else map (\<lambda>v. as_u8 (clamp_int 0 nmax (nearest_int F (qz_div F (qf_add F v dm) d)))) xj)"

text \<open>What the quantiser chooses: both factors, the packed scales, and the codes.\<close>

definition q4_k_choice ::
    "('f, 'm) quantize_floats_scheme \<Rightarrow> 'f list \<Rightarrow> 16 word \<times> 16 word \<times> octet list \<times> octet list \<times> octet list" where
  "q4_k_choice F xi =
     (let fits = map (\<lambda>j. q4_k_group F (group_of 32 xi j)) [0..<8];
          max_scale = max_of F (map fst fits); max_min = max_of F (map (fst \<circ> snd) fits);
          inv_scale = (if qz_lt F (qf_int F 0) max_scale then qz_div F (qf_int F 63) max_scale else qf_int F 0);
          inv_min = (if qz_lt F (qf_int F 0) max_min then qz_div F (qf_int F 63) max_min else qf_int F 0);
          ls = map (\<lambda>f. min (as_u8 (nearest_int F (qf_mul F inv_scale (fst f)))) 63) fits;
          lm = map (\<lambda>f. min (as_u8 (nearest_int F (qf_mul F inv_min (fst (snd f))))) 63) fits;
          d_f16 = qz_to_half F (qz_div F max_scale (qf_int F 63));
          dmin_f16 = qz_to_half F (qz_div F max_min (qf_int F 63));
          block_scales = pack_scales_k4 ls lm;
          local_l = concat (map (\<lambda>j. let (sc, m) = get_scale_min_k4 j block_scales in
            requantize F 15 (qf_mul F (qf_half F d_f16) (of_u8 F sc)) (qf_mul F (qf_half F dmin_f16) (of_u8 F m))
              (group_of 32 xi j) (snd (snd (fits ! j)))) [0..<8]) in
      (d_f16, dmin_f16, ls, lm, local_l))"

definition q4_k_nibbles :: "octet list \<Rightarrow> octets" where
  "q4_k_nibbles local_l =
     concat (map (\<lambda>c. map (\<lambda>l. local_l ! (64 * c + l) OR push_bit 4 (local_l ! (64 * c + l + 32))) [0..<32]) [0..<4])"

definition pack_block_q4_k :: "('f, 'm) quantize_floats_scheme \<Rightarrow> 'f list \<Rightarrow> octets" where
  "pack_block_q4_k F xi =
     (let (d_f16, dmin_f16, ls, lm, local_l) = q4_k_choice F xi in
      le_bytes16 d_f16 @ le_bytes16 dmin_f16 @ pack_scales_k4 ls lm @ q4_k_nibbles local_l)"

text \<open>Sixteen scales of six bits in twelve bytes.\<close>

definition pack_q3_scale :: "octets \<Rightarrow> nat \<times> octet \<Rightarrow> octets" where
  "pack_q3_scale bs = (\<lambda>(j, l).
     (let bs = (if j < 8 then bs[j := l AND 0xF] else bs[j - 8 := bs ! (j - 8) OR push_bit 4 (l AND 0xF)]) in
      bs[j mod 4 + 8 := bs ! (j mod 4 + 8) OR push_bit (2 * (j div 4)) (drop_bit 4 l)]))"

definition pack_q3_scales :: "octet list \<Rightarrow> octets" where
  "pack_q3_scales ls = foldl pack_q3_scale (replicate 12 0) (zip [0..<16] ls)"

definition q3_scale_at :: "octets \<Rightarrow> nat \<Rightarrow> octet" where
  "q3_scale_at bs j =
     (let sc_low = (if j < 8 then bs ! j AND 0xF else drop_bit 4 (bs ! (j - 8))) in
      sc_low OR push_bit 4 (drop_bit (2 * (j div 4)) (bs ! (8 + j mod 4)) AND 3))"

definition q3_k_choice ::
    "('f, 'm) quantize_floats_scheme \<Rightarrow> 'f list \<Rightarrow> 16 word \<times> octets \<times> int list" where
  "q3_k_choice F xi =
     (let fits = map (\<lambda>j. make_q3_quants F 4 (group_of 16 xi j) True) [0..<16];
          max_scale = fst (q3_absmax F (map fst fits)); iscale = qz_div F (qf_int F (-32)) max_scale;
          scaled = \<not> qz_eq F max_scale (qf_int F 0);
          block_scales = (if scaled
            then pack_q3_scales (map (\<lambda>f. as_u8 (clamp_int (-32) 31 (nearest_int F (qf_mul F iscale (fst f))) + 32)) fits)
            else replicate 12 0);
          d_f16 = qz_to_half F (if scaled then qz_div F (qf_int F 1) iscale else qf_int F 0);
          local_l = concat (map (\<lambda>j.
            (let d = qf_mul F (qf_half F d_f16) (qf_int F (uint (q3_scale_at block_scales j) - 32)) in
             if qz_eq F d (qf_int F 0) then snd (fits ! j)
             else map (\<lambda>v. clamp_int (-4) 3 (nearest_int F (qz_div F v d)) + 4) (group_of 16 xi j))) [0..<16]) in
      (d_f16, block_scales, local_l))"

text \<open>The third bit of each code goes to the mask, a bit of which serves 32 elements.\<close>

definition q3_mask_step :: "octets \<times> int list \<times> nat \<times> octet \<Rightarrow> int \<Rightarrow> octets \<times> int list \<times> nat \<times> octet" where
  "q3_mask_step = (\<lambda>(hmask, low, m_idx, hm) l.
     (let (hmask, l) = (if l > 3 then (hmask[m_idx := hmask ! m_idx OR hm], l - 4) else (hmask, l));
          (m_idx, hm) = (if m_idx + 1 = 32 then (0, push_bit 1 hm) else (m_idx + 1, hm)) in
      (hmask, low @ [l], m_idx, hm)))"

definition q2_bits :: "octet list \<Rightarrow> octets" where
  "q2_bits local_l =
     concat (map (\<lambda>c. map (\<lambda>l. local_l ! (128 * c + l) OR push_bit 2 (local_l ! (128 * c + l + 32))
       OR push_bit 4 (local_l ! (128 * c + l + 64)) OR push_bit 6 (local_l ! (128 * c + l + 96))) [0..<32]) [0..<2])"

definition pack_block_q3_k :: "('f, 'm) quantize_floats_scheme \<Rightarrow> 'f list \<Rightarrow> octets" where
  "pack_block_q3_k F xi =
     (let (d_f16, block_scales, local_l) = q3_k_choice F xi;
          (hmask, low, m_idx, hm) = foldl q3_mask_step (replicate 32 0, [], 0, 1) local_l in
      hmask @ q2_bits (map as_u8 low) @ block_scales @ le_bytes16 d_f16)"

definition q2_k_choice ::
    "('f, 'm) quantize_floats_scheme \<Rightarrow> 'f list \<Rightarrow> 16 word \<times> 16 word \<times> octets \<times> octet list" where
  "q2_k_choice F xi =
     (let fits = map (\<lambda>j. let xj = group_of 16 xi j in
            make_qkx2_quants F 3 xj (map (qz_abs F) xj)
              \<lparr>kn_rmin = qf_dyadic F (-1) 1, kn_rdelta = qz_decimal F 1 1, kn_nstep = 15, kn_use_mad = True\<rparr>) [0..<16];
          max_scale = max_of F (map fst fits); max_min = max_of F (map (fst \<circ> snd) fits); zero = qf_int F 0;
          iscale = qz_div F (qf_int F 15) max_scale; imin = qz_div F (qf_int F 15) max_min;
          scales = map (\<lambda>f. if qz_lt F zero max_scale then as_u8 (nearest_int F (qf_mul F iscale (fst f))) else 0) fits;
          d_f16 = qz_to_half F (if qz_lt F zero max_scale then qz_div F max_scale (qf_int F 15) else zero);
          block_scales = map (\<lambda>(sc, f). if qz_lt F zero max_min
            then sc OR push_bit 4 (as_u8 (nearest_int F (qf_mul F imin (fst (snd f))))) else sc) (zip scales fits);
          dmin_f16 = qz_to_half F (if qz_lt F zero max_min then qz_div F max_min (qf_int F 15) else zero);
          local_l = concat (map (\<lambda>j.
            requantize F 3 (qf_mul F (qf_half F d_f16) (of_u8 F (block_scales ! j AND 0xF)))
              (qf_mul F (qf_half F dmin_f16) (of_u8 F (drop_bit 4 (block_scales ! j)))) (group_of 16 xi j)
              (snd (snd (fits ! j)))) [0..<16]) in
      (d_f16, dmin_f16, block_scales, local_l))"

definition pack_block_q2_k :: "('f, 'm) quantize_floats_scheme \<Rightarrow> 'f list \<Rightarrow> octets" where
  "pack_block_q2_k F xi =
     (let (d_f16, dmin_f16, block_scales, local_l) = q2_k_choice F xi in
      block_scales @ q2_bits local_l @ le_bytes16 d_f16 @ le_bytes16 dmin_f16)"

definition q8_0_choice :: "('f, 'm) quantize_floats_scheme \<Rightarrow> 'f list \<Rightarrow> 16 word \<times> int list" where
  "q8_0_choice F block_in =
     (let absmax = foldl (qz_max F) (qf_int F 0) (map (qz_abs F) block_in); d = qz_div F absmax (qf_int F 127);
          recip = (if qz_eq F d (qf_int F 0) then qf_int F 0 else qz_div F (qf_int F 1) d) in
      (qz_to_half F d, map (\<lambda>v. clamp_int (-127) 127 (qz_ties_even F (qf_mul F v recip))) block_in))"

definition pack_block_q8_0 :: "('f, 'm) quantize_floats_scheme \<Rightarrow> 'f list \<Rightarrow> octets" where
  "pack_block_q8_0 F block_in = (let (d_f16, q) = q8_0_choice F block_in in le_bytes16 d_f16 @ map as_u8 q)"

subsection \<open>Rows\<close>

text \<open>The blocks are appended to the output; a row that is not a whole number of blocks panics.\<close>

definition quantize_row :: "nat \<Rightarrow> ('f list \<Rightarrow> octets) \<Rightarrow> 'f list \<Rightarrow> octets \<Rightarrow> (unit, octets) outcome" where
  "quantize_row qk pack x out =
     (if length x mod qk \<noteq> 0 then Panic
      else Ok (out @ concat (map (\<lambda>i. pack (group_of qk x i)) [0..<length x div qk])))"

definition quantize_row_q4_k :: "('f, 'm) quantize_floats_scheme \<Rightarrow> 'f list \<Rightarrow> octets \<Rightarrow> (unit, octets) outcome" where
  "quantize_row_q4_k F = quantize_row qk_k (pack_block_q4_k F)"

definition quantize_row_q3_k :: "('f, 'm) quantize_floats_scheme \<Rightarrow> 'f list \<Rightarrow> octets \<Rightarrow> (unit, octets) outcome" where
  "quantize_row_q3_k F = quantize_row qk_k (pack_block_q3_k F)"

definition quantize_row_q2_k :: "('f, 'm) quantize_floats_scheme \<Rightarrow> 'f list \<Rightarrow> octets \<Rightarrow> (unit, octets) outcome" where
  "quantize_row_q2_k F = quantize_row qk_k (pack_block_q2_k F)"

definition quantize_row_q8_0 :: "('f, 'm) quantize_floats_scheme \<Rightarrow> 'f list \<Rightarrow> octets \<Rightarrow> (unit, octets) outcome" where
  "quantize_row_q8_0 F = quantize_row qk8_0 (pack_block_q8_0 F)"

end
