(* ===== verification/Quantize_Bits.thy ===== *)
theory Quantize_Bits
  imports Quantize
begin

unbundle bit_operations_syntax

section \<open>The bit layouts\<close>

text \<open>
  What the dequantisers extract from a byte is what the quantisers put there. A byte of \<open>k\<close> bits is
  one whose bits from \<open>k\<close> on are clear.
\<close>

definition bits_below :: "nat \<Rightarrow> octet \<Rightarrow> bool" where
  "bits_below k w \<longleftrightarrow> take_bit k w = w"

lemma bits_belowD: "bits_below k w \<Longrightarrow> bit w n \<Longrightarrow> n < k"
  by (metis bits_below_def bit_take_bit_iff)

lemma bits_below_int: "0 \<le> n \<Longrightarrow> n < 2 ^ k \<Longrightarrow> bits_below k (as_u8 n)"
  by (simp add: bits_below_def as_u8_def take_bit_of_int take_bit_int_eq_self)

lemma bits_below_zero [simp]: "bits_below k 0"
  by (simp add: bits_below_def)

lemma bits_below_uint: "uint w < 2 ^ k \<Longrightarrow> bits_below k w"
  using bits_below_int [of "uint w" k] by (simp add: as_u8_def)

lemma bits_below_min: "bits_below 6 (min w 63)"
  by (rule bits_below_uint) (simp add: min_def word_le_def)

lemma bits_below_clamp: "hi < 2 ^ k \<Longrightarrow> 0 \<le> hi \<Longrightarrow> bits_below k (as_u8 (clamp_int 0 hi n))"
  by (rule bits_below_int) (simp_all add: clamp_int_def)

declare push_bit_and [simp del] push_bit_or [simp del] drop_bit_and [simp del] drop_bit_or [simp del]

text \<open>The fields of a byte that was put together from small parts.\<close>

lemma and_numeral_bits:
  "bit (w AND 0xF) n \<longleftrightarrow> n < 4 \<and> bit (w :: octet) n" "bit (w AND 3) n \<longleftrightarrow> n < 2 \<and> bit (w :: octet) n"
  "bit (w AND 63) n \<longleftrightarrow> n < 6 \<and> bit (w :: octet) n"
proof -
  have m: "(0xF :: octet) = mask 4" "(3 :: octet) = mask 2" "(63 :: octet) = mask 6"
    by (simp_all add: mask_eq_exp_minus_1)
  show "bit (w AND 0xF) n \<longleftrightarrow> n < 4 \<and> bit w n" "bit (w AND 3) n \<longleftrightarrow> n < 2 \<and> bit w n"
    "bit (w AND 63) n \<longleftrightarrow> n < 6 \<and> bit w n"
    unfolding m by (auto simp: bit_and_iff bit_mask_iff dest: bit_imp_le_length)
qed

lemma bit_octet: "bit (w :: octet) n \<Longrightarrow> n < 8"
  using bit_imp_le_length [of w n] by simp

lemmas byte_bits = bit_or_iff bit_push_bit_iff bit_drop_bit_eq and_numeral_bits

lemma nibbles:
  assumes "bits_below 4 a" and "bits_below 4 b"
  shows "(a OR push_bit 4 b) AND 0xF = a" and "drop_bit 4 (a OR push_bit 4 b) = b"
  by (rule bit_eqI; use assms in \<open>auto simp: byte_bits dest: bits_belowD bit_octet\<close>)+


lemma crumbs:
  assumes "bits_below 2 a" and "bits_below 2 b" and "bits_below 2 c" and "bits_below 2 d"
  defines "w \<equiv> a OR push_bit 2 b OR push_bit 4 c OR push_bit 6 d"
  shows "w AND 3 = a" and "drop_bit 2 w AND 3 = b" and "drop_bit 4 w AND 3 = c" and "drop_bit 6 w AND 3 = d"
  unfolding w_def
  by (rule bit_eqI; use assms(1-4) in \<open>auto simp: byte_bits dest: bits_belowD bit_octet\<close>)+

text \<open>Six bits whole, and two of six bits above them.\<close>

lemma six_two:
  assumes "bits_below 6 a" and "bits_below 6 b"
  shows "(a OR push_bit 6 (drop_bit 4 b)) AND 63 = a" and "drop_bit 6 (a OR push_bit 6 (drop_bit 4 b)) = drop_bit 4 b"
  by (rule bit_eqI; use assms in \<open>auto simp: byte_bits dest: bits_belowD bit_octet\<close>)+

lemma six_split:
  assumes "bits_below 6 a"
  shows "(a AND 0xF) OR push_bit 4 (drop_bit 4 a) = a"
  by (rule bit_eqI) (use assms in \<open>auto simp: byte_bits dest: bits_belowD bit_octet\<close>)

lemma low_nibble: "bits_below 4 (w AND 0xF)"
  unfolding bits_below_def by (rule bit_eqI) (auto simp: bit_take_bit_iff and_numeral_bits dest: bit_octet)

lemma list8:
  assumes "length xs = 8"
  obtains a b c d e f g h where "xs = [a, b, c, d, e, f, g, h]"
  using assms by (auto simp: length_Suc_conv eval_nat_numeral)

lemma scale_min_roundtrip:
  assumes len: "length ls = 8" "length lm = 8" and small: "list_all (bits_below 6) ls" "list_all (bits_below 6) lm"
    and j: "j < 8"
  shows "get_scale_min_k4 j (pack_scales_k4 ls lm) = (ls ! j, lm ! j)"
proof -
  obtain a b c d e f g h where ls: "ls = [a, b, c, d, e, f, g, h]" using len(1) by (rule list8)
  obtain a' b' c' d' e' f' g' h' where lm: "lm = [a', b', c', d', e', f', g', h']" using len(2) by (rule list8)
  have p: "pack_scales_k4 ls lm =
    [a OR push_bit 6 (drop_bit 4 e), b OR push_bit 6 (drop_bit 4 f), c OR push_bit 6 (drop_bit 4 g), d OR push_bit 6 (drop_bit 4 h),
     a' OR push_bit 6 (drop_bit 4 e'), b' OR push_bit 6 (drop_bit 4 f'), c' OR push_bit 6 (drop_bit 4 g'), d' OR push_bit 6 (drop_bit 4 h'),
     (e AND 0xF) OR push_bit 4 (e' AND 0xF), (f AND 0xF) OR push_bit 4 (f' AND 0xF), (g AND 0xF) OR push_bit 4 (g' AND 0xF),
     (h AND 0xF) OR push_bit 4 (h' AND 0xF)]"
    by (simp add: ls lm pack_scales_k4_def pack_scale_min_def upt_rec Let_def eval_nat_numeral)
  have "j \<in> {0, 1, 2, 3, 4, 5, 6, 7}" using j by auto
  then show ?thesis using small unfolding p
    by (elim insertE emptyE) (simp_all add: ls lm get_scale_min_k4_def six_two six_split nibbles low_nibble)
qed


subsection \<open>The scales of \<open>Q3_K\<close>\<close>

lemma bit_u32_at: "m < 32 \<Longrightarrow> bit (u32_at b i) m \<longleftrightarrow> bit (b ! (i + m div 8)) (m mod 8)"
proof -
  assume m: "m < 32"
  then consider "m < 8" | "8 \<le> m" "m < 16" | "16 \<le> m" "m < 24" | "24 \<le> m" "m < 32" by linarith
  then show ?thesis
  proof cases
    case 1
    then show ?thesis by (simp add: u32_at_def bit_or_iff bit_push_bit_iff bit_ucast_iff)
  next
    case 2
    then have "m div 8 = 1" "m mod 8 = m - 8" by presburger+
    with 2 show ?thesis by (auto simp: u32_at_def bit_or_iff bit_push_bit_iff bit_ucast_iff dest: bit_octet)
  next
    case 3
    then have "m div 8 = 2" "m mod 8 = m - 16" by presburger+
    with 3 show ?thesis by (auto simp: u32_at_def bit_or_iff bit_push_bit_iff bit_ucast_iff dest: bit_octet)
  next
    case 4
    then have "m div 8 = 3" "m mod 8 = m - 24" by presburger+
    with 4 show ?thesis by (auto simp: u32_at_def bit_or_iff bit_push_bit_iff bit_ucast_iff dest: bit_octet)
  qed
qed

lemma bit_kmask:
  assumes "k < 4" and "n < 8"
  shows "bit kmask2 (8 * k + n) \<longleftrightarrow> n < 4" and "bit kmask1 (8 * k + n) \<longleftrightarrow> n < 2"
proof -
  have "k \<in> {0, 1, 2, 3}" "n \<in> {0, 1, 2, 3, 4, 5, 6, 7}" using assms by auto
  then show "bit kmask2 (8 * k + n) \<longleftrightarrow> n < 4" "bit kmask1 (8 * k + n) \<longleftrightarrow> n < 2"
    by (auto simp: kmask1_def kmask2_def)
qed

lemma bit_word_byte:
  "k < 4 \<Longrightarrow> bit (word_bytes w ! k) n \<longleftrightarrow> n < 8 \<and> bit w (8 * k + n)"
  by (auto simp: word_bytes_def bit_ucast_iff bit_drop_bit_eq)

lemma byte_of_word: "k < 4 \<Longrightarrow> n < 8 \<Longrightarrow> (8 * k + n) div 8 = k \<and> (8 * k + n) mod 8 = (n::nat)"
  by simp

lemma q3_word:
  assumes k: "k < 4" and s: "s \<le> 6"
  shows "word_bytes ((u32_at sc i AND kmask2) OR push_bit 4 (drop_bit s (u32_at sc 8) AND kmask1)) ! k =
      (sc ! (i + k) AND 0xF) OR push_bit 4 (drop_bit s (sc ! (8 + k)) AND 3)"
    and "word_bytes ((drop_bit 4 (u32_at sc i) AND kmask2) OR push_bit 4 (drop_bit s (u32_at sc 8) AND kmask1)) ! k =
      drop_bit 4 (sc ! (i + k)) OR push_bit 4 (drop_bit s (sc ! (8 + k)) AND 3)"
proof -
  have u: "bit (u32_at sc p) (8 * k + n) \<longleftrightarrow> bit (sc ! (p + k)) n" if "n < 8" for n p
    using bit_u32_at [of "8 * k + n" sc p] k that by simp
  have hi: "bit (drop_bit s (u32_at sc 8) AND kmask1) (8 * k + n) \<longleftrightarrow> n < 2 \<and> bit (sc ! (8 + k)) (s + n)" if "n < 8" for n
  proof -
    have e: "s + (8 * k + n) = 8 * k + (s + n)" by simp
    show ?thesis using bit_kmask(2) [OF k that] u [of "s + n" 8] s
      by (cases "n < 2") (simp_all add: bit_and_iff bit_drop_bit_eq e del: add.assoc)
  qed
  have part: "bit (push_bit 4 (drop_bit s (u32_at sc 8) AND kmask1)) (8 * k + n) \<longleftrightarrow>
      bit (push_bit 4 (drop_bit s (sc ! (8 + k)) AND 3)) n" if n: "n < 8" for n
  proof -
    let ?w = "drop_bit s (u32_at sc 8) AND kmask1"
    have below: "\<not> (4 \<le> 8 * k + n \<and> bit ?w (8 * k + n - 4))" if "n < 4"
    proof (cases k)
      case (Suc k')
      have bits: "8 * k + n - 4 = 8 * k' + (n + 4)" "k' < 4" "n + 4 < 8" using Suc that k by simp_all
      show ?thesis using bit_kmask(2) [OF bits(2,3)] unfolding bits(1) by (simp add: bit_and_iff)
    qed (use that in simp)
    show ?thesis
    proof (cases "n < 4")
      case True
      then show ?thesis using below by (auto simp: bit_push_bit_iff)
    next
      case False
      then have "8 * k + n - 4 = 8 * k + (n - 4)" "n - 4 < 8" using n by simp_all
      then show ?thesis using hi [of "n - 4"] k n False
        by (auto simp: bit_push_bit_iff bit_drop_bit_eq and_numeral_bits)
    qed
  qed
  have low: "bit (u32_at sc i AND kmask2) (8 * k + n) \<longleftrightarrow> n < 4 \<and> bit (sc ! (i + k)) n" if "n < 8" for n
    using u [OF that] bit_kmask(1) [OF k that] by (auto simp: bit_and_iff)
  show "word_bytes ((u32_at sc i AND kmask2) OR push_bit 4 (drop_bit s (u32_at sc 8) AND kmask1)) ! k =
      (sc ! (i + k) AND 0xF) OR push_bit 4 (drop_bit s (sc ! (8 + k)) AND 3)"
    by (rule bit_eqI) (auto simp: bit_word_byte [OF k] bit_or_iff part low and_numeral_bits dest: bit_octet)
  show "word_bytes ((drop_bit 4 (u32_at sc i) AND kmask2) OR push_bit 4 (drop_bit s (u32_at sc 8) AND kmask1)) ! k =
      drop_bit 4 (sc ! (i + k)) OR push_bit 4 (drop_bit s (sc ! (8 + k)) AND 3)"
  proof (rule bit_eqI)
    fix n
    have "bit (drop_bit 4 (u32_at sc i) AND kmask2) (8 * k + n) \<longleftrightarrow> bit (sc ! (i + k)) (4 + n)" if n: "n < 8"
    proof (cases "n < 4")
      case True
      have "bit (u32_at sc i) (4 + (8 * k + n)) = bit (sc ! (i + k)) (4 + n)"
        using u [of "4 + n" i] True by (simp add: add.left_commute)
      then show ?thesis using bit_kmask(1) [OF k n] True by (simp add: bit_and_iff bit_drop_bit_eq)
    next
      case False
      then show ?thesis using bit_kmask(1) [OF k n] bit_octet [of "sc ! (i + k)" "4 + n"] by (auto simp: bit_and_iff)
    qed
    then show "bit (word_bytes ((drop_bit 4 (u32_at sc i) AND kmask2) OR push_bit 4 (drop_bit s (u32_at sc 8) AND kmask1)) ! k) n \<longleftrightarrow>
        bit (drop_bit 4 (sc ! (i + k)) OR push_bit 4 (drop_bit s (sc ! (8 + k)) AND 3)) n"
      using part [of n] bit_octet [of _ n] bit_octet [of _ "4 + n"] by (cases "n < 8") (auto simp: bit_word_byte [OF k] bit_or_iff bit_drop_bit_eq)
  qed
qed


lemma list16:
  assumes "length xs = 16"
  obtains a b c d e f g h a' b' c' d' e' f' g' h' where "xs = [a, b, c, d, e, f, g, h, a', b', c', d', e', f', g', h']"
  using assms by (auto simp: length_Suc_conv eval_nat_numeral)

lemma update_numeral: "(x # xs)[numeral v := y] = x # xs[pred_numeral v := y]"
  by (simp add: numeral_eq_Suc)

text \<open>The packed bytes: nibbles of two scales, and the upper two bits of four.\<close>

lemma pack_q3_scales_bytes:
  assumes "length ls = 16"
  shows "pack_q3_scales ls = map (\<lambda>k. (ls ! k AND 0xF) OR push_bit 4 (ls ! (k + 8) AND 0xF)) [0..<8] @
    map (\<lambda>k. drop_bit 4 (ls ! k) OR push_bit 2 (drop_bit 4 (ls ! (k + 4))) OR push_bit 4 (drop_bit 4 (ls ! (k + 8)))
      OR push_bit 6 (drop_bit 4 (ls ! (k + 12)))) [0..<4]"
proof -
  have "replicate 12 (0 :: octet) = [0, 0, 0, 0, 0, 0, 0, 0, 0, 0, 0, 0]" by (simp add: numeral_eq_Suc)
  then show ?thesis
    using assms by (elim list16) (simp add: pack_q3_scales_def pack_q3_scale_def upt_rec Let_def update_numeral or.assoc)
qed

lemma drop_four: "bits_below 6 a \<Longrightarrow> bits_below 2 (drop_bit 4 a)"
  unfolding bits_below_def by (rule bit_eqI) (auto simp: bit_take_bit_iff bit_drop_bit_eq dest: bits_belowD [unfolded bits_below_def])

lemma word_bytes_eq: "(\<And>k. k < 4 \<Longrightarrow> word_bytes w ! k = f k) \<Longrightarrow> word_bytes w = map f [0..<4]"
  by (rule nth_equalityI) (simp_all add: word_bytes_def)

lemma q3_scales_roundtrip:
  assumes len: "length ls = 16" and small: "list_all (bits_below 6) ls"
  shows "q3_scales (pack_q3_scales ls) = ls" and "j < 16 \<Longrightarrow> q3_scale_at (pack_q3_scales ls) j = ls ! j"
proof -
  have b: "bits_below 6 (ls ! k)" if "k < 16" for k using small len that by (simp add: list_all_length)
  note small' = b six_split [OF b] drop_four [OF b]
  have cr: "bits_below 2 (drop_bit 4 (ls ! k))" if "k < 16" for k using drop_four [OF b [OF that]] .
  let ?p = "pack_q3_scales ls"
  have lo: "?p ! k AND 0xF = ls ! k AND 0xF" "drop_bit 4 (?p ! k) = ls ! (k + 8) AND 0xF" if "k < 8" for k
    using that by (simp_all add: pack_q3_scales_bytes [OF len] nth_append nibbles low_nibble)
  have hi: "?p ! (8 + k) AND 3 = drop_bit 4 (ls ! k)" "drop_bit 2 (?p ! (8 + k)) AND 3 = drop_bit 4 (ls ! (k + 4))"
    "drop_bit 4 (?p ! (8 + k)) AND 3 = drop_bit 4 (ls ! (k + 8))" "drop_bit 6 (?p ! (8 + k)) AND 3 = drop_bit 4 (ls ! (k + 12))"
    if "k < 4" for k using that by (simp_all add: pack_q3_scales_bytes [OF len] nth_append crumbs cr)
  have six: "ls ! k AND 0xF OR push_bit 4 (drop_bit 4 (ls ! k)) = ls ! k" if "k < 16" for k
    using six_split [OF b [OF that]] .
  have w: "word_bytes ((u32_at ?p 0 AND kmask2) OR push_bit 4 (u32_at ?p 8 AND kmask1)) = map (\<lambda>k. ls ! k) [0..<4]"
    "word_bytes ((u32_at ?p 4 AND kmask2) OR push_bit 4 (drop_bit 2 (u32_at ?p 8) AND kmask1)) = map (\<lambda>k. ls ! (k + 4)) [0..<4]"
    "word_bytes ((drop_bit 4 (u32_at ?p 0) AND kmask2) OR push_bit 4 (drop_bit 4 (u32_at ?p 8) AND kmask1)) = map (\<lambda>k. ls ! (k + 8)) [0..<4]"
    "word_bytes ((drop_bit 4 (u32_at ?p 4) AND kmask2) OR push_bit 4 (drop_bit 6 (u32_at ?p 8) AND kmask1)) = map (\<lambda>k. ls ! (k + 12)) [0..<4]"
    using q3_word [where sc = ?p] q3_word(1) [where sc = ?p and s = 0] lo hi six
    by (intro word_bytes_eq; simp add: add.commute)+
  have "q3_scales ?p = map (\<lambda>k. ls ! k) [0..<4] @ map (\<lambda>k. ls ! (k + 4)) [0..<4] @ map (\<lambda>k. ls ! (k + 8)) [0..<4] @
      map (\<lambda>k. ls ! (k + 12)) [0..<4]" unfolding q3_scales_def Let_def by (simp add: w)
  then show "q3_scales ?p = ls" using len by (elim list16) (simp add: upt_rec eval_nat_numeral)
  show "q3_scale_at ?p j = ls ! j" if "j < 16"
  proof -
    have "j \<in> {0, 1, 2, 3, 4, 5, 6, 7, 8, 9, 10, 11, 12, 13, 14, 15}" using that by (simp, presburger)
    then show ?thesis using lo hi [of 0] hi [of 1] hi [of 2] hi [of 3] six
      by (elim insertE emptyE) (simp_all add: q3_scale_at_def)
  qed
qed

end
