(* ===== verification/Quantize_Layout.thy ===== *)
theory Quantize_Layout
  imports Quantize_Bits
begin

unbundle bit_operations_syntax

section \<open>Quantised rows read back\<close>

text \<open>
  The codes and scales that a quantiser chooses fit their fields, and the dequantiser of the same
  format computes each element from exactly these codes and scales.
\<close>

subsection \<open>The codes fit\<close>

lemma qkx_code_bits: "nmax < 2 ^ k \<Longrightarrow> 0 \<le> nmax \<Longrightarrow> bits_below k (qkx_code F nmax iscale mn xi)"
  by (simp add: qkx_code_def bits_below_clamp)

lemma foldl_keeps: "P s \<Longrightarrow> (\<And>s x. P s \<Longrightarrow> P (f s x)) \<Longrightarrow> P (foldl f s xs)"
  by (induction xs arbitrary: s) auto

definition codes_fit :: "nat \<Rightarrow> nat \<Rightarrow> octet list \<Rightarrow> bool" where
  "codes_fit k n ls \<longleftrightarrow> length ls = n \<and> list_all (bits_below k) ls"

lemma map_code_fit:
  "nmax < 2 ^ k \<Longrightarrow> 0 \<le> nmax \<Longrightarrow> codes_fit k (length x) (map (qkx_code F nmax iscale mn) x)"
  by (simp add: codes_fit_def list_all_iff qkx_code_bits)

lemma refine_fit:
  assumes "nmax < 2 ^ k" and "0 \<le> nmax" and "codes_fit k (length x) (fst st)"
  shows "codes_fit k (length x) (fst (qkx_refine F nmax x weights kn mx sum_w sum_x st is))"
  using assms(3) map_code_fit [OF assms(1,2)]
  by (cases st) (auto simp: qkx_refine_def Let_def split: prod.split)

lemma qkx_codes:
  assumes "nmax < 2 ^ k" and "0 \<le> nmax"
  shows "codes_fit k (length x) (snd (snd (make_qkx2_quants F nmax x weights kn)))"
proof -
  have loop: "codes_fit k (length x) (fst (foldl (qkx_refine F nmax x weights kn mx sum_w sum_x) (ls, st) is))"
    if "codes_fit k (length x) ls" for mx sum_w sum_x ls st "is"
    using foldl_keeps [where P = "\<lambda>st. codes_fit k (length x) (fst st)"] refine_fit [OF assms] that by (metis fst_conv)
  have "codes_fit k (length x) (map (\<lambda>_. 0) x)" by (simp add: codes_fit_def list_all_iff)
  then show ?thesis using assms
    by (auto simp: make_qkx2_quants_def Let_def case_prod_beta intro!: refine_fit loop map_code_fit)
qed

lemma requantize_fits:
  assumes "nmax < 2 ^ k" and "0 \<le> nmax" and "codes_fit k (length xj) ls"
  shows "codes_fit k (length xj) (requantize F nmax d dm xj ls)"
  using assms by (simp add: requantize_def codes_fit_def list_all_iff bits_below_clamp)

lemma length_group_of: "n * j + n \<le> length xs \<Longrightarrow> length (group_of n xs j) = n"
  by (simp add: group_of_def)

lemma length_concat_groups: "(\<And>j. j < k \<Longrightarrow> length (f j) = n) \<Longrightarrow> length (concat (map f [0..<k])) = k * n"
  by (induction k) simp_all


lemma concat_fit:
  "(\<And>j. j < m \<Longrightarrow> codes_fit k n (f j)) \<Longrightarrow> codes_fit k (m * n) (concat (map f [0..<m]))"
  by (induction m) (simp_all add: codes_fit_def)

lemma codes_fit_nth: "codes_fit k n ls \<Longrightarrow> i < n \<Longrightarrow> bits_below k (ls ! i)"
  by (simp add: codes_fit_def list_all_length)

lemma q4_k_choice_fits:
  assumes "length xi = 256" and "q4_k_choice F xi = (d, dm, ls, lm, local_l)"
  shows "codes_fit 6 8 ls" and "codes_fit 6 8 lm" and "codes_fit 4 256 local_l"
proof -
  let ?fit = "\<lambda>j. q4_k_group F (group_of 32 xi j)"
  have len: "length (group_of 32 xi j) = 32" if "j < 8" for j using that assms(1) by (intro length_group_of) simp
  have g: "codes_fit 4 32 (snd (snd (?fit j)))" if "j < 8" for j
    using qkx_codes [where nmax = 15 and k = 4 and x = "group_of 32 xi j"] len [OF that] by (simp add: q4_k_group_def Let_def)
  have r: "codes_fit 4 32 (requantize F 15 d dm (group_of 32 xi j) (snd (snd (map ?fit [0..<8] ! j))))" if "j < 8" for j d dm
    using requantize_fits [where nmax = 15 and k = 4 and xj = "group_of 32 xi j"] g [OF that] len [OF that] that by simp
  have "codes_fit 4 (8 * 32) (concat (map (\<lambda>j. requantize F 15 (f j) (f' j) (group_of 32 xi j) (snd (snd (map ?fit [0..<8] ! j)))) [0..<8]))"
    for f f' using r by (intro concat_fit) blast
  then show "codes_fit 4 256 local_l"
    using assms(2) by (auto simp: q4_k_choice_def Let_def case_prod_beta)
  show "codes_fit 6 8 ls" "codes_fit 6 8 lm"
    using assms(2) by (auto simp: q4_k_choice_def Let_def codes_fit_def list_all_iff bits_below_min)
qed


lemma q2_k_choice_fits:
  assumes "length xi = 256" and "q2_k_choice F xi = (d, dm, sc, local_l)"
  shows "length sc = 16" and "codes_fit 2 256 local_l"
proof -
  let ?fit = "\<lambda>j. make_qkx2_quants F 3 (group_of 16 xi j) (map (qz_abs F) (group_of 16 xi j))
    \<lparr>kn_rmin = qf_dyadic F (-1) 1, kn_rdelta = qz_decimal F 1 1, kn_nstep = 15, kn_use_mad = True\<rparr>"
  have len: "length (group_of 16 xi j) = 16" if "j < 16" for j using that assms(1) by (intro length_group_of) simp
  have g: "codes_fit 2 16 (snd (snd (?fit j)))" if "j < 16" for j
    using qkx_codes [where nmax = 3 and k = 2 and x = "group_of 16 xi j"] len [OF that] by simp
  have r: "codes_fit 2 16 (requantize F 3 d dm (group_of 16 xi j) (snd (snd (map ?fit [0..<16] ! j))))" if "j < 16" for j d dm
    using requantize_fits [where nmax = 3 and k = 2 and xj = "group_of 16 xi j"] g [OF that] len [OF that] that by simp
  have "codes_fit 2 (16 * 16) (concat (map (\<lambda>j. requantize F 3 (f j) (f' j) (group_of 16 xi j) (snd (snd (map ?fit [0..<16] ! j)))) [0..<16]))"
    for f f' using r by (intro concat_fit) blast
  then show "codes_fit 2 256 local_l"
    using assms(2) by (auto simp: q2_k_choice_def Let_def case_prod_beta)
  show "length sc = 16" using assms(2) by (auto simp: q2_k_choice_def Let_def)
qed

subsection \<open>Fields of a block\<close>

lemma group_concat:
  assumes "\<And>j. j < m \<Longrightarrow> length (f j) = n" and "c < m"
  shows "group_of n (concat (map f [0..<m])) c = f c"
proof -
  have "[0..<m] = [0..<c] @ c # [Suc c..<m]" using assms(2) by (metis le_add1 plus_nat.add_0 upt_add_eq_append upt_conv_Cons less_imp_le_nat le_Suc_ex)
  moreover have "length (concat (map f [0..<c])) = c * n" using assms by (intro length_concat_groups) simp
  ultimately show ?thesis using assms by (simp add: group_of_def slice_of_def mult.commute)
qed

lemma nth_concat_groups:
  assumes "\<And>j. j < m \<Longrightarrow> length (f j) = n" and "c < m" and "q < n"
  shows "concat (map f [0..<m]) ! (n * c + q) = f c ! q"
proof -
  have "n * c + n \<le> m * n" using assms(2) by (metis Suc_leI mult.commute mult_Suc_right mult_le_mono2 add.commute)
  then have "group_of n (concat (map f [0..<m])) c ! q = concat (map f [0..<m]) ! (n * c + q)"
    using assms(3) length_concat_groups [OF assms(1), of m] by (simp add: group_of_def nth_slice_of)
  then show ?thesis using group_concat [OF assms(1,2)] by simp
qed

lemma map_group:
  "n * j + n \<le> length ls \<Longrightarrow> map g (group_of n ls j) = map (\<lambda>l. g (ls ! (n * j + l))) [0..<n]"
  by (rule nth_equalityI) (simp_all add: group_of_def nth_slice_of)

lemma u16_le_bytes: "u16_at (le_bytes16 w @ bs) 0 = w"
proof (rule bit_eqI)
  fix n
  show "bit (u16_at (le_bytes16 w @ bs) 0) n \<longleftrightarrow> bit w n"
    using bit_imp_le_length [of w n]
    by (auto simp: u16_at_def le_bytes16_def bit_or_iff bit_push_bit_iff bit_ucast_iff bit_drop_bit_eq)
qed

lemma u16_at_skip: "length xs = n \<Longrightarrow> u16_at (xs @ bs) (n + k) = u16_at bs k"
  by (simp add: u16_at_def nth_append)

lemma length_le_bytes16 [simp]: "length (le_bytes16 w) = 2"
  by (simp add: le_bytes16_def)

lemma q2_bits_nth:
  assumes fit: "codes_fit 2 256 ls" and c: "c < 2" and q: "q < 32" and s: "s < 4"
  shows "drop_bit (2 * s) (q2_bits ls ! (32 * c + q)) AND 3 = ls ! (128 * c + 32 * s + q)"
proof -
  have b: "bits_below 2 (ls ! i)" if "i < 256" for i using codes_fit_nth [OF fit that] .
  have byte: "q2_bits ls ! (32 * c + q) = ls ! (128 * c + q) OR push_bit 2 (ls ! (128 * c + q + 32))
      OR push_bit 4 (ls ! (128 * c + q + 64)) OR push_bit 6 (ls ! (128 * c + q + 96))"
    unfolding q2_bits_def using c q by (subst nth_concat_groups) simp_all
  define p where "p = 128 * c + q"
  have p: "p + 96 < 256" "128 * c + 32 * s + q = p + 32 * s" using c q by (simp_all add: p_def)
  have "bits_below 2 (ls ! p)" "bits_below 2 (ls ! (p + 32))" "bits_below 2 (ls ! (p + 64))" "bits_below 2 (ls ! (p + 96))"
    using p(1) by (simp_all add: b)
  note fields = crumbs [OF this]
  have "s \<in> {0, 1, 2, 3}" using s by auto
  then show ?thesis unfolding byte p(2) p_def [symmetric] by (elim insertE emptyE) (simp_all add: fields)
qed

lemma length_q2_bits [simp]: "length (q2_bits ls) = 64"
  unfolding q2_bits_def by (subst length_concat_groups [where n = 32]) simp_all


subsection \<open>What a block stands for\<close>

text \<open>Element \<open>l\<close> of group \<open>j\<close> is the code times the group's scale, less the group's minimum.\<close>

definition affine_values ::
    "('f, 'm) quant_floats_scheme \<Rightarrow> 16 word \<Rightarrow> 16 word \<Rightarrow> octet list \<Rightarrow> octet list \<Rightarrow> nat \<Rightarrow> octet list \<Rightarrow> 'f list" where
  "affine_values F d dmin scs mins n codes =
     concat (map (\<lambda>j. map (\<lambda>l. qf_sub F (qf_mul F (qf_mul F (qf_half F d) (of_u8 F (scs ! j))) (of_u8 F l))
       (qf_mul F (qf_half F dmin) (of_u8 F (mins ! j)))) (group_of n codes j)) [0..<length scs])"

definition q4_k_values :: "('f, 'm) quantize_floats_scheme \<Rightarrow> 'f list \<Rightarrow> 'f list" where
  "q4_k_values F xi = (let (d, dmin, ls, lm, codes) = q4_k_choice F xi in affine_values F d dmin ls lm 32 codes)"

definition q2_k_values :: "('f, 'm) quantize_floats_scheme \<Rightarrow> 'f list \<Rightarrow> 'f list" where
  "q2_k_values F xi = (let (d, dmin, sc, codes) = q2_k_choice F xi in
     affine_values F d dmin (map (\<lambda>s. s AND 0xF) sc) (map (drop_bit 4) sc) 16 codes)"

lemma length_pack_scales: "length (pack_scales_k4 ls lm) = 12"
proof -
  have "length (foldl pack_scale_min bs js) = length bs" for bs js
    by (induction js arbitrary: bs) (auto simp: pack_scale_min_def Let_def)
  then show ?thesis by (simp add: pack_scales_k4_def)
qed

lemma nested_groups:
  "concat (map (\<lambda>c. concat (map (\<lambda>s. concat (map (\<lambda>h. f (8 * c + 2 * s + h)) [0..<2])) [0..<4])) [0..<2]) = concat (map f [0..<16])"
  by (simp add: upt_rec eval_nat_numeral)

lemma paired_groups: "concat (map (\<lambda>c. f (2 * c) @ f (2 * c + 1)) [0..<4]) = concat (map f [0..<8])"
  by (simp add: upt_rec eval_nat_numeral)

lemma q2_group:
  assumes fit: "codes_fit 2 256 codes" and "c < 2" "s < 4" "h < 2"
  shows "map g (group_of 16 codes (8 * c + 2 * s + h)) =
    map (\<lambda>l. g (drop_bit (2 * s) (q2_bits codes ! (32 * c + 16 * h + l)) AND 3)) [0..<16]"
proof -
  have len: "16 * (8 * c + 2 * s + h) + 16 \<le> length codes" using assms by (simp add: codes_fit_def)
  have "codes ! (16 * (8 * c + 2 * s + h) + l) = drop_bit (2 * s) (q2_bits codes ! (32 * c + 16 * h + l)) AND 3" if "l < 16" for l
    using q2_bits_nth [OF fit \<open>c < 2\<close> _ \<open>s < 4\<close>, of "16 * h + l"] that \<open>h < 2\<close> by (simp add: algebra_simps)
  then show ?thesis by (simp add: map_group [OF len] del: upt_conv_Cons)
qed

lemma dequant_q2_k_layout:
  assumes sc: "length sc = 16" and fit: "codes_fit 2 256 codes"
  shows "dequant_q2_k F (sc @ q2_bits codes @ le_bytes16 d @ le_bytes16 dmin) =
    affine_values F d dmin (map (\<lambda>s. s AND 0xF) sc) (map (drop_bit 4) sc) 16 codes"
proof -
  let ?b = "sc @ q2_bits codes @ le_bytes16 d @ le_bytes16 dmin"
  have fields: "slice_of ?b 0 16 = sc" "slice_of ?b 16 80 = q2_bits codes"
    using sc by (simp_all add: slice_of_def)
  have halves: "half_at F ?b 80 = qf_half F d" "half_at F ?b 82 = qf_half F dmin"
    using u16_at_skip [where xs = "sc @ q2_bits codes" and n = 80 and k = 0] u16_le_bytes [of d "le_bytes16 dmin"]
      u16_at_skip [where xs = "sc @ q2_bits codes @ le_bytes16 d" and n = 82 and k = 0] u16_le_bytes [of dmin "[]"] sc
    by (simp_all add: half_at_def)
  let ?part = "\<lambda>j. map (\<lambda>l. qf_sub F (qf_mul F (qf_mul F (qf_half F d) (of_u8 F (sc ! j AND 0xF))) (of_u8 F l))
    (qf_mul F (qf_half F dmin) (of_u8 F (drop_bit 4 (sc ! j))))) (group_of 16 codes j)"
  have "dequant_q2_k F ?b = concat (map (\<lambda>c. concat (map (\<lambda>s. concat (map (\<lambda>h. ?part (8 * c + 2 * s + h)) [0..<2])) [0..<4])) [0..<2])"
    unfolding dequant_q2_k_def Let_def fields halves
    by (intro arg_cong [of _ _ concat] map_cong refl) (simp add: q2_group [OF fit])
  also have "\<dots> = concat (map ?part [0..<16])" by (rule nested_groups)
  also have "\<dots> = affine_values F d dmin (map (\<lambda>s. s AND 0xF) sc) (map (drop_bit 4) sc) 16 codes"
    using sc by (auto simp: affine_values_def intro!: arg_cong [of _ _ concat] map_cong)
  finally show ?thesis .
qed

lemma q4_group:
  assumes fit: "codes_fit 4 256 codes" and c: "c < 4"
  defines "bytes \<equiv> slice_of (q4_k_nibbles codes) (32 * c) (32 * c + 32)"
  shows "map g (group_of 32 codes (2 * c)) = map (\<lambda>qb. g (qb AND 0xF)) bytes"
    and "map g (group_of 32 codes (2 * c + 1)) = map (\<lambda>qb. g (drop_bit 4 qb)) bytes"
proof -
  let ?byte = "\<lambda>c l. codes ! (64 * c + l) OR push_bit 4 (codes ! (64 * c + l + 32))"
  have slice: "bytes = map (?byte c) [0..<32]"
    using group_concat [where n = 32 and m = 4 and f = "\<lambda>c. map (?byte c) [0..<32]", OF _ c]
    by (simp add: group_of_def q4_k_nibbles_def bytes_def)
  have l: "32 * (2 * c) + 32 \<le> length codes" "32 * (2 * c + 1) + 32 \<le> length codes"
    using c fit by (simp_all add: codes_fit_def)
  have "bits_below 4 (codes ! (64 * c + l))" "bits_below 4 (codes ! (64 * c + l + 32))" if "l < 32" for l
    using codes_fit_nth [OF fit] that c by simp_all
  note nib = nibbles [OF this]
  have idx: "32 * (2 * c) + l = 64 * c + l" "32 * (2 * c + 1) + l = 64 * c + l + 32" for l by simp_all
  show "map g (group_of 32 codes (2 * c)) = map (\<lambda>qb. g (qb AND 0xF)) bytes"
    unfolding map_group [OF l(1)] slice map_map idx by (rule map_cong [OF refl]) (simp add: nib)
  show "map g (group_of 32 codes (2 * c + 1)) = map (\<lambda>qb. g (drop_bit 4 qb)) bytes"
    unfolding map_group [OF l(2)] slice map_map idx by (rule map_cong [OF refl]) (simp add: nib)
qed

lemma dequant_q4_k_layout:
  assumes fit: "codes_fit 6 8 ls" "codes_fit 6 8 lm" "codes_fit 4 256 codes"
  shows "dequant_q4_k F (le_bytes16 d @ le_bytes16 dmin @ pack_scales_k4 ls lm @ q4_k_nibbles codes) =
    affine_values F d dmin ls lm 32 codes"
proof -
  let ?b = "le_bytes16 d @ le_bytes16 dmin @ pack_scales_k4 ls lm @ q4_k_nibbles codes"
  have len: "length (q4_k_nibbles codes) = 128"
    by (simp add: q4_k_nibbles_def length_concat_groups [where n = 32])
  have fields: "slice_of ?b 4 16 = pack_scales_k4 ls lm" "slice_of ?b 16 144 = q4_k_nibbles codes"
    using len by (simp_all add: slice_of_def length_pack_scales)
  have halves: "half_at F ?b 0 = qf_half F d" "half_at F ?b 2 = qf_half F dmin"
    using u16_le_bytes u16_at_skip [where xs = "le_bytes16 d" and n = 2 and k = 0] by (simp_all add: half_at_def)
  have scales: "get_scale_min_k4 j (pack_scales_k4 ls lm) = (ls ! j, lm ! j)" if "j < 8" for j
    using scale_min_roundtrip that fit by (simp add: codes_fit_def)
  let ?part = "\<lambda>j. map (\<lambda>l. qf_sub F (qf_mul F (qf_mul F (qf_half F d) (of_u8 F (ls ! j))) (of_u8 F l))
    (qf_mul F (qf_half F dmin) (of_u8 F (lm ! j)))) (group_of 32 codes j)"
  have "dequant_q4_k F ?b = concat (map (\<lambda>c. ?part (2 * c) @ ?part (2 * c + 1)) [0..<4])"
    unfolding dequant_q4_k_def Let_def fields halves
    by (intro arg_cong [of _ _ concat] map_cong refl) (simp add: scales q4_group [OF fit(3)] del: One_nat_def)
  also have "\<dots> = concat (map ?part [0..<8])" by (rule paired_groups)
  finally show ?thesis using fit(1) by (simp add: affine_values_def codes_fit_def)
qed

end
