(* ===== verification/Quantize_Q3.thy ===== *)
theory Quantize_Q3
  imports Quantize_Layout
begin

unbundle bit_operations_syntax

section \<open>The layout of \<open>Q3_K\<close>\<close>

text \<open>
  Codes of three bits: two in a byte of four codes, the third in a mask shared by the halves of the
  super-block.
\<close>

definition ints_fit :: "int \<Rightarrow> int \<Rightarrow> nat \<Rightarrow> int list \<Rightarrow> bool" where
  "ints_fit lo hi n ls \<longleftrightarrow> length ls = n \<and> list_all (\<lambda>l. lo \<le> l \<and> l \<le> hi) ls"

lemma clamp_range: "lo \<le> hi \<Longrightarrow> lo \<le> clamp_int lo hi n \<and> clamp_int lo hi n \<le> hi"
  by (auto simp: clamp_int_def)

lemma ints_fit_update: "ints_fit lo hi n ls \<Longrightarrow> lo \<le> l \<Longrightarrow> l \<le> hi \<Longrightarrow> ints_fit lo hi n (ls[i := l])"
  by (auto simp: ints_fit_def list_all_iff dest!: set_update_subset_insert [THEN subsetD])

lemma improve_fits:
  assumes "0 < nmax" and "ints_fit (- nmax) (nmax - 1) n (fst st)"
  shows "ints_fit (- nmax) (nmax - 1) n (fst (q3_improve F nmax x st i))"
  using assms clamp_range [of "- nmax" "nmax - 1"]
  by (cases st) (auto simp: q3_improve_def Let_def intro!: ints_fit_update)

lemma passes_fit:
  "0 < nmax \<Longrightarrow> ints_fit (- nmax) (nmax - 1) n (fst st) \<Longrightarrow> ints_fit (- nmax) (nmax - 1) n (fst (q3_passes F nmax x k st))"
proof (induction F nmax x k st rule: q3_passes.induct)
  case (2 F nmax x k out_l sumlx suml2)
  have "ints_fit (- nmax) (nmax - 1) n (fst (foldl (q3_improve F nmax x) (out_l, sumlx, suml2, 0) [0..<length x]))"
    using 2(2,3) by (intro foldl_keeps [where P = "\<lambda>st. ints_fit (- nmax) (nmax - 1) n (fst st)"] improve_fits) simp_all
  then show ?case using 2 by (auto split: prod.split)
qed simp

lemma q3_quants_fit: "ints_fit 0 7 (length x) (snd (make_q3_quants F 4 x do_rmse))"
proof -
  have shift: "ints_fit 0 7 n (map (\<lambda>l. l + 4) ls)" if "ints_fit (-4) 3 n ls" for n ls
    using that by (auto simp: ints_fit_def list_all_iff)
  have codes: "ints_fit (-4) 3 (length x) (map (\<lambda>xi. clamp_int (-4) 3 (f xi)) x)" for f
    using clamp_range [of "-4" 3] by (simp add: ints_fit_def list_all_iff)
  have "ints_fit 0 7 (length x) (map (\<lambda>_. 0) x)" by (simp add: ints_fit_def list_all_iff)
  moreover have "ints_fit 0 7 (length x) (map (\<lambda>l. l + 4) (fst (q3_passes F 4 x 5 (map (\<lambda>xi. clamp_int (-4) 3 (f xi)) x, st))))" for f st
    using passes_fit [where nmax = 4 and st = "(map (\<lambda>xi. clamp_int (-4) 3 (f xi)) x, st)"] codes [of f] by (intro shift) simp
  ultimately show ?thesis using shift [OF codes]
    by (auto simp: make_q3_quants_def Let_def case_prod_beta comp_def)
qed


lemma concat_ints_fit:
  "(\<And>j. j < m \<Longrightarrow> ints_fit lo hi n (f j)) \<Longrightarrow> ints_fit lo hi (m * n) (concat (map f [0..<m]))"
  by (induction m) (simp_all add: ints_fit_def)

lemma length_pack_q3 [simp]: "length (pack_q3_scales ls) = 12"
proof -
  have "length (foldl pack_q3_scale bs js) = length bs" for bs js
    by (induction js arbitrary: bs) (auto simp: pack_q3_scale_def Let_def)
  then show ?thesis by (simp add: pack_q3_scales_def)
qed

text \<open>The scales of the groups: those packed, or zeros.\<close>

lemma q3_zero_scales: "q3_scales (replicate 12 0) = replicate 16 0"
  by code_simp

lemma q3_k_choice_fits:
  assumes "length xi = 256" and "q3_k_choice F xi = (d, sc, codes)"
  shows "length sc = 12" and "ints_fit 0 7 256 codes"
proof -
  let ?fit = "\<lambda>j. make_q3_quants F 4 (group_of 16 xi j) True"
  have len: "length (group_of 16 xi j) = 16" if "j < 16" for j using that assms(1) by (intro length_group_of) simp
  have r: "ints_fit 0 7 16 (if z j then snd (map ?fit [0..<16] ! j) else map (\<lambda>v. clamp_int (-4) 3 (f j v) + 4) (group_of 16 xi j))"
    if "j < 16" for j z f
    using q3_quants_fit [of "group_of 16 xi j" F True] len [OF that] that clamp_range [of "-4" 3]
    by (auto simp: ints_fit_def list_all_iff) (smt (verit))+
  have "ints_fit 0 7 (16 * 16) (concat (map (\<lambda>j. if z j then snd (map ?fit [0..<16] ! j)
      else map (\<lambda>v. clamp_int (-4) 3 (f j v) + 4) (group_of 16 xi j)) [0..<16]))" for z f
    using r by (intro concat_ints_fit) blast
  then show "ints_fit 0 7 256 codes"
    using assms(2) by (auto simp: q3_k_choice_def Let_def)
  show "length sc = 12" using assms(2) by (auto simp: q3_k_choice_def Let_def)
qed

subsection \<open>The mask\<close>

definition q3_low :: "int \<Rightarrow> int" where
  "q3_low l = (if l > 3 then l - 4 else l)"

lemma mask_prefix:
  assumes "i \<le> length ls" and "length ls = 256"
  shows "\<exists>hmask. foldl q3_mask_step (replicate 32 0, [], 0, 1) (take i ls) =
      (hmask, map q3_low (take i ls), i mod 32, push_bit (i div 32) 1) \<and> length hmask = 32 \<and>
    (\<forall>q < 32. \<forall>b < 8. bit (hmask ! q) b \<longleftrightarrow> 32 * b + q < i \<and> ls ! (32 * b + q) > 3)"
  using assms(1)
proof (induction i)
  case (Suc i)
  obtain hmask where h: "foldl q3_mask_step (replicate 32 0, [], 0, 1) (take i ls) =
      (hmask, map q3_low (take i ls), i mod 32, push_bit (i div 32) 1)" "length hmask = 32"
    "\<forall>q < 32. \<forall>b < 8. bit (hmask ! q) b \<longleftrightarrow> 32 * b + q < i \<and> ls ! (32 * b + q) > 3"
    using Suc by auto
  let ?h = "if ls ! i > 3 then hmask[i mod 32 := hmask ! (i mod 32) OR push_bit (i div 32) 1] else hmask"
  have t: "take (Suc i) ls = take i ls @ [ls ! i]" using Suc.prems by (simp add: take_Suc_conv_app_nth)
  have step: "foldl q3_mask_step (replicate 32 0, [], 0, 1) (take (Suc i) ls) =
      (?h, map q3_low (take (Suc i) ls), Suc i mod 32, push_bit (Suc i div 32) 1)"
    unfolding t using h(1) by (simp add: q3_mask_step_def q3_low_def mod_Suc div_Suc push_bit_push_bit)
  have "bit (?h ! q) b \<longleftrightarrow> 32 * b + q < Suc i \<and> ls ! (32 * b + q) > 3" if q: "q < 32" and b: "b < 8" for q b
  proof (cases "q = i mod 32 \<and> b = i div 32")
    case True
    then have "32 * b + q = i" by simp
    then show ?thesis using h(2,3) q b True by (auto simp: bit_or_iff bit_push_bit_iff nth_list_update bit_exp_iff)
  next
    case False
    have ib: "i < 256" using Suc.prems assms(2) by simp
    have "32 * b + q \<noteq> i" using False q by auto
    then have "32 * b + q < Suc i \<longleftrightarrow> 32 * b + q < i" by linarith
    then show ?thesis using h(2,3) q b False
      by (auto simp: bit_or_iff bit_push_bit_iff nth_list_update bit_exp_iff)
  qed
  then show ?case using step h(2) by auto
qed simp


lemma q3_scales_agree:
  assumes "length xi = 256" and "q3_k_choice F xi = (d, sc, codes)" and "j < 16"
  shows "q3_scales sc ! j = q3_scale_at sc j"
proof -
  have zero: "q3_scale_at (replicate 12 0) j = 0"
    using assms(3) by (simp add: q3_scale_at_def Let_def)
  have "q3_scales (pack_q3_scales ls) ! j = q3_scale_at (pack_q3_scales ls) j"
    if "length ls = 16" "list_all (bits_below 6) ls" for ls
    using q3_scales_roundtrip [OF that] assms(3) by simp
  moreover have "bits_below 6 (as_u8 (clamp_int (-32) 31 n + 32))" for n
    using clamp_range [of "-32" 31 n] by (intro bits_below_int) simp_all
  ultimately show ?thesis using assms(2,3) zero
    by (auto simp: q3_k_choice_def Let_def list_all_iff q3_zero_scales)
qed

subsection \<open>The block\<close>

text \<open>Element \<open>l\<close> of group \<open>j\<close> is the code less four, times \<open>d\<close> times the scale less 32.\<close>

definition q3_k_values :: "('f, 'm) quantize_floats_scheme \<Rightarrow> 'f list \<Rightarrow> 'f list" where
  "q3_k_values F xi =
     (let (d, sc, codes) = q3_k_choice F xi in
      concat (map (\<lambda>j. map (\<lambda>l. qf_mul F (qf_mul F (qf_half F d) (qf_sub F (of_i8 F (q3_scale_at sc j)) (qf_int F 32)))
        (qf_int F (l - 4))) (group_of 16 codes j)) [0..<16]))"

lemma q3_element:
  assumes fit: "ints_fit 0 7 256 codes" and c: "blk < 2" "s < 4" "qi < 32"
    and mask: "\<forall>q < 32. \<forall>b < 8. bit (hmask ! q) b \<longleftrightarrow> codes ! (32 * b + q) > 3"
  shows "uint (drop_bit (2 * s) (q2_bits (map as_u8 (map q3_low codes)) ! (32 * blk + qi)) AND 3) -
      (if hmask ! qi AND push_bit (4 * blk + s) 1 = 0 then 4 else 0) = codes ! (128 * blk + 32 * s + qi) - 4"
proof -
  have len: "length codes = 256" and "list_all (\<lambda>l. 0 \<le> l \<and> l \<le> 7) codes" using fit by (simp_all add: ints_fit_def)
  then have range: "0 \<le> codes ! i \<and> codes ! i \<le> 7" if "i < 256" for i using that by (simp add: list_all_length)
  have low: "0 \<le> q3_low (codes ! i) \<and> q3_low (codes ! i) \<le> 3" if "i < 256" for i
    using range [OF that] by (simp add: q3_low_def)
  have "codes_fit 2 256 (map as_u8 (map q3_low codes))"
    using low len by (auto simp: codes_fit_def list_all_length intro!: bits_below_int) (smt (verit))
  note bits = q2_bits_nth [OF this c(1,3,2)]
  let ?i = "128 * blk + 32 * s + qi"
  have i: "?i < 256" "?i = 32 * (4 * blk + s) + qi" "4 * blk + s < 8" using c by simp_all
  have "hmask ! qi AND push_bit (4 * blk + s) 1 = 0 \<longleftrightarrow> \<not> bit (hmask ! qi) (4 * blk + s)"
    by (simp add: push_bit_eq_mult and_exp_eq_0_iff_not_bit)
  also have "\<dots> \<longleftrightarrow> \<not> codes ! ?i > 3" using mask c(3) i(2,3) by simp
  finally have m: "hmask ! qi AND push_bit (4 * blk + s) 1 = 0 \<longleftrightarrow> \<not> codes ! ?i > 3" .
  have "uint (as_u8 (q3_low (codes ! ?i))) = q3_low (codes ! ?i)"
    using low [OF i(1)] by (simp add: as_u8_def uint_word_of_int)
  then show ?thesis unfolding bits using i(1) len m range [OF i(1)] by (auto simp: q3_low_def)
qed

end
