(* ===== verification/Quantize_Rows.thy ===== *)
theory Quantize_Rows
  imports Quantize_Q3
begin

unbundle bit_operations_syntax

section \<open>Quantised rows read back\<close>

text \<open>
  For each quantiser: the bytes of a block have the size of the format, and the dequantiser reads
  from them the codes and scales that were chosen; hence whole rows.
\<close>

lemma q3_block:
  assumes "length xi = 256"
  shows "dequant_q3_k F (pack_block_q3_k F xi) = q3_k_values F xi" and "length (pack_block_q3_k F xi) = 110"
proof -
  obtain d sc codes where ch: "q3_k_choice F xi = (d, sc, codes)" by (cases "q3_k_choice F xi") auto
  note fit = q3_k_choice_fits [OF assms ch] and agree = q3_scales_agree [OF assms ch]
  have lc: "length codes = 256" using fit(2) by (simp add: ints_fit_def)
  obtain hmask where h: "foldl q3_mask_step (replicate 32 0, [], 0, 1) codes = (hmask, map q3_low codes, 0, push_bit 8 1)"
    "length hmask = 32" "\<forall>q < 32. \<forall>b < 8. bit (hmask ! q) b \<longleftrightarrow> codes ! (32 * b + q) > 3"
    using mask_prefix [of 256 codes] lc by auto
  let ?qs = "q2_bits (map as_u8 (map q3_low codes))"
  let ?b = "hmask @ ?qs @ sc @ le_bytes16 d"
  have b: "pack_block_q3_k F xi = ?b" by (simp add: pack_block_q3_k_def ch h(1))
  show "length (pack_block_q3_k F xi) = 110" using h(2) fit(1) by (simp add: b)
  have fields: "slice_of ?b 0 32 = hmask" "slice_of ?b 32 96 = ?qs" "slice_of ?b 96 108 = sc"
    using h(2) fit(1) by (simp_all add: slice_of_def)
  have half: "half_at F ?b 108 = qf_half F d"
    using u16_at_skip [where xs = "hmask @ ?qs @ sc" and n = 108 and k = 0] u16_le_bytes [of d "[]"] h(2) fit(1)
    by (simp add: half_at_def)
  let ?part = "\<lambda>j. map (\<lambda>l. qf_mul F (qf_mul F (qf_half F d) (qf_sub F (of_i8 F (q3_scale_at sc j)) (qf_int F 32)))
    (qf_int F (l - 4))) (group_of 16 codes j)"
  have part: "?part (8 * blk + 2 * s + h') = map (\<lambda>l. qf_mul F
        (qf_mul F (qf_half F d) (qf_sub F (of_i8 F (q3_scale_at sc (8 * blk + 2 * s + h'))) (qf_int F 32)))
        (qf_int F (uint (drop_bit (2 * s) (?qs ! (32 * blk + (l + 16 * h'))) AND 3) -
          (if hmask ! (l + 16 * h') AND push_bit (4 * blk + s) 1 = 0 then 4 else 0)))) [0..<16]"
    if c: "blk < 2" "s < 4" "h' < 2" for blk s h'
  proof -
    have "16 * (8 * blk + 2 * s + h') + 16 \<le> length codes" using c lc by simp
    note mg = map_group [OF this]
    have "codes ! (16 * (8 * blk + 2 * s + h') + l) - 4 = uint (drop_bit (2 * s) (?qs ! (32 * blk + (l + 16 * h'))) AND 3) -
        (if hmask ! (l + 16 * h') AND push_bit (4 * blk + s) 1 = 0 then 4 else 0)" if "l < 16" for l
      using q3_element [OF fit(2) c(1,2) _ h(3), of "l + 16 * h'"] that c(3) by (simp add: algebra_simps)
    then show ?thesis unfolding mg by (intro map_cong refl) simp
  qed
  have "dequant_q3_k F ?b = concat (map (\<lambda>c. concat (map (\<lambda>s. concat (map (\<lambda>h. ?part (8 * c + 2 * s + h)) [0..<2])) [0..<4])) [0..<2])"
    unfolding dequant_q3_k_def Let_def fields half
    by (intro arg_cong [of _ _ concat] map_cong refl) (simp add: part agree)
  also have "\<dots> = concat (map ?part [0..<16])" by (rule nested_groups)
  finally show "dequant_q3_k F (pack_block_q3_k F xi) = q3_k_values F xi" by (simp add: b q3_k_values_def ch)
qed

lemma q4_block:
  assumes "length xi = 256"
  shows "dequant_q4_k F (pack_block_q4_k F xi) = q4_k_values F xi" and "length (pack_block_q4_k F xi) = 144"
proof -
  obtain d dm ls lm codes where ch: "q4_k_choice F xi = (d, dm, ls, lm, codes)" by (cases "q4_k_choice F xi") auto
  show "dequant_q4_k F (pack_block_q4_k F xi) = q4_k_values F xi"
    using dequant_q4_k_layout [OF q4_k_choice_fits [OF assms ch]] by (simp add: pack_block_q4_k_def q4_k_values_def ch)
  show "length (pack_block_q4_k F xi) = 144"
    by (simp add: pack_block_q4_k_def ch length_pack_scales q4_k_nibbles_def length_concat_groups [where n = 32])
qed

lemma q2_block:
  assumes "length xi = 256"
  shows "dequant_q2_k F (pack_block_q2_k F xi) = q2_k_values F xi" and "length (pack_block_q2_k F xi) = 84"
proof -
  obtain d dm sc codes where ch: "q2_k_choice F xi = (d, dm, sc, codes)" by (cases "q2_k_choice F xi") auto
  note fit = q2_k_choice_fits [OF assms ch]
  show "dequant_q2_k F (pack_block_q2_k F xi) = q2_k_values F xi"
    using dequant_q2_k_layout [OF fit] by (simp add: pack_block_q2_k_def q2_k_values_def ch)
  show "length (pack_block_q2_k F xi) = 84" using fit(1) by (simp add: pack_block_q2_k_def ch)
qed

definition q8_0_values :: "('f, 'm) quantize_floats_scheme \<Rightarrow> 'f list \<Rightarrow> 'f list" where
  "q8_0_values F block_in = (let (d, codes) = q8_0_choice F block_in in map (\<lambda>q. qf_mul F (qf_int F q) (qf_half F d)) codes)"

lemma sint_as_u8: "-128 \<le> n \<Longrightarrow> n < 128 \<Longrightarrow> sint (as_u8 n) = n"
  by (simp add: as_u8_def signed_of_int signed_take_bit_int_eq_self)

lemma q8_0_block:
  assumes "length xi = 32"
  shows "dequant_q8_0 F (pack_block_q8_0 F xi) = q8_0_values F xi" and "length (pack_block_q8_0 F xi) = 34"
proof -
  obtain d codes where ch: "q8_0_choice F xi = (d, codes)" by (cases "q8_0_choice F xi") auto
  have len: "length codes = 32" and range: "i < 32 \<Longrightarrow> -127 \<le> codes ! i \<and> codes ! i \<le> 127" for i
    using ch assms clamp_range [of "-127" 127] by (auto simp: q8_0_choice_def Let_def)
  have b: "pack_block_q8_0 F xi = le_bytes16 d @ map as_u8 codes" by (simp add: pack_block_q8_0_def ch)
  show "length (pack_block_q8_0 F xi) = 34" by (simp add: b len)
  have "half_at F (pack_block_q8_0 F xi) 0 = qf_half F d" "slice_of (pack_block_q8_0 F xi) 2 34 = map as_u8 codes"
    using u16_le_bytes len by (simp_all add: b half_at_def slice_of_def)
  then have "dequant_q8_0 F (pack_block_q8_0 F xi) = map (\<lambda>j. qf_mul F (of_i8 F (map as_u8 codes ! j)) (qf_half F d)) [0..<32]"
    by (simp add: dequant_q8_0_def)
  also have "\<dots> = map (\<lambda>q. qf_mul F (qf_int F q) (qf_half F d)) codes"
  proof (rule nth_equalityI)
    fix i assume "i < length (map (\<lambda>j. qf_mul F (of_i8 F (map as_u8 codes ! j)) (qf_half F d)) [0..<32])"
    then have i: "i < 32" by simp
    then show "map (\<lambda>j. qf_mul F (of_i8 F (map as_u8 codes ! j)) (qf_half F d)) [0..<32] ! i =
        map (\<lambda>q. qf_mul F (qf_int F q) (qf_half F d)) codes ! i"
      using len sint_as_u8 [of "codes ! i"] range [OF i] by (simp add: of_i8_def)
  qed (simp add: len)
  finally show "dequant_q8_0 F (pack_block_q8_0 F xi) = q8_0_values F xi" by (simp add: q8_0_values_def ch)
qed

end
