(* ===== verification/Dequant_Props.thy ===== *)
theory Dequant_Props
  imports Quantize_Rows Gguf_Reads
begin

unbundle bit_operations_syntax

section \<open>Dequantised tensors\<close>

text \<open>
  Every block gives as many elements as its format says, blocks do not depend on each other, so
  dequantisation commutes with the reads of whole rows; the codebooks are indexed in range.
\<close>

subsection \<open>Sizes\<close>

lemma length_signed_grid [simp]: "length (signed_grid F db g mbit signs n k) = n"
  by (simp add: signed_grid_def)

lemma length_delta_grid [simp]: "length (delta_grid F dl g delta) = 8"
  by (simp add: delta_grid_def)

lemma length_concat_map: "(\<And>x. x \<in> set xs \<Longrightarrow> length (f x) = n) \<Longrightarrow> length (concat (map f xs)) = length xs * n"
  by (induction xs) simp_all

lemmas dequant_defs = dequant_q4_0_def dequant_q4_1_def dequant_q5_0_def dequant_q5_1_def dequant_q8_0_def
  dequant_q8_1_def dequant_q2_k_def dequant_q3_k_def dequant_q6_k_def dequant_q8_k_def
  dequant_mxfp4_def dequant_iq4_nl_def dequant_iq4_xs_def dequant_iq3_xxs_def dequant_iq3_s_def dequant_iq2_xxs_def
  dequant_iq2_xs_def dequant_iq2_s_def dequant_iq1_s_def dequant_iq1_m_def

lemma length_dequant_block:
  assumes "length b = dtype_type_size dt"
  shows "length (dequant_block F dt b) = dtype_block_size dt"
proof (cases dt)
  case Q4K
  show ?thesis using assms unfolding Q4K dequant_block.simps dequant_q4_k_def Let_def
    by (subst length_concat_map [where n = 64]) (simp_all add: case_prod_beta qk_defs)
next
  case Q5K
  show ?thesis using assms unfolding Q5K dequant_block.simps dequant_q5_k_def Let_def
    by (subst length_concat_map [where n = 64]) (simp_all add: case_prod_beta qk_defs)
qed (simp_all add: dequant_defs Let_def qk_defs length_concat comp_def sum_list_triv)


subsection \<open>Blocks in sequence\<close>

definition block_at :: "ggml_dtype \<Rightarrow> octets \<Rightarrow> nat \<Rightarrow> octets" where
  "block_at dt raw k = slice_of raw (k * dtype_type_size dt) ((k + 1) * dtype_type_size dt)"

lemma length_block_at: "(k + 1) * dtype_type_size dt \<le> length raw \<Longrightarrow> length (block_at dt raw k) = dtype_type_size dt"
  by (simp add: block_at_def)

lemma dequantize_blocks:
  assumes "length raw = n * dtype_type_size dt" and "length raw < 2 ^ 64"
  shows "dequantize_into F dt raw (n * dtype_block_size dt) =
    Ok (concat (map (\<lambda>k. dequant_block F dt (block_at dt raw k)) [0..<n]))"
  using assms by (simp add: dequantize_into_def Let_def block_at_def)

lemma block_at_slice:
  assumes "b * dtype_type_size dt \<le> length raw" and "k < b - a"
  shows "block_at dt (slice_of raw (a * dtype_type_size dt) (b * dtype_type_size dt)) k = block_at dt raw (a + k)"
proof -
  have "(a + k + 1) * dtype_type_size dt \<le> b * dtype_type_size dt" using assms(2) by (intro mult_right_mono) linarith+
  then show ?thesis by (simp add: block_at_def slice_of_slice algebra_simps min_def)
qed

lemma slice_of_groups:
  assumes "\<And>k. k < n \<Longrightarrow> length (f k) = m" and "a \<le> b" "b \<le> n"
  shows "slice_of (concat (map f [0..<n])) (a * m) (b * m) = concat (map f [a..<b])"
proof -
  have n: "[0..<n] = [0..<a] @ [a..<b] @ [b..<n]"
    using assms(2,3) upt_add_eq_append [of 0 a "n - a"] upt_add_eq_append [of a b "n - b"] by simp
  let ?x = "concat (map f [0..<a])" and ?y = "concat (map f [a..<b])" and ?z = "concat (map f [b..<n])"
  have len: "length ?x = a * m" using assms by (intro length_concat_groups) simp
  have leny: "length ?y = b * m - a * m"
    using assms by (subst length_concat_map [where n = m]) (simp_all add: diff_mult_distrib)
  have "concat (map f [0..<n]) = ?x @ ?y @ ?z" unfolding n map_append concat_append ..
  then show ?thesis using len leny by (simp only: slice_of_def) simp
qed

lemma dequantize_slice:
  assumes raw: "length raw = n * dtype_type_size dt" "length raw < 2 ^ 64" and ab: "a \<le> b" "b \<le> n"
    and ys: "dequantize_into F dt raw (n * dtype_block_size dt) = Ok ys"
  shows "dequantize_into F dt (slice_of raw (a * dtype_type_size dt) (b * dtype_type_size dt)) ((b - a) * dtype_block_size dt) =
    Ok (slice_of ys (a * dtype_block_size dt) (b * dtype_block_size dt))"
proof -
  let ?t = "dtype_type_size dt" and ?f = "\<lambda>k. dequant_block F dt (block_at dt raw k)"
  have le: "b * ?t \<le> length raw" using raw(1) ab(2) by (simp add: mult_right_mono)
  have "length (slice_of raw (a * ?t) (b * ?t)) = (b - a) * ?t" using le by (simp add: diff_mult_distrib)
  moreover have "(b - a) * ?t < 2 ^ 64" using le raw(2) by (simp add: diff_mult_distrib)
  ultimately have "dequantize_into F dt (slice_of raw (a * ?t) (b * ?t)) ((b - a) * dtype_block_size dt) =
      Ok (concat (map (\<lambda>k. dequant_block F dt (block_at dt (slice_of raw (a * ?t) (b * ?t)) k)) [0..<b - a]))"
    using dequantize_blocks by simp
  also have "map (\<lambda>k. dequant_block F dt (block_at dt (slice_of raw (a * ?t) (b * ?t)) k)) [0..<b - a] = map ?f [a..<b]"
    by (rule nth_equalityI) (simp_all add: block_at_slice [OF le])
  also have "length (?f k) = dtype_block_size dt" if "k < n" for k
  proof -
    have "(k + 1) * ?t \<le> n * ?t" using that by (intro mult_right_mono) simp_all
    then show ?thesis using raw(1) by (intro length_dequant_block length_block_at) simp
  qed
  then have "concat (map ?f [a..<b]) = slice_of (concat (map ?f [0..<n])) (a * dtype_block_size dt) (b * dtype_block_size dt)"
    using slice_of_groups [of n ?f, OF _ ab] by simp
  finally show ?thesis using ys dequantize_blocks [OF raw, of F] by simp
qed

text \<open>C16: reading rows and dequantising commute: on a consistent file a matrix dequantises to
  \<open>rows * cols\<close> elements, and the bytes that the row reader returns for rows \<open>a\<close> to \<open>a + n\<close>
  dequantise to exactly these rows of it, for every format; this is what the embedding lookup and
  the row-sharded loaders rely on.\<close>

theorem dequantised_row_ranges:
  assumes "map_of (gf_tensors f) name = Some i" and "sized i" and "mapped_in f i"
    and "ti_dims i = [rows, cols]" and "info_block_size i dvd cols" and "a + n \<le> rows"
  shows "\<exists>ys raw. dequantize_tensor F f name = Ok ys \<and> length ys = rows * cols \<and>
    tensor_row_range_raw f name a n = Ok raw \<and>
    dequantize_into F (ti_dtype i) raw (n * cols) = Ok (slice_of ys (a * cols) ((a + n) * cols))"
proof -
  let ?dt = "ti_dtype i"
  obtain m where m: "cols = m * dtype_block_size ?dt" using assms(5) by (auto simp: info_block_size_def dvd_def mult.commute)
  have rb: "row_bytes i = m * dtype_type_size ?dt"
    by (simp add: row_bytes_def assms(4) m info_block_size_def info_type_size_def)
  have pb: "payload_bytes i = rows * row_bytes i" using payload_rows [of i] assms(4,5) by simp
  let ?raw = "payload f i"
  have len: "length ?raw = (rows * m) * dtype_type_size ?dt" "length ?raw < 2 ^ 64"
    using payload_bytes_bound [OF assms(2)] assms(3) by (simp_all add: pb rb mult.assoc)
  have ec: "elem_count i = (rows * m) * dtype_block_size ?dt"
    using elem_count_exact [OF assms(2)] by (simp add: assms(4) dims_prod_def m mult.assoc)
  define ys where "ys = concat (map (\<lambda>k. dequant_block F ?dt (block_at ?dt ?raw k)) [0..<rows * m])"
  have ys: "dequantize_into F ?dt ?raw ((rows * m) * dtype_block_size ?dt) = Ok ys"
    using dequantize_blocks [OF len] by (simp add: ys_def)
  have whole: "dequantize_tensor F f name = Ok ys"
    using ys tensor_raw_exact [OF assms(1-3)] assms(1) by (simp add: dequantize_tensor_def gf_info_def dequantize_to_vec_def ec)
  have "(k + 1) * dtype_type_size ?dt \<le> (rows * m) * dtype_type_size ?dt" if "k < rows * m" for k
    using that by (intro mult_right_mono) simp_all
  then have lys: "length ys = rows * cols"
    unfolding ys_def using len(1)
    by (subst length_concat_map [where n = "dtype_block_size ?dt"]) (simp_all add: length_dequant_block length_block_at m mult.assoc)
  have ab: "a * m \<le> (a + n) * m" "(a + n) * m \<le> rows * m" using assms(6) by (simp_all add: mult_right_mono)
  have read: "tensor_row_range_raw f name a n = Ok (slice_of ?raw (a * m * dtype_type_size ?dt) ((a + n) * m * dtype_type_size ?dt))"
    using row_range_exact [OF assms(1-3)] assms(4-6) by (simp add: rb mult.assoc)
  have "dequantize_into F ?dt (slice_of ?raw (a * m * dtype_type_size ?dt) ((a + n) * m * dtype_type_size ?dt)) (n * cols) =
      Ok (slice_of ys (a * cols) ((a + n) * cols))"
    using dequantize_slice [OF len ab ys] by (simp add: m mult.assoc add_mult_distrib)
  then show ?thesis using whole lys read by blast
qed


text \<open>Integers in place of binary32 values, for the witnesses.\<close>

definition int_floats :: "int quantize_floats" where
  "int_floats = \<lparr>qf_half = uint, qf_bf16 = uint, qf_bits = uint, qf_dyadic = (\<lambda>m k. m div 2 ^ k), qf_add = (+), qf_sub = (-),
     qf_mul = (*), qf_neg = uminus, qz_div = (div), qz_abs = abs, qz_sqrt = id, qz_max = max, qz_lt = (<), qz_eq = (=),
     qz_decimal = (\<lambda>m k. m div 10 ^ k), qz_ties_even = id, qz_to_half = word_of_int\<rparr>"

lemma dequantised_row_ranges_witness:
  "\<exists>ys raw. dequantize_tensor int_floats demo_file (ascii ''w'') = Ok ys \<and> length ys = 2 * 64 \<and>
    tensor_row_range_raw demo_file (ascii ''w'') 1 1 = Ok raw \<and>
    dequantize_into int_floats (ti_dtype demo_info) raw (1 * 64) = Ok (slice_of ys (1 * 64) ((1 + 1) * 64))"
  by (rule dequantised_row_ranges [OF demo_file_ok])
    (simp_all add: demo_info_def info_block_size_def qk_defs)

subsection \<open>Quantised rows\<close>

lemma row_reads_back:
  assumes block: "\<And>xi. length xi = dtype_block_size dt \<Longrightarrow>
      dequant_block F dt (pack xi) = vals xi \<and> length (pack xi) = dtype_type_size dt"
    and x: "length x = n * dtype_block_size dt" and small: "n * dtype_type_size dt < 2 ^ 64"
  shows "\<exists>raw. quantize_row (dtype_block_size dt) pack x out = Ok (out @ raw) \<and>
    dequantize_into F dt raw (length x) = Ok (concat (map (\<lambda>i. vals (group_of (dtype_block_size dt) x i)) [0..<n]))"
proof -
  let ?bs = "dtype_block_size dt" and ?ts = "dtype_type_size dt"
  let ?p = "\<lambda>i. pack (group_of ?bs x i)"
  define raw where "raw = concat (map ?p [0..<n])"
  have g: "length (group_of ?bs x i) = ?bs" if "i < n" for i
  proof -
    have "(i + 1) * ?bs \<le> n * ?bs" using that by (intro mult_right_mono) simp_all
    then show ?thesis using x by (intro length_group_of) (simp add: algebra_simps)
  qed
  have lp: "length (?p i) = ?ts" if "i < n" for i using block [OF g [OF that]] by simp
  have len: "length raw = n * ?ts" unfolding raw_def using lp by (rule length_concat_groups)
  have "block_at dt raw i = ?p i" if "i < n" for i
    using group_concat [where f = ?p, OF lp that] by (simp add: block_at_def group_of_def raw_def algebra_simps)
  then have same: "map (\<lambda>k. dequant_block F dt (block_at dt raw k)) [0..<n] = map (\<lambda>i. vals (group_of ?bs x i)) [0..<n]"
    using block [OF g] by (intro map_cong refl) simp
  have "dequantize_into F dt raw (length x) = Ok (concat (map (\<lambda>i. vals (group_of ?bs x i)) [0..<n]))"
    using dequantize_blocks [OF len, of F, unfolded same] small by (simp add: len x)
  moreover have "quantize_row ?bs pack x out = Ok (out @ raw)"
    by (simp add: quantize_row_def x raw_def)
  ultimately show ?thesis by blast
qed



subsection \<open>Table lookups\<close>

lemma unat_bits: "(\<And>n. bit (w :: 'a::len word) n \<Longrightarrow> n < k) \<Longrightarrow> unat w < 2 ^ k"
proof -
  assume b: "\<And>n. bit w n \<Longrightarrow> n < k"
  have "take_bit k w = w" by (rule bit_eqI) (auto simp: bit_take_bit_iff dest: b)
  then have "unat w = take_bit k (unat w)" by (metis unsigned_take_bit_eq)
  then show ?thesis by (metis take_bit_nat_less_exp)
qed


lemma unat_nibbles: "unat ((w :: octet) AND 0xF) < 16" "unat (drop_bit 4 (w :: octet)) < 16"
proof -
  show "unat (w AND 0xF) < 16" using unat_bits [of "w AND 0xF" 4] by (simp add: and_numeral_bits)
  have "n < 4" if "bit (drop_bit 4 w) n" for n using that bit_octet [of w "4 + n"] by (simp add: bit_drop_bit_eq)
  then show "unat (drop_bit 4 w) < 16" using unat_bits [of "drop_bit 4 w" 4] by simp
qed

lemma bit_numeral_word:
  "bit (127 :: 32 word) n \<longleftrightarrow> n < 7" "bit (127 :: 16 word) n \<longleftrightarrow> n < 7" "bit (511 :: 16 word) n \<longleftrightarrow> n < 9"
  "bit (256 :: 32 word) n \<longleftrightarrow> n = 8" "bit (0x300 :: 64 word) n \<longleftrightarrow> n = 8 \<or> n = 9"
  "bit (0x700 :: 64 word) n \<longleftrightarrow> n = 8 \<or> n = 9 \<or> n = 10" "bit (7 :: 64 word) n \<longleftrightarrow> n < 3"
proof -
  have m: "(127 :: 32 word) = mask 7" "(127 :: 16 word) = mask 7" "(511 :: 16 word) = mask 9" "(7 :: 64 word) = mask 3"
    "(256 :: 32 word) = push_bit 8 (mask 1)" "(0x300 :: 64 word) = push_bit 8 (mask 2)" "(0x700 :: 64 word) = push_bit 8 (mask 3)"
    by (simp_all add: mask_eq_exp_minus_1)
  show "bit (127 :: 32 word) n \<longleftrightarrow> n < 7" "bit (127 :: 16 word) n \<longleftrightarrow> n < 7" "bit (511 :: 16 word) n \<longleftrightarrow> n < 9"
    "bit (256 :: 32 word) n \<longleftrightarrow> n = 8" "bit (0x300 :: 64 word) n \<longleftrightarrow> n = 8 \<or> n = 9"
    "bit (0x700 :: 64 word) n \<longleftrightarrow> n = 8 \<or> n = 9 \<or> n = 10" "bit (7 :: 64 word) n \<longleftrightarrow> n < 3"
    unfolding m by (simp_all only: bit_mask_iff bit_push_bit_iff possible_bit_word) auto
qed

text \<open>C18: no lookup of the IQ decoders leaves its codebook, whatever the bytes of the file: the
  9-, 10- and 11-bit indices that are put together from a low byte and high bits elsewhere, the
  7-bit sign indices and the nibbles are all below the lengths of their tables.\<close>

theorem codebook_lookups_in_range:
  "unat (q8 :: octet) < length iq3xxs_grid \<and> unat q8 < length iq2xxs_grid \<and>
   unat (q16 AND 511 :: 16 word) < length iq2xs_grid \<and>
   unat (iq3_s_index q8 qh (k mod 8)) < length iq3s_grid \<and>
   unat (iq2_s_index q8 qh (l mod 4)) < length iq2s_grid \<and>
   unat (iq1_s_index q8 q16 (l mod 4)) < length iq1s_grid \<and>
   unat (iq1_m_index q8 qh s) < length iq1s_grid \<and>
   unat (drop_bit m aux AND 127 :: 32 word) < length ksigns_iq2xs \<and>
   unat (drop_bit 9 q16 AND 127 :: 16 word) < length ksigns_iq2xs \<and>
   unat (q8 AND 0xF) < length kvalues_iq4nl \<and> unat (drop_bit 4 q8) < length kvalues_iq4nl \<and>
   unat (q8 AND 0xF) < length (mxfp4_lut F) \<and> unat (drop_bit 4 q8 AND 0xF) < length (mxfp4_lut F)"
proof -
  have b: "unat q8 < 256" using unsigned_less [of q8] by simp
  have i: "unat (q16 AND 511) < 2 ^ 9" "unat (iq3_s_index q8 qh (k mod 8)) < 2 ^ 9"
    "unat (iq2_s_index q8 qh (l mod 4)) < 2 ^ 10" "unat (iq1_s_index q8 q16 (l mod 4)) < 2 ^ 11"
    "unat (iq1_m_index q8 qh s) < 2 ^ 11" "unat (drop_bit m aux AND 127 :: 32 word) < 2 ^ 7"
    "unat (drop_bit 9 q16 AND 127) < 2 ^ 7"
    by (rule unat_bits; auto simp: iq3_s_index_def iq2_s_index_def iq1_s_index_def iq1_m_index_def bit_or_iff bit_and_iff
      bit_ucast_iff bit_push_bit_iff bit_numeral_word simp del: bit_numeral_word_iff dest: bit_octet)+
  have t: "length kvalues_iq4nl = 16" "length (mxfp4_lut F) = 16" by (simp_all add: kvalues_iq4nl_def mxfp4_lut_def)
  show ?thesis using b i unat_nibbles [of q8] unat_nibbles(1) [of "drop_bit 4 q8"] by (simp add: grid_lengths t)
qed

subsection \<open>Scales that are not read\<close>

lemma iq2_xs_reads: "(\<And>i. i < 70 \<Longrightarrow> b ! i = c ! i) \<Longrightarrow> dequant_iq2_xs F b = dequant_iq2_xs F c"
  unfolding dequant_iq2_xs_def half_at_def u16_at_def Let_def
  by (intro arg_cong [of _ _ concat] arg_cong2 [of _ _ _ _ "(@)"] map_cong refl) simp_all

lemma iq2_s_reads: "(\<And>i. i < 78 \<Longrightarrow> b ! i = c ! i) \<Longrightarrow> dequant_iq2_s F b = dequant_iq2_s F c"
  unfolding dequant_iq2_s_def half_at_def u16_at_def Let_def
  by (intro arg_cong [of _ _ concat] arg_cong2 [of _ _ _ _ "(@)"] map_cong refl) simp_all

text \<open>half of the scale bytes of \<open>IQ2_XS\<close> and \<open>IQ2_S\<close> blocks are dead: a block of 74 or 82 bytes
  ends with eight scale bytes, one for each 32 elements, but the decoder reads only the byte
  \<open>ib32 / 2\<close>, so overwriting any of the last four changes no element.\<close>

theorem iq2_upper_scales_ignored:
  "dtype_type_size Iq2Xs = 74 \<and> dequant_block F Iq2Xs (b[70 + k := v]) = dequant_block F Iq2Xs b \<and>
   dtype_type_size Iq2S = 82 \<and> dequant_block F Iq2S (b[78 + k := v]) = dequant_block F Iq2S b"
  using iq2_xs_reads [of "b[70 + k := v]" b F] iq2_s_reads [of "b[78 + k := v]" b F] by (simp add: qk_defs)

end
