(* ===== verification/Embedding.thy ===== *)
theory Embedding
  imports Dequant_Props
begin

section \<open>Uses of the host formats in the loaders\<close>

text \<open>
  The token-embedding lookup of \<^verbatim>\<open>crates/models/gemma4-v2/src/model.rs\<close> and the \<open>Q8_0\<close> fallback of
  \<^verbatim>\<open>crates/forward/src/loader/primitives.rs\<close>. A tensor uploaded to the device is out of the model.
\<close>

datatype embd_error = HiddenUnaligned nat nat ggml_dtype | TokenOutOfBounds nat nat nat | DequantRow nat quant_error

record 'f embd_globals =
  main_embd_hidden :: nat
  main_embd_dtype :: ggml_dtype
  main_embd_raw :: octets
  main_embd_post_scale :: "'f option"

text \<open>One row as \<^verbatim>\<open>f32\<close>: the plain formats are read in place, the others dequantised.\<close>

definition embd_row ::
    "('f, 'm) quantize_floats_scheme \<Rightarrow> 'f embd_globals \<Rightarrow> nat \<Rightarrow> nat \<Rightarrow> (embd_error, 'f list) outcome" where
  "embd_row F g row_len token =
     (let raw = main_embd_raw g; row_off = wrap64 (token * row_len); row_end = wrap64 (row_off + row_len) in
      if row_end > length raw then Err (TokenOutOfBounds token row_end (length raw))
      else if row_off > row_end then Panic
      else
        (let row = slice_of raw row_off row_end; hidden = main_embd_hidden g in
         if main_embd_dtype g = F32 then Ok (map (\<lambda>i. qf_bits F (u32_at row (4 * i))) [0..<hidden])
         else if main_embd_dtype g = F16 then Ok (map (\<lambda>i. half_at F row (2 * i)) [0..<hidden])
         else map_err (DequantRow token) (dequantize_into F (main_embd_dtype g) row hidden)))"

fun embd_rows ::
    "('f, 'm) quantize_floats_scheme \<Rightarrow> 'f embd_globals \<Rightarrow> nat \<Rightarrow> 'f \<Rightarrow> nat list \<Rightarrow> (embd_error, 16 word list) outcome" where
  "embd_rows F g row_len scale [] = Ok []"
| "embd_rows F g row_len scale (t # ts) =
     obind (embd_row F g row_len t) (\<lambda>row.
       obind (embd_rows F g row_len scale ts) (\<lambda>out. Ok (map (\<lambda>v. qz_to_half F (qf_mul F v scale)) row @ out)))"

definition build_main_embd_host_f16 ::
    "('f, 'm) quantize_floats_scheme \<Rightarrow> 'f embd_globals \<Rightarrow> nat list \<Rightarrow> (embd_error, 16 word list) outcome" where
  "build_main_embd_host_f16 F g tokens =
     (let hidden = main_embd_hidden g; dtype = main_embd_dtype g; bs = dtype_block_size dtype; ts = dtype_type_size dtype in
      if hidden mod bs \<noteq> 0 then Err (HiddenUnaligned hidden bs dtype)
      else
        (let row_len = wrap64 (hidden div bs * ts);
             scale = (case main_embd_post_scale g of None \<Rightarrow> qf_int F 1 | Some s \<Rightarrow> s) in
         embd_rows F g row_len scale tokens))"

text \<open>\<open>None\<close> is the refusal of a buffer that is not a whole number of blocks.\<close>

definition f32_to_q8_0_bytes :: "('f, 'm) quantize_floats_scheme \<Rightarrow> 'f list \<Rightarrow> (unit, octets) outcome" where
  "f32_to_q8_0_bytes F f32_buf =
     (if length f32_buf mod 32 \<noteq> 0 then Err ()
      else foldl (\<lambda>bytes i. obind bytes (\<lambda>out. quantize_row_q8_0 F (group_of 32 f32_buf i) out)) (Ok [])
        [0..<length f32_buf div 32])"

subsection \<open>The lookup\<close>

text \<open>A table of \<open>vocab\<close> rows.\<close>

definition embd_table :: "'f embd_globals \<Rightarrow> nat \<Rightarrow> bool" where
  "embd_table g vocab \<longleftrightarrow> dtype_block_size (main_embd_dtype g) dvd main_embd_hidden g \<and>
     length (main_embd_raw g) = vocab * (main_embd_hidden g div dtype_block_size (main_embd_dtype g) * dtype_type_size (main_embd_dtype g)) \<and>
     length (main_embd_raw g) < 2 ^ 64"

lemma plain_rows:
  assumes "length row = h * dtype_type_size dt" and "length row < 2 ^ 64" and "dt = F32 \<or> dt = F16"
  shows "dequantize_into F dt row h = Ok (if dt = F32 then map (\<lambda>i. qf_bits F (u32_at row (4 * i))) [0..<h]
    else map (\<lambda>i. half_at F row (2 * i)) [0..<h])"
proof -
  have u: "u32_at (slice_of row (i * 4) (4 + i * 4)) 0 = u32_at row (4 * i)" if "length row = h * 4" "i < h" for i
    using that by (simp add: u32_at_def nth_slice_of mult.commute)
  have v: "half_at F (slice_of row (i * 2) (2 + i * 2)) 0 = half_at F row (2 * i)" if "length row = h * 2" "i < h" for i
    using that by (simp add: half_at_def u16_at_def nth_slice_of mult.commute)
  have c: "concat (map (\<lambda>i. [f i]) xs) = map f xs" for f and xs :: "nat list" by (induction xs) simp_all
  show ?thesis using assms(3)
  proof
    assume "dt = F32"
    then show ?thesis using assms(1,2) u by (auto simp: dequantize_into_def Let_def c)
  next
    assume "dt = F16"
    then show ?thesis using assms(1,2) v by (auto simp: dequantize_into_def Let_def c)
  qed
qed

lemma embd_row_slice:
  assumes table: "embd_table g vocab" and t: "t < vocab" and pos: "0 < main_embd_hidden g"
    and ys: "dequantize_into F (main_embd_dtype g) (main_embd_raw g) (vocab * main_embd_hidden g) = Ok ys"
  shows "embd_row F g (main_embd_hidden g div dtype_block_size (main_embd_dtype g) * dtype_type_size (main_embd_dtype g)) t =
    Ok (slice_of ys (t * main_embd_hidden g) ((t + 1) * main_embd_hidden g))"
proof -
  let ?dt = "main_embd_dtype g" and ?h = "main_embd_hidden g" and ?raw = "main_embd_raw g"
  obtain m where m: "?h = m * dtype_block_size ?dt" using table by (auto simp: embd_table_def dvd_def mult.commute)
  let ?rb = "m * dtype_type_size ?dt"
  have len: "length ?raw = (vocab * m) * dtype_type_size ?dt" "length ?raw < 2 ^ 64"
    using table by (simp_all add: embd_table_def m mult.assoc)
  have le: "(t + 1) * ?rb \<le> length ?raw" unfolding len(1) mult.assoc using t by (intro mult_right_mono) simp_all
  then have w: "wrap64 (t * ?rb) = t * ?rb" "wrap64 (t * ?rb + ?rb) = (t + 1) * ?rb"
    using len(2) by (simp_all add: algebra_simps)
  let ?row = "slice_of ?raw (t * ?rb) ((t + 1) * ?rb)"
  have lr: "length ?row = ?rb" "?rb < 2 ^ 64" using le len(2) by simp_all
  have "t * m \<le> (t + 1) * m" "(t + 1) * m \<le> vocab * m" using t by (simp_all add: mult_right_mono del: mult_Suc)
  then have row: "dequantize_into F ?dt ?row ?h = Ok (slice_of ys (t * ?h) ((t + 1) * ?h))"
    using dequantize_slice [OF len, of "t * m" "(t + 1) * m" F ys] ys by (simp add: m mult.assoc diff_mult_distrib add_mult_distrib)
  have "?dt = F32 \<or> ?dt = F16 \<Longrightarrow> ?h = m" by (auto simp: m)
  then have plain: "Ok (slice_of ys (t * ?h) ((t + 1) * ?h)) = Ok (if ?dt = F32 then map (\<lambda>i. qf_bits F (u32_at ?row (4 * i))) [0..<?h]
      else map (\<lambda>i. half_at F ?row (2 * i)) [0..<?h])" if "?dt = F32 \<or> ?dt = F16"
    using plain_rows [of ?row ?h ?dt F] lr that row by simp
  have "?h div dtype_block_size ?dt * dtype_type_size ?dt = ?rb" by (simp add: m)
  then show ?thesis using le row plain w by (auto simp: embd_row_def Let_def)
qed

subsection \<open>The lookup is the rows of the table\<close>

lemma embd_rows_ok:
  assumes "\<And>t. t \<in> set tokens \<Longrightarrow> embd_row F g n t = Ok (row t)"
  shows "embd_rows F g n scale tokens = Ok (concat (map (\<lambda>t. map (\<lambda>v. qz_to_half F (qf_mul F v scale)) (row t)) tokens))"
  using assms by (induction tokens) simp_all

lemma embd_rows_error:
  assumes "\<And>u. u \<in> set before \<Longrightarrow> embd_row F g n u = Ok (row u)" and "embd_row F g n t = Err e"
  shows "embd_rows F g n scale (before @ t # after) = Err e"
  using assms by (induction before) simp_all

lemma embd_row_beyond:
  assumes table: "embd_table g vocab" and pos: "0 < main_embd_hidden g" and t: "vocab \<le> t" "t < 2 ^ 32"
    and small: "dtype_type_size (main_embd_dtype g) * main_embd_hidden g < 2 ^ 31"
    and n: "n = main_embd_hidden g div dtype_block_size (main_embd_dtype g) * dtype_type_size (main_embd_dtype g)"
  shows "n < 2 ^ 64" and "embd_row F g n t = Err (TokenOutOfBounds t ((t + 1) * n) (length (main_embd_raw g)))"
proof -
  let ?dt = "main_embd_dtype g" and ?h = "main_embd_hidden g"
  have "n \<le> dtype_type_size ?dt * ?h" unfolding n by (simp add: mult.commute)
  then have n31: "n < 2 ^ 31" using small by simp
  then show "n < 2 ^ 64" by simp
  have "dtype_block_size ?dt \<le> ?h" using table pos by (auto simp: embd_table_def intro: dvd_imp_le)
  then have "0 < n" unfolding n by (simp add: div_greater_zero_iff)
  then have beyond: "length (main_embd_raw g) < (t + 1) * n"
    using table t(1) by (simp add: embd_table_def n [symmetric] add_strict_increasing mult_le_mono1)
  have "(t + 1) * n \<le> 2 ^ 32 * 2 ^ 31" using t(2) n31 by (intro mult_le_mono) simp_all
  then have "wrap64 (t * n) = t * n" "wrap64 (t * n + n) = (t + 1) * n" by (simp_all add: algebra_simps)
  then show "embd_row F g n t = Err (TokenOutOfBounds t ((t + 1) * n) (length (main_embd_raw g)))"
    using beyond by (simp add: embd_row_def Let_def)
qed

lemma lookup_cases:
  assumes table: "embd_table g vocab" and pos: "0 < main_embd_hidden g"
    and ys: "dequantize_into F (main_embd_dtype g) (main_embd_raw g) (vocab * main_embd_hidden g) = Ok ys"
    and ok: "\<forall>t \<in> set tokens. t < vocab"
  shows "build_main_embd_host_f16 F g tokens = Ok (concat (map (\<lambda>t. map (\<lambda>v. qz_to_half F (qf_mul F v
      (case main_embd_post_scale g of None \<Rightarrow> qf_int F 1 | Some s \<Rightarrow> s)))
      (slice_of ys (t * main_embd_hidden g) ((t + 1) * main_embd_hidden g))) tokens))"
    and "\<lbrakk>vocab \<le> t; t < 2 ^ 32; dtype_type_size (main_embd_dtype g) * main_embd_hidden g < 2 ^ 31\<rbrakk> \<Longrightarrow>
      \<exists>e. build_main_embd_host_f16 F g (tokens @ t # later) = Err (TokenOutOfBounds t e (length (main_embd_raw g)))"
proof -
  let ?h = "main_embd_hidden g"
  let ?n = "?h div dtype_block_size (main_embd_dtype g) * dtype_type_size (main_embd_dtype g)"
  have row: "embd_row F g ?n u = Ok (slice_of ys (u * ?h) ((u + 1) * ?h))" if "u < vocab" for u
    by (rule embd_row_slice [OF table that pos ys])
  have div: "?h mod dtype_block_size (main_embd_dtype g) = 0" using table by (simp add: embd_table_def dvd_eq_mod_eq_0)
  have n: "?n < 2 ^ 64" if "0 < vocab"
    using table that by (auto simp: embd_table_def intro: le_less_trans [rotated])
  show "build_main_embd_host_f16 F g tokens = Ok (concat (map (\<lambda>t. map (\<lambda>v. qz_to_half F (qf_mul F v
      (case main_embd_post_scale g of None \<Rightarrow> qf_int F 1 | Some s \<Rightarrow> s)))
      (slice_of ys (t * ?h) ((t + 1) * ?h))) tokens))"
  proof (cases "tokens = []")
    case False
    then have "0 < vocab" using ok by (cases tokens) auto
    then show ?thesis unfolding build_main_embd_host_f16_def Let_def
      using div n row ok by (simp add: embd_rows_ok)
  qed (use div in \<open>simp add: build_main_embd_host_f16_def Let_def\<close>)
  assume t: "vocab \<le> t" "t < 2 ^ 32" and small: "dtype_type_size (main_embd_dtype g) * ?h < 2 ^ 31"
  note beyond = embd_row_beyond [OF table pos t small refl]
  show "\<exists>e. build_main_embd_host_f16 F g (tokens @ t # later) = Err (TokenOutOfBounds t e (length (main_embd_raw g)))"
    using div embd_rows_error [OF row beyond(2)] ok beyond(1)
    by (simp add: build_main_embd_host_f16_def Let_def)
qed

text \<open>C19: functional. Let the embedding table be \<open>vocab\<close> whole rows that dequantise to \<open>ys\<close>. For tokens below \<open>vocab\<close> the
  lookup returns, in the order of the tokens, the rows of \<open>ys\<close> times the post scale and rounded to \<open>f16\<close>, in every format;
  the first token at or above \<open>vocab\<close> makes the call fail and names that token.\<close>

theorem embedding_lookup:
  assumes "embd_table g vocab" and "0 < main_embd_hidden g"
    and "dequantize_into F (main_embd_dtype g) (main_embd_raw g) (vocab * main_embd_hidden g) = Ok ys"
    and "\<forall>t \<in> set tokens. t < vocab"
    and "vocab \<le> bad" and "bad < 2 ^ 32" and "dtype_type_size (main_embd_dtype g) * main_embd_hidden g < 2 ^ 31"
  shows "build_main_embd_host_f16 F g tokens = Ok (concat (map (\<lambda>t. map (\<lambda>v. qz_to_half F (qf_mul F v
      (case main_embd_post_scale g of None \<Rightarrow> qf_int F 1 | Some s \<Rightarrow> s)))
      (slice_of ys (t * main_embd_hidden g) ((t + 1) * main_embd_hidden g))) tokens)) \<and>
    (\<exists>e. build_main_embd_host_f16 F g (tokens @ bad # later) =
      Err (TokenOutOfBounds bad e (length (main_embd_raw g))))"
  using lookup_cases [OF assms(1-4)] assms(5-7) by simp

definition demo_embd :: "int embd_globals" where
  "demo_embd = \<lparr>main_embd_hidden = 2, main_embd_dtype = F16, main_embd_raw = map of_nat [1, 0, 2, 0, 3, 0, 4, 0, 5, 0, 6, 0],
     main_embd_post_scale = Some 10\<rparr>"

lemma demo_embd_values:
  "embd_table demo_embd 3" "dequantize_into int_floats F16 (main_embd_raw demo_embd) 6 = Ok [1, 2, 3, 4, 5, 6]"
  by (simp_all add: demo_embd_def embd_table_def dequantize_into_def half_at_def u16_at_def slice_of_def upt_rec int_floats_def)

lemma embedding_lookup_witness:
  "build_main_embd_host_f16 int_floats demo_embd [2, 0] = Ok [50, 60, 10, 20] \<and>
    (\<exists>e. build_main_embd_host_f16 int_floats demo_embd [2, 0, 3] = Err (TokenOutOfBounds 3 e (length (main_embd_raw demo_embd))))"
  using embedding_lookup [of demo_embd 3 int_floats "[1, 2, 3, 4, 5, 6]" "[2, 0]" 3 "[]"] demo_embd_values
  by (simp add: demo_embd_def slice_of_def int_floats_def)

subsection \<open>The \<open>Q8_0\<close> fallback writes one row\<close>

lemma f32_to_q8_0_is_a_row:
  "length x mod 32 = 0 \<Longrightarrow> f32_to_q8_0_bytes F x = quantize_row_q8_0 F x []"
proof -
  assume m: "length x mod 32 = 0"
  have g: "length (group_of 32 x i) = 32" if "i < length x div 32" for i
    using that by (intro length_group_of) linarith
  have one: "quantize_row_q8_0 F (group_of 32 x i) out = Ok (out @ pack_block_q8_0 F (group_of 32 x i))"
    if "i < length x div 32" for i out
    using g [OF that] by (simp add: quantize_row_q8_0_def quantize_row_def group_of_def slice_of_def qk_defs)
  have "foldl (\<lambda>bytes i. obind bytes (\<lambda>out. quantize_row_q8_0 F (group_of 32 x i) out)) (Ok []) [0..<k] =
    Ok (concat (map (\<lambda>i. pack_block_q8_0 F (group_of 32 x i)) [0..<k]))" if "k \<le> length x div 32" for k
    using that by (induction k) (simp_all add: one)
  then have "f32_to_q8_0_bytes F x = Ok (concat (map (\<lambda>i. pack_block_q8_0 F (group_of 32 x i)) [0..<length x div 32]))"
    using m unfolding f32_to_q8_0_bytes_def by simp
  then show ?thesis using m by (simp add: quantize_row_q8_0_def quantize_row_def qk_defs)
qed

end
