(* ===== verification/Tp_Slice.thy ===== *)
theory Tp_Slice
  imports Gguf_Reads
begin

section \<open>Tensor-parallel layouts and host-side slicing\<close>

text \<open>
  \<^verbatim>\<open>WeightLayout\<close> of \<^verbatim>\<open>crates/runtime/src/tp_layout.rs\<close> and
  \<^verbatim>\<open>slice_for_tp\<close> of \<^verbatim>\<open>crates/runtime/src/tp_slice.rs\<close>: which bytes of a
  tensor a rank uploads. Counts of \<^verbatim>\<open>usize\<close> are natural numbers: on a tensor whose size
  fits 64 bits every product below is at most that size. Borrowed and owned results are the same
  bytes here.
\<close>

subsection \<open>Layouts\<close>

datatype weight_layout =
    Replicated
  | ColParallel (cp_world: nat) (cp_dim: nat)
  | RowParallel (rp_world: nat) (rp_dim: nat)
  | FusedQkvParallel (fq_world: nat) (num_v_heads: nat) (num_k_heads: nat) (head_v_dim: nat)
      (head_k_dim: nat) (kq_replicated: bool)

datatype layout_error = Indivisible nat nat | LayoutRankOutOfRange nat nat | FusedQkvNoSingleOffset

definition wl_col_parallel :: "nat \<Rightarrow> nat \<Rightarrow> (layout_error, weight_layout) outcome" where
  "wl_col_parallel world dim = (if world \<ge> 1 then Ok (ColParallel world dim) else Panic)"

definition wl_row_parallel :: "nat \<Rightarrow> nat \<Rightarrow> (layout_error, weight_layout) outcome" where
  "wl_row_parallel world dim = (if world \<ge> 1 then Ok (RowParallel world dim) else Panic)"

fun is_sharded :: "weight_layout \<Rightarrow> bool" where
  "is_sharded Replicated = False"
| "is_sharded _ = True"

fun requires_output_all_reduce :: "weight_layout \<Rightarrow> bool" where
  "requires_output_all_reduce (RowParallel _ _) = True"
| "requires_output_all_reduce _ = False"

fun wl_world :: "weight_layout \<Rightarrow> nat option" where
  "wl_world Replicated = None"
| "wl_world (ColParallel w _) = Some w"
| "wl_world (RowParallel w _) = Some w"
| "wl_world (FusedQkvParallel w _ _ _ _ _) = Some w"

fun wl_dim :: "weight_layout \<Rightarrow> nat option" where
  "wl_dim (ColParallel _ d) = Some d"
| "wl_dim (RowParallel _ d) = Some d"
| "wl_dim _ = None"

text \<open>A remainder by a zero world panics.\<close>

definition shard_size :: "weight_layout \<Rightarrow> nat \<Rightarrow> (layout_error, nat) outcome" where
  "shard_size wl n =
     (case wl_world wl of
        None \<Rightarrow> Ok n
      | Some w \<Rightarrow>
          (if w = 0 then Panic else if n mod w \<noteq> 0 then Err (Indivisible n w) else Ok (n div w)))"

fun shard_byte_offset :: "weight_layout \<Rightarrow> nat \<Rightarrow> nat \<Rightarrow> nat \<Rightarrow> (layout_error, nat) outcome" where
  "shard_byte_offset Replicated rank n unit = Ok 0"
| "shard_byte_offset (FusedQkvParallel _ _ _ _ _ _) rank n unit = Err FusedQkvNoSingleOffset"
| "shard_byte_offset wl rank n unit =
     (case wl_world wl of
        None \<Rightarrow> Ok 0
      | Some w \<Rightarrow>
          (if rank \<ge> w then Err (LayoutRankOutOfRange rank w)
           else obind (shard_size wl n) (\<lambda>shard. Ok (rank * shard * unit))))"

subsection \<open>Slicing\<close>

datatype slice_error =
    UnsupportedAxis string nat
  | OuterIndivisible octets nat nat
  | InnerIndivisible octets nat nat
  | InnerBlockMisaligned octets nat nat
  | NotTwoDimensional octets nat
  | RankOutOfRange nat nat
  | QuantErr quant_error
  | MmapShort octets nat nat
  | HeadsIndivisible nat nat
  | FusedOuterMismatch octets nat nat
  | TotalIndivisible octets nat nat
  | ZeroOuter octets
  | TotalNotMultiple octets nat nat

type_synonym slice_result = "(slice_error, octets) outcome"

definition slice_col_dim0 :: "gguf_file \<Rightarrow> octets \<Rightarrow> nat \<Rightarrow> nat \<Rightarrow> slice_result" where
  "slice_col_dim0 f name world rank =
     (if rank \<ge> world then Err (RankOutOfRange rank world)
      else
        obind (map_err QuantErr (gf_info f name)) (\<lambda>info.
          let nd = length (ti_dims info) in
          if nd = 0 \<or> nd > 2 then Err (NotTwoDimensional name nd)
          else
            (let outer = ti_dims info ! 0 in
             if outer mod world \<noteq> 0 then Err (OuterIndivisible name outer world)
             else
               (let rows_per_rank = outer div world; row_start = rank * rows_per_rank in
                if nd = 1 then
                  (let bytes_per_elem = info_type_size info;
                       byte_start = row_start * bytes_per_elem;
                       byte_len = rows_per_rank * bytes_per_elem in
                   obind (map_err QuantErr (tensor_raw f name)) (\<lambda>full.
                     if byte_start + byte_len > length full then Err (OuterIndivisible name outer world)
                     else Ok (slice_of full byte_start (byte_start + byte_len))))
                else map_err QuantErr (tensor_row_range_raw f name row_start rows_per_rank)))))"

text \<open>
  The packing loops: \<open>n\<close> rounds, the bytes from \<open>start i\<close> to \<open>end i\<close> in each, a check of the end
  against the mapped length before every copy.
\<close>

fun pack_checked ::
    "octets \<Rightarrow> octets \<Rightarrow> (nat \<times> nat) list \<Rightarrow> octets \<Rightarrow> slice_result" where
  "pack_checked name raw [] acc = Ok acc"
| "pack_checked name raw ((s, e) # ranges) acc =
     (if e > length raw then Err (MmapShort name (length raw) e)
      else pack_checked name raw ranges (acc @ slice_of raw s e))"

definition slice_col_dim1_3d :: "gguf_file \<Rightarrow> octets \<Rightarrow> nat \<Rightarrow> nat \<Rightarrow> slice_result" where
  "slice_col_dim1_3d f name world rank =
     (if rank \<ge> world then Err (RankOutOfRange rank world)
      else
        obind (map_err QuantErr (gf_info f name)) (\<lambda>info.
          if length (ti_dims info) \<noteq> 3 then Err (NotTwoDimensional name (length (ti_dims info)))
          else
            (let n_experts = ti_dims info ! 0; dim1 = ti_dims info ! 1; dim2 = ti_dims info ! 2;
                 bs = info_block_size info in
             if dim1 mod world \<noteq> 0 then Err (OuterIndivisible name dim1 world)
             else if dim2 mod bs \<noteq> 0 then Err (InnerBlockMisaligned name dim2 bs)
             else
               (let rb = dim2 div bs * info_type_size info in
                obind (map_err QuantErr (tensor_raw f name)) (\<lambda>raw.
                  let dim1_local = dim1 div world; rank_row_start = rank * dim1_local;
                      slab = dim1 * rb in
                  pack_checked name raw
                    (map (\<lambda>e. let rank_offset = e * slab + rank_row_start * rb in
                            (rank_offset, rank_offset + dim1_local * rb)) [0..<n_experts]) [])))))"

definition slice_row_dim2_3d :: "gguf_file \<Rightarrow> octets \<Rightarrow> nat \<Rightarrow> nat \<Rightarrow> slice_result" where
  "slice_row_dim2_3d f name world rank =
     (if rank \<ge> world then Err (RankOutOfRange rank world)
      else
        obind (map_err QuantErr (gf_info f name)) (\<lambda>info.
          if length (ti_dims info) \<noteq> 3 then Err (NotTwoDimensional name (length (ti_dims info)))
          else
            (let n_experts = ti_dims info ! 0; dim1 = ti_dims info ! 1; dim2 = ti_dims info ! 2;
                 bs = info_block_size info in
             if dim2 mod world \<noteq> 0 then Err (InnerIndivisible name dim2 world)
             else
               (let dim2_local = dim2 div world in
                if dim2_local mod bs \<noteq> 0 then Err (InnerBlockMisaligned name dim2_local bs)
                else
                  (let full_rb = dim2 div bs * info_type_size info;
                       local_rb = dim2_local div bs * info_type_size info;
                       col_off = rank * local_rb in
                   obind (map_err QuantErr (tensor_raw f name)) (\<lambda>raw.
                     pack_checked name raw
                       (concat (map (\<lambda>e. map (\<lambda>row.
                            let s = e * dim1 * full_rb + row * full_rb + col_off in (s, s + local_rb))
                          [0..<dim1]) [0..<n_experts])) []))))))"

definition slice_row_dim1 :: "gguf_file \<Rightarrow> octets \<Rightarrow> nat \<Rightarrow> nat \<Rightarrow> slice_result" where
  "slice_row_dim1 f name world rank =
     (if rank \<ge> world then Err (RankOutOfRange rank world)
      else
        obind (map_err QuantErr (gf_info f name)) (\<lambda>info.
          if length (ti_dims info) \<noteq> 2 then Err (NotTwoDimensional name (length (ti_dims info)))
          else
            (let outer = ti_dims info ! 0; inner = ti_dims info ! 1; bs = info_block_size info in
             if inner mod world \<noteq> 0 then Err (InnerIndivisible name inner world)
             else
               (let per_rank_inner = inner div world in
                if per_rank_inner mod bs \<noteq> 0 then Err (InnerBlockMisaligned name per_rank_inner bs)
                else
                  (let ts = info_type_size info; full_rb = inner div bs * ts;
                       local_rb = per_rank_inner div bs * ts;
                       col_off = rank * (per_rank_inner div bs) * ts in
                   obind (map_err QuantErr (tensor_raw f name)) (\<lambda>raw.
                     if length raw < outer * full_rb then
                       Err (MmapShort name (length raw) (outer * full_rb))
                     else
                       Ok (concat (map (\<lambda>row. let s = row * full_rb + col_off in
                              slice_of raw s (s + local_rb)) [0..<outer]))))))))"

record fused_qkv_spec =
  fs_num_v_heads :: nat
  fs_num_k_heads :: nat
  fs_head_v_dim :: nat
  fs_head_k_dim :: nat
  fs_kq_replicated :: bool

definition slice_fused_qkv ::
    "gguf_file \<Rightarrow> octets \<Rightarrow> nat \<Rightarrow> nat \<Rightarrow> fused_qkv_spec \<Rightarrow> slice_result" where
  "slice_fused_qkv f name world rank spec =
     (if rank \<ge> world then Err (RankOutOfRange rank world)
      else if fs_num_v_heads spec mod world \<noteq> 0 then Err (HeadsIndivisible (fs_num_v_heads spec) world)
      else if \<not> fs_kq_replicated spec \<and> fs_num_k_heads spec mod world \<noteq> 0 then
        Err (HeadsIndivisible (fs_num_k_heads spec) world)
      else
        obind (map_err QuantErr (gf_info f name)) (\<lambda>info.
          if length (ti_dims info) \<noteq> 2 then Err (NotTwoDimensional name (length (ti_dims info)))
          else
            (let outer_full = ti_dims info ! 0;
                 v_part = fs_num_v_heads spec * fs_head_v_dim spec;
                 k_part = fs_num_k_heads spec * fs_head_k_dim spec;
                 expect_outer = v_part + 2 * k_part in
             if outer_full \<noteq> expect_outer then Err (FusedOuterMismatch name outer_full expect_outer)
             else
               (let inner = ti_dims info ! 1; bs = info_block_size info in
                if inner mod bs \<noteq> 0 then Err (InnerBlockMisaligned name inner bs)
                else
                  (let rb = inner div bs * info_type_size info in
                   obind (map_err QuantErr (tensor_raw f name)) (\<lambda>raw.
                     if length raw < outer_full * rb then
                       Err (MmapShort name (length raw) (outer_full * rb))
                     else
                       (let v_local = v_part div world;
                            k_local = k_part div world;
                            (q_rows, k_rows, q_off, k_off) =
                              (if fs_kq_replicated spec then (k_part, k_part, 0, k_part)
                               else (k_local, k_local, rank * k_local, k_part + rank * k_local));
                            v_off = 2 * k_part + rank * v_local in
                        Ok (slice_of raw (q_off * rb) ((q_off + q_rows) * rb)
                            @ slice_of raw (k_off * rb) ((k_off + k_rows) * rb)
                            @ slice_of raw (v_off * rb) ((v_off + v_local) * rb)))))))))"

definition slice_for_tp ::
    "gguf_file \<Rightarrow> octets \<Rightarrow> weight_layout \<Rightarrow> nat \<Rightarrow> slice_result" where
  "slice_for_tp f name layout rank =
     (case layout of
        Replicated \<Rightarrow> map_err QuantErr (tensor_raw f name)
      | ColParallel world dim \<Rightarrow>
          (if dim = 0 then slice_col_dim0 f name world rank
           else if dim = 1 then slice_col_dim1_3d f name world rank
           else Err (UnsupportedAxis ''ColParallel'' dim))
      | RowParallel world dim \<Rightarrow>
          (if dim = 1 then slice_row_dim1 f name world rank
           else if dim = 2 then slice_row_dim2_3d f name world rank
           else Err (UnsupportedAxis ''RowParallel'' dim))
      | FusedQkvParallel world nv nk hv hk rep \<Rightarrow>
          slice_fused_qkv f name world rank
            \<lparr>fs_num_v_heads = nv, fs_num_k_heads = nk, fs_head_v_dim = hv, fs_head_k_dim = hk,
             fs_kq_replicated = rep\<rparr>)"

definition slice_bytes_for_tp ::
    "gguf_file \<Rightarrow> octets \<Rightarrow> weight_layout \<Rightarrow> (slice_error, nat) outcome" where
  "slice_bytes_for_tp f name layout =
     obind (map_err QuantErr (gf_info f name)) (\<lambda>info.
       let tot = size_in_bytes info;
           split_evenly = (\<lambda>world.
             if world = 0 then Panic
             else if tot mod world \<noteq> 0 then Err (TotalIndivisible name tot world)
             else Ok (tot div world)) in
       case layout of
         Replicated \<Rightarrow> Ok tot
       | ColParallel world _ \<Rightarrow> split_evenly world
       | RowParallel world _ \<Rightarrow> split_evenly world
       | FusedQkvParallel world nv nk hv hk rep \<Rightarrow>
           (if \<not> rep then split_evenly world
            else
              (let v_rows = nv * hv; k_rows = nk * hk in
               if world = 0 then Panic
               else if v_rows mod world \<noteq> 0 then Err (TotalIndivisible name v_rows world)
               else
                 (let outer_full = v_rows + 2 * k_rows in
                  if outer_full = 0 then Err (ZeroOuter name)
                  else
                    (let rb = tot div outer_full in
                     if tot \<noteq> outer_full * rb then Err (TotalNotMultiple name tot outer_full)
                     else Ok ((v_rows div world + 2 * k_rows) * rb))))))"

end
