(* ===== verification/Tp_Shards.thy ===== *)
theory Tp_Shards
  imports Tp_Slice
begin

section \<open>The ranks' slices partition the tensor\<close>

text \<open>
  What \<^verbatim>\<open>slice_for_tp\<close> hands the ranks: every rank gets as many bytes as
  \<^verbatim>\<open>slice_bytes_for_tp\<close> announces, and putting the ranks' rows side by side gives the
  tensor back, for each of the contiguous layouts; for the fused layout, part by part.
\<close>

subsection \<open>Packed rows\<close>

text \<open>\<open>n\<close> rows of \<open>stride\<close> bytes, of each the \<open>l\<close> bytes from \<open>off\<close>.\<close>

definition pack_rows :: "'a list \<Rightarrow> nat \<Rightarrow> nat \<Rightarrow> nat \<Rightarrow> nat \<Rightarrow> 'a list" where
  "pack_rows xs n stride off l =
     concat (map (\<lambda>i. slice_of xs (i * stride + off) (i * stride + off + l)) [0..<n])"

text \<open>The ranks' slices, each of \<open>n\<close> rows of \<open>l\<close> bytes, with the rows side by side.\<close>

definition unshard :: "nat \<Rightarrow> nat \<Rightarrow> 'a list list \<Rightarrow> 'a list" where
  "unshard n l ss =
     concat (map (\<lambda>i. concat (map (\<lambda>s. slice_of s (i * l) (i * l + l)) ss)) [0..<n])"

lemma slice_concat:
  "(\<And>j. j < n \<Longrightarrow> length (f j) = l) \<Longrightarrow> i < n \<Longrightarrow>
     slice_of (concat (map f [0..<n])) (i * l) (i * l + l) = f i"
proof (induction n)
  case (Suc n)
  have len: "length (concat (map f [0..<n])) = n * l"
    using Suc.prems(1) by (induction n) (simp_all add: add.commute)
  show ?case
  proof (cases "i = n")
    case True
    then show ?thesis using len Suc.prems(1) by (simp add: slice_of_def)
  next
    case False
    then have "i < n" using Suc.prems(2) by simp
    then have "i * l + l \<le> n * l" using mult_le_mono1 [of "Suc i" n l] by simp
    then show ?thesis
      using Suc.IH [OF Suc.prems(1)] \<open>i < n\<close> len by (simp add: slice_of_def)
  qed
qed simp

lemma row_bound: "i < n \<Longrightarrow> off + l \<le> stride \<Longrightarrow> i * stride + off + l \<le> n * (stride :: nat)"
  using mult_le_mono1 [of "Suc i" n stride] by simp

lemma pack_row:
  assumes "n * stride \<le> length xs" and "off + l \<le> stride" and "i < n"
  shows "slice_of (pack_rows xs n stride off l) (i * l) (i * l + l) =
    slice_of xs (i * stride + off) (i * stride + off + l)"
  unfolding pack_rows_def
proof (rule slice_concat [OF _ assms(3)])
  show "length (slice_of xs (j * stride + off) (j * stride + off + l)) = l" if "j < n" for j
    using row_bound [OF that assms(2)] assms(1) by simp
qed

lemma length_pack_rows:
  assumes "n * stride \<le> length xs" and "off + l \<le> stride"
  shows "length (pack_rows xs n stride off l) = n * l"
proof -
  have "length (slice_of xs (j * stride + off) (j * stride + off + l)) = l" if "j < n" for j
    using row_bound [OF that assms(2)] assms(1) by simp
  then have "length (pack_rows xs m stride off l) = m * l" if "m \<le> n" for m
    using that by (induction m) (simp_all add: pack_rows_def add.commute)
  then show ?thesis by simp
qed

lemma unshard_pack_rows:
  assumes "length xs = n * (w * l)"
  shows "unshard n l (map (\<lambda>r. pack_rows xs n (w * l) (r * l) l) [0..<w]) = xs"
proof -
  have off: "r * l + l \<le> w * l" if "r < w" for r
    using mult_le_mono1 [of "Suc r" w l] that by simp
  have row: "concat (map (\<lambda>s. slice_of s (i * l) (i * l + l))
      (map (\<lambda>r. pack_rows xs n (w * l) (r * l) l) [0..<w])) =
      slice_of xs (i * (w * l) + 0 * l) (i * (w * l) + w * l)"
    if "i < n" for i
  proof -
    have "map (\<lambda>r. slice_of (pack_rows xs n (w * l) (r * l) l) (i * l) (i * l + l)) [0..<w] =
        map (\<lambda>r. slice_of xs (i * (w * l) + r * l) (i * (w * l) + Suc r * l)) [0..<w]"
    proof (intro map_cong refl)
      fix r assume "r \<in> set [0..<w]"
      then have "r < w" by simp
      have "slice_of (pack_rows xs n (w * l) (r * l) l) (i * l) (i * l + l) =
          slice_of xs (i * (w * l) + r * l) (i * (w * l) + r * l + l)"
        using assms off [OF \<open>r < w\<close>] that by (intro pack_row) simp_all
      then show "slice_of (pack_rows xs n (w * l) (r * l) l) (i * l) (i * l + l) =
          slice_of xs (i * (w * l) + r * l) (i * (w * l) + Suc r * l)"
        by (simp add: add.assoc add.commute [of l])
    qed
    moreover have "concat (map (\<lambda>r. slice_of xs (i * (w * l) + r * l) (i * (w * l) + Suc r * l)) [0..<w])
        = slice_of xs (i * (w * l) + 0 * l) (i * (w * l) + w * l)"
      by (rule concat_slices) simp
    ultimately show ?thesis by (simp only: map_map comp_def)
  qed
  have "unshard n l (map (\<lambda>r. pack_rows xs n (w * l) (r * l) l) [0..<w]) =
      concat (map (\<lambda>i. slice_of xs (i * (w * l)) (Suc i * (w * l))) [0..<n])"
    unfolding unshard_def using row
    by (intro arg_cong [where f = concat] map_cong refl) (simp add: add.commute)
  also have "\<dots> = slice_of xs (0 * (w * l)) (n * (w * l))"
    by (rule concat_slices) simp
  also have "\<dots> = xs" using assms slice_of_all [of xs] by simp
  finally show ?thesis .
qed

lemma pack_checked_ok:
  "(\<forall>(s, e) \<in> set ranges. e \<le> length raw) \<Longrightarrow>
     pack_checked name raw ranges acc = Ok (acc @ concat (map (\<lambda>(s, e). slice_of raw s e) ranges))"
  by (induction name raw ranges acc rule: pack_checked.induct) auto

text \<open>Two nested loops over experts and rows are one loop over all rows.\<close>

lemma nested_rows:
  "concat (map (\<lambda>e. map (\<lambda>r. g (e * d + r)) [0..<d]) [0..<n]) = map g [0..<n * d]"
proof (induction n)
  case (Suc n)
  have "map (\<lambda>r. g (n * d + r)) [0..<d] = map g [n * d..<n * d + d]"
    by (rule nth_equalityI) simp_all
  moreover have "[0..<n * d + d] = [0..<n * d] @ [n * d..<n * d + d]"
    by (metis le0 upt_add_eq_append)
  ultimately show ?case using Suc by (simp add: add.commute)
qed simp

subsection \<open>The slices of the four contiguous layouts\<close>

text \<open>The tensors a layout can be applied to, and the rows that are cut.\<close>

fun shardable :: "weight_layout \<Rightarrow> tensor_info \<Rightarrow> bool" where
  "shardable (ColParallel w d) i \<longleftrightarrow> 0 < w \<and>
     (if d = 0 then
        length (ti_dims i) = 1 \<and> info_block_size i = 1 \<and> w dvd ti_dims i ! 0
        \<or> length (ti_dims i) = 2 \<and> info_block_size i dvd ti_dims i ! 1 \<and> w dvd ti_dims i ! 0
      else d = 1 \<and> length (ti_dims i) = 3 \<and> info_block_size i dvd ti_dims i ! 2 \<and> w dvd ti_dims i ! 1)"
| "shardable (RowParallel w d) i \<longleftrightarrow> 0 < w \<and>
     (if d = 1 then
        length (ti_dims i) = 2 \<and> w dvd ti_dims i ! 1 \<and> info_block_size i dvd (ti_dims i ! 1 div w)
      else d = 2 \<and> length (ti_dims i) = 3 \<and> w dvd ti_dims i ! 2
        \<and> info_block_size i dvd (ti_dims i ! 2 div w))"
| "shardable _ i \<longleftrightarrow> False"

fun shard_rows :: "weight_layout \<Rightarrow> tensor_info \<Rightarrow> nat" where
  "shard_rows (ColParallel w d) i = (if d = 0 then 1 else ti_dims i ! 0)"
| "shard_rows (RowParallel w d) i = (if d = 1 then ti_dims i ! 0 else ti_dims i ! 0 * ti_dims i ! 1)"
| "shard_rows _ i = 1"

lemma div_swap: "b dvd m \<Longrightarrow> n * m div b = n * (m div (b :: nat))"
  by (simp add: div_mult_swap)

lemma col0_slice:
  assumes "map_of (gf_tensors f) name = Some i" and "sized i" and "mapped_in f i"
    and "shardable (ColParallel w 0) i"
  shows "\<exists>l. payload_bytes i = 1 * (w * l) \<and> (\<forall>rank < w.
    slice_for_tp f name (ColParallel w 0) rank = Ok (pack_rows (payload f i) 1 (w * l) (rank * l) l))"
proof -
  have w: "0 < w" using assms(4) by simp
  consider (one) d where "ti_dims i = [d]" "info_block_size i = 1" "w dvd d"
    | (two) d e where "ti_dims i = [d, e]" "info_block_size i dvd e" "w dvd d"
    using assms(4) by (auto simp: length_Suc_conv numeral_2_eq_2)
  then show ?thesis
  proof cases
    case one
    then obtain k where k: "d = w * k" by (auto elim: dvdE)
    let ?l = "k * info_type_size i"
    have pb: "payload_bytes i = w * ?l" by (simp add: payload_bytes_def dims_prod_def one(1,2) k)
    have "slice_for_tp f name (ColParallel w 0) rank = Ok (pack_rows (payload f i) 1 (w * ?l) (rank * ?l) ?l)"
      if r: "rank < w" for rank
    proof -
      have "rank * ?l + ?l \<le> w * ?l" using mult_le_mono1 [of "Suc rank" w ?l] r by simp
      moreover have "d mod w = 0" "d div w = k" using w by (simp_all add: k)
      ultimately show ?thesis
        using r assms(1) one(1) pb length_payload [OF assms(3)]
        by (simp add: slice_for_tp_def slice_col_dim0_def gf_info_def Let_def
            tensor_raw_exact [OF assms(1-3)] pack_rows_def mult.assoc)
    qed
    then show ?thesis using pb by (intro exI [of _ ?l]) simp
  next
    case two
    then obtain k where k: "d = w * k" by (auto elim: dvdE)
    let ?l = "k * row_bytes i"
    have al: "length (ti_dims i) = 2" "info_block_size i dvd ti_dims i ! 1" using two by simp_all
    have pb: "payload_bytes i = w * ?l" using payload_rows [OF al] two(1) by (simp add: k)
    have "slice_for_tp f name (ColParallel w 0) rank = Ok (pack_rows (payload f i) 1 (w * ?l) (rank * ?l) ?l)"
      if r: "rank < w" for rank
    proof -
      have dk: "d mod w = 0" "d div w = k" using w by (simp_all add: k)
      have "rank * k + k \<le> ti_dims i ! 0" using mult_le_mono1 [of "Suc rank" w k] r by (simp add: two(1) k)
      from row_range_exact [OF assms(1-3) al this] show ?thesis
        using r assms(1) two(1) dk
        by (simp add: slice_for_tp_def slice_col_dim0_def gf_info_def Let_def pack_rows_def
            mult.assoc add_mult_distrib)
    qed
    then show ?thesis using pb by (intro exI [of _ ?l]) simp
  qed
qed

lemma row1_slice:
  assumes "map_of (gf_tensors f) name = Some i" and "sized i" and "mapped_in f i"
    and "shardable (RowParallel w 1) i"
  shows "\<exists>l. payload_bytes i = ti_dims i ! 0 * (w * l) \<and> (\<forall>rank < w.
    slice_for_tp f name (RowParallel w 1) rank =
      Ok (pack_rows (payload f i) (ti_dims i ! 0) (w * l) (rank * l) l))"
proof -
  have w: "0 < w" using assms(4) by simp
  let ?bs = "info_block_size i"
  obtain d e where de: "ti_dims i = [d, e]"
    using assms(4) by (auto simp: length_Suc_conv numeral_2_eq_2)
  obtain k where k: "e = w * k" using assms(4) by (auto simp: de elim: dvdE)
  then have kd: "e div w = k" "e mod w = 0" using w by simp_all
  then have bd: "?bs dvd k" "?bs dvd e" using assms(4) by (simp_all add: de k)
  let ?l = "k div ?bs * info_type_size i"
  have full: "e div ?bs = w * (k div ?bs)"
    using bd(1) by (simp add: k div_swap)
  have pb: "payload_bytes i = d * (w * ?l)"
    using payload_rows [of i] bd(2) full by (simp add: de row_bytes_def mult.assoc)
  have "slice_for_tp f name (RowParallel w 1) rank = Ok (pack_rows (payload f i) d (w * ?l) (rank * ?l) ?l)"
    if "rank < w" for rank
    using that assms(1) kd bd(1) length_payload [OF assms(3)] pb full
    by (simp add: slice_for_tp_def slice_row_dim1_def gf_info_def Let_def de dvd_eq_mod_eq_0
        tensor_raw_exact [OF assms(1-3)] pack_rows_def mult.assoc)
  then show ?thesis using pb by (auto simp: de)
qed

lemma dims3: "length ds = 3 \<Longrightarrow> \<exists>a b c. ds = [a, b, c]"
  by (auto simp: length_Suc_conv numeral_3_eq_3)

lemma col1_slice:
  assumes "map_of (gf_tensors f) name = Some i" and "sized i" and "mapped_in f i"
    and "shardable (ColParallel w 1) i"
  shows "\<exists>l. payload_bytes i = ti_dims i ! 0 * (w * l) \<and> (\<forall>rank < w.
    slice_for_tp f name (ColParallel w 1) rank =
      Ok (pack_rows (payload f i) (ti_dims i ! 0) (w * l) (rank * l) l))"
proof -
  have w: "0 < w" using assms(4) by simp
  let ?bs = "info_block_size i"
  obtain a b c where d: "ti_dims i = [a, b, c]"
    using assms(4) dims3 [of "ti_dims i"] by auto
  obtain k where k: "b = w * k" using assms(4) by (auto simp: d elim: dvdE)
  then have kd: "b div w = k" "b mod w = 0" using w by simp_all
  have bd: "?bs dvd c" using assms(4) by (simp add: d)
  let ?rb = "c div ?bs * info_type_size i"
  let ?l = "k * ?rb"
  have "payload_bytes i = a * b * c div ?bs * info_type_size i"
    by (simp add: payload_bytes_def dims_prod_def d mult.assoc)
  also have "\<dots> = a * (w * ?l)" using bd by (simp add: div_swap mult.assoc k)
  finally have pb: "payload_bytes i = a * (w * ?l)" .
  have "slice_for_tp f name (ColParallel w 1) rank = Ok (pack_rows (payload f i) a (w * ?l) (rank * ?l) ?l)"
    if r: "rank < w" for rank
  proof -
    have off: "rank * ?l + ?l \<le> w * ?l" using mult_le_mono1 [of "Suc rank" w ?l] r by simp
    let ?ranges = "map (\<lambda>e. (e * (w * ?l) + rank * ?l, e * (w * ?l) + rank * ?l + ?l)) [0..<a]"
    have "pack_checked name (payload f i) ?ranges [] =
        Ok ([] @ concat (map (\<lambda>(s, e). slice_of (payload f i) s e) ?ranges))"
      using row_bound [OF _ off] pb length_payload [OF assms(3)] by (intro pack_checked_ok) auto
    then have "pack_checked name (payload f i) ?ranges [] =
        Ok (pack_rows (payload f i) a (w * ?l) (rank * ?l) ?l)"
      by (simp add: pack_rows_def comp_def)
    then show ?thesis
      using r assms(1) kd bd
      by (simp add: slice_for_tp_def slice_col_dim1_3d_def gf_info_def Let_def d dvd_eq_mod_eq_0
          tensor_raw_exact [OF assms(1-3)] mult.assoc k)
  qed
  then show ?thesis using pb by (auto simp: d)
qed

lemma row2_slice:
  assumes "map_of (gf_tensors f) name = Some i" and "sized i" and "mapped_in f i"
    and "shardable (RowParallel w 2) i"
  shows "\<exists>l. payload_bytes i = ti_dims i ! 0 * ti_dims i ! 1 * (w * l) \<and> (\<forall>rank < w.
    slice_for_tp f name (RowParallel w 2) rank =
      Ok (pack_rows (payload f i) (ti_dims i ! 0 * ti_dims i ! 1) (w * l) (rank * l) l))"
proof -
  have w: "0 < w" using assms(4) by simp
  let ?bs = "info_block_size i"
  obtain a b c where d: "ti_dims i = [a, b, c]"
    using assms(4) dims3 [of "ti_dims i"] by auto
  obtain k where k: "c = w * k" using assms(4) by (auto simp: d elim: dvdE)
  then have kd: "c div w = k" "c mod w = 0" using w by simp_all
  then have bd: "?bs dvd k" using assms(4) by (simp add: d)
  let ?l = "k div ?bs * info_type_size i"
  have full: "c div ?bs = w * (k div ?bs)"
    using bd by (simp add: k div_swap)
  have "payload_bytes i = a * b * c div ?bs * info_type_size i"
    by (simp add: payload_bytes_def dims_prod_def d mult.assoc)
  also have "\<dots> = a * b * (c div ?bs * info_type_size i)"
    using bd by (simp add: div_swap mult.assoc k)
  finally have pb: "payload_bytes i = a * b * (w * ?l)" by (simp add: full mult.assoc)
  have "slice_for_tp f name (RowParallel w 2) rank = Ok (pack_rows (payload f i) (a * b) (w * ?l) (rank * ?l) ?l)"
    if r: "rank < w" for rank
  proof -
    have off: "rank * ?l + ?l \<le> w * ?l" using mult_le_mono1 [of "Suc rank" w ?l] r by simp
    let ?g = "\<lambda>e. (e * (w * ?l) + rank * ?l, e * (w * ?l) + rank * ?l + ?l)"
    have "concat (map (\<lambda>e. map (\<lambda>row. (e * b * (w * ?l) + row * (w * ?l) + rank * ?l,
        e * b * (w * ?l) + row * (w * ?l) + rank * ?l + ?l)) [0..<b]) [0..<a]) = map ?g [0..<a * b]"
      using nested_rows [of ?g b a] by (simp add: add_mult_distrib)
    moreover have "pack_checked name (payload f i) (map ?g [0..<a * b]) [] =
        Ok ([] @ concat (map (\<lambda>(s, e). slice_of (payload f i) s e) (map ?g [0..<a * b])))"
      using row_bound [OF _ off] pb length_payload [OF assms(3)] by (intro pack_checked_ok) auto
    moreover have "concat (map (\<lambda>(s, e). slice_of (payload f i) s e) (map ?g [0..<a * b])) =
        pack_rows (payload f i) (a * b) (w * ?l) (rank * ?l) ?l"
      by (simp add: pack_rows_def comp_def)
    ultimately show ?thesis
      using r assms(1) kd bd
      by (simp add: slice_for_tp_def slice_row_dim2_3d_def gf_info_def Let_def d dvd_eq_mod_eq_0
          tensor_raw_exact [OF assms(1-3)] full mult.assoc)
  qed
  then show ?thesis using pb by (auto simp: d)
qed

lemma shard_slices:
  assumes "map_of (gf_tensors f) name = Some i" and "sized i" and "mapped_in f i"
    and "shardable layout i" and "wl_world layout = Some w"
  shows "\<exists>l. payload_bytes i = shard_rows layout i * (w * l) \<and> (\<forall>rank < w.
    slice_for_tp f name layout rank =
      Ok (pack_rows (payload f i) (shard_rows layout i) (w * l) (rank * l) l))"
proof (cases layout)
  case (ColParallel w' d)
  then have "layout = ColParallel w 0 \<or> layout = ColParallel w 1"
    using assms(4,5) by (auto split: if_splits)
  then show ?thesis
    using col0_slice [OF assms(1-3), of w] col1_slice [OF assms(1-3), of w] assms(4) by auto
next
  case (RowParallel w' d)
  then have "layout = RowParallel w 1 \<or> layout = RowParallel w 2"
    using assms(4,5) by (auto split: if_splits)
  then show ?thesis
    using row1_slice [OF assms(1-3), of w] row2_slice [OF assms(1-3), of w] assms(4) by auto
qed (use assms(4) in simp_all)

lemma shardable_world: "shardable layout i \<Longrightarrow> wl_world layout = Some w \<Longrightarrow> 0 < w"
  by (cases layout) auto

lemma slice_bytes_even:
  assumes "map_of (gf_tensors f) name = Some i" and "sized i" and "payload_bytes i = w * n" and "0 < w"
    and "wl_world layout = Some w" and "\<forall>nv nk hv hk. layout \<noteq> FusedQkvParallel w nv nk hv hk True"
  shows "slice_bytes_for_tp f name layout = Ok n"
  using assms
  by (cases layout) (auto simp: slice_bytes_for_tp_def gf_info_def size_exact Let_def)

subsection \<open>The fused query, key and value slices\<close>

definition rows_of :: "gguf_file \<Rightarrow> tensor_info \<Rightarrow> nat \<Rightarrow> nat \<Rightarrow> octets" where
  "rows_of f i a b = slice_of (payload f i) (a * row_bytes i) (b * row_bytes i)"

lemma rows_of_parts:
  "concat (map (\<lambda>r. rows_of f i (a + r * n) (a + Suc r * n)) [0..<w]) = rows_of f i a (a + w * n)"
proof -
  have "concat (map (\<lambda>r. slice_of (payload f i) ((a + r * n) * row_bytes i) ((a + Suc r * n) * row_bytes i)) [0..<w])
      = slice_of (payload f i) ((a + 0 * n) * row_bytes i) ((a + w * n) * row_bytes i)"
    by (rule concat_slices) (simp add: mult_le_mono1)
  then show ?thesis by (simp only: rows_of_def mult_0 add_0_right)
qed

lemma length_rows_of:
  assumes "mapped_in f i" and "b * row_bytes i \<le> payload_bytes i"
  shows "length (rows_of f i a b) = (b - a) * row_bytes i"
  using assms length_payload [OF assms(1)] by (simp add: rows_of_def diff_mult_distrib)

lemma fused_slice:
  assumes "map_of (gf_tensors f) name = Some i" and "sized i" and "mapped_in f i"
    and "ti_dims i = [w * vl + 2 * k, e]" and "info_block_size i dvd e"
    and "nv * hv = w * vl" and "nk * hk = k" and "w dvd nv" and "rep \<or> w dvd nk" and "rank < w"
  shows "slice_for_tp f name (FusedQkvParallel w nv nk hv hk rep) rank = Ok
    ((if rep then rows_of f i 0 k else rows_of f i (rank * (k div w)) (Suc rank * (k div w)))
     @ (if rep then rows_of f i k (k + k)
        else rows_of f i (k + rank * (k div w)) (k + Suc rank * (k div w)))
     @ rows_of f i (2 * k + rank * vl) (2 * k + Suc rank * vl))"
proof -
  have rb: "e div info_block_size i * info_type_size i = row_bytes i"
    by (simp add: row_bytes_def assms(4))
  have len: "length (payload f i) = (w * vl + 2 * k) * row_bytes i"
    using payload_rows [of i] assms(3,4,5) by simp
  have m: "nv mod w = 0" "\<not> rep \<Longrightarrow> nk mod w = 0" "e mod info_block_size i = 0" "w * vl div w = vl"
    using assms(5,8,9,10) by auto
  show ?thesis
    using assms(1,10) m len
    by (simp add: slice_for_tp_def slice_fused_qkv_def gf_info_def Let_def assms(4,6,7)
        tensor_raw_exact [OF assms(1-3)] rb rows_of_def add.assoc add.commute [of vl]
        add.commute [of "k div w"])
qed

subsection \<open>Properties\<close>

text \<open>
  C12: The ranks' slices partition the tensor. For every contiguous layout the slicer supports and
  every tensor it can be applied to, each rank below the world gets a slice, all slices have the
  length \<^verbatim>\<open>slice_bytes_for_tp\<close> announces, and laying the ranks' rows side by side
  gives exactly the tensor's bytes: nothing is lost, doubled or reordered.
\<close>

theorem tp_shards_partition:
  assumes "map_of (gf_tensors f) name = Some i" and "sized i" and "mapped_in f i"
    and "shardable layout i" and "wl_world layout = Some w"
  shows "\<exists>l ss. length ss = w
    \<and> (\<forall>rank < w. slice_for_tp f name layout rank = Ok (ss ! rank)
        \<and> slice_bytes_for_tp f name layout = Ok (length (ss ! rank)))
    \<and> unshard (shard_rows layout i) l ss = payload f i"
proof -
  let ?n = "shard_rows layout i" and ?p = "payload f i"
  obtain l where l: "payload_bytes i = ?n * (w * l)"
    "\<forall>rank < w. slice_for_tp f name layout rank = Ok (pack_rows ?p ?n (w * l) (rank * l) l)"
    using shard_slices [OF assms] by blast
  let ?ss = "map (\<lambda>r. pack_rows ?p ?n (w * l) (r * l) l) [0..<w]"
  have len: "length ?p = ?n * (w * l)" using l(1) length_payload [OF assms(3)] by simp
  have "length (?ss ! r) = ?n * l" if "r < w" for r
    using length_pack_rows [of ?n "w * l" ?p "r * l" l] mult_le_mono1 [of "Suc r" w l] len that by simp
  moreover have "slice_bytes_for_tp f name layout = Ok (?n * l)"
    using l(1) shardable_world [OF assms(4,5)] assms(4)
    by (intro slice_bytes_even [OF assms(1,2) _ _ assms(5)]) auto
  ultimately show ?thesis
    using l(2) unshard_pack_rows [OF len] by (intro exI [of _ l] exI [of _ ?ss]) simp
qed

theorem tp_shards_partition_witness:
  "\<exists>l ss. length ss = 2 \<and> slice_for_tp demo_file (ascii ''w'') (RowParallel 2 1) 1 = Ok (ss ! 1)
    \<and> unshard 2 l ss = payload demo_file demo_info"
proof -
  have sh: "shardable (RowParallel 2 1) demo_info"
    by (simp add: demo_info_def info_block_size_def qk_defs)
  have n: "shard_rows (RowParallel 2 1) demo_info = 2" by (simp add: demo_info_def)
  have w: "wl_world (RowParallel 2 1) = Some 2" by simp
  obtain l ss where ss: "length ss = 2" "unshard 2 l ss = payload demo_file demo_info"
    "\<forall>rank < 2. slice_for_tp demo_file (ascii ''w'') (RowParallel 2 1) rank = Ok (ss ! rank)
      \<and> slice_bytes_for_tp demo_file (ascii ''w'') (RowParallel 2 1) = Ok (length (ss ! rank))"
    using tp_shards_partition [OF demo_file_ok sh w] unfolding n by blast
  have "slice_for_tp demo_file (ascii ''w'') (RowParallel 2 1) 1 = Ok (ss ! 1)"
    using ss(3) by (simp del: One_nat_def)
  with ss(1,2) show ?thesis by blast
qed

text \<open>
  C13: The fused slices are head-aligned. For a fused tensor of \<open>k\<close> query rows, \<open>k\<close> key rows and
  \<open>w * vl\<close> value rows every rank gets its queries, its keys and its values in this order, with the
  length \<^verbatim>\<open>slice_bytes_for_tp\<close> announces; the values of all ranks are the tensor's value
  rows; queries and keys are complete on every rank when replicated, and otherwise those of all
  ranks are the tensor's query rows and key rows.
\<close>

theorem tp_fused_qkv_slices:
  assumes "map_of (gf_tensors f) name = Some i" and "sized i" and "mapped_in f i"
    and "ti_dims i = [w * vl + 2 * k, e]" and "info_block_size i dvd e"
    and "nv * hv = w * vl" and "nk * hk = k" and "w dvd nv" and "rep \<or> w dvd nk" and "0 < w"
  shows "\<exists>q kk v. (\<forall>rank < w.
        slice_for_tp f name (FusedQkvParallel w nv nk hv hk rep) rank = Ok (q rank @ kk rank @ v rank)
        \<and> slice_bytes_for_tp f name (FusedQkvParallel w nv nk hv hk rep) =
            Ok (length (q rank @ kk rank @ v rank)))
    \<and> concat (map v [0..<w]) = rows_of f i (2 * k) (2 * k + w * vl)
    \<and> (if rep then (\<forall>rank < w. q rank = rows_of f i 0 k \<and> kk rank = rows_of f i k (2 * k))
       else concat (map q [0..<w]) = rows_of f i 0 k \<and> concat (map kk [0..<w]) = rows_of f i k (2 * k))"
proof -
  let ?kl = "k div w"
  let ?q = "\<lambda>r. if rep then rows_of f i 0 k else rows_of f i (r * ?kl) (Suc r * ?kl)"
  let ?k = "\<lambda>r. if rep then rows_of f i k (k + k) else rows_of f i (k + r * ?kl) (k + Suc r * ?kl)"
  let ?v = "\<lambda>r. rows_of f i (2 * k + r * vl) (2 * k + Suc r * vl)"
  have pb: "payload_bytes i = (w * vl + 2 * k) * row_bytes i"
    using payload_rows [of i] assms(4,5) by simp
  have kl: "\<not> rep \<Longrightarrow> w * ?kl = k" using assms(7,9) by (auto simp: dvd_mult2)
  have bytes: "slice_bytes_for_tp f name (FusedQkvParallel w nv nk hv hk rep) =
      Ok (length (?q r @ ?k r @ ?v r))" if r: "r < w" for r
  proof -
    have le: "Suc r * vl \<le> w * vl" "\<not> rep \<Longrightarrow> Suc r * ?kl \<le> k"
      using mult_le_mono1 [of "Suc r" w vl] mult_le_mono1 [of "Suc r" w ?kl] r kl by simp_all
    have b: "b * row_bytes i \<le> payload_bytes i" if "b \<le> w * vl + 2 * k" for b
      using that unfolding pb by (rule mult_le_mono1)
    have lv: "length (?v r) = vl * row_bytes i"
      using length_rows_of [OF assms(3) b, of "2 * k + Suc r * vl" "2 * k + r * vl"] le(1) by simp
    show ?thesis
    proof (cases rep)
      case True
      have "length (?q r) = k * row_bytes i" "length (?k r) = k * row_bytes i"
        using length_rows_of [OF assms(3) b, of k 0] length_rows_of [OF assms(3) b, of "k + k" k] True
        by simp_all
      moreover have "slice_bytes_for_tp f name (FusedQkvParallel w nv nk hv hk True) =
          Ok ((vl + 2 * k) * row_bytes i)"
      proof -
        have "0 < w * vl + 2 * k" using assms(2,4) by (simp add: sized_def)
        then show ?thesis
          using assms(1,10)
          by (simp add: slice_bytes_for_tp_def gf_info_def size_exact [OF assms(2)] Let_def pb
              assms(6,7))
      qed
      ultimately show ?thesis using lv True by (simp add: add_mult_distrib)
    next
      case False
      have "length (?q r) = ?kl * row_bytes i" "length (?k r) = ?kl * row_bytes i"
        using length_rows_of [OF assms(3) b, of "Suc r * ?kl" "r * ?kl"]
          length_rows_of [OF assms(3) b, of "k + Suc r * ?kl" "k + r * ?kl"] le(2) False
        by simp_all
      moreover have "payload_bytes i = w * ((?kl + ?kl + vl) * row_bytes i)"
        using pb kl [OF False] by (simp add: add_mult_distrib2 flip: mult.assoc)
      then have "slice_bytes_for_tp f name (FusedQkvParallel w nv nk hv hk rep) =
          Ok ((?kl + ?kl + vl) * row_bytes i)"
        using False assms(10) by (intro slice_bytes_even [OF assms(1,2)]) simp_all
      ultimately show ?thesis using lv by (simp add: add_mult_distrib)
    qed
  qed
  have "concat (map ?v [0..<w]) = rows_of f i (2 * k) (2 * k + w * vl)" by (rule rows_of_parts)
  moreover have "if rep then (\<forall>rank < w. ?q rank = rows_of f i 0 k \<and> ?k rank = rows_of f i k (2 * k))
      else concat (map ?q [0..<w]) = rows_of f i 0 k \<and> concat (map ?k [0..<w]) = rows_of f i k (2 * k)"
    using rows_of_parts [of f i 0 ?kl w] rows_of_parts [of f i k ?kl w] kl by (simp add: mult_2)
  ultimately show ?thesis
    using fused_slice [OF assms(1-9)] bytes
    by (intro exI [of _ ?q] exI [of _ ?k] exI [of _ ?v]) simp
qed

definition fused_info :: tensor_info where
  "fused_info = \<lparr>ti_name = ascii ''qkv'', ti_dtype = F16, ti_dims = [8, 2], ti_rel_offset = 0,
     ti_split_idx = 0\<rparr>"

definition fused_file :: gguf_file where
  "fused_file = \<lparr>gf_version = V3, gf_metadata = [], gf_tensors = [(ascii ''qkv'', fused_info)],
     gf_order = [ascii ''qkv''], gf_data_offset = 0,
     gf_splits = [\<lparr>sp_mmap = map of_nat [0..<32], sp_data_offset = 0\<rparr>]\<rparr>"

theorem tp_fused_qkv_slices_witness:
  "\<exists>v. concat (map v [0..<2]) = rows_of fused_file fused_info 4 8
    \<and> (\<exists>q kk. slice_for_tp fused_file (ascii ''qkv'') (FusedQkvParallel 2 2 2 2 1 False) 1 =
         Ok (q @ kk @ v 1))"
proof -
  have f: "map_of (gf_tensors fused_file) (ascii ''qkv'') = Some fused_info" "sized fused_info"
    "mapped_in fused_file fused_info"
    by (simp_all add: fused_file_def fused_info_def sized_def mapped_in_def payload_bytes_def
        dims_prod_def info_block_size_def info_type_size_def)
  have d: "ti_dims fused_info = [2 * 2 + 2 * 2, 2]" "info_block_size fused_info dvd 2"
    by (simp_all add: fused_info_def info_block_size_def)
  obtain q kk v where v: "concat (map v [0..<2]) = rows_of fused_file fused_info 4 8"
    "\<forall>rank < 2. slice_for_tp fused_file (ascii ''qkv'') (FusedQkvParallel 2 2 2 2 1 False) rank =
      Ok (q rank @ kk rank @ v rank)"
    using tp_fused_qkv_slices [OF f d, of 2 2 2 1 False] by auto
  have "slice_for_tp fused_file (ascii ''qkv'') (FusedQkvParallel 2 2 2 2 1 False) 1 =
      Ok (q 1 @ kk 1 @ v 1)"
    using v(2) by (simp del: One_nat_def)
  with v(1) show ?thesis by blast
qed

end
