(* ===== verification/Kv_Cache.thy ===== *)
theory Kv_Cache
  imports FB_Prelude
begin

section \<open>The KV cache: a fixed-capacity token store in device memory\<close>

text \<open>
  \<^verbatim>\<open>crates/runtime/src/kv_cache.rs\<close> and the captured variant of its append,
  \<^verbatim>\<open>crates/backend-hip/src/kv_cache_slot.rs\<close>.

  The device is a parameter, as the \<^verbatim>\<open>Device\<close> trait is in the source: its allocator, its
  asynchronous copy (issued on one stream, so in order) and the contents of its memory. What the
  code relies on is stated as the predicate \<open>copies\<close>. Sizes are \<^verbatim>\<open>usize\<close>: a \<^typ>\<open>nat\<close> whose
  arithmetic wraps at 64 bits as in the release profile.
\<close>

subsection \<open>Devices\<close>

datatype device_error =
    Backend string int string
  | AllocFailed string int nat string
  | InvalidDeviceId int int
  | NoDevices string
  | BackendNotBuilt string

datatype copy_direction = HostToDevice | DeviceToHost | DeviceToDevice

type_synonym dev_ptr = nat

definition null_ptr :: dev_ptr where
  "null_ptr = 0"

definition is_null :: "dev_ptr \<Rightarrow> bool" where
  "is_null p \<longleftrightarrow> p = 0"

definition offset_bytes :: "dev_ptr \<Rightarrow> nat \<Rightarrow> dev_ptr" where
  "offset_bytes p n = wrap64 (p + n)"

record 'd device_ops =
  dev_alloc :: "'d \<Rightarrow> nat \<Rightarrow> (device_error, dev_ptr) outcome \<times> 'd"
  dev_dealloc :: "'d \<Rightarrow> dev_ptr \<Rightarrow> nat \<Rightarrow> (device_error, unit) outcome \<times> 'd"
  dev_memcpy :: "'d \<Rightarrow> copy_direction \<Rightarrow> dev_ptr \<Rightarrow> dev_ptr \<Rightarrow> nat \<Rightarrow> (device_error, unit) outcome \<times> 'd"

text \<open>
  The documented behaviour of a device-to-device copy: a successful one moves the bytes, a failed
  one touches nothing but its destination.
\<close>

definition region :: "dev_ptr \<Rightarrow> nat \<Rightarrow> nat set" where
  "region p n = {p..<p + n}"

definition copies :: "'d device_ops \<Rightarrow> ('d \<Rightarrow> nat \<Rightarrow> 'b) \<Rightarrow> bool" where
  "copies ops rd \<longleftrightarrow>
     (\<forall>d dst src n r d'. dev_memcpy ops d DeviceToDevice dst src n = (r, d') \<longrightarrow>
        (\<forall>a. a \<notin> region dst n \<longrightarrow> rd d' a = rd d a) \<and>
        (r = Ok () \<longrightarrow> region dst n \<inter> region src n = {} \<longrightarrow>
           (\<forall>i < n. rd d' (dst + i) = rd d (src + i))))"

subsection \<open>Layouts\<close>

text \<open>\<^verbatim>\<open>trait CacheLayout\<close>: what a layout type commits to.\<close>

record cache_layout =
  l_name :: string
  bytes_per_row :: "nat \<Rightarrow> nat"
  head_dim_multiple :: nat

definition f16_contig :: cache_layout where
  "f16_contig = \<lparr>l_name = ''f16_contig'', bytes_per_row = (\<lambda>hd. wrap64 (hd * 2)),
                 head_dim_multiple = 1\<rparr>"

definition q8_0_block_bytes :: nat where
  "q8_0_block_bytes = 34"

definition q8_contig :: cache_layout where
  "q8_contig = \<lparr>l_name = ''q8_contig'', bytes_per_row = (\<lambda>hd. wrap64 (hd div 32 * q8_0_block_bytes)),
                head_dim_multiple = 32\<rparr>"

subsection \<open>The cache\<close>

datatype kv_error =
    KvDevice device_error
  | CapacityExceeded nat nat nat
  | ShapeMismatch nat nat nat nat

record kv_cache =
  kc_k :: dev_ptr
  kc_v :: dev_ptr
  kc_max_tokens :: nat
  kc_current_tokens :: nat
  kc_n_heads :: nat
  kc_head_dim :: nat
  kc_bytes_per_tensor :: nat

text \<open>
  \<^verbatim>\<open>new\<close>: the remainder by the layout's multiple panics on zero, the assertion otherwise; K is
  allocated before V.
\<close>

definition kv_new ::
    "cache_layout \<Rightarrow> 'd device_ops \<Rightarrow> 'd \<Rightarrow> nat \<Rightarrow> nat \<Rightarrow> nat \<Rightarrow> (kv_error, kv_cache) outcome \<times> 'd" where
  "kv_new L ops d n_heads head_dim max_tokens =
     (let mul = head_dim_multiple L in
      if mul = 0 \<or> head_dim mod mul \<noteq> 0 then (Panic, d)
      else
        (let row_bytes = bytes_per_row L head_dim;
             bpt = wrap64 (wrap64 (max_tokens * n_heads) * row_bytes) in
         case dev_alloc ops d bpt of
           (Ok k, d1) \<Rightarrow>
             (case dev_alloc ops d1 bpt of
                (Ok v, d2) \<Rightarrow>
                  (Ok \<lparr>kc_k = k, kc_v = v, kc_max_tokens = max_tokens, kc_current_tokens = 0,
                       kc_n_heads = n_heads, kc_head_dim = head_dim, kc_bytes_per_tensor = bpt\<rparr>, d2)
              | (Err e, d2) \<Rightarrow> (Err (KvDevice e), d2)
              | (Panic, d2) \<Rightarrow> (Panic, d2))
         | (Err e, d1) \<Rightarrow> (Err (KvDevice e), d1)
         | (Panic, d1) \<Rightarrow> (Panic, d1)))"

definition per_token_bytes :: "cache_layout \<Rightarrow> kv_cache \<Rightarrow> nat" where
  "per_token_bytes L c = wrap64 (kc_n_heads c * bytes_per_row L (kc_head_dim c))"

text \<open>The capacity check of the three appending operations.\<close>

definition over_capacity :: "kv_cache \<Rightarrow> nat \<Rightarrow> bool" where
  "over_capacity c n \<longleftrightarrow> wrap64 (kc_current_tokens c + n) > kc_max_tokens c"

definition capacity_error :: "kv_cache \<Rightarrow> nat \<Rightarrow> kv_error" where
  "capacity_error c n = CapacityExceeded (kc_current_tokens c) n (kc_max_tokens c)"

definition advance :: "kv_cache \<Rightarrow> nat \<Rightarrow> kv_cache" where
  "advance c n = c\<lparr>kc_current_tokens := wrap64 (kc_current_tokens c + n)\<rparr>"

text \<open>\<^verbatim>\<open>append\<close>: the K copy, then the V copy, then the tail. A failing copy returns early.\<close>

definition kv_append ::
    "cache_layout \<Rightarrow> 'd device_ops \<Rightarrow> 'd \<Rightarrow> kv_cache \<Rightarrow> dev_ptr \<Rightarrow> dev_ptr \<Rightarrow> nat
      \<Rightarrow> (kv_error, unit) outcome \<times> kv_cache \<times> 'd" where
  "kv_append L ops d c k_new v_new n_new =
     (if over_capacity c n_new then (Err (capacity_error c n_new), c, d)
      else
        (let per_token = per_token_bytes L c;
             off = wrap64 (kc_current_tokens c * per_token);
             tot = wrap64 (n_new * per_token);
             k_dst = offset_bytes (kc_k c) off;
             v_dst = offset_bytes (kc_v c) off in
         case dev_memcpy ops d DeviceToDevice k_dst k_new tot of
           (Ok _, d1) \<Rightarrow>
             (case dev_memcpy ops d1 DeviceToDevice v_dst v_new tot of
                (Ok _, d2) \<Rightarrow> (Ok (), advance c n_new, d2)
              | (Err e, d2) \<Rightarrow> (Err (KvDevice e), c, d2)
              | (Panic, d2) \<Rightarrow> (Panic, c, d2))
         | (Err e, d1) \<Rightarrow> (Err (KvDevice e), c, d1)
         | (Panic, d1) \<Rightarrow> (Panic, c, d1)))"

definition compute_append_dsts ::
    "cache_layout \<Rightarrow> kv_cache \<Rightarrow> nat \<Rightarrow> (kv_error, dev_ptr \<times> dev_ptr \<times> nat) outcome" where
  "compute_append_dsts L c n_new =
     (if over_capacity c n_new then Err (capacity_error c n_new)
      else
        (let per_token = per_token_bytes L c;
             off = wrap64 (kc_current_tokens c * per_token);
             tot = wrap64 (n_new * per_token) in
         Ok (offset_bytes (kc_k c) off, offset_bytes (kc_v c) off, tot)))"

definition bump_tail :: "kv_cache \<Rightarrow> nat \<Rightarrow> (kv_error, unit) outcome \<times> kv_cache" where
  "bump_tail c n_new =
     (if over_capacity c n_new then (Err (capacity_error c n_new), c)
      else (Ok (), advance c n_new))"

definition kv_clear :: "kv_cache \<Rightarrow> kv_cache" where
  "kv_clear c = c\<lparr>kc_current_tokens := 0\<rparr>"

definition kv_rollback :: "kv_cache \<Rightarrow> nat \<Rightarrow> (kv_error, unit) outcome \<times> kv_cache" where
  "kv_rollback c n_remove =
     (if n_remove > kc_current_tokens c then (Err (CapacityExceeded (kc_current_tokens c) 0 0), c)
      else (Ok (), c\<lparr>kc_current_tokens := kc_current_tokens c - n_remove\<rparr>))"

text \<open>\<^verbatim>\<open>dispose\<close> consumes the cache; the second component is what its \<^verbatim>\<open>Drop\<close> then sees.\<close>

definition kv_dispose ::
    "'d device_ops \<Rightarrow> 'd \<Rightarrow> kv_cache \<Rightarrow> (kv_error, unit) outcome \<times> kv_cache \<times> 'd" where
  "kv_dispose ops d c =
     (case dev_dealloc ops d (kc_k c) (kc_bytes_per_tensor c) of
        (Ok _, d1) \<Rightarrow>
          (case dev_dealloc ops d1 (kc_v c) (kc_bytes_per_tensor c) of
             (Ok _, d2) \<Rightarrow> (Ok (), c\<lparr>kc_k := null_ptr, kc_v := null_ptr\<rparr>, d2)
           | (Err e, d2) \<Rightarrow> (Err (KvDevice e), c, d2)
           | (Panic, d2) \<Rightarrow> (Panic, c, d2))
      | (Err e, d1) \<Rightarrow> (Err (KvDevice e), c, d1)
      | (Panic, d1) \<Rightarrow> (Panic, c, d1))"

text \<open>\<^verbatim>\<open>Drop\<close> warns exactly when a pointer is still live.\<close>

definition drop_warns :: "kv_cache \<Rightarrow> bool" where
  "drop_warns c \<longleftrightarrow> \<not> is_null (kc_k c) \<or> \<not> is_null (kc_v c)"

text \<open>
  \<^verbatim>\<open>kv_cache_append_hip_slot\<close>: destinations first, the two tagged copies, the tail last. A tagged
  copy is a copy with a graph-capture tag, which the memory does not see.
\<close>

datatype slot_append_error = AppendDsts kv_error | SlotCopy device_error | BumpTail kv_error

definition kv_cache_append_hip_slot ::
    "cache_layout \<Rightarrow> ('t \<Rightarrow> 'd device_ops) \<Rightarrow> 'd \<Rightarrow> kv_cache \<Rightarrow> dev_ptr \<times> dev_ptr \<times> nat \<Rightarrow> 't \<times> 't
      \<Rightarrow> (slot_append_error, unit) outcome \<times> kv_cache \<times> 'd" where
  "kv_cache_append_hip_slot L ops d c src slots =
     (case src of (k_new, v_new, n_new) \<Rightarrow> case slots of (k_slot, v_slot) \<Rightarrow>
      case compute_append_dsts L c n_new of
        Err e \<Rightarrow> (Err (AppendDsts e), c, d)
      | Panic \<Rightarrow> (Panic, c, d)
      | Ok (k_dst, v_dst, tot) \<Rightarrow>
          (case dev_memcpy (ops k_slot) d DeviceToDevice k_dst k_new tot of
             (Err e, d1) \<Rightarrow> (Err (SlotCopy e), c, d1)
           | (Panic, d1) \<Rightarrow> (Panic, c, d1)
           | (Ok _, d1) \<Rightarrow>
               (case dev_memcpy (ops v_slot) d1 DeviceToDevice v_dst v_new tot of
                  (Err e, d2) \<Rightarrow> (Err (SlotCopy e), c, d2)
                | (Panic, d2) \<Rightarrow> (Panic, c, d2)
                | (Ok _, d2) \<Rightarrow>
                    (let (r, c') = bump_tail c n_new in (map_err BumpTail r, c', d2)))))"

end
