(* ===== verification/Kv_Refine.thy ===== *)
theory Kv_Refine
  imports Kv_Cache
begin

section \<open>The KV cache refines a bounded list of token rows\<close>

text \<open>
  The layouts' contract as a locale with the row geometry proved once, its interpretations on the
  two layouts of the source, and the refinement: seen through the device's memory, a cache is a
  list of token rows that appends at the end, truncates on rollback and empties on clear. The last
  part shows what happens on the error paths and at the 64-bit boundary.
\<close>

subsection \<open>What every layout promises\<close>

locale kv_layout =
  fixes L :: cache_layout and unit_bytes :: nat
  assumes multiple_pos: "0 < head_dim_multiple L"
    and unit_pos: "0 < unit_bytes"
    and unit_even: "even unit_bytes"
    and row_blocks: "m * unit_bytes < 2 ^ 64 \<Longrightarrow>
      bytes_per_row L (m * head_dim_multiple L) = m * unit_bytes"
begin

lemma row_of:
  assumes "head_dim mod head_dim_multiple L = 0" and "head_dim div head_dim_multiple L * unit_bytes < 2 ^ 64"
  shows "bytes_per_row L head_dim = head_dim div head_dim_multiple L * unit_bytes"
proof -
  have "head_dim = head_dim div head_dim_multiple L * head_dim_multiple L"
    using assms(1) by (metis add.right_neutral div_mult_mod_eq)
  then show ?thesis using row_blocks [OF assms(2)] by argo
qed

lemma row_even:
  assumes "head_dim mod head_dim_multiple L = 0" and "head_dim div head_dim_multiple L * unit_bytes < 2 ^ 64"
  shows "even (bytes_per_row L head_dim)"
  using row_of [OF assms] unit_even by simp

lemma row_pos:
  assumes "head_dim mod head_dim_multiple L = 0" and "head_dim div head_dim_multiple L * unit_bytes < 2 ^ 64"
    and "0 < head_dim"
  shows "0 < bytes_per_row L head_dim"
proof -
  have "0 < head_dim div head_dim_multiple L"
    using assms(1,3) multiple_pos by (metis div_greater_zero_iff mod_less neq0_conv not_less)
  then show ?thesis using row_of [OF assms(1,2)] unit_pos by simp
qed

end

interpretation f16: kv_layout f16_contig 2
  by unfold_locales (simp_all add: f16_contig_def del: wrap64_less_num)

interpretation q8: kv_layout q8_contig 34
  by unfold_locales (simp_all add: q8_contig_def q8_0_block_bytes_def del: wrap64_less_num)

subsection \<open>Well-formed caches and what their memory shows\<close>

text \<open>
  The buffers lie apart and inside the address space, and the sizes in \<^verbatim>\<open>bytes_per_tensor\<close> did
  not wrap when it was computed.
\<close>

definition row_bytes :: "cache_layout \<Rightarrow> kv_cache \<Rightarrow> nat" where
  "row_bytes L c = kc_n_heads c * bytes_per_row L (kc_head_dim c)"

definition kv_wf :: "cache_layout \<Rightarrow> kv_cache \<Rightarrow> bool" where
  "kv_wf L c \<longleftrightarrow>
     kc_current_tokens c \<le> kc_max_tokens c \<and> kc_max_tokens c < 2 ^ 64 \<and> row_bytes L c < 2 ^ 64 \<and>
     kc_bytes_per_tensor c = kc_max_tokens c * row_bytes L c \<and>
     kc_k c + kc_bytes_per_tensor c < 2 ^ 64 \<and> kc_v c + kc_bytes_per_tensor c < 2 ^ 64 \<and>
     region (kc_k c) (kc_bytes_per_tensor c) \<inter> region (kc_v c) (kc_bytes_per_tensor c) = {}"

definition token_row :: "('d \<Rightarrow> nat \<Rightarrow> 'b) \<Rightarrow> 'd \<Rightarrow> dev_ptr \<Rightarrow> nat \<Rightarrow> nat \<Rightarrow> 'b list" where
  "token_row rd d p per t = map (\<lambda>i. rd d (p + t * per + i)) [0..<per]"

definition token_rows ::
    "('d \<Rightarrow> nat \<Rightarrow> 'b) \<Rightarrow> 'd \<Rightarrow> dev_ptr \<Rightarrow> dev_ptr \<Rightarrow> nat \<Rightarrow> nat \<Rightarrow> ('b list \<times> 'b list) list" where
  "token_rows rd d k v per n = map (\<lambda>t. (token_row rd d k per t, token_row rd d v per t)) [0..<n]"

definition kv_view :: "cache_layout \<Rightarrow> ('d \<Rightarrow> nat \<Rightarrow> 'b) \<Rightarrow> 'd \<Rightarrow> kv_cache \<Rightarrow> ('b list \<times> 'b list) list" where
  "kv_view L rd d c = token_rows rd d (kc_k c) (kc_v c) (row_bytes L c) (kc_current_tokens c)"

lemma length_token_rows [simp]: "length (token_rows rd d k v per n) = n"
  by (simp add: token_rows_def)

lemma token_rows_add:
  "token_rows rd d k v per (m + n) =
     token_rows rd d k v per m @ token_rows rd d (k + m * per) (v + m * per) per n"
proof -
  have "[0..<m + n] = [0..<m] @ map (\<lambda>t. m + t) [0..<n]"
    using upt_add_eq_append [of 0 m n] map_add_upt [of m n] by (simp add: add.commute)
  then show ?thesis
    by (simp add: token_rows_def token_row_def add_mult_distrib add.assoc)
qed

lemma token_rows_take: "m \<le> n \<Longrightarrow> take m (token_rows rd d k v per n) = token_rows rd d k v per m"
  by (simp add: token_rows_def take_map)

lemma token_row_cong:
  "(\<And>a. a \<in> region (p + t * per) per \<Longrightarrow> rd d' a = rd d a) \<Longrightarrow> token_row rd d' p per t = token_row rd d p per t"
  by (simp add: token_row_def region_def)

lemma slot_region: "a \<in> region (p + t * per) per \<Longrightarrow> t < n \<Longrightarrow> a \<in> region p (n * per)"
proof -
  assume "t < n" and a: "a \<in> region (p + t * per) per"
  then have "t * per + per \<le> n * per"
    by (metis Suc_leI add.commute mult_Suc mult_le_mono1)
  then show ?thesis using a by (auto simp: region_def)
qed

lemma token_rows_cong:
  assumes "\<And>a. a \<in> region k (n * per) \<union> region v (n * per) \<Longrightarrow> rd d' a = rd d a"
  shows "token_rows rd d' k v per n = token_rows rd d k v per n"
  using assms by (auto simp: token_rows_def dest: slot_region intro!: token_row_cong)

text \<open>Rows read where a copy has put them are the rows of its source.\<close>

lemma token_rows_copied:
  assumes "\<And>i. i < n * per \<Longrightarrow> rd d' (p + i) = rd d (s + i)" and "t < n"
  shows "token_row rd d' p per t = token_row rd d s per t"
proof -
  have "t * per + i < n * per" if "i < per" for i
    using assms(2) that slot_region [of "t * per + i" 0 t per n] by (simp add: region_def)
  then have "rd d' (p + t * per + i) = rd d (s + t * per + i)" if "i < per" for i
    using assms(1) [of "t * per + i"] that by (simp add: add.assoc)
  then show ?thesis by (simp add: token_row_def)
qed

subsection \<open>The geometry of an append\<close>

lemma append_fits:
  assumes "kv_wf L c" and "kc_current_tokens c + n \<le> kc_max_tokens c"
  shows "kc_current_tokens c * row_bytes L c + n * row_bytes L c \<le> kc_bytes_per_tensor c"
  using assms by (simp add: kv_wf_def flip: add_mult_distrib)

lemma append_geometry:
  assumes wf: "kv_wf L c" and fit: "kc_current_tokens c + n \<le> kc_max_tokens c"
  shows "per_token_bytes L c = row_bytes L c"
    and "wrap64 (kc_current_tokens c * row_bytes L c) = kc_current_tokens c * row_bytes L c"
    and "wrap64 (n * row_bytes L c) = n * row_bytes L c"
    and "offset_bytes (kc_k c) (kc_current_tokens c * row_bytes L c) = kc_k c + kc_current_tokens c * row_bytes L c"
    and "offset_bytes (kc_v c) (kc_current_tokens c * row_bytes L c) = kc_v c + kc_current_tokens c * row_bytes L c"
  using append_fits [OF assms] wf
  by (simp_all only: per_token_bytes_def row_bytes_def [symmetric] offset_bytes_def kv_wf_def)
     (intro wrap64_small; linarith)+

lemma over_capacity_iff:
  assumes "kv_wf L c" and "kc_current_tokens c + n < 2 ^ 64"
  shows "over_capacity c n \<longleftrightarrow> kc_current_tokens c + n > kc_max_tokens c"
  using assms by (simp only: over_capacity_def wrap64_small)

subsection \<open>One append\<close>

text \<open>The rows to append lie outside the cache's own buffers.\<close>

definition sources_apart :: "cache_layout \<Rightarrow> kv_cache \<Rightarrow> dev_ptr \<Rightarrow> dev_ptr \<Rightarrow> nat \<Rightarrow> bool" where
  "sources_apart L c ks vs n \<longleftrightarrow>
     (\<forall>p \<in> {kc_k c, kc_v c}. \<forall>s \<in> {ks, vs}.
        region p (kc_bytes_per_tensor c) \<inter> region s (n * row_bytes L c) = {})"

lemma kv_append_over:
  assumes "kv_wf L c" and "kc_current_tokens c + n < 2 ^ 64" and "kc_max_tokens c < kc_current_tokens c + n"
  shows "kv_append L ops d c ks vs n = (Err (capacity_error c n), c, d)"
  using over_capacity_iff [OF assms(1,2)] assms(3) by (simp add: kv_append_def)

lemma kv_append_within:
  assumes "kv_wf L c" and "kc_current_tokens c + n < 2 ^ 64" and "kc_current_tokens c + n \<le> kc_max_tokens c"
  shows "kv_append L ops d c ks vs n =
    (case dev_memcpy ops d DeviceToDevice (kc_k c + kc_current_tokens c * row_bytes L c) ks (n * row_bytes L c) of
       (Ok _, d1) \<Rightarrow>
         (case dev_memcpy ops d1 DeviceToDevice (kc_v c + kc_current_tokens c * row_bytes L c) vs (n * row_bytes L c) of
            (Ok _, d2) \<Rightarrow> (Ok (), c\<lparr>kc_current_tokens := kc_current_tokens c + n\<rparr>, d2)
          | (Err e, d2) \<Rightarrow> (Err (KvDevice e), c, d2)
          | (Panic, d2) \<Rightarrow> (Panic, c, d2))
     | (Err e, d1) \<Rightarrow> (Err (KvDevice e), c, d1)
     | (Panic, d1) \<Rightarrow> (Panic, c, d1))"
proof -
  have "\<not> over_capacity c n"
    using over_capacity_iff [OF assms(1,2)] assms(3) by simp
  moreover have "advance c n = c\<lparr>kc_current_tokens := kc_current_tokens c + n\<rparr>"
    using assms(2) by (simp only: advance_def wrap64_small)
  ultimately show ?thesis
    by (simp only: kv_append_def append_geometry [OF assms(1,3)] Let_def if_False)
qed

text \<open>Both copies land in the part of the buffers that holds no row yet.\<close>

lemma memcpy_frame:
  "copies ops rd \<Longrightarrow> dev_memcpy ops d DeviceToDevice dst src n = (r, d') \<Longrightarrow> a \<notin> region dst n \<Longrightarrow> rd d' a = rd d a"
  unfolding copies_def by blast

lemma memcpy_moves:
  "copies ops rd \<Longrightarrow> dev_memcpy ops d DeviceToDevice dst src n = (Ok u, d') \<Longrightarrow>
     region dst n \<inter> region src n = {} \<Longrightarrow> i < n \<Longrightarrow> rd d' (dst + i) = rd d (src + i)"
  unfolding copies_def by (cases u) blast

definition free_slots :: "cache_layout \<Rightarrow> kv_cache \<Rightarrow> nat \<Rightarrow> nat set" where
  "free_slots L c n =
     region (kc_k c + kc_current_tokens c * row_bytes L c) (n * row_bytes L c)
     \<union> region (kc_v c + kc_current_tokens c * row_bytes L c) (n * row_bytes L c)"

lemma free_slots_subset:
  assumes "kv_wf L c" and "kc_current_tokens c + n \<le> kc_max_tokens c"
  shows "region (kc_k c + kc_current_tokens c * row_bytes L c) (n * row_bytes L c)
           \<subseteq> region (kc_k c) (kc_bytes_per_tensor c)"
    and "region (kc_v c + kc_current_tokens c * row_bytes L c) (n * row_bytes L c)
           \<subseteq> region (kc_v c) (kc_bytes_per_tensor c)"
  using append_fits [OF assms] by (auto simp: region_def)

lemma used_slots_subset:
  assumes "kv_wf L c"
  shows "region (kc_k c) (kc_current_tokens c * row_bytes L c) \<subseteq> region (kc_k c) (kc_bytes_per_tensor c)"
    and "region (kc_v c) (kc_current_tokens c * row_bytes L c) \<subseteq> region (kc_v c) (kc_bytes_per_tensor c)"
proof -
  have "kc_current_tokens c + 0 \<le> kc_max_tokens c" using assms by (simp add: kv_wf_def)
  from append_fits [OF assms this]
  show "region (kc_k c) (kc_current_tokens c * row_bytes L c) \<subseteq> region (kc_k c) (kc_bytes_per_tensor c)"
    and "region (kc_v c) (kc_current_tokens c * row_bytes L c) \<subseteq> region (kc_v c) (kc_bytes_per_tensor c)"
    by (auto simp: region_def)
qed

lemma used_not_free:
  assumes "kv_wf L c" and "kc_current_tokens c + n \<le> kc_max_tokens c"
    and "a \<in> region (kc_k c) (kc_current_tokens c * row_bytes L c)
          \<union> region (kc_v c) (kc_current_tokens c * row_bytes L c)"
  shows "a \<notin> free_slots L c n"
proof -
  have apart: "region (kc_k c) (kc_bytes_per_tensor c) \<inter> region (kc_v c) (kc_bytes_per_tensor c) = {}"
    using assms(1) unfolding kv_wf_def by blast
  have "a \<notin> region (p + kc_current_tokens c * row_bytes L c) (n * row_bytes L c)"
    if "a \<in> region p (kc_current_tokens c * row_bytes L c)" for p
    using that by (simp add: region_def)
  then show ?thesis
    using assms(3) apart free_slots_subset [OF assms(1,2)] used_slots_subset [OF assms(1)]
    by (auto simp: free_slots_def)
qed

lemma append_frame:
  assumes cp: "copies ops rd" and wf: "kv_wf L c" and sz: "kc_current_tokens c + n < 2 ^ 64"
    and run: "kv_append L ops d c ks vs n = (r, c', d')"
    and a: "kc_current_tokens c + n \<le> kc_max_tokens c \<longrightarrow> a \<notin> free_slots L c n"
  shows "rd d' a = rd d a"
proof (cases "kc_current_tokens c + n \<le> kc_max_tokens c")
  case False
  then show ?thesis using kv_append_over [OF wf sz, of ops d ks vs] run by auto
next
  case True
  note eq = kv_append_within [OF wf sz True, of ops d ks vs]
  obtain r1 d1 where m1: "dev_memcpy ops d DeviceToDevice (kc_k c + kc_current_tokens c * row_bytes L c) ks
      (n * row_bytes L c) = (r1, d1)" by (metis surj_pair)
  obtain r2 d2 where m2: "dev_memcpy ops d1 DeviceToDevice (kc_v c + kc_current_tokens c * row_bytes L c) vs
      (n * row_bytes L c) = (r2, d2)" by (metis surj_pair)
  have f1: "rd d1 a = rd d a" and f2: "rd d2 a = rd d1 a"
    using memcpy_frame [OF cp m1] memcpy_frame [OF cp m2] a True by (auto simp: free_slots_def)
  have "d' = d1 \<or> d' = d2"
    using run eq m1 m2 by (cases r1; cases r2) auto
  then show ?thesis using f1 f2 by auto
qed

lemma append_result:
  assumes wf: "kv_wf L c" and sz: "kc_current_tokens c + n < 2 ^ 64"
    and run: "kv_append L ops d c ks vs n = (r, c', d')"
  shows "(r \<noteq> Ok () \<and> c' = c) \<or>
    (r = Ok () \<and> kc_current_tokens c + n \<le> kc_max_tokens c \<and>
     c' = c\<lparr>kc_current_tokens := kc_current_tokens c + n\<rparr> \<and>
     (\<exists>d1. dev_memcpy ops d DeviceToDevice (kc_k c + kc_current_tokens c * row_bytes L c) ks
            (n * row_bytes L c) = (Ok (), d1) \<and>
          dev_memcpy ops d1 DeviceToDevice (kc_v c + kc_current_tokens c * row_bytes L c) vs
            (n * row_bytes L c) = (Ok (), d')))"
proof (cases "kc_current_tokens c + n \<le> kc_max_tokens c")
  case False
  then show ?thesis using kv_append_over [OF wf sz, of ops d ks vs] run by auto
next
  case True
  note eq = kv_append_within [OF wf sz True, of ops d ks vs]
  show ?thesis using run unfolding eq
    by (simp only: split: prod.splits outcome.splits) (auto simp: True)
qed

lemma append_keeps:
  assumes wf: "kv_wf L c" and sz: "kc_current_tokens c + n < 2 ^ 64"
    and run: "kv_append L ops d c ks vs n = (r, c', d')"
  shows "kv_wf L c' \<and> c' = c\<lparr>kc_current_tokens := kc_current_tokens c'\<rparr> \<and>
    kc_current_tokens c' = (if r = Ok () then kc_current_tokens c + n else kc_current_tokens c)"
  using append_result [OF assms] wf by (auto simp: kv_wf_def row_bytes_def)

lemma appended_rows:
  assumes cp: "copies ops rd" and wf: "kv_wf L c" and fit: "kc_current_tokens c + n \<le> kc_max_tokens c"
    and apart: "sources_apart L c ks vs n"
    and m1: "dev_memcpy ops d DeviceToDevice (kc_k c + kc_current_tokens c * row_bytes L c) ks
      (n * row_bytes L c) = (Ok (), d1)"
    and m2: "dev_memcpy ops d1 DeviceToDevice (kc_v c + kc_current_tokens c * row_bytes L c) vs
      (n * row_bytes L c) = (Ok (), d2)"
  shows "token_rows rd d2 (kc_k c + kc_current_tokens c * row_bytes L c)
      (kc_v c + kc_current_tokens c * row_bytes L c) (row_bytes L c) n = token_rows rd d ks vs (row_bytes L c) n"
proof -
  let ?k = "kc_k c + kc_current_tokens c * row_bytes L c"
  let ?v = "kc_v c + kc_current_tokens c * row_bytes L c" and ?len = "n * row_bytes L c"
  have bufs: "region (kc_k c) (kc_bytes_per_tensor c) \<inter> region (kc_v c) (kc_bytes_per_tensor c) = {}"
    using wf unfolding kv_wf_def by blast
  note sub = free_slots_subset [OF wf fit]
  have src: "region ?k ?len \<inter> region ks ?len = {}" "region ?k ?len \<inter> region vs ?len = {}"
    "region ?v ?len \<inter> region vs ?len = {}"
    using apart sub unfolding sources_apart_def by blast+
  have k: "rd d2 (?k + i) = rd d (ks + i)" if "i < ?len" for i
  proof -
    have "?k + i \<in> region ?k ?len" using that by (simp add: region_def)
    then have "?k + i \<notin> region ?v ?len" using sub bufs by blast
    then show ?thesis
      using memcpy_frame [OF cp m2] memcpy_moves [OF cp m1 src(1) that] by simp
  qed
  have v: "rd d2 (?v + i) = rd d (vs + i)" if "i < ?len" for i
  proof -
    have "vs + i \<in> region vs ?len" using that by (simp add: region_def)
    then have "vs + i \<notin> region ?k ?len" using src(2) by blast
    then show ?thesis
      using memcpy_frame [OF cp m1] memcpy_moves [OF cp m2 src(3) that] by simp
  qed
  show ?thesis
    unfolding token_rows_def
    using token_rows_copied [of n "row_bytes L c" rd d2 ?k d ks] k
      token_rows_copied [of n "row_bytes L c" rd d2 ?v d vs] v by auto
qed

lemma append_view:
  assumes cp: "copies ops rd" and wf: "kv_wf L c" and sz: "kc_current_tokens c + n < 2 ^ 64"
    and apart: "sources_apart L c ks vs n"
    and run: "kv_append L ops d c ks vs n = (r, c', d')"
  shows "kv_view L rd d' c' =
     kv_view L rd d c @ (if r = Ok () then token_rows rd d ks vs (row_bytes L c) n else [])"
proof -
  have old: "token_rows rd d' (kc_k c) (kc_v c) (row_bytes L c) (kc_current_tokens c) = kv_view L rd d c"
    unfolding kv_view_def
    using append_frame [OF cp wf sz run] used_not_free [OF wf] by (intro token_rows_cong) blast
  from append_result [OF wf sz run] show ?thesis
  proof (elim disjE conjE exE)
    assume "r \<noteq> Ok ()" "c' = c"
    then show ?thesis using old by (simp add: kv_view_def)
  next
    fix d1
    assume ok: "r = Ok ()" and fit: "kc_current_tokens c + n \<le> kc_max_tokens c"
      and c': "c' = c\<lparr>kc_current_tokens := kc_current_tokens c + n\<rparr>"
      and m: "dev_memcpy ops d DeviceToDevice (kc_k c + kc_current_tokens c * row_bytes L c) ks
            (n * row_bytes L c) = (Ok (), d1)"
        "dev_memcpy ops d1 DeviceToDevice (kc_v c + kc_current_tokens c * row_bytes L c) vs
            (n * row_bytes L c) = (Ok (), d')"
    have "row_bytes L c' = row_bytes L c" by (simp add: c' row_bytes_def)
    then have "kv_view L rd d' c' = token_rows rd d' (kc_k c) (kc_v c) (row_bytes L c) (kc_current_tokens c + n)"
      by (simp add: kv_view_def c')
    then show ?thesis
      using old appended_rows [OF cp wf fit apart m] by (simp add: ok token_rows_add)
  qed
qed

subsection \<open>Runs of the cache\<close>

datatype kv_op = KAppend dev_ptr dev_ptr nat | KRollback nat | KClear

fun kv_step ::
    "cache_layout \<Rightarrow> 'd device_ops \<Rightarrow> kv_op \<Rightarrow> kv_cache \<times> 'd \<Rightarrow> bool \<times> kv_cache \<times> 'd" where
  "kv_step L ops (KAppend ks vs n) (c, d) =
     (let (r, c', d') = kv_append L ops d c ks vs n in (r = Ok (), c', d'))"
| "kv_step L ops (KRollback n) (c, d) =
     (let (r, c') = kv_rollback c n in (r = Ok (), c', d))"
| "kv_step L ops KClear (c, d) = (True, kv_clear c, d)"

fun kv_run ::
    "cache_layout \<Rightarrow> 'd device_ops \<Rightarrow> kv_op list \<Rightarrow> kv_cache \<times> 'd \<Rightarrow> bool list \<times> kv_cache \<times> 'd" where
  "kv_run L ops [] s = ([], s)"
| "kv_run L ops (x # xs) s =
     (let (ok, s') = kv_step L ops x s; (oks, s'') = kv_run L ops xs s' in (ok # oks, s''))"

text \<open>The abstract cache: a list of rows; an operation that reports an error changes nothing.\<close>

fun rows_step :: "(dev_ptr \<Rightarrow> dev_ptr \<Rightarrow> nat \<Rightarrow> 'r list) \<Rightarrow> kv_op \<times> bool \<Rightarrow> 'r list \<Rightarrow> 'r list" where
  "rows_step rows (KAppend ks vs n, ok) xs = (if ok then xs @ rows ks vs n else xs)"
| "rows_step rows (KRollback n, ok) xs = (if ok then take (length xs - n) xs else xs)"
| "rows_step rows (KClear, ok) xs = []"

fun op_safe :: "cache_layout \<Rightarrow> kv_cache \<Rightarrow> kv_op \<Rightarrow> bool" where
  "op_safe L c (KAppend ks vs n) \<longleftrightarrow> kc_max_tokens c + n < 2 ^ 64 \<and> sources_apart L c ks vs n"
| "op_safe L c (KRollback n) \<longleftrightarrow> True"
| "op_safe L c KClear \<longleftrightarrow> True"

text \<open>What a run keeps: the buffers, the sizes, and every byte outside the two buffers.\<close>

definition kv_related ::
    "cache_layout \<Rightarrow> ('d \<Rightarrow> nat \<Rightarrow> 'b) \<Rightarrow> kv_cache \<Rightarrow> 'd \<Rightarrow> kv_cache \<Rightarrow> 'd \<Rightarrow> bool" where
  "kv_related L rd c d c' d' \<longleftrightarrow>
     kv_wf L c' \<and> c' = c\<lparr>kc_current_tokens := kc_current_tokens c'\<rparr> \<and>
     (\<forall>a. a \<notin> region (kc_k c) (kc_bytes_per_tensor c) \<union> region (kc_v c) (kc_bytes_per_tensor c) \<longrightarrow>
        rd d' a = rd d a)"

lemma related_same:
  assumes "kv_related L rd c0 d0 c d"
  shows "row_bytes L c = row_bytes L c0 \<and> kc_max_tokens c = kc_max_tokens c0 \<and>
    kc_bytes_per_tensor c = kc_bytes_per_tensor c0 \<and> kc_k c = kc_k c0 \<and> kc_v c = kc_v c0"
proof -
  obtain n where "c = c0\<lparr>kc_current_tokens := n\<rparr>"
    using assms unfolding kv_related_def by blast
  then show ?thesis by (simp add: row_bytes_def)
qed

lemma kv_wf_tokens:
  assumes "kv_wf L c" and "n \<le> kc_max_tokens c"
  shows "kv_wf L (c\<lparr>kc_current_tokens := n\<rparr>)"
proof -
  let ?c = "c\<lparr>kc_current_tokens := n\<rparr>"
  have same: "row_bytes L ?c = row_bytes L c" "kc_current_tokens ?c = n"
    "kc_max_tokens ?c = kc_max_tokens c" "kc_bytes_per_tensor ?c = kc_bytes_per_tensor c"
    "kc_k ?c = kc_k c" "kc_v ?c = kc_v c"
    by (simp_all add: row_bytes_def)
  from assms show ?thesis unfolding kv_wf_def same by (elim conjE, intro conjI)
qed

lemma related_shrink:
  assumes "kv_related L rd c0 d0 c d" and "n \<le> kc_current_tokens c"
  shows "kv_related L rd c0 d0 (c\<lparr>kc_current_tokens := n\<rparr>) d"
    and "kv_view L rd d (c\<lparr>kc_current_tokens := n\<rparr>) = take n (kv_view L rd d c)"
proof -
  obtain m where c: "c = c0\<lparr>kc_current_tokens := m\<rparr>"
    using assms unfolding kv_related_def by blast
  show "kv_related L rd c0 d0 (c\<lparr>kc_current_tokens := n\<rparr>) d"
    unfolding kv_related_def
  proof (intro conjI)
    have "kv_wf L c" using assms(1) unfolding kv_related_def by blast
    then show "kv_wf L (c\<lparr>kc_current_tokens := n\<rparr>)"
      using assms(2) by (intro kv_wf_tokens) (auto simp: kv_wf_def)
    show "c\<lparr>kc_current_tokens := n\<rparr> = c0\<lparr>kc_current_tokens := kc_current_tokens (c\<lparr>kc_current_tokens := n\<rparr>)\<rparr>"
      by (simp add: c)
    show "\<forall>a. a \<notin> region (kc_k c0) (kc_bytes_per_tensor c0) \<union> region (kc_v c0) (kc_bytes_per_tensor c0) \<longrightarrow>
        rd d a = rd d0 a"
      using assms(1) unfolding kv_related_def by blast
  qed
  show "kv_view L rd d (c\<lparr>kc_current_tokens := n\<rparr>) = take n (kv_view L rd d c)"
    using assms(2) by (simp add: kv_view_def row_bytes_def token_rows_take)
qed

lemma related_append:
  assumes cp: "copies ops rd" and rel: "kv_related L rd c0 d0 c d"
    and safe: "kc_max_tokens c0 + n < 2 ^ 64" "sources_apart L c0 ks vs n"
    and run: "kv_append L ops d c ks vs n = (r, c', d')"
  shows "kv_related L rd c0 d0 c' d'"
    and "kv_view L rd d' c' = kv_view L rd d c @
           (if r = Ok () then token_rows rd d0 ks vs (row_bytes L c0) n else [])"
proof -
  note same = related_same [OF rel]
  have wf: "kv_wf L c" and out: "\<And>a. a \<notin> region (kc_k c0) (kc_bytes_per_tensor c0) \<Longrightarrow>
      a \<notin> region (kc_v c0) (kc_bytes_per_tensor c0) \<Longrightarrow> rd d a = rd d0 a"
    using rel unfolding kv_related_def by auto
  have sz: "kc_current_tokens c + n < 2 ^ 64"
    using wf safe(1) same unfolding kv_wf_def by linarith
  have apart: "sources_apart L c ks vs n"
    using safe(2) same by (simp add: sources_apart_def)
  note keeps = append_keeps [OF wf sz run]
  show "kv_related L rd c0 d0 c' d'"
    unfolding kv_related_def
  proof (intro conjI allI impI)
    show "kv_wf L c'" using keeps by blast
    show "c' = c0\<lparr>kc_current_tokens := kc_current_tokens c'\<rparr>"
      using keeps rel unfolding kv_related_def
      by (metis kv_cache.update_convs(4) kv_cache.surjective kv_cache.simps(13))
    fix a assume a: "a \<notin> region (kc_k c0) (kc_bytes_per_tensor c0) \<union> region (kc_v c0) (kc_bytes_per_tensor c0)"
    have "kc_current_tokens c + n \<le> kc_max_tokens c \<Longrightarrow> a \<notin> free_slots L c n"
      using free_slots_subset [OF wf, of n] a same unfolding free_slots_def by auto
    then show "rd d' a = rd d0 a"
      using append_frame [OF cp wf sz run] out a by (metis UnI1 UnI2)
  qed
  have "rd d a = rd d0 a" if "a \<in> region ks (n * row_bytes L c0) \<union> region vs (n * row_bytes L c0)" for a
    using that safe(2) by (intro out) (auto simp: sources_apart_def)
  then have "token_rows rd d ks vs (row_bytes L c0) n = token_rows rd d0 ks vs (row_bytes L c0) n"
    by (intro token_rows_cong) blast
  then show "kv_view L rd d' c' = kv_view L rd d c @
      (if r = Ok () then token_rows rd d0 ks vs (row_bytes L c0) n else [])"
    using append_view [OF cp wf sz apart run] same by simp
qed

lemma kv_step_refines:
  assumes cp: "copies ops rd" and rel: "kv_related L rd c0 d0 c d" and safe: "op_safe L c0 x"
    and run: "kv_step L ops x (c, d) = (ok, c', d')"
  shows "kv_related L rd c0 d0 c' d' \<and>
    kv_view L rd d' c' =
      rows_step (\<lambda>ks vs n. token_rows rd d0 ks vs (row_bytes L c0) n) (x, ok) (kv_view L rd d c)"
proof (cases x)
  case (KAppend ks vs n)
  obtain r c1 d1 where r: "kv_append L ops d c ks vs n = (r, c1, d1)" by (metis prod_cases3)
  then have eqs: "c' = c1" "d' = d1" "ok = (r = Ok ())" using run KAppend by auto
  show ?thesis
    using related_append [OF cp rel _ _ r] safe KAppend eqs by auto
next
  case (KRollback n)
  then show ?thesis
    using run related_shrink [OF rel, of "kc_current_tokens c - n"] rel
    by (auto simp: kv_rollback_def kv_view_def split: if_splits)
next
  case KClear
  then show ?thesis
    using run related_shrink [OF rel, of 0] by (auto simp: kv_clear_def)
qed

lemma kv_run_refines:
  assumes cp: "copies ops rd" and "kv_related L rd c0 d0 c d" and "list_all (op_safe L c0) xs"
    and "kv_run L ops xs (c, d) = (oks, c', d')"
  shows "kv_related L rd c0 d0 c' d' \<and> length oks = length xs \<and>
    kv_view L rd d' c' =
      fold (rows_step (\<lambda>ks vs n. token_rows rd d0 ks vs (row_bytes L c0) n)) (zip xs oks) (kv_view L rd d c)"
  using assms(2-)
proof (induction xs arbitrary: c d oks)
  case Nil
  then show ?case by simp
next
  case (Cons x xs)
  obtain ok c1 d1 where s: "kv_step L ops x (c, d) = (ok, c1, d1)" by (metis prod_cases3)
  obtain oks' c2 d2 where r: "kv_run L ops xs (c1, d1) = (oks', c2, d2)" by (metis prod_cases3)
  have eqs: "oks = ok # oks'" "c2 = c'" "d2 = d'" using Cons.prems(3) s r by auto
  have st: "kv_related L rd c0 d0 c1 d1 \<and> kv_view L rd d1 c1 =
      rows_step (\<lambda>ks vs n. token_rows rd d0 ks vs (row_bytes L c0) n) (x, ok) (kv_view L rd d c)"
    using Cons.prems by (intro kv_step_refines [OF cp _ _ s]) simp_all
  show ?case
    using Cons.IH [of c1 d1 oks'] Cons.prems(2) st r by (simp add: eqs)
qed

lemma related_refl: "kv_wf L c \<Longrightarrow> kv_related L rd c d c d"
  by (simp add: kv_related_def)

end
