(* ===== verification/Kv_Props.thy ===== *)
theory Kv_Props
  imports Kv_Refine
begin

section \<open>What holds of the KV cache\<close>

text \<open>
  The properties of \<^verbatim>\<open>kv_cache.rs\<close>: the refinement over whole runs, the captured append, the
  fresh cache, the row geometry of the two layouts, and two findings on the error paths.
\<close>

text \<open>A device whose memory is a function from addresses, for the concrete instances.\<close>

definition demo_device :: "(nat \<Rightarrow> nat) device_ops" where
  "demo_device =
     \<lparr>dev_alloc = (\<lambda>m n. (Err (AllocFailed ''cpu'' 0 n ''full''), m)),
      dev_dealloc = (\<lambda>m p n. (Ok (), m)),
      dev_memcpy = (\<lambda>m dir dst src n.
        (Ok (), \<lambda>a. if dst \<le> a \<and> a < dst + n then m (src + (a - dst)) else m a))\<rparr>"

definition demo_cache :: kv_cache where
  "demo_cache = \<lparr>kc_k = 100, kc_v = 200, kc_max_tokens = 4, kc_current_tokens = 0,
     kc_n_heads = 1, kc_head_dim = 1, kc_bytes_per_tensor = 8\<rparr>"

lemma demo_copies: "copies demo_device (\<lambda>m. m)"
  by (auto simp: copies_def demo_device_def region_def)

lemma demo_row [simp]: "row_bytes f16_contig demo_cache = 2"
  by (simp add: row_bytes_def demo_cache_def f16_contig_def)

lemma demo_wf: "kv_wf f16_contig demo_cache"
proof -
  have "kc_current_tokens demo_cache = 0" "kc_max_tokens demo_cache = 4" "kc_k demo_cache = 100"
    "kc_v demo_cache = 200" "kc_bytes_per_tensor demo_cache = 8"
    by (simp_all add: demo_cache_def)
  then show ?thesis unfolding kv_wf_def by (auto simp: region_def)
qed

subsection \<open>Refinement\<close>

text \<open>
  C20: Over any sequence of appends, rollbacks and clears, with the source buffers outside the
  cache's own, the cache's memory shows the list of token rows that the abstract operations
  compute: appends add the source rows at the end, a rollback drops the last rows, a clear drops
  all, a failing operation changes nothing. The capacity, the buffers and the well-formedness are
  kept, and no byte outside the two buffers is written.
\<close>

theorem kv_cache_refines_rows:
  assumes "copies ops rd" and "kv_wf L c" and "list_all (op_safe L c) xs"
    and "kv_run L ops xs (c, d) = (oks, c', d')"
  shows "kv_view L rd d' c' =
      fold (rows_step (\<lambda>ks vs n. token_rows rd d ks vs (row_bytes L c) n)) (zip xs oks) (kv_view L rd d c)
    \<and> length (kv_view L rd d' c') \<le> kc_max_tokens c \<and> kv_related L rd c d c' d'"
proof -
  note run = kv_run_refines [OF assms(1) related_refl [OF assms(2)] assms(3,4)]
  have "kc_max_tokens c' = kc_max_tokens c" using related_same [of L rd c d c' d'] run by simp
  moreover have "kv_wf L c'" using run unfolding kv_related_def by blast
  ultimately have "length (kv_view L rd d' c') \<le> kc_max_tokens c"
    by (simp add: kv_view_def kv_wf_def)
  then show ?thesis using run by blast
qed

theorem kv_cache_refines_rows_witness:
  "\<exists>c' d'. kv_run f16_contig demo_device [KAppend 10 20 2, KRollback 1, KAppend 30 40 1, KAppend 30 40 9]
      (demo_cache, \<lambda>a. a) = ([True, True, True, False], c', d') \<and>
    kv_view f16_contig (\<lambda>m. m) d' c' = [([10, 11], [20, 21]), ([30, 31], [40, 41])]"
proof -
  let ?xs = "[KAppend 10 20 2, KRollback 1, KAppend 30 40 1, KAppend 30 40 9]"
  obtain oks c' d' where run: "kv_run f16_contig demo_device ?xs (demo_cache, \<lambda>a. a) = (oks, c', d')"
    by (metis prod_cases3)
  have oks: "oks = [True, True, True, False]"
    using run by (simp add: kv_append_def over_capacity_def demo_cache_def demo_device_def advance_def
        kv_rollback_def per_token_bytes_def f16_contig_def offset_bytes_def Let_def split: if_splits)
  have safe: "list_all (op_safe f16_contig demo_cache) ?xs"
    by (simp add: sources_apart_def) (auto simp: region_def demo_cache_def)
  have rows: "token_rows (\<lambda>m. m) (\<lambda>a. a) p q 2 1 = [([p, p + 1], [q, q + 1])]"
    "token_rows (\<lambda>m. m) (\<lambda>a. a) p q 2 2 = [([p, p + 1], [q, q + 1]), ([p + 2, p + 3], [q + 2, q + 3])]"
    for p q :: nat
    by (simp_all add: token_rows_def token_row_def upt_rec numeral_2_eq_2)
  have "kv_view f16_contig (\<lambda>m. m) (\<lambda>a. a) demo_cache = []"
    by (simp add: kv_view_def token_rows_def demo_cache_def)
  then have "kv_view f16_contig (\<lambda>m. m) d' c' = [([10, 11], [20, 21]), ([30, 31], [40, 41])]"
    using kv_cache_refines_rows [OF demo_copies demo_wf safe run] by (simp add: oks rows(2) rows(1) [simplified])
  then show ?thesis using run oks by blast
qed

subsection \<open>The captured append\<close>

fun slot_error :: "kv_error \<Rightarrow> slot_append_error" where
  "slot_error (KvDevice e) = SlotCopy e"
| "slot_error (CapacityExceeded c n m) = AppendDsts (CapacityExceeded c n m)"
| "slot_error (ShapeMismatch a b c d) = AppendDsts (ShapeMismatch a b c d)"

text \<open>
  C21: The captured variant, which asks for the destinations, issues the two copies and then bumps
  the tail, does to the memory and the cache exactly what \<^verbatim>\<open>append\<close> does, on every branch; its
  errors are the same up to the wrapping, and the second capacity check never fails.
\<close>

theorem kv_append_slot_equivalent:
  "kv_cache_append_hip_slot L (\<lambda>_. ops) d c (k_new, v_new, n) slots =
     (let (r, c', d') = kv_append L ops d c k_new v_new n in (map_err slot_error r, c', d'))"
  by (cases slots)
     (auto simp: kv_cache_append_hip_slot_def kv_append_def compute_append_dsts_def bump_tail_def
       capacity_error_def Let_def split: prod.splits outcome.splits)

subsection \<open>A fresh cache\<close>

text \<open>The documented promise of the allocator: a region inside the address space, apart from the one before.\<close>

definition allocates :: "'d device_ops \<Rightarrow> bool" where
  "allocates ops \<longleftrightarrow>
     (\<forall>d n p d1. dev_alloc ops d n = (Ok p, d1) \<longrightarrow> p + n < 2 ^ 64 \<and>
        (\<forall>q d2. dev_alloc ops d1 n = (Ok q, d2) \<longrightarrow> region p n \<inter> region q n = {}))"

text \<open>
  When both allocations succeed and the sizes do not wrap, \<^verbatim>\<open>new\<close> returns a well-formed, empty
  cache with the asked capacity; the head dimension must be a multiple of the layout's block, and
  is rejected by a panic otherwise.
\<close>

theorem kv_new_fresh:
  assumes "allocates ops" and "kv_new L ops d heads hdim maxt = (Ok c, d')"
    and "maxt < 2 ^ 64" and "heads * bytes_per_row L hdim < 2 ^ 64"
    and "maxt * heads < 2 ^ 64" and "maxt * (heads * bytes_per_row L hdim) < 2 ^ 64"
  shows "kv_wf L c \<and> kv_view L rd d' c = [] \<and> kc_max_tokens c = maxt \<and> hdim mod head_dim_multiple L = 0"
proof -
  let ?bpt = "maxt * (heads * bytes_per_row L hdim)"
  have bpt: "wrap64 (wrap64 (maxt * heads) * bytes_per_row L hdim) = ?bpt"
    using assms(5,6) by (simp only: wrap64_small mult.assoc)
  obtain k d1 v where a: "dev_alloc ops d ?bpt = (Ok k, d1)" "dev_alloc ops d1 ?bpt = (Ok v, d')"
    and c: "c = \<lparr>kc_k = k, kc_v = v, kc_max_tokens = maxt, kc_current_tokens = 0,
              kc_n_heads = heads, kc_head_dim = hdim, kc_bytes_per_tensor = ?bpt\<rparr>"
    and mul: "hdim mod head_dim_multiple L = 0"
    using assms(2) by (auto simp: kv_new_def bpt Let_def split: if_splits prod.splits outcome.splits)
  have "k + ?bpt < 2 ^ 64" "v + ?bpt < 2 ^ 64" "region k ?bpt \<inter> region v ?bpt = {}"
    using assms(1) a unfolding allocates_def by blast+
  then have "kv_wf L c"
    unfolding kv_wf_def row_bytes_def c kv_cache.simps using assms(3,4) by (intro conjI le0 refl)
  then show ?thesis using mul by (simp add: c kv_view_def token_rows_def)
qed

text \<open>A device that hands out consecutive regions until \<open>cap\<close> bytes are in use; its state is that count.\<close>

definition bump_device :: "nat \<Rightarrow> nat device_ops" where
  "bump_device cap =
     \<lparr>dev_alloc = (\<lambda>u n. if u + n < cap then (Ok u, u + n) else (Err (AllocFailed ''cpu'' 0 n ''full''), u)),
      dev_dealloc = (\<lambda>u p n. (Ok (), u - n)),
      dev_memcpy = (\<lambda>u dir dst src n. (Ok (), u))\<rparr>"

lemma bump_allocates: "cap \<le> 2 ^ 64 \<Longrightarrow> allocates (bump_device cap)"
  by (auto simp: allocates_def bump_device_def region_def split: if_splits)

theorem kv_new_fresh_witness:
  "\<exists>c. kv_new q8_contig (bump_device 4096) 16 2 64 3 = (Ok c, 832) \<and> kv_wf q8_contig c"
proof -
  let ?c = "\<lparr>kc_k = 16, kc_v = 424, kc_max_tokens = 3, kc_current_tokens = 0,
    kc_n_heads = 2, kc_head_dim = 64, kc_bytes_per_tensor = 408\<rparr>"
  have row: "bytes_per_row q8_contig 64 = 68" by (simp add: q8_contig_def q8_0_block_bytes_def)
  then have run: "kv_new q8_contig (bump_device 4096) 16 2 64 3 = (Ok ?c, 832)"
    by (simp add: kv_new_def bump_device_def) (simp add: q8_contig_def)
  moreover have "allocates (bump_device 4096)" by (intro bump_allocates) simp
  ultimately have "kv_wf q8_contig ?c"
    using kv_new_fresh [of "bump_device 4096" q8_contig 16 2 64 3 ?c 832 "\<lambda>_ a. a"] by (simp add: row)
  then show ?thesis using run by blast
qed

subsection \<open>Row geometry\<close>

text \<open>The bytes of the row of \<open>head\<close> in \<open>token\<close>, relative to the buffer.\<close>

definition row_offset :: "cache_layout \<Rightarrow> kv_cache \<Rightarrow> nat \<Rightarrow> nat \<Rightarrow> nat" where
  "row_offset L c t h = (t * kc_n_heads c + h) * bytes_per_row L (kc_head_dim c)"

lemma row_index_less:
  assumes "t < (m :: nat)" and "h < n"
  shows "t * n + h < m * n"
proof -
  have "t * n + n \<le> m * n" using assms(1) by (metis Suc_leI add.commute mult_Suc mult_le_mono1)
  then show ?thesis using assms(2) by linarith
qed

lemma row_index_inj:
  assumes "h < (n :: nat)" and "h' < n" and "t * n + h = t' * n + h'"
  shows "t = t' \<and> h = h'"
  using assms by (metis add.commute div_mult_self3 mod_mult_self3 div_less mod_less add_0_right
      mult.commute not_less_zero)

context kv_layout begin

lemma rows_disjoint:
  assumes "i < j"
  shows "region (p + i * bytes_per_row L d) (bytes_per_row L d) \<inter>
    region (p + j * bytes_per_row L d) (bytes_per_row L d) = {}"
proof -
  have "i * bytes_per_row L d + bytes_per_row L d \<le> j * bytes_per_row L d"
    using assms by (metis Suc_leI add.commute mult_Suc mult_le_mono1)
  then show ?thesis by (auto simp: region_def)
qed

lemma row_geometry:
  assumes wf: "kv_wf L c" and hd: "kc_head_dim c mod head_dim_multiple L = 0"
    and sz: "kc_head_dim c div head_dim_multiple L * unit_bytes < 2 ^ 64"
    and r: "t < kc_max_tokens c" "h < kc_n_heads c" and r': "t' < kc_max_tokens c" "h' < kc_n_heads c"
  shows "row_offset L c t h + bytes_per_row L (kc_head_dim c) \<le> kc_bytes_per_tensor c \<and>
    even (row_offset L c t h) \<and>
    ((t, h) = (t', h') \<or>
     region (kc_k c + row_offset L c t h) (bytes_per_row L (kc_head_dim c)) \<inter>
     region (kc_k c + row_offset L c t' h') (bytes_per_row L (kc_head_dim c)) = {})"
proof (intro conjI)
  let ?row = "bytes_per_row L (kc_head_dim c)"
  have "Suc (t * kc_n_heads c + h) \<le> kc_max_tokens c * kc_n_heads c"
    using row_index_less [OF r] by simp
  then have "Suc (t * kc_n_heads c + h) * ?row \<le> kc_max_tokens c * kc_n_heads c * ?row"
    by (rule mult_le_mono1)
  then show "row_offset L c t h + ?row \<le> kc_bytes_per_tensor c"
    using wf by (simp add: row_offset_def kv_wf_def row_bytes_def mult.assoc)
  show "even (row_offset L c t h)" using row_even [OF hd sz] by (simp add: row_offset_def)
  show "(t, h) = (t', h') \<or> region (kc_k c + row_offset L c t h) ?row \<inter>
      region (kc_k c + row_offset L c t' h') ?row = {}"
  proof (cases "t * kc_n_heads c + h = t' * kc_n_heads c + h'")
    case True
    then show ?thesis using row_index_inj [OF r(2) r'(2)] by simp
  next
    case False
    then have "t * kc_n_heads c + h < t' * kc_n_heads c + h' \<or> t' * kc_n_heads c + h' < t * kc_n_heads c + h"
      by linarith
    then show ?thesis
      unfolding row_offset_def using rows_disjoint by (metis Int_commute)
  qed
qed

end

text \<open>
  In both layouts every (token, head) row lies inside the buffer, starts at an even offset (the
  half-precision scale of a block is aligned) and overlaps no other row.
\<close>

theorem kv_rows_laid_out:
  assumes "L \<in> {f16_contig, q8_contig}" and "kv_wf L c" and "kc_head_dim c mod head_dim_multiple L = 0"
    and "kc_head_dim c < 2 ^ 58"
    and "t < kc_max_tokens c" and "h < kc_n_heads c" and "t' < kc_max_tokens c" and "h' < kc_n_heads c"
  shows "row_offset L c t h + bytes_per_row L (kc_head_dim c) \<le> kc_bytes_per_tensor c \<and>
    even (row_offset L c t h) \<and>
    ((t, h) = (t', h') \<or>
     region (kc_k c + row_offset L c t h) (bytes_per_row L (kc_head_dim c)) \<inter>
     region (kc_k c + row_offset L c t' h') (bytes_per_row L (kc_head_dim c)) = {})"
proof -
  have "kc_head_dim c div 1 * 2 < 2 ^ 64" "kc_head_dim c div 32 * 34 < 2 ^ 64"
    using assms(4) by simp_all
  then have "kc_head_dim c div head_dim_multiple f16_contig * 2 < 2 ^ 64"
    "kc_head_dim c div head_dim_multiple q8_contig * 34 < 2 ^ 64"
    by (simp_all add: f16_contig_def q8_contig_def)
  then show ?thesis
    using assms f16.row_geometry [of c t h t' h'] q8.row_geometry [of c t h t' h']
    by (elim insertE emptyE) (simp_all only:)
qed

theorem kv_rows_laid_out_witness:
  "region (kc_k demo_cache + row_offset f16_contig demo_cache 1 0) 2 \<inter>
     region (kc_k demo_cache + row_offset f16_contig demo_cache 3 0) 2 = {}"
proof -
  have "kc_head_dim demo_cache mod head_dim_multiple f16_contig = 0"
    "bytes_per_row f16_contig (kc_head_dim demo_cache) = 2" "kc_head_dim demo_cache < 2 ^ 58"
    "1 < kc_max_tokens demo_cache" "0 < kc_n_heads demo_cache" "3 < kc_max_tokens demo_cache"
    by (simp_all add: f16_contig_def demo_cache_def)
  then show ?thesis
    using kv_rows_laid_out [of f16_contig demo_cache 1 0 3 0] demo_wf by simp
qed

subsection \<open>Error paths\<close>

text \<open>
  When the V allocation fails, \<^verbatim>\<open>new\<close> returns the device's error without giving K back: no
  deallocation is issued, so on a device that counts the bytes in use, K's bytes stay in use and
  nothing owns their pointer.
\<close>

theorem kv_new_leaks_k:
  assumes "head_dim_multiple L \<noteq> 0" and "hdim mod head_dim_multiple L = 0"
    and "bpt = wrap64 (wrap64 (maxt * heads) * bytes_per_row L hdim)"
    and "dev_alloc ops d bpt = (Ok k, d1)" and "in_use d1 = in_use d + bpt"
    and "dev_alloc ops d1 bpt = (Err e, d2)" and "in_use d2 = in_use d1"
  shows "kv_new L ops d heads hdim maxt = (Err (KvDevice e), d2) \<and> in_use d2 = in_use d + bpt"
  using assms by (simp add: kv_new_def Let_def)

theorem kv_new_leaks_k_witness:
  "kv_new q8_contig (bump_device 500) 16 2 64 3 =
     (Err (KvDevice (AllocFailed ''cpu'' 0 408 ''full'')), 424)"
proof -
  have row: "bytes_per_row q8_contig 64 = 68" "head_dim_multiple q8_contig = 32"
    by (simp_all add: q8_contig_def q8_0_block_bytes_def)
  have "408 = wrap64 (wrap64 (3 * 2) * bytes_per_row q8_contig 64)" by (simp add: row)
  moreover have "dev_alloc (bump_device 500) 16 408 = (Ok 16, 424)"
    "dev_alloc (bump_device 500) 424 408 = (Err (AllocFailed ''cpu'' 0 408 ''full''), 424)"
    by (simp_all add: bump_device_def)
  ultimately show ?thesis
    using kv_new_leaks_k [of q8_contig 64 408 3 2 "bump_device 500" 16 16 424 id
        "AllocFailed ''cpu'' 0 408 ''full''" 424] row(2) by auto
qed

lemma add_complement_mod:
  assumes "m \<le> a" and "a < N"
  shows "(a + (N - m)) mod N = a - (m :: nat)"
proof -
  have "a + (N - m) = (a - m) + N" using assms by simp
  then show ?thesis using assms by (metis less_imp_diff_less mod_add_self2 mod_less)
qed

text \<open>
  The capacity checks add without checking for overflow. An advance by \<open>2 ^ 64 - m\<close> passes them
  and moves the tail back by \<open>m\<close> tokens, in \<^verbatim>\<open>bump_tail\<close>, where it returns no error.
\<close>

theorem kv_bump_tail_wraps:
  assumes "0 < m" and "m \<le> kc_current_tokens c" and "kc_current_tokens c \<le> kc_max_tokens c"
    and "kc_max_tokens c < 2 ^ 64"
  shows "bump_tail c (2 ^ 64 - m) = (Ok (), c\<lparr>kc_current_tokens := kc_current_tokens c - m\<rparr>)"
proof -
  have "wrap64 (kc_current_tokens c + (2 ^ 64 - m)) = kc_current_tokens c - m"
    unfolding wrap64_def
    by (rule add_complement_mod [OF assms(2) le_less_trans [OF assms(3,4)]])
  then show ?thesis
    using assms(3) by (simp only: bump_tail_def over_capacity_def advance_def) simp
qed

theorem kv_bump_tail_wraps_witness:
  "kc_current_tokens (snd (bump_tail (demo_cache\<lparr>kc_current_tokens := 3\<rparr>) (2 ^ 64 - 2))) = 1"
  using kv_bump_tail_wraps [of 2 "demo_cache\<lparr>kc_current_tokens := 3\<rparr>"] by (simp add: demo_cache_def)

end
