(* ===== verification/Collective.thy ===== *)
theory Collective
  imports FB_Prelude
begin

section \<open>Collectives of the reference mesh: ranks as interleaved threads\<close>

text \<open>
  \<^verbatim>\<open>crates/runtime/src/collective.rs\<close>: \<open>n\<close> rank threads share one slot per rank behind a mutex and
  meet at a \<^verbatim>\<open>std::sync::Barrier\<close>. A world is the shared staging and the threads; a step is one
  thread doing one atomic action (an action under the lock, an arrival at the barrier, a wake-up),
  and which thread moves next is not determined.

  Every rank runs the same list of calls, as the contract of \<^verbatim>\<open>AllReduce\<close> asks; the buffers it
  passes may depend on the results it has received so far. The arithmetic on the elements (IEEE
  single precision, and half precision through single) is a parameter.
\<close>

subsection \<open>Configuration, mesh and errors\<close>

datatype reduce_op = Sum | Max | Min

datatype collective_dtype = F32 | F16

fun dtype_bytes :: "collective_dtype \<Rightarrow> nat" where
  "dtype_bytes F32 = 4"
| "dtype_bytes F16 = 2"

record collective_cfg =
  elem_count :: nat
  cfg_dtype :: collective_dtype
  cfg_op :: reduce_op

definition buffer_bytes :: "collective_cfg \<Rightarrow> nat" where
  "buffer_bytes cfg = wrap64 (elem_count cfg * dtype_bytes (cfg_dtype cfg))"

datatype collective_error =
    RankOutOfRange nat nat
  | BufferLen nat collective_dtype nat
  | CollectiveNotBuilt string
  | CollectiveBackend string string int string
  | CollectiveDevice string string string

definition check_buf :: "'b list \<Rightarrow> collective_cfg \<Rightarrow> collective_error option" where
  "check_buf buf cfg =
     (if length buf \<noteq> buffer_bytes cfg
      then Some (BufferLen (elem_count cfg) (cfg_dtype cfg) (length buf)) else None)"

subsection \<open>Reduction\<close>

text \<open>
  The element arithmetic: a byte slice read as elements, elements written back, and the reduction
  of two elements. For \<open>F16\<close> the elements are single-precision values.
\<close>

record ('b, 'v) numerics =
  elems_of :: "collective_dtype \<Rightarrow> 'b list \<Rightarrow> 'v list"
  bytes_of :: "collective_dtype \<Rightarrow> 'v list \<Rightarrow> 'b list"
  combine :: "collective_dtype \<Rightarrow> reduce_op \<Rightarrow> 'v \<Rightarrow> 'v \<Rightarrow> 'v"

definition numerics_ok :: "('b, 'v) numerics \<Rightarrow> bool" where
  "numerics_ok N \<longleftrightarrow> (\<forall>t bs. length (elems_of N t bs) = length bs div dtype_bytes t) \<and>
     (\<forall>t vs. length (bytes_of N t vs) = length vs * dtype_bytes t)"

text \<open>\<^verbatim>\<open>bytemuck::cast_slice\<close> panics on a length that is no multiple of the element size.\<close>

definition cast_slice :: "('b, 'v) numerics \<Rightarrow> collective_dtype \<Rightarrow> 'b list \<Rightarrow> (collective_error, 'v list) outcome" where
  "cast_slice N t bs = (if length bs mod dtype_bytes t \<noteq> 0 then Panic else Ok (elems_of N t bs))"

text \<open>One rank folded into the accumulator: the first \<open>n\<close> elements, an index out of range panics.\<close>

definition fold_rank ::
    "('b, 'v) numerics \<Rightarrow> collective_cfg \<Rightarrow> 'v list \<Rightarrow> 'v list \<Rightarrow> (collective_error, 'v list) outcome" where
  "fold_rank N cfg acc xs =
     (let n = elem_count cfg in
      if length acc < n \<or> length xs < n then Panic
      else Ok (map2 (combine N (cfg_dtype cfg) (cfg_op cfg)) (take n acc) (take n xs) @ drop n acc))"

fun fold_ranks ::
    "('b, 'v) numerics \<Rightarrow> collective_cfg \<Rightarrow> 'v list \<Rightarrow> 'b list list \<Rightarrow> (collective_error, 'v list) outcome" where
  "fold_ranks N cfg acc [] = Ok acc"
| "fold_ranks N cfg acc (b # bs) =
     obind (cast_slice N (cfg_dtype cfg) b) (\<lambda>xs.
     obind (fold_rank N cfg acc xs) (\<lambda>acc'. fold_ranks N cfg acc' bs))"

definition copy_from_slice :: "'b list \<Rightarrow> 'b list \<Rightarrow> (collective_error, 'b list) outcome" where
  "copy_from_slice dst src = (if length dst \<noteq> length src then Panic else Ok src)"

fun write_back :: "'b list \<Rightarrow> 'b list list \<Rightarrow> (collective_error, 'b list list) outcome" where
  "write_back out [] = Ok []"
| "write_back out (b # bs) =
     obind (copy_from_slice b out) (\<lambda>b'. obind (write_back out bs) (\<lambda>bs'. Ok (b' # bs')))"

definition reduce_slots ::
    "('b, 'v) numerics \<Rightarrow> collective_cfg \<Rightarrow> 'b list list \<Rightarrow> (collective_error, 'b list list) outcome" where
  "reduce_slots N cfg slots =
     (case slots of
        [] \<Rightarrow> Panic
      | s # rest \<Rightarrow>
          obind (cast_slice N (cfg_dtype cfg) s) (\<lambda>acc0.
          obind (fold_ranks N cfg acc0 rest) (\<lambda>acc.
          write_back (bytes_of N (cfg_dtype cfg) acc) slots)))"

subsection \<open>The four operations, cut at the barriers\<close>

datatype collective_call =
    AllReduce collective_cfg
  | AllGather collective_cfg
  | AllToAll collective_cfg
  | Broadcast nat collective_cfg

text \<open>
  The checks before the first barrier, in the order of the source: \<open>buf\<close> is the in-place or send
  buffer, \<open>recv\<close> the receive buffer of the two operations that have one.
\<close>

fun admit :: "nat \<Rightarrow> collective_call \<Rightarrow> 'b list \<Rightarrow> 'b list \<Rightarrow> collective_error option" where
  "admit n (AllReduce cfg) buf recv = check_buf buf cfg"
| "admit n (AllGather cfg) buf recv =
     (case check_buf buf cfg of
        Some e \<Rightarrow> Some e
      | None \<Rightarrow> if length recv \<noteq> wrap64 (buffer_bytes cfg * n)
          then Some (BufferLen (wrap64 (elem_count cfg * n)) (cfg_dtype cfg) (length recv)) else None)"
| "admit n (AllToAll cfg) buf recv =
     (if length buf \<noteq> wrap64 (buffer_bytes cfg * n)
      then Some (BufferLen (wrap64 (elem_count cfg * n)) (cfg_dtype cfg) (length buf))
      else if length recv \<noteq> wrap64 (buffer_bytes cfg * n)
      then Some (BufferLen (wrap64 (elem_count cfg * n)) (cfg_dtype cfg) (length recv)) else None)"
| "admit n (Broadcast root cfg) buf recv =
     (if root \<ge> n then Some (RankOutOfRange root n) else check_buf buf cfg)"

fun deposits :: "collective_call \<Rightarrow> nat \<Rightarrow> bool" where
  "deposits (Broadcast root cfg) r \<longleftrightarrow> r = root"
| "deposits _ r \<longleftrightarrow> True"

text \<open>\<^verbatim>\<open>recv[a..b].copy_from_slice(src)\<close>, and the loops that fill a receive buffer.\<close>

definition write_at :: "'b list \<Rightarrow> nat \<Rightarrow> nat \<Rightarrow> 'b list \<Rightarrow> (collective_error, 'b list) outcome" where
  "write_at recv a b src =
     (if a \<le> b \<and> b \<le> length recv \<and> length src = b - a
      then Ok (take a recv @ src @ drop b recv) else Panic)"

fun copy_shards ::
    "nat \<Rightarrow> (nat \<Rightarrow> (collective_error, 'b list) outcome) \<Rightarrow> nat list \<Rightarrow> 'b list \<Rightarrow> (collective_error, 'b list) outcome" where
  "copy_shards shard src [] recv = Ok recv"
| "copy_shards shard src (i # is) recv =
     obind (src i) (\<lambda>s. obind (write_at recv (i * shard) ((i + 1) * shard) s)
       (copy_shards shard src is))"

definition slice_checked :: "'b list \<Rightarrow> nat \<Rightarrow> nat \<Rightarrow> (collective_error, 'b list) outcome" where
  "slice_checked xs a b = (if a \<le> b \<and> b \<le> length xs then Ok (slice_of xs a b) else Panic)"

text \<open>
  Between the barriers: rank 0 of an all-reduce reduces the slots in place, the other operations
  read the slots into the caller's buffer. The result is the new slots and the new buffer.
\<close>

fun between ::
    "('b, 'v) numerics \<Rightarrow> nat \<Rightarrow> collective_call \<Rightarrow> nat \<Rightarrow> 'b list list \<Rightarrow> 'b list \<Rightarrow> 'b list
      \<Rightarrow> (collective_error, 'b list list \<times> 'b list) outcome" where
  "between N n (AllReduce cfg) r slots buf recv =
     (if r = 0 then obind (reduce_slots N cfg slots) (\<lambda>slots'. Ok (slots', buf)) else Ok (slots, buf))"
| "between N n (AllGather cfg) r slots buf recv =
     obind (copy_shards (buffer_bytes cfg) (\<lambda>i. Ok (slots ! i)) [0..<n] recv)
       (\<lambda>recv'. Ok (slots, recv'))"
| "between N n (AllToAll cfg) r slots buf recv =
     (let shard = buffer_bytes cfg in
      obind (copy_shards shard (\<lambda>s. slice_checked (slots ! s) (r * shard) ((r + 1) * shard)) [0..<n] recv)
        (\<lambda>recv'. Ok (slots, recv')))"
| "between N n (Broadcast root cfg) r slots buf recv =
     obind (copy_from_slice buf (slots ! root)) (\<lambda>buf'. Ok (slots, buf'))"

text \<open>After the second barrier an all-reduce copies its own slot out; the others return.\<close>

fun after :: "collective_call \<Rightarrow> nat \<Rightarrow> 'b list list \<Rightarrow> 'b list \<Rightarrow> (collective_error, 'b list) outcome" where
  "after (AllReduce cfg) r slots buf = copy_from_slice buf (slots ! r)"
| "after _ r slots buf = Ok buf"

subsection \<open>Worlds and steps\<close>

datatype rank_phase =
    Entering
  | Arriving1
  | Waiting1 nat
  | Middle
  | Arriving2
  | Waiting2 nat
  | Leaving
  | Failed collective_error

record 'b rank_thread =
  rt_call :: nat
  rt_phase :: rank_phase
  rt_buf :: "'b list"
  rt_recv :: "'b list"
  rt_outs :: "'b list list"

record 'b world =
  w_slots :: "'b list list"
  w_arrived :: nat
  w_generation :: nat
  w_ranks :: "'b rank_thread list"
  w_crashed :: bool

record ('b, 'v) mesh_run =
  su_n :: nat
  su_calls :: "collective_call list"
  su_prog :: "nat \<Rightarrow> 'b list list \<Rightarrow> 'b list \<times> 'b list"
  su_numerics :: "('b, 'v) numerics"

text \<open>\<^verbatim>\<open>RefMesh::new\<close> and one handle per rank.\<close>

definition ref_mesh :: "('b, 'v) mesh_run \<Rightarrow> 'b world" where
  "ref_mesh S =
     \<lparr>w_slots = replicate (su_n S) [], w_arrived = 0, w_generation = 0,
      w_ranks = replicate (su_n S)
        \<lparr>rt_call = 0, rt_phase = Entering, rt_buf = [], rt_recv = [], rt_outs = []\<rparr>,
      w_crashed = False\<rparr>"

definition set_rank :: "nat \<Rightarrow> 'b rank_thread \<Rightarrow> 'b world \<Rightarrow> 'b world" where
  "set_rank r x w = w\<lparr>w_ranks := (w_ranks w)[r := x]\<rparr>"

text \<open>
  \<^verbatim>\<open>Barrier::wait\<close>: the last to arrive resets the count, starts the next generation and goes on;
  the others wait until the generation is no longer theirs.
\<close>

definition arrive :: "nat \<Rightarrow> nat \<Rightarrow> 'b rank_thread \<Rightarrow> (nat \<Rightarrow> rank_phase) \<Rightarrow> rank_phase \<Rightarrow> 'b world \<Rightarrow> 'b world" where
  "arrive n r x wait_phase next_phase w =
     (if w_arrived w + 1 < n
      then set_rank r (x\<lparr>rt_phase := wait_phase (w_generation w)\<rparr>) (w\<lparr>w_arrived := w_arrived w + 1\<rparr>)
      else set_rank r (x\<lparr>rt_phase := next_phase\<rparr>)
             (w\<lparr>w_arrived := 0, w_generation := w_generation w + 1\<rparr>))"

definition enter :: "('b, 'v) mesh_run \<Rightarrow> nat \<Rightarrow> 'b rank_thread \<Rightarrow> 'b world \<Rightarrow> 'b world" where
  "enter S r x w =
     (let call = su_calls S ! rt_call x; (buf, recv) = su_prog S r (rt_outs x) in
      case admit (su_n S) call buf recv of
        Some e \<Rightarrow> set_rank r (x\<lparr>rt_phase := Failed e\<rparr>) w
      | None \<Rightarrow>
          set_rank r (x\<lparr>rt_phase := Arriving1, rt_buf := buf, rt_recv := recv\<rparr>)
            (if deposits call r then w\<lparr>w_slots := (w_slots w)[r := buf]\<rparr> else w))"

definition middle :: "('b, 'v) mesh_run \<Rightarrow> nat \<Rightarrow> 'b rank_thread \<Rightarrow> 'b world \<Rightarrow> 'b world" where
  "middle S r x w =
     (case between (su_numerics S) (su_n S) (su_calls S ! rt_call x) r (w_slots w) (rt_buf x) (rt_recv x) of
        Ok (slots, buf) \<Rightarrow>
          set_rank r (x\<lparr>rt_phase := Arriving2, rt_buf := buf\<rparr>) (w\<lparr>w_slots := slots\<rparr>)
      | _ \<Rightarrow> w\<lparr>w_crashed := True\<rparr>)"

definition leave :: "('b, 'v) mesh_run \<Rightarrow> nat \<Rightarrow> 'b rank_thread \<Rightarrow> 'b world \<Rightarrow> 'b world" where
  "leave S r x w =
     (case after (su_calls S ! rt_call x) r (w_slots w) (rt_buf x) of
        Ok out \<Rightarrow>
          set_rank r (x\<lparr>rt_call := rt_call x + 1, rt_phase := Entering, rt_outs := rt_outs x @ [out]\<rparr>) w
      | _ \<Rightarrow> w\<lparr>w_crashed := True\<rparr>)"

text \<open>One action of rank \<open>r\<close>; \<open>None\<close> when it is blocked, finished, failed or the process is gone.\<close>

definition rank_step :: "('b, 'v) mesh_run \<Rightarrow> nat \<Rightarrow> 'b world \<Rightarrow> 'b world option" where
  "rank_step S r w =
     (if w_crashed w \<or> r \<ge> su_n S then None
      else
        (let x = w_ranks w ! r in
         case rt_phase x of
           Entering \<Rightarrow> if rt_call x < length (su_calls S) then Some (enter S r x w) else None
         | Arriving1 \<Rightarrow> Some (arrive (su_n S) r x Waiting1 Middle w)
         | Waiting1 g \<Rightarrow>
             if g = w_generation w then None else Some (set_rank r (x\<lparr>rt_phase := Middle\<rparr>) w)
         | Middle \<Rightarrow> Some (middle S r x w)
         | Arriving2 \<Rightarrow> Some (arrive (su_n S) r x Waiting2 Leaving w)
         | Waiting2 g \<Rightarrow>
             if g = w_generation w then None else Some (set_rank r (x\<lparr>rt_phase := Leaving\<rparr>) w)
         | Leaving \<Rightarrow> Some (leave S r x w)
         | Failed e \<Rightarrow> None))"

inductive world_step :: "('b, 'v) mesh_run \<Rightarrow> 'b world \<Rightarrow> 'b world \<Rightarrow> bool" for S where
  rank_moves: "rank_step S r w = Some w' \<Longrightarrow> world_step S w w'"

inductive_cases world_stepE: "world_step S w w'"

text \<open>The worlds that some schedule of \<open>k\<close> steps leads to.\<close>

inductive reaches :: "('b, 'v) mesh_run \<Rightarrow> nat \<Rightarrow> 'b world \<Rightarrow> bool" for S where
  reach_start: "reaches S 0 (ref_mesh S)"
| reach_step: "reaches S k w \<Longrightarrow> world_step S w w' \<Longrightarrow> reaches S (Suc k) w'"

text \<open>A given schedule, for concrete runs.\<close>

fun run_schedule :: "('b, 'v) mesh_run \<Rightarrow> nat list \<Rightarrow> 'b world \<Rightarrow> 'b world option" where
  "run_schedule S [] w = Some w"
| "run_schedule S (r # rs) w = Option.bind (rank_step S r w) (run_schedule S rs)"

lemma run_schedule_reaches:
  assumes "reaches S k w" and "run_schedule S rs w = Some w'"
  shows "reaches S (k + length rs) w'"
  using assms
proof (induction rs arbitrary: k w)
  case (Cons r rs)
  then obtain w1 where st: "rank_step S r w = Some w1" and run: "run_schedule S rs w1 = Some w'"
    by (auto simp: bind_eq_Some_conv)
  have "reaches S (Suc k) w1"
    using Cons.prems(1) rank_moves [OF st] by (rule reach_step)
  from Cons.IH [OF this run] show ?case by simp
qed simp

end
