(* ===== verification/Collective_Spec.thy ===== *)
theory Collective_Spec
  imports Collective
begin

section \<open>What a collective computes\<close>

text \<open>
  The abstract collectives: functions from the buffers of all ranks to the result of each, with no
  slots, barriers or loops; and the proof that the loops of the implementation compute them when
  every rank's buffers passed the checks and the slots hold the deposited buffers.
\<close>

subsection \<open>The specification\<close>

definition reduce_all :: "('b, 'v) numerics \<Rightarrow> collective_cfg \<Rightarrow> 'b list list \<Rightarrow> 'b list" where
  "reduce_all N cfg bufs =
     (let t = cfg_dtype cfg; els = map (elems_of N t) bufs in
      bytes_of N t (foldl (map2 (combine N t (cfg_op cfg))) (hd els) (tl els)))"

fun collective_result ::
    "('b, 'v) numerics \<Rightarrow> collective_call \<Rightarrow> 'b list list \<Rightarrow> nat \<Rightarrow> 'b list" where
  "collective_result N (AllReduce cfg) bufs r = reduce_all N cfg bufs"
| "collective_result N (AllGather cfg) bufs r = concat bufs"
| "collective_result N (AllToAll cfg) bufs r =
     (let shard = elem_count cfg * dtype_bytes (cfg_dtype cfg) in
      concat (map (\<lambda>b. slice_of b (r * shard) ((r + 1) * shard)) bufs))"
| "collective_result N (Broadcast root cfg) bufs r = bufs ! root"

fun call_cfg :: "collective_call \<Rightarrow> collective_cfg" where
  "call_cfg (AllReduce cfg) = cfg"
| "call_cfg (AllGather cfg) = cfg"
| "call_cfg (AllToAll cfg) = cfg"
| "call_cfg (Broadcast root cfg) = cfg"

definition call_sized :: "nat \<Rightarrow> collective_call \<Rightarrow> bool" where
  "call_sized n call \<longleftrightarrow> elem_count (call_cfg call) * dtype_bytes (cfg_dtype (call_cfg call)) * n < 2 ^ 64"

lemma dtype_bytes_pos [simp]: "0 < dtype_bytes t"
  by (cases t) simp_all

lemma sized_buffer_bytes:
  assumes "call_sized n call" and "0 < n"
  shows "buffer_bytes (call_cfg call) = elem_count (call_cfg call) * dtype_bytes (cfg_dtype (call_cfg call))"
    and "wrap64 (buffer_bytes (call_cfg call) * n) = buffer_bytes (call_cfg call) * n"
proof -
  let ?b = "elem_count (call_cfg call) * dtype_bytes (cfg_dtype (call_cfg call))"
  have "?b \<le> ?b * n" using assms(2) by (rule le_mult_pos)
  then have "?b < 2 ^ 64" using assms(1) unfolding call_sized_def by (rule le_less_trans)
  then show b: "buffer_bytes (call_cfg call) = ?b" unfolding buffer_bytes_def by (rule wrap64_small)
  show "wrap64 (buffer_bytes (call_cfg call) * n) = buffer_bytes (call_cfg call) * n"
    unfolding b using assms(1) unfolding call_sized_def by (rule wrap64_small)
qed

subsection \<open>Filling a receive buffer\<close>

lemma copy_shards_from:
  assumes "\<And>i. m \<le> i \<Longrightarrow> i < n \<Longrightarrow> src i = Ok (f i) \<and> length (f i) = sh"
    and "length recv = n * sh" and "m \<le> n"
  shows "copy_shards sh src [m..<n] recv = Ok (take (m * sh) recv @ concat (map f [m..<n]))"
  using assms
proof (induction "n - m" arbitrary: m recv)
  case 0
  then show ?case by simp
next
  case (Suc k)
  then have lt: "m < n" by simp
  then have range: "[m..<n] = m # [Suc m..<n]" by (rule upt_conv_Cons)
  have src: "src m = Ok (f m)" "length (f m) = sh" using Suc.prems(1) [of m] lt by simp_all
  have le: "Suc m * sh \<le> n * sh" using lt by (intro mult_le_mono1) simp
  let ?recv = "take (m * sh) recv @ f m @ drop (Suc m * sh) recv"
  have w: "write_at recv (m * sh) ((m + 1) * sh) (f m) = Ok ?recv"
    using le src Suc.prems(2) by (simp add: write_at_def)
  have "length ?recv = m * sh + sh + (n * sh - (m + 1) * sh)"
    using le lt src Suc.prems(2) by (simp add: min_absorb2)
  then have "length ?recv = n * sh" using le by simp
  moreover have "take (Suc m * sh) ?recv = take (m * sh) recv @ f m"
    using le lt src Suc.prems(2) by simp
  ultimately show ?case
    using Suc.hyps(1) [of "Suc m" ?recv] Suc.prems(1) Suc.hyps(2) lt src w by (simp add: range)
qed

lemma copy_shards_concat:
  assumes "\<And>i. i < n \<Longrightarrow> src i = Ok (f i) \<and> length (f i) = sh" and "length recv = n * sh"
  shows "copy_shards sh src [0..<n] recv = Ok (concat (map f [0..<n]))"
  using copy_shards_from [of 0 n src f sh recv] assms by simp

subsection \<open>Reducing the slots\<close>

lemma fold_ranks_ok:
  assumes "numerics_ok N" and "length acc = elem_count cfg"
    and "\<forall>b \<in> set bufs. length b = elem_count cfg * dtype_bytes (cfg_dtype cfg)"
  shows "fold_ranks N cfg acc bufs =
    Ok (foldl (map2 (combine N (cfg_dtype cfg) (cfg_op cfg))) acc (map (elems_of N (cfg_dtype cfg)) bufs))"
  using assms(2,3)
proof (induction bufs arbitrary: acc)
  case (Cons b bufs)
  let ?xs = "elems_of N (cfg_dtype cfg) b"
  have len: "length ?xs = elem_count cfg"
    using Cons.prems(2) assms(1) by (simp add: numerics_ok_def)
  have "cast_slice N (cfg_dtype cfg) b = Ok ?xs"
    using Cons.prems(2) by (simp add: cast_slice_def)
  moreover have "fold_rank N cfg acc ?xs = Ok (map2 (combine N (cfg_dtype cfg) (cfg_op cfg)) acc ?xs)"
    using Cons.prems(1) len by (simp add: fold_rank_def)
  ultimately show ?case using Cons len by simp
qed simp

lemma fold_length:
  assumes "length acc = k" and "\<forall>xs \<in> set xss. length xs = k"
  shows "length (foldl (map2 f) acc xss) = k"
  using assms by (induction xss arbitrary: acc) simp_all

lemma write_back_ok:
  "\<forall>b \<in> set bufs. length b = length out \<Longrightarrow> write_back out bufs = Ok (replicate (length bufs) out)"
  by (induction bufs) (simp_all add: copy_from_slice_def)

lemma reduce_slots_ok:
  assumes N: "numerics_ok N" and ne: "slots \<noteq> []"
    and len: "\<forall>b \<in> set slots. length b = elem_count cfg * dtype_bytes (cfg_dtype cfg)"
  shows "reduce_slots N cfg slots = Ok (replicate (length slots) (reduce_all N cfg slots))"
    and "length (reduce_all N cfg slots) = elem_count cfg * dtype_bytes (cfg_dtype cfg)"
proof -
  obtain s rest where slots: "slots = s # rest" using ne by (cases slots) auto
  let ?t = "cfg_dtype cfg" and ?n = "elem_count cfg"
  let ?acc = "foldl (map2 (combine N ?t (cfg_op cfg))) (elems_of N ?t s) (map (elems_of N ?t) rest)"
  have els: "length (elems_of N ?t b) = ?n" if "b \<in> set slots" for b
    using len N that by (simp add: numerics_ok_def)
  have "length ?acc = ?n" using els by (intro fold_length) (auto simp: slots)
  then have out: "length (bytes_of N ?t ?acc) = ?n * dtype_bytes ?t"
    using N by (simp add: numerics_ok_def)
  have all: "reduce_all N cfg slots = bytes_of N ?t ?acc"
    by (simp add: reduce_all_def slots Let_def)
  show "length (reduce_all N cfg slots) = ?n * dtype_bytes ?t" using out all by simp
  have "cast_slice N ?t s = Ok (elems_of N ?t s)" using len by (simp add: cast_slice_def slots)
  moreover have "fold_ranks N cfg (elems_of N ?t s) rest = Ok ?acc"
    using N els len by (intro fold_ranks_ok) (auto simp: slots)
  moreover have "write_back (bytes_of N ?t ?acc) slots = Ok (replicate (length slots) (bytes_of N ?t ?acc))"
    using len out by (intro write_back_ok) simp
  ultimately show "reduce_slots N cfg slots = Ok (replicate (length slots) (reduce_all N cfg slots))"
    unfolding all by (simp add: reduce_slots_def slots)
qed

subsection \<open>The implementation computes the specification\<close>

text \<open>The buffers of all ranks at one call, checked as each rank checks its own.\<close>

definition call_ok :: "nat \<Rightarrow> collective_call \<Rightarrow> ('b list \<times> 'b list) list \<Rightarrow> bool" where
  "call_ok n call ios \<longleftrightarrow> 0 < n \<and> call_sized n call \<and> length ios = n \<and>
     list_all (\<lambda>(buf, recv). admit n call buf recv = None) ios"

fun in_place :: "collective_call \<Rightarrow> bool" where
  "in_place (AllReduce cfg) \<longleftrightarrow> True"
| "in_place _ \<longleftrightarrow> False"

lemma call_ok_nth:
  assumes "call_ok n call ios" and "r < n"
  shows "admit n call (fst (ios ! r)) (snd (ios ! r)) = None"
  using assms by (auto simp: call_ok_def list_all_length split: prod.splits)

lemma nth_map_fst: "length xs = n \<Longrightarrow> [0..<n] = [0..<length xs]" by simp

text \<open>Reading phases: the slots hold the deposited buffers of the ranks that deposit.\<close>

lemma between_reads:
  assumes ok: "call_ok n call ios" and r: "r < n" and ip: "\<not> in_place call"
    and slots: "length slots = n" "\<And>i. i < n \<Longrightarrow> deposits call i \<Longrightarrow> slots ! i = fst (ios ! i)"
  shows "between N n call r slots (fst (ios ! r)) (snd (ios ! r)) =
    Ok (slots, collective_result N call (map fst ios) r)"
proof (cases call)
  case (AllReduce cfg)
  then show ?thesis using ip by simp
next
  case (AllGather cfg)
  note sz = sized_buffer_bytes [of n call] and adm = call_ok_nth [OF ok]
  have n: "0 < n" "call_sized n call" "length ios = n" using ok by (simp_all add: call_ok_def)
  have len: "length (fst (ios ! i)) = buffer_bytes cfg" if "i < n" for i
    using adm [OF that] by (simp add: AllGather check_buf_def split: if_splits)
  have "length (snd (ios ! r)) = n * buffer_bytes cfg"
    using adm [OF r] sz(2) [OF n(2,1)] by (simp add: AllGather check_buf_def mult.commute split: if_splits)
  then have "copy_shards (buffer_bytes cfg) (\<lambda>i. Ok (slots ! i)) [0..<n] (snd (ios ! r)) =
      Ok (concat (map (\<lambda>i. slots ! i) [0..<n]))"
    using slots len by (intro copy_shards_concat) (simp_all add: AllGather)
  moreover have "map (\<lambda>i. slots ! i) [0..<n] = map fst ios"
    using slots n(3) by (intro nth_equalityI) (simp_all add: AllGather)
  ultimately show ?thesis by (simp add: AllGather)
next
  case (AllToAll cfg)
  note sz = sized_buffer_bytes [of n call] and adm = call_ok_nth [OF ok]
  have n: "0 < n" "call_sized n call" "length ios = n" using ok by (simp_all add: call_ok_def)
  let ?sh = "buffer_bytes cfg"
  have len: "length (fst (ios ! i)) = n * ?sh" if "i < n" for i
    using adm [OF that] sz(2) [OF n(2,1)] by (simp add: AllToAll mult.commute split: if_splits)
  have "length (snd (ios ! r)) = n * ?sh"
    using adm [OF r] sz(2) [OF n(2,1)] by (simp add: AllToAll mult.commute split: if_splits)
  moreover have le: "(r + 1) * ?sh \<le> n * ?sh" using r by (intro mult_le_mono1) simp
  have "slice_checked (slots ! i) (r * ?sh) ((r + 1) * ?sh) =
        Ok (slice_of (fst (ios ! i)) (r * ?sh) ((r + 1) * ?sh)) \<and>
      length (slice_of (fst (ios ! i)) (r * ?sh) ((r + 1) * ?sh)) = ?sh" if "i < n" for i
    using slots that len [OF that] le by (simp add: slice_checked_def AllToAll)
  ultimately have "copy_shards ?sh (\<lambda>s. slice_checked (slots ! s) (r * ?sh) ((r + 1) * ?sh)) [0..<n] (snd (ios ! r)) =
      Ok (concat (map (\<lambda>i. slice_of (fst (ios ! i)) (r * ?sh) ((r + 1) * ?sh)) [0..<n]))"
    by (intro copy_shards_concat) simp_all
  moreover have "map (\<lambda>i. slice_of (fst (ios ! i)) (r * ?sh) ((r + 1) * ?sh)) [0..<n] =
      map (\<lambda>b. slice_of b (r * ?sh) ((r + 1) * ?sh)) (map fst ios)"
    using n(3) by (intro nth_equalityI) simp_all
  ultimately show ?thesis using sz(1) [OF n(2,1)] by (simp add: AllToAll Let_def)
next
  case (Broadcast root cfg)
  have adm: "root < n \<and> length (fst (ios ! i)) = buffer_bytes cfg" if "i < n" for i
    using call_ok_nth [OF ok that] by (simp add: Broadcast check_buf_def split: if_splits)
  have "slots ! root = fst (ios ! root)" using slots adm [OF r] by (simp add: Broadcast)
  then show ?thesis
    using adm [OF r] adm [of root] ok by (simp add: Broadcast copy_from_slice_def call_ok_def)
qed

lemma reduce_call:
  assumes N: "numerics_ok N" and ok: "call_ok n (AllReduce cfg) ios"
    and slots: "length slots = n" "\<And>i. i < n \<Longrightarrow> slots ! i = fst (ios ! i)"
  shows "reduce_slots N cfg slots = Ok (replicate n (reduce_all N cfg (map fst ios)))"
    and "i < n \<Longrightarrow> length (fst (ios ! i)) = length (reduce_all N cfg (map fst ios))"
proof -
  have n: "0 < n" "call_sized n (AllReduce cfg)" "length ios = n" using ok by (simp_all add: call_ok_def)
  have eq: "slots = map fst ios" using slots n(3) by (intro nth_equalityI) simp_all
  have len: "length (fst (ios ! i)) = elem_count cfg * dtype_bytes (cfg_dtype cfg)" if "i < n" for i
    using call_ok_nth [OF ok that] sized_buffer_bytes(1) [OF n(2,1)] by (simp add: check_buf_def split: if_splits)
  then have "\<forall>b \<in> set slots. length b = elem_count cfg * dtype_bytes (cfg_dtype cfg)"
    using n(3) by (metis eq in_set_conv_nth length_map nth_map)
  moreover have "slots \<noteq> []" using n slots(1) by auto
  ultimately show "reduce_slots N cfg slots = Ok (replicate n (reduce_all N cfg (map fst ios)))"
    and "i < n \<Longrightarrow> length (fst (ios ! i)) = length (reduce_all N cfg (map fst ios))"
    using reduce_slots_ok [OF N, of slots cfg] len slots(1) by (simp_all add: eq)
qed

end
