(* ===== verification/Collective_Inv.thy ===== *)
theory Collective_Inv
  imports Collective_Spec
begin

section \<open>The invariant of the interleaved ranks\<close>

text \<open>
  The barrier's generation is the clock of the mesh: it is \<open>2 k\<close> from the release of call \<open>k - 1\<close>
  until every rank has deposited for call \<open>k\<close>, and \<open>2 k + 1\<close> until every rank is done between its
  barriers. A rank's phase says which clock it may stand at, what its slot and its buffer hold, and
  that its results so far are those of the specification.
\<close>

subsection \<open>The specified history\<close>

fun spec_hist :: "('b, 'v) mesh_run \<Rightarrow> nat \<Rightarrow> 'b list list list" where
  "spec_hist S 0 = replicate (su_n S) []"
| "spec_hist S (Suc k) =
     (let ios = map (\<lambda>r. su_prog S r (spec_hist S k ! r)) [0..<su_n S] in
      map (\<lambda>r. spec_hist S k ! r @ [collective_result (su_numerics S) (su_calls S ! k) (map fst ios) r])
        [0..<su_n S])"

definition call_ios :: "('b, 'v) mesh_run \<Rightarrow> nat \<Rightarrow> ('b list \<times> 'b list) list" where
  "call_ios S k = map (\<lambda>r. su_prog S r (spec_hist S k ! r)) [0..<su_n S]"

definition call_out :: "('b, 'v) mesh_run \<Rightarrow> nat \<Rightarrow> nat \<Rightarrow> 'b list" where
  "call_out S k r = collective_result (su_numerics S) (su_calls S ! k) (map fst (call_ios S k)) r"

text \<open>The contract of the callers: every rank passes fitting buffers at every call.\<close>

definition spmd_ok :: "('b, 'v) mesh_run \<Rightarrow> bool" where
  "spmd_ok S \<longleftrightarrow> numerics_ok (su_numerics S) \<and> 0 < su_n S \<and>
     list_all (\<lambda>k. call_ok (su_n S) (su_calls S ! k) (call_ios S k)) [0..<length (su_calls S)]"

lemma spec_hist_Suc: "r < su_n S \<Longrightarrow> spec_hist S (Suc k) ! r = spec_hist S k ! r @ [call_out S k r]"
  by (simp add: call_out_def call_ios_def Let_def)

lemma call_ios_nth: "r < su_n S \<Longrightarrow> call_ios S k ! r = su_prog S r (spec_hist S k ! r)"
  by (simp add: call_ios_def)

lemma length_call_ios: "length (call_ios S k) = su_n S"
  by (simp add: call_ios_def)

lemma spmd_numerics: "spmd_ok S \<Longrightarrow> numerics_ok (su_numerics S)"
  by (simp add: spmd_ok_def)

lemma spmd_call: "spmd_ok S \<Longrightarrow> k < length (su_calls S) \<Longrightarrow> call_ok (su_n S) (su_calls S ! k) (call_ios S k)"
  by (simp add: spmd_ok_def list_all_iff)

subsection \<open>The invariant\<close>

definition deposited :: "('b, 'v) mesh_run \<Rightarrow> nat \<Rightarrow> nat \<Rightarrow> 'b list \<Rightarrow> bool" where
  "deposited S k r slot \<longleftrightarrow> (deposits (su_calls S ! k) r \<longrightarrow> slot = fst (call_ios S k ! r))"

definition has_inputs :: "('b, 'v) mesh_run \<Rightarrow> 'b rank_thread \<Rightarrow> nat \<Rightarrow> bool" where
  "has_inputs S x r \<longleftrightarrow> rt_buf x = fst (call_ios S (rt_call x) ! r) \<and> rt_recv x = snd (call_ios S (rt_call x) ! r)"

definition computed :: "('b, 'v) mesh_run \<Rightarrow> 'b rank_thread \<Rightarrow> nat \<Rightarrow> bool" where
  "computed S x r \<longleftrightarrow>
     rt_buf x = (if in_place (su_calls S ! rt_call x) then fst (call_ios S (rt_call x) ! r)
                 else call_out S (rt_call x) r)"

definition delivered :: "('b, 'v) mesh_run \<Rightarrow> 'b list \<Rightarrow> 'b rank_thread \<Rightarrow> nat \<Rightarrow> bool" where
  "delivered S slot x r \<longleftrightarrow> computed S x r \<and>
     (in_place (su_calls S ! rt_call x) \<longrightarrow> slot = call_out S (rt_call x) r)"

definition phase_ok :: "('b, 'v) mesh_run \<Rightarrow> nat \<Rightarrow> 'b list \<Rightarrow> 'b rank_thread \<Rightarrow> nat \<Rightarrow> bool" where
  "phase_ok S G slot x r \<longleftrightarrow>
     (case rt_phase x of
        Entering \<Rightarrow> G = 2 * rt_call x
      | Arriving1 \<Rightarrow> G = 2 * rt_call x \<and> has_inputs S x r \<and> deposited S (rt_call x) r slot
      | Waiting1 g \<Rightarrow> g = 2 * rt_call x \<and> has_inputs S x r \<and> (G = g \<and> deposited S (rt_call x) r slot \<or> G = g + 1)
      | Middle \<Rightarrow> G = 2 * rt_call x + 1 \<and> has_inputs S x r
      | Arriving2 \<Rightarrow> G = 2 * rt_call x + 1 \<and> computed S x r
      | Waiting2 g \<Rightarrow> g = 2 * rt_call x + 1 \<and> (G = g \<and> computed S x r \<or> G = g + 1 \<and> delivered S slot x r)
      | Leaving \<Rightarrow> G = 2 * rt_call x + 2 \<and> delivered S slot x r
      | Failed e \<Rightarrow> False)"

definition thread_ok :: "('b, 'v) mesh_run \<Rightarrow> nat \<Rightarrow> 'b list \<Rightarrow> 'b rank_thread \<Rightarrow> nat \<Rightarrow> bool" where
  "thread_ok S G slot x r \<longleftrightarrow>
     rt_call x \<le> length (su_calls S) \<and> (rt_phase x \<noteq> Entering \<longrightarrow> rt_call x < length (su_calls S)) \<and>
     rt_outs x = spec_hist S (rt_call x) ! r \<and> phase_ok S G slot x r"

definition waiting_now :: "nat \<Rightarrow> 'b rank_thread \<Rightarrow> bool" where
  "waiting_now G x \<longleftrightarrow> rt_phase x = Waiting1 G \<or> rt_phase x = Waiting2 G"

definition past_middle :: "nat \<Rightarrow> 'b rank_thread \<Rightarrow> bool" where
  "past_middle G x \<longleftrightarrow> rt_phase x = Arriving2 \<or> rt_phase x = Waiting2 G"

text \<open>At odd clocks the slots hold the inputs, or the reduction once rank 0 has written it.\<close>

definition slots_ok :: "('b, 'v) mesh_run \<Rightarrow> nat \<Rightarrow> 'b list list \<Rightarrow> bool \<Rightarrow> bool" where
  "slots_ok S G slots reduced \<longleftrightarrow>
     (odd G \<longrightarrow> (\<forall>r < su_n S. deposits (su_calls S ! (G div 2)) r \<longrightarrow>
        slots ! r = (if in_place (su_calls S ! (G div 2)) \<and> reduced
                     then call_out S (G div 2) r else fst (call_ios S (G div 2) ! r))))"

definition waiters :: "nat \<Rightarrow> 'b world \<Rightarrow> nat set" where
  "waiters n w = {r. r < n \<and> waiting_now (w_generation w) (w_ranks w ! r)}"

definition world_ok :: "('b, 'v) mesh_run \<Rightarrow> 'b world \<Rightarrow> bool" where
  "world_ok S w \<longleftrightarrow> \<not> w_crashed w \<and> length (w_slots w) = su_n S \<and> length (w_ranks w) = su_n S \<and>
     w_arrived w < su_n S \<and> w_arrived w = card (waiters (su_n S) w) \<and>
     (\<forall>r < su_n S. thread_ok S (w_generation w) (w_slots w ! r) (w_ranks w ! r) r) \<and>
     slots_ok S (w_generation w) (w_slots w) (past_middle (w_generation w) (w_ranks w ! 0))"

lemma world_okD:
  assumes "world_ok S w"
  shows "\<not> w_crashed w" "length (w_slots w) = su_n S" "length (w_ranks w) = su_n S"
    "w_arrived w < su_n S" "w_arrived w = card (waiters (su_n S) w)"
    "\<And>r. r < su_n S \<Longrightarrow> thread_ok S (w_generation w) (w_slots w ! r) (w_ranks w ! r) r"
    "slots_ok S (w_generation w) (w_slots w) (past_middle (w_generation w) (w_ranks w ! 0))"
  using assms by (auto simp: world_ok_def)

lemma start_ok: "spmd_ok S \<Longrightarrow> world_ok S (ref_mesh S)"
  by (auto simp: world_ok_def ref_mesh_def waiters_def waiting_now_def thread_ok_def phase_ok_def
      slots_ok_def spmd_ok_def)

text \<open>A rank's condition at an odd clock does not look at its slot.\<close>

lemma odd_clock_slot: "odd G \<Longrightarrow> thread_ok S G slot x r \<Longrightarrow> thread_ok S G slot' x r"
  by (auto simp: thread_ok_def phase_ok_def Let_def split: rank_phase.splits)

subsection \<open>Steps of one rank that keep the clock\<close>

lemma set_rank_fields [simp]:
  "w_slots (set_rank r x w) = w_slots w" "w_arrived (set_rank r x w) = w_arrived w"
  "w_generation (set_rank r x w) = w_generation w" "w_crashed (set_rank r x w) = w_crashed w"
  "w_ranks (set_rank r x w) = (w_ranks w)[r := x]"
  by (simp_all add: set_rank_def)

lemma waiters_update:
  assumes "length (w_ranks w) = n" and "r < n"
  shows "waiters n (set_rank r x w) =
    (if waiting_now (w_generation w) x then insert r (waiters n w) else waiters n w - {r})"
  using assms by (auto simp: waiters_def nth_list_update)

lemma finite_waiters [simp]: "finite (waiters n w)"
  by (simp add: waiters_def)

lemma waiters_same [simp]:
  "waiters n (w\<lparr>w_slots := s\<rparr>) = waiters n w" "waiters n (w\<lparr>w_arrived := a\<rparr>) = waiters n w"
  by (simp_all add: waiters_def)

text \<open>
  The frame of a step: rank \<open>r\<close> moves from \<open>x\<close> to \<open>x'\<close>, neither a waiting phase, and writes at most
  its own slot; the condition on the slots is what the caller shows.
\<close>

lemma step_frame:
  assumes ok: "world_ok S w" and r: "r < su_n S"
    and quiet: "\<not> waiting_now (w_generation w) (w_ranks w ! r)" "\<not> waiting_now (w_generation w) x'"
    and slots: "length slots = su_n S" "\<And>i. i < su_n S \<Longrightarrow> i \<noteq> r \<Longrightarrow>
        thread_ok S (w_generation w) (slots ! i) (w_ranks w ! i) i"
    and x': "thread_ok S (w_generation w) (slots ! r) x' r"
    and reduced: "slots_ok S (w_generation w) slots
        (past_middle (w_generation w) (if r = 0 then x' else w_ranks w ! 0))"
  shows "world_ok S (set_rank r x' (w\<lparr>w_slots := slots\<rparr>))"
proof -
  note D = world_okD [OF ok]
  have "r \<notin> waiters (su_n S) w" using quiet by (simp add: waiters_def)
  then have "waiters (su_n S) (set_rank r x' (w\<lparr>w_slots := slots\<rparr>)) = waiters (su_n S) w"
    using waiters_update [of "w\<lparr>w_slots := slots\<rparr>" "su_n S" r x'] D(3) r quiet by simp
  moreover have "(w_ranks w)[r := x'] ! 0 = (if r = 0 then x' else w_ranks w ! 0)"
    using r D(3) by (auto simp: nth_list_update)
  ultimately show ?thesis
    using D slots x' reduced r by (auto simp: world_ok_def nth_list_update)
qed

lemma other_slots:
  assumes "world_ok S w" and "r < su_n S"
  shows "length ((w_slots w)[r := b]) = su_n S"
    and "i < su_n S \<Longrightarrow> i \<noteq> r \<Longrightarrow>
      thread_ok S (w_generation w) ((w_slots w)[r := b] ! i) (w_ranks w ! i) i"
  using world_okD [OF assms(1)] by simp_all

lemma same_slots:
  assumes "world_ok S w"
  shows "w\<lparr>w_slots := w_slots w\<rparr> = w"
    and "length (w_slots w) = su_n S"
    and "i < su_n S \<Longrightarrow> i \<noteq> r \<Longrightarrow> thread_ok S (w_generation w) (w_slots w ! i) (w_ranks w ! i) i"
  using world_okD [OF assms] by simp_all

text \<open>The phase of \<open>x\<close> stays on the same side of the reduction.\<close>

lemma slots_ok_other:
  assumes "world_ok S w" and "r = 0 \<Longrightarrow> past_middle (w_generation w) x' = past_middle (w_generation w) (w_ranks w ! 0)"
  shows "slots_ok S (w_generation w) (w_slots w)
    (past_middle (w_generation w) (if r = 0 then x' else w_ranks w ! 0))"
  using world_okD(7) [OF assms(1)] assms(2) by auto

lemma enter_ok:
  assumes S: "spmd_ok S" and ok: "world_ok S w" and r: "r < su_n S"
    and ph: "rt_phase (w_ranks w ! r) = Entering" and call: "rt_call (w_ranks w ! r) < length (su_calls S)"
  shows "world_ok S (enter S r (w_ranks w ! r) w)"
proof -
  let ?x = "w_ranks w ! r" and ?k = "rt_call (w_ranks w ! r)"
  have t: "rt_outs ?x = spec_hist S ?k ! r" "w_generation w = 2 * ?k"
    using world_okD(6) [OF ok r] ph by (simp_all add: thread_ok_def phase_ok_def)
  obtain buf recv where io: "su_prog S r (rt_outs ?x) = (buf, recv)" by (metis surj_pair)
  then have ios: "call_ios S ?k ! r = (buf, recv)" using t(1) r by (simp add: call_ios_nth)
  have adm: "admit (su_n S) (su_calls S ! ?k) buf recv = None"
    using call_ok_nth [OF spmd_call [OF S call] r] ios by simp
  let ?x' = "?x\<lparr>rt_phase := Arriving1, rt_buf := buf, rt_recv := recv\<rparr>"
  define slots where "slots = (if deposits (su_calls S ! ?k) r then (w_slots w)[r := buf] else w_slots w)"
  have "enter S r ?x w = set_rank r ?x' (w\<lparr>w_slots := slots\<rparr>)"
    by (simp add: enter_def io adm slots_def)
  moreover have "world_ok S (set_rank r ?x' (w\<lparr>w_slots := slots\<rparr>))"
  proof (rule step_frame [OF ok r])
    show "\<not> waiting_now (w_generation w) ?x" "\<not> waiting_now (w_generation w) ?x'"
      by (simp_all add: waiting_now_def ph)
    show "length slots = su_n S" using world_okD(2) [OF ok] by (simp add: slots_def)
    show "thread_ok S (w_generation w) (slots ! i) (w_ranks w ! i) i" if "i < su_n S" "i \<noteq> r" for i
      using world_okD(6) [OF ok that(1)] that(2) by (simp add: slots_def)
    show "thread_ok S (w_generation w) (slots ! r) ?x' r"
      using call t ios world_okD(2) [OF ok] r
      by (auto simp: thread_ok_def phase_ok_def has_inputs_def deposited_def slots_def)
    show "slots_ok S (w_generation w) slots (past_middle (w_generation w) (if r = 0 then ?x' else w_ranks w ! 0))"
      using t(2) by (simp add: slots_ok_def)
  qed
  ultimately show ?thesis by simp
qed

lemma wake_ok:
  assumes ok: "world_ok S w" and r: "r < su_n S"
    and ph: "rt_phase (w_ranks w ! r) = Waiting1 g \<and> p = Middle \<or>
      rt_phase (w_ranks w ! r) = Waiting2 g \<and> p = Leaving" and g: "g \<noteq> w_generation w"
  shows "world_ok S (set_rank r ((w_ranks w ! r)\<lparr>rt_phase := p\<rparr>) w)"
proof -
  let ?x = "w_ranks w ! r" and ?x' = "(w_ranks w ! r)\<lparr>rt_phase := p\<rparr>"
  have t: "thread_ok S (w_generation w) (w_slots w ! r) ?x r" using world_okD(6) [OF ok r] .
  have "world_ok S (set_rank r ?x' (w\<lparr>w_slots := w_slots w\<rparr>))"
  proof (rule step_frame [OF ok r _ _ same_slots(2) [OF ok]])
    show "\<not> waiting_now (w_generation w) ?x" "\<not> waiting_now (w_generation w) ?x'"
      using ph g by (auto simp: waiting_now_def)
    show "thread_ok S (w_generation w) (w_slots w ! i) (w_ranks w ! i) i" if "i < su_n S" for i
      using world_okD(6) [OF ok that] .
    show "thread_ok S (w_generation w) (w_slots w ! r) ?x' r"
      using t ph g by (auto simp: thread_ok_def phase_ok_def Let_def has_inputs_def delivered_def computed_def)
    show "slots_ok S (w_generation w) (w_slots w) (past_middle (w_generation w) (if r = 0 then ?x' else w_ranks w ! 0))"
      using ph g by (intro slots_ok_other [OF ok]) (auto simp: past_middle_def)
  qed
  then show ?thesis by simp
qed

lemma leave_ok:
  assumes S: "spmd_ok S" and ok: "world_ok S w" and r: "r < su_n S"
    and ph: "rt_phase (w_ranks w ! r) = Leaving"
  shows "world_ok S (leave S r (w_ranks w ! r) w)"
proof -
  let ?x = "w_ranks w ! r" and ?k = "rt_call (w_ranks w ! r)"
  have t: "thread_ok S (w_generation w) (w_slots w ! r) ?x r" using world_okD(6) [OF ok r] .
  have k: "?k < length (su_calls S)" and outs: "rt_outs ?x = spec_hist S ?k ! r"
    and G: "w_generation w = 2 * ?k + 2" and d: "delivered S (w_slots w ! r) ?x r"
    using t ph by (simp_all add: thread_ok_def phase_ok_def)
  have aft: "after (su_calls S ! ?k) r (w_slots w) (rt_buf ?x) = Ok (call_out S ?k r)"
  proof (cases "su_calls S ! ?k")
    case (AllReduce cfg)
    then have ios: "call_ok (su_n S) (AllReduce cfg) (call_ios S ?k)" using spmd_call [OF S k] by simp
    have "length (call_out S ?k r) = length (fst (call_ios S ?k ! r))"
      using r reduce_call(2) [OF spmd_numerics [OF S] ios, of "map fst (call_ios S ?k)" r]
      by (simp add: call_out_def AllReduce length_call_ios)
    then show ?thesis using d by (simp add: AllReduce delivered_def computed_def copy_from_slice_def)
  qed (use d in \<open>simp_all add: delivered_def computed_def\<close>)
  let ?x' = "?x\<lparr>rt_call := ?k + 1, rt_phase := Entering, rt_outs := rt_outs ?x @ [call_out S ?k r]\<rparr>"
  have "world_ok S (set_rank r ?x' (w\<lparr>w_slots := w_slots w\<rparr>))"
  proof (rule step_frame [OF ok r _ _ same_slots(2) [OF ok]])
    show "\<not> waiting_now (w_generation w) ?x" "\<not> waiting_now (w_generation w) ?x'"
      using ph by (auto simp: waiting_now_def)
    show "thread_ok S (w_generation w) (w_slots w ! i) (w_ranks w ! i) i" if "i < su_n S" for i
      using world_okD(6) [OF ok that] .
    show "thread_ok S (w_generation w) (w_slots w ! r) ?x' r"
      using k outs G r by (simp add: thread_ok_def phase_ok_def spec_hist_Suc del: spec_hist.simps)
    show "slots_ok S (w_generation w) (w_slots w) (past_middle (w_generation w) (if r = 0 then ?x' else w_ranks w ! 0))"
      using G by (simp add: slots_ok_def)
  qed
  then show ?thesis by (simp add: leave_def aft)
qed

lemma middle_ok:
  assumes S: "spmd_ok S" and ok: "world_ok S w" and r: "r < su_n S"
    and ph: "rt_phase (w_ranks w ! r) = Middle"
  shows "world_ok S (middle S r (w_ranks w ! r) w)"
proof -
  let ?x = "w_ranks w ! r" and ?k = "rt_call (w_ranks w ! r)" and ?G = "w_generation w"
  have t: "thread_ok S ?G (w_slots w ! r) ?x r" using world_okD(6) [OF ok r] .
  have k: "?k < length (su_calls S)" and outs: "rt_outs ?x = spec_hist S ?k ! r"
    and G: "?G = 2 * ?k + 1" and io: "rt_buf ?x = fst (call_ios S ?k ! r)" "rt_recv ?x = snd (call_ios S ?k ! r)"
    using t ph by (simp_all add: thread_ok_def phase_ok_def has_inputs_def)
  have Gk: "?G div 2 = ?k" "odd ?G" using G by simp_all
  note cok = spmd_call [OF S k]
  let ?c = "su_calls S ! ?k" and ?red = "past_middle ?G (w_ranks w ! 0)"
  have slots: "deposits ?c i \<Longrightarrow> w_slots w ! i =
      (if in_place ?c \<and> ?red then call_out S ?k i else fst (call_ios S ?k ! i))" if "i < su_n S" for i
    using world_okD(7) [OF ok] Gk that by (simp add: slots_ok_def)
  obtain slots' buf' where b: "between (su_numerics S) (su_n S) ?c r (w_slots w) (rt_buf ?x) (rt_recv ?x)
        = Ok (slots', buf')"
    and len: "length slots' = su_n S"
    and buf': "buf' = (if in_place ?c then fst (call_ios S ?k ! r) else call_out S ?k r)"
    and slots': "\<And>i. i < su_n S \<Longrightarrow> deposits ?c i \<Longrightarrow> slots' ! i =
      (if in_place ?c \<and> (r = 0 \<or> ?red) then call_out S ?k i else fst (call_ios S ?k ! i))"
  proof (cases "in_place ?c \<and> r = 0")
    case False
    show ?thesis
    proof (cases "in_place ?c")
      case True
      then obtain cfg where "?c = AllReduce cfg" by (cases ?c) auto
      then show ?thesis using False that slots io world_okD(2) [OF ok] by auto
    next
      case ip: False
      then show ?thesis
        using between_reads [OF cok r ip world_okD(2) [OF ok], of "su_numerics S"] slots io
          world_okD(2) [OF ok] by (intro that) (simp_all add: call_out_def)
    qed
  next
    case True
    then obtain cfg where c: "?c = AllReduce cfg" by (cases ?c) auto
    have "\<not> ?red" using ph True by (simp add: past_middle_def)
    then have "reduce_slots (su_numerics S) cfg (w_slots w) =
        Ok (replicate (su_n S) (reduce_all (su_numerics S) cfg (map fst (call_ios S ?k))))"
      using slots c cok
      by (intro reduce_call(1) [OF spmd_numerics [OF S] _ world_okD(2) [OF ok]]) simp_all
    then show ?thesis using True c io
      by (intro that [of "replicate (su_n S) (call_out S ?k r)" "rt_buf ?x"]) (simp_all add: call_out_def)
  qed
  let ?x' = "?x\<lparr>rt_phase := Arriving2, rt_buf := buf'\<rparr>"
  have "world_ok S (set_rank r ?x' (w\<lparr>w_slots := slots'\<rparr>))"
  proof (rule step_frame [OF ok r _ _ len])
    show "\<not> waiting_now ?G ?x" "\<not> waiting_now ?G ?x'" using ph by (auto simp: waiting_now_def)
    show "thread_ok S ?G (slots' ! i) (w_ranks w ! i) i" if "i < su_n S" for i
      using odd_clock_slot [OF Gk(2) world_okD(6) [OF ok that]] .
    show "thread_ok S ?G (slots' ! r) ?x' r"
      using k outs G buf' by (simp add: thread_ok_def phase_ok_def computed_def)
    show "slots_ok S ?G slots' (past_middle ?G (if r = 0 then ?x' else w_ranks w ! 0))"
      using slots' Gk by (auto simp: slots_ok_def past_middle_def)
  qed
  then show ?thesis by (simp add: middle_def b)
qed

subsection \<open>Arrivals at the barrier\<close>

lemma all_waiting:
  assumes ok: "world_ok S w" and r: "r < su_n S" and quiet: "\<not> waiting_now (w_generation w) (w_ranks w ! r)"
    and last: "\<not> w_arrived w + 1 < su_n S" and i: "i < su_n S" "i \<noteq> r"
  shows "waiting_now (w_generation w) (w_ranks w ! i)"
proof -
  let ?W = "waiters (su_n S) w"
  have sub: "?W \<subseteq> {..<su_n S} - {r}" using quiet by (auto simp: waiters_def)
  have "card ({..<su_n S} - {r}) = su_n S - 1" using r by simp
  then have "card ({..<su_n S} - {r}) \<le> card ?W" using last world_okD(5) [OF ok] by linarith
  then have "?W = {..<su_n S} - {r}"
    using sub by (intro card_seteq) simp_all
  then show ?thesis using i by (auto simp: waiters_def)
qed

lemma arrive_wait_ok:
  assumes ok: "world_ok S w" and r: "r < su_n S"
    and quiet: "\<not> waiting_now (w_generation w) (w_ranks w ! r)" and more: "w_arrived w + 1 < su_n S"
    and p: "p = Waiting1 (w_generation w) \<or> p = Waiting2 (w_generation w)"
    and x': "thread_ok S (w_generation w) (w_slots w ! r) ((w_ranks w ! r)\<lparr>rt_phase := p\<rparr>) r"
    and pm: "r = 0 \<Longrightarrow> past_middle (w_generation w) ((w_ranks w ! r)\<lparr>rt_phase := p\<rparr>) =
      past_middle (w_generation w) (w_ranks w ! 0)"
  shows "world_ok S (set_rank r ((w_ranks w ! r)\<lparr>rt_phase := p\<rparr>) (w\<lparr>w_arrived := w_arrived w + 1\<rparr>))"
proof -
  let ?x' = "(w_ranks w ! r)\<lparr>rt_phase := p\<rparr>"
  note D = world_okD [OF ok]
  have "r \<notin> waiters (su_n S) w" using quiet by (simp add: waiters_def)
  moreover have "waiters (su_n S) (set_rank r ?x' (w\<lparr>w_arrived := w_arrived w + 1\<rparr>)) = insert r (waiters (su_n S) w)"
    using waiters_update [of "w\<lparr>w_arrived := w_arrived w + 1\<rparr>" "su_n S" r ?x'] D(3) r p
    by (auto simp: waiting_now_def)
  ultimately have cnt: "card (waiters (su_n S) (set_rank r ?x' (w\<lparr>w_arrived := w_arrived w + 1\<rparr>))) = w_arrived w + 1"
    using D(5) by simp
  have "(w_ranks w)[r := ?x'] ! 0 = (if r = 0 then ?x' else w_ranks w ! 0)"
    using r D(3) by (auto simp: nth_list_update)
  moreover have "slots_ok S (w_generation w) (w_slots w)
      (past_middle (w_generation w) (if r = 0 then ?x' else w_ranks w ! 0))"
    using pm by (intro slots_ok_other [OF ok]) simp
  ultimately show ?thesis
    using D x' more r cnt unfolding world_ok_def by (auto simp: nth_list_update)
qed

lemma arrive_release_ok:
  assumes ok: "world_ok S w" and r: "r < su_n S"
    and x': "thread_ok S (w_generation w + 1) (w_slots w ! r) x' r"
      "\<not> waiting_now (w_generation w + 1) x'"
    and others: "\<And>i. i < su_n S \<Longrightarrow> i \<noteq> r \<Longrightarrow> waiting_now (w_generation w) (w_ranks w ! i) \<and>
      thread_ok S (w_generation w + 1) (w_slots w ! i) (w_ranks w ! i) i"
    and slots: "slots_ok S (w_generation w + 1) (w_slots w) False"
    and pm: "\<not> past_middle (w_generation w + 1) x'"
  shows "world_ok S (set_rank r x' (w\<lparr>w_arrived := 0, w_generation := w_generation w + 1\<rparr>))"
proof -
  let ?w = "set_rank r x' (w\<lparr>w_arrived := 0, w_generation := w_generation w + 1\<rparr>)"
  note D = world_okD [OF ok]
  have nw: "\<not> waiting_now (w_generation w + 1) (w_ranks w ! i)" if "i < su_n S" "i \<noteq> r" for i
    using others [OF that] by (auto simp: waiting_now_def)
  then have "waiters (su_n S) ?w = {}"
    using x'(2) D(3) r by (auto simp: waiters_def nth_list_update)
  moreover have "\<not> past_middle (w_generation w + 1) ((w_ranks w)[r := x'] ! 0)"
    using pm others [of 0] r D(3) by (auto simp: nth_list_update past_middle_def waiting_now_def)
  ultimately show ?thesis
    using D x'(1) others slots r unfolding world_ok_def by (auto simp: nth_list_update)
qed

lemma arrive1_ok:
  assumes ok: "world_ok S w" and r: "r < su_n S" and ph: "rt_phase (w_ranks w ! r) = Arriving1"
  shows "world_ok S (arrive (su_n S) r (w_ranks w ! r) Waiting1 Middle w)"
proof -
  let ?x = "w_ranks w ! r" and ?G = "w_generation w"
  have t: "thread_ok S ?G (w_slots w ! r) ?x r" using world_okD(6) [OF ok r] .
  then have G: "?G = 2 * rt_call ?x" and dep: "deposited S (rt_call ?x) r (w_slots w ! r)"
    using ph by (simp_all add: thread_ok_def phase_ok_def)
  have quiet: "\<not> waiting_now ?G ?x" using ph by (simp add: waiting_now_def)
  show ?thesis
  proof (cases "w_arrived w + 1 < su_n S")
    case True
    have "world_ok S (set_rank r (?x\<lparr>rt_phase := Waiting1 ?G\<rparr>) (w\<lparr>w_arrived := w_arrived w + 1\<rparr>))"
      using t ph by (intro arrive_wait_ok [OF ok r quiet True])
        (auto simp: thread_ok_def phase_ok_def has_inputs_def past_middle_def)
    then show ?thesis using True by (simp add: arrive_def)
  next
    case False
    have others: "rt_phase (w_ranks w ! i) = Waiting1 ?G \<and> rt_call (w_ranks w ! i) = rt_call ?x \<and>
        thread_ok S ?G (w_slots w ! i) (w_ranks w ! i) i" if "i < su_n S" "i \<noteq> r" for i
      using all_waiting [OF ok r quiet False that] world_okD(6) [OF ok that(1)] G
      by (auto simp: waiting_now_def thread_ok_def phase_ok_def Suc_double_not_eq_double double_not_eq_Suc_double)
    have "deposits (su_calls S ! (?G div 2)) i \<Longrightarrow> w_slots w ! i = fst (call_ios S (?G div 2) ! i)"
      if "i < su_n S" for i
      using others [OF that] dep G
      by (cases "i = r") (auto simp: thread_ok_def phase_ok_def deposited_def)
    then have slots: "slots_ok S (?G + 1) (w_slots w) False" using G by (simp add: slots_ok_def)
    have "world_ok S (set_rank r (?x\<lparr>rt_phase := Middle\<rparr>) (w\<lparr>w_arrived := 0, w_generation := ?G + 1\<rparr>))"
    proof (rule arrive_release_ok [OF ok r _ _ _ slots])
      show "thread_ok S (?G + 1) (w_slots w ! r) (?x\<lparr>rt_phase := Middle\<rparr>) r"
        using t ph by (auto simp: thread_ok_def phase_ok_def has_inputs_def)
      show "waiting_now ?G (w_ranks w ! i) \<and> thread_ok S (?G + 1) (w_slots w ! i) (w_ranks w ! i) i"
        if "i < su_n S" "i \<noteq> r" for i
        using others [OF that] by (auto simp: thread_ok_def phase_ok_def waiting_now_def)
    qed (simp_all add: waiting_now_def past_middle_def)
    then show ?thesis using False by (simp add: arrive_def)
  qed
qed

lemma arrive2_ok:
  assumes S: "spmd_ok S" and ok: "world_ok S w" and r: "r < su_n S"
    and ph: "rt_phase (w_ranks w ! r) = Arriving2"
  shows "world_ok S (arrive (su_n S) r (w_ranks w ! r) Waiting2 Leaving w)"
proof -
  let ?x = "w_ranks w ! r" and ?G = "w_generation w"
  have t: "thread_ok S ?G (w_slots w ! r) ?x r" using world_okD(6) [OF ok r] .
  then have G: "?G = 2 * rt_call ?x + 1" using ph by (simp_all add: thread_ok_def phase_ok_def)
  have quiet: "\<not> waiting_now ?G ?x" using ph by (simp add: waiting_now_def)
  show ?thesis
  proof (cases "w_arrived w + 1 < su_n S")
    case True
    have "world_ok S (set_rank r (?x\<lparr>rt_phase := Waiting2 ?G\<rparr>) (w\<lparr>w_arrived := w_arrived w + 1\<rparr>))"
      using t ph by (intro arrive_wait_ok [OF ok r quiet True])
        (auto simp: thread_ok_def phase_ok_def computed_def past_middle_def)
    then show ?thesis using True by (simp add: arrive_def)
  next
    case False
    have others: "rt_phase (w_ranks w ! i) = Waiting2 ?G \<and> rt_call (w_ranks w ! i) = rt_call ?x \<and>
        thread_ok S ?G (w_slots w ! i) (w_ranks w ! i) i" if "i < su_n S" "i \<noteq> r" for i
      using all_waiting [OF ok r quiet False that] world_okD(6) [OF ok that(1)] G
      by (auto simp: waiting_now_def thread_ok_def phase_ok_def Suc_double_not_eq_double double_not_eq_Suc_double)
    have "0 < su_n S" using S by (simp add: spmd_ok_def)
    then have "past_middle ?G (w_ranks w ! 0)"
      using others [of 0] ph by (cases "r = 0") (auto simp: past_middle_def)
    then have red: "in_place (su_calls S ! rt_call ?x) \<Longrightarrow> w_slots w ! i = call_out S (rt_call ?x) i"
      if "i < su_n S" for i
      using world_okD(7) [OF ok] G that by (cases "su_calls S ! rt_call ?x") (auto simp: slots_ok_def)
    have "world_ok S (set_rank r (?x\<lparr>rt_phase := Leaving\<rparr>) (w\<lparr>w_arrived := 0, w_generation := ?G + 1\<rparr>))"
    proof (rule arrive_release_ok [OF ok r])
      show "thread_ok S (?G + 1) (w_slots w ! r) (?x\<lparr>rt_phase := Leaving\<rparr>) r"
        using t ph red [OF r] by (auto simp: thread_ok_def phase_ok_def computed_def delivered_def)
      show "waiting_now ?G (w_ranks w ! i) \<and> thread_ok S (?G + 1) (w_slots w ! i) (w_ranks w ! i) i"
        if "i < su_n S" "i \<noteq> r" for i
        using others [OF that] red [OF that(1)]
        by (auto simp: thread_ok_def phase_ok_def delivered_def waiting_now_def)
      show "slots_ok S (?G + 1) (w_slots w) False" using G by (simp add: slots_ok_def)
    qed (simp_all add: waiting_now_def past_middle_def)
    then show ?thesis using False by (simp add: arrive_def)
  qed
qed

subsection \<open>Every reachable world\<close>

lemma world_step_ok:
  assumes S: "spmd_ok S" and ok: "world_ok S w" and "world_step S w w'"
  shows "world_ok S w'"
proof -
  obtain r where st: "rank_step S r w = Some w'" using assms(3) by (auto elim: world_stepE)
  then have r: "r < su_n S" by (auto simp: rank_step_def split: if_splits)
  have nf: "rt_phase (w_ranks w ! r) \<noteq> Failed e" for e
    using world_okD(6) [OF ok r] by (auto simp: thread_ok_def phase_ok_def)
  show ?thesis
  proof (cases "rt_phase (w_ranks w ! r)")
    case Entering
    then show ?thesis
      using st r enter_ok [OF S ok r] by (auto simp: rank_step_def Let_def split: if_splits)
  next
    case Arriving1
    then show ?thesis using st r arrive1_ok [OF ok r] by (auto simp: rank_step_def Let_def split: if_splits)
  next
    case (Waiting1 g)
    then show ?thesis using st r wake_ok [OF ok r, of g Middle] by (auto simp: rank_step_def Let_def split: if_splits)
  next
    case Middle
    then show ?thesis using st r middle_ok [OF S ok r] by (auto simp: rank_step_def Let_def split: if_splits)
  next
    case Arriving2
    then show ?thesis using st r arrive2_ok [OF S ok r] by (auto simp: rank_step_def Let_def split: if_splits)
  next
    case (Waiting2 g)
    then show ?thesis using st r wake_ok [OF ok r, of g Leaving] by (auto simp: rank_step_def Let_def split: if_splits)
  next
    case Leaving
    then show ?thesis using st r leave_ok [OF S ok r] by (auto simp: rank_step_def Let_def split: if_splits)
  qed (use nf in simp)
qed

lemma reaches_ok: "spmd_ok S \<Longrightarrow> reaches S k w \<Longrightarrow> world_ok S w"
proof -
  assume S: "spmd_ok S" and "reaches S k w"
  from this(2) show ?thesis
    by (induction rule: reaches.induct) (auto intro: start_ok [OF S] world_step_ok [OF S])
qed

end
