(* ===== verification/Collective_Props.thy ===== *)
theory Collective_Props
  imports Collective_Inv
begin

section \<open>Correctness, deadlock freedom and termination of the collectives\<close>

text \<open>
  What the invariant gives: under every interleaving each rank gets the specified results, no rank
  is ever stuck, and every schedule ends within a bound; and what a rank whose check fails does to
  the others.
\<close>

subsection \<open>Progress\<close>

lemma blocked_rank:
  assumes ok: "world_ok S w" and r: "r < su_n S" and "rank_step S r w = None"
  shows "waiting_now (w_generation w) (w_ranks w ! r) \<or>
    rt_phase (w_ranks w ! r) = Entering \<and> rt_call (w_ranks w ! r) = length (su_calls S)"
  using assms(3) r world_okD(1) [OF ok] world_okD(6) [OF ok r]
  by (auto simp: rank_step_def Let_def waiting_now_def thread_ok_def phase_ok_def
      split: rank_phase.splits if_splits)

lemma progress:
  assumes ok: "world_ok S w" and blocked: "\<And>r. rank_step S r w = None" and r: "r < su_n S"
  shows "rt_phase (w_ranks w ! r) = Entering \<and> rt_call (w_ranks w ! r) = length (su_calls S)"
proof -
  let ?G = "w_generation w"
  have "waiters (su_n S) w \<noteq> {..<su_n S}"
  proof
    assume "waiters (su_n S) w = {..<su_n S}"
    then show False using world_okD(4,5) [OF ok] by simp
  qed
  then obtain q where q: "q < su_n S" "\<not> waiting_now ?G (w_ranks w ! q)"
    by (auto simp: waiters_def)
  then have fin: "rt_phase (w_ranks w ! q) = Entering" "rt_call (w_ranks w ! q) = length (su_calls S)"
    using blocked_rank [OF ok q(1) blocked] by auto
  then have G: "?G = 2 * length (su_calls S)"
    using fin world_okD(6) [OF ok q(1)] by (simp add: thread_ok_def phase_ok_def)
  have "\<not> waiting_now ?G (w_ranks w ! r)"
    using world_okD(6) [OF ok r] G
    by (auto simp: waiting_now_def thread_ok_def phase_ok_def double_not_eq_Suc_double)
  then show ?thesis using blocked_rank [OF ok r blocked] by blast
qed

subsection \<open>Every schedule ends\<close>

fun phase_index :: "rank_phase \<Rightarrow> nat" where
  "phase_index Entering = 0"
| "phase_index Arriving1 = 1"
| "phase_index (Waiting1 g) = 2"
| "phase_index Middle = 3"
| "phase_index Arriving2 = 4"
| "phase_index (Waiting2 g) = 5"
| "phase_index Leaving = 6"
| "phase_index (Failed e) = 7"

lemma phase_index_le: "phase_index p \<le> 7"
  by (cases p) simp_all

definition rank_position :: "'b rank_thread \<Rightarrow> nat" where
  "rank_position x = 7 * rt_call x + phase_index (rt_phase x)"

definition position_sum :: "'b world \<Rightarrow> nat" where
  "position_sum w = sum_list (map rank_position (w_ranks w))"

lemma position_sum_update:
  assumes "r < length (w_ranks w)" and "rank_position (w_ranks w ! r) < rank_position x"
    and "w_ranks w' = (w_ranks w)[r := x]"
  shows "position_sum w < position_sum w'"
proof -
  have "map rank_position (w_ranks w') = (map rank_position (w_ranks w))[r := rank_position x]"
    by (simp add: assms(3) map_update)
  moreover have "rank_position (w_ranks w ! r) \<le> sum_list (map rank_position (w_ranks w))"
    using assms(1) by (metis elem_le_sum_list length_map nth_map)
  ultimately show ?thesis
    using assms(1,2) by (simp add: position_sum_def sum_list_update)
qed

lemma step_moves:
  assumes "rank_step S r w = Some w'" and "\<not> w_crashed w'" and "length (w_ranks w) = su_n S"
  shows "position_sum w < position_sum w'"
proof -
  have r: "r < length (w_ranks w)" using assms by (auto simp: rank_step_def split: if_splits)
  obtain x where "w_ranks w' = (w_ranks w)[r := x]" "rank_position (w_ranks w ! r) < rank_position x"
    using assms(1,2)
    by (auto simp: rank_step_def Let_def enter_def arrive_def middle_def leave_def rank_position_def
        split: if_splits rank_phase.splits prod.splits option.splits outcome.splits)
  then show ?thesis using position_sum_update [OF r] by blast
qed

lemma reaches_position:
  assumes S: "spmd_ok S" and "reaches S k w"
  shows "k \<le> position_sum w"
  using assms(2)
proof (induction rule: reaches.induct)
  case reach_start
  then show ?case by simp
next
  case (reach_step k w w')
  obtain r where st: "rank_step S r w = Some w'" using reach_step.hyps(2) by (auto elim: world_stepE)
  have "world_ok S w" "world_ok S w'"
    using reaches_ok [OF S reach_step.hyps(1)] world_step_ok [OF S _ reach_step.hyps(2)] by blast+
  then have "position_sum w < position_sum w'" using st by (intro step_moves) (auto simp: world_ok_def)
  then show ?case using reach_step.IH by simp
qed

lemma sum_list_bounded:
  "(\<And>x. x \<in> set xs \<Longrightarrow> f x \<le> c) \<Longrightarrow> sum_list (map f xs) \<le> length xs * (c :: nat)"
  by (induction xs) (simp_all add: add_mono)

lemma position_bound:
  assumes "world_ok S w"
  shows "position_sum w \<le> 7 * su_n S * length (su_calls S)"
proof -
  have "rank_position x \<le> 7 * length (su_calls S)" if x: "x \<in> set (w_ranks w)" for x
  proof -
    obtain r where r: "r < su_n S" "x = w_ranks w ! r"
      using x world_okD(3) [OF assms] by (auto simp: in_set_conv_nth)
    have t: "thread_ok S (w_generation w) (w_slots w ! r) x r"
      using world_okD(6) [OF assms r(1)] by (simp only: r(2))
    show ?thesis
    proof (cases "rt_phase x = Entering")
      case True
      then show ?thesis using t by (simp add: rank_position_def thread_ok_def)
    next
      case False
      then have "Suc (rt_call x) \<le> length (su_calls S)" using t by (simp add: thread_ok_def)
      then show ?thesis using phase_index_le [of "rt_phase x"] by (simp add: rank_position_def)
    qed
  qed
  then have "position_sum w \<le> length (w_ranks w) * (7 * length (su_calls S))"
    unfolding position_sum_def by (rule sum_list_bounded)
  then show ?thesis using world_okD(3) [OF assms] by (simp add: mult_ac)
qed

subsection \<open>The properties\<close>



subsection \<open>A rank that fails its check\<close>

definition before_barrier :: "('b, 'v) mesh_run \<Rightarrow> nat \<Rightarrow> 'b world \<Rightarrow> bool" where
  "before_barrier S q w \<longleftrightarrow> w_generation w = 0 \<and> length (w_ranks w) = su_n S \<and> \<not> w_crashed w \<and>
     w_arrived w = card (waiters (su_n S) w) \<and>
     (\<forall>r < su_n S. rt_call (w_ranks w ! r) = 0 \<and> rt_outs (w_ranks w ! r) = [] \<and>
        (rt_phase (w_ranks w ! r) \<in> {Entering, Arriving1, Waiting1 0} \<or> (\<exists>e. rt_phase (w_ranks w ! r) = Failed e))) \<and>
     (rt_phase (w_ranks w ! q) = Entering \<or> (\<exists>e. rt_phase (w_ranks w ! q) = Failed e))"

lemma before_barrier_step:
  assumes inv: "before_barrier S q w" and st: "rank_step S r w = Some w'" and q: "q < su_n S"
    and bad: "admit (su_n S) (su_calls S ! 0) (fst (su_prog S q [])) (snd (su_prog S q [])) \<noteq> None"
  shows "before_barrier S q w'"
proof -
  let ?x = "w_ranks w ! r"
  have r: "r < su_n S" using st by (auto simp: rank_step_def split: if_splits)
  have len: "length (w_ranks w) = su_n S" and G: "w_generation w = 0" and cnt: "w_arrived w = card (waiters (su_n S) w)"
    using inv by (simp_all add: before_barrier_def)
  have x: "rt_call ?x = 0" "rt_outs ?x = []"
    "rt_phase ?x \<in> {Entering, Arriving1, Waiting1 0} \<or> (\<exists>e. rt_phase ?x = Failed e)"
    using inv r by (auto simp: before_barrier_def)
  then consider (enter) "rt_phase ?x = Entering" | (arrive) "rt_phase ?x = Arriving1"
    using st G by (auto simp: rank_step_def Let_def split: if_splits)
  then show ?thesis
  proof cases
    case enter
    obtain buf recv where io: "su_prog S r [] = (buf, recv)" by (metis surj_pair)
    have w': "w' = enter S r ?x w" using st enter by (auto simp: rank_step_def Let_def split: if_splits)
    obtain x' ss where eq: "w' = set_rank r x' (w\<lparr>w_slots := ss\<rparr>)" and x': "rt_call x' = 0" "rt_outs x' = []"
      "(rt_phase x' = Arriving1 \<and> r \<noteq> q) \<or> (\<exists>e. rt_phase x' = Failed e)"
    proof (cases "admit (su_n S) (su_calls S ! 0) buf recv")
      case None
      then have "r \<noteq> q" using bad io by auto
      then show ?thesis
        using w' x io None that [of "?x\<lparr>rt_phase := Arriving1, rt_buf := buf, rt_recv := recv\<rparr>"
            "if deposits (su_calls S ! 0) r then (w_slots w)[r := buf] else w_slots w"]
        by (simp add: enter_def)
    next
      case (Some e)
      then show ?thesis
        using w' x io that [of "?x\<lparr>rt_phase := Failed e\<rparr>" "w_slots w"] by (simp add: enter_def)
    qed
    have "r \<notin> waiters (su_n S) w" using enter by (simp add: waiters_def waiting_now_def)
    moreover have "\<not> waiting_now (w_generation w) x'" using x'(3) by (auto simp: waiting_now_def)
    ultimately have "waiters (su_n S) w' = waiters (su_n S) w"
      using waiters_update [of "w\<lparr>w_slots := ss\<rparr>" "su_n S" r x'] r len by (simp add: eq)
    then show ?thesis
      using inv x' len r q by (auto simp: before_barrier_def eq nth_list_update)
  next
    case arrive
    have rq: "r \<noteq> q" using inv arrive by (auto simp: before_barrier_def)
    have "waiters (su_n S) w \<subseteq> {..<su_n S} - {r, q}"
      using inv arrive by (auto simp: waiters_def before_barrier_def waiting_now_def)
    then have "card (waiters (su_n S) w) \<le> card ({..<su_n S} - {r, q})" by (intro card_mono) simp_all
    also have "\<dots> = su_n S - 2" using r q rq by (simp add: card_Diff_subset)
    finally have more: "w_arrived w + 1 < su_n S" using cnt r q rq by linarith
    let ?x' = "?x\<lparr>rt_phase := Waiting1 0\<rparr>"
    have eq: "w' = set_rank r ?x' (w\<lparr>w_arrived := w_arrived w + 1\<rparr>)"
      using st arrive more G by (auto simp: rank_step_def Let_def arrive_def split: if_splits)
    have "r \<notin> waiters (su_n S) w" using arrive by (simp add: waiters_def waiting_now_def)
    moreover have "waiters (su_n S) w' = insert r (waiters (su_n S) w)"
      using waiters_update [of "w\<lparr>w_arrived := w_arrived w + 1\<rparr>" "su_n S" r ?x'] r len G
      by (simp add: eq waiting_now_def)
    ultimately have "w_arrived w' = card (waiters (su_n S) w')" using cnt by (simp add: eq)
    then show ?thesis
      using inv x r q rq len by (auto simp: before_barrier_def eq nth_list_update)
  qed
qed

lemma before_barrier_reaches:
  assumes q: "q < su_n S"
    and bad: "admit (su_n S) (su_calls S ! 0) (fst (su_prog S q [])) (snd (su_prog S q [])) \<noteq> None"
    and "reaches S k w"
  shows "before_barrier S q w"
  using assms(3)
proof (induction rule: reaches.induct)
  case reach_start
  then show ?case
    using q by (auto simp: before_barrier_def ref_mesh_def waiters_def waiting_now_def)
next
  case (reach_step k w w')
  then obtain r where "rank_step S r w = Some w'" by (auto elim: world_stepE)
  then show ?case using before_barrier_step [OF reach_step.IH _ q bad] by blast
qed

text \<open>
  A rank whose buffer does not fit its first call returns the error before the barrier, and the
  barrier then never opens: in every reachable world no rank has returned from a collective.
\<close>

theorem collective_mismatch_hangs:
  assumes "q < su_n S" and "su_calls S = call # calls"
    and "admit (su_n S) call (fst (su_prog S q [])) (snd (su_prog S q [])) \<noteq> None"
    and "reaches S k w" and "r < su_n S"
  shows "rt_outs (w_ranks w ! r) = [] \<and> w_generation w = 0"
  using before_barrier_reaches [of q S k w] assms by (auto simp: before_barrier_def)

subsection \<open>Concrete runs\<close>

definition demo_numerics :: "(nat, nat) numerics" where
  "demo_numerics =
     \<lparr>elems_of = (\<lambda>t bs. map (\<lambda>i. bs ! (i * dtype_bytes t)) [0..<length bs div dtype_bytes t]),
      bytes_of = (\<lambda>t vs. concat (map (\<lambda>v. replicate (dtype_bytes t) v) vs)),
      combine = (\<lambda>t op a b. case op of Sum \<Rightarrow> a + b | Max \<Rightarrow> max a b | Min \<Rightarrow> min a b)\<rparr>"

lemma demo_numerics_ok: "numerics_ok demo_numerics"
  by (auto simp: numerics_ok_def demo_numerics_def length_concat comp_def sum_list_triv)

definition demo_cfg :: collective_cfg where
  "demo_cfg = \<lparr>elem_count = 1, cfg_dtype = F16, cfg_op = Sum\<rparr>"

text \<open>Two ranks sum their ids, then gather the sums.\<close>

definition demo_run :: "(nat, nat) mesh_run" where
  "demo_run = \<lparr>su_n = 2, su_calls = [AllReduce demo_cfg, AllGather demo_cfg],
     su_prog = (\<lambda>r outs. if outs = [] then ([r + 1, r + 1], []) else (hd outs, [0, 0, 0, 0])),
     su_numerics = demo_numerics\<rparr>"

lemma demo_bytes [simp]:
  "buffer_bytes demo_cfg = 2" "cfg_dtype demo_cfg = F16" "elem_count demo_cfg = 1" "cfg_op demo_cfg = Sum"
  by (simp_all add: buffer_bytes_def demo_cfg_def)

lemma demo_fields [simp]:
  "su_n demo_run = 2" "su_calls demo_run = [AllReduce demo_cfg, AllGather demo_cfg]"
  "su_numerics demo_run = demo_numerics"
  "su_prog demo_run r outs = (if outs = [] then ([r + 1, r + 1], []) else (hd outs, [0, 0, 0, 0]))"
  by (simp_all add: demo_run_def)

lemma demo_elems [simp]:
  "elems_of demo_numerics F16 [a, b] = [a]" "bytes_of demo_numerics F16 [a] = [a, a]"
  "combine demo_numerics F16 Sum a b = a + b"
  by (simp_all add: demo_numerics_def numeral_2_eq_2)

lemma two_ranks: "[0..<2] = [0, 1]"
  by (simp add: upt_rec)

lemma demo_hist1: "spec_hist demo_run (Suc 0) = [[[3, 3]], [[3, 3]]]"
  by (simp add: two_ranks reduce_all_def Let_def numeral_2_eq_2)

lemma demo_hist2: "spec_hist demo_run 2 = [[[3, 3], [3, 3, 3, 3]], [[3, 3], [3, 3, 3, 3]]]"
  using demo_hist1 by (simp add: two_ranks numeral_2_eq_2 Let_def)

lemma demo_spmd: "spmd_ok demo_run"
proof -
  have "call_ios demo_run 0 = [([1, 1], []), ([2, 2], [])]"
    by (simp add: call_ios_def two_ranks numeral_2_eq_2)
  moreover have "call_ios demo_run 1 = [([3, 3], [0, 0, 0, 0]), ([3, 3], [0, 0, 0, 0])]"
    using demo_hist1 by (simp add: call_ios_def two_ranks)
  ultimately show ?thesis
    by (simp add: spmd_ok_def demo_numerics_ok two_ranks call_ok_def call_sized_def check_buf_def)
qed

lemma wrap_four: "wrap64 (Suc (Suc (Suc (Suc 0)))) = Suc (Suc (Suc (Suc 0)))"
  by (rule wrap64_small) simp

definition demo_schedule :: "nat list" where
  "demo_schedule = [1,1,0,0,0,0,1,1,1,1,1,1,0,0,0,0,0,0,1,1,1,1,0,0]"

lemma demo_runs:
  "\<exists>w. run_schedule demo_run demo_schedule (ref_mesh demo_run) = Some w \<and> rt_call (w_ranks w ! 0) = 2"
  by (simp add: demo_schedule_def ref_mesh_def rank_step_def enter_def middle_def leave_def arrive_def
      set_rank_def check_buf_def reduce_slots_def cast_slice_def fold_rank_def copy_from_slice_def
      write_at_def two_ranks Let_def numeral_2_eq_2 wrap_four)

lemma demo_reaches: "\<exists>w. reaches demo_run 24 w \<and> rt_call (w_ranks w ! 0) = 2"
proof -
  obtain w where "run_schedule demo_run demo_schedule (ref_mesh demo_run) = Some w" "rt_call (w_ranks w ! 0) = 2"
    using demo_runs by blast
  moreover have "0 + length demo_schedule = 24" by (simp add: demo_schedule_def)
  ultimately show ?thesis using run_schedule_reaches [OF reach_start] by metis
qed



theorem collective_mismatch_hangs_witness:
  "\<exists>w. reaches (demo_run\<lparr>su_prog := \<lambda>r outs. (replicate (r + 2) 0, [])\<rparr>) 2 w \<and>
     rt_outs (w_ranks w ! 0) = [] \<and> w_generation w = 0"
proof -
  let ?S = "demo_run\<lparr>su_prog := \<lambda>r outs. (replicate (r + 2) 0, [])\<rparr>"
  have S: "su_n ?S = 2" "su_calls ?S = [AllReduce demo_cfg, AllGather demo_cfg]"
    "su_prog ?S r outs = (replicate (r + 2) 0, [])" for r outs
    by (simp_all add: demo_run_def)
  have "\<exists>w. run_schedule ?S [0, 1] (ref_mesh ?S) = Some w"
    by (simp add: ref_mesh_def rank_step_def enter_def set_rank_def check_buf_def demo_run_def numeral_2_eq_2)
  then obtain w where w: "reaches ?S 2 w"
    using run_schedule_reaches [OF reach_start, of ?S "[0, 1]"] by (auto simp: numeral_2_eq_2)
  moreover have "admit (su_n ?S) (AllReduce demo_cfg) (fst (su_prog ?S 1 [])) (snd (su_prog ?S 1 [])) \<noteq> None"
    by (simp add: S check_buf_def)
  ultimately show ?thesis
    using collective_mismatch_hangs [of 1 ?S "AllReduce demo_cfg" "[AllGather demo_cfg]" 2 w 0] S by auto
qed

end
