(* ===== verification/Mesh_Layers.thy ===== *)
theory Mesh_Layers
  imports FB_Prelude
begin

section \<open>Layer assignment and the model registry\<close>

text \<open>
  \<^verbatim>\<open>LayerAssignment\<close> of \<^verbatim>\<open>crates/runtime/src/mesh.rs\<close>, which maps every transformer layer to the
  pipeline rank that owns it, and the lookup of \<^verbatim>\<open>crates/runtime/src/registry.rs\<close>. Rank ids are
  \<^verbatim>\<open>u32\<close>: conversions from a length reduce modulo \<open>2 ^ 32\<close>. Assertions that fail are \<open>Panic\<close>.
\<close>

subsection \<open>Layer assignment\<close>

record layer_assignment =
  layer_to_rank :: "nat list"
  la_num_ranks :: nat

definition as_u32 :: "nat \<Rightarrow> nat" where
  "as_u32 n = n mod 2 ^ 32"

definition layers_per_rank :: "nat \<Rightarrow> nat \<Rightarrow> nat" where
  "layers_per_rank num_layers num_ranks = (num_layers + num_ranks - 1) div num_ranks"

definition contiguous :: "nat \<Rightarrow> nat \<Rightarrow> (unit, layer_assignment) outcome" where
  "contiguous num_layers num_ranks =
     (if num_ranks < 1 \<or> num_layers < num_ranks then Panic
      else
        (let per = layers_per_rank num_layers num_ranks in
         Ok \<lparr>layer_to_rank = map (\<lambda>il. as_u32 (min (il div per) (num_ranks - 1))) [0..<num_layers],
             la_num_ranks = num_ranks\<rparr>))"

definition from_counts :: "nat list \<Rightarrow> (unit, layer_assignment) outcome" where
  "from_counts counts =
     (if as_u32 (length counts) < 1 \<or> sum_list counts < 1 then Panic
      else Ok \<lparr>layer_to_rank = concat (map (\<lambda>(rank, count). replicate count (as_u32 rank)) (enumerate 0 counts)),
               la_num_ranks = as_u32 (length counts)\<rparr>)"

definition num_layers :: "layer_assignment \<Rightarrow> nat" where
  "num_layers a = length (layer_to_rank a)"

definition rank_for :: "layer_assignment \<Rightarrow> nat \<Rightarrow> (unit, nat) outcome" where
  "rank_for a il = (if il < length (layer_to_rank a) then Ok (layer_to_rank a ! il) else Panic)"

definition layers_on :: "layer_assignment \<Rightarrow> nat \<Rightarrow> nat list" where
  "layers_on a rank = filter (\<lambda>il. layer_to_rank a ! il = rank) [0..<length (layer_to_rank a)]"

definition is_first :: "layer_assignment \<Rightarrow> nat \<Rightarrow> bool" where
  "is_first a rank \<longleftrightarrow> rank = 0"

definition is_last :: "layer_assignment \<Rightarrow> nat \<Rightarrow> bool" where
  "is_last a rank \<longleftrightarrow> rank = la_num_ranks a - 1"

subsection \<open>Lists that name a rank per layer\<close>

text \<open>In a sorted list the positions of each value, one value after the other, are all positions.\<close>

definition positions :: "nat list \<Rightarrow> nat \<Rightarrow> nat list" where
  "positions xs r = filter (\<lambda>i. xs ! i = r) [0..<length xs]"

lemma positions_snoc: "positions (xs @ [x]) r = positions xs r @ (if x = r then [length xs] else [])"
proof -
  have "filter (\<lambda>i. (xs @ [x]) ! i = r) [0..<length xs] = filter (\<lambda>i. xs ! i = r) [0..<length xs]"
    by (intro filter_cong) (simp_all add: nth_append)
  then show ?thesis by (simp add: positions_def)
qed

lemma positions_none: "r \<notin> set xs \<Longrightarrow> positions xs r = []"
  by (auto simp: positions_def filter_empty_conv in_set_conv_nth)

lemma concat_positions:
  assumes "sorted xs" and "\<forall>x \<in> set xs. x < n"
  shows "concat (map (positions xs) [0..<n]) = [0..<length xs]"
  using assms
proof (induction xs rule: rev_induct)
  case Nil
  then show ?case by (simp add: positions_def)
next
  case (snoc x xs)
  then have x: "x < n" and le: "\<forall>y \<in> set xs. y \<le> x" by (auto simp: sorted_append)
  have "[0..<n] = [0..<Suc x] @ [Suc x..<n]" using x by (metis Suc_leI le0 upt_add_eq_append le_add_diff_inverse)
  then have split: "concat (map f [0..<n]) = concat (map f [0..<Suc x]) @ concat (map f [Suc x..<n])"
    for f :: "nat \<Rightarrow> nat list" by (simp only: map_append concat_append)
  have high: "positions xs r = []" if "x < r" for r
    using le that by (auto simp: positions_def filter_empty_conv in_set_conv_nth) (metis leD nth_mem)
  have tail: "concat (map (positions (xs @ [x])) [Suc x..<n]) = []"
    using high by (auto simp: positions_snoc)
  have "concat (map (positions xs) [Suc x..<n]) = []" using high by auto
  then have old: "concat (map (positions xs) [0..<Suc x]) = [0..<length xs]"
    using snoc split [of "positions xs"] by (simp only: append_Nil2) (simp add: sorted_append)
  have "concat (map (positions (xs @ [x])) [0..<Suc x]) =
      concat (map (positions xs) [0..<Suc x]) @ [length xs]"
  proof -
    have "map (positions (xs @ [x])) [0..<x] = map (positions xs) [0..<x]"
      by (intro map_cong) (auto simp: positions_snoc)
    then have "concat (map (positions (xs @ [x])) [0..<x]) = concat (map (positions xs) [0..<x])"
      by (simp only:)
    then show ?thesis using positions_snoc [of xs x x] by (simp del: map_eq_conv)
  qed
  then show ?case unfolding split tail old by simp
qed

text \<open>The hand-offs along the layers: neighbours on different ranks.\<close>

fun hops :: "nat list \<Rightarrow> nat" where
  "hops (x # y # ys) = (if x \<noteq> y then 1 else 0) + hops (y # ys)"
| "hops _ = 0"

lemma hops_bound: "sorted (x # xs) \<Longrightarrow> hops (x # xs) \<le> last (x # xs) - x"
proof (induction xs arbitrary: x)
  case (Cons y ys)
  then have IH: "hops (y # ys) \<le> last (y # ys) - y" and xy: "x \<le> y" by auto
  have "y \<le> last (y # ys)"
    using Cons.prems by (metis last_in_set list.distinct(1) sorted_simps(2) order_refl set_ConsD)
  then show ?case using IH xy by (auto simp del: last.simps simp: last_ConsR)
qed simp

subsection \<open>The contiguous policy\<close>

lemma layers_on_positions: "layers_on a = positions (layer_to_rank a)"
  by (simp add: fun_eq_iff layers_on_def positions_def)

lemma contiguous_Ok:
  assumes "contiguous L R = Ok a"
  shows "1 \<le> R" and "R \<le> L" and "la_num_ranks a = R"
    and "layer_to_rank a = map (\<lambda>il. as_u32 (min (il div layers_per_rank L R) (R - 1))) [0..<L]"
  using assms by (auto simp: contiguous_def Let_def split: if_splits)

lemma contiguous_ranks:
  assumes "contiguous L R = Ok a" and "R < 2 ^ 32"
  shows "layer_to_rank a = map (\<lambda>il. min (il div layers_per_rank L R) (R - 1)) [0..<L]"
proof -
  have "as_u32 (min i (R - 1)) = min i (R - 1)" for i
  proof -
    have "min i (R - 1) \<le> R" by simp
    then have "min i (R - 1) < 2 ^ 32" using assms(2) by (rule le_less_trans)
    then show ?thesis unfolding as_u32_def by (rule mod_less)
  qed
  then show ?thesis using contiguous_Ok(4) [OF assms(1)] by simp
qed

lemma contiguous_sorted:
  assumes "contiguous L R = Ok a" and "R < 2 ^ 32"
  shows "sorted (layer_to_rank a)" and "\<forall>x \<in> set (layer_to_rank a). x < R"
proof -
  have "min (i div p) m \<le> min (j div p) m" if "i \<le> j" for i j p m :: nat
    using div_le_mono [OF that, of p] by (simp add: min_le_iff_disj)
  then show "sorted (layer_to_rank a)"
    by (simp add: contiguous_ranks [OF assms] sorted_iff_nth_mono)
  show "\<forall>x \<in> set (layer_to_rank a). x < R"
    using contiguous_Ok(1) [OF assms(1)] by (auto simp: contiguous_ranks [OF assms])
qed

text \<open>The layers of one rank: an interval of \<open>per\<close> layers, cut at the end.\<close>

lemma layers_per_rank_covers:
  assumes "1 \<le> R"
  shows "L \<le> R * layers_per_rank L R"
proof -
  have "L + R - 1 < R * (layers_per_rank L R + 1)"
    using assms unfolding layers_per_rank_def by (metis add.commute dividend_less_times_div le_zero_eq
        linorder_not_less mult.commute mult_Suc_right plus_1_eq_Suc zero_less_one)
  then show ?thesis using assms by simp
qed

lemma contiguous_rank_of:
  assumes "contiguous L R = Ok a" and "R < 2 ^ 32" and "il < L"
  shows "layer_to_rank a ! il = il div layers_per_rank L R"
proof -
  have "il < R * layers_per_rank L R"
    using layers_per_rank_covers [OF contiguous_Ok(1) [OF assms(1)], of L] assms(3) by simp
  then have "il div layers_per_rank L R < R" by (simp add: less_mult_imp_div_less)
  then have "il div layers_per_rank L R \<le> R - 1" by simp
  then show ?thesis using assms(3) by (simp add: contiguous_ranks [OF assms(1,2)])
qed

lemma filter_interval: "filter (\<lambda>i. a \<le> i \<and> i < b) [0..<n] = [a..<min n (b :: nat)]"
  by (induction n) (auto simp: min_def le_Suc_eq not_le dest: le_antisym)

lemma contiguous_layers_on:
  assumes "contiguous L R = Ok a" and "R < 2 ^ 32"
  shows "layers_on a r = [r * layers_per_rank L R..<min L ((r + 1) * layers_per_rank L R)]"
proof -
  let ?per = "layers_per_rank L R"
  have per: "0 < ?per"
    using layers_per_rank_covers [OF contiguous_Ok(1) [OF assms(1)], of L] contiguous_Ok(1,2) [OF assms(1)]
    by (metis gr0I le_zero_eq mult_0_right not_one_le_zero)
  have "layers_on a r = filter (\<lambda>il. il div ?per = r) [0..<L]"
    using contiguous_rank_of [OF assms] contiguous_Ok(4) [OF assms(1)]
    by (auto simp: layers_on_def intro: filter_cong)
  also have "\<dots> = filter (\<lambda>il. r * ?per \<le> il \<and> il < (r + 1) * ?per) [0..<L]"
    using per by (intro filter_cong) (auto simp: div_nat_eqI dividend_less_times_div mult.commute
        intro: div_times_less_eq_dividend)
  also have "\<dots> = [r * ?per..<min L ((r + 1) * ?per)]"
    by (rule filter_interval)
  finally show ?thesis .
qed

subsection \<open>Explicit counts\<close>

lemma from_counts_snoc:
  "concat (map (\<lambda>(r, c). replicate c (as_u32 r)) (enumerate 0 (cs @ [c]))) =
   concat (map (\<lambda>(r, c). replicate c (as_u32 r)) (enumerate 0 cs)) @ replicate c (as_u32 (length cs))"
  by (simp add: enumerate_append_eq)

lemma from_counts_list:
  assumes "length cs \<le> 2 ^ 32"
  defines "xs \<equiv> concat (map (\<lambda>(r, c). replicate c (as_u32 r)) (enumerate 0 cs))"
  shows "sorted xs \<and> (\<forall>x \<in> set xs. x < length cs) \<and> length xs = sum_list cs \<and>
    (\<forall>r < length cs. length (positions xs r) = cs ! r)"
  using assms(1) unfolding xs_def
proof (induction cs rule: rev_induct)
  case Nil
  then show ?case by simp
next
  case (snoc c cs)
  let ?xs = "concat (map (\<lambda>(r, c). replicate c (as_u32 r)) (enumerate 0 cs))"
  have IH: "sorted ?xs" "\<forall>x \<in> set ?xs. x < length cs" "length ?xs = sum_list cs"
    "\<forall>r < length cs. length (positions ?xs r) = cs ! r" using snoc by simp_all
  have n: "as_u32 (length cs) = length cs"
  proof -
    have "length cs < 2 ^ 32" using snoc.prems by (simp only: length_append) simp
    then show ?thesis unfolding as_u32_def by (rule mod_less)
  qed
  have app: "length (positions (?xs @ replicate k m) r) = length (positions ?xs r) + (if m = r then k else 0)" for k m r
  proof (induction k)
    case (Suc k)
    have "?xs @ replicate (Suc k) m = (?xs @ replicate k m) @ [m]"
      by (simp add: replicate_append_same)
    then show ?case using Suc by (simp only: positions_snoc) simp
  qed simp
  have none: "positions ?xs (length cs) = []"
    using IH(2) by (intro positions_none) blast
  show ?case
    unfolding from_counts_snoc n
    using IH by (auto simp: sorted_append app none nth_append less_Suc_eq)
qed

subsection \<open>The registry\<close>

text \<open>A registered model is the list of architecture names it supports, beside what it does.\<close>

record ('s, 'm) model_entry =
  supported_archs :: "'s list"
  model :: 'm

type_synonym ('s, 'm) registry = "('s, 'm) model_entry list"

datatype 's registry_error = UnknownArch 's "'s list"

definition register :: "('s, 'm) model_entry \<Rightarrow> ('s, 'm) registry \<Rightarrow> ('s, 'm) registry" where
  "register m reg = reg @ [m]"

definition find_model :: "'s \<Rightarrow> ('s, 'm) registry \<Rightarrow> ('s, 'm) model_entry option" where
  "find_model arch reg = find (\<lambda>m. arch \<in> set (supported_archs m)) (rev reg)"

definition validate :: "'s \<Rightarrow> ('s :: linorder, 'm) registry \<Rightarrow> ('s registry_error, ('s, 'm) model_entry) outcome" where
  "validate arch reg =
     (case find_model arch reg of
        Some m \<Rightarrow> Ok m
      | None \<Rightarrow> Err (UnknownArch arch (remdups_adj (sort (concat (map supported_archs reg))))))"

lemma sorted_distinct_remdups_adj: "sorted xs \<Longrightarrow> distinct (remdups_adj xs)"
proof (induction xs rule: remdups_adj.induct)
  case (3 x y xs)
  then show ?case by (cases "x = y") (auto dest: order_antisym)
qed simp_all

subsection \<open>The properties\<close>

text \<open>
  The contiguous assignment gives every layer to exactly one rank: the ranks' layer lists, rank
  after rank, are the layers in order; each is the interval of \<open>ceil(layers / ranks)\<close> layers that
  starts at the rank's multiple, cut at the last layer; and there are at most \<open>ranks - 1\<close> hand-offs.
\<close>

theorem contiguous_partitions_layers:
  assumes "contiguous L R = Ok a" and "R < 2 ^ 32"
  shows "concat (map (layers_on a) [0..<R]) = [0..<L] \<and>
    layers_on a r = [r * layers_per_rank L R..<min L ((r + 1) * layers_per_rank L R)] \<and>
    hops (layer_to_rank a) \<le> R - 1"
proof (intro conjI)
  note sorted = contiguous_sorted [OF assms]
  have len: "length (layer_to_rank a) = L" using contiguous_Ok(4) [OF assms(1)] by simp
  show "concat (map (layers_on a) [0..<R]) = [0..<L]"
    unfolding layers_on_positions using concat_positions [OF sorted] len by simp
  show "layers_on a r = [r * layers_per_rank L R..<min L ((r + 1) * layers_per_rank L R)]"
    by (rule contiguous_layers_on [OF assms])
  show "hops (layer_to_rank a) \<le> R - 1"
  proof (cases "layer_to_rank a")
    case (Cons x xs)
    then have "last (x # xs) < R" using sorted(2) by (metis last_in_set list.distinct(1))
    then show ?thesis using hops_bound [of x xs] sorted(1) Cons by simp
  qed simp
qed

theorem contiguous_partitions_layers_witness:
  "\<exists>a. contiguous 41 4 = Ok a \<and> layers_on a 3 = [33..<41] \<and> concat (map (layers_on a) [0..<4]) = [0..<41]"
proof -
  obtain a where a: "contiguous 41 4 = Ok a" by (simp add: contiguous_def Let_def)
  have "layers_per_rank 41 4 = 11" by (simp add: layers_per_rank_def)
  then show ?thesis using contiguous_partitions_layers [OF a, of 3] a by auto
qed

text \<open>
  The documentation gives the last rank the remainder; when \<open>(ranks - 1) * ceil(layers / ranks)\<close>
  already reaches the layer count, the last rank, which runs the output head, owns no layer and the
  hand-offs are fewer than the documented \<open>ranks - 1\<close>.
\<close>

theorem contiguous_starves_last_rank:
  assumes "contiguous L R = Ok a" and "R < 2 ^ 32" and "L \<le> (R - 1) * layers_per_rank L R"
  shows "is_last a (R - 1) \<and> layers_on a (R - 1) = [] \<and> hops (layer_to_rank a) < R - 1"
proof -
  have R: "1 \<le> R" "R \<le> L" "la_num_ranks a = R" using contiguous_Ok [OF assms(1)] by simp_all
  have empty: "layers_on a (R - 1) = []"
    using assms(3) by (simp add: contiguous_layers_on [OF assms(1,2)])
  note sorted = contiguous_sorted [OF assms(1,2)]
  have len: "length (layer_to_rank a) = L" using contiguous_Ok(4) [OF assms(1)] by simp
  then obtain x xs where xs: "layer_to_rank a = x # xs" using R by (cases "layer_to_rank a") auto
  have "R - 1 \<notin> set (layer_to_rank a)"
    using empty by (auto simp: layers_on_positions positions_def filter_empty_conv in_set_conv_nth)
  then have "last (x # xs) \<noteq> R - 1" "last (x # xs) < R"
    using sorted(2) xs by (metis last_in_set list.distinct(1))+
  then have "hops (layer_to_rank a) < R - 1"
    using hops_bound [of x xs] sorted(1) xs R assms(3) by (cases "R = 1") auto
  then show ?thesis using empty R by (simp add: is_last_def)
qed

theorem contiguous_starves_last_rank_witness:
  "\<exists>a. contiguous 5 4 = Ok a \<and> is_last a 3 \<and> layers_on a 3 = []"
proof -
  obtain a where a: "contiguous 5 4 = Ok a" by (simp add: contiguous_def Let_def)
  have "layers_per_rank 5 4 = 2" by (simp add: layers_per_rank_def)
  then show ?thesis using contiguous_starves_last_rank [OF a] a by simp
qed

text \<open>
  With explicit counts every rank owns as many layers as it was given, and the ranks' layer
  lists, rank after rank, are all layers in order.
\<close>

theorem from_counts_exact:
  assumes "from_counts cs = Ok a" and "length cs < 2 ^ 32"
  shows "concat (map (layers_on a) [0..<length cs]) = [0..<sum_list cs] \<and>
    map (\<lambda>r. length (layers_on a r)) [0..<length cs] = cs"
proof -
  have a: "layer_to_rank a = concat (map (\<lambda>(r, c). replicate c (as_u32 r)) (enumerate 0 cs))"
    using assms(1) by (auto simp: from_counts_def split: if_splits)
  have "length cs \<le> 2 ^ 32" using assms(2) by (rule less_imp_le)
  note props = from_counts_list [OF this, folded a]
  show ?thesis
    unfolding layers_on_positions using props concat_positions [of "layer_to_rank a" "length cs"]
    by (auto intro: nth_equalityI)
qed

theorem from_counts_exact_witness:
  "\<exists>a. from_counts [2, 0, 3] = Ok a \<and> map (\<lambda>r. length (layers_on a r)) [0..<3] = [2, 0, 3]"
proof -
  obtain a where a: "from_counts [2, 0, 3] = Ok a" by (simp add: from_counts_def as_u32_def)
  have "length [2 :: nat, 0, 3] < 2 ^ 32" "length [2 :: nat, 0, 3] = 3" by simp_all
  then show ?thesis using from_counts_exact [OF a] a by (metis (no_types, lifting))
qed

text \<open>
  A lookup returns the model registered last among those that support the architecture, and
  fails exactly when none does; the error then lists every registered architecture once, sorted.
\<close>

theorem registry_last_wins:
  "validate arch (register m reg) =
     (if arch \<in> set (supported_archs m) then Ok m
      else case find_model arch reg of
        Some m' \<Rightarrow> Ok m'
      | None \<Rightarrow> Err (UnknownArch arch
          (sorted_list_of_set (set (supported_archs m) \<union> (\<Union>e \<in> set reg. set (supported_archs e))))))"
proof -
  let ?all = "concat (map supported_archs (reg @ [m]))"
  have dedup: "remdups_adj (sort ?all) = sorted_list_of_set (set ?all)"
  proof (rule sorted_distinct_set_unique)
    show "sorted (remdups_adj (sort ?all))" by (simp add: sorted_remdups_adj)
    show "distinct (remdups_adj (sort ?all))" by (simp add: sorted_distinct_remdups_adj)
  qed simp_all
  have "set ?all = set (supported_archs m) \<union> (\<Union>e \<in> set reg. set (supported_archs e))" by auto
  then show ?thesis
    using dedup by (auto simp: validate_def find_model_def register_def split: option.splits)
qed

end
