(* ===== verification/Sampling.thy ===== *)
theory Sampling
  imports FB_Prelude "HOL-Library.AList" "HOL-Library.Word" "HOL-Library.Multiset"
begin

unbundle bit_operations_syntax

section \<open>Token sampling\<close>

text \<open>
  \<^verbatim>\<open>crates/runtime/src/sampling.rs\<close>: penalties over the history, the logit bias, greedy choice,
  and the stochastic choice with its filters, drawn by a xoshiro generator.

  Single-precision arithmetic is a parameter, the operations the code uses: nothing is assumed of
  them unless a theorem says so, so a comparison may fail as it does on a NaN. The standard library's
  unstable sort, its selection and the iteration order of its hash map are parameters too.
\<close>

subsection \<open>Floats and configuration\<close>

record 'f float_ops =
  fl_zero :: 'f
  fl_one :: 'f
  fl_neg_inf :: 'f
  fl_of_nat :: "nat \<Rightarrow> 'f"
  fl_add :: "'f \<Rightarrow> 'f \<Rightarrow> 'f"
  fl_sub :: "'f \<Rightarrow> 'f \<Rightarrow> 'f"
  fl_mul :: "'f \<Rightarrow> 'f \<Rightarrow> 'f"
  fl_div :: "'f \<Rightarrow> 'f \<Rightarrow> 'f"
  fl_exp :: "'f \<Rightarrow> 'f"
  fl_sum :: "'f list \<Rightarrow> 'f"
  fl_lt :: "'f \<Rightarrow> 'f \<Rightarrow> bool"
  fl_le :: "'f \<Rightarrow> 'f \<Rightarrow> bool"
  fl_eq :: "'f \<Rightarrow> 'f \<Rightarrow> bool"

type_synonym token_id = nat
type_synonym 'f candidates = "(token_id \<times> 'f) list"

record 'f std_order =
  sort_desc :: "'f candidates \<Rightarrow> 'f candidates"
  select_top :: "nat \<Rightarrow> 'f candidates \<Rightarrow> 'f candidates"
  hash_order :: "(token_id \<times> nat) list \<Rightarrow> (token_id \<times> nat) list"

record 'f sampling =
  temperature :: 'f
  top_p :: "'f option"
  top_k :: "nat option"
  min_p :: "'f option"
  repetition_penalty :: 'f
  presence_penalty :: 'f
  frequency_penalty :: 'f
  logit_bias :: "(token_id \<times> 'f) list option"

definition greedy :: "'f float_ops \<Rightarrow> 'f sampling" where
  "greedy F = \<lparr>temperature = fl_zero F, top_p = None, top_k = None, min_p = None,
     repetition_penalty = fl_one F, presence_penalty = fl_zero F, frequency_penalty = fl_zero F,
     logit_bias = None\<rparr>"

definition is_greedy :: "'f float_ops \<Rightarrow> 'f sampling \<Rightarrow> bool" where
  "is_greedy F mode \<longleftrightarrow> fl_le F (temperature mode) (fl_zero F)"

definition has_penalties :: "'f float_ops \<Rightarrow> 'f sampling \<Rightarrow> bool" where
  "has_penalties F mode \<longleftrightarrow> \<not> fl_eq F (repetition_penalty mode) (fl_one F)
     \<or> \<not> fl_eq F (presence_penalty mode) (fl_zero F) \<or> \<not> fl_eq F (frequency_penalty mode) (fl_zero F)"

subsection \<open>The generator\<close>

record rng =
  s0 :: "64 word"
  s1 :: "64 word"
  s2 :: "64 word"
  s3 :: "64 word"

text \<open>One round of SplitMix64: the word that becomes a state word, and the carried value.\<close>

definition splitmix :: "64 word \<Rightarrow> 64 word \<times> 64 word" where
  "splitmix x =
     (let x = (x XOR drop_bit 30 x) * 0xBF58476D1CE4E5B9;
          x = (x XOR drop_bit 27 x) * 0x94D049BB133111EB in
      (x XOR drop_bit 31 x, x))"

definition rng_from_seed :: "64 word \<Rightarrow> rng" where
  "rng_from_seed seed =
     (let (a, x) = splitmix (seed + 0x9E3779B97F4A7C15);
          (b, x) = splitmix x; (c, x) = splitmix x; (d, x) = splitmix x in
      if a = 0 \<and> b = 0 \<and> c = 0 \<and> d = 0 then \<lparr>s0 = 1, s1 = b, s2 = c, s3 = d\<rparr>
      else \<lparr>s0 = a, s1 = b, s2 = c, s3 = d\<rparr>)"

definition next_u64 :: "rng \<Rightarrow> 64 word \<times> rng" where
  "next_u64 g =
     (let result = word_rotl 7 (s1 g * 5) * 9;
          t = push_bit 17 (s1 g);
          x2 = s2 g XOR s0 g;
          x3 = s3 g XOR s1 g;
          x1 = s1 g XOR x2;
          x0 = s0 g XOR x3;
          x2 = x2 XOR t;
          x3 = word_rotl 45 x3 in
      (result, \<lparr>s0 = x0, s1 = x1, s2 = x2, s3 = x3\<rparr>))"

definition next_f32 :: "'f float_ops \<Rightarrow> rng \<Rightarrow> 'f \<times> rng" where
  "next_f32 F g =
     (let (r, g') = next_u64 g in
      (fl_mul F (fl_of_nat F (unat (drop_bit 40 r))) (fl_div F (fl_one F) (fl_of_nat F (2 ^ 24))), g'))"

subsection \<open>Penalties and bias\<close>

definition penalise :: "'f float_ops \<Rightarrow> 'f sampling \<Rightarrow> nat \<Rightarrow> 'f \<Rightarrow> 'f" where
  "penalise F mode c l =
     (let l = (if \<not> fl_eq F (repetition_penalty mode) (fl_one F) \<and> fl_lt F (fl_zero F) (repetition_penalty mode)
               then if fl_lt F (fl_zero F) l then fl_div F l (repetition_penalty mode)
                    else fl_mul F l (repetition_penalty mode)
               else l);
          l = (if \<not> fl_eq F (presence_penalty mode) (fl_zero F) then fl_sub F l (presence_penalty mode) else l) in
      if \<not> fl_eq F (frequency_penalty mode) (fl_zero F)
      then fl_sub F l (fl_mul F (frequency_penalty mode) (fl_of_nat F c)) else l)"

fun apply_penalty_kernel ::
    "'f float_ops \<Rightarrow> 'f sampling \<Rightarrow> 'f list \<Rightarrow> (token_id \<times> nat) list \<Rightarrow> 'f list" where
  "apply_penalty_kernel F mode logits [] = logits"
| "apply_penalty_kernel F mode logits ((tok, c) # counts) =
     apply_penalty_kernel F mode
       (if tok \<ge> length logits then logits else logits[tok := penalise F mode c (logits ! tok)]) counts"

text \<open>
  The two ways to count the history: a hash map of counts (an association list here, read out in
  the map's order), and runs of a sorted copy.
\<close>

fun count_map :: "token_id list \<Rightarrow> (token_id \<times> nat) list \<Rightarrow> (token_id \<times> nat) list" where
  "count_map [] m = m"
| "count_map (t # ts) m =
     count_map ts (AList.update t ((case map_of m t of None \<Rightarrow> 0 | Some c \<Rightarrow> c) + 1) m)"

fun count_runs :: "token_id \<Rightarrow> nat \<Rightarrow> token_id list \<Rightarrow> (token_id \<times> nat) list" where
  "count_runs prev run [] = [(prev, run)]"
| "count_runs prev run (t # ts) =
     (if t = prev then count_runs prev (run + 1) ts else (prev, run) # count_runs t 1 ts)"

definition build_history_counts :: "token_id list \<Rightarrow> (token_id \<times> nat) list" where
  "build_history_counts history =
     (case sort history of [] \<Rightarrow> [] | t # ts \<Rightarrow> count_runs t 1 ts)"

definition apply_penalties ::
    "'f float_ops \<Rightarrow> 'f std_order \<Rightarrow> 'f list \<Rightarrow> token_id list \<Rightarrow> 'f sampling \<Rightarrow> 'f list" where
  "apply_penalties F D logits history mode =
     (if \<not> has_penalties F mode \<or> history = [] then logits
      else apply_penalty_kernel F mode logits (hash_order D (count_map history [])))"

definition apply_penalties_with_scratch ::
    "'f float_ops \<Rightarrow> 'f list \<Rightarrow> token_id list \<Rightarrow> 'f sampling \<Rightarrow> 'f list" where
  "apply_penalties_with_scratch F logits history mode =
     (if \<not> has_penalties F mode \<or> history = [] then logits
      else apply_penalty_kernel F mode logits (build_history_counts history))"

fun add_bias :: "'f float_ops \<Rightarrow> (token_id \<times> 'f) list \<Rightarrow> 'f list \<Rightarrow> 'f list" where
  "add_bias F [] logits = logits"
| "add_bias F ((i, b) # bias) logits =
     add_bias F bias (if i < length logits then logits[i := fl_add F (logits ! i) b] else logits)"

definition apply_logit_bias :: "'f float_ops \<Rightarrow> 'f list \<Rightarrow> 'f sampling \<Rightarrow> 'f list" where
  "apply_logit_bias F logits mode =
     (case logit_bias mode of None \<Rightarrow> logits | Some bias \<Rightarrow> add_bias F bias logits)"

subsection \<open>Choosing\<close>

fun argmax_from :: "'f float_ops \<Rightarrow> nat \<Rightarrow> token_id \<Rightarrow> 'f \<Rightarrow> 'f list \<Rightarrow> token_id" where
  "argmax_from F i best best_v [] = best"
| "argmax_from F i best best_v (v # vs) =
     (if fl_lt F best_v v then argmax_from F (i + 1) i v vs else argmax_from F (i + 1) best best_v vs)"

definition argmax :: "'f float_ops \<Rightarrow> 'f list \<Rightarrow> token_id" where
  "argmax F logits = argmax_from F 0 0 (fl_neg_inf F) logits"

text \<open>Temperature and softmax: the probabilities in vocabulary order.\<close>

definition softmax :: "'f float_ops \<Rightarrow> 'f sampling \<Rightarrow> 'f list \<Rightarrow> 'f candidates" where
  "softmax F mode logits =
     (let inv_t = (if fl_le F (temperature mode) (fl_zero F) then fl_one F
                   else fl_div F (fl_one F) (temperature mode));
          max_l = fold (\<lambda>v m. if fl_lt F m (fl_mul F v inv_t) then fl_mul F v inv_t else m) logits (fl_neg_inf F);
          ps = map (\<lambda>v. fl_exp F (fl_sub F (fl_mul F v inv_t) max_l)) logits;
          total = foldl (fl_add F) (fl_zero F) ps in
      zip [0..<length logits] (if fl_lt F (fl_zero F) total then map (\<lambda>p. fl_div F p total) ps else ps))"

text \<open>The number of entries up to the one where the cumulated probability reaches \<open>p\<close>.\<close>

fun top_p_len :: "'f float_ops \<Rightarrow> 'f \<Rightarrow> 'f \<Rightarrow> 'f list \<Rightarrow> nat" where
  "top_p_len F p cum [] = 0"
| "top_p_len F p cum (x # xs) =
     (let cum' = fl_add F cum x in if fl_le F p cum' then 1 else 1 + top_p_len F p cum' xs)"

definition apply_top_p :: "'f float_ops \<Rightarrow> 'f sampling \<Rightarrow> 'f list \<Rightarrow> nat \<Rightarrow> nat" where
  "apply_top_p F mode probs end =
     (case top_p mode of
        None \<Rightarrow> end
      | Some p \<Rightarrow> if fl_lt F p (fl_one F) \<and> fl_lt F (fl_zero F) p
          then top_p_len F p (fl_zero F) (take end probs) else end)"

text \<open>The min-p cut of the host filters; \<^verbatim>\<open>pairs[0]\<close> panics without candidates.\<close>

definition apply_min_p :: "'f float_ops \<Rightarrow> 'f sampling \<Rightarrow> 'f list \<Rightarrow> nat \<Rightarrow> (unit, nat) outcome" where
  "apply_min_p F mode probs end =
     (case min_p mode of
        None \<Rightarrow> Ok end
      | Some q \<Rightarrow>
          if \<not> fl_lt F (fl_zero F) q then Ok end
          else if probs = [] then Panic
          else (let threshold = fl_mul F (probs ! 0) q in
            case position (\<lambda>pv. fl_lt F pv threshold) (take end probs) of
              Some i \<Rightarrow> Ok (max i 1) | None \<Rightarrow> Ok (max end 1)))"

definition any_filter :: "'f sampling \<Rightarrow> bool" where
  "any_filter mode \<longleftrightarrow> top_k mode \<noteq> None \<or> top_p mode \<noteq> None \<or> min_p mode \<noteq> None"

definition partial_select :: "'f std_order \<Rightarrow> nat option \<Rightarrow> 'f candidates \<Rightarrow> 'f candidates" where
  "partial_select D k pairs =
     (case k of
        None \<Rightarrow> pairs
      | Some k \<Rightarrow>
          (let k = min k (length pairs) in
           if 0 < k \<and> k < length pairs then take k (select_top D k pairs) else pairs))"

definition top_k_auto_cap :: nat where
  "top_k_auto_cap = 2048"

definition effective_top_k :: "'f sampling \<Rightarrow> nat option" where
  "effective_top_k mode =
     (case top_k mode of
        Some k \<Rightarrow> Some k
      | None \<Rightarrow> if top_p mode \<noteq> None \<or> min_p mode \<noteq> None then Some top_k_auto_cap else None)"

text \<open>Sorting and the three cuts: the candidates that remain. \<open>k\<close> is the selection's bound.\<close>

definition filtered ::
    "'f float_ops \<Rightarrow> 'f std_order \<Rightarrow> 'f sampling \<Rightarrow> nat option \<Rightarrow> 'f candidates \<Rightarrow> (unit, 'f candidates) outcome" where
  "filtered F D mode k pairs =
     (if \<not> any_filter mode then Ok pairs
      else
        (let sorted = sort_desc D (partial_select D k pairs);
             end = length sorted;
             end = (case top_k mode of None \<Rightarrow> end | Some k \<Rightarrow> min end k);
             end = apply_top_p F mode (map snd sorted) end in
         obind (apply_min_p F mode (map snd sorted) end) (\<lambda>end. Ok (take end sorted))))"

fun pick_from :: "'f float_ops \<Rightarrow> 'f \<Rightarrow> 'f candidates \<Rightarrow> token_id option" where
  "pick_from F u [] = None"
| "pick_from F u ((i, p) # kept) =
     (let u' = fl_sub F u p in if fl_le F u' (fl_zero F) then Some i else pick_from F u' kept)"

text \<open>The multinomial pick, with the fallback to the last candidate.\<close>

definition pick :: "'f float_ops \<Rightarrow> 'f candidates \<Rightarrow> rng \<Rightarrow> token_id \<times> rng" where
  "pick F kept g =
     (let (x, g') = next_f32 F g; u = fl_mul F x (fl_sum F (map snd kept)) in
      case pick_from F u kept of
        Some i \<Rightarrow> (i, g')
      | None \<Rightarrow> (if kept = [] then 0 else fst (last kept), g'))"

definition sample_stochastic ::
    "'f float_ops \<Rightarrow> 'f std_order \<Rightarrow> 'f list \<Rightarrow> 'f sampling \<Rightarrow> rng \<Rightarrow> (unit, token_id \<times> rng) outcome" where
  "sample_stochastic F D logits mode g =
     obind (filtered F D mode (effective_top_k mode) (softmax F mode logits)) (\<lambda>kept. Ok (pick F kept g))"

definition sample ::
    "'f float_ops \<Rightarrow> 'f std_order \<Rightarrow> 'f list \<Rightarrow> 'f sampling \<Rightarrow> token_id list \<Rightarrow> rng
      \<Rightarrow> (unit, token_id \<times> rng) outcome" where
  "sample F D logits mode history g =
     (let scratch = apply_logit_bias F (apply_penalties F D logits history mode) mode in
      if is_greedy F mode then Ok (argmax F scratch, g) else sample_stochastic F D scratch mode g)"

subsection \<open>The per-session sampler\<close>

record 'f sampler =
  sm_rng :: rng
  logit_scratch :: "'f list"
  history_counts :: "(token_id \<times> nat) list"
  history_sorted :: "token_id list"

definition sampler_from_seed :: "64 word \<Rightarrow> 'f sampler" where
  "sampler_from_seed seed =
     \<lparr>sm_rng = rng_from_seed seed, logit_scratch = [], history_counts = [], history_sorted = []\<rparr>"

text \<open>The logits the sampler looks at, and the scratch buffers afterwards.\<close>

definition logits_view ::
    "'f float_ops \<Rightarrow> 'f list \<Rightarrow> 'f sampling \<Rightarrow> token_id list \<Rightarrow> 'f sampler \<Rightarrow> 'f list \<times> 'f sampler" where
  "logits_view F logits mode history sm =
     (let needs_penalties = has_penalties F mode \<and> history \<noteq> [];
          bias_active = (case logit_bias mode of None \<Rightarrow> False | Some b \<Rightarrow> b \<noteq> []) in
      if needs_penalties \<or> bias_active then
        (let sm1 = (if needs_penalties
               then sm\<lparr>logit_scratch := apply_penalties_with_scratch F logits history mode,
                       history_sorted := sort history, history_counts := build_history_counts history\<rparr>
               else sm\<lparr>logit_scratch := logits\<rparr>);
             view = apply_logit_bias F (logit_scratch sm1) mode in
         (view, sm1\<lparr>logit_scratch := view\<rparr>))
      else (logits, sm))"

definition sampler_sample ::
    "'f float_ops \<Rightarrow> 'f std_order \<Rightarrow> 'f list \<Rightarrow> 'f sampling \<Rightarrow> token_id list \<Rightarrow> 'f sampler
      \<Rightarrow> (unit, token_id \<times> 'f sampler) outcome" where
  "sampler_sample F D logits mode history sm =
     (let (view, sm') = logits_view F logits mode history sm in
      if is_greedy F mode then Ok (argmax F view, sm')
      else obind (sample_stochastic F D view mode (sm_rng sm'))
             (\<lambda>(tok, g). Ok (tok, sm'\<lparr>sm_rng := g\<rparr>)))"

text \<open>The pick from the GPU's top-k list, already sorted and normalised.\<close>

definition sample_from_topk ::
    "'f float_ops \<Rightarrow> token_id list \<Rightarrow> 'f list \<Rightarrow> 'f sampling \<Rightarrow> 'f sampler \<Rightarrow> token_id \<times> 'f sampler" where
  "sample_from_topk F ids probs mode sm =
     (if ids = [] then (0, sm)
      else if is_greedy F mode then (ids ! 0, sm)
      else
        (let end = apply_top_p F mode probs (length ids);
             end = (case min_p mode of
                 None \<Rightarrow> end
               | Some q \<Rightarrow>
                   if fl_lt F (fl_zero F) q \<and> probs \<noteq> []
                   then (case position (\<lambda>pv. fl_lt F pv (fl_mul F (probs ! 0) q)) (take end probs) of
                           Some i \<Rightarrow> max i 1 | None \<Rightarrow> end)
                   else end);
             kept = zip (take end ids) (take end probs);
             (x, g) = next_f32 F (sm_rng sm);
             u = fl_mul F x (fl_sum F (take end probs));
             sm' = sm\<lparr>sm_rng := g\<rparr> in
         case pick_from F u kept of
           Some i \<Rightarrow> (i, sm')
         | None \<Rightarrow> (if take end ids = [] then ids ! 0 else last (take end ids), sm')))"

subsection \<open>The distribution for speculative decoding\<close>

definition build_distribution ::
    "'f float_ops \<Rightarrow> 'f std_order \<Rightarrow> 'f list \<Rightarrow> 'f sampling \<Rightarrow> token_id list \<Rightarrow> (unit, 'f candidates) outcome" where
  "build_distribution F D logits mode history =
     (let view = apply_logit_bias F (apply_penalties F D logits history mode) mode in
      if is_greedy F mode then Ok [(argmax F view, fl_one F)]
      else if \<not> any_filter mode then Ok (softmax F mode view)
      else
        obind (filtered F D mode (top_k mode) (softmax F mode view)) (\<lambda>pairs.
          (let kept_sum = fl_sum F (map snd pairs) in
           Ok (if fl_lt F (fl_zero F) kept_sum
               then map (\<lambda>(i, p). (i, fl_div F p kept_sum)) pairs else pairs))))"

definition sample_from_distribution :: "'f float_ops \<Rightarrow> 'f candidates \<Rightarrow> rng \<Rightarrow> token_id \<times> rng" where
  "sample_from_distribution F dist g =
     (if dist = [] then (0, g) else if length dist = 1 then (fst (dist ! 0), g) else pick F dist g)"

end
