(* ===== verification/Sampling_Props.thy ===== *)
theory Sampling_Props
  imports Sampling
begin

section \<open>What holds of the sampler\<close>

text \<open>
  The two ways to count the history agree, the per-session sampler is the one-shot function, the
  generator never reaches its fixed point, the filters keep the most probable tokens, and where the
  distribution for speculative decoding parts from the sampler it is documented to mirror.
\<close>

subsection \<open>Counting the history\<close>

lemma map_of_count_map:
  "map_of (count_map ts m) x =
     (if x \<in> set ts then Some ((case map_of m x of None \<Rightarrow> 0 | Some c \<Rightarrow> c) + count_list ts x)
      else map_of m x)"
proof (induction ts arbitrary: m)
  case (Cons t ts)
  show ?case
    unfolding count_map.simps Cons.IH by (auto simp: update_conv' split: option.splits)
qed simp

lemma distinct_count_map: "distinct (map fst m) \<Longrightarrow> distinct (map fst (count_map ts m))"
  by (induction ts m rule: count_map.induct) (simp_all add: distinct_update)

lemma map_of_count_runs:
  assumes "sorted (prev # ts)"
  shows "map_of (count_runs prev run ts) x =
    (if x = prev then Some (run + count_list ts prev)
     else if x \<in> set ts then Some (count_list ts x) else None)"
  using assms
proof (induction prev run ts rule: count_runs.induct)
  case (2 prev run t ts)
  show ?case
  proof (cases "t = prev")
    case True
    then show ?thesis using 2 by auto
  next
    case False
    then have "prev \<notin> set ts" using "2.prems" by auto
    then show ?thesis using 2 False by auto
  qed
qed simp

lemma set_count_runs: "fst ` set (count_runs prev run ts) \<subseteq> insert prev (set ts)"
  by (induction prev run ts rule: count_runs.induct) auto

lemma distinct_count_runs: "sorted (prev # ts) \<Longrightarrow> distinct (map fst (count_runs prev run ts))"
proof (induction prev run ts rule: count_runs.induct)
  case (2 prev run t ts)
  show ?case
  proof (cases "t = prev")
    case False
    then have "prev \<notin> insert t (set ts)" using "2.prems" by auto
    then have "prev \<notin> fst ` set (count_runs t 1 ts)" using set_count_runs [of t 1 ts] by blast
    then show ?thesis using 2 False by auto
  qed (use 2 in auto)
qed simp

lemma history_counts_cases:
  obtains "history = []" "build_history_counts history = []"
  | t ts where "sort history = t # ts" "sorted (t # ts)" "build_history_counts history = count_runs t 1 ts"
proof (cases "sort history")
  case Nil
  then have "history = []" by (metis length_0_conv length_sort)
  then show ?thesis using that(1) by (simp add: build_history_counts_def)
next
  case (Cons t ts)
  moreover have "sorted (t # ts)" using Cons by (metis sorted_sort)
  ultimately show ?thesis using that(2) by (simp add: build_history_counts_def)
qed

lemma history_counts_distinct: "distinct (map fst (build_history_counts history))"
  by (cases rule: history_counts_cases [of history]) (simp_all add: distinct_count_runs)

lemma map_of_history_counts:
  "map_of (build_history_counts history) x =
     (if x \<in> set history then Some (count_list history x) else None)"
proof (cases rule: history_counts_cases [of history])
  case (2 t ts)
  have "count_list (t # ts) x = count_list history x" "set (t # ts) = set history"
    using 2(1) by (metis count_mset mset_sort, metis set_sort)
  then show ?thesis
    using map_of_count_runs [OF 2(2), of 1 x] 2(3) by (auto split: if_splits)
qed simp

lemma map_of_count_map_history:
  "map_of (count_map history []) x = map_of (build_history_counts history) x"
  by (simp add: map_of_count_map map_of_history_counts)

text \<open>The kernel looks the counts up; their order does not matter.\<close>

lemma kernel_length [simp]: "length (apply_penalty_kernel F mode logits counts) = length logits"
  by (induction F mode logits counts rule: apply_penalty_kernel.induct) simp_all

lemma kernel_nth:
  assumes "distinct (map fst counts)" and "i < length logits"
  shows "apply_penalty_kernel F mode logits counts ! i =
    (case map_of counts i of None \<Rightarrow> logits ! i | Some c \<Rightarrow> penalise F mode c (logits ! i))"
  using assms
proof (induction F mode logits counts rule: apply_penalty_kernel.induct)
  case (2 F mode logits tok c counts)
  have none: "map_of counts tok = None" using "2.prems"(1) by (auto simp: map_of_eq_None_iff)
  show ?case using 2 none by (auto split: option.splits)
qed simp

lemma kernel_map_of:
  assumes "distinct (map fst a)" and "distinct (map fst b)" and "map_of a = map_of b"
  shows "apply_penalty_kernel F mode logits a = apply_penalty_kernel F mode logits b"
  by (rule nth_equalityI) (simp_all add: kernel_nth assms)

text \<open>A hash map's iteration visits each entry once.\<close>

definition iterates :: "'f std_order \<Rightarrow> bool" where
  "iterates D \<longleftrightarrow> (\<forall>m. mset (hash_order D m) = mset m)"

lemma hash_order_counts:
  assumes "iterates D" and "distinct (map fst m)"
  shows "distinct (map fst (hash_order D m))" and "map_of (hash_order D m) = map_of m"
proof -
  have eq: "mset (hash_order D m) = mset m" using assms(1) by (simp add: iterates_def)
  then show d: "distinct (map fst (hash_order D m))"
    using assms(2) by (metis mset_eq_imp_distinct_iff mset_map)
  show "map_of (hash_order D m) = map_of m"
    using map_of_inject_set [OF d assms(2)] eq by (metis mset_eq_setD)
qed

lemma penalties_agree:
  assumes "iterates D"
  shows "apply_penalties F D logits history mode = apply_penalties_with_scratch F logits history mode"
proof -
  have d: "distinct (map fst (count_map history []))" by (simp add: distinct_count_map)
  have "apply_penalty_kernel F mode logits (hash_order D (count_map history [])) =
      apply_penalty_kernel F mode logits (build_history_counts history)"
    using hash_order_counts [OF assms d] history_counts_distinct map_of_count_map_history
    by (intro kernel_map_of) (simp_all add: fun_eq_iff)
  then show ?thesis by (simp add: apply_penalties_def apply_penalties_with_scratch_def)
qed

lemma add_bias_empty: "apply_logit_bias F logits mode = logits" if "logit_bias mode = Some []"
  using that by (simp add: apply_logit_bias_def)

subsection \<open>The generator\<close>

lemma shift_fix:
  assumes "(x :: 64 word) = push_bit 17 x"
  shows "x = 0"
proof -
  have it: "x = push_bit (17 * k) x" for k
  proof (induction k)
    case (Suc k)
    then show ?case using assms by (metis mult_Suc_right push_bit_push_bit)
  qed simp
  have "push_bit 68 x = 0"
    by (rule bit_eqI) (simp add: bit_push_bit_iff)
  then show ?thesis using it [of 4] by simp
qed

lemma xor_zero: "(a :: 64 word) XOR b = 0 \<Longrightarrow> a = b"
proof -
  assume "a XOR b = 0"
  then have "(a XOR b) XOR b = b" by simp
  then show "a = b" by (simp add: xor.assoc)
qed

definition zero_state :: "rng \<Rightarrow> bool" where
  "zero_state g \<longleftrightarrow> s0 g = 0 \<and> s1 g = 0 \<and> s2 g = 0 \<and> s3 g = 0"

lemma next_nonzero: "zero_state (snd (next_u64 g)) \<Longrightarrow> zero_state g"
proof -
  assume "zero_state (snd (next_u64 g))"
  then have e: "s0 g XOR (s3 g XOR s1 g) = 0" "s1 g XOR (s2 g XOR s0 g) = 0"
    "(s2 g XOR s0 g) XOR push_bit 17 (s1 g) = 0" "word_rotl 45 (s3 g XOR s1 g) = 0"
    by (simp_all add: zero_state_def next_u64_def Let_def)
  have "s3 g XOR s1 g = 0" using e(4) by (metis word_rot_lr word_rotx_0)
  then have s31: "s3 g = s1 g" and s0: "s0 g = 0" using e(1) xor_zero by auto
  then have "s1 g = s2 g" using e(2) xor_zero [of "s1 g" "s2 g"] by simp
  then have "s1 g = push_bit 17 (s1 g)" using e(3) s0 xor_zero by simp
  then show ?thesis using shift_fix s31 s0 \<open>s1 g = s2 g\<close> by (simp add: zero_state_def)
qed

lemma seed_nonzero: "\<not> zero_state (rng_from_seed seed)"
  by (auto simp: rng_from_seed_def zero_state_def split: prod.splits)

fun rng_steps :: "nat \<Rightarrow> rng \<Rightarrow> rng" where
  "rng_steps 0 g = g"
| "rng_steps (Suc n) g = rng_steps n (snd (next_u64 g))"

subsection \<open>Filters keep the most probable candidates\<close>

text \<open>
  The documented behaviour of the sort and the selection when the comparison is a strict weak order
  on the probabilities: permutations, the sorted one descending, the selected prefix not below the
  rest.
\<close>

definition orders :: "'f float_ops \<Rightarrow> 'f std_order \<Rightarrow> bool" where
  "orders F D \<longleftrightarrow>
     (\<forall>ps. mset (sort_desc D ps) = mset ps \<and>
        sorted_wrt (\<lambda>a b. \<not> fl_lt F (snd a) (snd b)) (sort_desc D ps)) \<and>
     (\<forall>k ps. k < length ps \<longrightarrow> mset (select_top D k ps) = mset ps \<and>
        (\<forall>a \<in> set (take k (select_top D k ps)). \<forall>b \<in> set (drop k (select_top D k ps)).
           \<not> fl_lt F (snd a) (snd b)))"

definition top_of :: "'f float_ops \<Rightarrow> 'f candidates \<Rightarrow> 'f candidates \<Rightarrow> bool" where
  "top_of F kept ps \<longleftrightarrow>
     (\<exists>rest. mset ps = mset kept + mset rest \<and>
        (\<forall>a \<in> set kept. \<forall>b \<in> set rest. \<not> fl_lt F (snd a) (snd b)))"

lemma top_of_refl: "top_of F ps ps"
  unfolding top_of_def by (intro exI [of _ "[]"]) simp

lemma top_of_select:
  assumes "orders F D"
  shows "top_of F (partial_select D k ps) ps"
proof (cases k)
  case None
  then show ?thesis by (simp add: partial_select_def top_of_refl)
next
  case (Some k)
  let ?k = "min k (length ps)" and ?xs = "select_top D (min k (length ps)) ps"
  show ?thesis
  proof (cases "0 < ?k \<and> ?k < length ps")
    case True
    have perm: "mset ?xs = mset ps" and
      dom: "\<forall>a \<in> set (take ?k ?xs). \<forall>b \<in> set (drop ?k ?xs). \<not> fl_lt F (snd a) (snd b)"
      using assms True unfolding orders_def by blast+
    have "mset ps = mset (take ?k ?xs) + mset (drop ?k ?xs)"
      by (metis perm append_take_drop_id mset_append)
    then show ?thesis using True dom Some unfolding top_of_def
      by (intro exI [of _ "drop ?k ?xs"]) (simp add: partial_select_def Let_def)
  qed (auto simp: Some partial_select_def Let_def top_of_refl)
qed

lemma top_of_sorted_take:
  assumes O: "orders F D" and top: "top_of F ps qs"
  shows "top_of F (take n (sort_desc D ps)) qs"
proof -
  let ?s = "sort_desc D ps"
  have perm: "mset ?s = mset ps" and srt: "sorted_wrt (\<lambda>a b. \<not> fl_lt F (snd a) (snd b)) ?s"
    using O unfolding orders_def by blast+
  obtain rest where rest: "mset qs = mset ps + mset rest"
    "\<forall>a \<in> set ps. \<forall>b \<in> set rest. \<not> fl_lt F (snd a) (snd b)"
    using top unfolding top_of_def by blast
  have split: "?s = take n ?s @ drop n ?s" by simp
  have "mset qs = mset (take n ?s) + mset (drop n ?s @ rest)"
    using rest(1) perm by (metis append_take_drop_id mset_append union_assoc)
  moreover have "\<not> fl_lt F (snd a) (snd b)" if "a \<in> set (take n ?s)" "b \<in> set (drop n ?s @ rest)" for a b
  proof (cases "b \<in> set rest")
    case True
    have "a \<in> set ps" using that(1) perm by (metis in_set_takeD mset_eq_setD)
    then show ?thesis using rest(2) True by blast
  next
    case False
    then show ?thesis using that srt split by (metis Un_iff set_append sorted_wrt_append)
  qed
  ultimately show ?thesis unfolding top_of_def by blast
qed

lemma top_p_len_le: "top_p_len F p cum xs \<le> length xs"
  by (induction F p cum xs rule: top_p_len.induct) (simp_all add: Let_def)

lemma top_p_len_pos: "xs \<noteq> [] \<Longrightarrow> 0 < top_p_len F p cum xs"
  by (cases xs) (simp_all add: Let_def)

lemma apply_top_p_le: "apply_top_p F mode probs n \<le> n"
  using top_p_len_le [of F _ _ "take n probs"]
  by (auto simp: apply_top_p_def split: option.split intro: order_trans)

lemma apply_top_p_pos: "0 < n \<Longrightarrow> probs \<noteq> [] \<Longrightarrow> 0 < apply_top_p F mode probs n"
  by (auto simp: apply_top_p_def top_p_len_pos split: option.split)

lemma position_less: "position P xs = Some i \<Longrightarrow> i < length xs"
  using position_Some by blast

lemma apply_min_p_cases:
  assumes "apply_min_p F mode probs n = Ok m"
  shows "m \<le> max n 1" and "0 < n \<Longrightarrow> 0 < m"
  using assms
  by (auto simp: apply_min_p_def Let_def split: option.splits if_splits dest!: position_less)

lemma apply_min_p_total: "probs \<noteq> [] \<Longrightarrow> \<exists>m. apply_min_p F mode probs n = Ok m"
  by (auto simp: apply_min_p_def Let_def split: option.split)

definition cut_at :: "'f sampling \<Rightarrow> nat \<Rightarrow> nat" where
  "cut_at mode n = (case top_k mode of None \<Rightarrow> n | Some k \<Rightarrow> min n k)"

lemma filtered_Ok:
  assumes "any_filter mode"
  shows "filtered F D mode k pairs = Ok kept \<longleftrightarrow>
    (let sorted = sort_desc D (partial_select D k pairs) in
     \<exists>m. apply_min_p F mode (map snd sorted) (apply_top_p F mode (map snd sorted) (cut_at mode (length sorted))) = Ok m
       \<and> kept = take m sorted)"
  using assms by (auto simp: filtered_def cut_at_def Let_def obind_Ok_iff)

lemma filtered_top_of:
  assumes "orders F D" and "filtered F D mode k pairs = Ok kept"
  shows "top_of F kept pairs"
proof (cases "any_filter mode")
  case True
  then show ?thesis
    using assms(2) top_of_sorted_take [OF assms(1) top_of_select [OF assms(1)]]
    by (auto simp: filtered_Ok Let_def)
next
  case False
  then show ?thesis using assms(2) by (simp add: filtered_def top_of_refl)
qed

lemma sorted_length: "orders F D \<Longrightarrow> length (sort_desc D ps) = length ps"
  unfolding orders_def by (metis mset_eq_length)

lemma partial_select_length:
  assumes "orders F D"
  shows "length (partial_select D (Some k) ps) = (if k = 0 then length ps else min k (length ps))"
proof (cases "0 < k \<and> k < length ps")
  case True
  then have "length (select_top D k ps) = length ps"
    using assms unfolding orders_def by (metis mset_eq_length)
  then show ?thesis using True by (simp add: partial_select_def Let_def)
qed (auto simp: partial_select_def Let_def)

lemma filtered_size:
  assumes O: "orders F D" and k: "effective_top_k mode = Some k" and pos: "0 < k" and ne: "pairs \<noteq> []"
  obtains kept where "filtered F D mode (effective_top_k mode) pairs = Ok kept" "kept \<noteq> []" "length kept \<le> k"
proof -
  let ?s = "sort_desc D (partial_select D (Some k) pairs)"
  have len: "length ?s = min k (length pairs)"
    using sorted_length [OF O] partial_select_length [OF O, of k pairs] pos by simp
  have ne': "map snd ?s \<noteq> []" using len pos ne by (auto simp: min_def split: if_splits)
  let ?c = "cut_at mode (length ?s)"
  have c: "?c \<le> k" "0 < ?c"
    using k len pos ne by (auto simp: cut_at_def effective_top_k_def split: option.splits if_splits)
  let ?t = "apply_top_p F mode (map snd ?s) ?c"
  obtain m where m: "apply_min_p F mode (map snd ?s) ?t = Ok m"
    using apply_min_p_total [OF ne'] by blast
  have "?t \<le> k" "0 < ?t"
    using c apply_top_p_le [of F mode "map snd ?s" ?c] apply_top_p_pos [OF c(2) ne'] by simp_all
  then have "m \<le> k" "0 < m" using apply_min_p_cases [OF m] pos by auto
  moreover have "any_filter mode"
    using k by (auto simp: any_filter_def effective_top_k_def split: option.splits if_splits)
  then have "filtered F D mode (effective_top_k mode) pairs = Ok (take m ?s)"
    using m k by (auto simp: filtered_Ok Let_def)
  ultimately show ?thesis using that [of "take m ?s"] ne' by simp
qed

lemma pick_from_mem: "pick_from F u kept = Some i \<Longrightarrow> i \<in> fst ` set kept"
  by (induction F u kept rule: pick_from.induct) (auto simp: Let_def split: if_splits)

lemma pick_mem: "kept \<noteq> [] \<Longrightarrow> fst (pick F kept g) \<in> fst ` set kept"
  by (auto simp: pick_def Let_def dest: pick_from_mem split: prod.splits option.splits)

lemma fst_softmax: "map fst (softmax F mode logits) = [0..<length logits]"
  by (simp add: softmax_def Let_def)

lemma top_of_fewer_above:
  assumes top: "top_of F kept ps" and d: "distinct (map fst ps)" and i: "i \<in> fst ` set kept"
    and irrefl: "\<And>x. \<not> fl_lt F x x"
  obtains p where "(i, p) \<in> set ps" "card {j. \<exists>q. (j, q) \<in> set ps \<and> fl_lt F p q} < length kept"
proof -
  obtain p where p: "(i, p) \<in> set kept" using i by auto
  obtain rest where ms: "mset ps = mset kept + mset rest"
    and dom: "\<forall>a \<in> set kept. \<forall>b \<in> set rest. \<not> fl_lt F (snd a) (snd b)"
    using top unfolding top_of_def by blast
  have sets: "set ps = set kept \<union> set rest" using ms by (metis mset_append mset_eq_setD set_append)
  have sub: "{j. \<exists>q. (j, q) \<in> set ps \<and> fl_lt F p q} \<subseteq> fst ` set kept - {i}"
  proof
    fix j assume "j \<in> {j. \<exists>q. (j, q) \<in> set ps \<and> fl_lt F p q}"
    then obtain q where q: "(j, q) \<in> set ps" "fl_lt F p q" by blast
    then have "(j, q) \<in> set kept" using dom p sets by force
    moreover have "j \<noteq> i"
      using q p sets d irrefl by (metis UnI1 eq_key_imp_eq_value)
    ultimately show "j \<in> fst ` set kept - {i}" by force
  qed
  have "card (fst ` set kept - {i}) < card (fst ` set kept)" using i by (intro psubset_card_mono) auto
  also have "\<dots> \<le> length kept" by (metis card_image_le card_length finite_set order_trans)
  finally have "card {j. \<exists>q. (j, q) \<in> set ps \<and> fl_lt F p q} < length kept"
    using card_mono [OF _ sub] by simp
  then show ?thesis using that [of p] p sets by blast
qed

subsection \<open>Greedy choice\<close>

text \<open>
  What a comparison without NaN gives: a strict weak order with the start value of the scan at the
  bottom.
\<close>

definition weak_order :: "'f float_ops \<Rightarrow> bool" where
  "weak_order F \<longleftrightarrow> (\<forall>x y. fl_lt F x y \<longrightarrow> \<not> fl_lt F y x) \<and>
     (\<forall>x y z. \<not> fl_lt F x y \<longrightarrow> \<not> fl_lt F y z \<longrightarrow> \<not> fl_lt F x z) \<and>
     (\<forall>x. \<not> fl_lt F x (fl_neg_inf F))"

lemma weak_orderD:
  assumes "weak_order F"
  shows "fl_lt F x y \<Longrightarrow> \<not> fl_lt F y x"
    and "\<not> fl_lt F x y \<Longrightarrow> \<not> fl_lt F y z \<Longrightarrow> \<not> fl_lt F x z"
    and "\<not> fl_lt F x (fl_neg_inf F)"
  using assms unfolding weak_order_def by blast+

definition best_so_far :: "'f float_ops \<Rightarrow> 'f list \<Rightarrow> token_id \<Rightarrow> 'f \<Rightarrow> bool" where
  "best_so_far F xs b bv \<longleftrightarrow> (\<forall>j < length xs. \<not> fl_lt F bv (xs ! j)) \<and> (\<forall>j < b. fl_lt F (xs ! j) bv) \<and>
     (if b < length xs then \<not> fl_lt F (xs ! b) bv else b = 0 \<and> xs = [] \<and> bv = fl_neg_inf F)"

lemma best_so_far_snoc:
  assumes so: "weak_order F" and best: "best_so_far F xs b bv"
  shows "fl_lt F bv v \<Longrightarrow> best_so_far F (xs @ [v]) (length xs) v"
    and "\<not> fl_lt F bv v \<Longrightarrow> best_so_far F (xs @ [v]) b bv"
proof -
  note ord = weak_orderD [OF so]
  assume gt: "fl_lt F bv v"
  have below: "fl_lt F (xs ! j) v" if "j < length xs" for j
    using best that gt ord(2) unfolding best_so_far_def by blast
  then show "best_so_far F (xs @ [v]) (length xs) v"
    using ord(1) by (auto simp: best_so_far_def nth_append less_Suc_eq)
next
  assume "\<not> fl_lt F bv v"
  then show "best_so_far F (xs @ [v]) b bv"
    using best weak_orderD(3) [OF so] by (auto simp: best_so_far_def nth_append less_Suc_eq split: if_splits)
qed

lemma argmax_from_best:
  assumes "weak_order F" and "best_so_far F pre best bv"
  shows "\<exists>bv'. best_so_far F (pre @ vs) (argmax_from F (length pre) best bv vs) bv'"
  using assms(2)
proof (induction vs arbitrary: pre best bv)
  case (Cons v vs)
  show ?case
  proof (cases "fl_lt F bv v")
    case True
    from Cons.IH [OF best_so_far_snoc(1) [OF assms(1) Cons.prems this]] True show ?thesis by simp
  next
    case False
    from Cons.IH [OF best_so_far_snoc(2) [OF assms(1) Cons.prems this]] False show ?thesis by simp
  qed
qed auto

text \<open>
  greedy choice. On logits without NaN the argmax is the first index of a largest logit.
\<close>

lemma argmax_first_maximum:
  assumes "weak_order F" and "logits \<noteq> []"
  shows "argmax F logits < length logits \<and>
    (\<forall>j < length logits. \<not> fl_lt F (logits ! argmax F logits) (logits ! j)) \<and>
    (\<forall>j < argmax F logits. fl_lt F (logits ! j) (logits ! argmax F logits))"
proof -
  have "best_so_far F [] 0 (fl_neg_inf F)" by (simp add: best_so_far_def)
  from argmax_from_best [OF assms(1) this, of logits] obtain bv
    where best: "best_so_far F logits (argmax F logits) bv" by (auto simp: argmax_def)
  note ord = weak_orderD [OF assms(1)]
  have b: "argmax F logits < length logits" "\<not> fl_lt F (logits ! argmax F logits) bv"
    using best assms(2) by (auto simp: best_so_far_def split: if_splits)
  have "\<not> fl_lt F (logits ! argmax F logits) (logits ! j)" if "j < length logits" for j
    using best that b(2) ord(2) unfolding best_so_far_def by blast
  moreover have "fl_lt F (logits ! j) (logits ! argmax F logits)" if "j < argmax F logits" for j
    using best that b(2) ord(2) unfolding best_so_far_def by blast
  ultimately show ?thesis using b(1) by blast
qed

text \<open>A decidable instance of the operations, on integers.\<close>

definition int_ops :: "int float_ops" where
  "int_ops = \<lparr>fl_zero = 0, fl_one = 1, fl_neg_inf = - 1000, fl_of_nat = int, fl_add = (+), fl_sub = (-),
     fl_mul = (*), fl_div = (div), fl_exp = (\<lambda>x. max 0 (10 + x)), fl_sum = sum_list,
     fl_lt = (\<lambda>x y. max (- 1000) x < max (- 1000) y), fl_le = (\<le>), fl_eq = (=)\<rparr>"

definition int_order :: "int std_order" where
  "int_order = \<lparr>sort_desc = sort_key (\<lambda>(i, p). - max (- 1000) p),
     select_top = (\<lambda>k. sort_key (\<lambda>(i, p). - max (- 1000) p)), hash_order = rev\<rparr>"

lemma int_weak_order: "weak_order int_ops"
  by (auto simp: weak_order_def int_ops_def)

lemma int_iterates: "iterates int_order"
  by (simp add: iterates_def int_order_def)

lemma int_orders: "orders int_ops int_order"
proof -
  have srt: "sorted_wrt (\<lambda>a b. \<not> fl_lt int_ops (snd a) (snd b)) (sort_key (\<lambda>(i, p). - max (- 1000) p) ps)"
    for ps :: "int candidates"
    using sorted_sort_key [of "\<lambda>(i, p). - max (- 1000) p" ps]
    by (auto simp: sorted_map int_ops_def case_prod_unfold intro: sorted_wrt_mono_rel [rotated])
  have "sorted_wrt (\<lambda>a b. \<not> fl_lt int_ops (snd a) (snd b))
      (take k (sort_key (\<lambda>(i, p). - max (- 1000) p) ps) @ drop k (sort_key (\<lambda>(i, p). - max (- 1000) p) ps))"
    for k and ps :: "int candidates"
    using srt [of ps] by simp
  then have "\<not> fl_lt int_ops (snd a) (snd b)"
    if "a \<in> set (take k (sort_key (\<lambda>(i, p). - max (- 1000) p) ps))"
      "b \<in> set (drop k (sort_key (\<lambda>(i, p). - max (- 1000) p) ps))" for a b k and ps :: "int candidates"
    using that unfolding sorted_wrt_append by blast
  then show ?thesis using srt by (simp add: orders_def int_order_def)
qed

lemma argmax_first_maximum_witness: "argmax int_ops [4, 9, 9, - 3] = 1 \<and> ([4, 9, 9, - 3] ! 0 :: int) < 9"
proof -
  have a: "argmax int_ops [4, 9, 9, - 3] = 1" by (simp add: argmax_def int_ops_def)
  from argmax_first_maximum [OF int_weak_order, of "[4, 9, 9, - 3]"] show ?thesis
    unfolding a by (auto simp: int_ops_def)
qed

subsection \<open>The properties\<close>

lemma indexed_mem:
  assumes "map fst ps = [0..<n]"
  shows "(j, q) \<in> set ps \<longleftrightarrow> j < n \<and> q = snd (ps ! j)"
proof -
  have n: "length ps = n" using assms by (metis length_map length_upt minus_nat.diff_0)
  have fst: "fst (ps ! i) = i" if "i < n" for i
    using arg_cong [OF assms, of "\<lambda>xs. xs ! i"] that n by simp
  show ?thesis
  proof
    assume "(j, q) \<in> set ps"
    then obtain i where "i < length ps" "ps ! i = (j, q)" by (auto simp: in_set_conv_nth)
    then show "j < n \<and> q = snd (ps ! j)" using fst [of i] n by auto
  next
    assume "j < n \<and> q = snd (ps ! j)"
    then show "(j, q) \<in> set ps" using fst [of j] n by (metis nth_mem prod.collapse)
  qed
qed

text \<open>
  C25: a stochastic choice stays among the most probable tokens. With a bound \<open>k\<close> in force (the
  request's, or the automatic one of 2048 when only top-p or min-p is set) the sampler returns a
  token of the vocabulary that fewer than \<open>k\<close> tokens beat in probability; it never aborts.
\<close>

lemma sampled_token_in_top_k:
  assumes "orders F D" and "\<forall>x. \<not> fl_lt F x x" and "logits \<noteq> []"
    and "effective_top_k mode = Some k" and "0 < k"
  shows "\<exists>tok g'. sample_stochastic F D logits mode g = Ok (tok, g') \<and> tok < length logits \<and>
    card {j. j < length logits \<and>
      fl_lt F (snd (softmax F mode logits ! tok)) (snd (softmax F mode logits ! j))} < k"
proof -
  let ?ps = "softmax F mode logits"
  have len: "length ?ps = length logits" by (metis fst_softmax length_map length_upt minus_nat.diff_0)
  have mem: "(j, q) \<in> set ?ps \<longleftrightarrow> j < length logits \<and> q = snd (?ps ! j)" for j q
    by (rule indexed_mem [OF fst_softmax])
  have "?ps \<noteq> []" using len assms(3) by auto
  from filtered_size [OF assms(1,4,5) this] obtain kept where
    kept: "filtered F D mode (effective_top_k mode) ?ps = Ok kept" "kept \<noteq> []" "length kept \<le> k" .
  obtain tok g' where pick: "pick F kept g = (tok, g')" by fastforce
  have mem': "tok \<in> fst ` set kept" using pick_mem [OF kept(2), of F g] pick by simp
  have d: "distinct (map fst ?ps)" by (simp add: fst_softmax)
  have "\<exists>p. (tok, p) \<in> set ?ps \<and> card {j. \<exists>q. (j, q) \<in> set ?ps \<and> fl_lt F p q} < length kept"
    by (rule top_of_fewer_above [OF filtered_top_of [OF assms(1) kept(1)] d mem' spec [OF assms(2)]]) blast
  then obtain p where p: "(tok, p) \<in> set ?ps"
    "card {j. \<exists>q. (j, q) \<in> set ?ps \<and> fl_lt F p q} < length kept"
    by blast
  have "{j. \<exists>q. (j, q) \<in> set ?ps \<and> fl_lt F p q} = {j. j < length logits \<and> fl_lt F p (snd (?ps ! j))}"
    by (simp add: mem)
  moreover have "tok < length logits" "p = snd (?ps ! tok)" using p(1) mem by simp_all
  ultimately have "card {j. j < length logits \<and> fl_lt F (snd (?ps ! tok)) (snd (?ps ! j))} < k"
    using p(2) kept(3) by simp
  moreover have "sample_stochastic F D logits mode g = Ok (tok, g')"
    using kept(1) pick by (simp add: sample_stochastic_def)
  ultimately show ?thesis using \<open>tok < length logits\<close> by blast
qed

definition demo_mode :: "int sampling" where
  "demo_mode = (greedy int_ops)\<lparr>temperature := 1, top_k := Some 2\<rparr>"

lemma sampled_token_in_top_k_witness:
  "\<exists>tok g'. sample_stochastic int_ops int_order [3, 9, 1] demo_mode (rng_from_seed 7) = Ok (tok, g') \<and> tok < 3"
proof -
  have "\<forall>x. \<not> fl_lt int_ops x x" by (simp add: int_ops_def)
  from sampled_token_in_top_k [OF int_orders this, of "[3, 9, 1]" demo_mode 2 "rng_from_seed 7"]
  show ?thesis by (auto simp: demo_mode_def effective_top_k_def greedy_def)
qed

text \<open>
  C26: the per-session sampler is the one-shot function. Whatever its scratch buffers hold from
  earlier calls, the sampler returns the token that \<^verbatim>\<open>sample\<close> returns for the same generator
  state, leaves the generator in the same state, and aborts on the same inputs.
\<close>

lemma sampler_agrees_with_sample:
  assumes "iterates D"
  shows "map_outcome id (map_prod id sm_rng) (sampler_sample F D logits mode history sm) =
    sample F D logits mode history (sm_rng sm)"
proof -
  have view: "fst (logits_view F logits mode history sm) =
      apply_logit_bias F (apply_penalties F D logits history mode) mode"
    "sm_rng (snd (logits_view F logits mode history sm)) = sm_rng sm"
    unfolding penalties_agree [OF assms]
    by (auto simp: logits_view_def Let_def apply_penalties_with_scratch_def apply_logit_bias_def
        split: option.splits)
  then show ?thesis
    by (cases "sample_stochastic F D (fst (logits_view F logits mode history sm)) mode (sm_rng sm)")
      (auto simp: sampler_sample_def sample_def Let_def split: prod.splits)
qed

definition demo_penalties :: "int sampling" where
  "demo_penalties = (greedy int_ops)\<lparr>repetition_penalty := 2, frequency_penalty := 3\<rparr>"

lemma sampler_agrees_with_sample_witness:
  "map_outcome id (map_prod id sm_rng)
     (sampler_sample int_ops int_order [12, 9, 10] demo_penalties [0, 2, 0] (sampler_from_seed 1)) =
   Ok (1, rng_from_seed 1)"
  unfolding sampler_agrees_with_sample [OF int_iterates]
  by (simp add: sample_def apply_penalties_def apply_logit_bias_def demo_penalties_def has_penalties_def
      is_greedy_def greedy_def int_ops_def int_order_def penalise_def argmax_def sampler_from_seed_def
      Let_def)

text \<open>
  the generator never sticks. However long a seeded generator runs, its state never becomes
  the all-zero state that would repeat itself for ever.
\<close>

lemma rng_never_zero: "\<not> zero_state (rng_steps n (rng_from_seed seed))"
proof -
  have "\<not> zero_state g \<Longrightarrow> \<not> zero_state (rng_steps n g)" for g
    by (induction n arbitrary: g) (use next_nonzero in auto)
  then show ?thesis using seed_nonzero by blast
qed

lemma pairs_of_distribution: "map fst (map (\<lambda>(i, p). (i, f p)) ps) = map fst ps"
  by (induction ps) auto

lemma fst_pair_case: "(\<lambda>x. fst (case x of (i, p) \<Rightarrow> (i, f p))) = fst"
  by (simp add: fun_eq_iff split: prod.split)

text \<open>
  the distribution for speculative decoding offers the sampler's candidates as long as a
  request sets top-k or no filter at all.
\<close>

lemma distribution_mirrors_sampler:
  assumes "effective_top_k mode = top_k mode" and "\<not> is_greedy F mode"
  shows "map_outcome id (map fst) (build_distribution F D logits mode history) =
    map_outcome id (map fst) (filtered F D mode (effective_top_k mode)
      (softmax F mode (apply_logit_bias F (apply_penalties F D logits history mode) mode)))"
proof (cases "any_filter mode")
  case True
  then show ?thesis
    using assms
    by (cases "filtered F D mode (top_k mode)
        (softmax F mode (apply_logit_bias F (apply_penalties F D logits history mode) mode))")
      (simp_all add: build_distribution_def Let_def pairs_of_distribution del: map_map)
qed (use assms in \<open>simp add: build_distribution_def filtered_def Let_def\<close>)

lemma distribution_mirrors_sampler_witness:
  "map_outcome id (map fst) (build_distribution int_ops int_order [3, 9] demo_mode []) =
   map_outcome id (map fst) (filtered int_ops int_order demo_mode (Some 2)
     (softmax int_ops demo_mode (apply_logit_bias int_ops (apply_penalties int_ops int_order [3, 9] [] demo_mode) demo_mode)))"
  using distribution_mirrors_sampler [of demo_mode int_ops int_order "[3, 9]" "[]"]
  by (simp add: demo_mode_def effective_top_k_def greedy_def is_greedy_def int_ops_def)

text \<open>A min-p cut that drops nothing leaves every candidate of the list it is given.\<close>

definition cuts_none :: "'f float_ops \<Rightarrow> 'f \<Rightarrow> 'f candidates \<Rightarrow> bool" where
  "cuts_none F q ps \<longleftrightarrow> (\<forall>a \<in> set ps. \<forall>b \<in> set ps. \<not> fl_lt F (snd a) (fl_mul F (snd b) q))"

lemma min_p_cuts_none:
  assumes O: "orders F D" and none: "cuts_none F q ps" and ne: "ps \<noteq> []"
    and modes: "top_k mode = None" "top_p mode = None" "min_p mode = Some q"
    and sub: "set (partial_select D k ps) \<subseteq> set ps"
  obtains kept where "filtered F D mode k ps = Ok kept" "length kept = length (partial_select D k ps)"
proof -
  let ?ps = "partial_select D k ps"
  let ?s = "sort_desc D ?ps"
  have len: "length ?s = length ?ps" by (rule sorted_length [OF O])
  have set: "set ?s = set ?ps" using O unfolding orders_def by (metis mset_eq_setD)
  have ne': "?ps \<noteq> []"
  proof (cases k)
    case (Some n)
    have "length (partial_select D (Some n) ps) \<noteq> 0"
      using partial_select_length [OF O, of n ps] ne by simp
    then show ?thesis using Some by fastforce
  qed (simp add: partial_select_def ne)
  have "position (\<lambda>pv. fl_lt F pv (fl_mul F (map snd ?s ! 0) q)) (map snd ?s) = None"
  proof (rule position_None_iff [THEN iffD2], intro ballI)
    fix pv assume "pv \<in> set (map snd ?s)"
    then obtain a where "a \<in> set ?s" "pv = snd a" by auto
    moreover have "?s ! 0 \<in> set ?s" "0 < length ?s" using ne' len by simp_all
    ultimately show "\<not> fl_lt F pv (fl_mul F (map snd ?s ! 0) q)"
      using none set sub unfolding cuts_none_def by auto
  qed
  then have "apply_min_p F mode (map snd ?s) (apply_top_p F mode (map snd ?s) (cut_at mode (length ?s))) = Ok (length ?s)"
    using modes ne' len by (auto simp: apply_min_p_def apply_top_p_def cut_at_def Let_def Suc_leI simp del: position_None_iff)
  then have "filtered F D mode k ps = Ok (take (length ?s) ?s)"
    using modes by (simp add: filtered_Ok any_filter_def Let_def)
  then show ?thesis using that [of ?s] len by simp
qed

text \<open>
  the distribution for speculative decoding departs from the sampler it mirrors: with a min-p
  cut alone that drops nothing, the sampler draws among at most 2048 candidates and the
  distribution holds the whole vocabulary.
\<close>

lemma distribution_not_capped:
  assumes "orders F D" and "top_k mode = None" and "top_p mode = None" and "min_p mode = Some q"
    and "\<not> is_greedy F mode" and "logits \<noteq> []" and "\<not> has_penalties F mode" and "logit_bias mode = None"
    and "cuts_none F q (softmax F mode logits)"
  shows "\<exists>dist kept. build_distribution F D logits mode history = Ok dist \<and> length dist = length logits \<and>
    filtered F D mode (effective_top_k mode) (softmax F mode logits) = Ok kept \<and>
    length kept = min 2048 (length logits)"
proof -
  let ?ps = "softmax F mode logits"
  have len: "length ?ps = length logits" by (metis fst_softmax length_map length_upt minus_nat.diff_0)
  have ne: "?ps \<noteq> []" using len assms(6) by auto
  have view: "apply_logit_bias F (apply_penalties F D logits history mode) mode = logits"
    using assms(7,8) by (simp add: apply_logit_bias_def apply_penalties_def)
  have "set (partial_select D None ?ps) \<subseteq> set ?ps" by (simp add: partial_select_def)
  from min_p_cuts_none [OF assms(1,9) ne assms(2-4) this] obtain whole where
    whole: "filtered F D mode None ?ps = Ok whole" "length whole = length logits"
    using len by (auto simp: partial_select_def)
  have "set (partial_select D (Some 2048) ?ps) \<subseteq> set ?ps"
    using top_of_select [OF assms(1), of "Some 2048" ?ps] unfolding top_of_def
    by (metis mset_append mset_eq_setD set_append sup_ge1)
  from min_p_cuts_none [OF assms(1,9) ne assms(2-4) this] obtain kept where
    kept: "filtered F D mode (Some 2048) ?ps = Ok kept" "length kept = min 2048 (length logits)"
    using len partial_select_length [OF assms(1), of 2048 ?ps] by auto
  have "effective_top_k mode = Some 2048"
    using assms(2-4) by (simp add: effective_top_k_def top_k_auto_cap_def)
  then show ?thesis
    using whole kept view assms(2,4,5) by (simp add: build_distribution_def any_filter_def Let_def)
qed

definition demo_min_p :: "int sampling" where
  "demo_min_p = (greedy int_ops)\<lparr>temperature := 1, min_p := Some 1\<rparr>"

lemma softmax_replicate: "\<exists>p. \<forall>x \<in> set (softmax F mode (replicate n v)). snd x = p"
  unfolding softmax_def Let_def map_replicate by (auto dest!: set_zip_rightD split: if_splits)

lemma distribution_not_capped_witness:
  "\<exists>dist kept. build_distribution int_ops int_order (replicate 3000 0) demo_min_p [] = Ok dist \<and>
    length dist = 3000 \<and>
    filtered int_ops int_order demo_min_p (effective_top_k demo_min_p) (softmax int_ops demo_min_p (replicate 3000 0)) = Ok kept \<and>
    length kept = 2048"
proof -
  let ?z = "replicate 3000 (0 :: int)"
  obtain p where p: "\<forall>x \<in> set (softmax int_ops demo_min_p ?z). snd x = p"
    using softmax_replicate [of int_ops demo_min_p 3000 0] by blast
  then have "cuts_none int_ops 1 (softmax int_ops demo_min_p ?z)"
    by (simp add: cuts_none_def int_ops_def)
  from distribution_not_capped [OF int_orders _ _ _ _ _ _ _ this, of "[]"] show ?thesis
    by (simp add: demo_min_p_def greedy_def is_greedy_def has_penalties_def int_ops_def)
qed

end
