(* ===== verification/Sampling_Params.thy ===== *)
theory Sampling_Params
  imports Sampling_Props Gguf_File Json_Schema
begin

section \<open>From a request to the sampler's configuration\<close>

text \<open>
  \<^verbatim>\<open>crates/server/src/state.rs\<close>: the knobs of a request, the defaults a GGUF file carries, and how
  \<^verbatim>\<open>SamplingParams::from_parts\<close> resolves them. Single-precision literals are an argument: \<open>lit n d\<close> is the float
  nearest \<open>n / d\<close>, the
  clock that seeds an unseeded request is one too. The theorems connect the resolution to the
  sampler: no request makes it abort or leave the vocabulary.
\<close>

subsection \<open>The model's defaults\<close>

record 'f model_defaults =
  md_temperature :: "'f option"
  md_top_p :: "'f option"
  md_top_k :: "nat option"
  md_min_p :: "'f option"
  md_repetition_penalty :: "'f option"

text \<open>The bits of a stored float, as the arithmetic's own values: 64-bit ones are narrowed.\<close>

record 'f float_bits =
  of_f32_bits :: "32 word \<Rightarrow> 'f"
  narrow_f64 :: "64 word \<Rightarrow> 'f"

fun as_f32 :: "'f float_bits \<Rightarrow> gvalue \<Rightarrow> 'f option" where
  "as_f32 B (VF32 v) = Some (of_f32_bits B v)"
| "as_f32 B (VF64 v) = Some (narrow_f64 B v)"
| "as_f32 B _ = None"

definition metadata_f32 :: "'f float_bits \<Rightarrow> gguf_file \<Rightarrow> octets \<Rightarrow> 'f option" where
  "metadata_f32 B g key = Option.bind (map_of (gf_metadata g) key) (as_f32 B)"

definition metadata_u32 :: "gguf_file \<Rightarrow> octets \<Rightarrow> nat option" where
  "metadata_u32 g key = Option.bind (map_of (gf_metadata g) key) as_u32"

definition model_defaults_from_gguf :: "'f float_bits \<Rightarrow> gguf_file \<Rightarrow> 'f model_defaults" where
  "model_defaults_from_gguf B g =
     \<lparr>md_temperature = metadata_f32 B g (ascii ''general.sampling.temp''),
      md_top_p = metadata_f32 B g (ascii ''general.sampling.top_p''),
      md_top_k = metadata_u32 g (ascii ''general.sampling.top_k''),
      md_min_p = metadata_f32 B g (ascii ''general.sampling.min_p''),
      md_repetition_penalty = metadata_f32 B g (ascii ''general.sampling.repetition_penalty'')\<rparr>"

subsection \<open>The request\<close>

record 'f sampling_knobs =
  kn_temperature :: "'f option"
  kn_top_p :: "'f option"
  kn_top_k :: "nat option"
  kn_min_p :: "'f option"
  kn_repetition_penalty :: "'f option"
  kn_presence_penalty :: "'f option"
  kn_frequency_penalty :: "'f option"
  kn_logit_bias :: "(token_id \<times> 'f) list option"

record generation_limits =
  gl_max_tokens :: "nat option"
  gl_seed :: "64 word option"
  gl_stop_strings :: "ustring list"

record 'n response_mode =
  rm_json_mode :: bool
  rm_json_schema :: "'n jvalue option"
  rm_collect_logprobs :: "nat option"
  rm_enable_thinking :: bool
  rm_reasoning_budget :: "nat option"
  rm_json_prime_bytes :: octets

record ('f, 'n) sampling_params =
  sp_sampling :: "'f sampling"
  sp_seed :: "64 word"
  sp_max_tokens :: nat
  sp_json_mode :: bool
  sp_json_schema :: "'n jvalue option"
  sp_stop_strings :: "ustring list"
  sp_collect_logprobs :: "nat option"
  sp_enable_thinking :: bool
  sp_reasoning_budget :: "nat option"
  sp_json_prime_bytes :: octets

text \<open>\<^verbatim>\<open>a.or(b)\<close>, \<^verbatim>\<open>a.unwrap_or(d)\<close> and \<^verbatim>\<open>a.filter(p)\<close>.\<close>

definition option_or :: "'a option \<Rightarrow> 'a option \<Rightarrow> 'a option" where
  "option_or a b = (case a of Some x \<Rightarrow> Some x | None \<Rightarrow> b)"

definition unwrap_or :: "'a option \<Rightarrow> 'a \<Rightarrow> 'a" where
  "unwrap_or a d = (case a of Some x \<Rightarrow> x | None \<Rightarrow> d)"

definition option_filter :: "('a \<Rightarrow> bool) \<Rightarrow> 'a option \<Rightarrow> 'a option" where
  "option_filter p a = (case a of Some x \<Rightarrow> if p x then Some x else None | None \<Rightarrow> None)"

definition resolve_temperature ::
    "'f float_ops \<Rightarrow> (nat \<Rightarrow> nat \<Rightarrow> 'f) \<Rightarrow> 'f option \<Rightarrow> bool \<Rightarrow> 'f model_defaults \<Rightarrow> 'f" where
  "resolve_temperature F lit requested json_mode defaults =
     (if json_mode \<and> requested = None then lit 2 10
      else unwrap_or (option_or requested (md_temperature defaults)) (fl_one F))"

definition resolve_repetition ::
    "'f float_ops \<Rightarrow> (nat \<Rightarrow> nat \<Rightarrow> 'f) \<Rightarrow> 'f option \<Rightarrow> 'f \<Rightarrow> 'f model_defaults \<Rightarrow> 'f" where
  "resolve_repetition F lit requested temp defaults =
     (let resolved = unwrap_or (option_or requested (md_repetition_penalty defaults)) (fl_one F) in
      if fl_lt F temp (lit 1 10) \<and> requested = None \<and> fl_eq F resolved (fl_one F)
      then lit 105 100 else resolved)"

definition resolve_sampling ::
    "'f float_ops \<Rightarrow> (nat \<Rightarrow> nat \<Rightarrow> 'f) \<Rightarrow> 'f sampling_knobs \<Rightarrow> bool \<Rightarrow> 'f model_defaults \<Rightarrow> 'f sampling" where
  "resolve_sampling F lit kn json_mode defaults =
     (let temp = resolve_temperature F lit (kn_temperature kn) json_mode defaults in
      \<lparr>temperature = temp,
       top_p = option_filter (\<lambda>p. fl_lt F p (fl_one F) \<and> fl_lt F (fl_zero F) p)
         (option_or (kn_top_p kn) (md_top_p defaults)),
       top_k = option_filter (\<lambda>k. k > 0) (option_or (kn_top_k kn) (md_top_k defaults)),
       min_p = option_filter (\<lambda>m. fl_lt F (fl_zero F) m) (option_or (kn_min_p kn) (md_min_p defaults)),
       repetition_penalty = resolve_repetition F lit (kn_repetition_penalty kn) temp defaults,
       presence_penalty = unwrap_or (kn_presence_penalty kn) (fl_zero F),
       frequency_penalty = unwrap_or (kn_frequency_penalty kn) (fl_zero F),
       logit_bias = kn_logit_bias kn\<rparr>)"

definition params_from_parts ::
    "'f float_ops \<Rightarrow> (nat \<Rightarrow> nat \<Rightarrow> 'f) \<Rightarrow> 64 word \<Rightarrow> 'f sampling_knobs \<Rightarrow> generation_limits
      \<Rightarrow> 'n response_mode \<Rightarrow> 'f model_defaults \<Rightarrow> ('f, 'n) sampling_params" where
  "params_from_parts F lit clock kn limits mode defaults =
     \<lparr>sp_sampling = resolve_sampling F lit kn (rm_json_mode mode) defaults,
      sp_seed = unwrap_or (gl_seed limits) clock,
      sp_max_tokens = min (unwrap_or (gl_max_tokens limits) 4096) 8192,
      sp_json_mode = rm_json_mode mode,
      sp_json_schema = rm_json_schema mode,
      sp_stop_strings = gl_stop_strings limits,
      sp_collect_logprobs = map_option (\<lambda>n. min n 20) (rm_collect_logprobs mode),
      sp_enable_thinking = rm_enable_thinking mode,
      sp_reasoning_budget = rm_reasoning_budget mode,
      sp_json_prime_bytes = rm_json_prime_bytes mode\<rparr>"

text \<open>The \<^verbatim>\<open>stop\<close> field: a string, or the first four non-empty strings of an array.\<close>

definition parse_stop :: "'n jvalue option \<Rightarrow> ustring list" where
  "parse_stop stop =
     (case stop of
        None \<Rightarrow> []
      | Some (jvalue.VString s) \<Rightarrow> if s \<noteq> [] then [s] else []
      | Some (jvalue.VArray vs) \<Rightarrow> take 4 (filter (\<lambda>s. s \<noteq> []) (List.map_filter as_str vs))
      | Some _ \<Rightarrow> [])"

subsection \<open>What holds of every resolved request\<close>

lemma option_filter_Some: "option_filter p a = Some x \<longleftrightarrow> a = Some x \<and> p x"
  by (auto simp: option_filter_def split: option.splits if_splits)

text \<open>
  stop sequences. Whatever the \<^verbatim>\<open>stop\<close> field holds, at most four sequences result, none empty,
  each a string of the field.
\<close>

lemma parse_stop_sane:
  "length (parse_stop stop) \<le> 4 \<and>
   set (parse_stop stop) \<subseteq> {s. s \<noteq> [] \<and> (stop = Some (jvalue.VString s) \<or>
     (\<exists>vs. stop = Some (jvalue.VArray vs) \<and> jvalue.VString s \<in> set vs))}"
proof -
  have str: "as_str v = Some s \<Longrightarrow> v = jvalue.VString s" for v :: "'a jvalue" and s
    by (cases v) simp_all
  have mem: "s \<in> set (List.map_filter as_str vs) \<Longrightarrow> jvalue.VString s \<in> set vs" for s and vs :: "'a jvalue list"
    by (force simp: List.map_filter_def dest: str)
  show ?thesis
    by (auto simp: parse_stop_def split: option.splits jvalue.splits dest!: in_set_takeD mem)
qed

lemma resolved_top_k: "top_k (resolve_sampling F lit kn json defaults) \<noteq> Some 0"
  by (simp add: resolve_sampling_def Let_def option_filter_Some)

text \<open>Any positive bound, or none, leaves the stochastic choice inside the vocabulary.\<close>

lemma stochastic_in_vocab:
  assumes O: "orders F D" and ne: "logits \<noteq> []" and k: "top_k mode \<noteq> Some 0"
  obtains tok g' where "sample_stochastic F D logits mode g = Ok (tok, g')" "tok < length logits"
proof -
  let ?ps = "softmax F mode logits"
  have "length (map fst ?ps) = length logits" unfolding fst_softmax by simp
  then have ps: "?ps \<noteq> []" using ne by auto
  obtain kept where kept: "filtered F D mode (effective_top_k mode) ?ps = Ok kept" "kept \<noteq> []"
  proof (cases "effective_top_k mode")
    case None
    then have "\<not> any_filter mode"
      by (auto simp: effective_top_k_def any_filter_def split: option.splits if_splits)
    then show ?thesis using that [of ?ps] ps by (simp add: filtered_def)
  next
    case (Some n)
    then have "0 < n"
      using k by (auto simp: effective_top_k_def top_k_auto_cap_def split: option.splits if_splits)
    from filtered_size [OF O Some this ps] that show ?thesis by blast
  qed
  obtain tok g' where pick: "pick F kept g = (tok, g')" by fastforce
  have "tok \<in> fst ` set kept" using pick_mem [OF kept(2), of F g] pick by simp
  also have "\<dots> \<subseteq> fst ` set ?ps"
    using filtered_top_of [OF O kept(1)] unfolding top_of_def
    by (metis image_mono mset_append mset_eq_setD set_append sup_ge1)
  also have "fst ` set ?ps = {..<length logits}"
    using fst_softmax [of F mode logits] by (metis atLeast_upt list.set_map)
  finally show ?thesis using that kept(1) pick by (simp add: sample_stochastic_def)
qed

lemma penalties_length [simp]: "length (apply_penalties F D logits history mode) = length logits"
  by (simp add: apply_penalties_def)

lemma add_bias_length [simp]: "length (add_bias F bias logits) = length logits"
  by (induction F bias logits rule: add_bias.induct) simp_all

lemma logit_bias_length [simp]: "length (apply_logit_bias F logits mode) = length logits"
  by (simp add: apply_logit_bias_def split: option.split)

lemma argmax_from_bound: "best < i + length vs \<Longrightarrow> argmax_from F i best bv vs < i + length vs"
proof (induction F i best bv vs rule: argmax_from.induct)
  case (2 F i best best_v v vs)
  then show ?case by (cases vs) (auto simp: less_Suc_eq split: if_splits)
qed simp


definition no_knobs :: "'f sampling_knobs" where
  "no_knobs = \<lparr>kn_temperature = None, kn_top_p = None, kn_top_k = None, kn_min_p = None,
     kn_repetition_penalty = None, kn_presence_penalty = None, kn_frequency_penalty = None,
     kn_logit_bias = None\<rparr>"

definition no_defaults :: "'f model_defaults" where
  "no_defaults = \<lparr>md_temperature = None, md_top_p = None, md_top_k = None, md_min_p = None,
     md_repetition_penalty = None\<rparr>"


text \<open>
  explicit values win. A temperature, a repetition penalty, or a top-k the client sends is the
  one the sampler gets, whatever the model file recommends; an explicit zero temperature is greedy
  under JSON mode too; the token budget never exceeds 8192 and log-probabilities are capped at 20.
\<close>

lemma explicit_knobs_win:
  "let p = params_from_parts F lit clock kn limits mode defaults in
    (\<forall>t. kn_temperature kn = Some t \<longrightarrow> temperature (sp_sampling p) = t) \<and>
    (\<forall>r. kn_repetition_penalty kn = Some r \<longrightarrow> repetition_penalty (sp_sampling p) = r) \<and>
    (\<forall>k. kn_top_k kn = Some k \<longrightarrow> top_k (sp_sampling p) = (if k = 0 then None else Some k)) \<and>
    sp_max_tokens p \<le> 8192 \<and> (\<forall>n. sp_collect_logprobs p = Some n \<longrightarrow> n \<le> 20)"
  by (auto simp: params_from_parts_def resolve_sampling_def resolve_temperature_def
      resolve_repetition_def option_or_def unwrap_or_def option_filter_def Let_def)

lemma explicit_knobs_win_witness:
  "temperature (sp_sampling (params_from_parts int_ops (\<lambda>n d. int (n div d)) 3 (no_knobs\<lparr>kn_temperature := Some 0\<rparr>)
      \<lparr>gl_max_tokens = Some 9000, gl_seed = None, gl_stop_strings = []\<rparr>
      \<lparr>rm_json_mode = True, rm_json_schema = None :: nat jvalue option, rm_collect_logprobs = None,
       rm_enable_thinking = False, rm_reasoning_budget = None, rm_json_prime_bytes = []\<rparr> no_defaults)) = 0"
  using explicit_knobs_win [unfolded Let_def] by (metis sampling_knobs.select_convs(1) sampling_knobs.update_convs(1) sampling_knobs.surjective)

text \<open>
  the documented neutral defaults are not what an unconfigured request gets: without any knob
  and without model defaults, JSON mode samples at temperature 0.2 instead of 1.0, and a request
  that only asks for temperature 0 runs with repetition penalty 1.05 instead of 1.0, so that greedy
  decoding is penalised.
\<close>

lemma neutral_defaults_overridden:
  assumes "fl_lt F (fl_zero F) (lit 1 10)" and "fl_eq F (fl_one F) (fl_one F)"
  shows "temperature (resolve_sampling F lit no_knobs True no_defaults) = lit 2 10 \<and>
    repetition_penalty (resolve_sampling F lit (no_knobs\<lparr>kn_temperature := Some (fl_zero F)\<rparr>) json no_defaults)
      = lit 105 100"
  using assms
  by (simp add: resolve_sampling_def resolve_temperature_def resolve_repetition_def no_knobs_def
      no_defaults_def option_or_def unwrap_or_def Let_def)

definition scaled_ops :: "int float_ops" where
  "scaled_ops = int_ops\<lparr>fl_one := 100\<rparr>"

lemma neutral_defaults_overridden_witness:
  "repetition_penalty (resolve_sampling scaled_ops (\<lambda>n d. int (100 * n div d))
     (no_knobs\<lparr>kn_temperature := Some (fl_zero scaled_ops)\<rparr>) False no_defaults) = 105"
  using neutral_defaults_overridden [of scaled_ops "\<lambda>n d. int (100 * n div d)" False]
  by (simp add: scaled_ops_def int_ops_def)

end
