(* ===== verification/Text_Scan.thy ===== *)
theory Text_Scan
  imports FB_Prelude "HOL-Library.Sublist"
begin

section \<open>Scanning UTF-8 text\<close>

text \<open>
  The parts of \<^verbatim>\<open>str\<close> that the tool-call parsers use, on the bytes of a text, and how a search in
  the text received so far relates to the same search once more text has arrived.
\<close>

subsection \<open>Character boundaries and whitespace\<close>

definition is_continuation :: "byte \<Rightarrow> bool" where
  "is_continuation b \<longleftrightarrow> (128::nat) \<le> of_char b \<and> of_char b < (192::nat)"

definition is_ascii :: "byte \<Rightarrow> bool" where
  "is_ascii b \<longleftrightarrow> of_char b < (128::nat)"

definition is_char_boundary :: "bytes \<Rightarrow> nat \<Rightarrow> bool" where
  "is_char_boundary s n \<longleftrightarrow> n = 0 \<or> n = length s \<or> n < length s \<and> \<not> is_continuation (s ! n)"

lemma boundary_0 [simp]: "is_char_boundary s 0"
  by (simp add: is_char_boundary_def)

lemma ascii_boundary: "\<forall>b \<in> set s. is_ascii b \<Longrightarrow> n \<le> length s \<Longrightarrow> is_char_boundary s n"
  using nth_mem [of n s] by (fastforce simp: is_char_boundary_def is_continuation_def is_ascii_def)

text \<open>The length of the whitespace character a text starts with (Unicode \<^verbatim>\<open>White_Space\<close>), or 0.\<close>

definition ws1 :: "byte \<Rightarrow> bool" where
  "ws1 a \<longleftrightarrow> a \<in> {CHR 0x09, CHR 0x0A, CHR 0x0B, CHR 0x0C, CHR 0x0D, CHR 0x20}"

definition ws2 :: "byte \<Rightarrow> byte \<Rightarrow> bool" where
  "ws2 a b \<longleftrightarrow> a = CHR 0xC2 \<and> (b = CHR 0x85 \<or> b = CHR 0xA0)"

definition ws3 :: "byte \<Rightarrow> byte \<Rightarrow> byte \<Rightarrow> bool" where
  "ws3 a b c \<longleftrightarrow>
     a = CHR 0xE1 \<and> b = CHR 0x9A \<and> c = CHR 0x80 \<or>
     a = CHR 0xE2 \<and> b = CHR 0x80 \<and>
       ((128::nat) \<le> of_char c \<and> of_char c \<le> (138::nat) \<or> c \<in> {CHR 0xA8, CHR 0xA9, CHR 0xAF}) \<or>
     a = CHR 0xE2 \<and> b = CHR 0x81 \<and> c = CHR 0x9F \<or>
     a = CHR 0xE3 \<and> b = CHR 0x80 \<and> c = CHR 0x80"

fun ws_len :: "bytes \<Rightarrow> nat" where
  "ws_len [] = 0"
| "ws_len [a] = (if ws1 a then 1 else 0)"
| "ws_len [a, b] = (if ws1 a then 1 else if ws2 a b then 2 else 0)"
| "ws_len (a # b # c # s) =
     (if ws1 a then 1 else if ws2 a b then 2 else if ws3 a b c then 3 else 0)"

lemma ws_not_ascii: "ws2 a b \<Longrightarrow> \<not> is_ascii a" "ws3 a b c \<Longrightarrow> \<not> is_ascii a"
  by (auto simp: ws2_def ws3_def is_ascii_def)

function trim_start :: "bytes \<Rightarrow> bytes" where
  "trim_start s = (if ws_len s = 0 then s else trim_start (drop (ws_len s) s))"
  by auto

lemma ws_len_le: "ws_len s \<le> length s"
  by (cases s rule: ws_len.cases) auto

termination trim_start
proof (relation "measure length")
  show "ws_len s \<noteq> 0 \<Longrightarrow> (drop (ws_len s) s, s) \<in> measure length" for s
    using ws_len_le [of s] by simp
qed simp

declare trim_start.simps [simp del]

text \<open>\<^verbatim>\<open>trim_end().len()\<close>: the least cut after which only whitespace characters follow.\<close>

fun trim_end_len :: "bytes \<Rightarrow> nat \<Rightarrow> nat" where
  "trim_end_len s 0 = 0"
| "trim_end_len s (Suc n) =
     (if ws_len (drop n (take (Suc n) s)) = 1 then trim_end_len s n
      else if 1 \<le> n \<and> ws_len (drop (n - 1) (take (Suc n) s)) = 2 then trim_end_len s (n - 1)
      else if 2 \<le> n \<and> ws_len (drop (n - 2) (take (Suc n) s)) = 3 then trim_end_len s (n - 2)
      else Suc n)"

definition trim_end :: "bytes \<Rightarrow> bytes" where
  "trim_end s = take (trim_end_len s (length s)) s"

definition trim :: "bytes \<Rightarrow> bytes" where
  "trim s = trim_end (trim_start s)"

lemma trim_start_Nil [simp]: "trim_start [] = []"
  by (simp add: trim_start.simps)

lemma trim_start_suffix: "suffix (trim_start s) s"
proof (induction s rule: trim_start.induct)
  case (1 s)
  show ?case
  proof (cases "ws_len s = 0")
    case False
    then show ?thesis using 1 suffix_drop suffix_order.trans by (subst trim_start.simps) fastforce
  qed (simp add: trim_start.simps)
qed

lemma trim_start_le: "length (trim_start s) \<le> length s"
  using trim_start_suffix by (rule suffix_length_le)

lemma trim_start_visible: "ws_len s = 0 \<Longrightarrow> trim_start s = s"
  by (simp add: trim_start.simps)

lemma trim_start_ws:
  "\<forall>b \<in> set ws. ws1 b \<Longrightarrow> trim_start (ws @ s) = trim_start s"
proof (induction ws)
  case (Cons b ws)
  have "ws_len (b # ws @ s) = 1" using Cons.prems by (cases "b # ws @ s" rule: ws_len.cases) simp_all
  then have "trim_start ((b # ws) @ s) = trim_start (ws @ s)" by (subst trim_start.simps) simp
  then show ?case using Cons by simp
qed simp

lemma ws_len_pair_cases:
  fixes st :: "bytes \<times> bytes"
  obtains t where "st = ([], t)" | a where "st = ([a], [])" | a b where "st = ([a], [b])"
    | a b c t where "st = ([a], b # c # t)" | a b where "st = ([a, b], [])"
    | a b c t where "st = ([a, b], c # t)" | a b c s t where "st = (a # b # c # s, t)"
proof -
  obtain s t where "st = (s, t)" by fastforce
  then show ?thesis using that by (cases s rule: ws_len.cases; cases t rule: ws_len.cases) auto
qed

lemma ws_len_append: "ws_len s \<noteq> 0 \<Longrightarrow> ws_len (s @ t) = ws_len s"
  by (cases "(s, t)" rule: ws_len_pair_cases) (auto split: if_splits)

lemma ws_len_ascii: "\<forall>b \<in> set s. is_ascii b \<Longrightarrow> s \<noteq> [] \<Longrightarrow> ws_len (s @ t) = ws_len s"
  by (cases "(s, t)" rule: ws_len_pair_cases) (auto dest: ws_not_ascii)

lemma trim_start_append_ascii:
  "\<forall>b \<in> set s. is_ascii b \<Longrightarrow>
     trim_start (s @ t) = (if trim_start s = [] then trim_start t else trim_start s @ t)"
proof (induction s rule: trim_start.induct)
  case (1 s)
  show ?case
  proof (cases "s = []")
    case False
    show ?thesis
    proof (cases "ws_len s = 0")
      case True
      then show ?thesis using False ws_len_ascii [OF 1(2) False, of t] by (simp add: trim_start.simps)
    next
      case ws: False
      have "trim_start (s @ t) = trim_start (drop (ws_len s) s @ t)"
        using ws ws_len_append [OF ws] ws_len_le [of s] by (subst trim_start.simps) simp
      moreover have "trim_start s = trim_start (drop (ws_len s) s)"
        using ws by (subst trim_start.simps) simp
      moreover have "\<forall>b \<in> set (drop (ws_len s) s). is_ascii b" using 1(2) by (auto dest: in_set_dropD)
      ultimately show ?thesis using 1(1) [OF ws] by simp
    qed
  qed (simp add: trim_start.simps)
qed

subsection \<open>Searching\<close>

fun find_sub :: "bytes \<Rightarrow> bytes \<Rightarrow> nat option" where
  "find_sub pat [] = (if pat = [] then Some 0 else None)"
| "find_sub pat (x # s) = (if prefix pat (x # s) then Some 0 else map_option Suc (find_sub pat s))"

lemma find_sub_Some:
  "find_sub pat s = Some p \<longleftrightarrow>
     p \<le> length s \<and> prefix pat (drop p s) \<and> (\<forall>q < p. \<not> prefix pat (drop q s))"
proof (induction s arbitrary: p)
  case (Cons x s)
  show ?case
  proof (cases p)
    case (Suc m)
    then show ?thesis using Cons [of m] by (auto simp: less_Suc_eq_0_disj)
  qed auto
qed auto

lemma find_sub_prefix: "prefix pat s \<Longrightarrow> find_sub pat s = Some 0"
  by (simp add: find_sub_Some)

lemma find_sub_None: "find_sub pat s = None \<longleftrightarrow> (\<forall>q \<le> length s. \<not> prefix pat (drop q s))"
proof (induction s)
  case (Cons x s)
  have "(\<forall>q \<le> length (x # s). \<not> prefix pat (drop q (x # s))) \<longleftrightarrow>
      \<not> prefix pat (x # s) \<and> (\<forall>q \<le> length s. \<not> prefix pat (drop q s))"
    by (metis drop0 drop_Suc_Cons length_Cons not0_implies_Suc Suc_le_mono zero_le)
  then show ?case using Cons by simp
qed simp

text \<open>A pattern found stays found where it is.\<close>

lemma prefix_drop_append:
  assumes "q + length pat \<le> length s"
  shows "prefix pat (drop q (s @ t)) \<longleftrightarrow> prefix pat (drop q s)"
proof -
  have "length pat \<le> length (drop q s)" using assms by simp
  moreover have "drop q (s @ t) = drop q s @ t" using assms by simp
  ultimately show ?thesis by (simp only: prefix_append) (auto dest: prefix_length_le)
qed

lemma find_sub_append: "find_sub pat s = Some p \<Longrightarrow> find_sub pat (s @ t) = Some p"
proof -
  assume f: "find_sub pat s = Some p"
  then have p: "p \<le> length s" "prefix pat (drop p s)" "\<forall>q < p. \<not> prefix pat (drop q s)"
    by (simp_all add: find_sub_Some)
  then have len: "p + length pat \<le> length s" using prefix_length_le [OF p(2)] by simp
  then have "prefix pat (drop p (s @ t))" using p(2) prefix_drop_append by blast
  moreover have "\<not> prefix pat (drop q (s @ t))" if "q < p" for q
    using that p(3) len prefix_drop_append [of q pat s t] by simp
  ultimately show ?thesis using p(1) by (simp add: find_sub_Some)
qed

lemma find_sub_bound: "find_sub pat s = Some p \<Longrightarrow> p + length pat \<le> length s"
  by (auto simp: find_sub_Some dest: prefix_length_le)

text \<open>
  The earliest of several tags, the first one listed on a tie:
  \<^verbatim>\<open>filter_map(|t| buf.find(t)).min_by_key(|p| p)\<close>.
\<close>

fun earliest_tag :: "bytes list \<Rightarrow> bytes \<Rightarrow> (nat \<times> bytes) option" where
  "earliest_tag [] s = None"
| "earliest_tag (t # ts) s =
     (case find_sub t s of
        None \<Rightarrow> earliest_tag ts s
      | Some p \<Rightarrow> (case earliest_tag ts s of
            None \<Rightarrow> Some (p, t)
          | Some (q, u) \<Rightarrow> if p \<le> q then Some (p, t) else Some (q, u)))"

text \<open>
  Tags as the parsers have them: an opening angle bracket and no other one, none a prefix of
  another.
\<close>

definition is_tag :: "bytes \<Rightarrow> bool" where
  "is_tag t \<longleftrightarrow> (\<exists>t'. t = CHR ''<'' # t' \<and> CHR ''<'' \<notin> set t')"

definition tag_list :: "bytes list \<Rightarrow> bool" where
  "tag_list ts \<longleftrightarrow> (\<forall>t \<in> set ts. is_tag t) \<and> (\<forall>t \<in> set ts. \<forall>u \<in> set ts. prefix t u \<longrightarrow> t = u)"

lemma tagsD:
  assumes "tag_list ts" and "t \<in> set ts"
  shows "is_tag t" and "t \<noteq> []" and "u \<in> set ts \<Longrightarrow> prefix t x \<Longrightarrow> prefix u x \<Longrightarrow> t = u"
proof -
  show t: "is_tag t" using assms unfolding tag_list_def by blast
  then show "t \<noteq> []" by (auto simp: is_tag_def)
  show "u \<in> set ts \<Longrightarrow> prefix t x \<Longrightarrow> prefix u x \<Longrightarrow> t = u"
    using assms prefix_same_cases [of t x u] unfolding tag_list_def by metis
qed

lemma earliest_None: "earliest_tag ts s = None \<longleftrightarrow> (\<forall>t \<in> set ts. find_sub t s = None)"
  by (induction ts s rule: earliest_tag.induct) (auto split: option.splits if_splits)

lemma earliest_Some_spec:
  "earliest_tag ts s = Some (p, t) \<Longrightarrow>
     t \<in> set ts \<and> find_sub t s = Some p \<and> (\<forall>u \<in> set ts. \<forall>q. find_sub u s = Some q \<longrightarrow> p \<le> q)"
proof (induction ts s arbitrary: p t rule: earliest_tag.induct)
  case (2 t' ts s)
  show ?case
  proof (cases "find_sub t' s")
    case None
    then have "earliest_tag ts s = Some (p, t)" using 2(3) by simp
    then show ?thesis using 2(1) [OF None] None by simp
  next
    case found: (Some p')
    show ?thesis
    proof (cases "earliest_tag ts s")
      case None
      then have "p = p'" "t = t'" using 2(3) found by simp_all
      then show ?thesis using None found by (auto simp: earliest_None)
    next
      case (Some qu)
      obtain q u where qu: "qu = (q, u)" by fastforce
      have rest: "u \<in> set ts" "find_sub u s = Some q" "\<forall>v \<in> set ts. \<forall>r. find_sub v s = Some r \<longrightarrow> q \<le> r"
        using 2(2) [OF found, of q u] Some qu by simp_all
      show ?thesis
      proof (cases "p' \<le> q")
        case True
        then have "p = p'" "t = t'" using 2(3) found Some qu by auto
        then show ?thesis using rest(3) True found by (auto intro: order_trans)
      next
        case False
        then have "p = q" "t = u" using 2(3) found Some qu by auto
        then show ?thesis using rest False found by auto
      qed
    qed
  qed
qed simp

definition no_tag_before :: "bytes list \<Rightarrow> bytes \<Rightarrow> nat \<Rightarrow> bool" where
  "no_tag_before ts s p \<longleftrightarrow> (\<forall>q < p. \<forall>u \<in> set ts. \<not> prefix u (drop q s))"

lemma earliest_Some:
  assumes "tag_list ts"
  shows "earliest_tag ts s = Some (p, t) \<longleftrightarrow> t \<in> set ts \<and> prefix t (drop p s) \<and> no_tag_before ts s p"
proof
  assume "earliest_tag ts s = Some (p, t)"
  from earliest_Some_spec [OF this]
  have t: "t \<in> set ts" "find_sub t s = Some p" "\<forall>u \<in> set ts. \<forall>q. find_sub u s = Some q \<longrightarrow> p \<le> q" by blast+
  have "\<not> prefix u (drop q s)" if "q < p" "u \<in> set ts" for q u
  proof
    assume "prefix u (drop q s)"
    moreover have "q \<le> length s" using that t(2) find_sub_bound by fastforce
    ultimately have "find_sub u s \<noteq> None" unfolding find_sub_None by blast
    then obtain r where r: "find_sub u s = Some r" by blast
    then have "r \<le> q" using \<open>prefix u (drop q s)\<close> unfolding find_sub_Some by (meson not_le)
    then show False using t(3) that r by fastforce
  qed
  then show "t \<in> set ts \<and> prefix t (drop p s) \<and> no_tag_before ts s p"
    using t(1,2) by (auto simp: find_sub_Some no_tag_before_def)
next
  assume a: "t \<in> set ts \<and> prefix t (drop p s) \<and> no_tag_before ts s p"
  have t: "t \<noteq> []" using tagsD(2) [OF assms] a by blast
  then have len: "p < length s" using a by (metis drop_all not_le prefix_Nil)
  have found: "find_sub t s = Some p" using a len by (auto simp: find_sub_Some no_tag_before_def)
  obtain q u where qu: "earliest_tag ts s = Some (q, u)"
    using a found earliest_None by (metis not_None_eq option.distinct(1) surj_pair)
  from earliest_Some_spec [OF qu] have u: "u \<in> set ts" "find_sub u s = Some q" "q \<le> p"
    using a found by blast+
  then have "q = p" using a unfolding no_tag_before_def find_sub_Some by (metis le_neq_implies_less)
  moreover have "u = t" using tagsD(3) [OF assms] a u \<open>q = p\<close> by (auto simp: find_sub_Some)
  ultimately show "earliest_tag ts s = Some (p, t)" using qu by simp
qed

lemma earliest_none: "earliest_tag ts s = None \<longleftrightarrow> no_tag_before ts s (Suc (length s))"
  by (auto simp: earliest_None find_sub_None no_tag_before_def less_Suc_eq_le)

lemma earliest_tag_bound:
  assumes "tag_list ts" and "earliest_tag ts s = Some (p, t)"
  shows "p + length t \<le> length s" and "length s - (p + length t) < length s"
proof -
  have "t \<noteq> []" "find_sub t s = Some p"
    using earliest_Some_spec [OF assms(2)] tagsD(2) [OF assms(1)] by blast+
  then show "p + length t \<le> length s" "length s - (p + length t) < length s"
    using find_sub_bound [of t s p] by (cases t; simp)+
qed

text \<open>
  An occurrence that the text received so far does not contain yet starts in its tail, and the tail
  is a proper prefix of the tag.
\<close>

lemma occurrence_cases:
  assumes "prefix t (drop q (s @ u))"
  shows "prefix t (drop q s) \<or> (length s < q + length t \<and> (q \<le> length s \<longrightarrow> strict_prefix (drop q s) t))"
proof (cases "q + length t \<le> length s")
  case True
  then show ?thesis using assms prefix_drop_append by blast
next
  case False
  have "strict_prefix (drop q s) t" if "q \<le> length s"
  proof -
    have "prefix t (drop q s @ u)" using assms that by simp
    then have "prefix t (drop q s) \<or> (\<exists>v. t = drop q s @ v \<and> prefix v u)" by (simp add: prefix_append)
    moreover have "\<not> prefix t (drop q s)" using False that by (auto dest: prefix_length_le)
    ultimately obtain v where "t = drop q s @ v" by blast
    moreover have "v \<noteq> []" using False that \<open>t = drop q s @ v\<close> by auto
    ultimately show ?thesis by (simp add: strict_prefix_def)
  qed
  then show ?thesis using False by simp
qed

lemma tag_no_inner: "is_tag t \<Longrightarrow> 0 < i \<Longrightarrow> i < length t \<Longrightarrow> t ! i \<noteq> CHR ''<''"
  by (auto simp: is_tag_def nth_Cons' in_set_conv_nth)

lemma tag_at: "is_tag t \<Longrightarrow> prefix t (drop p s) \<Longrightarrow> p < length s \<and> s ! p = CHR ''<''"
proof -
  assume "is_tag t" "prefix t (drop p s)"
  then obtain r where r: "drop p s = CHR ''<'' # r" by (auto simp: is_tag_def prefix_def)
  then have "p < length s" by (metis drop_all list.distinct(1) not_le)
  moreover from this have "drop p s ! 0 = s ! p" by simp
  ultimately show ?thesis using r by simp
qed

lemma no_tag_before_append:
  assumes ts: "tag_list ts" and t: "t \<in> set ts" "prefix t (drop p s)" and none: "no_tag_before ts s p"
  shows "no_tag_before ts (s @ r) p"
  unfolding no_tag_before_def
proof (intro allI impI ballI)
  fix q u assume q: "q < p" and u: "u \<in> set ts"
  have at: "p < length s" "s ! p = CHR ''<''" using tag_at [OF tagsD(1) [OF ts t(1)] t(2)] by auto
  show "\<not> prefix u (drop q (s @ r))"
  proof
    assume "prefix u (drop q (s @ r))"
    moreover have "\<not> prefix u (drop q s)" using none q u unfolding no_tag_before_def by blast
    ultimately have tail: "strict_prefix (drop q s) u" using occurrence_cases [of u q s r] q at(1) by auto
    then obtain v where v: "u = drop q s @ v" by (auto elim: strict_prefixE')
    have "p - q < length (drop q s)" using q at(1) by simp
    then have "u ! (p - q) = s ! p" using v q by (simp add: nth_append)
    moreover have "p - q < length u" using \<open>p - q < length (drop q s)\<close> v by simp
    ultimately show False using tag_no_inner [OF tagsD(1) [OF ts u], of "p - q"] q at(2) by simp
  qed
qed

lemma earliest_append:
  assumes "tag_list ts" and "earliest_tag ts s = Some (p, t)"
  shows "earliest_tag ts (s @ r) = Some (p, t)"
proof -
  have t: "t \<in> set ts" "prefix t (drop p s)" "no_tag_before ts s p"
    using assms by (simp_all add: earliest_Some)
  have "p \<le> length s" using tag_at [OF tagsD(1) [OF assms(1) t(1)] t(2)] by simp
  then have "prefix t (drop p (s @ r))" using t(2) by (simp add: prefix_append)
  then show ?thesis using t no_tag_before_append [OF assms(1) t] by (simp add: earliest_Some [OF assms(1)])
qed

lemma earliest_plain:
  assumes "tag_list ts" and "t \<in> set ts" and "CHR ''<'' \<notin> set pre"
  shows "earliest_tag ts (pre @ t @ r) = Some (length pre, t)"
proof -
  have "\<not> prefix u (drop q (pre @ t @ r))" if "q < length pre" "u \<in> set ts" for q u
  proof
    assume "prefix u (drop q (pre @ t @ r))"
    then have "(pre @ t @ r) ! q = CHR ''<''" using tag_at [OF tagsD(1) [OF assms(1) that(2)]] by blast
    then show False using that(1) assms(3) by (auto simp: nth_append in_set_conv_nth)
  qed
  then show ?thesis using assms by (simp add: earliest_Some no_tag_before_def)
qed

text \<open>The first occurrence of a tag behind a text that has none.\<close>

lemma find_sub_plain:
  assumes t: "is_tag t" and none: "find_sub t a = None"
  shows "find_sub t (a @ t @ r) = Some (length a)"
  unfolding find_sub_Some
proof (intro conjI allI impI notI)
  fix q assume q: "q < length a" and occ: "prefix t (drop q (a @ t @ r))"
  have "\<not> prefix t (drop q a)" using none q by (simp add: find_sub_None)
  then have "strict_prefix (drop q a) t" using occurrence_cases [OF occ] q by auto
  then have len: "length a - q < length t" by (auto dest: prefix_length_less)
  obtain zs where "drop q (a @ t @ r) = t @ zs" using occ by (auto simp: prefix_def simp del: drop_append)
  then have "t ! (length a - q) = drop q (a @ t @ r) ! (length a - q)" using len by (metis nth_append)
  also have "\<dots> = (t @ r) ! 0" using q by (simp add: nth_append)
  also have "\<dots> = CHR ''<''" using t by (auto simp: is_tag_def)
  finally show False using tag_no_inner [OF t _ len] q by simp
qed simp_all

lemma find_char_plain:
  assumes "c \<notin> set a"
  shows "find_sub [c] (a @ c # r) = Some (length a)"
  using assms by (induction a) auto

subsection \<open>What may be emitted before the text is complete\<close>

text \<open>Rounding an index down to a character boundary.\<close>

fun back_to_boundary :: "bytes \<Rightarrow> nat \<Rightarrow> nat" where
  "back_to_boundary s 0 = 0"
| "back_to_boundary s (Suc i) = (if is_char_boundary s (Suc i) then Suc i else back_to_boundary s i)"

definition align_down_char_boundary :: "bytes \<Rightarrow> nat \<Rightarrow> nat" where
  "align_down_char_boundary s n = back_to_boundary s (min n (length s))"

lemma back_to_boundary_le: "back_to_boundary s n \<le> n"
  by (induction s n rule: back_to_boundary.induct) auto

lemma align_down_le: "align_down_char_boundary s n \<le> n"
  unfolding align_down_char_boundary_def using back_to_boundary_le min.bounded_iff by blast

lemma align_down_le_length: "align_down_char_boundary s n \<le> length s"
  unfolding align_down_char_boundary_def using back_to_boundary_le min.bounded_iff by blast

lemma align_down_shrinks:
  "0 < align_down_char_boundary s n \<Longrightarrow> length s - align_down_char_boundary s n < length s"
  using align_down_le_length [of s n] by linarith

lemma align_down_all: "length s \<le> n \<Longrightarrow> align_down_char_boundary s n = length s"
  by (cases "length s") (simp_all add: align_down_char_boundary_def is_char_boundary_def)

text \<open>
  The leftmost position from which the rest of the buffer is a proper prefix of a is_tag; only the
  last \<^verbatim>\<open>max(tag.len()) - 1\<close> positions are tried.
\<close>

definition max_tail :: "bytes list \<Rightarrow> nat" where
  "max_tail ts = foldr max (map (\<lambda>t. length t - 1) ts) 0"

definition ambiguous_tail_start :: "bytes \<Rightarrow> bytes list \<Rightarrow> nat" where
  "ambiguous_tail_start s ts =
     (let n = length s in
      case List.find (\<lambda>p. is_char_boundary s p \<and>
             (\<exists>t \<in> set ts. n - p < length t \<and> prefix (drop p s) t)) [n - max_tail ts..<n] of
        Some p \<Rightarrow> p
      | None \<Rightarrow> n)"

lemma max_tail_ge: "t \<in> set ts \<Longrightarrow> length t - 1 \<le> max_tail ts"
  by (induction ts) (auto simp: max_tail_def)

lemma find_upt_least:
  assumes "List.find P [m..<n] = Some p"
  shows "p < n" and "P p" and "m \<le> q \<Longrightarrow> q < n \<Longrightarrow> P q \<Longrightarrow> p \<le> q"
proof -
  obtain i where i: "i < length [m..<n]" "P ([m..<n] ! i)" "p = [m..<n] ! i"
    "\<forall>j < i. \<not> P ([m..<n] ! j)"
    using assms unfolding find_Some_iff by blast
  show "p < n" "P p" using i by simp_all
  show "p \<le> q" if "m \<le> q" "q < n" "P q"
  proof (rule ccontr)
    assume "\<not> p \<le> q"
    then have "q - m < i" "[m..<n] ! (q - m) = q" using that i(1,3) by auto
    then show False using i(4) that(3) by fastforce
  qed
qed

lemma find_upt_le:
  assumes "m \<le> q" and "q < n" and "P q"
  shows "(case List.find P [m..<n] of Some p \<Rightarrow> p | None \<Rightarrow> n) \<le> q"
proof (cases "List.find P [m..<n]")
  case None
  then show ?thesis using assms by (auto simp: find_None_iff)
next
  case (Some p)
  then show ?thesis using find_upt_least(3) [OF Some] assms by simp
qed

lemma no_tag_before_mono: "no_tag_before ts s p \<Longrightarrow> k \<le> p \<Longrightarrow> no_tag_before ts s k"
  by (auto simp: no_tag_before_def)

lemma no_tag_before_subset: "no_tag_before ts s p \<Longrightarrow> set us \<subseteq> set ts \<Longrightarrow> no_tag_before us s p"
  unfolding no_tag_before_def by blast

text \<open>Where the tail of a tag-free buffer begins a tag, the tag is longer than the tail.\<close>

lemma tail_of_tag:
  assumes ts: "tag_list ts" and none: "earliest_tag ts s = None" and u: "u \<in> set ts"
    and occ: "prefix u (drop q (s @ r))" and q: "q < length s"
  shows "length s - q < length u" and "prefix (drop q s) u" and "s ! q = CHR ''<''"
    and "length s - max_tail ts \<le> q"
proof -
  have "\<not> prefix u (drop q s)" using none u q unfolding earliest_none no_tag_before_def by simp
  then have c: "length s < q + length u" "strict_prefix (drop q s) u"
    using occurrence_cases [OF occ] q by auto
  show "length s - q < length u" "prefix (drop q s) u" using c q by (auto simp: strict_prefix_def)
  have "(s @ r) ! q = CHR ''<''" using tag_at [OF tagsD(1) [OF ts u] occ] by blast
  then show "s ! q = CHR ''<''" using q by (simp add: nth_append)
  show "length s - max_tail ts \<le> q" using max_tail_ge [OF u] c(1) by linarith
qed

lemma ambiguous_tail_safe:
  assumes ts: "tag_list ts" and none: "earliest_tag ts s = None"
  shows "no_tag_before ts (s @ r) (ambiguous_tail_start s ts)"
  unfolding no_tag_before_def
proof (intro allI impI ballI notI)
  fix q u assume q: "q < ambiguous_tail_start s ts" and u: "u \<in> set ts" and occ: "prefix u (drop q (s @ r))"
  have len: "ambiguous_tail_start s ts \<le> length s"
    by (auto simp: ambiguous_tail_start_def Let_def dest: find_upt_least(1) split: option.split)
  then have "q < length s" using q by simp
  note tail = tail_of_tag [OF ts none u occ this]
  have "is_char_boundary s q" using tail(3) \<open>q < length s\<close> by (simp add: is_char_boundary_def is_continuation_def)
  then have "ambiguous_tail_start s ts \<le> q"
    unfolding ambiguous_tail_start_def Let_def
    using tail(1,2,4) u \<open>q < length s\<close> by (intro find_upt_le) auto
  then show False using q by simp
qed

text \<open>Searching what is left of a text once a tag-free part of it has gone.\<close>

lemma earliest_drop:
  assumes ts: "tag_list ts" and none: "no_tag_before ts s k"
  shows "earliest_tag ts (drop k s) = map_option (\<lambda>(p, t). (p - k, t)) (earliest_tag ts s)"
proof (cases "earliest_tag ts s")
  case None
  then have "no_tag_before ts (drop k s) (Suc (length (drop k s)))"
    unfolding earliest_none no_tag_before_def
    by (metis drop_drop add.commute drop_all drop_eq_Nil2 le_add_diff_inverse2 length_drop less_Suc_eq_le nat_le_linear)
  then show ?thesis using None earliest_none by (metis option.map(1))
next
  case (Some pt)
  obtain p t where pt: "pt = (p, t)" by fastforce
  have t: "t \<in> set ts" "prefix t (drop p s)" "no_tag_before ts s p"
    using Some pt by (simp_all add: earliest_Some [OF ts])
  have "k \<le> p" using none t unfolding no_tag_before_def by (meson not_le)
  have "no_tag_before ts (drop k s) (p - k)"
    using t(3) \<open>k \<le> p\<close> unfolding no_tag_before_def by (simp add: less_diff_conv)
  then have "earliest_tag ts (drop k s) = Some (p - k, t)"
    using t \<open>k \<le> p\<close> by (simp add: earliest_Some [OF ts])
  then show ?thesis using Some pt by simp
qed

lemma earliest_drop_ge:
  assumes "tag_list ts" and "no_tag_before ts s k" and "earliest_tag ts s = Some (p, t)"
  shows "k \<le> p"
  using assms by (auto simp: earliest_Some no_tag_before_def not_less dest: leI)

subsection \<open>ASCII texts\<close>

definition ascii_text :: "bytes \<Rightarrow> bool" where
  "ascii_text s \<longleftrightarrow> list_all is_ascii s"

lemma ascii_Nil [simp]: "ascii_text []"
  by (simp add: ascii_text_def)

lemma ascii_append [simp]: "ascii_text (a @ b) \<longleftrightarrow> ascii_text a \<and> ascii_text b"
  by (simp add: ascii_text_def)

lemma ascii_take: "ascii_text s \<Longrightarrow> ascii_text (take n s)"
  by (metis append_take_drop_id ascii_append)

lemma ascii_set: "ascii_text s \<longleftrightarrow> (\<forall>b \<in> set s. is_ascii b)"
  by (simp add: ascii_text_def list_all_iff)

lemma ascii_back_to_boundary: "ascii_text s \<Longrightarrow> n \<le> length s \<Longrightarrow> back_to_boundary s n = n"
  by (cases n) (simp_all add: ascii_set ascii_boundary)

text \<open>
  Trimming a text of which only a part has arrived: enough that it is ASCII up to its first
  visible character.
\<close>

definition lead_ws :: "bytes \<Rightarrow> nat" where
  "lead_ws s = length s - length (trim_start s)"

lemma drop_lead_ws: "drop (lead_ws s) s = trim_start s"
proof -
  obtain zs where zs: "s = zs @ trim_start s" using trim_start_suffix [of s] by (auto simp: suffix_def)
  then have "lead_ws s = length zs" unfolding lead_ws_def by (metis add_diff_cancel_right' length_append)
  then show ?thesis using zs by (metis append_eq_conv_conj)
qed

lemma trim_start_split:
  assumes ascii: "ascii_text (take (Suc (lead_ws (s @ t))) (s @ t))"
  shows "trim_start (s @ t) = (if trim_start s = [] then trim_start t else trim_start s @ t)"
proof (cases "length s \<le> Suc (lead_ws (s @ t))")
  case True
  then have "ascii_text s" using ascii by (simp add: take_append)
  then show ?thesis using trim_start_append_ascii [of s t] by (simp add: ascii_set)
next
  case False
  let ?a = "take (Suc (lead_ws (s @ t))) s" and ?b = "drop (Suc (lead_ws (s @ t))) s"
  have a: "\<forall>b \<in> set ?a. is_ascii b" using ascii False by (simp add: ascii_set)
  have "trim_start ?a \<noteq> []"
  proof
    assume "trim_start ?a = []"
    then have "trim_start (?a @ ?b @ t) = trim_start (?b @ t)" using trim_start_append_ascii [OF a] by presburger
    moreover have "?a @ ?b @ t = s @ t" by (metis append.assoc append_take_drop_id)
    ultimately have "length (trim_start (s @ t)) \<le> length (s @ t) - Suc (lead_ws (s @ t))"
      using trim_start_le [of "?b @ t"] False by simp
    moreover have "lead_ws (s @ t) < length (s @ t)" using False by simp
    ultimately show False using trim_start_le [of "s @ t"] by (simp add: lead_ws_def)
  qed
  then have "trim_start (?a @ ?b) = trim_start ?a @ ?b" "trim_start (?a @ ?b @ t) = trim_start ?a @ ?b @ t"
    using trim_start_append_ascii [OF a] by presburger+
  then have "trim_start s = trim_start ?a @ ?b" "trim_start (s @ t) = trim_start ?a @ ?b @ t"
    by (metis append_take_drop_id, metis append.assoc append_take_drop_id)
  then show ?thesis using \<open>trim_start ?a \<noteq> []\<close> by simp
qed

lemma earliest_single: "earliest_tag [t] s = map_option (\<lambda>p. (p, t)) (find_sub t s)"
  by (simp split: option.split)

end
