(* ===== verification/Tool_Events.thy ===== *)
theory Tool_Events
  imports Text_Scan "HOL-Library.AList"
begin

section \<open>Tool-call events and the parser interface\<close>

text \<open>
  \<^verbatim>\<open>crates/server/src/tool_call_parser/mod.rs\<close>: the events a streaming parser emits, their
  normal form, the assembly of a response from them, the choice of a format, and the contract of
  \<^verbatim>\<open>ToolCallParser\<close> as a locale: feeding the same text in different chunks gives the same events.
  Texts are their UTF-8 bytes.
\<close>

subsection \<open>Events\<close>

datatype parser_event =
    TextDelta bytes
  | ThinkDelta bytes
  | ToolCallOpen nat bytes
  | ToolCallArgumentsDelta nat bytes
  | ToolCallClose nat

text \<open>The three pairs that \<^verbatim>\<open>coalesce\<close> joins.\<close>

fun merge_events :: "parser_event \<Rightarrow> parser_event \<Rightarrow> parser_event option" where
  "merge_events (TextDelta a) (TextDelta s) = Some (TextDelta (a @ s))"
| "merge_events (ThinkDelta a) (ThinkDelta s) = Some (ThinkDelta (a @ s))"
| "merge_events (ToolCallArgumentsDelta i a) (ToolCallArgumentsDelta j s) =
     (if i = j then Some (ToolCallArgumentsDelta i (a @ s)) else None)"
| "merge_events _ _ = None"

definition push_event :: "parser_event list \<Rightarrow> parser_event \<Rightarrow> parser_event list" where
  "push_event out e =
     (if out = [] then [e]
      else case merge_events (last out) e of Some m \<Rightarrow> butlast out @ [m] | None \<Rightarrow> out @ [e])"

definition coalesce :: "parser_event list \<Rightarrow> parser_event list" where
  "coalesce events = foldl push_event [] events"

text \<open>Assembling the response: the content and the calls. The pending calls are a map by index.\<close>

record tool_call =
  tc_id :: bytes
  tc_kind :: bytes
  tc_name :: bytes
  tc_arguments :: bytes

record assembly =
  as_content :: bytes
  as_calls :: "tool_call list"
  as_pending :: "nat \<Rightarrow> (bytes \<times> bytes) option"

fun split_event :: "assembly \<Rightarrow> parser_event \<Rightarrow> assembly" where
  "split_event a (TextDelta s) = a\<lparr>as_content := as_content a @ s\<rparr>"
| "split_event a (ThinkDelta s) = a"
| "split_event a (ToolCallOpen i name) =
     a\<lparr>as_pending := (as_pending a)(i \<mapsto>
        (case as_pending a i of Some (_, args) \<Rightarrow> (name, args) | None \<Rightarrow> (name, [])))\<rparr>"
| "split_event a (ToolCallArgumentsDelta i arguments) =
     a\<lparr>as_pending := (as_pending a)(i \<mapsto>
        (case as_pending a i of Some (name, args) \<Rightarrow> (name, args @ arguments) | None \<Rightarrow> ([], arguments)))\<rparr>"
| "split_event a (ToolCallClose i) =
     (let (name, args) = (case as_pending a i of Some na \<Rightarrow> na | None \<Rightarrow> ([], [])) in
      a\<lparr>as_pending := (as_pending a)(i := None),
        as_calls := as_calls a @
          [\<lparr>tc_id = ''call_'' @ show_dec i, tc_kind = ''function'', tc_name = name, tc_arguments = args\<rparr>]\<rparr>)"

definition split_events :: "parser_event list \<Rightarrow> bytes \<times> tool_call list" where
  "split_events events =
     (let a = foldl split_event \<lparr>as_content = [], as_calls = [], as_pending = (\<lambda>_. None)\<rparr> events in
      (as_content a, as_calls a))"

subsection \<open>Formats\<close>

datatype tool_call_format = Hermes | QwenCoder | Gemma4

definition format_from_explicit :: "bytes \<Rightarrow> (bytes, tool_call_format) outcome" where
  "format_from_explicit s =
     (if s = ''hermes'' then Ok Hermes
      else if s = ''qwen3_coder'' \<or> s = ''qwen3-coder'' \<or> s = ''qwen_coder'' then Ok QwenCoder
      else if s = ''gemma4'' \<or> s = ''gemma-4'' then Ok Gemma4
      else Err s)"

definition force_prefix :: "tool_call_format \<Rightarrow> bytes option \<Rightarrow> bytes" where
  "force_prefix fmt forced_name =
     (case fmt of
        Hermes \<Rightarrow>
          (case forced_name of
             Some n \<Rightarrow> ''<tool_call>'' @ [CHR 0x0A] @ ''{'' @ [dquote] @ ''name'' @ [dquote] @ '': '' @
               [dquote] @ n @ [dquote] @ '', '' @ [dquote] @ ''arguments'' @ [dquote] @ '': ''
           | None \<Rightarrow> ''<tool_call>'' @ [CHR 0x0A] @ ''{'' @ [dquote] @ ''name'' @ [dquote] @ '': '' @ [dquote])
      | QwenCoder \<Rightarrow>
          (case forced_name of
             Some n \<Rightarrow> ''<tool_call>'' @ [CHR 0x0A] @ ''<function='' @ n @ ''>'' @ [CHR 0x0A]
           | None \<Rightarrow> ''<tool_call>'' @ [CHR 0x0A] @ ''<function='')
      | Gemma4 \<Rightarrow>
          (case forced_name of
             Some n \<Rightarrow> ''<|tool_call>call:'' @ n @ ''{''
           | None \<Rightarrow> ''<|tool_call>call:''))"

definition choose_format :: "bytes option \<Rightarrow> tool_call_format \<Rightarrow> (bytes, tool_call_format) outcome" where
  "choose_format request_override server_default =
     (case request_override of
        None \<Rightarrow> Ok server_default
      | Some s \<Rightarrow> if s = ''auto'' \<or> s = [] then Ok server_default else format_from_explicit s)"

definition contains :: "bytes \<Rightarrow> bytes \<Rightarrow> bool" where
  "contains s pat \<longleftrightarrow> find_sub pat s \<noteq> None"

definition detect_format_from_template :: "bytes \<Rightarrow> tool_call_format" where
  "detect_format_from_template src =
     (if contains src ''<|tool_call>'' \<and> contains src (''<|'' @ [dquote] @ ''|>'') then Gemma4
      else if contains src ''<function='' \<or> contains src ''<parameter='' then QwenCoder
      else Hermes)"

subsection \<open>The normal form\<close>

lemma merge_assoc:
  "merge_events a b = Some ab \<Longrightarrow> merge_events b c = Some bc \<Longrightarrow>
     \<exists>m. merge_events ab c = Some m \<and> merge_events a bc = Some m"
  by (cases a; cases b; cases c) (auto split: if_splits)

lemma merge_kind:
  "merge_events b c = Some bc \<Longrightarrow> merge_events a b = None \<longleftrightarrow> merge_events a bc = None"
  by (cases a; cases b; cases c) (auto split: if_splits)

lemma push_merged:
  assumes "merge_events b c = Some bc"
  shows "push_event (push_event out b) c = push_event out bc"
proof (cases "out = []")
  case True
  then show ?thesis using assms by (simp add: push_event_def)
next
  case False
  show ?thesis
  proof (cases "merge_events (last out) b")
    case None
    then have "merge_events (last out) bc = None" using merge_kind [OF assms] by blast
    then show ?thesis using None False assms by (simp add: push_event_def)
  next
    case (Some ab)
    from merge_assoc [OF Some assms] obtain m where
      "merge_events ab c = Some m" "merge_events (last out) bc = Some m" by blast
    then show ?thesis using Some False by (simp add: push_event_def)
  qed
qed

lemma foldl_push_event: "foldl push_event out (push_event xs e) = push_event (foldl push_event out xs) e"
proof (cases "xs = []")
  case False
  then obtain ys l where xs: "xs = ys @ [l]" by (metis rev_exhaust)
  show ?thesis
  proof (cases "merge_events l e")
    case (Some m)
    then have "push_event xs e = ys @ [m]" by (simp add: xs push_event_def)
    then show ?thesis using push_merged [OF Some] by (simp add: xs)
  qed (simp add: xs push_event_def [of "ys @ [l]"])
qed (simp add: push_event_def)

lemma foldl_coalesce: "foldl push_event out (coalesce es) = foldl push_event out es"
  by (induction es rule: rev_induct) (simp_all add: coalesce_def foldl_push_event)

lemma coalesce_Nil [simp]: "coalesce [] = []"
  by (simp add: coalesce_def)

lemma coalesce_idem [simp]: "coalesce (coalesce es) = coalesce es"
  using foldl_coalesce [of "[]" es] by (simp add: coalesce_def)

lemma coalesce_cong:
  assumes "coalesce xs = coalesce xs'" and "coalesce ys = coalesce ys'"
  shows "coalesce (xs @ ys) = coalesce (xs' @ ys')"
proof -
  have app: "coalesce (as @ bs) = foldl push_event (coalesce as) (coalesce bs)" for as bs
    by (metis coalesce_def foldl_append foldl_coalesce)
  show ?thesis unfolding app assms ..
qed

lemma coalesce_right: "coalesce ys = coalesce ys' \<Longrightarrow> coalesce (xs @ ys) = coalesce (xs @ ys')"
  by (rule coalesce_cong) simp

lemma coalesce_left: "coalesce xs = coalesce xs' \<Longrightarrow> coalesce (xs @ ys) = coalesce (xs' @ ys)"
  by (rule coalesce_cong) simp_all

lemma split_event_merged:
  "merge_events a b = Some m \<Longrightarrow> split_event (split_event st a) b = split_event st m"
  by (cases a; cases b) (auto split: if_splits option.splits)

lemma foldl_split_push:
  "foldl split_event st (push_event xs e) = split_event (foldl split_event st xs) e"
proof (cases "xs = []")
  case False
  then obtain ys l where "xs = ys @ [l]" by (metis rev_exhaust)
  then show ?thesis by (auto simp: push_event_def split_event_merged split: option.split)
qed (simp add: push_event_def)

lemma foldl_split_coalesce: "foldl split_event st (coalesce es) = foldl split_event st es"
  by (induction es rule: rev_induct) (simp_all add: coalesce_def foldl_split_push)

text \<open>
  joining adjacent events changes nothing of the response: content and calls assembled from the
  normal form are those assembled from the raw stream.
\<close>

lemma split_events_coalesce: "split_events (coalesce es) = split_events es"
  by (simp add: split_events_def foldl_split_coalesce)

lemma split_events_cong: "coalesce es = coalesce es' \<Longrightarrow> split_events es = split_events es'"
  by (metis foldl_split_coalesce split_events_def)

lemma split_call:
  assumes "as_pending a i = None"
  shows "foldl split_event a [ToolCallOpen i name, ToolCallArgumentsDelta i args, ToolCallClose i] =
    a\<lparr>as_calls := as_calls a @
      [\<lparr>tc_id = ''call_'' @ show_dec i, tc_kind = ''function'', tc_name = name, tc_arguments = args\<rparr>]\<rparr>"
  using assms by (intro assembly.equality) (auto simp: Let_def)

subsection \<open>The contract of a parser\<close>

text \<open>A turn: the decoder's chunks, then the flush.\<close>

fun run_parser ::
    "('p \<Rightarrow> bytes \<Rightarrow> (unit, parser_event list \<times> 'p) outcome) \<Rightarrow> ('p \<Rightarrow> (unit, parser_event list \<times> 'p) outcome)
      \<Rightarrow> 'p \<Rightarrow> bytes list \<Rightarrow> (unit, parser_event list) outcome" where
  "run_parser push finish p [] = obind (finish p) (\<lambda>(es, _). Ok es)"
| "run_parser push finish p (c # cs) =
     obind (push p c) (\<lambda>(es, p'). obind (run_parser push finish p' cs) (\<lambda>es'. Ok (es @ es')))"

text \<open>
  The laws: there is a meaning of the text yet to come such that a push emits the beginning of it
  and keeps the rest, and the flush emits what is left. \<open>clean\<close> is the class of texts for which a
  parser keeps the contract.
\<close>

locale tool_call_parser =
  fixes push :: "'p \<Rightarrow> bytes \<Rightarrow> (unit, parser_event list \<times> 'p) outcome"
    and finish :: "'p \<Rightarrow> (unit, parser_event list \<times> 'p) outcome"
    and meaning :: "'p \<Rightarrow> bytes \<Rightarrow> parser_event list"
    and clean :: "'p \<Rightarrow> bytes \<Rightarrow> bool"
  assumes push_meaning: "clean p (c @ rest) \<Longrightarrow>
      \<exists>es p'. push p c = Ok (es, p') \<and> clean p' rest \<and> coalesce (es @ meaning p' rest) = coalesce (meaning p (c @ rest))"
    and finish_meaning: "clean p [] \<Longrightarrow> \<exists>es p'. finish p = Ok (es, p') \<and> coalesce es = coalesce (meaning p [])"
begin

lemma run_meaning:
  "clean p (concat cs) \<Longrightarrow>
     \<exists>es. run_parser push finish p cs = Ok es \<and> coalesce es = coalesce (meaning p (concat cs))"
proof (induction cs arbitrary: p)
  case Nil
  then show ?case using finish_meaning [of p] by auto
next
  case (Cons c cs)
  then obtain es p' where step: "push p c = Ok (es, p')" "clean p' (concat cs)"
    "coalesce (es @ meaning p' (concat cs)) = coalesce (meaning p (c @ concat cs))"
    using push_meaning [of p c "concat cs"] by auto
  from Cons.IH [OF step(2)] obtain es' where
    rest: "run_parser push finish p' cs = Ok es'" "coalesce es' = coalesce (meaning p' (concat cs))" by blast
  have "coalesce (es @ es') = coalesce (meaning p (c @ concat cs))"
    using coalesce_right [OF rest(2)] step(3) by simp
  then show ?case using step(1) rest(1) by simp
qed

lemma chunks_agree:
  assumes "clean p text" and "concat cs = text" and "concat ds = text"
  obtains es es' where "run_parser push finish p cs = Ok es" "run_parser push finish p ds = Ok es'"
    "coalesce es = coalesce es'" "split_events es = split_events es'"
  using run_meaning [of p cs] run_meaning [of p ds] assms split_events_cong by metis

end

subsection \<open>Text up to a tag\<close>

text \<open>The tags both formats share.\<close>

definition tool_open :: bytes where "tool_open = ''<tool_call>''"
definition tool_close :: bytes where "tool_close = ''</tool_call>''"
definition think_open :: bytes where "think_open = ''<think>''"
definition think_close :: bytes where "think_close = ''</think>''"

lemma tags_think_close: "tag_list [think_close]"
  by (simp add: tag_list_def is_tag_def think_close_def)

text \<open>A step answers whether it made progress, what it emitted, and the parser afterwards.\<close>

type_synonym 'p step_result = "(unit, bool \<times> parser_event list \<times> 'p) outcome"


text \<open>
  What the reference parsers do in free text and in reasoning, where both formats agree: emit up to
  the earliest tag and go on behind it. \<open>ok s pos\<close> says that the part emitted is in the class.
\<close>

definition until_tag ::
    "(bytes \<Rightarrow> nat \<Rightarrow> bool) \<Rightarrow> bytes list \<Rightarrow> (bytes \<Rightarrow> parser_event list) \<Rightarrow> (bytes \<Rightarrow> bytes \<Rightarrow> 'c) \<Rightarrow> bytes
      \<Rightarrow> bool \<times> parser_event list \<times> 'c option" where
  "until_tag ok ts emit next s =
     (case earliest_tag ts s of
        None \<Rightarrow> (ok s (length s), emit s, None)
      | Some (pos, t) \<Rightarrow> (ok s pos, emit (take pos s), Some (next t (drop (pos + length t) s))))"

text \<open>Emitting a tag-free part of it early.\<close>

lemma until_tag_drop:
  assumes ts: "tag_list ts" and none: "no_tag_before ts w k" and k: "k \<le> length w"
    and emit: "\<And>a b. coalesce (emit a @ emit b) = coalesce (emit (a @ b))"
    and ok: "\<And>p. k \<le> p \<Longrightarrow> p \<le> length w \<Longrightarrow> ok w p \<Longrightarrow> ok (drop k w) (p - k)"
    and step: "until_tag ok ts emit next w = (True, es, cont)"
  obtains es' where "until_tag ok ts emit next (drop k w) = (True, es', cont)"
    "coalesce (emit (take k w) @ es') = coalesce es"
proof (cases "earliest_tag ts w")
  case None
  then have "earliest_tag ts (drop k w) = None" using earliest_drop [OF ts none] by simp
  then show ?thesis
    using that step None emit [of "take k w" "drop k w"] ok [of "length w"] k by (simp add: until_tag_def)
next
  case (Some pt)
  then obtain p t where pt: "earliest_tag ts w = Some (p, t)" by (cases pt) simp
  have kp: "k \<le> p" by (rule earliest_drop_ge [OF ts none pt])
  have d: "earliest_tag ts (drop k w) = Some (p - k, t)" using earliest_drop [OF ts none] pt by simp
  have split: "take p w = take k w @ take (p - k) (drop k w)"
    using kp by (metis le_add_diff_inverse take_add)
  have "drop (p - k + length t) (drop k w) = drop (p + length t) w" using kp by (simp add: add.commute)
  moreover have "p \<le> length w" using earliest_tag_bound(1) [OF ts pt] by simp
  ultimately show ?thesis
    using that step pt d emit [of "take k w" "take (p - k) (drop k w)"] split ok [OF kp]
    by (simp add: until_tag_def)
qed

text \<open>Text and reasoning deltas join.\<close>

definition push_text :: "bytes \<Rightarrow> parser_event list" where
  "push_text s = (if s = [] then [] else [TextDelta s])"

definition push_think :: "bytes \<Rightarrow> parser_event list" where
  "push_think s = (if s = [] then [] else [ThinkDelta s])"

lemma push_text_append: "coalesce (push_text a @ push_text b) = coalesce (push_text (a @ b))"
  by (simp add: push_text_def coalesce_def push_event_def)

lemma push_think_append: "coalesce (push_think a @ push_think b) = coalesce (push_think (a @ b))"
  by (simp add: push_think_def coalesce_def push_event_def)

text \<open>The call index is a \<^verbatim>\<open>u32\<close>.\<close>

definition next_call :: "nat \<Rightarrow> nat" where
  "next_call i = (i + 1) mod 2 ^ 32"

lemma update_fresh: "k \<notin> fst ` set al \<Longrightarrow> AList.update k v al = al @ [(k, v)]"
  by (induction al) auto

lemma show_dec_0: "show_dec 0 = ''0''"
  by (simp add: show_dec.simps char_of_def bit_Suc_0_iff)

end
