(* ===== verification/Tool_Hermes.thy ===== *)
theory Tool_Hermes
  imports Tool_Events
begin

section \<open>The Hermes parser\<close>

text \<open>
  \<^verbatim>\<open>crates/server/src/tool_call_parser/hermes.rs\<close>: the streaming parser of
  \<^verbatim>\<open><tool_call>{JSON}</tool_call>\<close>. \<^verbatim>\<open>serde_json\<close> is a parameter: reading a value, asking an
  object for a key, a string value's text and rendering a value.
\<close>

record 'v serde =
  sj_from_str :: "bytes \<Rightarrow> 'v option"
  sj_get :: "'v \<Rightarrow> bytes \<Rightarrow> 'v option"
  sj_as_str :: "'v \<Rightarrow> bytes option"
  sj_to_string :: "'v \<Rightarrow> bytes option"

definition text_open_tags :: "bytes list" where
  "text_open_tags = [tool_open, think_open]"

datatype hermes_state = HText | HInThink | HInTool | HAwaitingToolClose

record hermes =
  h_buf :: bytes
  h_state :: hermes_state
  h_next_index :: nat

definition hermes_new :: hermes where
  "hermes_new = \<lparr>h_buf = [], h_state = HText, h_next_index = 0\<rparr>"

definition hermes_new_in_think :: hermes where
  "hermes_new_in_think = hermes_new\<lparr>h_state := HInThink\<rparr>"

subsection \<open>Helpers\<close>

text \<open>
  The scan for the closing brace, from the first opening one on: \<open>i\<close> is the position of the next
  byte. \<open>json_object_span\<close> gives the positions of both braces.
\<close>

fun brace_scan :: "nat \<Rightarrow> nat \<Rightarrow> bool \<Rightarrow> bool \<Rightarrow> bytes \<Rightarrow> nat option" where
  "brace_scan i depth in_str escaped [] = None"
| "brace_scan i depth in_str escaped (c # s) =
     (if in_str then
        (if escaped then brace_scan (i + 1) depth True False s
         else if c = backslash then brace_scan (i + 1) depth True True s
         else brace_scan (i + 1) depth (c \<noteq> dquote) False s)
      else if c = dquote then brace_scan (i + 1) depth True escaped s
      else if c = CHR ''{'' then brace_scan (i + 1) (depth + 1) False escaped s
      else if c = CHR ''}'' then
        (if depth - 1 = 0 then Some i else brace_scan (i + 1) (depth - 1) False escaped s)
      else brace_scan (i + 1) depth False escaped s)"

definition json_object_span :: "bytes \<Rightarrow> (nat \<times> nat) option" where
  "json_object_span s =
     (case find_sub ''{'' s of
        None \<Rightarrow> None
      | Some start \<Rightarrow> map_option (Pair start) (brace_scan start 0 False False (drop start s)))"

text \<open>
  This parser's own \<^verbatim>\<open>ambiguous_tail_start\<close>. It slices the buffer at every one of the last
  positions, so it panics at one that is inside a character.
\<close>

fun hermes_tail_scan :: "bytes list \<Rightarrow> bytes \<Rightarrow> nat list \<Rightarrow> (unit, nat) outcome" where
  "hermes_tail_scan ts s [] = Ok (length s)"
| "hermes_tail_scan ts s (c # cuts) =
     (if \<not> is_char_boundary s c then Panic
      else if \<exists>t \<in> set ts. prefix (drop c s) t then Ok c
      else hermes_tail_scan ts s cuts)"

definition max_tag_len :: "bytes list \<Rightarrow> nat" where
  "max_tag_len ts = foldr max (map length ts) 0"

definition hermes_ambiguous_tail_start :: "bytes \<Rightarrow> bytes list \<Rightarrow> (unit, nat) outcome" where
  "hermes_ambiguous_tail_start s ts =
     hermes_tail_scan ts s [length s - (max_tag_len ts - 1)..<length s]"

definition floor_char_boundary :: "bytes \<Rightarrow> nat \<Rightarrow> nat" where
  "floor_char_boundary s n = (if length s \<le> n then length s else back_to_boundary s n)"

text \<open>The name and the arguments of a call's JSON body.\<close>

definition call_fields :: "'v serde \<Rightarrow> bytes \<Rightarrow> bytes \<times> bytes" where
  "call_fields J json =
     (case sj_from_str J json of
        Some v \<Rightarrow>
          (case Option.bind (sj_get J v ''name'') (sj_as_str J) of Some n \<Rightarrow> n | None \<Rightarrow> [],
           case sj_get J v ''arguments'' of
             Some other \<Rightarrow>
               (case sj_as_str J other of
                  Some s \<Rightarrow> s
                | None \<Rightarrow> (case sj_to_string J other of Some s \<Rightarrow> s | None \<Rightarrow> ''{}''))
           | None \<Rightarrow> ''{}'')
      | None \<Rightarrow> ([], ''{}''))"

definition call_events :: "'v serde \<Rightarrow> nat \<Rightarrow> bytes \<Rightarrow> parser_event list" where
  "call_events J i json =
     (let (name, args) = call_fields J json in
      [ToolCallOpen i name, ToolCallArgumentsDelta i args, ToolCallClose i])"

subsection \<open>The steps\<close>

definition hermes_step_text :: "hermes \<Rightarrow> bool \<Rightarrow> hermes step_result" where
  "hermes_step_text p is_finish =
     (case earliest_tag text_open_tags (h_buf p) of
        Some (pos, tag) \<Rightarrow>
          Ok (True, push_text (take pos (h_buf p)),
              p\<lparr>h_buf := drop (pos + length tag) (h_buf p),
                h_state := (if tag = think_open then HInThink else HInTool)\<rparr>)
      | None \<Rightarrow>
          obind (if is_finish then Ok (length (h_buf p))
                 else hermes_ambiguous_tail_start (h_buf p) text_open_tags) (\<lambda>emit_upto.
          (let emit_upto = floor_char_boundary (h_buf p) emit_upto in
           if 0 < emit_upto
           then Ok (True, push_text (take emit_upto (h_buf p)), p\<lparr>h_buf := drop emit_upto (h_buf p)\<rparr>)
           else Ok (False, [], p))))"

definition hermes_step_in_think :: "hermes \<Rightarrow> bool \<Rightarrow> hermes step_result" where
  "hermes_step_in_think p is_finish =
     (case find_sub think_close (h_buf p) of
        Some pos \<Rightarrow>
          Ok (True, push_think (take pos (h_buf p)),
              p\<lparr>h_buf := drop (pos + length think_close) (h_buf p), h_state := HText\<rparr>)
      | None \<Rightarrow>
          obind (if is_finish then Ok (length (h_buf p))
                 else hermes_ambiguous_tail_start (h_buf p) [think_close]) (\<lambda>emit_upto.
          (let emit_upto = floor_char_boundary (h_buf p) emit_upto in
           if 0 < emit_upto
           then Ok (True, push_think (take emit_upto (h_buf p)), p\<lparr>h_buf := drop emit_upto (h_buf p)\<rparr>)
           else Ok (False, [], p))))"

definition hermes_step_in_tool :: "'v serde \<Rightarrow> hermes \<Rightarrow> bool \<Rightarrow> hermes step_result" where
  "hermes_step_in_tool J p is_finish =
     (case json_object_span (h_buf p) of
        Some (start, stop) \<Rightarrow>
          Ok (True, call_events J (h_next_index p) (slice_of (h_buf p) start (stop + 1)),
              p\<lparr>h_next_index := next_call (h_next_index p), h_buf := drop (stop + 1) (h_buf p),
                h_state := HAwaitingToolClose\<rparr>)
      | None \<Rightarrow>
          if is_finish \<and> trim_start (h_buf p) \<noteq> []
          then Ok (True, push_text (tool_open @ h_buf p), p\<lparr>h_buf := [], h_state := HText\<rparr>)
          else Ok (False, [], p))"

definition hermes_step_awaiting_close :: "hermes \<Rightarrow> bool \<Rightarrow> hermes step_result" where
  "hermes_step_awaiting_close p is_finish =
     (let trimmed = trim_start (h_buf p); lead_ws = length (h_buf p) - length trimmed in
      case find_sub tool_close trimmed of
        Some rel \<Rightarrow>
          Ok (True, [], p\<lparr>h_buf := drop (lead_ws + rel + length tool_close) (h_buf p), h_state := HText\<rparr>)
      | None \<Rightarrow>
          if \<not> is_finish \<and> (trimmed = [] \<or> prefix trimmed tool_close) then Ok (False, [], p)
          else if trimmed = [] then Ok (False, [], p\<lparr>h_buf := [], h_state := HText\<rparr>)
          else Ok (True, [], p\<lparr>h_state := HText\<rparr>))"

definition hermes_step :: "'v serde \<Rightarrow> bool \<Rightarrow> hermes \<Rightarrow> hermes step_result" where
  "hermes_step J is_finish p =
     (case h_state p of
        HText \<Rightarrow> hermes_step_text p is_finish
      | HInThink \<Rightarrow> hermes_step_in_think p is_finish
      | HInTool \<Rightarrow> hermes_step_in_tool J p is_finish
      | HAwaitingToolClose \<Rightarrow> hermes_step_awaiting_close p is_finish)"

subsection \<open>The drain loop\<close>

text \<open>Every step that makes progress shortens the buffer or gives up waiting for a close tag.\<close>

definition hermes_size :: "hermes \<Rightarrow> nat" where
  "hermes_size p = 2 * length (h_buf p) + (if h_state p = HAwaitingToolClose then 1 else 0)"

lemma brace_scan_bound: "brace_scan i depth in_str escaped s = Some j \<Longrightarrow> i \<le> j \<and> j < i + length s"
  by (induction i depth in_str escaped s rule: brace_scan.induct) (force split: if_splits)+

lemma json_object_span_bound:
  assumes "json_object_span s = Some (start, stop)"
  shows "start \<le> stop" and "stop < length s"
proof -
  obtain b where b: "find_sub ''{'' s = Some start" "brace_scan start 0 False False (drop start s) = Some stop"
    using assms by (auto simp: json_object_span_def split: option.splits)
  then show "start \<le> stop" "stop < length s"
    using brace_scan_bound [OF b(2)] find_sub_bound [OF b(1)] by auto
qed

lemma tags_text_open: "tag_list text_open_tags"
  by (simp add: tag_list_def is_tag_def text_open_tags_def tool_open_def think_open_def)

lemma hermes_step_size:
  assumes "hermes_step J fin p = Ok (True, es, p')"
  shows "hermes_size p' < hermes_size p"
proof (cases "h_state p")
  case HText
  show ?thesis
  proof (cases "earliest_tag text_open_tags (h_buf p)")
    case None
    then show ?thesis using assms HText
      by (auto simp: hermes_step_def hermes_step_text_def hermes_size_def Let_def obind_Ok_iff
          floor_char_boundary_def split: if_splits)
  next
    case (Some pt)
    then obtain pos t where pt: "earliest_tag text_open_tags (h_buf p) = Some (pos, t)" by (cases pt) simp
    from earliest_tag_bound [OF tags_text_open this] show ?thesis using assms HText pt
      by (auto simp: hermes_step_def hermes_step_text_def hermes_size_def)
  qed
next
  case HInThink
  then show ?thesis
    using assms find_sub_bound [of think_close "h_buf p"]
    by (auto simp: hermes_step_def hermes_step_in_think_def hermes_size_def Let_def obind_Ok_iff think_close_def
        floor_char_boundary_def split: option.splits if_splits)
next
  case HInTool
  then show ?thesis
    using assms json_object_span_bound [of "h_buf p"]
    by (auto simp: hermes_step_def hermes_step_in_tool_def hermes_size_def split: option.splits if_splits)
next
  case HAwaitingToolClose
  show ?thesis
  proof (cases "find_sub tool_close (trim_start (h_buf p))")
    case None
    then show ?thesis using assms HAwaitingToolClose
      by (auto simp: hermes_step_def hermes_step_awaiting_close_def hermes_size_def Let_def split: if_splits)
  next
    case (Some rel)
    have "0 < length (h_buf p)"
      using find_sub_bound [OF Some] trim_start_le [of "h_buf p"] by (auto simp: tool_close_def)
    then have "length (drop (n + length tool_close) (h_buf p)) < length (h_buf p)" for n
      by (simp add: tool_close_def)
    then show ?thesis using assms HAwaitingToolClose Some
      by (auto simp: hermes_step_def hermes_step_awaiting_close_def hermes_size_def Let_def)
  qed
qed

function hermes_drain ::
    "'v serde \<Rightarrow> bool \<Rightarrow> hermes \<Rightarrow> (unit, parser_event list \<times> hermes) outcome" where
  "hermes_drain J is_finish p =
     (case hermes_step J is_finish p of
        Panic \<Rightarrow> Panic
      | Err e \<Rightarrow> Err e
      | Ok (progress, es, p') \<Rightarrow>
          if \<not> progress then Ok (es, p')
          else obind (hermes_drain J is_finish p') (\<lambda>(es', p''). Ok (es @ es', p'')))"
  by pat_completeness auto

termination hermes_drain
  by (relation "measure (\<lambda>(J, fin, p). hermes_size p)") (auto dest: hermes_step_size)

declare hermes_drain.simps [simp del]

subsection \<open>The interface\<close>

definition hermes_push :: "'v serde \<Rightarrow> hermes \<Rightarrow> bytes \<Rightarrow> (unit, parser_event list \<times> hermes) outcome" where
  "hermes_push J p chunk =
     (if chunk = [] then Ok ([], p) else hermes_drain J False (p\<lparr>h_buf := h_buf p @ chunk\<rparr>))"

definition hermes_finish :: "'v serde \<Rightarrow> hermes \<Rightarrow> (unit, parser_event list \<times> hermes) outcome" where
  "hermes_finish J p =
     obind (hermes_drain J True p) (\<lambda>(out, q).
       if h_buf q \<noteq> []
       then Ok (out @ (case h_state q of HInThink \<Rightarrow> [ThinkDelta (h_buf q)] | _ \<Rightarrow> push_text (h_buf q)),
                q\<lparr>h_buf := [], h_state := HText\<rparr>)
       else Ok (out, q))"

end
