(* ===== verification/Tool_Hermes_Props.thy ===== *)
theory Tool_Hermes_Props
  imports Tool_Hermes
begin

section \<open>The Hermes parser does not depend on the chunking\<close>

text \<open>
  The meaning of a whole text is given by a reference parser that sees it at once. The streaming
  parser agrees with it for every decomposition into chunks, when the texts outside of the JSON
  bodies are ASCII and no closing tag is farther away than white space. Outside of that class the
  contract of the trait fails, in two ways stated at the end.
\<close>

subsection \<open>The reference parser\<close>

text \<open>
  One step: whether the text met there keeps to the class, the events, and what is left to parse.
  Free text and reasoning run to the earliest of their tags.
\<close>

type_synonym hermes_rest = "hermes_state \<times> nat \<times> bytes"

abbreviation hermes_until ::
    "bytes list \<Rightarrow> (bytes \<Rightarrow> parser_event list) \<Rightarrow> (bytes \<Rightarrow> hermes_state) \<Rightarrow> nat \<Rightarrow> bytes
      \<Rightarrow> bool \<times> parser_event list \<times> hermes_rest option" where
  "hermes_until ts emit next i s \<equiv>
     until_tag (\<lambda>s pos. ascii_text (take pos s)) ts emit (\<lambda>t rest. (next t, i, rest)) s"

fun hermes_ref_step :: "'v serde \<Rightarrow> hermes_rest \<Rightarrow> bool \<times> parser_event list \<times> hermes_rest option" where
  "hermes_ref_step J (HText, i, s) =
     hermes_until text_open_tags push_text (\<lambda>t. if t = think_open then HInThink else HInTool) i s"
| "hermes_ref_step J (HInThink, i, s) = hermes_until [think_close] push_think (\<lambda>_. HText) i s"
| "hermes_ref_step J (HInTool, i, s) =
     (case json_object_span s of
        Some (start, stop) \<Rightarrow>
          (True, call_events J i (slice_of s start (stop + 1)),
           Some (HAwaitingToolClose, next_call i, drop (stop + 1) s))
      | None \<Rightarrow> (True, if trim_start s = [] then push_text s else push_text (tool_open @ s), None))"
| "hermes_ref_step J (HAwaitingToolClose, i, s) =
     (let trimmed = trim_start s; ascii = ascii_text (take (Suc (lead_ws s)) s) in
      if trimmed = [] then (ascii, [], None)
      else if prefix tool_close trimmed
      then (ascii, [], Some (HText, i, drop (length tool_close) trimmed))
      else (ascii \<and> find_sub tool_close trimmed = None, [], Some (HText, i, s)))"

definition rest_size :: "hermes_rest \<Rightarrow> nat" where
  "rest_size c = 2 * length (snd (snd c)) + (if fst c = HAwaitingToolClose then 1 else 0)"

lemma ref_step_size:
  assumes "hermes_ref_step J c = (ok, es, Some c')"
  shows "rest_size c' < rest_size c"
proof (cases "(J, c)" rule: hermes_ref_step.cases)
  case (1 J i s)
  then show ?thesis using assms earliest_tag_bound [OF tags_text_open, of s]
    by (auto simp: until_tag_def rest_size_def split: option.splits)
next
  case (2 J i s)
  then show ?thesis using assms earliest_tag_bound [OF tags_think_close, of s]
    by (auto simp: until_tag_def rest_size_def simp del: earliest_tag.simps split: option.splits)
next
  case (3 J i s)
  then show ?thesis using assms json_object_span_bound [of s]
    by (auto simp: rest_size_def split: option.splits)
next
  case (4 J i s)
  then show ?thesis using assms trim_start_le [of s]
    by (auto simp: rest_size_def Let_def tool_close_def prefix_def split: if_splits)
qed

function hermes_ref :: "'v serde \<Rightarrow> hermes_rest \<Rightarrow> parser_event list" where
  "hermes_ref J c =
     (case hermes_ref_step J c of
        (_, es, None) \<Rightarrow> es
      | (_, es, Some c') \<Rightarrow> es @ hermes_ref J c')"
  by pat_completeness auto
termination hermes_ref
  by (relation "measure (\<lambda>(J, c). rest_size c)") (auto dest: ref_step_size [OF sym])

function hermes_clean :: "'v serde \<Rightarrow> hermes_rest \<Rightarrow> bool" where
  "hermes_clean J c =
     (case hermes_ref_step J c of
        (ok, _, None) \<Rightarrow> ok
      | (ok, _, Some c') \<Rightarrow> ok \<and> hermes_clean J c')"
  by pat_completeness auto
termination hermes_clean
  by (relation "measure (\<lambda>(J, c). rest_size c)") (auto dest: ref_step_size [OF sym])

declare hermes_ref.simps [simp del] hermes_clean.simps [simp del]

lemma hermes_ref_Some:
  "hermes_ref_step J c = (ok, es, Some c') \<Longrightarrow> hermes_ref J c = es @ hermes_ref J c'"
  "hermes_ref_step J c = (ok, es, Some c') \<Longrightarrow> hermes_clean J c \<longleftrightarrow> ok \<and> hermes_clean J c'"
  by (subst hermes_ref.simps, simp) (subst hermes_clean.simps, simp)

lemma hermes_ref_None:
  "hermes_ref_step J c = (ok, es, None) \<Longrightarrow> hermes_ref J c = es"
  "hermes_ref_step J c = (ok, es, None) \<Longrightarrow> hermes_clean J c \<longleftrightarrow> ok"
  by (subst hermes_ref.simps, simp) (subst hermes_clean.simps, simp)

lemma clean_ok:
  assumes "hermes_clean J c"
  shows "fst (hermes_ref_step J c)"
proof -
  obtain ok es cont where step: "hermes_ref_step J c = (ok, es, cont)" by (metis prod_cases3)
  show ?thesis
  proof (cases cont)
    case None
    then show ?thesis using hermes_ref_None(2) [OF step [unfolded None]] assms step by simp
  next
    case (Some c')
    then show ?thesis using hermes_ref_Some(2) [OF step [unfolded Some]] assms step by simp
  qed
qed

subsection \<open>Free text and reasoning\<close>

text \<open>What the streaming step does in free text or reasoning while no tag is complete.\<close>

lemma hermes_tail_scan_ascii:
  assumes "ascii_text s" and "\<forall>c \<in> set cs. c \<le> length s"
  shows "hermes_tail_scan ts s cs =
    Ok (case List.find (\<lambda>p. \<exists>t \<in> set ts. prefix (drop p s) t) cs of Some p \<Rightarrow> p | None \<Rightarrow> length s)"
  using assms(2)
  by (induction cs) (use assms(1) in \<open>auto simp: ascii_set ascii_boundary\<close>)

lemma max_tag_len_ge: "t \<in> set ts \<Longrightarrow> length t \<le> max_tag_len ts"
  by (induction ts) (auto simp: max_tag_len_def)

lemma hermes_tail_safe:
  assumes ts: "tag_list ts" and none: "earliest_tag ts s = None" and ascii: "ascii_text s"
  obtains k where "hermes_ambiguous_tail_start s ts = Ok k" "k \<le> length s" "no_tag_before ts (s @ r) k"
proof -
  let ?cs = "[length s - (max_tag_len ts - 1)..<length s]"
  let ?P = "\<lambda>p. \<exists>t \<in> set ts. prefix (drop p s) t"
  let ?k = "case List.find ?P ?cs of Some p \<Rightarrow> p | None \<Rightarrow> length s"
  have "hermes_ambiguous_tail_start s ts = Ok ?k"
    unfolding hermes_ambiguous_tail_start_def by (rule hermes_tail_scan_ascii [OF ascii]) auto
  moreover have "?k \<le> length s" using find_upt_least(1) [of ?P] by (fastforce split: option.split)
  moreover have "no_tag_before ts (s @ r) ?k"
    unfolding no_tag_before_def
  proof (intro allI impI ballI notI)
    fix q u assume q: "q < ?k" and u: "u \<in> set ts" and occ: "prefix u (drop q (s @ r))"
    have "q < length s" using q \<open>?k \<le> length s\<close> by linarith
    note tail = tail_of_tag [OF ts none u occ this]
    have "length s - (max_tag_len ts - 1) \<le> q" using tail(1) max_tag_len_ge [OF u] by linarith
    then have "?k \<le> q" using \<open>q < length s\<close> tail(2) u by (intro find_upt_le) blast+
    then show False using q by simp
  qed
  ultimately show ?thesis using that by blast
qed

lemma floor_ascii: "ascii_text s \<Longrightarrow> n \<le> length s \<Longrightarrow> floor_char_boundary s n = n"
  by (simp add: floor_char_boundary_def ascii_back_to_boundary)

lemma until_tag_ascii:
  assumes ts: "tag_list ts" and none: "earliest_tag ts s = None"
    and ascii: "\<forall>t \<in> set ts. ascii_text t" and step: "hermes_until ts emit next i (s @ r) = (True, es, cont)"
  shows "ascii_text s"
proof (cases "earliest_tag ts (s @ r)")
  case None
  then show ?thesis using step by (simp add: until_tag_def)
next
  case (Some pt)
  then obtain p t where pt: "earliest_tag ts (s @ r) = Some (p, t)" by (cases pt) simp
  then have t: "t \<in> set ts" "prefix t (drop p (s @ r))" by (simp_all add: earliest_Some [OF ts])
  have p: "ascii_text (take p (s @ r))" using step pt by (simp add: until_tag_def)
  have "\<not> prefix t (drop p s)" if "p < length s"
    using none that t(1) unfolding earliest_none no_tag_before_def by simp
  then have tail: "strict_prefix (drop p s) t" if "p < length s"
    using occurrence_cases [OF t(2)] that by auto
  have "ascii_text (drop p s)"
  proof (cases "p < length s")
    case True
    then obtain v where "t = drop p s @ v" using tail by (auto simp: strict_prefix_def prefix_def)
    then show ?thesis using ascii t(1) by (metis ascii_append)
  qed (simp add: ascii_text_def)
  moreover have "ascii_text (take p s)" using p by simp
  ultimately show ?thesis by (metis append_take_drop_id ascii_append)
qed

subsection \<open>One step of the streaming parser\<close>

definition rest_of :: "hermes \<Rightarrow> bytes \<Rightarrow> hermes_rest" where
  "rest_of p r = (h_state p, h_next_index p, h_buf p @ r)"

definition hermes_flush :: "hermes \<Rightarrow> parser_event list" where
  "hermes_flush q =
     (if h_buf q = [] then []
      else case h_state q of HInThink \<Rightarrow> [ThinkDelta (h_buf q)] | _ \<Rightarrow> push_text (h_buf q))"

text \<open>What a step has to keep: the class, the meaning, and at the end the flush.\<close>

definition step_keeps :: "'v serde \<Rightarrow> bool \<Rightarrow> hermes \<Rightarrow> bytes \<Rightarrow> hermes step_result \<Rightarrow> bool" where
  "step_keeps J fin p r result \<longleftrightarrow>
     (\<exists>b es p'. result = Ok (b, es, p') \<and> hermes_clean J (rest_of p' r) \<and>
        coalesce (es @ hermes_ref J (rest_of p' r)) = coalesce (hermes_ref J (rest_of p r)) \<and>
        (fin \<and> \<not> b \<longrightarrow> hermes_ref J (rest_of p' []) = hermes_flush p'))"

lemma step_keepsI:
  "result = Ok (b, es, p') \<Longrightarrow> hermes_clean J (rest_of p' r) \<Longrightarrow>
     coalesce (es @ hermes_ref J (rest_of p' r)) = coalesce (hermes_ref J (rest_of p r)) \<Longrightarrow>
     (fin \<Longrightarrow> \<not> b \<Longrightarrow> hermes_ref J (rest_of p' []) = hermes_flush p') \<Longrightarrow>
     step_keeps J fin p r result"
  unfolding step_keeps_def by blast

text \<open>A step that does what the reference parser does next.\<close>

lemma step_keeps_ref:
  assumes "result = Ok (True, es, p')" and "hermes_ref_step J (rest_of p r) = (ok, es, Some (rest_of p' r))"
    and "hermes_clean J (rest_of p r)"
  shows "step_keeps J fin p r result"
proof (rule step_keepsI [OF assms(1)])
  show "hermes_clean J (rest_of p' r)" using hermes_ref_Some(2) [OF assms(2)] assms(3) by simp
  show "coalesce (es @ hermes_ref J (rest_of p' r)) = coalesce (hermes_ref J (rest_of p r))"
    using hermes_ref_Some(1) [OF assms(2)] by simp
qed simp

lemma text_Nil: "hermes_ref J (HText, i, []) = []" "hermes_clean J (HText, i, [])"
proof -
  have "hermes_ref_step J (HText, i, []) = (True, [], None)"
    by (simp add: until_tag_def text_open_tags_def push_text_def tool_open_def think_open_def)
  then show "hermes_ref J (HText, i, []) = []" "hermes_clean J (HText, i, [])"
    using hermes_ref_None by blast+
qed

definition until_step ::
    "bytes list \<Rightarrow> (bytes \<Rightarrow> parser_event list) \<Rightarrow> (bytes \<Rightarrow> hermes_state) \<Rightarrow> hermes \<Rightarrow> bool \<Rightarrow> hermes step_result" where
  "until_step ts emit next p is_finish =
     (case earliest_tag ts (h_buf p) of
        Some (pos, t) \<Rightarrow>
          Ok (True, emit (take pos (h_buf p)),
              p\<lparr>h_buf := drop (pos + length t) (h_buf p), h_state := next t\<rparr>)
      | None \<Rightarrow>
          obind (if is_finish then Ok (length (h_buf p)) else hermes_ambiguous_tail_start (h_buf p) ts) (\<lambda>u.
          (let u = floor_char_boundary (h_buf p) u in
           if 0 < u then Ok (True, emit (take u (h_buf p)), p\<lparr>h_buf := drop u (h_buf p)\<rparr>)
           else Ok (False, [], p))))"

lemma step_text_until:
  "hermes_step_text p fin =
     until_step text_open_tags push_text (\<lambda>t. if t = think_open then HInThink else HInTool) p fin"
  by (simp add: hermes_step_text_def until_step_def)

lemma step_in_think_until: "hermes_step_in_think p fin = until_step [think_close] push_think (\<lambda>_. HText) p fin"
  unfolding hermes_step_in_think_def until_step_def earliest_single by (simp split: option.split)

lemma until_step_keeps:
  assumes ts: "tag_list ts" and ascii: "\<forall>t \<in> set ts. ascii_text t"
    and emit: "\<And>a b. coalesce (emit a @ emit b) = coalesce (emit (a @ b))" and emit0: "emit [] = []"
    and ref: "\<And>w. hermes_ref_step J (h_state p, h_next_index p, w) = hermes_until ts emit next (h_next_index p) w"
    and clean: "hermes_clean J (rest_of p r)" and fin: "fin \<longrightarrow> r = []"
  shows "step_keeps J fin p r (until_step ts emit next p fin)"
proof -
  let ?w = "h_buf p @ r" and ?i = "h_next_index p"
  obtain ok es cont where step: "hermes_until ts emit next ?i ?w = (ok, es, cont)" by (metis prod_cases3)
  then have ok: "ok" and ref_w: "hermes_ref_step J (rest_of p r) = (True, es, cont)"
    using clean ref [of ?w] hermes_ref_None(2) hermes_ref_Some(2)
    by (cases cont; fastforce simp: rest_of_def)+
  show ?thesis
  proof (cases "earliest_tag ts (h_buf p)")
    case (Some pt)
    then obtain pos t where pt: "earliest_tag ts (h_buf p) = Some (pos, t)" by (cases pt) simp
    have "pos + length t \<le> length (h_buf p)" by (rule earliest_tag_bound(1) [OF ts pt])
    then have "hermes_until ts emit next ?i ?w =
        (ascii_text (take pos (h_buf p)), emit (take pos (h_buf p)),
         Some (next t, ?i, drop (pos + length t) (h_buf p) @ r))"
      using earliest_append [OF ts pt, of r] by (simp add: until_tag_def)
    then have es: "es = emit (take pos (h_buf p))" "cont = Some (next t, ?i, drop (pos + length t) (h_buf p) @ r)"
      using step by simp_all
    let ?p = "p\<lparr>h_buf := drop (pos + length t) (h_buf p), h_state := next t\<rparr>"
    have "hermes_ref_step J (rest_of p r) = (True, emit (take pos (h_buf p)), Some (rest_of ?p r))"
      using ref_w es by (simp add: rest_of_def)
    moreover have "until_step ts emit next p fin = Ok (True, emit (take pos (h_buf p)), ?p)"
      using pt by (simp add: until_step_def)
    ultimately show ?thesis using step_keeps_ref clean by blast
  next
    case None
    have a: "ascii_text (h_buf p)" using until_tag_ascii [OF ts None ascii] step ok by simp
    obtain k where k: "(if fin then Ok (length (h_buf p)) else hermes_ambiguous_tail_start (h_buf p) ts) = Ok k"
      "k \<le> length (h_buf p)" "no_tag_before ts ?w k"
    proof (cases fin)
      case True
      have "no_tag_before ts (h_buf p) (length (h_buf p))"
        using None no_tag_before_mono unfolding earliest_none by (meson lessI less_imp_le)
      then show ?thesis using that [of "length (h_buf p)"] True fin by simp
    next
      case False
      then show ?thesis using hermes_tail_safe [OF ts None a, of r] that by auto
    qed
    have flr: "floor_char_boundary (h_buf p) k = k" by (rule floor_ascii [OF a k(2)])
    show ?thesis
    proof (cases "k = 0")
      case True
      have "until_step ts emit next p fin = Ok (False, [], p)"
        using None k(1) flr True by (simp add: until_step_def)
      moreover have "hermes_ref J (rest_of p []) = hermes_flush p" if fin
      proof -
        have "h_buf p = []" using that k(1) True by simp
        moreover have "hermes_ref_step J (rest_of p []) = (True, [], None)"
          using ref [of "[]"] calculation tagsD(2) [OF ts] emit0
          by (auto simp: rest_of_def until_tag_def ascii_text_def earliest_None split: option.split)
            (metis earliest_Some_spec find_sub.simps(1) option.distinct(1))+
        ultimately show ?thesis using hermes_ref_None(1) by (simp add: hermes_flush_def)
      qed
      ultimately show ?thesis by (intro step_keepsI [OF _ clean]) auto
    next
      case False
      let ?p = "p\<lparr>h_buf := drop k (h_buf p)\<rparr>"
      have run: "until_step ts emit next p fin = Ok (True, emit (take k (h_buf p)), ?p)"
        using None k(1) flr False by (simp add: until_step_def)
      have "k \<le> length ?w" using k(2) by simp
      have drop_ok: "ascii_text (take (p - k) (drop k ?w))" if "k \<le> p" "ascii_text (take p ?w)" for p
        using that by (metis append_take_drop_id ascii_append drop_take)
      obtain es' where d: "hermes_until ts emit next ?i (drop k ?w) = (True, es', cont)"
        "coalesce (emit (take k ?w) @ es') = coalesce es"
        by (rule until_tag_drop [OF ts k(3) \<open>k \<le> length ?w\<close> emit _ step [unfolded eqTrueI [OF ok]]])
          (use drop_ok in auto)
      have ref': "hermes_ref_step J (rest_of ?p r) = (True, es', cont)"
        using ref [of "drop k ?w"] d(1) k(2) by (simp add: rest_of_def)
      have "hermes_clean J (rest_of ?p r)"
      proof (cases cont)
        case None
        then show ?thesis using hermes_ref_None(2) ref' by blast
      next
        case (Some c)
        then show ?thesis using clean ref_w ref' hermes_ref_Some(2) by blast
      qed
      moreover have "coalesce (emit (take k (h_buf p)) @ hermes_ref J (rest_of ?p r)) =
          coalesce (hermes_ref J (rest_of p r))"
      proof (cases cont)
        case None
        then show ?thesis
          using hermes_ref_None(1) [OF ref_w [unfolded None]] hermes_ref_None(1) [OF ref' [unfolded None]] d(2) k(2)
          by simp
      next
        case (Some c)
        then have "hermes_ref J (rest_of ?p r) = es' @ hermes_ref J c" "hermes_ref J (rest_of p r) = es @ hermes_ref J c"
          using hermes_ref_Some(1) ref_w ref' by blast+
        then show ?thesis using coalesce_left [OF d(2), of "hermes_ref J c"] k(2) by simp
      qed
      ultimately show ?thesis using run by (intro step_keepsI) auto
    qed
  qed
qed

lemma brace_scan_append:
  "brace_scan i depth in_str escaped s = Some j \<Longrightarrow> brace_scan i depth in_str escaped (s @ r) = Some j"
  by (induction i depth in_str escaped s rule: brace_scan.induct) (auto split: if_splits)

lemma json_object_span_append:
  "json_object_span s = Some (a, b) \<Longrightarrow> json_object_span (s @ r) = Some (a, b)"
proof -
  assume "json_object_span s = Some (a, b)"
  then have f: "find_sub ''{'' s = Some a" and b: "brace_scan a 0 False False (drop a s) = Some b"
    by (auto simp: json_object_span_def split: option.splits)
  have "a \<le> length s" using find_sub_bound [OF f] by simp
  then have "brace_scan a 0 False False (drop a (s @ r)) = Some b"
    using brace_scan_append [OF b, of r] by simp
  then show ?thesis using find_sub_append [OF f, of r] by (simp add: json_object_span_def)
qed

lemma in_tool_keeps:
  assumes st: "h_state p = HInTool" and clean: "hermes_clean J (rest_of p r)" and fin: "fin \<longrightarrow> r = []"
  shows "step_keeps J fin p r (hermes_step_in_tool J p fin)"
proof (cases "json_object_span (h_buf p)")
  case (Some ab)
  then obtain a b where span: "json_object_span (h_buf p) = Some (a, b)" by (cases ab) simp
  note bound = json_object_span_bound [OF span]
  let ?p = "p\<lparr>h_next_index := next_call (h_next_index p), h_buf := drop (b + 1) (h_buf p),
    h_state := HAwaitingToolClose\<rparr>"
  have "slice_of (h_buf p @ r) a (b + 1) = slice_of (h_buf p) a (b + 1)"
    using bound by (simp add: slice_of_def)
  then have "hermes_ref_step J (rest_of p r) =
      (True, call_events J (h_next_index p) (slice_of (h_buf p) a (b + 1)), Some (rest_of ?p r))"
    using json_object_span_append [OF span, of r] st bound by (simp add: rest_of_def)
  from step_keeps_ref [OF _ this clean] show ?thesis
    using span by (simp add: hermes_step_in_tool_def)
next
  case None
  show ?thesis
  proof (cases "fin \<and> trim_start (h_buf p) \<noteq> []")
    case True
    then have "hermes_ref_step J (rest_of p r) = (True, push_text (tool_open @ h_buf p), None)"
      using None st fin by (simp add: rest_of_def)
    from hermes_ref_None(1) [OF this]
    have "hermes_ref J (rest_of p r) = push_text (tool_open @ h_buf p)" .
    moreover have run: "hermes_step_in_tool J p fin =
        Ok (True, push_text (tool_open @ h_buf p), p\<lparr>h_buf := [], h_state := HText\<rparr>)"
      using None True by (simp add: hermes_step_in_tool_def)
    moreover have "rest_of (p\<lparr>h_buf := [], h_state := HText\<rparr>) r = (HText, h_next_index p, [])"
      using True fin by (simp add: rest_of_def)
    ultimately show ?thesis by (intro step_keepsI [OF run]) (simp_all add: text_Nil)
  next
    case False
    have "hermes_ref J (rest_of p []) = hermes_flush p" if fin
    proof -
      have "hermes_ref_step J (rest_of p []) = (True, push_text (h_buf p), None)"
        using that False None st by (simp add: rest_of_def)
      from hermes_ref_None(1) [OF this] show ?thesis using st by (simp add: hermes_flush_def push_text_def)
    qed
    moreover have "hermes_step_in_tool J p fin = Ok (False, [], p)"
      using None False by (simp add: hermes_step_in_tool_def)
    ultimately show ?thesis using clean by (intro step_keepsI) auto
  qed
qed

lemma awaiting_keeps:
  assumes st: "h_state p = HAwaitingToolClose" and clean: "hermes_clean J (rest_of p r)" and fin: "fin \<longrightarrow> r = []"
  shows "step_keeps J fin p r (hermes_step_awaiting_close p fin)"
proof -
  let ?w = "h_buf p @ r" and ?i = "h_next_index p" and ?tr = "trim_start (h_buf p)"
  have ref: "hermes_ref_step J (rest_of p r) = hermes_ref_step J (HAwaitingToolClose, ?i, ?w)"
    using st by (simp add: rest_of_def)
  have ok: "fst (hermes_ref_step J (rest_of p r))"
    using clean by (rule clean_ok)
  then have ascii: "ascii_text (take (Suc (lead_ws ?w)) ?w)"
    unfolding ref by (auto simp: Let_def split: if_splits)
  have trim: "trim_start ?w = (if ?tr = [] then trim_start r else ?tr @ r)" by (rule trim_start_split [OF ascii])
  show ?thesis
  proof (cases "find_sub tool_close ?tr")
    case (Some rel)
    have ne: "?tr \<noteq> []" using Some by (auto simp: tool_close_def)
    have "find_sub tool_close (trim_start ?w) = Some rel" using find_sub_append [OF Some, of r] trim ne by simp
    then have "rel = 0"
      using ok ne trim find_sub_prefix [of tool_close "trim_start ?w"] unfolding ref
      by (cases "prefix tool_close (trim_start ?w)") (simp_all add: Let_def)
    then have pre: "prefix tool_close ?tr" using Some by (simp add: find_sub_Some)
    let ?p = "p\<lparr>h_buf := drop (lead_ws (h_buf p) + length tool_close) (h_buf p), h_state := HText\<rparr>"
    have "drop (length tool_close) (?tr @ r) = drop (length tool_close) ?tr @ r"
      using prefix_length_le [OF pre] by simp
    moreover have "drop (length tool_close) ?tr = drop (lead_ws (h_buf p) + length tool_close) (h_buf p)"
      by (metis drop_drop drop_lead_ws add.commute)
    ultimately have "hermes_ref_step J (rest_of p r) = (True, [], Some (rest_of ?p r))"
      using ok pre ne trim unfolding ref by (simp add: Let_def rest_of_def prefix_append ascii)
    moreover have "hermes_step_awaiting_close p fin = Ok (True, [], ?p)"
      using Some \<open>rel = 0\<close> by (simp add: hermes_step_awaiting_close_def Let_def lead_ws_def)
    ultimately show ?thesis using step_keeps_ref clean by blast
  next
    case None
    show ?thesis
    proof (cases "\<not> fin \<and> (?tr = [] \<or> prefix ?tr tool_close)")
      case True
      then have "hermes_step_awaiting_close p fin = Ok (False, [], p)"
        using None by (simp add: hermes_step_awaiting_close_def Let_def)
      from step_keepsI [OF this clean] show ?thesis using True by simp
    next
      case no_wait: False
      show ?thesis
      proof (cases "?tr = []")
        case True
        then have "fin" "r = []" using no_wait fin by auto
        then have "hermes_ref_step J (rest_of p r) = (True, [], None)" using True ascii unfolding ref by (simp add: Let_def)
        from hermes_ref_None(1) [OF this] have "hermes_ref J (rest_of p r) = []" .
        moreover have run: "hermes_step_awaiting_close p fin = Ok (False, [], p\<lparr>h_buf := [], h_state := HText\<rparr>)"
          using True None no_wait by (simp add: hermes_step_awaiting_close_def Let_def)
        moreover have "rest_of (p\<lparr>h_buf := [], h_state := HText\<rparr>) [] = (HText, ?i, [])"
          by (simp add: rest_of_def)
        ultimately show ?thesis
          using \<open>r = []\<close> by (intro step_keepsI [OF run]) (simp_all add: text_Nil hermes_flush_def)
      next
        case False
        have run: "hermes_step_awaiting_close p fin = Ok (True, [], p\<lparr>h_state := HText\<rparr>)"
          using False None no_wait by (simp add: hermes_step_awaiting_close_def Let_def)
        have "\<not> prefix tool_close ?tr" using None by (metis drop0 find_sub_None zero_le)
        moreover have "\<not> prefix tool_close (?tr @ r)"
        proof
          assume "prefix tool_close (?tr @ r)"
          then have "prefix ?tr tool_close"
            using calculation prefix_same_cases [of tool_close "?tr @ r" ?tr] by auto
          then have fin using no_wait False by blast
          then show False using \<open>prefix tool_close (?tr @ r)\<close> calculation fin by simp
        qed
        ultimately have "hermes_ref_step J (rest_of p r) = (True, [], Some (rest_of (p\<lparr>h_state := HText\<rparr>) r))"
          using ok trim False unfolding ref by (auto simp: Let_def rest_of_def split: if_splits)
        from step_keeps_ref [OF run this clean] show ?thesis .
      qed
    qed
  qed
qed

lemma hermes_step_keeps:
  assumes clean: "hermes_clean J (rest_of p r)" and fin: "fin \<longrightarrow> r = []"
  shows "step_keeps J fin p r (hermes_step J fin p)"
proof (cases "h_state p")
  case HText
  have "\<forall>t \<in> set text_open_tags. ascii_text t"
    by (simp add: text_open_tags_def tool_open_def think_open_def ascii_text_def is_ascii_def)
  from until_step_keeps [OF tags_text_open this push_text_append _ _ clean fin, of "\<lambda>t. if t = think_open then HInThink else HInTool"]
  show ?thesis using HText by (simp add: hermes_step_def step_text_until) (simp add: push_text_def)
next
  case HInThink
  have "\<forall>t \<in> set [think_close]. ascii_text t" by (simp add: think_close_def ascii_text_def is_ascii_def)
  from until_step_keeps [OF tags_think_close this push_think_append _ _ clean fin, of "\<lambda>_. HText"]
  show ?thesis using HInThink by (simp add: hermes_step_def step_in_think_until) (simp add: push_think_def)
next
  case HInTool
  then show ?thesis using in_tool_keeps [OF _ clean fin] by (simp add: hermes_step_def)
next
  case HAwaitingToolClose
  then show ?thesis using awaiting_keeps [OF _ clean fin] by (simp add: hermes_step_def)
qed

subsection \<open>Pushes and the flush\<close>

lemma hermes_drain_keeps:
  assumes "hermes_clean J (rest_of p r)" and "fin \<longrightarrow> r = []"
  obtains es q where "hermes_drain J fin p = Ok (es, q)" "hermes_clean J (rest_of q r)"
    "coalesce (es @ hermes_ref J (rest_of q r)) = coalesce (hermes_ref J (rest_of p r))"
    "fin \<Longrightarrow> hermes_ref J (rest_of q []) = hermes_flush q"
  using assms
proof (induction J fin p arbitrary: thesis rule: hermes_drain.induct)
  case (1 J fin p)
  obtain b es p' where step: "hermes_step J fin p = Ok (b, es, p')" and clean: "hermes_clean J (rest_of p' r)"
    and eq: "coalesce (es @ hermes_ref J (rest_of p' r)) = coalesce (hermes_ref J (rest_of p r))"
    and fl: "fin \<and> \<not> b \<longrightarrow> hermes_ref J (rest_of p' []) = hermes_flush p'"
    using hermes_step_keeps [OF 1(3,4)] unfolding step_keeps_def by blast
  show ?case
  proof (cases b)
    case False
    have "hermes_drain J fin p = Ok (es, p')" using step False by (subst hermes_drain.simps) simp
    then show ?thesis using 1(2) [of es p'] clean eq fl False by blast
  next
    case True
    obtain es' q where rest: "hermes_drain J fin p' = Ok (es', q)" "hermes_clean J (rest_of q r)"
      "coalesce (es' @ hermes_ref J (rest_of q r)) = coalesce (hermes_ref J (rest_of p' r))"
      "fin \<Longrightarrow> hermes_ref J (rest_of q []) = hermes_flush q"
      using 1(1) [OF step refl refl _ _ clean 1(4)] True by blast
    have "hermes_drain J fin p = Ok (es @ es', q)" using step True rest(1) by (subst hermes_drain.simps) simp
    moreover have "coalesce ((es @ es') @ hermes_ref J (rest_of q r)) = coalesce (hermes_ref J (rest_of p r))"
      using coalesce_right [OF rest(3), of es] eq by simp
    ultimately show ?thesis using 1(2) [of "es @ es'" q] rest(2,4) by blast
  qed
qed

lemma hermes_push_keeps:
  assumes "hermes_clean J (rest_of p (c @ r))"
  shows "\<exists>es p'. hermes_push J p c = Ok (es, p') \<and> hermes_clean J (rest_of p' r) \<and>
    coalesce (es @ hermes_ref J (rest_of p' r)) = coalesce (hermes_ref J (rest_of p (c @ r)))"
proof (cases "c = []")
  case False
  have rest: "rest_of (p\<lparr>h_buf := h_buf p @ c\<rparr>) r = rest_of p (c @ r)" by (simp add: rest_of_def)
  have "hermes_clean J (rest_of (p\<lparr>h_buf := h_buf p @ c\<rparr>) r)" using assms unfolding rest .
  from hermes_drain_keeps [OF this, of False] obtain es q where
    "hermes_drain J False (p\<lparr>h_buf := h_buf p @ c\<rparr>) = Ok (es, q)" "hermes_clean J (rest_of q r)"
    "coalesce (es @ hermes_ref J (rest_of q r)) = coalesce (hermes_ref J (rest_of p (c @ r)))"
    unfolding rest by blast
  then show ?thesis using False by (simp add: hermes_push_def)
qed (use assms in \<open>simp add: hermes_push_def\<close>)

lemma hermes_finish_keeps:
  assumes "hermes_clean J (rest_of p [])"
  shows "\<exists>es p'. hermes_finish J p = Ok (es, p') \<and> coalesce es = coalesce (hermes_ref J (rest_of p []))"
proof -
  from hermes_drain_keeps [OF assms, of True] obtain es q where
    d: "hermes_drain J True p = Ok (es, q)"
    "coalesce (es @ hermes_ref J (rest_of q [])) = coalesce (hermes_ref J (rest_of p []))"
    "hermes_ref J (rest_of q []) = hermes_flush q" by blast
  then show ?thesis by (auto simp: hermes_finish_def hermes_flush_def)
qed

interpretation hermes: tool_call_parser "hermes_push J" "hermes_finish J"
    "\<lambda>p r. hermes_ref J (rest_of p r)" "\<lambda>p r. hermes_clean J (rest_of p r)" for J
  by unfold_locales (rule hermes_push_keeps hermes_finish_keeps, assumption)+

lemmas hermes_eval = hermes_step_def hermes_step_text_def hermes_step_in_think_def hermes_step_in_tool_def
  hermes_step_awaiting_close_def text_open_tags_def tool_open_def think_open_def think_close_def tool_close_def
  hermes_ambiguous_tail_start_def max_tag_len_def upt_rec floor_char_boundary_def is_char_boundary_def
  push_text_def push_think_def call_events_def call_fields_def json_object_span_def slice_of_def next_call_def
  is_continuation_def is_ascii_def ascii_text_def until_tag_def

subsection \<open>Properties\<close>

text \<open>A reader of JSON for the witnesses that finds nothing in any value.\<close>

definition demo_serde :: "unit serde" where
  "demo_serde = \<lparr>sj_from_str = (\<lambda>_. Some ()), sj_get = (\<lambda>_ _. None), sj_as_str = (\<lambda>_. None),
     sj_to_string = (\<lambda>_. None)\<rparr>"

lemma hermes_chunks:
  assumes "hermes_clean J (HText, 0, text)" and "concat cs = text"
  shows "\<exists>es. run_parser (hermes_push J) (hermes_finish J) hermes_new cs = Ok es \<and>
    coalesce es = coalesce (hermes_ref J (HText, 0, text)) \<and>
    split_events es = split_events (hermes_ref J (HText, 0, text))"
proof -
  have "rest_of hermes_new (concat cs) = (HText, 0, text)" using assms(2) by (simp add: rest_of_def hermes_new_def)
  then have "hermes_clean J (rest_of hermes_new (concat cs))" using assms(1) by simp
  from hermes.run_meaning [OF this] obtain es where
    "run_parser (hermes_push J) (hermes_finish J) hermes_new cs = Ok es"
    "coalesce es = coalesce (hermes_ref J (HText, 0, text))"
    unfolding \<open>rest_of hermes_new (concat cs) = (HText, 0, text)\<close> by blast
  then show ?thesis using split_events_cong by blast
qed

text \<open>
  C29: the response does not depend on the chunks. However the decoder's text is cut into chunks,
  the Hermes parser neither panics nor stalls, its events are up to joining those of the reference
  parser on the whole text, and content and tool calls of the response are the same.
\<close>

lemma hermes_chunking_invariant:
  assumes "hermes_clean J (HText, 0, text)" and "concat cs = text"
  shows "\<exists>es. run_parser (hermes_push J) (hermes_finish J) hermes_new cs = Ok es \<and>
    coalesce es = coalesce (hermes_ref J (HText, 0, text)) \<and>
    split_events es = split_events (hermes_ref J (HText, 0, text))"
  using assms by (rule hermes_chunks)

lemma hermes_chunking_invariant_witness:
  "\<exists>es. run_parser (hermes_push demo_serde) (hermes_finish demo_serde) hermes_new
      [''a<tool_'', ''call>{'', ''}</tool_call>''] = Ok es \<and>
    split_events es = (''a'', [\<lparr>tc_id = ''call_0'', tc_kind = ''function'', tc_name = [], tc_arguments = ''{}''\<rparr>])"
proof -
  let ?call = "[ToolCallOpen 0 [], ToolCallArgumentsDelta 0 ''{}'', ToolCallClose 0]"
  have s1: "hermes_ref_step demo_serde (HText, 0, ''a<tool_call>{}</tool_call>'') =
      (True, [TextDelta ''a''], Some (HInTool, 0, ''{}</tool_call>''))"
    by (simp add: hermes_eval)
  have s2: "hermes_ref_step demo_serde (HInTool, 0, ''{}</tool_call>'') =
      (True, ?call, Some (HAwaitingToolClose, 1, ''</tool_call>''))"
    by (simp add: hermes_eval demo_serde_def)
  have s3: "hermes_ref_step demo_serde (HAwaitingToolClose, 1, ''</tool_call>'') = (True, [], Some (HText, 1, []))"
    by (simp add: hermes_eval trim_start_visible ws1_def ws2_def ws3_def lead_ws_def Let_def)
  have clean: "hermes_clean demo_serde (HText, 0, ''a<tool_call>{}</tool_call>'')"
    using hermes_ref_Some(2) [OF s1] hermes_ref_Some(2) [OF s2] hermes_ref_Some(2) [OF s3] text_Nil(2) by simp
  have "hermes_ref demo_serde (HText, 0, ''a<tool_call>{}</tool_call>'') = TextDelta ''a'' # ?call"
    using hermes_ref_Some(1) [OF s1] hermes_ref_Some(1) [OF s2] hermes_ref_Some(1) [OF s3] text_Nil(1) by simp
  then have "split_events (hermes_ref demo_serde (HText, 0, ''a<tool_call>{}</tool_call>'')) =
      (''a'', [\<lparr>tc_id = ''call_0'', tc_kind = ''function'', tc_name = [], tc_arguments = ''{}''\<rparr>])"
    by (simp add: split_events_def Let_def show_dec_0)
  then show ?thesis
    using hermes_chunking_invariant [OF clean, of "[''a<tool_'', ''call>{'', ''}</tool_call>'']"] by auto
qed

subsection \<open>A well-formed call\<close>

lemma brace_scan_shift:
  "brace_scan (k + i) depth in_str escaped s = map_option ((+) k) (brace_scan i depth in_str escaped s)"
proof (induction i depth in_str escaped s rule: brace_scan.induct)
  case (2 i depth in_str escaped c s)
  then show ?case by (cases in_str; cases escaped) auto
qed simp

lemma json_span_after:
  assumes gap: "CHR ''{'' \<notin> set gap" and span: "json_object_span json = Some (0, n)"
  shows "json_object_span (gap @ json @ r) = Some (length gap, length gap + n)"
proof -
  have f: "find_sub ''{'' json = Some 0" and b: "brace_scan 0 0 False False json = Some n"
    using span by (auto simp: json_object_span_def split: option.splits)
  have "find_sub ''{'' (gap @ json @ r) = Some (length gap)"
    unfolding find_sub_Some
  proof (intro conjI allI impI)
    show "prefix ''{'' (drop (length gap) (gap @ json @ r))"
      using f by (auto simp: find_sub_Some prefix_append)
    show "\<not> prefix ''{'' (drop q (gap @ json @ r))" if "q < length gap" for q
    proof
      assume "prefix ''{'' (drop q (gap @ json @ r))"
      then have "CHR ''{'' \<in> set (drop q gap)" using that by (cases "drop q gap") auto
      then show False using gap in_set_dropD by fast
    qed
  qed simp
  moreover have "brace_scan (length gap) 0 False False (json @ r) = Some (length gap + n)"
    using brace_scan_shift [of "length gap" 0] brace_scan_append [OF b, of r] by simp
  ultimately show ?thesis by (simp add: json_object_span_def)
qed

lemma ws1_is_ascii: "ws1 b \<Longrightarrow> is_ascii b"
  unfolding ws1_def by (elim insertE) (simp_all add: is_ascii_def)

lemma ws1_ascii: "\<forall>b \<in> set ws. ws1 b \<Longrightarrow> ascii_text ws"
  using ws1_is_ascii by (simp add: ascii_set)

text \<open>A call whose body the brace scan finds whole.\<close>

lemma hermes_span_lifted:
  assumes pre: "ascii_text pre" "CHR ''<'' \<notin> set pre" and gap: "CHR ''{'' \<notin> set gap"
    and json: "json_object_span json = Some (0, length json - 1)" and ws: "\<forall>b \<in> set ws. ws1 b"
    and cs: "concat cs = pre @ ''<tool_call>'' @ gap @ json @ ws @ ''</tool_call>''"
  shows "\<exists>es. run_parser (hermes_push J) (hermes_finish J) hermes_new cs = Ok es \<and>
    split_events es = (pre, [\<lparr>tc_id = ''call_0'', tc_kind = ''function'',
      tc_name = fst (call_fields J json), tc_arguments = snd (call_fields J json)\<rparr>])"
proof -
  let ?rest = "gap @ json @ ws @ tool_close"
  have cs': "concat cs = pre @ tool_open @ ?rest" using cs by (simp add: tool_open_def tool_close_def)
  have len: "0 < length json" using json_object_span_bound(2) [OF json] by linarith
  have s1: "hermes_ref_step J (HText, 0, pre @ tool_open @ ?rest) = (True, push_text pre, Some (HInTool, 0, ?rest))"
    using earliest_plain [OF tags_text_open _ pre(2), of tool_open ?rest] pre(1)
    by (simp add: until_tag_def text_open_tags_def) (simp add: tool_open_def think_open_def)
  have s2: "hermes_ref_step J (HInTool, 0, ?rest) =
      (True, call_events J 0 json, Some (HAwaitingToolClose, 1, ws @ tool_close))"
    using json_span_after [OF gap json, of "ws @ tool_close"] len by (simp add: slice_of_def next_call_def)
  have trim: "trim_start (ws @ tool_close) = tool_close"
    by (simp add: trim_start_ws [OF ws]) (simp add: trim_start_visible tool_close_def ws1_def ws2_def ws3_def)
  have "ascii_text (ws @ tool_close)"
    using ws1_ascii [OF ws] by (simp add: tool_close_def ascii_text_def is_ascii_def)
  then have s3: "hermes_ref_step J (HAwaitingToolClose, 1, ws @ tool_close) = (True, [], Some (HText, 1, []))"
    using trim by (simp add: Let_def ascii_take del: ascii_append take_append) (simp add: tool_close_def)
  have "hermes_clean J (HText, 0, pre @ tool_open @ ?rest)"
    using hermes_ref_Some(2) [OF s1] hermes_ref_Some(2) [OF s2] hermes_ref_Some(2) [OF s3] text_Nil(2) by simp
  from hermes_chunks [OF this cs'] obtain es where
    es: "run_parser (hermes_push J) (hermes_finish J) hermes_new cs = Ok es"
      "split_events es = split_events (hermes_ref J (HText, 0, pre @ tool_open @ ?rest))" by blast
  have "hermes_ref J (HText, 0, pre @ tool_open @ ?rest) = push_text pre @ call_events J 0 json"
    using hermes_ref_Some(1) [OF s1] hermes_ref_Some(1) [OF s2] hermes_ref_Some(1) [OF s3] text_Nil(1) by simp
  then show ?thesis
    using es by (simp add: split_events_def call_events_def push_text_def Let_def case_prod_unfold show_dec_0)
qed

text \<open>
  a character outside ASCII aborts the server. Pushing any two-byte character on its own, in
  free text or reasoning, panics in this parser's own tail scan.
\<close>

lemma hermes_non_ascii_aborts:
  assumes "is_continuation b" and "a \<noteq> CHR ''<''"
  shows "hermes_push J hermes_new [a, b] = Panic \<and> hermes_push J hermes_new_in_think [a, b] = Panic"
proof -
  have b: "\<not> is_char_boundary [a, b] (Suc 0)" using assms(1) by (simp add: is_char_boundary_def)
  have "b \<noteq> CHR ''<''" using assms(1) by (auto simp: is_continuation_def)
  then have "earliest_tag text_open_tags [a, b] = None" "find_sub think_close [a, b] = None"
    by (simp_all add: text_open_tags_def tool_open_def think_open_def think_close_def)
  moreover have "hermes_ambiguous_tail_start [a, b] text_open_tags = Panic"
    "hermes_ambiguous_tail_start [a, b] [think_close] = Panic"
    using b assms(2) by (simp_all add: hermes_ambiguous_tail_start_def max_tag_len_def text_open_tags_def
        tool_open_def think_open_def think_close_def upt_rec)
  ultimately have "hermes_step J False (hermes_new\<lparr>h_buf := [a, b]\<rparr>) = Panic"
    "hermes_step J False (hermes_new_in_think\<lparr>h_buf := [a, b]\<rparr>) = Panic"
    by (simp_all add: hermes_step_def hermes_step_text_def hermes_step_in_think_def hermes_new_def hermes_new_in_think_def)
  then have "hermes_drain J False (hermes_new\<lparr>h_buf := [a, b]\<rparr>) = Panic"
    "hermes_drain J False (hermes_new_in_think\<lparr>h_buf := [a, b]\<rparr>) = Panic"
    by (subst hermes_drain.simps, simp)+
  then show ?thesis by (simp add: hermes_push_def hermes_new_def hermes_new_in_think_def)
qed

lemma hermes_non_ascii_aborts_witness: "hermes_push demo_serde hermes_new [CHR 0xC3, CHR 0xA9] = Panic"
  using hermes_non_ascii_aborts [of "CHR 0xA9" "CHR 0xC3" demo_serde] by (simp add: is_continuation_def)

lemma drain_more:
  "hermes_step J fin p = Ok (True, es, p') \<Longrightarrow>
     hermes_drain J fin p = obind (hermes_drain J fin p') (\<lambda>(es', q). Ok (es @ es', q))"
  by (subst hermes_drain.simps) simp

lemma drain_stop: "hermes_step J fin p = Ok (False, es, p') \<Longrightarrow> hermes_drain J fin p = Ok (es, p')"
  by (subst hermes_drain.simps) simp

text \<open>
  the chunks matter where a close tag is missing. A call without its own close tag, before
  another call: received in one chunk the second call is swallowed, received in two it is returned.
\<close>

lemma hermes_missing_close_swallows_call:
  "map_outcome id (\<lambda>es. length (snd (split_events es)))
     (run_parser (hermes_push demo_serde) (hermes_finish demo_serde) hermes_new
        [''<tool_call>{}x<tool_call>{}</tool_call>'']) = Ok 1 \<and>
   map_outcome id (\<lambda>es. length (snd (split_events es)))
     (run_parser (hermes_push demo_serde) (hermes_finish demo_serde) hermes_new
        [''<tool_call>{}x'', ''<tool_call>{}</tool_call>'']) = Ok 2"
proof -
  let ?p = "\<lambda>b st i. \<lparr>h_buf = b, h_state = st, h_next_index = i\<rparr>"
  let ?call = "\<lambda>i. [ToolCallOpen i [], ToolCallArgumentsDelta i ''{}'', ToolCallClose i]"
  note eval = hermes_eval demo_serde_def trim_start_visible ws1_def ws2_def ws3_def
  have stop: "hermes_drain demo_serde fin (?p [] HText i) = Ok ([], ?p [] HText i)" for fin i
    by (rule drain_stop) (simp add: hermes_eval)
  have a1: "hermes_step demo_serde False (?p ''<tool_call>{}x<tool_call>{}</tool_call>'' HText 0) =
      Ok (True, [], ?p ''{}x<tool_call>{}</tool_call>'' HInTool 0)" by (simp add: eval)
  have a2: "hermes_step demo_serde False (?p ''{}x<tool_call>{}</tool_call>'' HInTool 0) =
      Ok (True, ?call 0, ?p ''x<tool_call>{}</tool_call>'' HAwaitingToolClose 1)" by (simp add: eval)
  have a3: "hermes_step demo_serde False (?p ''x<tool_call>{}</tool_call>'' HAwaitingToolClose 1) =
      Ok (True, [], ?p [] HText 1)" by (simp add: eval)
  have one: "hermes_drain demo_serde False (?p ''<tool_call>{}x<tool_call>{}</tool_call>'' HText 0) =
      Ok (?call 0, ?p [] HText 1)"
    using drain_more [OF a1] drain_more [OF a2] drain_more [OF a3] stop by simp
  have b1: "hermes_step demo_serde False (?p ''<tool_call>{}x'' HText 0) = Ok (True, [], ?p ''{}x'' HInTool 0)"
    by (simp add: eval)
  have b2: "hermes_step demo_serde False (?p ''{}x'' HInTool 0) = Ok (True, ?call 0, ?p ''x'' HAwaitingToolClose 1)"
    by (simp add: eval)
  have b3: "hermes_step demo_serde False (?p ''x'' HAwaitingToolClose 1) = Ok (True, [], ?p ''x'' HText 1)"
    by (simp add: eval)
  have b4: "hermes_step demo_serde False (?p ''x'' HText 1) = Ok (True, [TextDelta ''x''], ?p [] HText 1)"
    by (simp add: eval)
  have two: "hermes_drain demo_serde False (?p ''<tool_call>{}x'' HText 0) = Ok (?call 0 @ [TextDelta ''x''], ?p [] HText 1)"
    using drain_more [OF b1] drain_more [OF b2] drain_more [OF b3] drain_more [OF b4] stop by simp
  have c1: "hermes_step demo_serde False (?p ''<tool_call>{}</tool_call>'' HText 1) =
      Ok (True, [], ?p ''{}</tool_call>'' HInTool 1)" by (simp add: eval)
  have c2: "hermes_step demo_serde False (?p ''{}</tool_call>'' HInTool 1) =
      Ok (True, ?call 1, ?p ''</tool_call>'' HAwaitingToolClose 2)" by (simp add: eval)
  have c3: "hermes_step demo_serde False (?p ''</tool_call>'' HAwaitingToolClose 2) = Ok (True, [], ?p [] HText 2)"
    by (simp add: eval)
  have three: "hermes_drain demo_serde False (?p ''<tool_call>{}</tool_call>'' HText 1) = Ok (?call 1, ?p [] HText 2)"
    using drain_more [OF c1] drain_more [OF c2] drain_more [OF c3] stop by simp
  show ?thesis
    by (simp add: hermes_push_def hermes_finish_def hermes_new_def one two three [unfolded One_nat_def] three stop split_events_def Let_def)
qed

end
