(* ===== verification/Tool_Hermes_Json.thy ===== *)
theory Tool_Hermes_Json
  imports Tool_Hermes_Props Json_Rfc
begin

section \<open>The Hermes brace scan on JSON objects\<close>

text \<open>
  The parser finds the end of a call's body by counting braces outside of strings. On every object
  of RFC 8259 this is the end of the object, whatever its strings contain.
\<close>

definition scan_skips :: "bytes \<Rightarrow> bool" where
  "scan_skips t \<longleftrightarrow>
     (\<forall>i d r. brace_scan i (Suc d) False False (t @ r) = brace_scan (i + length t) (Suc d) False False r)"

lemma skips_append: "scan_skips a \<Longrightarrow> scan_skips b \<Longrightarrow> scan_skips (a @ b)"
  by (simp add: scan_skips_def add.assoc)

lemma skips_plain: "list_all (\<lambda>c. c \<noteq> dquote \<and> c \<noteq> CHR ''{'' \<and> c \<noteq> CHR ''}'') t \<Longrightarrow> scan_skips t"
  unfolding scan_skips_def by (induction t) auto

lemma skips_Cons: "c \<noteq> dquote \<Longrightarrow> c \<noteq> CHR ''{'' \<Longrightarrow> c \<noteq> CHR ''}'' \<Longrightarrow> scan_skips t \<Longrightarrow> scan_skips (c # t)"
  using skips_append [OF skips_plain [of "[c]"]] by simp

lemma scan_body:
  "string_body t \<Longrightarrow> brace_scan i d True False (t @ r) = brace_scan (i + length t) d True False r"
proof (induction arbitrary: i rule: string_body.induct)
  case (body_plain b t)
  then show ?case using rfc_unescaped_plain by simp
next
  case (body_escape e t)
  then show ?case by simp
next
  case (body_unicode h1 h2 h3 h4 t)
  have h: "h \<noteq> dquote \<and> h \<noteq> backslash" if "is_hexdigit h" for h
    using that by (auto simp: is_hexdigit_def is_digit_def)
  show ?case using body_unicode h [of h1] h [of h2] h [of h3] h [of h4] by (simp add: add.assoc)
qed simp

lemma skips_string: "json_string t \<Longrightarrow> scan_skips t"
proof -
  assume "json_string t"
  then obtain body where t: "string_body body" "t = dquote # body @ [dquote]" by (auto simp: json_string_def)
  have "brace_scan i (Suc d) False False (t @ r) = brace_scan (i + length t) (Suc d) False False r" for i d r
    using scan_body [OF t(1), of "i + 1" "Suc d" "dquote # r"] t(2) by simp
  then show ?thesis by (simp add: scan_skips_def)
qed

lemma skips_ws: "all_ws w \<Longrightarrow> scan_skips w"
proof (rule skips_plain)
  assume "all_ws w"
  then show "list_all (\<lambda>c. c \<noteq> dquote \<and> c \<noteq> CHR ''{'' \<and> c \<noteq> CHR ''}'') w"
    unfolding all_ws_def by (rule list.pred_mono_strong) (auto simp: rfc_ws_def)
qed

lemma digits_number: "list_all is_digit ds \<Longrightarrow> list_all number_byte ds"
  by (auto simp: list_all_iff number_byte_def)

lemma number_bytes:
  assumes "json_number t"
  shows "list_all number_byte t"
proof -
  obtain mn ip fp ep where t: "t = mn @ ip @ fp @ ep" and p: "mn \<in> {[], ''-''}" "json_int ip" "json_frac fp" "json_exp ep"
    using assms unfolding json_number_def by blast
  have "list_all number_byte mn" using p(1) by (auto simp: number_byte_def)
  moreover have "list_all number_byte ip" using p(2) digits_number by (simp add: json_int_def digits1_def)
  moreover have "list_all number_byte fp"
    using p(3) digits_number by (fastforce simp: json_frac_def digits1_def number_byte_def)
  moreover have "list_all number_byte ep"
  proof (cases "ep = []")
    case False
    then obtain e sg ds where e: "ep = e # sg @ ds" "e \<in> {CHR ''e'', CHR ''E''}" "sg \<in> {[], ''+'', ''-''}" "digits1 ds"
      using p(4) unfolding json_exp_def by blast
    have "number_byte e" "list_all number_byte sg" using e(2,3) by (auto simp: number_byte_def)
    then show ?thesis using e(1,4) digits_number by (simp add: digits1_def)
  qed simp
  ultimately show ?thesis by (simp add: t)
qed

lemma skips_number: "json_number t \<Longrightarrow> scan_skips t"
  using number_bytes [of t] by (intro skips_plain) (auto simp: list_all_iff number_byte_def is_digit_def)

lemma skips_brackets: "scan_skips t \<Longrightarrow> scan_skips (CHR ''['' # t @ '']'')"
  by (rule skips_Cons) (simp_all add: skips_append skips_plain)

text \<open>Between its braces an object is skipped one level deeper.\<close>

lemma scan_object: "scan_skips t \<Longrightarrow> brace_scan i d False False (CHR ''{'' # t @ CHR ''}'' # r) =
    (if d = 0 then Some (i + length t + 1) else brace_scan (i + length t + 2) d False False r)"
  unfolding scan_skips_def by (simp add: add.commute)

lemma skips_object: "scan_skips t \<Longrightarrow> scan_skips (CHR ''{'' # t @ ''}'')"
  using scan_object by (simp add: scan_skips_def)

lemma skips_value:
  "json_value t \<Longrightarrow> scan_skips t"
  "json_elements t \<Longrightarrow> scan_skips t"
  "json_members t \<Longrightarrow> scan_skips t"
proof (induction rule: json_value_json_elements_json_members.inducts)
  case (value_array_empty w)
  then show ?case by (intro skips_brackets skips_ws)
next
  case (value_object_empty w)
  then show ?case by (intro skips_object skips_ws)
next
  case (elements_one w1 v w2)
  then show ?case by (simp add: skips_append skips_ws skips_string skips_Cons)
next
  case (elements_more w1 v w2 t)
  then show ?case by (simp add: skips_append skips_ws skips_string skips_Cons)
next
  case (members_one w1 k w2 w3 v w4)
  then show ?case by (simp add: skips_append skips_ws skips_string skips_Cons)
next
  case (members_more w1 k w2 w3 v w4 t)
  then show ?case by (simp add: skips_append skips_ws skips_string skips_Cons)
qed (simp_all add: skips_plain skips_number skips_string skips_brackets skips_object)

lemma object_span:
  assumes "json_value t" and "hd t = CHR ''{''"
  shows "json_object_span t = Some (0, length t - 1)"
proof -
  obtain u where u: "scan_skips u" "t = CHR ''{'' # u @ ''}''"
    using assms
  proof (cases rule: json_value.cases)
    case (value_number)
    then have "list_all number_byte t" by (simp add: number_bytes)
    moreover have "t \<noteq> []" using value_number by (auto simp: json_number_def json_int_def digits1_def)
    ultimately have "number_byte (hd t)" by (cases t) simp_all
    then show ?thesis using assms(2) by (simp add: number_byte_def is_digit_def)
  qed (auto simp: json_string_def dest: skips_ws skips_value intro: that)
  then show ?thesis using scan_object [OF u(1), of 0 0 "[]"] by (simp add: json_object_span_def find_sub_prefix)
qed

text \<open>
  C30: a call is lifted whole. Text without angle brackets, the opening tag, any RFC 8259 object
  (closing tags and braces in its strings included), white space and the closing tag: in any chunks
  the response is that text as content and one call with the name and the arguments of the object.
\<close>

lemma hermes_object_lifted:
  assumes pre: "ascii_text pre" "CHR ''<'' \<notin> set pre" and gap: "CHR ''{'' \<notin> set gap"
    and json: "json_value json" "hd json = CHR ''{''" and ws: "\<forall>b \<in> set ws. ws1 b"
    and cs: "concat cs = pre @ ''<tool_call>'' @ gap @ json @ ws @ ''</tool_call>''"
  shows "\<exists>es. run_parser (hermes_push J) (hermes_finish J) hermes_new cs = Ok es \<and>
    split_events es = (pre, [\<lparr>tc_id = ''call_0'', tc_kind = ''function'',
      tc_name = fst (call_fields J json), tc_arguments = snd (call_fields J json)\<rparr>])"
  by (rule hermes_span_lifted [OF pre gap object_span [OF json] ws cs])

lemma demo_object: "json_value (CHR ''{'' # [dquote] @ ''a}'' @ [dquote] @ '':1}'')"
proof -
  have "string_body ''a}''" by (intro body_plain body_nil) (simp_all add: rfc_unescaped_def)
  then have k: "json_string ([dquote] @ ''a}'' @ [dquote])" by (auto simp: json_string_def)
  have "json_number ''1''"
    unfolding json_number_def json_int_def json_frac_def json_exp_def
    by (rule exI [of _ "[]"], rule exI [of _ "''1''"]) (simp add: digits1_def is_digit_def)
  then have v: "json_value ''1''" by (rule value_number)
  show ?thesis
    using value_object [OF members_one [OF _ k _ _ v, of "[]" "[]" "[]" "[]"]] by (simp add: all_ws_def)
qed

lemma hermes_object_lifted_witness:
  "\<exists>es. run_parser (hermes_push demo_serde) (hermes_finish demo_serde) hermes_new
      [''a<tool_'', ''call>{'' @ [dquote], ''a}'' @ [dquote] @ '':1} </tool_call>''] = Ok es \<and>
    split_events es = (''a'', [\<lparr>tc_id = ''call_0'', tc_kind = ''function'', tc_name = [], tc_arguments = ''{}''\<rparr>])"
  using hermes_object_lifted [OF _ _ _ demo_object, of "''a''" "[]" "'' ''"
    "[''a<tool_'', ''call>{'' @ [dquote], ''a}'' @ [dquote] @ '':1} </tool_call>'']" demo_serde]
  by (simp add: ascii_text_def is_ascii_def ws1_def call_fields_def demo_serde_def)

end
