(* ===== verification/Tool_Qwen.thy ===== *)
theory Tool_Qwen
  imports Tool_Events "HOL-Library.AList"
begin

section \<open>The Qwen3-Coder parser\<close>

text \<open>
  \<^verbatim>\<open>crates/server/src/tool_call_parser/qwen3_coder.rs\<close>: the streaming parser of
  \<^verbatim>\<open><tool_call><function=NAME><parameter=K>V</parameter></function></tool_call>\<close> with the lenient
  openings it also takes. Rendering the parameters as a JSON object is \<^verbatim>\<open>serde_json\<close>'s and a
  parameter; the map keeps the order of insertion and a repeated key its place.
\<close>

definition function_open :: bytes where "function_open = ''<function=''"
definition function_close :: bytes where "function_close = ''</function>''"
definition parameter_open :: bytes where "parameter_open = ''<parameter=''"
definition parameter_close :: bytes where "parameter_close = ''</parameter>''"

datatype qwen_state =
  QText | QInThink | QInToolCall | QInFunctionBody | QInParameterBody | QAwaitingToolCallClose

definition text_state_open_tags :: "bytes list" where
  "text_state_open_tags = [tool_open, think_open]"

record qwen =
  q_state :: qwen_state
  q_buf :: bytes
  q_next_index :: nat
  q_current_name :: bytes
  q_current_param_key :: bytes
  q_current_params :: "(bytes \<times> bytes) list"

definition qwen_new :: qwen where
  "qwen_new = \<lparr>q_state = QText, q_buf = [], q_next_index = 0, q_current_name = [],
     q_current_param_key = [], q_current_params = []\<rparr>"

definition qwen_new_in_think :: qwen where
  "qwen_new_in_think = qwen_new\<lparr>q_state := QInThink\<rparr>"

subsection \<open>Openings\<close>

definition is_name_char :: "byte \<Rightarrow> bool" where
  "is_name_char c \<longleftrightarrow> is_digit c \<or> ((65::nat) \<le> of_char c \<and> of_char c \<le> (90::nat))
     \<or> ((97::nat) \<le> of_char c \<and> of_char c \<le> (122::nat)) \<or> c = CHR ''_'' \<or> c = CHR ''-'' \<or> c = CHR ''.''"

definition is_function_name :: "bytes \<Rightarrow> bool" where
  "is_function_name inner \<longleftrightarrow> inner \<noteq> [] \<and> list_all is_name_char inner
     \<and> inner \<noteq> ''tool_call'' \<and> inner \<noteq> ''think''"

definition is_partial_bare_name :: "bytes \<Rightarrow> bool" where
  "is_partial_bare_name part \<longleftrightarrow> prefix ''<'' part \<and> list_all is_name_char (drop 1 part)"

text \<open>The two anchors that make a bare tag a function open.\<close>

definition starts_body :: "bytes \<Rightarrow> bool" where
  "starts_body after \<longleftrightarrow> prefix parameter_open after \<or> prefix function_close after"

text \<open>The scan for a bare \<^verbatim>\<open><NAME>\<close> from position \<open>i\<close> on: its start, the length of the tag, the name.\<close>

function bare_open :: "bytes \<Rightarrow> nat \<Rightarrow> (nat \<times> nat \<times> bytes) option" where
  "bare_open buf i =
     (case find_sub ''<'' (drop i buf) of
        None \<Rightarrow> None
      | Some rel \<Rightarrow>
          (case find_sub ''>'' (drop (i + rel) buf) of
             None \<Rightarrow> None
           | Some gtr \<Rightarrow>
               (let lt = i + rel; gt = lt + gtr; inner = slice_of buf (lt + 1) gt in
                if is_function_name inner \<and> starts_body (trim_start (drop (gt + 1) buf))
                then Some (lt, gt + 1 - lt, inner)
                else bare_open buf (gt + 1))))"
  by pat_completeness auto

termination bare_open
proof (relation "measure (\<lambda>(buf, i). length buf - i)", goal_cases)
  case (2 buf i rel gtr lt gt inner)
  then show ?case using find_sub_bound [of "''<''" "drop i buf" rel] by simp
qed simp

declare bare_open.simps [simp del]

definition find_function_open :: "bytes \<Rightarrow> (nat \<times> nat \<times> bytes) option" where
  "find_function_open buf =
     (let canonical = (case find_sub function_open buf of
          None \<Rightarrow> None
        | Some p \<Rightarrow>
            (let after = p + length function_open in
             map_option (\<lambda>gt. (p, after + gt + 1 - p, slice_of buf after (after + gt)))
               (find_sub ''>'' (drop after buf)))) in
      case bare_open buf 0 of
        None \<Rightarrow> canonical
      | Some b \<Rightarrow> (case canonical of None \<Rightarrow> Some b | Some c \<Rightarrow> if fst b < fst c then Some b else Some c))"

subsection \<open>Holding back\<close>

definition rfind_lt :: "bytes \<Rightarrow> nat option" where
  "rfind_lt s = map_option (\<lambda>i. length s - 1 - i) (position (\<lambda>c. c = CHR ''<'') (rev s))"

text \<open>A buffer that ends in a complete \<^verbatim>\<open><NAME>\<close>.\<close>

definition complete_name_holdback :: "bytes \<Rightarrow> nat \<Rightarrow> nat" where
  "complete_name_holdback buf end =
     (if buf ! (end - 1) = CHR ''>''
      then (case rfind_lt (take end buf) of
              Some lt \<Rightarrow> if is_function_name (slice_of buf (lt + 1) (end - 1)) then lt else length buf
            | None \<Rightarrow> length buf)
      else length buf)"

definition bare_open_holdback :: "bytes \<Rightarrow> nat" where
  "bare_open_holdback buf =
     (let n = length buf; end = trim_end_len buf n in
      if end = 0 then n
      else if buf ! (end - 1) \<noteq> CHR ''>'' then
        (case rfind_lt (take end buf) of
           None \<Rightarrow> n
         | Some lt \<Rightarrow>
             (let part = slice_of buf lt end in
              if prefix part parameter_open \<or> prefix part function_close
              then (let end = trim_end_len buf lt in
                    if end = 0 then lt else complete_name_holdback buf end)
              else if is_partial_bare_name part then lt else n))
      else complete_name_holdback buf end)"

definition pending_tool_tail_start :: "bytes \<Rightarrow> nat" where
  "pending_tool_tail_start buf =
     min (ambiguous_tail_start buf [tool_open, think_open, function_open]) (bare_open_holdback buf)"

subsection \<open>The steps\<close>

type_synonym qwen_step = "bool \<times> parser_event list \<times> qwen"

definition open_function :: "qwen \<Rightarrow> nat \<Rightarrow> bytes \<Rightarrow> qwen" where
  "open_function p n name =
     p\<lparr>q_buf := drop n (q_buf p), q_current_name := name, q_current_params := [],
       q_state := QInFunctionBody\<rparr>"

definition qwen_step_text :: "qwen \<Rightarrow> bool \<Rightarrow> qwen_step" where
  "qwen_step_text p is_finish =
     (let tag = earliest_tag text_state_open_tags (q_buf p);
          func = find_function_open (q_buf p);
          func_first = (case (tag, func) of
              (Some (t, _), Some (f, _)) \<Rightarrow> f < t | (None, Some _) \<Rightarrow> True | _ \<Rightarrow> False) in
      case (if func_first then func else None) of
        Some (pos, tag_len, name) \<Rightarrow>
          (True, push_text (take pos (q_buf p)) @ [ToolCallOpen (q_next_index p) name],
           open_function p (pos + tag_len) name)
      | None \<Rightarrow>
          (case tag of
             Some (pos, t) \<Rightarrow>
               (True, push_text (take pos (q_buf p)),
                p\<lparr>q_buf := drop (pos + length t) (q_buf p),
                  q_state := (if t = tool_open then QInToolCall else QInThink)\<rparr>)
           | None \<Rightarrow>
               (let emit_upto = align_down_char_boundary (q_buf p)
                      (if is_finish then length (q_buf p) else pending_tool_tail_start (q_buf p)) in
                if 0 < emit_upto
                then (True, push_text (take emit_upto (q_buf p)), p\<lparr>q_buf := drop emit_upto (q_buf p)\<rparr>)
                else (False, [], p))))"

definition qwen_step_in_think :: "qwen \<Rightarrow> bool \<Rightarrow> qwen_step" where
  "qwen_step_in_think p is_finish =
     (case find_sub think_close (q_buf p) of
        Some pos \<Rightarrow>
          (True, push_think (take pos (q_buf p)),
           p\<lparr>q_buf := drop (pos + length think_close) (q_buf p), q_state := QText\<rparr>)
      | None \<Rightarrow>
          (let emit_upto = align_down_char_boundary (q_buf p)
                 (if is_finish then length (q_buf p) else ambiguous_tail_start (q_buf p) [think_close]) in
           if 0 < emit_upto
           then (True, push_think (take emit_upto (q_buf p)), p\<lparr>q_buf := drop emit_upto (q_buf p)\<rparr>)
           else (False, [], p)))"

definition qwen_step_in_tool_call :: "qwen \<Rightarrow> qwen_step" where
  "qwen_step_in_tool_call p =
     (case find_function_open (q_buf p) of
        None \<Rightarrow> (False, [], p)
      | Some (pos, tag_len, name) \<Rightarrow>
          (True, [ToolCallOpen (q_next_index p) name], open_function p (pos + tag_len) name))"

text \<open>The earlier of a parameter and the close of the function; \<open>True\<close> for a parameter.\<close>

definition next_in_body :: "bytes \<Rightarrow> (nat \<times> bool) option" where
  "next_in_body buf =
     (case (find_sub parameter_open buf, find_sub function_close buf) of
        (Some p, Some f) \<Rightarrow> if p < f then Some (p, True) else Some (f, False)
      | (Some p, None) \<Rightarrow> Some (p, True)
      | (None, Some f) \<Rightarrow> Some (f, False)
      | (None, None) \<Rightarrow> None)"

definition args_json :: "((bytes \<times> bytes) list \<Rightarrow> bytes option) \<Rightarrow> (bytes \<times> bytes) list \<Rightarrow> bytes" where
  "args_json render params = (case render params of Some s \<Rightarrow> s | None \<Rightarrow> ''{}'')"

definition qwen_step_in_function_body ::
    "((bytes \<times> bytes) list \<Rightarrow> bytes option) \<Rightarrow> qwen \<Rightarrow> qwen_step" where
  "qwen_step_in_function_body render p =
     (case next_in_body (q_buf p) of
        None \<Rightarrow> (False, [], p)
      | Some (pos, is_param) \<Rightarrow>
          (let buf = drop pos (q_buf p) in
           if is_param then
             (let after_prefix = length parameter_open in
              case find_sub ''>'' (drop after_prefix buf) of
                None \<Rightarrow> (False, [], p\<lparr>q_buf := buf\<rparr>)
              | Some close_rel \<Rightarrow>
                  (True, [], p\<lparr>q_buf := drop (after_prefix + close_rel + 1) buf,
                     q_current_param_key := slice_of buf after_prefix (after_prefix + close_rel),
                     q_state := QInParameterBody\<rparr>))
           else
             (True, [ToolCallArgumentsDelta (q_next_index p) (args_json render (q_current_params p))],
              p\<lparr>q_buf := drop (length function_close) buf, q_current_params := [],
                q_state := QAwaitingToolCallClose\<rparr>)))"

text \<open>A parameter's value without the newline the template puts at either end.\<close>

definition param_value :: "bytes \<Rightarrow> bytes" where
  "param_value s =
     (let stop = length s;
          start = (if 0 < stop \<and> s ! 0 = CHR 0x0A then 1 else 0);
          stop = (if start < stop \<and> s ! (stop - 1) = CHR 0x0A then stop - 1 else stop) in
      slice_of s start stop)"

definition qwen_step_in_parameter_body :: "qwen \<Rightarrow> qwen_step" where
  "qwen_step_in_parameter_body p =
     (case find_sub parameter_close (q_buf p) of
        None \<Rightarrow> (False, [], p)
      | Some pos \<Rightarrow>
          (True, [], p\<lparr>q_buf := drop (pos + length parameter_close) (q_buf p), q_current_param_key := [],
             q_current_params := AList.update (q_current_param_key p) (param_value (take pos (q_buf p)))
               (q_current_params p),
             q_state := QInFunctionBody\<rparr>))"

definition qwen_step_awaiting_close :: "qwen \<Rightarrow> qwen_step" where
  "qwen_step_awaiting_close p =
     (case earliest_tag [tool_close, function_open, parameter_open] (q_buf p) of
        None \<Rightarrow> (False, [], p)
      | Some (pos, kind) \<Rightarrow>
          (let i = q_next_index p; p = p\<lparr>q_buf := drop pos (q_buf p), q_next_index := next_call i\<rparr> in
           if kind = tool_close
           then (True, [ToolCallClose i],
                 p\<lparr>q_buf := drop (length tool_close) (q_buf p), q_state := QText\<rparr>)
           else if kind = function_open
           then (True, [ToolCallClose i], p\<lparr>q_state := QInToolCall\<rparr>)
           else if q_current_name p = [] then (False, [ToolCallClose i], p)
           else (True, [ToolCallClose i, ToolCallOpen (next_call i) (q_current_name p)],
                 p\<lparr>q_state := QInFunctionBody\<rparr>)))"

definition qwen_step ::
    "((bytes \<times> bytes) list \<Rightarrow> bytes option) \<Rightarrow> bool \<Rightarrow> qwen \<Rightarrow> qwen_step" where
  "qwen_step render is_finish p =
     (case q_state p of
        QText \<Rightarrow> qwen_step_text p is_finish
      | QInThink \<Rightarrow> qwen_step_in_think p is_finish
      | QInToolCall \<Rightarrow> qwen_step_in_tool_call p
      | QInFunctionBody \<Rightarrow> qwen_step_in_function_body render p
      | QInParameterBody \<Rightarrow> qwen_step_in_parameter_body p
      | QAwaitingToolCallClose \<Rightarrow> qwen_step_awaiting_close p)"

subsection \<open>The drain loop and the interface\<close>

text \<open>A text that starts with a bare function open for \<open>name\<close>.\<close>

definition bare_at :: "bytes \<Rightarrow> bytes \<Rightarrow> bool" where
  "bare_at s name \<longleftrightarrow> is_function_name name \<and>
     (\<exists>rest. s = CHR ''<'' # name @ CHR ''>'' # rest \<and> starts_body (trim_start rest))"

lemma find_char: "find_sub [c] s = Some i \<Longrightarrow> i < length s \<and> s ! i = c \<and> c \<notin> set (take i s)"
proof -
  assume f: "find_sub [c] s = Some i"
  have i: "i < length s" using find_sub_bound [OF f] by simp
  have "s ! j \<noteq> c" if "j < i" for j
  proof
    assume "s ! j = c"
    then have "drop j s = c # drop (Suc j) s" using that i Cons_nth_drop_Suc [of j s] by simp
    then have "prefix [c] (drop j s)" by simp
    then show False using f that by (simp add: find_sub_Some)
  qed
  then have "c \<notin> set (take i s)" by (auto simp: in_set_conv_nth)
  moreover have "s ! i = c"
  proof -
    have "prefix [c] (drop i s)" using f by (simp add: find_sub_Some)
    moreover have "drop i s = s ! i # drop (Suc i) s" using Cons_nth_drop_Suc [OF i] by simp
    ultimately show ?thesis by simp
  qed
  ultimately show ?thesis using i by blast
qed

lemma bare_open_cases:
  assumes "bare_open buf i = Some r"
  obtains rel gtr where "find_sub ''<'' (drop i buf) = Some rel" "find_sub ''>'' (drop (i + rel) buf) = Some gtr"
    "let lt = i + rel; gt = lt + gtr; inner = slice_of buf (lt + 1) gt in
       is_function_name inner \<and> starts_body (trim_start (drop (gt + 1) buf)) \<and> r = (lt, gt + 1 - lt, inner)"
  | rel gtr where "find_sub ''<'' (drop i buf) = Some rel" "find_sub ''>'' (drop (i + rel) buf) = Some gtr"
    "let lt = i + rel; gt = lt + gtr; inner = slice_of buf (lt + 1) gt in
       \<not> (is_function_name inner \<and> starts_body (trim_start (drop (gt + 1) buf)))"
    "bare_open buf (i + rel + gtr + 1) = Some r"
proof -
  obtain rel where rel: "find_sub ''<'' (drop i buf) = Some rel"
    using assms by (subst (asm) bare_open.simps) (auto split: option.splits)
  obtain gtr where gtr: "find_sub ''>'' (drop (i + rel) buf) = Some gtr"
    using assms rel by (subst (asm) bare_open.simps) (auto split: option.splits)
  let ?c = "is_function_name (slice_of buf (i + rel + 1) (i + rel + gtr)) \<and>
    starts_body (trim_start (drop (i + rel + gtr + 1) buf))"
  have "(if ?c then Some (i + rel, i + rel + gtr + 1 - (i + rel), slice_of buf (i + rel + 1) (i + rel + gtr))
      else bare_open buf (i + rel + gtr + 1)) = Some r"
    using assms rel gtr by (subst (asm) bare_open.simps) (simp only: option.case Let_def)
  then show ?thesis using that rel gtr unfolding Let_def by (cases ?c) (metis option.inject)+
qed

lemma bare_open_spec:
  "bare_open buf i = Some (p, len, name) \<Longrightarrow> i \<le> p \<and> p < length buf \<and> bare_at (drop p buf) name \<and> len = length name + 2"
proof (induction buf i rule: bare_open.induct)
  case (1 buf i)
  from 1(2) show ?case
  proof (cases rule: bare_open_cases)
    case (1 rel gtr)
    let ?x = "drop (i + rel) buf"
    have rel: "rel < length buf - i" "drop i buf ! rel = CHR ''<''" using find_char [OF 1(1)] by simp_all
    then have lt: "i + rel < length buf" by linarith
    then have "buf ! (i + rel) = CHR ''<''" using rel(2) by simp
    then have x: "?x = CHR ''<'' # drop (i + rel + 1) buf" using Cons_nth_drop_Suc [OF lt] by simp
    have g: "gtr < length ?x" "?x ! gtr = CHR ''>''" using find_char [OF 1(2)] by simp_all
    then obtain k where k: "gtr = Suc k" using x by (cases gtr) auto
    have name: "name = take k (drop (i + rel + 1) buf)" "p = i + rel" "len = gtr + 1"
      "is_function_name name" "starts_body (trim_start (drop (gtr + 1) ?x))"
      using 1(3) k by (simp_all add: Let_def slice_of_def add.commute)
    have "drop (i + rel + 1) buf = name @ CHR ''>'' # drop (gtr + 1) ?x"
    proof -
      have "drop (i + rel + 1) buf ! k = CHR ''>''" "k < length (drop (i + rel + 1) buf)"
        using g x k by (metis nth_Cons_Suc, simp)
      then have "drop (i + rel + 1) buf = name @ CHR ''>'' # drop (Suc k) (drop (i + rel + 1) buf)"
        using name(1) id_take_nth_drop [of k "drop (i + rel + 1) buf"] by metis
      then show ?thesis using x k by (metis drop_Suc_Cons add.commute plus_1_eq_Suc)
    qed
    moreover have "length name = k" using name(1) g k by simp
    ultimately show ?thesis using x name lt(1) k by (auto simp: bare_at_def)
  next
    case (2 rel gtr)
    have "\<not> (is_function_name (slice_of buf (i + rel + 1) (i + rel + gtr)) \<and>
        starts_body (trim_start (drop (i + rel + gtr + 1) buf)))" using 2(3) by (simp add: Let_def)
    from 1(1) [OF 2(1,2) refl refl refl this 2(4)] show ?thesis by simp
  qed
qed

lemma find_function_open_spec:
  assumes "find_function_open buf = Some (p, len, name)"
  shows "p + len \<le> length buf" and "0 < len"
    and "prefix function_open (drop p buf) \<or> bare_at (drop p buf) name"
proof -
  consider (canonical) gt where "find_sub function_open buf = Some p"
      "find_sub ''>'' (drop (p + length function_open) buf) = Some gt" "len = p + length function_open + gt + 1 - p"
    | (bare) "bare_open buf 0 = Some (p, len, name)"
    using assms by (auto simp: find_function_open_def Let_def split: option.splits if_splits)
  then have "p + len \<le> length buf \<and> 0 < len \<and> (prefix function_open (drop p buf) \<or> bare_at (drop p buf) name)"
  proof cases
    case canonical
    then show ?thesis using find_sub_bound [OF canonical(1)] find_sub_bound [OF canonical(2)]
      by (simp add: find_sub_Some)
  next
    case bare
    from bare_open_spec [OF this] have b: "p < length buf" "bare_at (drop p buf) name" "len = length name + 2" by simp_all
    then have "length (drop p buf) \<ge> len" by (fastforce simp: bare_at_def simp del: length_drop)
    then show ?thesis using b by simp
  qed
  then show "p + len \<le> length buf" "0 < len" "prefix function_open (drop p buf) \<or> bare_at (drop p buf) name"
    by blast+
qed

definition qwen_size :: "qwen \<Rightarrow> nat" where
  "qwen_size p = 2 * length (q_buf p) + (if q_state p = QAwaitingToolCallClose then 1 else 0)"

lemma tags_text_state: "tag_list text_state_open_tags"
  by (simp add: tag_list_def is_tag_def text_state_open_tags_def tool_open_def think_open_def)

lemma tags_awaiting: "tag_list [tool_close, function_open, parameter_open]"
  by (simp add: tag_list_def is_tag_def tool_close_def function_open_def parameter_open_def)

lemma qwen_step_size:
  assumes "qwen_step render fin p = (True, es, p')"
  shows "qwen_size p' < qwen_size p"
proof (cases "q_state p")
  case QText
  show ?thesis
  proof (cases "find_function_open (q_buf p)")
    case None
    then show ?thesis using assms QText earliest_tag_bound(2) [OF tags_text_state, of "q_buf p"]
      by (auto simp: qwen_step_def qwen_step_text_def qwen_size_def Let_def align_down_shrinks
          split: option.splits if_splits)
  next
    case (Some f)
    obtain q len name where f: "f = (q, len, name)" by (metis prod_cases3)
    have "length (q_buf p) - (q + len) < length (q_buf p)"
      using find_function_open_spec(1,2) [OF Some [unfolded f]] by linarith
    then show ?thesis using assms QText Some f earliest_tag_bound(2) [OF tags_text_state, of "q_buf p"]
      by (auto simp: qwen_step_def qwen_step_text_def qwen_size_def Let_def open_function_def
          align_down_shrinks split: option.splits if_splits)
  qed
next
  case QInThink
  then show ?thesis using assms find_sub_bound [of think_close "q_buf p"]
    by (auto simp: qwen_step_def qwen_step_in_think_def qwen_size_def Let_def think_close_def align_down_shrinks
        split: option.splits if_splits)
next
  case QInToolCall
  then show ?thesis using assms find_function_open_spec(1,2) [of "q_buf p"]
    by (auto simp: qwen_step_def qwen_step_in_tool_call_def qwen_size_def open_function_def split: option.splits)
next
  case QInFunctionBody
  then show ?thesis using assms
    by (auto simp: qwen_step_def qwen_step_in_function_body_def qwen_size_def Let_def function_close_def
        parameter_open_def next_in_body_def split: option.splits if_splits dest!: find_sub_bound)
next
  case QInParameterBody
  then show ?thesis using assms
    by (auto simp: qwen_step_def qwen_step_in_parameter_body_def qwen_size_def parameter_close_def
        split: option.splits dest!: find_sub_bound)
next
  case QAwaitingToolCallClose
  then show ?thesis using assms
    by (auto simp: qwen_step_def qwen_step_awaiting_close_def qwen_size_def Let_def tool_close_def
        split: option.splits if_splits)
qed

function qwen_drain ::
    "((bytes \<times> bytes) list \<Rightarrow> bytes option) \<Rightarrow> bool \<Rightarrow> qwen \<Rightarrow> parser_event list \<times> qwen" where
  "qwen_drain render is_finish p =
     (case qwen_step render is_finish p of
        (made_progress, es, p') \<Rightarrow>
          if \<not> made_progress then (es, p')
          else (let (es', q) = qwen_drain render is_finish p' in (es @ es', q)))"
  by pat_completeness auto

termination qwen_drain
  by (relation "measure (\<lambda>(render, fin, p). qwen_size p)") (auto dest: qwen_step_size [OF sym])

declare qwen_drain.simps [simp del]

definition qwen_push ::
    "((bytes \<times> bytes) list \<Rightarrow> bytes option) \<Rightarrow> qwen \<Rightarrow> bytes \<Rightarrow> parser_event list \<times> qwen" where
  "qwen_push render p chunk =
     (if chunk = [] then ([], p) else qwen_drain render False (p\<lparr>q_buf := q_buf p @ chunk\<rparr>))"

text \<open>The text left over, without a leading newline.\<close>

definition strip_newline :: "bytes \<Rightarrow> bytes" where
  "strip_newline s = (case s of c # s' \<Rightarrow> if c = CHR 0x0A then s' else s | [] \<Rightarrow> [])"

definition qwen_finish ::
    "((bytes \<times> bytes) list \<Rightarrow> bytes option) \<Rightarrow> qwen \<Rightarrow> parser_event list \<times> qwen" where
  "qwen_finish render p =
     (let (out, q) = qwen_drain render True p in
      if q_buf q \<noteq> [] then (out @ push_text (strip_newline (q_buf q)), q\<lparr>q_buf := []\<rparr>) else (out, q))"

end
