(* ===== verification/Tool_Qwen_Ref.thy ===== *)
theory Tool_Qwen_Ref
  imports Tool_Qwen
begin

section \<open>When the Qwen3-Coder parser does not depend on the chunking\<close>

text \<open>
  The reference parser sees the whole text. The streaming parser agrees with it in any chunks when
  every call is wrapped in \<^verbatim>\<open><tool_call>\<close> and opened by \<^verbatim>\<open><function=\<close>, with any free text,
  reasoning, keys and values around, in any encoding. The lenient openings are outside of that
  class, and the last theorems show that there the contract of the trait fails.
\<close>

subsection \<open>The reference parser\<close>

text \<open>A text that starts with one of the openings the parser accepts outside of the wrapper.\<close>

definition opens :: "bytes \<Rightarrow> bool" where
  "opens s \<longleftrightarrow> prefix function_open s \<or>
     (case s of
        [] \<Rightarrow> False
      | c # s' \<Rightarrow> c = CHR ''<'' \<and>
          (let name = takeWhile (\<lambda>c. c \<noteq> CHR ''>'') s'; after = dropWhile (\<lambda>c. c \<noteq> CHR ''>'') s' in
           is_function_name name \<and> after \<noteq> [] \<and> starts_body (trim_start (tl after))))"

definition text_ok :: "bytes \<Rightarrow> nat \<Rightarrow> bool" where
  "text_ok s pos \<longleftrightarrow> (\<forall>lt < pos. \<not> opens (drop lt s))"

definition left_over :: "bytes \<Rightarrow> parser_event list" where
  "left_over s = push_text (strip_newline s)"

definition qwen_ref_step ::
    "((bytes \<times> bytes) list \<Rightarrow> bytes option) \<Rightarrow> qwen \<Rightarrow> bool \<times> parser_event list \<times> qwen option" where
  "qwen_ref_step render p =
     (let s = q_buf p; i = q_next_index p in
      case q_state p of
        QText \<Rightarrow>
          until_tag text_ok text_state_open_tags push_text
            (\<lambda>t rest. p\<lparr>q_buf := rest, q_state := (if t = tool_open then QInToolCall else QInThink)\<rparr>) s
      | QInThink \<Rightarrow>
          until_tag (\<lambda>_ _. True) [think_close] push_think (\<lambda>_ rest. p\<lparr>q_buf := rest, q_state := QText\<rparr>) s
      | QInToolCall \<Rightarrow>
          (case find_sub ''<'' s of
             None \<Rightarrow> (True, left_over s, None)
           | Some lt \<Rightarrow>
               if prefix function_open (drop lt s) then
                 (let after = lt + length function_open in
                  case find_sub ''>'' (drop after s) of
                    None \<Rightarrow> (True, left_over s, None)
                  | Some g \<Rightarrow>
                      (let name = slice_of s after (after + g) in
                       (True, [ToolCallOpen i name], Some (open_function p (after + g + 1) name))))
               else (prefix (drop lt s) function_open, left_over s, None))
      | QInFunctionBody \<Rightarrow>
          (case earliest_tag [parameter_open, function_close] s of
             None \<Rightarrow> (True, left_over s, None)
           | Some (pos, t) \<Rightarrow>
               (let buf = drop pos s in
                if t = parameter_open then
                  (case find_sub ''>'' (drop (length parameter_open) buf) of
                     None \<Rightarrow> (True, left_over buf, None)
                   | Some g \<Rightarrow>
                       (True, [], Some (p\<lparr>q_buf := drop (length parameter_open + g + 1) buf,
                          q_current_param_key := slice_of buf (length parameter_open) (length parameter_open + g),
                          q_state := QInParameterBody\<rparr>)))
                else
                  (True, [ToolCallArgumentsDelta i (args_json render (q_current_params p))],
                   Some (p\<lparr>q_buf := drop (length function_close) buf, q_current_params := [],
                     q_state := QAwaitingToolCallClose\<rparr>))))
      | QInParameterBody \<Rightarrow>
          (case find_sub parameter_close s of
             None \<Rightarrow> (True, left_over s, None)
           | Some pos \<Rightarrow>
               (True, [], Some (p\<lparr>q_buf := drop (pos + length parameter_close) s, q_current_param_key := [],
                  q_current_params := AList.update (q_current_param_key p) (param_value (take pos s))
                    (q_current_params p),
                  q_state := QInFunctionBody\<rparr>)))
      | QAwaitingToolCallClose \<Rightarrow>
          (case earliest_tag [tool_close, function_open, parameter_open] s of
             None \<Rightarrow> (True, left_over s, None)
           | Some (pos, kind) \<Rightarrow>
               (let q = p\<lparr>q_buf := drop pos s, q_next_index := next_call i\<rparr> in
                if kind = tool_close
                then (True, [ToolCallClose i],
                      Some (q\<lparr>q_buf := drop (length tool_close) (drop pos s), q_state := QText\<rparr>))
                else if kind = function_open
                then (True, [ToolCallClose i], Some (q\<lparr>q_state := QInToolCall\<rparr>))
                else (q_current_name p \<noteq> [], [ToolCallClose i, ToolCallOpen (next_call i) (q_current_name p)],
                      Some (q\<lparr>q_state := QInFunctionBody\<rparr>)))))"

lemma tags_body: "tag_list [parameter_open, function_close]"
  by (simp add: tag_list_def is_tag_def parameter_open_def function_close_def)

lemma qwen_ref_size:
  assumes "qwen_ref_step render p = (ok, es, Some p')"
  shows "qwen_size p' < qwen_size p"
proof (cases "q_state p")
  case QText
  then show ?thesis using assms earliest_tag_bound(2) [OF tags_text_state, of "q_buf p"]
    by (auto simp: qwen_ref_step_def until_tag_def qwen_size_def Let_def split: option.splits)
next
  case QInThink
  then show ?thesis using assms earliest_tag_bound(2) [OF tags_think_close, of "q_buf p"]
    by (auto simp: qwen_ref_step_def until_tag_def qwen_size_def Let_def simp del: earliest_tag.simps
        split: option.splits)
next
  case QInToolCall
  then show ?thesis using assms
    by (auto simp: qwen_ref_step_def qwen_size_def open_function_def Let_def split: option.splits if_splits
        dest!: find_sub_bound)
next
  case QInFunctionBody
  then show ?thesis using assms earliest_tag_bound [OF tags_body, of "q_buf p"]
    by (auto simp: qwen_ref_step_def qwen_size_def Let_def function_close_def simp del: earliest_tag.simps
        split: option.splits if_splits dest!: find_sub_bound)
next
  case QInParameterBody
  then show ?thesis using assms
    by (auto simp: qwen_ref_step_def qwen_size_def Let_def parameter_close_def split: option.splits
        dest!: find_sub_bound)
next
  case QAwaitingToolCallClose
  then show ?thesis using assms earliest_tag_bound [OF tags_awaiting, of "q_buf p"]
    by (auto simp: qwen_ref_step_def qwen_size_def Let_def tool_close_def simp del: earliest_tag.simps
        split: option.splits if_splits)
qed

function qwen_ref :: "((bytes \<times> bytes) list \<Rightarrow> bytes option) \<Rightarrow> qwen \<Rightarrow> parser_event list" where
  "qwen_ref render p =
     (case qwen_ref_step render p of
        (_, es, None) \<Rightarrow> es
      | (_, es, Some p') \<Rightarrow> es @ qwen_ref render p')"
  by pat_completeness auto
termination qwen_ref
  by (relation "measure (\<lambda>(render, p). qwen_size p)") (auto dest: qwen_ref_size [OF sym])

function qwen_clean :: "((bytes \<times> bytes) list \<Rightarrow> bytes option) \<Rightarrow> qwen \<Rightarrow> bool" where
  "qwen_clean render p =
     (case qwen_ref_step render p of
        (ok, _, None) \<Rightarrow> ok
      | (ok, _, Some p') \<Rightarrow> ok \<and> qwen_clean render p')"
  by pat_completeness auto
termination qwen_clean
  by (relation "measure (\<lambda>(render, p). qwen_size p)") (auto dest: qwen_ref_size [OF sym])

declare qwen_ref.simps [simp del] qwen_clean.simps [simp del]

lemma qwen_ref_Some:
  "qwen_ref_step render p = (ok, es, Some p') \<Longrightarrow> qwen_ref render p = es @ qwen_ref render p'"
  "qwen_ref_step render p = (ok, es, Some p') \<Longrightarrow> qwen_clean render p \<longleftrightarrow> ok \<and> qwen_clean render p'"
  by (subst qwen_ref.simps, simp) (subst qwen_clean.simps, simp)

lemma qwen_ref_None:
  "qwen_ref_step render p = (ok, es, None) \<Longrightarrow> qwen_ref render p = es"
  "qwen_ref_step render p = (ok, es, None) \<Longrightarrow> qwen_clean render p \<longleftrightarrow> ok"
  by (subst qwen_ref.simps, simp) (subst qwen_clean.simps, simp)

subsection \<open>Openings in a part of the text\<close>

lemma trim_start_visible_append:
  "trim_start s = c # w \<Longrightarrow> is_ascii c \<Longrightarrow> trim_start (s @ z) = c # w @ z"
proof (induction s rule: trim_start.induct)
  case (1 s)
  show ?case
  proof (cases "ws_len s = 0")
    case True
    then have s: "s = c # w" using 1(2) trim_start_visible by simp
    have "ws_len (c # w @ z) = 0"
      using True 1(3) ws_not_ascii unfolding s by (cases "c # w @ z" rule: ws_len.cases; cases "c # w" rule: ws_len.cases) auto
    then show ?thesis using s trim_start_visible by simp
  next
    case False
    have "trim_start s = trim_start (drop (ws_len s) s)" using False by (subst trim_start.simps) simp
    then have "trim_start (drop (ws_len s) s @ z) = c # w @ z" using 1 False by simp
    moreover have "trim_start (s @ z) = trim_start (drop (ws_len s) s @ z)"
      using False ws_len_append [OF False, of z] ws_len_le [of s] by (subst trim_start.simps) simp
    ultimately show ?thesis by simp
  qed
qed

lemma starts_body_append:
  assumes "starts_body (trim_start s)"
  shows "starts_body (trim_start (s @ z))"
proof -
  obtain w where w: "trim_start s = CHR ''<'' # w"
    using assms by (auto simp: starts_body_def parameter_open_def function_close_def prefix_def)
  have "trim_start (s @ z) = trim_start s @ z"
    using trim_start_visible_append [OF w, of z] w by (simp add: is_ascii_def)
  then show ?thesis using assms by (auto simp: starts_body_def prefix_append)
qed

lemma name_no_gt: "is_function_name name \<Longrightarrow> CHR ''>'' \<notin> set name"
  by (auto simp: is_function_name_def list_all_iff is_name_char_def is_digit_def)

lemma bare_opens:
  assumes "bare_at s name"
  shows "opens s"
proof -
  obtain rest where s: "s = CHR ''<'' # name @ CHR ''>'' # rest" and n: "is_function_name name"
    and b: "starts_body (trim_start rest)" using assms by (auto simp: bare_at_def)
  have no_gt: "x \<in> set name \<Longrightarrow> x \<noteq> CHR ''>''" for x using name_no_gt [OF n] by blast
  have "takeWhile (\<lambda>c. c \<noteq> CHR ''>'') (name @ CHR ''>'' # rest) = name"
    "dropWhile (\<lambda>c. c \<noteq> CHR ''>'') (name @ CHR ''>'' # rest) = CHR ''>'' # rest"
    using no_gt by (simp_all add: takeWhile_append2 dropWhile_append2)
  then show ?thesis using s n b by (simp add: opens_def Let_def)
qed

lemma opens_bare: "opens s \<Longrightarrow> prefix function_open s \<or> (\<exists>name. bare_at s name)"
proof -
  assume "opens s"
  moreover have "bare_at (c # s') (takeWhile (\<lambda>c. c \<noteq> CHR ''>'') s')"
    if h: "c = CHR ''<''" "is_function_name (takeWhile (\<lambda>c. c \<noteq> CHR ''>'') s')"
      "dropWhile (\<lambda>c. c \<noteq> CHR ''>'') s' \<noteq> []"
      "starts_body (trim_start (tl (dropWhile (\<lambda>c. c \<noteq> CHR ''>'') s')))" for c s'
  proof -
    obtain x rest where d: "dropWhile (\<lambda>c. c \<noteq> CHR ''>'') s' = x # rest" using h(3) by (meson neq_Nil_conv)
    then have "x = CHR ''>''" using hd_dropWhile [of "\<lambda>c. c \<noteq> CHR ''>''" s'] by simp
    moreover have "s' = takeWhile (\<lambda>c. c \<noteq> CHR ''>'') s' @ x # rest" using d takeWhile_dropWhile_id by metis
    ultimately show ?thesis using h d unfolding bare_at_def by auto
  qed
  ultimately show ?thesis by (auto simp: opens_def Let_def split: list.splits)
qed

lemma opens_append: "opens s \<Longrightarrow> opens (s @ z)"
proof -
  assume "opens s"
  then consider "prefix function_open s" | name where "bare_at s name" using opens_bare by blast
  then show ?thesis
  proof cases
    case 1
    then show ?thesis by (simp add: opens_def prefix_append)
  next
    case (2 name)
    then have "bare_at (s @ z) name" unfolding bare_at_def using starts_body_append by fastforce
    then show ?thesis by (rule bare_opens)
  qed
qed

lemma opens_lt: "opens s \<Longrightarrow> \<exists>w. s = CHR ''<'' # w"
  by (auto simp: opens_def function_open_def prefix_def split: list.splits)

lemma opens_gt: "opens s \<Longrightarrow> CHR ''>'' \<in> set s \<or> prefix function_open s"
  using opens_bare by (fastforce simp: bare_at_def)

text \<open>The beginning of a tag that is not complete yet opens nothing.\<close>

lemma partial_tag_closed:
  assumes "t \<in> set text_state_open_tags" and "strict_prefix x t"
  shows "\<not> opens x"
proof
  assume "opens x"
  have "CHR ''>'' \<notin> set x"
  proof
    assume "CHR ''>'' \<in> set x"
    moreover obtain v where v: "t = x @ v" "v \<noteq> []" using assms(2) by (auto simp: strict_prefix_def prefix_def)
    moreover have "CHR ''>'' \<notin> set (butlast t)"
      using assms(1) by (auto simp: text_state_open_tags_def tool_open_def think_open_def)
    ultimately show False by (simp add: butlast_append split: if_splits)
  qed
  then have "prefix function_open x" using opens_gt [OF \<open>opens x\<close>] by blast
  then have "prefix function_open t" using assms(2) prefix_order.trans strict_prefix_def by metis
  then show False using assms(1)
    by (auto simp: text_state_open_tags_def tool_open_def think_open_def function_open_def)
qed

lemma no_opens_in_buffer:
  assumes none: "earliest_tag text_state_open_tags b = None"
    and ref: "until_tag text_ok text_state_open_tags emit next (b @ r) = (True, es, cont)"
    and q: "q < length b"
  shows "\<not> opens (drop q b)"
proof
  assume o: "opens (drop q b)"
  then have oo: "opens (drop q (b @ r))" using opens_append [OF o, of r] q by simp
  show False
  proof (cases "earliest_tag text_state_open_tags (b @ r)")
    case None
    then have "\<not> opens (drop q (b @ r))" using ref q by (simp add: until_tag_def text_ok_def del: drop_append)
    then show False using oo by blast
  next
    case (Some pt)
    then obtain p t where pt: "earliest_tag text_state_open_tags (b @ r) = Some (p, t)" by (cases pt) simp
    then have t: "t \<in> set text_state_open_tags" "prefix t (drop p (b @ r))"
      by (simp_all add: earliest_Some [OF tags_text_state])
    have "\<forall>lt < p. \<not> opens (drop lt (b @ r))"
      using ref pt by (simp add: until_tag_def text_ok_def del: drop_append)
    then have "p \<le> q" using oo not_less by blast
    then have "p < length b" using q by simp
    note tail = tail_of_tag [OF tags_text_state none t(1) t(2) this]
    have strict: "strict_prefix (drop p b) t"
      using tail(1,2) by (auto simp: strict_prefix_def)
    show False
    proof (cases "p = q")
      case True
      then show False using partial_tag_closed [OF t(1) strict] o by simp
    next
      case False
      have "drop q b \<noteq> []" using q by simp
      then have "b ! q = CHR ''<''" using opens_lt [OF o] q by (metis hd_drop_conv_nth list.sel(1))
      moreover obtain v where v: "t = drop p b @ v" using strict by (auto simp: strict_prefix_def prefix_def)
      moreover have inside: "q - p < length (drop p b)" using \<open>p \<le> q\<close> q by auto
      moreover have "q - p < length t" using v inside by simp
      moreover have "t ! (q - p) = b ! q" using v inside \<open>p \<le> q\<close> by (simp add: nth_append)
      ultimately show False
        using tag_no_inner [OF tagsD(1) [OF tags_text_state t(1)], of "q - p"] False \<open>p \<le> q\<close> by simp
    qed
  qed
qed

subsection \<open>One step of the streaming parser\<close>

definition with_rest :: "qwen \<Rightarrow> bytes \<Rightarrow> qwen" where
  "with_rest p r = p\<lparr>q_buf := q_buf p @ r\<rparr>"

definition qwen_keeps ::
    "((bytes \<times> bytes) list \<Rightarrow> bytes option) \<Rightarrow> bool \<Rightarrow> qwen \<Rightarrow> bytes \<Rightarrow> qwen_step \<Rightarrow> bool" where
  "qwen_keeps render fin p r result =
     (case result of (b, es, p') \<Rightarrow>
        qwen_clean render (with_rest p' r) \<and>
        coalesce (es @ qwen_ref render (with_rest p' r)) = coalesce (qwen_ref render (with_rest p r)) \<and>
        (fin \<and> \<not> b \<longrightarrow> qwen_ref render p' = left_over (q_buf p')))"

lemma with_rest_Nil [simp]: "with_rest p [] = p"
  by (simp add: with_rest_def)

lemma with_rest_sel [simp]:
  "q_state (with_rest p r) = q_state p" "q_buf (with_rest p r) = q_buf p @ r"
  "q_next_index (with_rest p r) = q_next_index p" "q_current_name (with_rest p r) = q_current_name p"
  "q_current_param_key (with_rest p r) = q_current_param_key p"
  "q_current_params (with_rest p r) = q_current_params p"
  by (simp_all add: with_rest_def)

lemma keeps_ref:
  assumes "qwen_ref_step render (with_rest p r) = (ok, es, Some (with_rest p' r))"
    and "qwen_clean render (with_rest p r)"
  shows "qwen_keeps render fin p r (True, es, p')"
  using qwen_ref_Some [OF assms(1)] assms(2) by (simp add: qwen_keeps_def)

text \<open>A step that waits: it may have dropped what the reference parser drops too.\<close>

lemma keeps_wait:
  assumes "qwen_ref render (with_rest p' r) = qwen_ref render (with_rest p r)"
    and "qwen_clean render (with_rest p' r)" and "fin \<Longrightarrow> qwen_ref render p' = left_over (q_buf p')"
  shows "qwen_keeps render fin p r (False, [], p')"
  using assms by (simp add: qwen_keeps_def)

lemma qwen_clean_ok:
  assumes "qwen_clean render p"
  obtains es cont where "qwen_ref_step render p = (True, es, cont)"
proof -
  obtain ok es cont where step: "qwen_ref_step render p = (ok, es, cont)" by (metis prod_cases3)
  have ok
  proof (cases cont)
    case None
    then show ?thesis using qwen_ref_None(2) [OF step [unfolded None]] assms by simp
  next
    case (Some c)
    then show ?thesis using qwen_ref_Some(2) [OF step [unfolded Some]] assms by simp
  qed
  then show ?thesis using that step by simp
qed

lemma emit_early:
  assumes ts: "tag_list ts" and emit: "\<And>a b. coalesce (emit a @ emit b) = coalesce (emit (a @ b))"
    and ok: "\<And>w k pos. k \<le> pos \<Longrightarrow> okp w pos \<Longrightarrow> okp (drop k w) (pos - k)"
    and ref: "\<And>w. qwen_ref_step render (p\<lparr>q_buf := w\<rparr>) = until_tag okp ts emit next w"
    and clean: "qwen_clean render (with_rest p r)"
    and k: "no_tag_before ts (q_buf p @ r) k" "k \<le> length (q_buf p)"
  shows "qwen_keeps render fin p r (True, emit (take k (q_buf p)), p\<lparr>q_buf := drop k (q_buf p)\<rparr>)"
proof -
  let ?w = "q_buf p @ r" and ?p = "p\<lparr>q_buf := drop k (q_buf p)\<rparr>"
  obtain es cont where step: "qwen_ref_step render (with_rest p r) = (True, es, cont)"
    using qwen_clean_ok [OF clean] .
  then have until: "until_tag okp ts emit next ?w = (True, es, cont)" using ref [of ?w] by (simp add: with_rest_def)
  have "k \<le> length ?w" using k(2) by simp
  from until_tag_drop [OF ts k(1) this emit _ until] ok obtain es' where
    d: "until_tag okp ts emit next (drop k ?w) = (True, es', cont)" "coalesce (emit (take k ?w) @ es') = coalesce es"
    by metis
  have "with_rest ?p r = p\<lparr>q_buf := drop k ?w\<rparr>" using k(2) by (simp add: with_rest_def)
  then have step': "qwen_ref_step render (with_rest ?p r) = (True, es', cont)" using ref [of "drop k ?w"] d(1) by simp
  have takew: "take k ?w = take k (q_buf p)" using k(2) by simp
  note d2 = d(2) [unfolded takew]
  show ?thesis
  proof (cases cont)
    case None
    then show ?thesis
      using qwen_ref_None [OF step [unfolded None]] qwen_ref_None [OF step' [unfolded None]] d2
      by (simp add: qwen_keeps_def)
  next
    case (Some c)
    have "coalesce ((emit (take k (q_buf p)) @ es') @ qwen_ref render c) = coalesce (es @ qwen_ref render c)"
      by (rule coalesce_left [OF d2])
    then show ?thesis
      using qwen_ref_Some [OF step [unfolded Some]] qwen_ref_Some [OF step' [unfolded Some]] clean
      by (simp add: qwen_keeps_def)
  qed
qed

lemma text_ok_drop: "k \<le> pos \<Longrightarrow> text_ok w pos \<Longrightarrow> text_ok (drop k w) (pos - k)"
  unfolding text_ok_def by (simp add: less_diff_conv)

lemma tags_pending: "tag_list [tool_open, think_open, function_open]"
  by (simp add: tag_list_def is_tag_def tool_open_def think_open_def function_open_def)

lemma until_Nil:
  assumes "tag_list ts" and "emit [] = []" and "okp [] 0"
  shows "until_tag okp ts emit next [] = (True, [], None)"
proof -
  have "earliest_tag ts [] = None" using earliest_tag_bound(2) [OF assms(1), of "[]"]
    by (cases "earliest_tag ts []") auto
  then show ?thesis using assms by (simp add: until_tag_def)
qed

lemma qwen_ref_empty:
  assumes "q_buf p = []" and "q_state p = QText \<or> q_state p = QInThink"
  shows "qwen_ref render p = left_over (q_buf p)"
proof -
  have "qwen_ref_step render p = (True, [], None)"
    using assms until_Nil [OF tags_text_state, of push_text text_ok]
      until_Nil [OF tags_think_close, of push_think "\<lambda>_ _. True"]
    by (auto simp: qwen_ref_step_def push_text_def push_think_def text_ok_def)
  then show ?thesis using qwen_ref_None(1) assms(1) by (simp add: left_over_def push_text_def strip_newline_def)
qed

lemma text_keeps:
  assumes st: "q_state p = QText" and clean: "qwen_clean render (with_rest p r)" and fin: "fin \<longrightarrow> r = []"
  shows "qwen_keeps render fin p r (qwen_step_text p fin)"
proof -
  let ?ts = text_state_open_tags and ?b = "q_buf p" and ?w = "q_buf p @ r"
  let ?next = "\<lambda>t rest. p\<lparr>q_buf := rest, q_state := (if t = tool_open then QInToolCall else QInThink)\<rparr>"
  have ref: "qwen_ref_step render (p\<lparr>q_buf := w\<rparr>) = until_tag text_ok ?ts push_text ?next w" for w
    using st by (simp add: qwen_ref_step_def)
  obtain es cont where step: "qwen_ref_step render (with_rest p r) = (True, es, cont)" using qwen_clean_ok [OF clean] .
  then have until: "until_tag text_ok ?ts push_text ?next ?w = (True, es, cont)"
    using ref [of ?w] by (simp add: with_rest_def)
  show ?thesis
  proof (cases "earliest_tag ?ts ?b")
    case (Some tt)
    then obtain pos t where pt: "earliest_tag ?ts ?b = Some (pos, t)" by (cases tt) simp
    have len: "pos + length t \<le> length ?b" by (rule earliest_tag_bound(1) [OF tags_text_state pt])
    have ptw: "earliest_tag ?ts ?w = Some (pos, t)" by (rule earliest_append [OF tags_text_state pt])
    let ?p = "?next t (drop (pos + length t) ?b)"
    have ok: "text_ok ?w pos" using until ptw by (simp add: until_tag_def)
    have "pos \<le> f" if "find_function_open ?b = Some (f, l, name)" for f l name
    proof -
      note f = find_function_open_spec [OF that]
      have "opens (drop f ?b)" using f(3) bare_opens by (auto simp: opens_def)
      then have "opens (drop f ?b @ r)" by (rule opens_append)
      then have "opens (drop f ?w)" using f(1) by simp
      then show ?thesis using ok unfolding text_ok_def using not_less by blast
    qed
    then have run: "qwen_step_text p fin = (True, push_text (take pos ?b), ?p)"
      using pt by (cases "find_function_open ?b") (fastforce simp: qwen_step_text_def Let_def)+
    have wr: "with_rest ?p r = ?next t (drop (pos + length t) ?b @ r)" by (simp add: with_rest_def)
    have "es = push_text (take pos ?b)" "cont = Some (with_rest ?p r)"
      unfolding wr using until ptw len by (auto simp: until_tag_def simp del: earliest_tag.simps)
    then show ?thesis using keeps_ref clean step run by metis
  next
    case None
    have none: "\<not> opens (drop q ?b)" if "q < length ?b" for q by (rule no_opens_in_buffer [OF None until that])
    have func: "find_function_open ?b = None"
    proof (rule ccontr)
      assume "find_function_open ?b \<noteq> None"
      then obtain f l name where f: "find_function_open ?b = Some (f, l, name)" by auto
      note spec = find_function_open_spec [OF f]
      have "opens (drop f ?b)" using spec(3) bare_opens by (auto simp: opens_def)
      then show False using none [of f] spec(1,2) by simp
    qed
    have "find_sub function_open ?b = None"
    proof (rule ccontr)
      assume "find_sub function_open ?b \<noteq> None"
      then obtain f where f: "find_sub function_open ?b = Some f" by auto
      then have "opens (drop f ?b)" by (simp add: find_sub_Some opens_def)
      then show False using none [of f] find_sub_bound [OF f] by (simp add: function_open_def)
    qed
    then have pend: "earliest_tag [tool_open, think_open, function_open] ?b = None"
      using None by (auto simp: earliest_None text_state_open_tags_def simp del: earliest_tag.simps)
    have safe: "no_tag_before ?ts ?w (if fin then length ?b else pending_tool_tail_start ?b)"
    proof (cases fin)
      case True
      then show ?thesis using None fin no_tag_before_mono [of ?ts ?b "Suc (length ?b)" "length ?b"]
        by (simp add: earliest_none)
    next
      case False
      have "no_tag_before ?ts ?w (ambiguous_tail_start ?b [tool_open, think_open, function_open])"
        using no_tag_before_subset [OF ambiguous_tail_safe [OF tags_pending pend, of r]]
        by (simp add: text_state_open_tags_def)
      then show ?thesis using False no_tag_before_mono by (simp add: pending_tool_tail_start_def)
    qed
    let ?k = "align_down_char_boundary ?b (if fin then length ?b else pending_tool_tail_start ?b)"
    have k: "no_tag_before ?ts ?w ?k" "?k \<le> length ?b"
      using no_tag_before_mono [OF safe] align_down_le align_down_le_length by blast+
    show ?thesis
    proof (cases "?k = 0")
      case True
      then have run: "qwen_step_text p fin = (False, [], p)"
        using None func by (simp add: qwen_step_text_def Let_def)
      have "qwen_ref render p = left_over ?b" if fin
      proof -
        have "?b = []" using that True align_down_all [of ?b "length ?b"] by simp
        then show ?thesis using qwen_ref_empty st by blast
      qed
      then show ?thesis using keeps_wait [OF refl clean] run by simp
    next
      case False
      then have "qwen_step_text p fin = (True, push_text (take ?k ?b), p\<lparr>q_buf := drop ?k ?b\<rparr>)"
        using None func by (simp add: qwen_step_text_def Let_def)
      then show ?thesis
        using emit_early [OF tags_text_state push_text_append text_ok_drop ref clean k] by simp
    qed
  qed
qed

lemma think_keeps:
  assumes st: "q_state p = QInThink" and clean: "qwen_clean render (with_rest p r)" and fin: "fin \<longrightarrow> r = []"
  shows "qwen_keeps render fin p r (qwen_step_in_think p fin)"
proof -
  let ?b = "q_buf p" and ?okp = "\<lambda>(_ :: bytes) (_ :: nat). True"
  let ?next = "\<lambda>(t :: bytes) rest. p\<lparr>q_buf := rest, q_state := QText\<rparr>"
  have ref: "qwen_ref_step render (p\<lparr>q_buf := w\<rparr>) = until_tag ?okp [think_close] push_think ?next w" for w
    using st by (simp add: qwen_ref_step_def)
  obtain es cont where step: "qwen_ref_step render (with_rest p r) = (True, es, cont)" using qwen_clean_ok [OF clean] .
  then have until: "until_tag ?okp [think_close] push_think ?next (?b @ r) = (True, es, cont)"
    using ref [of "?b @ r"] by (simp add: with_rest_def)
  show ?thesis
  proof (cases "find_sub think_close ?b")
    case (Some pos)
    then have pt: "earliest_tag [think_close] ?b = Some (pos, think_close)" unfolding earliest_single by simp
    have len: "pos + length think_close \<le> length ?b" by (rule earliest_tag_bound(1) [OF tags_think_close pt])
    have ptw: "earliest_tag [think_close] (?b @ r) = Some (pos, think_close)"
      by (rule earliest_append [OF tags_think_close pt])
    let ?p = "?next think_close (drop (pos + length think_close) ?b)"
    have run: "qwen_step_in_think p fin = (True, push_think (take pos ?b), ?p)"
      using Some by (simp add: qwen_step_in_think_def)
    have wr: "with_rest ?p r = ?next think_close (drop (pos + length think_close) ?b @ r)" by (simp add: with_rest_def)
    have "es = push_think (take pos ?b)" "cont = Some (with_rest ?p r)"
      unfolding wr using until ptw len by (auto simp: until_tag_def simp del: earliest_tag.simps)
    then show ?thesis using keeps_ref clean step run by metis
  next
    case None
    then have none: "earliest_tag [think_close] ?b = None" unfolding earliest_single by simp
    have safe: "no_tag_before [think_close] (?b @ r) (if fin then length ?b else ambiguous_tail_start ?b [think_close])"
    proof (cases fin)
      case True
      then show ?thesis using none fin no_tag_before_mono [of "[think_close]" ?b "Suc (length ?b)" "length ?b"]
        by (simp add: earliest_none del: earliest_tag.simps)
    next
      case False
      then show ?thesis using ambiguous_tail_safe [OF tags_think_close none] by simp
    qed
    let ?k = "align_down_char_boundary ?b (if fin then length ?b else ambiguous_tail_start ?b [think_close])"
    have k: "no_tag_before [think_close] (?b @ r) ?k" "?k \<le> length ?b"
      using no_tag_before_mono [OF safe] align_down_le align_down_le_length by blast+
    show ?thesis
    proof (cases "?k = 0")
      case True
      then have run: "qwen_step_in_think p fin = (False, [], p)"
        using None by (simp add: qwen_step_in_think_def Let_def)
      have "?b = []" if fin using that True align_down_all [of ?b "length ?b"] by simp
      then show ?thesis using keeps_wait [OF refl clean] run qwen_ref_empty st by simp
    next
      case False
      then have "qwen_step_in_think p fin = (True, push_think (take ?k ?b), p\<lparr>q_buf := drop ?k ?b\<rparr>)"
        using None by (simp add: qwen_step_in_think_def Let_def)
      then show ?thesis
        using emit_early [of "[think_close]" push_think ?okp, OF tags_think_close push_think_append _ ref clean k]
        by simp
    qed
  qed
qed

end
