(* ===== verification/Tool_Qwen_Props.thy ===== *)
theory Tool_Qwen_Props
  imports Tool_Qwen_Ref
begin

section \<open>The Qwen3-Coder parser implements its reference\<close>

text \<open>
  The remaining steps of the parser against the reference parser, the drain loop, the contract of
  \<open>tool_call_parser\<close> for it, and where the contract fails.
\<close>

subsection \<open>Inside of a call\<close>

lemma same_step_keeps:
  assumes "qwen_ref_step render (with_rest p' r) = qwen_ref_step render (with_rest p r)"
    and "qwen_clean render (with_rest p r)" and "fin \<Longrightarrow> qwen_ref render p' = left_over (q_buf p')"
  shows "qwen_keeps render fin p r (False, [], p')"
proof (rule keeps_wait)
  show "qwen_ref render (with_rest p' r) = qwen_ref render (with_rest p r)"
    by (subst (1 2) qwen_ref.simps) (simp add: assms(1))
  show "qwen_clean render (with_rest p' r)"
    using assms(2) by (subst (asm) qwen_clean.simps, subst qwen_clean.simps) (simp add: assms(1))
qed (rule assms(3))

lemma find_char_before:
  assumes "find_sub [c] s = Some i" and "prefix (c # t) (drop q s)"
  shows "i \<le> q"
proof (rule ccontr)
  assume "\<not> i \<le> q"
  moreover have "prefix [c] (drop q s)" using assms(2) by (auto simp: prefix_def)
  ultimately show False using assms(1) by (simp add: find_sub_Some)
qed

lemma find_char_from:
  assumes "a \<le> q" and "q < length s" and "s ! q = c"
  shows "\<exists>g. find_sub [c] (drop a s) = Some g"
proof -
  have "drop (q - a) (drop a s) = c # drop (Suc q) s"
    using assms Cons_nth_drop_Suc [OF assms(2), symmetric] by (simp del: drop_Suc)
  then have "prefix [c] (drop (q - a) (drop a s))" by simp
  moreover have "q - a \<le> length (drop a s)" using assms(1,2) by simp
  ultimately show ?thesis using find_sub_None not_Some_eq by metis
qed

text \<open>An open by \<^verbatim>\<open><function=\<close> at the first angle bracket is the one found.\<close>

lemma find_canonical_first:
  assumes lt: "find_sub ''<'' s = Some lt" and open_at: "prefix function_open (drop lt s)"
    and g: "find_sub ''>'' (drop (lt + length function_open) s) = Some g"
  shows "find_function_open s = Some (lt, length function_open + g + 1,
     slice_of s (lt + length function_open) (lt + length function_open + g))"
proof -
  have "lt \<le> q" if "prefix function_open (drop q s)" for q
    using find_char_before [OF lt] that by (simp add: function_open_def)
  then have canonical: "find_sub function_open s = Some lt"
    using find_sub_bound [OF lt] open_at unfolding find_sub_Some by (auto dest: leD)
  have "lt \<le> p" if b: "bare_open s 0 = Some (p, len, name)" for p len name
  proof -
    obtain w where "drop p s = CHR ''<'' # w" using bare_open_spec [OF b] by (auto simp: bare_at_def)
    then show ?thesis using find_char_before [OF lt, of "[]" p] by simp
  qed
  then show ?thesis using canonical g by (auto simp: find_function_open_def Let_def not_less split: option.split)
qed

lemma opened_ends: "find_function_open s = Some (p, len, name) \<Longrightarrow> s ! (p + len - 1) = CHR ''>'' \<and> 1 < len"
proof -
  assume f: "find_function_open s = Some (p, len, name)"
  consider (canonical) g where "find_sub ''>'' (drop (p + length function_open) s) = Some g"
      "len = p + length function_open + g + 1 - p"
    | (bare) "bare_open s 0 = Some (p, len, name)"
    using f by (auto simp: find_function_open_def Let_def split: option.splits if_splits)
  then show ?thesis
  proof cases
    case canonical
    let ?k = "p + length function_open"
    have "drop ?k s ! g = CHR ''>''" "g < length s - ?k" using find_char [OF canonical(1)] by simp_all
    then have "s ! (?k + g) = CHR ''>''" by simp
    moreover have "p + len - 1 = ?k + g" "1 < len" using canonical(2) by (simp_all add: function_open_def)
    ultimately show ?thesis by simp
  next
    case bare
    from bare_open_spec [OF this] obtain w where w: "drop p s = (CHR ''<'' # name) @ CHR ''>'' # w" "p < length s"
      "len = length name + 2" by (auto simp: bare_at_def)
    have "drop p s ! (len - 1) = CHR ''>''" unfolding w(1) using w(3) by (simp add: nth_append)
    moreover have "drop p s ! (len - 1) = s ! (p + (len - 1))" using w(2) by simp
    moreover have "p + len - 1 = p + (len - 1)" "1 < len" using w(3) by simp_all
    ultimately show ?thesis by simp
  qed
qed

lemma in_tool_call_keeps:
  assumes st: "q_state p = QInToolCall" and clean: "qwen_clean render (with_rest p r)" and fin: "fin \<longrightarrow> r = []"
  shows "qwen_keeps render fin p r (qwen_step_in_tool_call p)"
proof (cases "find_function_open (q_buf p)")
  case None
  have "qwen_ref render p = left_over (q_buf p)"
  proof (cases "find_sub ''<'' (q_buf p)")
    case None
    then have "qwen_ref_step render p = (True, left_over (q_buf p), None)" using st by (simp add: qwen_ref_step_def)
    then show ?thesis by (rule qwen_ref_None)
  next
    case (Some lt)
    have "find_sub ''>'' (drop (lt + length function_open) (q_buf p)) = None"
      if "prefix function_open (drop lt (q_buf p))"
      using find_canonical_first [OF Some that] \<open>find_function_open (q_buf p) = None\<close>
      by (cases "find_sub ''>'' (drop (lt + length function_open) (q_buf p))") auto
    then have "\<exists>ok. qwen_ref_step render p = (ok, left_over (q_buf p), None)"
      using st Some by (simp add: qwen_ref_step_def Let_def) blast
    then show ?thesis using qwen_ref_None by blast
  qed
  then show ?thesis using None same_step_keeps [OF refl clean] by (simp add: qwen_step_in_tool_call_def)
next
  case (Some f)
  obtain pos len name where f: "find_function_open (q_buf p) = Some (pos, len, name)" using Some by (cases f) auto
  let ?b = "q_buf p" and ?w = "q_buf p @ r"
  note spec = find_function_open_spec [OF f]
  have "\<exists>w. drop pos ?b = CHR ''<'' # w" using spec(3) by (auto simp: bare_at_def function_open_def prefix_def)
  then have "prefix ''<'' (drop pos ?b)" by auto
  then obtain lt where lt: "find_sub ''<'' ?b = Some lt" "lt \<le> pos"
    using find_char_before [of "CHR ''<''" ?b _ "[]" pos] find_sub_None [of "''<''" ?b] spec(1)
    by (cases "find_sub ''<'' ?b") auto
  have ltw: "find_sub ''<'' ?w = Some lt" by (rule find_sub_append [OF lt(1)])
  obtain es cont where step: "qwen_ref_step render (with_rest p r) = (True, es, cont)" using qwen_clean_ok [OF clean] .
  then have either: "prefix function_open (drop lt ?w) \<or> prefix (drop lt ?w) function_open"
    using st ltw by (auto simp: qwen_ref_step_def Let_def simp del: drop_append split: if_splits)
  have gt: "?b ! (pos + len - 1) = CHR ''>''" "lt \<le> pos + len - 1" "pos + len - 1 < length ?b"
    using opened_ends [OF f] spec(1,2) lt(2) by auto
  have "lt + (pos + len - 1 - lt) = pos + len - 1" using gt(2) by simp
  then have at_end: "drop lt ?b ! (pos + len - 1 - lt) = CHR ''>''" "pos + len - 1 - lt < length (drop lt ?b)"
    using gt nth_drop [of lt ?b "pos + len - 1 - lt"] by simp_all
  have open_b: "prefix function_open (drop lt ?b)"
  proof -
    have "drop lt ?w = drop lt ?b @ r" using lt(2) spec(1,2) by simp
    then have "prefix function_open (drop lt ?b) \<or> prefix (drop lt ?b) function_open"
      using either by (metis append_prefixD prefix_same_cases prefixI)
    moreover have "CHR ''>'' \<in> set (drop lt ?b)" using at_end by (metis nth_mem)
    then have "\<not> prefix (drop lt ?b) function_open"
      using set_mono_prefix [of "drop lt ?b" function_open] by (auto simp: function_open_def)
    ultimately show ?thesis by blast
  qed
  let ?after = "lt + length function_open"
  have "?after \<le> pos + len - 1"
  proof (rule ccontr)
    assume "\<not> ?after \<le> pos + len - 1"
    then have "function_open ! (pos + len - 1 - lt) = drop lt ?b ! (pos + len - 1 - lt)"
      using open_b gt(2) by (auto simp: prefix_def nth_append)
    then have "function_open ! (pos + len - 1 - lt) = CHR ''>''" using at_end(1) by simp
    moreover have "pos + len - 1 - lt < length function_open" using \<open>\<not> ?after \<le> pos + len - 1\<close> gt(2) by simp
    ultimately have "CHR ''>'' \<in> set function_open" by (metis nth_mem)
    then show False by (simp add: function_open_def)
  qed
  then obtain g where g: "find_sub ''>'' (drop ?after ?b) = Some g" using find_char_from [OF _ gt(3,1)] by blast
  have "find_function_open ?b = Some (lt, length function_open + g + 1, slice_of ?b ?after (?after + g))"
    by (rule find_canonical_first [OF lt(1) open_b g])
  then have pos: "pos = lt" "len = length function_open + g + 1" "name = slice_of ?b ?after (?after + g)" using f by simp_all
  have gb: "?after + g < length ?b" using find_sub_bound [OF g] by simp
  then have dw: "drop ?after ?w = drop ?after ?b @ r" "prefix function_open (drop lt ?w)"
    using open_b by (simp_all add: prefix_append)
  have "find_sub ''>'' (drop ?after ?w) = Some g" unfolding dw(1) by (rule find_sub_append [OF g])
  moreover have "slice_of ?w ?after (?after + g) = name" using gb pos by (simp add: slice_of_def)
  ultimately have "qwen_ref_step render (with_rest p r) =
      (True, [ToolCallOpen (q_next_index p) name], Some (open_function (with_rest p r) (?after + g + 1) name))"
    using st ltw dw(2) by (simp add: qwen_ref_step_def Let_def)
  moreover have "open_function (with_rest p r) (?after + g + 1) name = with_rest (open_function p (pos + len) name) r"
    using gb pos by (simp add: open_function_def with_rest_def add.assoc)
  ultimately have "qwen_keeps render fin p r (True, [ToolCallOpen (q_next_index p) name], open_function p (pos + len) name)"
    using keeps_ref clean by metis
  then show ?thesis using f by (simp add: qwen_step_in_tool_call_def)
qed

text \<open>The parser's own search in a function body is the earliest of the two tags.\<close>

lemma next_in_body_tag:
  "next_in_body s = map_option (\<lambda>(pos, t). (pos, t = parameter_open)) (earliest_tag [parameter_open, function_close] s)"
proof -
  have neq: "function_close \<noteq> parameter_open" by (simp add: parameter_open_def function_close_def)
  have "i \<noteq> j" if "find_sub parameter_open s = Some i" "find_sub function_close s = Some j" for i j
    using that tagsD(3) [OF tags_body, of parameter_open function_close "drop i s"] neq
    by (auto simp: find_sub_Some)
  then show ?thesis using neq by (auto simp: next_in_body_def split: option.splits)
qed

lemma left_over_None: "qwen_ref_step render p = (True, left_over (q_buf p), None) \<Longrightarrow> qwen_ref render p = left_over (q_buf p)"
  by (rule qwen_ref_None)

lemma function_body_keeps:
  assumes st: "q_state p = QInFunctionBody" and clean: "qwen_clean render (with_rest p r)"
  shows "qwen_keeps render fin p r (qwen_step_in_function_body render p)"
proof (cases "earliest_tag [parameter_open, function_close] (q_buf p)")
  case None
  then have "qwen_ref render p = left_over (q_buf p)"
    using st by (intro left_over_None) (simp add: qwen_ref_step_def del: earliest_tag.simps)
  then show ?thesis using None same_step_keeps [OF refl clean]
    by (simp add: qwen_step_in_function_body_def next_in_body_tag del: earliest_tag.simps)
next
  case (Some pt)
  obtain pos t where pt: "earliest_tag [parameter_open, function_close] (q_buf p) = Some (pos, t)"
    using Some by (cases pt) simp
  let ?b = "q_buf p" and ?w = "q_buf p @ r" and ?d = "drop pos (q_buf p)" and ?n = "length parameter_open"
  have len: "pos + length t \<le> length ?b" by (rule earliest_tag_bound(1) [OF tags_body pt])
  have ptw: "earliest_tag [parameter_open, function_close] ?w = Some (pos, t)" by (rule earliest_append [OF tags_body pt])
  have dw: "drop pos ?w = ?d @ r" using len by simp
  show ?thesis
  proof (cases "t = parameter_open")
    case param: True
    then have n: "drop ?n (?d @ r) = drop ?n ?d @ r" "?n \<le> length ?d" using len by simp_all
    show ?thesis
    proof (cases "find_sub ''>'' (drop ?n ?d)")
      case None
      let ?p = "p\<lparr>q_buf := ?d\<rparr>"
      have d0: "earliest_tag [parameter_open, function_close] (drop pos s) = Some (0, t)"
        if h: "earliest_tag [parameter_open, function_close] s = Some (pos, t)" for s
      proof -
        have "no_tag_before [parameter_open, function_close] s pos" using h unfolding earliest_Some [OF tags_body] by blast
        from earliest_drop [OF tags_body this] show ?thesis using h by simp
      qed
      have "qwen_ref_step render (with_rest ?p r) = qwen_ref_step render (with_rest p r)"
        using st d0 [OF ptw] ptw
        by (simp add: qwen_ref_step_def Let_def dw with_rest_def del: earliest_tag.simps drop_append
            split: option.split)
      moreover have "qwen_ref render ?p = left_over (q_buf ?p)"
        using st d0 [OF pt] param None by (intro left_over_None) (simp add: qwen_ref_step_def Let_def del: earliest_tag.simps)
      ultimately have "qwen_keeps render fin p r (False, [], ?p)" using same_step_keeps clean by blast
      then show ?thesis using pt param None
        by (simp add: qwen_step_in_function_body_def next_in_body_tag Let_def del: earliest_tag.simps)
    next
      case (Some g)
      let ?p = "p\<lparr>q_buf := drop (?n + g + 1) ?d, q_current_param_key := slice_of ?d ?n (?n + g), q_state := QInParameterBody\<rparr>"
      have g: "?n + g + 1 \<le> length ?d" using find_sub_bound [OF Some] n(2) by simp
      have "find_sub ''>'' (drop ?n (?d @ r)) = Some g" unfolding n(1) by (rule find_sub_append [OF Some])
      moreover have "slice_of (?d @ r) ?n (?n + g) = slice_of ?d ?n (?n + g)" using g by (simp add: slice_of_def)
      moreover have "drop (?n + g + 1) (?d @ r) = drop (?n + g + 1) ?d @ r" using g by simp
      ultimately have "qwen_ref_step render (with_rest p r) = (True, [], Some (with_rest ?p r))"
        using st ptw param by (simp add: qwen_ref_step_def Let_def dw with_rest_def del: earliest_tag.simps drop_append)
      then have "qwen_keeps render fin p r (True, [], ?p)" using keeps_ref clean by blast
      then show ?thesis using pt param Some
        by (simp add: qwen_step_in_function_body_def next_in_body_tag Let_def del: earliest_tag.simps)
    qed
  next
    case close: False
    let ?p = "p\<lparr>q_buf := drop (length function_close) ?d, q_current_params := [], q_state := QAwaitingToolCallClose\<rparr>"
    let ?es = "[ToolCallArgumentsDelta (q_next_index p) (args_json render (q_current_params p))]"
    have "t = function_close" using close earliest_Some_spec [OF pt] by simp
    then have "drop (length function_close) (?d @ r) = drop (length function_close) ?d @ r" using len by simp
    then have "qwen_ref_step render (with_rest p r) = (True, ?es, Some (with_rest ?p r))"
      using st ptw close by (simp add: qwen_ref_step_def Let_def dw with_rest_def del: earliest_tag.simps drop_append)
    then have "qwen_keeps render fin p r (True, ?es, ?p)" using keeps_ref clean by blast
    then show ?thesis using pt close
      by (simp add: qwen_step_in_function_body_def next_in_body_tag Let_def del: earliest_tag.simps)
  qed
qed

lemma parameter_body_keeps:
  assumes st: "q_state p = QInParameterBody" and clean: "qwen_clean render (with_rest p r)"
  shows "qwen_keeps render fin p r (qwen_step_in_parameter_body p)"
proof (cases "find_sub parameter_close (q_buf p)")
  case None
  then have "qwen_ref render p = left_over (q_buf p)" using st by (intro left_over_None) (simp add: qwen_ref_step_def)
  then show ?thesis using None same_step_keeps [OF refl clean] by (simp add: qwen_step_in_parameter_body_def)
next
  case (Some pos)
  obtain p' where run: "qwen_step_in_parameter_body p = (True, [], p')"
    and p': "p' = p\<lparr>q_buf := drop (pos + length parameter_close) (q_buf p), q_current_param_key := [],
      q_current_params := AList.update (q_current_param_key p) (param_value (take pos (q_buf p))) (q_current_params p),
      q_state := QInFunctionBody\<rparr>" using Some by (simp add: qwen_step_in_parameter_body_def)
  have "pos + length parameter_close \<le> length (q_buf p)" by (rule find_sub_bound [OF Some])
  then have "qwen_ref_step render (with_rest p r) = (True, [], Some (with_rest p' r))"
    using st find_sub_append [OF Some, of r] by (simp add: qwen_ref_step_def with_rest_def p')
  then show ?thesis unfolding run using keeps_ref clean by blast
qed

lemma qwen_awaiting_keeps:
  assumes st: "q_state p = QAwaitingToolCallClose" and clean: "qwen_clean render (with_rest p r)"
  shows "qwen_keeps render fin p r (qwen_step_awaiting_close p)"
proof (cases "earliest_tag [tool_close, function_open, parameter_open] (q_buf p)")
  case None
  then have "qwen_ref render p = left_over (q_buf p)"
    using st by (intro left_over_None) (simp add: qwen_ref_step_def del: earliest_tag.simps)
  then show ?thesis using None same_step_keeps [OF refl clean]
    by (simp add: qwen_step_awaiting_close_def del: earliest_tag.simps)
next
  case (Some pt)
  let ?ts = "[tool_close, function_open, parameter_open]"
  obtain pos t where pt: "earliest_tag ?ts (q_buf p) = Some (pos, t)" using Some by (cases pt) simp
  have len: "pos + length t \<le> length (q_buf p)" by (rule earliest_tag_bound(1) [OF tags_awaiting pt])
  have ptw: "earliest_tag ?ts (q_buf p @ r) = Some (pos, t)" by (rule earliest_append [OF tags_awaiting pt])
  have dw: "drop pos (q_buf p @ r) = drop pos (q_buf p) @ r" using len by simp
  have dc: "t = tool_close \<Longrightarrow> drop (length tool_close) (drop pos (q_buf p) @ r) = drop (length tool_close) (drop pos (q_buf p)) @ r"
    using len by simp
  have named: "q_current_name p \<noteq> []" if h: "t \<noteq> tool_close" "t \<noteq> function_open"
    using qwen_clean_ok [OF clean] h st ptw by (fastforce simp: qwen_ref_step_def Let_def simp del: earliest_tag.simps)
  obtain es p' where run: "qwen_step_awaiting_close p = (True, es, p')"
    "qwen_ref_step render (with_rest p r) = (True, es, Some (with_rest p' r))"
    using st pt ptw dw dc named
    by (cases "t = tool_close"; cases "t = function_open")
      (auto simp: qwen_step_awaiting_close_def qwen_ref_step_def Let_def with_rest_def
        simp del: earliest_tag.simps drop_append)
  show ?thesis unfolding run(1) by (rule keeps_ref [OF run(2) clean])
qed

lemma qwen_step_keeps:
  assumes "qwen_clean render (with_rest p r)" and "fin \<longrightarrow> r = []"
  shows "qwen_keeps render fin p r (qwen_step render fin p)"
  using assms text_keeps think_keeps in_tool_call_keeps function_body_keeps parameter_body_keeps qwen_awaiting_keeps
  by (cases "q_state p") (simp_all add: qwen_step_def)

subsection \<open>The drain loop and the contract\<close>

lemma qwen_drain_keeps:
  assumes "qwen_clean render (with_rest p r)" and "fin \<longrightarrow> r = []"
  obtains es q where "qwen_drain render fin p = (es, q)" "qwen_clean render (with_rest q r)"
    "coalesce (es @ qwen_ref render (with_rest q r)) = coalesce (qwen_ref render (with_rest p r))"
    "fin \<Longrightarrow> qwen_ref render q = left_over (q_buf q)"
  using assms
proof (induction render fin p arbitrary: thesis rule: qwen_drain.induct)
  case (1 render fin p)
  obtain b es p' where step: "qwen_step render fin p = (b, es, p')" by (metis prod_cases3)
  then have clean: "qwen_clean render (with_rest p' r)"
    and eq: "coalesce (es @ qwen_ref render (with_rest p' r)) = coalesce (qwen_ref render (with_rest p r))"
    and fl: "fin \<and> \<not> b \<longrightarrow> qwen_ref render p' = left_over (q_buf p')"
    using qwen_step_keeps [OF 1(3,4)] by (simp_all add: qwen_keeps_def)
  show ?case
  proof (cases b)
    case False
    have "qwen_drain render fin p = (es, p')" using step False by (subst qwen_drain.simps) simp
    then show ?thesis using 1(2) [of es p'] clean eq fl False by blast
  next
    case True
    obtain es' q where rest: "qwen_drain render fin p' = (es', q)" "qwen_clean render (with_rest q r)"
      "coalesce (es' @ qwen_ref render (with_rest q r)) = coalesce (qwen_ref render (with_rest p' r))"
      "fin \<Longrightarrow> qwen_ref render q = left_over (q_buf q)"
      using 1(1) [OF step [symmetric] refl _ _ clean 1(4)] True by blast
    have "qwen_drain render fin p = (es @ es', q)" using step True rest(1) by (subst qwen_drain.simps) simp
    moreover have "coalesce ((es @ es') @ qwen_ref render (with_rest q r)) = coalesce (qwen_ref render (with_rest p r))"
      using coalesce_right [OF rest(3), of es] eq by simp
    ultimately show ?thesis using 1(2) [of "es @ es'" q] rest(2,4) by blast
  qed
qed

lemma qwen_push_keeps:
  assumes "qwen_clean render (with_rest p (c @ r))"
  shows "\<exists>es p'. Ok (qwen_push render p c) = (Ok (es, p') :: (unit, parser_event list \<times> qwen) outcome) \<and>
    qwen_clean render (with_rest p' r) \<and>
    coalesce (es @ qwen_ref render (with_rest p' r)) = coalesce (qwen_ref render (with_rest p (c @ r)))"
proof (cases "c = []")
  case False
  let ?p = "p\<lparr>q_buf := q_buf p @ c\<rparr>"
  have rest: "with_rest ?p r = with_rest p (c @ r)" by (simp add: with_rest_def)
  from qwen_drain_keeps [of render ?p r False] assms obtain es q where
    "qwen_drain render False ?p = (es, q)" "qwen_clean render (with_rest q r)"
    "coalesce (es @ qwen_ref render (with_rest q r)) = coalesce (qwen_ref render (with_rest p (c @ r)))"
    unfolding rest by blast
  then show ?thesis using False by (simp add: qwen_push_def)
qed (use assms in \<open>simp add: qwen_push_def\<close>)

lemma qwen_finish_keeps:
  assumes "qwen_clean render (with_rest p [])"
  shows "\<exists>es p'. Ok (qwen_finish render p) = (Ok (es, p') :: (unit, parser_event list \<times> qwen) outcome) \<and>
    coalesce es = coalesce (qwen_ref render (with_rest p []))"
proof -
  from qwen_drain_keeps [OF assms, of True] obtain es q where
    d: "qwen_drain render True p = (es, q)" "qwen_ref render q = left_over (q_buf q)"
    "coalesce (es @ qwen_ref render (with_rest q [])) = coalesce (qwen_ref render (with_rest p []))" by blast
  then show ?thesis
    by (auto simp: qwen_finish_def left_over_def strip_newline_def push_text_def split: list.splits)
qed

interpretation qwen: tool_call_parser "\<lambda>p c. Ok (qwen_push render p c)" "\<lambda>p. Ok (qwen_finish render p)"
    "\<lambda>p r. qwen_ref render (with_rest p r)" "\<lambda>p r. qwen_clean render (with_rest p r)" for render
  by unfold_locales (rule qwen_push_keeps qwen_finish_keeps, assumption)+

end
