(* ===== verification/Tool_Qwen_Calls.thy ===== *)
theory Tool_Qwen_Calls
  imports Tool_Qwen_Props
begin

section \<open>Calls in the Qwen3-Coder format\<close>

text \<open>
  The independence of the chunks, the round trip of calls written as the chat template writes them,
  and two texts on which the contract of the trait fails.
\<close>

definition qwen_run ::
    "((bytes \<times> bytes) list \<Rightarrow> bytes option) \<Rightarrow> bytes list \<Rightarrow> (unit, parser_event list) outcome" where
  "qwen_run render cs = run_parser (\<lambda>p c. Ok (qwen_push render p c)) (\<lambda>p. Ok (qwen_finish render p)) qwen_new cs"

definition qwen_whole :: "bytes \<Rightarrow> qwen" where
  "qwen_whole s = qwen_new\<lparr>q_buf := s\<rparr>"

lemma qwen_chunks:
  assumes "qwen_clean render (qwen_whole text)" and "concat cs = text"
  shows "\<exists>es. qwen_run render cs = Ok es \<and> coalesce es = coalesce (qwen_ref render (qwen_whole text)) \<and>
    split_events es = split_events (qwen_ref render (qwen_whole text))"
proof -
  have w: "with_rest qwen_new (concat cs) = qwen_whole text"
    using assms(2) by (simp add: with_rest_def qwen_whole_def qwen_new_def)
  show ?thesis using qwen.run_meaning [of render qwen_new cs] assms(1) split_events_cong
    unfolding w qwen_run_def by blast
qed

subsection \<open>Writing calls\<close>

definition nl :: bytes where "nl = [CHR 0x0A]"

definition write_param :: "bytes \<times> bytes \<Rightarrow> bytes" where
  "write_param kv = parameter_open @ fst kv @ ''>'' @ (nl @ snd kv @ nl) @ parameter_close @ nl"

definition write_call :: "bytes \<Rightarrow> (bytes \<times> bytes) list \<Rightarrow> bytes" where
  "write_call name ps =
     tool_open @ nl @ function_open @ name @ ''>'' @ nl @ concat (map write_param ps) @ function_close @ nl @ tool_close"

definition writable :: "(bytes \<times> bytes) list \<Rightarrow> bool" where
  "writable ps \<longleftrightarrow> distinct (map fst ps) \<and>
     list_all (\<lambda>(k, v). CHR ''>'' \<notin> set k \<and> find_sub parameter_close v = None) ps"

lemma param_value_nl: "param_value (nl @ v @ nl) = v"
  by (simp add: param_value_def nl_def slice_of_def nth_append)

lemma find_close_nl:
  assumes "find_sub parameter_close v = None"
  shows "find_sub parameter_close (nl @ v @ nl) = None"
proof -
  have "\<not> prefix parameter_close (drop q (v @ nl))" if "q \<le> length v" for q
  proof
    assume occ: "prefix parameter_close (drop q (v @ nl))"
    have "\<not> prefix parameter_close (drop q v)" using assms that by (simp add: find_sub_None)
    then have strict: "strict_prefix (drop q v) parameter_close" "length v < q + length parameter_close"
      using occurrence_cases [OF occ] that by auto
    have "prefix parameter_close (drop q v @ nl)" using occ that by simp
    then have "parameter_close = drop q v @ nl"
      using strict \<open>\<not> prefix parameter_close (drop q v)\<close> by (auto simp: prefix_append nl_def prefix_Cons)
    then have "last parameter_close = last (drop q v @ nl)" by (rule arg_cong)
    then have "last parameter_close = CHR 0x0A" by (simp add: nl_def)
    then show False by (simp add: parameter_close_def)
  qed
  moreover have "\<not> prefix parameter_close (drop q (v @ nl))" if "\<not> q \<le> length v" for q
    using that by (auto simp: nl_def parameter_close_def)
  ultimately have "find_sub parameter_close (v @ nl) = None" unfolding find_sub_None by blast
  then show ?thesis by (simp add: nl_def parameter_close_def)
qed

lemma is_tag_parameter_close: "is_tag parameter_close"
  by (simp add: is_tag_def parameter_close_def)

subsection \<open>The reference parser on a written call\<close>

text \<open>A step of the reference parser that is in the class, as a rewrite of both its results.\<close>

definition goes :: "((bytes \<times> bytes) list \<Rightarrow> bytes option) \<Rightarrow> qwen \<Rightarrow> parser_event list \<Rightarrow> qwen \<Rightarrow> bool" where
  "goes render p es p' \<longleftrightarrow> qwen_ref render p = es @ qwen_ref render p' \<and> (qwen_clean render p' \<longrightarrow> qwen_clean render p)"

lemma goes_step: "qwen_ref_step render p = (True, es, Some p') \<Longrightarrow> goes render p es p'"
  using qwen_ref_Some by (simp add: goes_def)

lemma goes_trans: "goes render p es p' \<Longrightarrow> goes render p' es' p'' \<Longrightarrow> goes render p (es @ es') p''"
  by (simp add: goes_def)

lemma goes_param:
  assumes st: "q_state p = QInFunctionBody" and key: "CHR ''>'' \<notin> set k" and ws: "CHR ''<'' \<notin> set ws"
    and v: "find_sub parameter_close v = None" and buf: "q_buf p = ws @ write_param (k, v) @ r"
  shows "goes render p [] (p\<lparr>q_buf := nl @ r, q_current_param_key := [],
    q_current_params := AList.update k v (q_current_params p)\<rparr>)"
proof -
  let ?body = "nl @ v @ nl" and ?n = "length parameter_open"
  let ?after = "?body @ parameter_close @ nl @ r"
  let ?p = "p\<lparr>q_buf := ?after, q_current_param_key := k, q_state := QInParameterBody\<rparr>"
  have buf': "q_buf p = ws @ parameter_open @ k @ CHR ''>'' # ?after" using buf by (simp add: write_param_def)
  have "earliest_tag [parameter_open, function_close] (q_buf p) = Some (length ws, parameter_open)"
    unfolding buf' by (rule earliest_plain [OF tags_body _ ws]) simp
  moreover have "find_sub ''>'' (k @ CHR ''>'' # ?after) = Some (length k)" by (rule find_char_plain [OF key])
  ultimately have "qwen_ref_step render p = (True, [], Some ?p)"
    using st by (simp add: qwen_ref_step_def Let_def buf' slice_of_def del: earliest_tag.simps)
  moreover have "find_sub parameter_close ?after = Some (length ?body)"
    by (rule find_sub_plain [OF is_tag_parameter_close find_close_nl [OF v]])
  then have "qwen_ref_step render ?p = (True, [], Some (?p\<lparr>q_buf := nl @ r, q_current_param_key := [],
      q_current_params := AList.update k (param_value ?body) (q_current_params p), q_state := QInFunctionBody\<rparr>))"
    by (simp add: qwen_ref_step_def)
  ultimately have "goes render p ([] @ []) (?p\<lparr>q_buf := nl @ r, q_current_param_key := [],
      q_current_params := AList.update k (param_value ?body) (q_current_params p), q_state := QInFunctionBody\<rparr>)"
    using goes_step goes_trans by blast
  moreover have "?p\<lparr>q_buf := nl @ r, q_current_param_key := [],
      q_current_params := AList.update k (param_value ?body) (q_current_params p), q_state := QInFunctionBody\<rparr> =
    p\<lparr>q_buf := nl @ r, q_current_param_key := [], q_current_params := AList.update k v (q_current_params p)\<rparr>"
    using st by (intro qwen.equality) (simp_all add: param_value_nl)
  ultimately show ?thesis by simp
qed

lemma goes_params:
  assumes "q_state p = QInFunctionBody" and "writable ps" and "q_current_param_key p = []" and "CHR ''<'' \<notin> set ws"
    and "fst ` set ps \<inter> fst ` set (q_current_params p) = {}"
    and "q_buf p = ws @ concat (map write_param ps) @ function_close @ r"
  shows "goes render p [ToolCallArgumentsDelta (q_next_index p) (args_json render (q_current_params p @ ps))]
    (p\<lparr>q_buf := r, q_current_params := [], q_state := QAwaitingToolCallClose\<rparr>)"
  using assms
proof (induction ps arbitrary: p ws)
  case Nil
  have "earliest_tag [parameter_open, function_close] (ws @ function_close @ r) = Some (length ws, function_close)"
    by (rule earliest_plain [OF tags_body _ Nil(4)]) simp
  moreover have "function_close \<noteq> parameter_open" by (simp add: parameter_open_def function_close_def)
  ultimately show ?case using Nil by (intro goes_step) (simp add: qwen_ref_step_def Let_def del: earliest_tag.simps)
next
  case (Cons kv ps)
  obtain k v where kv: "kv = (k, v)" by (cases kv)
  let ?p = "p\<lparr>q_buf := nl @ concat (map write_param ps) @ function_close @ r, q_current_param_key := [],
    q_current_params := AList.update k v (q_current_params p)\<rparr>"
  have w: "CHR ''>'' \<notin> set k" "find_sub parameter_close v = None" "writable ps" "k \<notin> fst ` set ps"
    using Cons.prems(2) kv by (auto simp: writable_def)
  have new: "AList.update k v (q_current_params p) = q_current_params p @ [(k, v)]"
    using Cons.prems(5) kv by (intro update_fresh) auto
  have one: "goes render p [] ?p"
    using Cons.prems kv by (intro goes_param [OF _ w(1) Cons.prems(4) w(2)]) simp_all
  have "goes render ?p [ToolCallArgumentsDelta (q_next_index ?p) (args_json render (q_current_params ?p @ ps))]
      (?p\<lparr>q_buf := r, q_current_params := [], q_state := QAwaitingToolCallClose\<rparr>)"
    using Cons.prems w by (intro Cons.IH [of _ nl]) (auto simp: nl_def new kv)
  moreover have "?p\<lparr>q_buf := r, q_current_params := [], q_state := QAwaitingToolCallClose\<rparr> =
    p\<lparr>q_buf := r, q_current_params := [], q_state := QAwaitingToolCallClose\<rparr>"
    using Cons.prems(3) by (intro qwen.equality) simp_all
  ultimately show ?case using goes_trans [OF one] kv by (simp add: new)
qed

lemma goes_call:
  assumes st: "q_state p = QText" and w: "writable ps" "CHR ''>'' \<notin> set name" and key: "q_current_param_key p = []"
    and buf: "q_buf p = write_call name ps @ r"
  shows "goes render p [ToolCallOpen (q_next_index p) name, ToolCallArgumentsDelta (q_next_index p) (args_json render ps),
      ToolCallClose (q_next_index p)]
    (p\<lparr>q_buf := r, q_next_index := next_call (q_next_index p), q_current_name := name, q_current_params := []\<rparr>)"
proof -
  let ?i = "q_next_index p"
  let ?body = "nl @ concat (map write_param ps) @ function_close @ nl @ tool_close @ r"
  let ?p1 = "p\<lparr>q_buf := nl @ function_open @ name @ CHR ''>'' # ?body, q_state := QInToolCall\<rparr>"
  let ?p2 = "p\<lparr>q_buf := ?body, q_current_name := name, q_current_params := [], q_state := QInFunctionBody\<rparr>"
  let ?p3 = "?p2\<lparr>q_buf := nl @ tool_close @ r, q_current_params := [], q_state := QAwaitingToolCallClose\<rparr>"
  let ?p4 = "p\<lparr>q_buf := r, q_next_index := next_call ?i, q_current_name := name, q_current_params := []\<rparr>"
  have buf': "q_buf p = tool_open @ nl @ function_open @ name @ CHR ''>'' # ?body" using buf by (simp add: write_call_def)
  have "earliest_tag text_state_open_tags (q_buf p) = Some (0, tool_open)"
    unfolding buf' using earliest_plain [OF tags_text_state, of tool_open "[]"] by (simp add: text_state_open_tags_def)
  then have "goes render p [] ?p1" using st
    by (intro goes_step) (simp add: qwen_ref_step_def until_tag_def text_ok_def push_text_def buf' tool_open_def)
  moreover have "goes render ?p1 [ToolCallOpen ?i name] ?p2"
  proof (rule goes_step)
    have "find_sub ''<'' (nl @ function_open @ name @ CHR ''>'' # ?body) = Some 1"
      by (simp add: nl_def function_open_def)
    moreover have "find_sub ''>'' (name @ CHR ''>'' # ?body) = Some (length name)" by (rule find_char_plain [OF w(2)])
    ultimately show "qwen_ref_step render ?p1 = (True, [ToolCallOpen ?i name], Some ?p2)"
      by (simp add: qwen_ref_step_def Let_def nl_def slice_of_def open_function_def)
  qed
  moreover have "goes render ?p2 [ToolCallArgumentsDelta (q_next_index ?p2) (args_json render (q_current_params ?p2 @ ps))]
      (?p2\<lparr>q_buf := nl @ tool_close @ r, q_current_params := [], q_state := QAwaitingToolCallClose\<rparr>)"
    using w(1) key by (intro goes_params [of _ _ nl]) (auto simp: nl_def)
  then have "goes render ?p2 [ToolCallArgumentsDelta ?i (args_json render ps)] ?p3" by simp
  moreover have "goes render ?p3 [ToolCallClose ?i] ?p4"
  proof (rule goes_step)
    have "earliest_tag [tool_close, function_open, parameter_open] (nl @ tool_close @ r) = Some (length nl, tool_close)"
      by (rule earliest_plain [OF tags_awaiting]) (simp_all add: nl_def)
    then have "qwen_ref_step render ?p3 = (True, [ToolCallClose ?i],
        Some (?p3\<lparr>q_buf := r, q_next_index := next_call ?i, q_state := QText\<rparr>))"
      by (simp add: qwen_ref_step_def Let_def del: earliest_tag.simps)
    moreover have "?p3\<lparr>q_buf := r, q_next_index := next_call ?i, q_state := QText\<rparr> = ?p4"
      using st by (intro qwen.equality) simp_all
    ultimately show "qwen_ref_step render ?p3 = (True, [ToolCallClose ?i], Some ?p4)" by simp
  qed
  ultimately have "goes render p ([] @ [ToolCallOpen ?i name] @ [ToolCallArgumentsDelta ?i (args_json render ps)] @ [ToolCallClose ?i]) ?p4"
    using goes_trans by blast
  then show ?thesis by simp
qed

subsection \<open>A turn of several calls\<close>

lemma qwen_whole_end: "q_buf p = [] \<Longrightarrow> q_state p = QText \<Longrightarrow> qwen_ref render p = [] \<and> qwen_clean render p"
proof -
  assume "q_buf p = []" "q_state p = QText"
  then have "qwen_ref_step render p = (True, [], None)"
    using until_Nil [OF tags_text_state, of push_text text_ok]
    by (simp add: qwen_ref_step_def push_text_def text_ok_def)
  then show ?thesis using qwen_ref_None by blast
qed

definition written_calls ::
    "((bytes \<times> bytes) list \<Rightarrow> bytes option) \<Rightarrow> nat \<Rightarrow> (bytes \<times> (bytes \<times> bytes) list) list \<Rightarrow> tool_call list" where
  "written_calls render i calls = map (\<lambda>(j, name, ps). \<lparr>tc_id = ''call_'' @ show_dec j, tc_kind = ''function'',
     tc_name = name, tc_arguments = args_json render ps\<rparr>) (zip [i..<i + length calls] calls)"

lemma written_calls_Cons:
  "written_calls render i ((name, ps) # calls) =
     \<lparr>tc_id = ''call_'' @ show_dec i, tc_kind = ''function'', tc_name = name, tc_arguments = args_json render ps\<rparr>
     # written_calls render (i + 1) calls"
  by (simp add: written_calls_def upt_conv_Cons del: upt_Suc)

lemma ref_calls:
  assumes "list_all (\<lambda>(name, ps). CHR ''>'' \<notin> set name \<and> writable ps) calls"
    and "q_state p = QText" and "q_current_param_key p = []"
    and "q_buf p = concat (map (\<lambda>(name, ps). write_call name ps) calls)"
    and "q_next_index p + length calls \<le> 2 ^ 32" and "\<forall>i. as_pending a i = None"
  shows "qwen_clean render p \<and>
    foldl split_event a (qwen_ref render p) = a\<lparr>as_calls := as_calls a @ written_calls render (q_next_index p) calls\<rparr>"
  using assms
proof (induction calls arbitrary: p a)
  case Nil
  then show ?case using qwen_whole_end by (simp add: written_calls_def)
next
  case (Cons call calls)
  obtain name ps where call: "call = (name, ps)" by (cases call)
  let ?i = "q_next_index p" and ?r = "concat (map (\<lambda>(name, ps). write_call name ps) calls)"
  let ?p = "p\<lparr>q_buf := ?r, q_next_index := next_call ?i, q_current_name := name, q_current_params := []\<rparr>"
  let ?a = "a\<lparr>as_calls := as_calls a @ [\<lparr>tc_id = ''call_'' @ show_dec ?i, tc_kind = ''function'', tc_name = name,
    tc_arguments = args_json render ps\<rparr>]\<rparr>"
  let ?es = "[ToolCallOpen ?i name, ToolCallArgumentsDelta ?i (args_json render ps), ToolCallClose ?i]"
  have g: "goes render p ?es ?p"
    using Cons.prems call by (intro goes_call) simp_all
  have fold: "foldl split_event a ?es = ?a" using Cons.prems(6) by (intro split_call) simp
  show ?case
  proof (cases calls)
    case Nil
    then have "qwen_ref render ?p = []" "qwen_clean render ?p" using qwen_whole_end [of ?p render] Cons.prems(2) by simp_all
    then have "qwen_ref render p = ?es" "qwen_clean render p" using g by (simp_all add: goes_def)
    then show ?thesis using fold Nil call by (simp only: written_calls_Cons) (simp add: written_calls_def)
  next
    case (Cons c cs)
    then have i: "next_call ?i = ?i + 1" using Cons.prems(5) by (simp add: next_call_def)
    have "qwen_clean render ?p \<and> foldl split_event ?a (qwen_ref render ?p) =
        ?a\<lparr>as_calls := as_calls ?a @ written_calls render (q_next_index ?p) calls\<rparr>"
      using Cons.prems i by (intro Cons.IH) simp_all
    then show ?thesis using g fold i call by (simp add: goes_def written_calls_Cons)
  qed
qed

subsection \<open>Properties\<close>

text \<open>
  C28: the response does not depend on the chunks. For every text whose calls are opened inside of
  the wrapper, in any chunks and any encoding, the Qwen parser's events are up to joining those of
  the reference parser on the whole text, and content and tool calls of the response are the same.
\<close>

lemma qwen_chunking_invariant:
  assumes "qwen_clean render (qwen_whole text)" and "concat cs = text"
  shows "\<exists>es. qwen_run render cs = Ok es \<and> coalesce es = coalesce (qwen_ref render (qwen_whole text)) \<and>
    split_events es = split_events (qwen_ref render (qwen_whole text))"
  using assms by (rule qwen_chunks)

text \<open>
  C27: what the template writes is what the server reads. A turn of calls written in the format,
  whatever the values contain but the closing tag of a parameter, read in any chunks, gives no
  content and exactly these calls: their order, their names and their parameters in order.
\<close>

lemma qwen_turn_roundtrip:
  assumes "list_all (\<lambda>(name, ps). CHR ''>'' \<notin> set name \<and> writable ps) calls" and "length calls \<le> 2 ^ 32"
    and "concat cs = concat (map (\<lambda>(name, ps). write_call name ps) calls)"
  shows "\<exists>es. qwen_run render cs = Ok es \<and> split_events es = ([], written_calls render 0 calls)"
proof -
  let ?text = "concat (map (\<lambda>(name, ps). write_call name ps) calls)"
  let ?a = "\<lparr>as_content = [], as_calls = [], as_pending = (\<lambda>_. None)\<rparr> :: assembly"
  have "qwen_clean render (qwen_whole ?text) \<and> foldl split_event ?a (qwen_ref render (qwen_whole ?text)) =
      ?a\<lparr>as_calls := as_calls ?a @ written_calls render (q_next_index (qwen_whole ?text)) calls\<rparr>"
    using assms(1,2) by (intro ref_calls) (simp_all add: qwen_whole_def qwen_new_def)
  then have ref: "qwen_clean render (qwen_whole ?text)"
    "split_events (qwen_ref render (qwen_whole ?text)) = ([], written_calls render 0 calls)"
    by (simp_all add: split_events_def Let_def qwen_whole_def qwen_new_def)
  from qwen_chunks [OF ref(1) assms(3)] show ?thesis using ref(2) by auto
qed

text \<open>
  where the parser asks for a name it does not have. Once a call of empty name is closed and a
  parameter follows, every further chunk, whatever it holds, closes one more call that was never
  opened, and the chunk stays in the buffer.
\<close>

lemma qwen_nameless_floods:
  assumes "q_state p = QAwaitingToolCallClose" and "q_current_name p = []" and "prefix parameter_open (q_buf p)" and "c \<noteq> []"
  shows "qwen_push render p c = ([ToolCallClose (q_next_index p)],
    p\<lparr>q_buf := q_buf p @ c, q_next_index := next_call (q_next_index p)\<rparr>)"
proof -
  let ?p = "p\<lparr>q_buf := q_buf p @ c\<rparr>"
  obtain w where w: "q_buf p = parameter_open @ w" using assms(3) by (auto simp: prefix_def)
  have "earliest_tag [tool_close, function_open, parameter_open] ([] @ parameter_open @ w @ c) = Some (length ([] :: bytes), parameter_open)"
    by (rule earliest_plain [OF tags_awaiting]) simp_all
  moreover have "parameter_open \<noteq> tool_close" "parameter_open \<noteq> function_open"
    by (simp_all add: parameter_open_def tool_close_def function_open_def)
  ultimately have "qwen_step render False ?p = (False, [ToolCallClose (q_next_index p)],
      ?p\<lparr>q_next_index := next_call (q_next_index p)\<rparr>)"
    using assms(1,2) by (simp add: qwen_step_def qwen_step_awaiting_close_def Let_def w del: earliest_tag.simps)
  then show ?thesis using assms(4) by (subst qwen_push_def, subst qwen_drain.simps) simp
qed

lemma qwen_drain_step:
  "qwen_step render fin p = (True, es, p') \<Longrightarrow> qwen_drain render fin p' = (es', q) \<Longrightarrow> qwen_drain render fin p = (es @ es', q)"
  by (subst qwen_drain.simps) simp

lemma qwen_drain_stop: "qwen_step render fin p = (False, es, p') \<Longrightarrow> qwen_drain render fin p = (es, p')"
  by (subst qwen_drain.simps) simp

lemmas qwen_eval = qwen_step_def qwen_step_text_def qwen_step_in_think_def qwen_step_in_tool_call_def
  qwen_step_in_function_body_def qwen_step_awaiting_close_def text_state_open_tags_def tool_open_def think_open_def
  think_close_def tool_close_def function_open_def function_close_def parameter_open_def next_in_body_def
  find_function_open_def is_function_name_def is_name_char_def is_digit_def starts_body_def slice_of_def
  open_function_def push_text_def Let_def align_down_all bare_open.simps trim_start_visible ws1_def ws2_def ws3_def
  pending_tool_tail_start_def ambiguous_tail_start_def max_tail_def upt_rec is_char_boundary_def is_continuation_def
  bare_open_holdback_def complete_name_holdback_def rfind_lt_def is_partial_bare_name_def
  align_down_char_boundary_def next_call_def qwen_whole_def qwen_new_def

lemma drain_empty: "q_buf p = [] \<Longrightarrow> q_state p = QText \<Longrightarrow> qwen_drain render fin p = ([], p)"
  by (rule qwen_drain_stop) (simp add: qwen_eval)

text \<open>
  the lenient opening without the wrapper breaks the contract of the trait. The same text is a
  tool call when it arrives in one chunk and plain text when it is cut behind
  \<^verbatim>\<open><function=\<close>: nothing holds back a buffer that ends in that complete tag.
\<close>

lemma qwen_wrapperless_depends_on_chunks:
  "\<exists>es es'. qwen_run render [''<function=f></function></tool_call>''] = Ok es \<and>
     qwen_run render [''<function='', ''f></function></tool_call>''] = Ok es' \<and>
     split_events es = ([], [\<lparr>tc_id = ''call_0'', tc_kind = ''function'', tc_name = ''f'',
       tc_arguments = args_json render []\<rparr>]) \<and>
     split_events es' = (''<function=f></function></tool_call>'', [])"
proof -
  let ?es = "[ToolCallOpen 0 ''f'', ToolCallArgumentsDelta 0 (args_json render []), ToolCallClose 0]"
  let ?es' = "[TextDelta ''<function='', TextDelta ''f></function></tool_call>'']"
  let ?p1 = "qwen_new\<lparr>q_buf := ''</function></tool_call>'', q_current_name := ''f'', q_state := QInFunctionBody\<rparr>"
  let ?p2 = "?p1\<lparr>q_buf := ''</tool_call>'', q_state := QAwaitingToolCallClose\<rparr>"
  let ?p3 = "qwen_new\<lparr>q_current_name := ''f'', q_next_index := 1\<rparr>"
  have whole: "qwen_new\<lparr>q_buf := q_buf qwen_new @ s\<rparr> = qwen_whole s" for s by (simp add: qwen_whole_def qwen_new_def)
  have s1: "qwen_step render False (qwen_whole ''<function=f></function></tool_call>'') = (True, [ToolCallOpen 0 ''f''], ?p1)"
    by (simp add: qwen_eval)
  have s2: "qwen_step render False ?p1 = (True, [ToolCallArgumentsDelta 0 (args_json render [])], ?p2)"
    by (simp add: qwen_eval)
  have s3: "qwen_step render False ?p2 = (True, [ToolCallClose 0], ?p3)" by (simp add: qwen_eval)
  have e3: "qwen_drain render fin ?p3 = ([], ?p3)" for fin by (rule drain_empty) (simp_all add: qwen_new_def)
  have one: "qwen_push render qwen_new ''<function=f></function></tool_call>'' = (?es, ?p3)"
    using qwen_drain_step [OF s1 qwen_drain_step [OF s2 qwen_drain_step [OF s3 e3]]] whole by (simp add: qwen_push_def)
  have f1: "qwen_finish render ?p3 = ([], ?p3)" using e3 by (simp add: qwen_finish_def qwen_new_def)
  have t1: "qwen_step render False (qwen_whole ''<function='') = (True, [TextDelta ''<function=''], qwen_new)"
    by (simp add: qwen_eval)
  have t2: "qwen_step render False (qwen_whole ''f></function></tool_call>'') =
      (True, [TextDelta ''f></function></tool_call>''], qwen_new)"
    by (simp add: qwen_eval)
  have e0: "qwen_drain render fin qwen_new = ([], qwen_new)" for fin by (rule drain_empty) (simp_all add: qwen_new_def)
  have two: "qwen_push render qwen_new ''<function='' = ([TextDelta ''<function=''], qwen_new)"
    "qwen_push render qwen_new ''f></function></tool_call>'' = ([TextDelta ''f></function></tool_call>''], qwen_new)"
    using qwen_drain_step [OF t1 e0] qwen_drain_step [OF t2 e0] whole by (simp_all add: qwen_push_def)
  have f0: "qwen_finish render qwen_new = ([], qwen_new)" using e0 by (simp add: qwen_finish_def qwen_new_def)
  have "qwen_run render [''<function=f></function></tool_call>''] = Ok ?es" using one f1 by (simp add: qwen_run_def)
  moreover have "qwen_run render [''<function='', ''f></function></tool_call>''] = Ok ?es'"
    using two f0 by (simp add: qwen_run_def)
  moreover have "split_events ?es = ([], [\<lparr>tc_id = ''call_0'', tc_kind = ''function'', tc_name = ''f'',
       tc_arguments = args_json render []\<rparr>])" "split_events ?es' = (''<function=f></function></tool_call>'', [])"
    by (simp_all add: split_events_def Let_def show_dec_0)
  ultimately show ?thesis by blast
qed

subsection \<open>The properties at concrete texts\<close>

lemma demo_writable: "writable [(''k'', ''v>'')]"
  by (simp add: writable_def parameter_close_def)

lemma qwen_turn_roundtrip_witness:
  "\<exists>es. qwen_run (\<lambda>_. None) [''<tool_'', drop 6 (write_call ''f'' [(''k'', ''v>'')])] = Ok es \<and>
     split_events es = ([], [\<lparr>tc_id = ''call_0'', tc_kind = ''function'', tc_name = ''f'', tc_arguments = ''{}''\<rparr>])"
proof -
  have "concat [''<tool_'', drop 6 (write_call ''f'' [(''k'', ''v>'')])] =
      concat (map (\<lambda>(name, ps). write_call name ps) [(''f'', [(''k'', ''v>'')])])"
    by (simp add: write_call_def tool_open_def)
  from qwen_turn_roundtrip [OF _ _ this, of "\<lambda>_. None"] show ?thesis
    using demo_writable by (simp add: written_calls_def args_json_def show_dec_0)
qed

lemma qwen_chunking_invariant_witness:
  "\<exists>es. qwen_run (\<lambda>_. None) [''a</th'', ''ink>''] = Ok es \<and> split_events es = (''a</think>'', [])"
proof -
  have none: "earliest_tag text_state_open_tags ''a</think>'' = None"
    by (simp add: text_state_open_tags_def tool_open_def think_open_def)
  have "text_ok ''a</think>'' 9"
    by (simp add: text_ok_def All_less_Suc numeral_eq_Suc opens_def function_open_def is_function_name_def
        is_name_char_def is_digit_def)
  then have step: "qwen_ref_step (\<lambda>_. None) (qwen_whole ''a</think>'') = (True, [TextDelta ''a</think>''], None)"
    using none by (simp add: qwen_ref_step_def until_tag_def qwen_whole_def qwen_new_def push_text_def
        Let_def numeral_eq_Suc)
  show ?thesis
    using qwen_chunking_invariant [of "\<lambda>_. None" "''a</think>''" "[''a</th'', ''ink>'']"] qwen_ref_None [OF step]
    by (auto simp: split_events_def Let_def)
qed

lemma qwen_nameless_floods_witness:
  "\<exists>p. snd (qwen_push (\<lambda>_. None) qwen_new ''<tool_call><function=></function><parameter='') = p \<and>
     qwen_push (\<lambda>_. None) p ''x'' = ([ToolCallClose 1], p\<lparr>q_buf := ''<parameter=x'', q_next_index := 2\<rparr>)"
proof -
  let ?r = "\<lambda>_. None :: bytes option"
  let ?p1 = "qwen_new\<lparr>q_buf := ''<function=></function><parameter='', q_state := QInToolCall\<rparr>"
  let ?p2 = "qwen_new\<lparr>q_buf := ''</function><parameter='', q_state := QInFunctionBody\<rparr>"
  let ?p3 = "qwen_new\<lparr>q_buf := ''<parameter='', q_state := QAwaitingToolCallClose\<rparr>"
  let ?p4 = "?p3\<lparr>q_next_index := 1\<rparr>"
  have s1: "qwen_step ?r False (qwen_whole ''<tool_call><function=></function><parameter='') = (True, [], ?p1)"
    by (simp add: qwen_eval)
  have s2: "qwen_step ?r False ?p1 = (True, [ToolCallOpen 0 []], ?p2)" by (simp add: qwen_eval)
  have s3: "qwen_step ?r False ?p2 = (True, [ToolCallArgumentsDelta 0 ''{}''], ?p3)" by (simp add: qwen_eval args_json_def)
  have s4: "qwen_step ?r False ?p3 = (False, [ToolCallClose 0], ?p4)" by (simp add: qwen_eval)
  have "snd (qwen_push ?r qwen_new ''<tool_call><function=></function><parameter='') = ?p4"
    using qwen_drain_step [OF s1 qwen_drain_step [OF s2 qwen_drain_step [OF s3 qwen_drain_stop [OF s4]]]]
    by (simp add: qwen_push_def qwen_whole_def qwen_new_def)
  moreover have "qwen_push ?r ?p4 ''x'' = ([ToolCallClose (q_next_index ?p4)],
      ?p4\<lparr>q_buf := q_buf ?p4 @ ''x'', q_next_index := next_call (q_next_index ?p4)\<rparr>)"
    by (rule qwen_nameless_floods) (simp_all add: qwen_new_def parameter_open_def)
  then have "qwen_push ?r ?p4 ''x'' = ([ToolCallClose 1], ?p4\<lparr>q_buf := ''<parameter=x'', q_next_index := 2\<rparr>)"
    by (simp add: qwen_new_def next_call_def)
  ultimately show ?thesis by blast
qed

end
