(* ===== verification/Tool_Gemma_Args.thy ===== *)
theory Tool_Gemma_Args
  imports Tool_Events "HOL-Library.AList"
begin

section \<open>Arguments of Gemma 4 calls\<close>

text \<open>
  \<^verbatim>\<open>crates/server/src/tool_call_parser/gemma4.rs\<close>: the native argument format, the Python-call format
  and the \<^verbatim>\<open>tool_code\<close> blocks. A \<^verbatim>\<open>serde_json\<close> value is a datatype over abstract numbers; its map keeps
  the order of insertion and a repeated key its place. \<^verbatim>\<open>serde_json\<close>'s reader and writer, and the
  reading of a finite float, are parameters.
\<close>

datatype 'n jvalue =
    JNull | JBool bool | JNumber 'n | JString bytes | JArray "'n jvalue list" | JObject "(bytes \<times> 'n jvalue) list"

record 'n gemma_serde =
  gs_of_int :: "int \<Rightarrow> 'n"
  gs_of_float :: "bytes \<Rightarrow> 'n option"
  gs_from_str :: "bytes \<Rightarrow> 'n jvalue option"
  gs_first :: "bytes \<Rightarrow> 'n jvalue option"
  gs_to_string :: "'n jvalue \<Rightarrow> bytes option"

text \<open>
  \<open>gs_of_float s\<close> is \<^verbatim>\<open>s.parse::<f64>()\<close> followed by \<^verbatim>\<open>Number::from_f64\<close>; \<open>gs_first\<close> is the first value of
  a stream.
\<close>

definition render_json :: "'n gemma_serde \<Rightarrow> 'n jvalue \<Rightarrow> bytes" where
  "render_json J v = (case gs_to_string J v of Some s \<Rightarrow> s | None \<Rightarrow> ''{}'')"

subsection \<open>Text helpers\<close>

definition is_ascii_whitespace :: "byte \<Rightarrow> bool" where
  "is_ascii_whitespace b \<longleftrightarrow> b \<in> {CHR 0x09, CHR 0x0A, CHR 0x0C, CHR 0x0D, CHR 0x20}"

text \<open>\<^verbatim>\<open>skip_ws\<close>: how many bytes it moves over.\<close>

definition ws_run :: "bytes \<Rightarrow> nat" where
  "ws_run s = length (takeWhile is_ascii_whitespace s)"

text \<open>\<^verbatim>\<open>raw.parse::<i64>()\<close>: an optional sign, at least one digit, no overflow.\<close>

definition digits_value :: "bytes \<Rightarrow> nat" where
  "digits_value s = foldl (\<lambda>n c. 10 * n + (of_char c - 48)) 0 s"

definition parse_i64 :: "bytes \<Rightarrow> int option" where
  "parse_i64 raw =
     (let neg = (raw \<noteq> [] \<and> hd raw = CHR ''-''); body = (if neg \<or> raw \<noteq> [] \<and> hd raw = CHR ''+'' then tl raw else raw);
          n = (if neg then - int (digits_value body) else int (digits_value body)) in
      if body \<noteq> [] \<and> list_all is_digit body \<and> - (2 ^ 63) \<le> n \<and> n < 2 ^ 63 then Some n else None)"

definition string_quote :: bytes where "string_quote = ''<|'' @ [dquote] @ ''|>''"

lemma length_string_quote [simp]: "length string_quote = 5"
  by (simp add: string_quote_def)

subsection \<open>The native format\<close>

text \<open>
  The parser of the source moves a position over the body; here each function takes the text from that
  position on and answers how far it moved. \<open>d\<close> is the nesting that the stack allows.
\<close>

definition bare_value :: "'n gemma_serde \<Rightarrow> bytes \<Rightarrow> 'n jvalue" where
  "bare_value J raw =
     (if raw = ''true'' then JBool True
      else if raw = ''false'' then JBool False
      else if raw = ''null'' then JNull
      else case parse_i64 raw of
          Some n \<Rightarrow> JNumber (gs_of_int J n)
        | None \<Rightarrow> (case gs_of_float J raw of Some n \<Rightarrow> JNumber n | None \<Rightarrow> JString raw))"

function parse_object_body ::
    "'n gemma_serde \<Rightarrow> nat \<Rightarrow> (bytes \<times> 'n jvalue) list \<Rightarrow> bytes \<Rightarrow> (unit, 'n jvalue \<times> nat) outcome"
  and parse_elements ::
    "'n gemma_serde \<Rightarrow> nat \<Rightarrow> 'n jvalue list \<Rightarrow> bytes \<Rightarrow> (unit, 'n jvalue list \<times> nat) outcome"
  and parse_value :: "'n gemma_serde \<Rightarrow> nat \<Rightarrow> bytes \<Rightarrow> (unit, 'n jvalue \<times> nat) outcome" where
  "parse_object_body J d obj s =
     (let w = ws_run s; t = drop w s in
      if t = [] \<or> hd t = CHR ''}'' then Ok (JObject obj, w)
      else case find_sub '':'' t of
          None \<Rightarrow> Err ()
        | Some k \<Rightarrow>
            (let key = trim (take k t); u = w + k + 1; u = u + ws_run (drop u s) in
             obind (parse_value J d (drop u s)) (\<lambda>(val, n).
               let obj = AList.update key val obj; u = u + n; u = u + ws_run (drop u s) in
               if prefix '','' (drop u s)
               then obind (parse_object_body J d obj (drop (u + 1) s)) (\<lambda>(v, n). Ok (v, u + 1 + n))
               else Ok (JObject obj, u))))"
| "parse_elements J d arr s =
     (let w = ws_run s; t = drop w s in
      if t = [] \<or> hd t = CHR '']'' then Ok (arr, w)
      else obind (parse_value J d t) (\<lambda>(v, n).
        let arr = arr @ [v]; u = w + n; u = u + ws_run (drop u s) in
        if prefix '','' (drop u s)
        then obind (parse_elements J d arr (drop (u + 1) s)) (\<lambda>(vs, n). Ok (vs, u + 1 + n))
        else Ok (arr, u)))"
| "parse_value J d s =
     (let w = ws_run s; t = drop w s in
      if t = [] then Ok (JNull, w)
      else if prefix string_quote t then
        (let start = w + length string_quote in
         case find_sub string_quote (drop start s) of
           None \<Rightarrow> Err ()
         | Some k \<Rightarrow> Ok (JString (slice_of s start (start + k)), start + k + length string_quote))
      else if hd t = CHR ''{'' then
        (case d of
           0 \<Rightarrow> Panic
         | Suc d \<Rightarrow> obind (parse_object_body J d [] (drop (w + 1) s)) (\<lambda>(v, n).
             let u = w + 1 + n in Ok (v, if prefix ''}'' (drop u s) then u + 1 else u)))
      else if hd t = CHR ''['' then
        (case d of
           0 \<Rightarrow> Panic
         | Suc d \<Rightarrow> obind (parse_elements J d [] (drop (w + 1) s)) (\<lambda>(vs, n).
             let u = w + 1 + n in Ok (JArray vs, if prefix '']'' (drop u s) then u + 1 else u)))
      else
        (let k = length (takeWhile (\<lambda>b. b \<notin> {CHR '','', CHR ''}'', CHR '']''}) t) in
         Ok (bare_value J (trim (take k t)), w + k)))"
  by pat_completeness auto

termination
proof (relation "measures [\<lambda>x. case x of Inl (J, d, _, s) \<Rightarrow> d | Inr (Inl (J, d, _, s)) \<Rightarrow> d | Inr (Inr (J, d, s)) \<Rightarrow> d,
    \<lambda>x. case x of Inl (J, d, _, s) \<Rightarrow> 2 * length s | Inr (Inl (J, d, _, s)) \<Rightarrow> 2 * length s + 1 | Inr (Inr (J, d, s)) \<Rightarrow> 2 * length s]",
    goal_cases)
qed (auto dest: find_sub_bound simp: prefix_def)

declare parse_object_body.simps [simp del] parse_elements.simps [simp del] parse_value.simps [simp del]

definition parse_args_body :: "'n gemma_serde \<Rightarrow> nat \<Rightarrow> bytes \<Rightarrow> (unit, 'n jvalue) outcome" where
  "parse_args_body J d body =
     (let t = drop (ws_run body) body in
      if t = [] then Ok (JObject []) else obind (parse_object_body J d [] t) (\<lambda>(v, _). Ok v))"

subsection \<open>Python calls\<close>

definition is_quote_char :: "byte \<Rightarrow> bool" where
  "is_quote_char c \<longleftrightarrow> c = dquote \<or> c = CHR 0x27"

text \<open>The scan for the matching parenthesis: \<open>i\<close> is the position of the next byte.\<close>

fun paren_scan :: "nat \<Rightarrow> int \<Rightarrow> byte option \<Rightarrow> bytes \<Rightarrow> nat option" where
  "paren_scan i depth q [] = None"
| "paren_scan i depth (Some q) (c # s) =
     (if c = backslash then paren_scan (i + 2) depth (Some q) (drop 1 s)
      else paren_scan (i + 1) depth (if c = q then None else Some q) s)"
| "paren_scan i depth None (c # s) =
     (if is_quote_char c then paren_scan (i + 1) depth (Some c) s
      else if c = CHR ''('' then paren_scan (i + 1) (depth + 1) None s
      else if c = CHR '')'' then (if depth - 1 = 0 then Some i else paren_scan (i + 1) (depth - 1) None s)
      else paren_scan (i + 1) depth None s)"

definition matching_paren :: "bytes \<Rightarrow> nat option" where
  "matching_paren s = (if prefix ''('' s then paren_scan 0 0 None s else None)"

text \<open>The parts between top-level separators; \<open>cur\<close> is the part being read.\<close>

fun split_scan :: "byte \<Rightarrow> int \<Rightarrow> byte option \<Rightarrow> bytes \<Rightarrow> bytes \<Rightarrow> bytes list" where
  "split_scan sep depth q cur [] = [cur]"
| "split_scan sep depth (Some q) cur (c # s) =
     (if c = backslash then split_scan sep depth (Some q) (cur @ c # take 1 s) (drop 1 s)
      else split_scan sep depth (if c = q then None else Some q) (cur @ [c]) s)"
| "split_scan sep depth None cur (c # s) =
     (if is_quote_char c then split_scan sep depth (Some c) (cur @ [c]) s
      else if c \<in> {CHR ''('', CHR ''['', CHR ''{''} then split_scan sep (depth + 1) None (cur @ [c]) s
      else if c \<in> {CHR '')'', CHR '']'', CHR ''}''} then split_scan sep (depth - 1) None (cur @ [c]) s
      else if c = sep \<and> depth = 0 then cur # split_scan sep depth None [] s
      else split_scan sep depth None (cur @ [c]) s)"

definition split_top_level :: "bytes \<Rightarrow> byte \<Rightarrow> bytes list" where
  "split_top_level s sep = split_scan sep 0 None [] s"

definition parse_py_value :: "'n gemma_serde \<Rightarrow> bytes \<Rightarrow> 'n jvalue" where
  "parse_py_value J s =
     (let s = trim s in
      if 2 \<le> length s \<and> is_quote_char (hd s) \<and> last s = hd s then JString (slice_of s 1 (length s - 1))
      else if s = ''True'' then JBool True
      else if s = ''False'' then JBool False
      else if s = ''None'' \<or> s = ''null'' then JNull
      else case gs_from_str J s of Some v \<Rightarrow> v | None \<Rightarrow> JString s)"

definition trim_quotes :: "bytes \<Rightarrow> bytes" where
  "trim_quotes s = rev (dropWhile is_quote_char (rev (dropWhile is_quote_char s)))"

definition python_arg :: "'n gemma_serde \<Rightarrow> (bytes \<times> 'n jvalue) list \<Rightarrow> bytes \<Rightarrow> (bytes \<times> 'n jvalue) list" where
  "python_arg J obj part =
     (let part = trim part in
      if part = [] then obj
      else
        (let eq = length (hd (split_top_level part (CHR ''=''))) in
         if length part \<le> eq then obj
         else
           (let key = trim_quotes (trim (take eq part)) in
            if key = [] then obj else AList.update key (parse_py_value J (trim (drop (eq + 1) part))) obj)))"

definition parse_python_args :: "'n gemma_serde \<Rightarrow> bytes \<Rightarrow> 'n jvalue" where
  "parse_python_args J inner = JObject (foldl (python_arg J) [] (split_top_level inner (CHR '','')))"

definition ident_char :: "byte \<Rightarrow> bool" where
  "ident_char c \<longleftrightarrow> is_digit c \<or> ((65::nat) \<le> of_char c \<and> of_char c \<le> (90::nat))
     \<or> ((97::nat) \<le> of_char c \<and> of_char c \<le> (122::nat)) \<or> c = CHR ''_''"

definition first_identifier :: "bytes \<Rightarrow> bytes option" where
  "first_identifier s =
     (let id = takeWhile ident_char (dropWhile (\<lambda>c. \<not> ident_char c) s) in if id = [] then None else Some id)"

definition parse_python_call :: "'n gemma_serde \<Rightarrow> bytes \<Rightarrow> (bytes \<times> bytes) option" where
  "parse_python_call J s =
     (let s = trim s in
      case find_sub ''('' s of
        None \<Rightarrow> None
      | Some open \<Rightarrow>
          (case (first_identifier (take open s), matching_paren (drop open s)) of
             (Some name, Some close_rel) \<Rightarrow>
               (let inner = slice_of s (open + 1) (open + close_rel); args = parse_python_args J inner;
                    n_named = (case args of JObject m \<Rightarrow> length m | _ \<Rightarrow> 0) in
                if trim inner \<noteq> [] \<and> n_named = 0 then None else map_option (Pair name) (gs_to_string J args))
           | _ \<Rightarrow> None))"

subsection \<open>The \<^verbatim>\<open>tool_code\<close> blocks\<close>

definition tool_code_open :: bytes where "tool_code_open = ''<|tool_code|>''"
definition fence :: bytes where "fence = replicate 3 (CHR 0x60)"

definition strip_marker :: "bytes \<Rightarrow> bytes option" where
  "strip_marker t =
     (if prefix tool_code_open t then Some (drop (length tool_code_open) t)
      else if prefix (fence @ ''tool_code'') t then Some (drop (length (fence @ ''tool_code'')) t)
      else if prefix fence t then Some (drop (length fence) t)
      else None)"

lemma strip_marker_shorter: "strip_marker t = Some r \<Longrightarrow> length r < length t"
  by (auto simp: strip_marker_def tool_code_open_def fence_def prefix_def split: if_splits)

function strip_markers :: "bytes \<Rightarrow> bytes" where
  "strip_markers s = (case strip_marker (trim_start s) of Some rest \<Rightarrow> strip_markers rest | None \<Rightarrow> s)"
  by auto

termination
  by (relation "measure length") (auto dest: strip_marker_shorter intro: less_le_trans [OF _ trim_start_le])

declare strip_markers.simps [simp del]

definition parse_tool_code_block :: "'n gemma_serde \<Rightarrow> bytes \<Rightarrow> (bytes \<times> bytes) option" where
  "parse_tool_code_block J block =
     (let s = trim (strip_markers (trim block)) in
      case find_sub ''{'' s of
        None \<Rightarrow> parse_python_call J s
      | Some brace \<Rightarrow>
          (case (first_identifier (take brace s), gs_first J (drop brace s)) of
             (Some name, Some (JObject m)) \<Rightarrow> map_option (Pair name) (gs_to_string J (JObject m))
           | _ \<Rightarrow> parse_python_call J s))"

end
