(* ===== verification/Tool_Gemma.thy ===== *)
theory Tool_Gemma
  imports Tool_Gemma_Args
begin

section \<open>The Gemma 4 parser\<close>

text \<open>
  \<^verbatim>\<open>crates/server/src/tool_call_parser/gemma4.rs\<close>: the streaming parser of
  \<^verbatim>\<open><|tool_call>call:NAME{ARGS}<tool_call|>\<close> and of the variants of its markers, and the guard that
  drops an echo of the prompt's scaffolding at the start of a reply.
\<close>

definition call_prefix :: bytes where "call_prefix = ''call:''"
definition tool_call_close :: bytes where "tool_call_close = ''<tool_call|>''"
definition channel_close :: bytes where "channel_close = ''<channel|>''"
definition tool_code_close :: bytes where "tool_code_close = ''</tool_code>''"
definition turn_open :: bytes where "turn_open = ''<|turn>''"
definition tool_def_open :: bytes where "tool_def_open = ''<|tool>''"
definition call_open_bare :: bytes where "call_open_bare = ''<|call:''"
definition tool_call_open_sym :: bytes where "tool_call_open_sym = ''<|tool_call|>''"
definition tool_response_open :: bytes where "tool_response_open = ''<|tool_response>''"
definition tool_response_close :: bytes where "tool_response_close = ''<tool_response|>''"

definition drop_tokens :: "bytes list" where
  "drop_tokens = [''<turn|>'', ''<|end_of_turn>'', ''<end_of_turn>'', ''<|file_separator|>'', ''<|endoftext|>'']"

text \<open>The Hermes markers and the reasoning markers are those of the other formats.\<close>

definition gemma_open_tags :: "bytes list" where
  "gemma_open_tags =
     [''<|tool_call>'', tool_call_open_sym, tool_def_open, call_open_bare, tool_open, ''<|channel>'', think_open,
      think_close, channel_close, tool_code_open, tool_response_open, turn_open] @ drop_tokens"

datatype gemma_state =
  GText | GInChannel | GInCallHeader | GInArgs | GAwaitingClose | GInToolCode | GInTurnHeader | GInToolResponse

record gemma =
  g_state :: gemma_state
  g_buf :: bytes
  g_next_index :: nat
  g_current_name :: bytes
  g_args_body :: bytes
  g_args_depth :: nat
  g_args_in_string :: bool
  g_pending_thought_echo :: bool

definition with_thought_echo_guard :: "bool \<Rightarrow> gemma" where
  "with_thought_echo_guard pending =
     \<lparr>g_state = GText, g_buf = [], g_next_index = 0, g_current_name = [], g_args_body = [], g_args_depth = 0,
      g_args_in_string = False, g_pending_thought_echo = pending\<rparr>"

definition gemma_new :: gemma where "gemma_new = with_thought_echo_guard False"

definition with_pending_channel_close :: gemma where "with_pending_channel_close = with_thought_echo_guard True"

definition prompt_ends_with_channel_close :: "bytes \<Rightarrow> bool" where
  "prompt_ends_with_channel_close prompt \<longleftrightarrow> suffix channel_close (trim_end prompt)"

subsection \<open>The echo guard\<close>

definition scaffold_byte :: "byte \<Rightarrow> bool" where
  "scaffold_byte c \<longleftrightarrow> (97::nat) \<le> of_char c \<and> of_char c \<le> (122::nat) \<or> c \<in> set ''<>|*/''"

definition marker_byte :: "byte \<Rightarrow> bool" where
  "marker_byte c \<longleftrightarrow> c \<in> set ''<>|*/''"

text \<open>All characters are of the class \<open>P\<close> (of ASCII characters) or white space.\<close>

function all_chars :: "(byte \<Rightarrow> bool) \<Rightarrow> bytes \<Rightarrow> bool" where
  "all_chars P s =
     (if s = [] then True
      else if ws_len s \<noteq> 0 then all_chars P (drop (ws_len s) s)
      else P (hd s) \<and> all_chars P (tl s))"
  by auto

termination
  using ws_len_le by (relation "measure (length \<circ> snd)") (auto simp: less_diff_conv)

declare all_chars.simps [simp del]

definition scaffold_words :: "bytes list" where
  "scaffold_words = [''turn'', ''channel'', ''thought'', ''model'', ''system'', ''user'', ''assistant'']"

definition has_marker :: "bytes \<Rightarrow> bool" where
  "has_marker s \<longleftrightarrow> list_ex (\<lambda>c. c \<in> set ''<>|'') s"

definition is_scaffolding_line :: "bytes \<Rightarrow> bool" where
  "is_scaffolding_line line =
     (let s = trim line in
      if s = [] \<or> 40 < length s then False
      else if \<not> all_chars scaffold_byte s then False
      else
        (let has_word = list_ex (contains s) scaffold_words;
             bare_thought = (prefix ''thought'' s \<and> all_chars marker_byte (drop (length ''thought'') s)) in
         has_marker s \<and> has_word \<or> bare_thought))"

definition could_extend_to_scaffolding_line :: "bytes \<Rightarrow> bool" where
  "could_extend_to_scaffolding_line part =
     (let s = trim_start part in
      if s = [] then True
      else if 40 < length s \<or> \<not> all_chars scaffold_byte s then False
      else has_marker s \<or> prefix s ''thought'' \<or> prefix ''thought'' s)"

text \<open>Whether the guard stays armed, and the buffer.\<close>

function consume_echo :: "bool \<Rightarrow> bytes \<Rightarrow> bool \<times> bytes" where
  "consume_echo is_finish buf =
     (case find_sub [CHR 0x0A] buf of
        Some nl \<Rightarrow>
          if is_scaffolding_line (take nl buf) then consume_echo is_finish (drop (nl + 1) buf) else (False, buf)
      | None \<Rightarrow>
          if \<not> is_finish \<and> could_extend_to_scaffolding_line buf then (True, buf)
          else (False, if is_finish \<and> is_scaffolding_line buf then [] else buf))"
  by auto

termination
  by (relation "measure (length \<circ> snd)") (auto dest: find_sub_bound)

declare consume_echo.simps [simp del]

definition try_consume_echo_prefix :: "gemma \<Rightarrow> bool \<Rightarrow> gemma" where
  "try_consume_echo_prefix p is_finish =
     (if \<not> g_pending_thought_echo p then p
      else (let (armed, buf) = consume_echo is_finish (g_buf p) in p\<lparr>g_pending_thought_echo := armed, g_buf := buf\<rparr>))"

subsection \<open>Steps outside of calls\<close>

definition after_tag :: "bytes \<Rightarrow> gemma_state" where
  "after_tag tag =
     (if tag \<in> {''<|tool_call>'', tool_call_open_sym, tool_def_open, call_open_bare, tool_open} then GInCallHeader
      else if tag \<in> {''<|channel>'', think_open} then GInChannel
      else if tag = tool_code_open then GInToolCode
      else if tag = tool_response_open then GInToolResponse
      else if tag = turn_open then GInTurnHeader
      else GText)"

definition gemma_step_text :: "gemma \<Rightarrow> bool \<Rightarrow> gemma step_result" where
  "gemma_step_text p is_finish =
     (case earliest_tag gemma_open_tags (g_buf p) of
        Some (pos, tag) \<Rightarrow>
          Ok (True, push_text (take pos (g_buf p)),
              p\<lparr>g_buf := drop (pos + length tag) (g_buf p), g_state := after_tag tag\<rparr>)
      | None \<Rightarrow>
          (let emit_upto = (if is_finish then length (g_buf p) else ambiguous_tail_start (g_buf p) gemma_open_tags);
               emit_upto = align_down_char_boundary (g_buf p) emit_upto in
           if 0 < emit_upto
           then Ok (True, push_text (take emit_upto (g_buf p)), p\<lparr>g_buf := drop emit_upto (g_buf p)\<rparr>)
           else Ok (False, [], p)))"

definition gemma_step_in_channel :: "gemma \<Rightarrow> bool \<Rightarrow> gemma step_result" where
  "gemma_step_in_channel p is_finish =
     (case earliest_tag [channel_close, think_close] (g_buf p) of
        Some (pos, marker) \<Rightarrow>
          Ok (True, push_think (take pos (g_buf p)),
              p\<lparr>g_buf := drop (pos + length marker) (g_buf p), g_state := GText\<rparr>)
      | None \<Rightarrow>
          (let emit_upto = (if is_finish then length (g_buf p)
                            else ambiguous_tail_start (g_buf p) [channel_close, think_close]);
               emit_upto = align_down_char_boundary (g_buf p) emit_upto in
           if 0 < emit_upto
           then Ok (True, push_think (take emit_upto (g_buf p)), p\<lparr>g_buf := drop emit_upto (g_buf p)\<rparr>)
           else Ok (False, [], p)))"

text \<open>A region that is dropped up to its closing marker, or to the end.\<close>

definition drop_through :: "bytes \<Rightarrow> gemma \<Rightarrow> bool \<Rightarrow> gemma step_result" where
  "drop_through marker p is_finish =
     (case find_sub marker (g_buf p) of
        Some pos \<Rightarrow> Ok (True, [], p\<lparr>g_buf := drop (pos + length marker) (g_buf p), g_state := GText\<rparr>)
      | None \<Rightarrow> Ok (False, [], if is_finish then p\<lparr>g_buf := [], g_state := GText\<rparr> else p))"

definition gemma_step_in_tool_response :: "gemma \<Rightarrow> bool \<Rightarrow> gemma step_result" where
  "gemma_step_in_tool_response = drop_through tool_response_close"

definition gemma_step_in_turn_header :: "gemma \<Rightarrow> bool \<Rightarrow> gemma step_result" where
  "gemma_step_in_turn_header = drop_through [CHR 0x0A]"

subsection \<open>Calls\<close>

definition emit_call_head :: "nat \<Rightarrow> bytes \<Rightarrow> bytes \<Rightarrow> parser_event list" where
  "emit_call_head i name json = [ToolCallOpen i name, ToolCallArgumentsDelta i json]"

text \<open>The first of the two openers: \<open>True\<close> for the brace.\<close>

definition find_opener :: "bytes \<Rightarrow> (bool \<times> nat) option" where
  "find_opener rest =
     (case (find_sub ''{'' rest, find_sub ''('' rest) of
        (Some b, Some p) \<Rightarrow> if p < b then Some (False, p) else Some (True, b)
      | (Some b, None) \<Rightarrow> Some (True, b)
      | (None, Some p) \<Rightarrow> Some (False, p)
      | (None, None) \<Rightarrow> None)"

text \<open>A close that comes before any opener.\<close>

definition early_close :: "bytes \<Rightarrow> nat option" where
  "early_close rest =
     (case find_sub tool_call_close rest of
        None \<Rightarrow> None
      | Some c \<Rightarrow> (case find_opener rest of None \<Rightarrow> Some c | Some (_, pos) \<Rightarrow> if c < pos then Some c else None))"

definition gemma_step_in_call_header :: "'n gemma_serde \<Rightarrow> gemma \<Rightarrow> gemma step_result" where
  "gemma_step_in_call_header J p =
     (let buf = g_buf p in
      if \<not> prefix call_prefix buf \<and> prefix buf call_prefix then Ok (False, [], p)
      else
        (let after_prefix = (if prefix call_prefix buf then length call_prefix else 0);
             rest = drop after_prefix buf; i = g_next_index p in
         case early_close rest of
           Some c \<Rightarrow>
             Ok (True, emit_call_head i (trim (take c rest)) ''{}'',
                 p\<lparr>g_buf := drop (after_prefix + c) buf, g_state := GAwaitingClose\<rparr>)
         | None \<Rightarrow>
             (case find_opener rest of
                None \<Rightarrow> Ok (False, [], p)
              | Some (brace, opos) \<Rightarrow>
                  (let name = trim (take opos rest) in
                   if brace then
                     Ok (True, [ToolCallOpen i name],
                         p\<lparr>g_buf := drop (after_prefix + opos + 1) buf, g_current_name := name, g_args_body := [],
                           g_args_depth := 1, g_args_in_string := False, g_state := GInArgs\<rparr>)
                   else
                     (let inner_start = after_prefix + opos in
                      case matching_paren (drop inner_start buf) of
                        None \<Rightarrow> Ok (False, [], p)
                      | Some close_rel \<Rightarrow>
                          Ok (True,
                              emit_call_head i name
                                (render_json J (parse_python_args J (slice_of buf (inner_start + 1) (inner_start + close_rel)))),
                              p\<lparr>g_buf := drop (inner_start + close_rel + 1) buf, g_state := GAwaitingClose\<rparr>))))))"

text \<open>
  The scan of the arguments. Where five bytes are left, the source compares the slice of them with the
  string quote and panics when either end is inside of a character. \<open>Ok (k, depth, in_string, closed)\<close>: the
  scan went over \<open>k\<close> bytes, and stopped at the closing brace, at a beginning of a quote or at the end.
\<close>

definition at_quote :: "bytes \<Rightarrow> (unit, bool) outcome" where
  "at_quote s =
     (if length s < length string_quote then Ok False
      else if is_continuation (hd s) \<or> \<not> is_char_boundary s (length string_quote) then Panic
      else Ok (prefix string_quote s))"

definition inc_depth :: "nat \<Rightarrow> nat" where
  "inc_depth d = (d + 1) mod 2 ^ 32"

fun ahead :: "nat \<Rightarrow> (unit, nat \<times> 's) outcome \<Rightarrow> (unit, nat \<times> 's) outcome" where
  "ahead n (Ok (k, st)) = Ok (n + k, st)"
| "ahead n (Err e) = Err e"
| "ahead n Panic = Panic"

text \<open>The depth behind a byte; \<open>None\<close> at the closing brace.\<close>

definition scan_byte :: "nat \<Rightarrow> bool \<Rightarrow> byte \<Rightarrow> nat option" where
  "scan_byte depth in_string c =
     (if in_string then Some depth
      else if c \<in> {CHR ''{'', CHR ''[''} then Some (inc_depth depth)
      else if c = CHR '']'' then Some (depth - 1)
      else if c = CHR ''}'' \<and> depth \<noteq> 0 then (if depth - 1 = 0 then None else Some (depth - 1))
      else Some depth)"

function args_scan :: "nat \<Rightarrow> bool \<Rightarrow> bytes \<Rightarrow> (unit, nat \<times> nat \<times> bool \<times> bool) outcome" where
  "args_scan depth in_string s =
     (if s = [] then Ok (0, depth, in_string, False)
      else case at_quote s of
        Panic \<Rightarrow> Panic
      | Err e \<Rightarrow> Err e
      | Ok quote \<Rightarrow>
          if quote then ahead (length string_quote) (args_scan depth (\<not> in_string) (drop (length string_quote) s))
          else if prefix s string_quote then Ok (0, depth, in_string, False)
          else (case scan_byte depth in_string (hd s) of
              None \<Rightarrow> Ok (0, 0, False, True)
            | Some depth \<Rightarrow> ahead 1 (args_scan depth in_string (tl s))))"
  by auto

termination
  by (relation "measure (\<lambda>(d, q, s). length s)") auto

declare args_scan.simps [simp del]

definition gemma_args_json :: "'n gemma_serde \<Rightarrow> nat \<Rightarrow> bytes \<Rightarrow> (unit, bytes) outcome" where
  "gemma_args_json J d body =
     (case parse_args_body J d body of
        Ok v \<Rightarrow> Ok (render_json J v)
      | Err _ \<Rightarrow> Ok (render_json J (JObject []))
      | Panic \<Rightarrow> Panic)"

definition gemma_step_in_args :: "'n gemma_serde \<Rightarrow> nat \<Rightarrow> gemma \<Rightarrow> gemma step_result" where
  "gemma_step_in_args J d p =
     obind (args_scan (g_args_depth p) (g_args_in_string p) (g_buf p)) (\<lambda>(k, depth, in_string, closed).
       let body = g_args_body p @ take k (g_buf p) in
       if closed then
         obind (gemma_args_json J d body) (\<lambda>json.
           Ok (True, [ToolCallArgumentsDelta (g_next_index p) json],
               p\<lparr>g_buf := drop (k + 1) (g_buf p), g_args_body := [], g_args_depth := 0, g_args_in_string := False,
                 g_state := GAwaitingClose\<rparr>))
       else
         Ok (0 < k, [], p\<lparr>g_buf := drop k (g_buf p), g_args_body := body, g_args_depth := depth,
           g_args_in_string := in_string\<rparr>))"

definition gemma_step_awaiting_close :: "gemma \<Rightarrow> gemma step_result" where
  "gemma_step_awaiting_close p =
     (case earliest_tag [tool_call_close, tool_close, tool_code_close] (g_buf p) of
        Some (pos, marker) \<Rightarrow>
          Ok (True, [ToolCallClose (g_next_index p)],
              p\<lparr>g_buf := drop (pos + length marker) (g_buf p), g_next_index := next_call (g_next_index p),
                g_state := GText\<rparr>)
      | None \<Rightarrow> Ok (False, [], p))"

definition emit_tool_code_block :: "'n gemma_serde \<Rightarrow> nat \<Rightarrow> bytes \<Rightarrow> parser_event list \<times> nat" where
  "emit_tool_code_block J i block =
     (case parse_tool_code_block J block of
        Some (name, args) \<Rightarrow> ([ToolCallOpen i name, ToolCallArgumentsDelta i args, ToolCallClose i], next_call i)
      | None \<Rightarrow> (push_text (tool_code_open @ block), i))"

definition gemma_step_in_tool_code :: "'n gemma_serde \<Rightarrow> gemma \<Rightarrow> bool \<Rightarrow> gemma step_result" where
  "gemma_step_in_tool_code J p is_finish =
     (case earliest_tag [tool_code_close, tool_call_close] (g_buf p) of
        Some (pos, marker) \<Rightarrow>
          (let (es, i) = emit_tool_code_block J (g_next_index p) (take pos (g_buf p)) in
           Ok (True, es, p\<lparr>g_buf := drop (pos + length marker) (g_buf p), g_state := GText, g_next_index := i\<rparr>))
      | None \<Rightarrow>
          if is_finish then
            (let (es, i) = emit_tool_code_block J (g_next_index p) (g_buf p) in
             Ok (True, es, p\<lparr>g_buf := [], g_state := GText, g_next_index := i\<rparr>))
          else Ok (False, [], p))"

definition gemma_step :: "'n gemma_serde \<Rightarrow> nat \<Rightarrow> bool \<Rightarrow> gemma \<Rightarrow> gemma step_result" where
  "gemma_step J d is_finish p =
     (case g_state p of
        GText \<Rightarrow> gemma_step_text p is_finish
      | GInChannel \<Rightarrow> gemma_step_in_channel p is_finish
      | GInCallHeader \<Rightarrow> gemma_step_in_call_header J p
      | GInArgs \<Rightarrow> gemma_step_in_args J d p
      | GAwaitingClose \<Rightarrow> gemma_step_awaiting_close p
      | GInToolCode \<Rightarrow> gemma_step_in_tool_code J p is_finish
      | GInToolResponse \<Rightarrow> gemma_step_in_tool_response p is_finish
      | GInTurnHeader \<Rightarrow> gemma_step_in_turn_header p is_finish)"

subsection \<open>The drain loop\<close>

text \<open>Every step that makes progress shortens the buffer or leaves a header or a block.\<close>

definition gemma_size :: "gemma \<Rightarrow> nat" where
  "gemma_size p = 2 * length (g_buf p) + (if g_state p = GInCallHeader \<or> g_state p = GInToolCode then 1 else 0)"

lemma gemma_tag_lists:
  "tag_list gemma_open_tags" "tag_list [channel_close, think_close]"
  "tag_list [tool_call_close, tool_close, tool_code_close]" "tag_list [tool_code_close, tool_call_close]"
  by (simp_all add: tag_list_def is_tag_def gemma_open_tags_def drop_tokens_def call_prefix_def tool_call_close_def
      channel_close_def tool_code_close_def turn_open_def tool_def_open_def call_open_bare_def tool_call_open_sym_def
      tool_response_open_def tool_response_close_def tool_open_def tool_close_def think_open_def think_close_def
      tool_code_open_def)

lemma ahead_Ok: "ahead n r = Ok (k, st) \<longleftrightarrow> (\<exists>k'. r = Ok (k', st) \<and> k = n + k')"
  by (cases "(n, r)" rule: ahead.cases) auto

text \<open>The scan by the three things it can meet.\<close>

lemma args_scan_cases:
  assumes "s \<noteq> []" and "args_scan d q s \<noteq> Panic"
  obtains "at_quote s = Ok True" "length string_quote \<le> length s"
      "args_scan d q s = ahead (length string_quote) (args_scan d (\<not> q) (drop (length string_quote) s))"
  | "at_quote s = Ok False" "prefix s string_quote" "args_scan d q s = Ok (0, d, q, False)"
  | "at_quote s = Ok False" "\<not> prefix s string_quote" "scan_byte d q (hd s) = None" "args_scan d q s = Ok (0, 0, False, True)"
  | d' where "at_quote s = Ok False" "\<not> prefix s string_quote" "scan_byte d q (hd s) = Some d'"
      "args_scan d q s = ahead 1 (args_scan d' q (tl s))"
proof -
  obtain quote where quote: "at_quote s = Ok quote"
    using assms by (cases "at_quote s") (simp_all add: args_scan.simps at_quote_def split: if_splits)
  then have "quote \<Longrightarrow> length string_quote \<le> length s"
    by (auto simp: at_quote_def split: if_splits dest: prefix_length_le)
  then show ?thesis
    using that quote assms by (cases quote; cases "prefix s string_quote"; cases "scan_byte d q (hd s)")
      (simp_all add: args_scan.simps [of d q s])
qed

lemma args_scan_Nil [simp]: "args_scan d q [] = Ok (0, d, q, False)"
  by (simp add: args_scan.simps)

lemma args_scan_bound: "args_scan d q s = Ok (k, d', q', c) \<Longrightarrow> k \<le> length s \<and> (c \<longrightarrow> k < length s)"
proof (induction "length s" arbitrary: d q s k rule: less_induct)
  case less
  show ?case
  proof (cases "s = []")
    case False
    then have tl: "length (tl s) < length s" by simp
    have "args_scan d q s \<noteq> Panic" using less.prems by simp
    with False show ?thesis
    proof (cases rule: args_scan_cases)
      case 1
      then obtain k' where k': "args_scan d (\<not> q) (drop 5 s) = Ok (k', d', q', c)" "k = 5 + k'"
        using less.prems ahead_Ok [THEN iffD1] by (metis length_string_quote)
      then show ?thesis using less.hyps [OF _ k'(1)] 1(2) False by fastforce
    next
      case (4 e)
      then obtain k' where k': "args_scan e q (tl s) = Ok (k', d', q', c)" "k = 1 + k'"
        using less.prems ahead_Ok [THEN iffD1] by metis
      then show ?thesis using less.hyps [OF tl k'(1)] tl by linarith
    qed (use less.prems False in simp_all)
  qed (use less.prems in simp)
qed

lemma gemma_step_size:
  assumes "gemma_step J d fin p = Ok (True, es, p')"
  shows "gemma_size p' < gemma_size p"
proof (cases "g_state p")
  case GText
  then show ?thesis using assms earliest_tag_bound(2) [OF gemma_tag_lists(1), of "g_buf p"]
    by (auto simp: gemma_step_def gemma_step_text_def gemma_size_def Let_def align_down_shrinks split: option.splits if_splits)
next
  case GInChannel
  then show ?thesis using assms earliest_tag_bound(2) [OF gemma_tag_lists(2), of "g_buf p"]
    by (auto simp: gemma_step_def gemma_step_in_channel_def gemma_size_def Let_def align_down_shrinks split: option.splits if_splits)
next
  case GInCallHeader
  then show ?thesis using assms
    by (auto simp: gemma_step_def gemma_step_in_call_header_def gemma_size_def Let_def split: option.splits if_splits)
next
  case GInArgs
  then show ?thesis using assms args_scan_bound [of "g_args_depth p" "g_args_in_string p" "g_buf p"]
    by (fastforce simp: gemma_step_def gemma_step_in_args_def gemma_size_def Let_def obind_Ok_iff split: if_splits)
next
  case GAwaitingClose
  then show ?thesis using assms earliest_tag_bound(2) [OF gemma_tag_lists(3), of "g_buf p"]
    by (auto simp: gemma_step_def gemma_step_awaiting_close_def gemma_size_def split: option.splits)
next
  case GInToolCode
  then show ?thesis using assms
    by (auto simp: gemma_step_def gemma_step_in_tool_code_def gemma_size_def Let_def split: option.splits if_splits prod.splits)
next
  case GInTurnHeader
  then show ?thesis using assms find_sub_bound [of "[CHR 0x0A]" "g_buf p"]
    by (fastforce simp: gemma_step_def gemma_step_in_turn_header_def drop_through_def gemma_size_def split: option.splits if_splits)
next
  case GInToolResponse
  then show ?thesis using assms find_sub_bound [of tool_response_close "g_buf p"]
    by (fastforce simp: gemma_step_def gemma_step_in_tool_response_def drop_through_def gemma_size_def
        tool_response_close_def split: option.splits if_splits)
qed

function gemma_drain :: "'n gemma_serde \<Rightarrow> nat \<Rightarrow> bool \<Rightarrow> gemma \<Rightarrow> (unit, parser_event list \<times> gemma) outcome" where
  "gemma_drain J d is_finish p =
     obind (gemma_step J d is_finish p) (\<lambda>(progress, es, p').
       if \<not> progress then Ok (es, p')
       else obind (gemma_drain J d is_finish p') (\<lambda>(es', p''). Ok (es @ es', p'')))"
  by pat_completeness auto

termination gemma_drain
  by (relation "measure (\<lambda>(J, d, fin, p). gemma_size p)") (auto dest: gemma_step_size)

declare gemma_drain.simps [simp del]

subsection \<open>The interface\<close>

definition gemma_push :: "'n gemma_serde \<Rightarrow> nat \<Rightarrow> gemma \<Rightarrow> bytes \<Rightarrow> (unit, parser_event list \<times> gemma) outcome" where
  "gemma_push J d p chunk =
     (if chunk = [] then Ok ([], p)
      else
        (let p = try_consume_echo_prefix (p\<lparr>g_buf := g_buf p @ chunk\<rparr>) False in
         if g_pending_thought_echo p then Ok ([], p) else gemma_drain J d False p))"

text \<open>What is left at the end of the turn: a header is text again, a call is closed.\<close>

definition gemma_flush :: "gemma \<Rightarrow> parser_event list \<times> gemma" where
  "gemma_flush q =
     (let i = g_next_index q in
      case g_state q of
        GInCallHeader \<Rightarrow> (push_text (''<|tool_call>'' @ g_buf q), q\<lparr>g_buf := [], g_state := GText\<rparr>)
      | GInArgs \<Rightarrow> ([ToolCallArgumentsDelta i ''{}'', ToolCallClose i],
          q\<lparr>g_next_index := next_call i, g_args_body := [], g_state := GText\<rparr>)
      | GAwaitingClose \<Rightarrow> ([ToolCallClose i], q\<lparr>g_next_index := next_call i, g_state := GText\<rparr>)
      | _ \<Rightarrow> ([], q))"

definition gemma_finish :: "'n gemma_serde \<Rightarrow> nat \<Rightarrow> gemma \<Rightarrow> (unit, parser_event list \<times> gemma) outcome" where
  "gemma_finish J d p =
     obind (gemma_drain J d True (try_consume_echo_prefix p True)) (\<lambda>(out, q).
       let (es, q) = gemma_flush q in Ok (out @ es, q))"

end
