(* ===== verification/Tool_Gemma_Props.thy ===== *)
theory Tool_Gemma_Props
  imports Tool_Gemma
begin

section \<open>The Gemma 4 parser does not depend on the chunking\<close>

text \<open>
  The meaning of a text is what the parser makes of it when the whole of it arrives at once, before the
  end of the turn. A step taken on a part of the text keeps that meaning.
\<close>

definition whole :: "'n gemma_serde \<Rightarrow> nat \<Rightarrow> gemma \<Rightarrow> (unit, parser_event list) outcome" where
  "whole J d p = obind (gemma_drain J d True p) (\<lambda>(es, q). Ok (es @ fst (gemma_flush q)))"

definition feed :: "gemma \<Rightarrow> bytes \<Rightarrow> gemma" where
  "feed p r = p\<lparr>g_buf := g_buf p @ r\<rparr>"

lemma feed_simps [simp]:
  "g_state (feed p r) = g_state p" "g_buf (feed p r) = g_buf p @ r" "g_next_index (feed p r) = g_next_index p"
  "g_args_depth (feed p r) = g_args_depth p" "g_args_in_string (feed p r) = g_args_in_string p"
  "g_args_body (feed p r) = g_args_body p" "g_pending_thought_echo (feed p r) = g_pending_thought_echo p"
  "feed p [] = p"
  by (simp_all add: feed_def)

lemma whole_step:
  assumes "gemma_step J d True p = Ok (b, es, p')"
  shows "whole J d p = (if b then obind (whole J d p') (\<lambda>es'. Ok (es @ es')) else Ok (es @ fst (gemma_flush p')))"
  using assms by (cases "gemma_drain J d True p'")
    (auto simp: whole_def gemma_drain.simps [of J d True p] split: prod.splits)

lemma whole_Panic: "gemma_step J d True p = Panic \<Longrightarrow> whole J d p = Panic"
  by (simp add: whole_def gemma_drain.simps [of J d True p])

text \<open>A step on the part that is also the step on the whole.\<close>

lemma same_step:
  assumes "gemma_step J d False p = Ok (True, es, p')" and "gemma_step J d True (feed p r) = Ok (True, es, feed p' r)"
    and "whole J d (feed p r) = Ok out"
  obtains b es p' out' where "gemma_step J d False p = Ok (b, es, p')" "whole J d (feed p' r) = Ok out'"
    "coalesce (es @ out') = coalesce out"
  using that assms whole_step [OF assms(2)] by (cases "whole J d (feed p' r)") auto

lemma no_step:
  assumes "gemma_step J d False p = Ok (False, [], p)" and "whole J d (feed p r) = Ok out"
  obtains b es p' out' where "gemma_step J d False p = Ok (b, es, p')" "whole J d (feed p' r) = Ok out'"
    "coalesce (es @ out') = coalesce out"
  using that [OF assms] by simp

declare earliest_tag.simps [simp del]

subsection \<open>Free text and reasoning\<close>

definition emit_step ::
    "bytes list \<Rightarrow> (bytes \<Rightarrow> parser_event list) \<Rightarrow> (bytes \<Rightarrow> gemma_state) \<Rightarrow> gemma \<Rightarrow> bool \<Rightarrow> gemma step_result" where
  "emit_step ts emit next p is_finish =
     (case earliest_tag ts (g_buf p) of
        Some (pos, t) \<Rightarrow>
          Ok (True, emit (take pos (g_buf p)), p\<lparr>g_buf := drop (pos + length t) (g_buf p), g_state := next t\<rparr>)
      | None \<Rightarrow>
          (let u = align_down_char_boundary (g_buf p) (if is_finish then length (g_buf p) else ambiguous_tail_start (g_buf p) ts) in
           if 0 < u then Ok (True, emit (take u (g_buf p)), p\<lparr>g_buf := drop u (g_buf p)\<rparr>)
           else Ok (False, [], p)))"

lemma step_text_emit: "gemma_step_text p fin = emit_step gemma_open_tags push_text after_tag p fin"
  unfolding gemma_step_text_def emit_step_def Let_def ..

lemma step_channel_emit: "gemma_step_in_channel p fin = emit_step [channel_close, think_close] push_think (\<lambda>_. GText) p fin"
  unfolding gemma_step_in_channel_def emit_step_def Let_def ..

lemma ambiguous_tail_le: "ambiguous_tail_start s ts \<le> length s"
  by (auto simp: ambiguous_tail_start_def Let_def dest: find_upt_least(1) split: option.split)

lemma ambiguous_tail_boundary: "is_char_boundary s (ambiguous_tail_start s ts)"
  by (auto simp: ambiguous_tail_start_def Let_def is_char_boundary_def dest: find_upt_least(2) split: option.split)

lemma align_down_boundary: "is_char_boundary s n \<Longrightarrow> n \<le> length s \<Longrightarrow> align_down_char_boundary s n = n"
  by (cases n) (simp_all add: align_down_char_boundary_def)

lemma whole_emit:
  assumes step: "\<And>q fin. g_state q = g_state p \<Longrightarrow> gemma_step J d fin q = emit_step ts emit next q fin"
    and quiet: "\<And>q. g_state q = g_state p \<Longrightarrow> fst (gemma_flush q) = []" and emit0: "emit [] = []"
    and none: "earliest_tag ts [] = None"
  shows "whole J d p = (case earliest_tag ts (g_buf p) of
      None \<Rightarrow> Ok (emit (g_buf p))
    | Some (pos, t) \<Rightarrow> obind (whole J d (p\<lparr>g_buf := drop (pos + length t) (g_buf p), g_state := next t\<rparr>))
        (\<lambda>es. Ok (emit (take pos (g_buf p)) @ es)))"
proof (cases "earliest_tag ts (g_buf p)")
  case (Some pt)
  then obtain pos t where pt: "earliest_tag ts (g_buf p) = Some (pos, t)" by (cases pt) simp
  have "gemma_step J d True p = Ok (True, emit (take pos (g_buf p)), p\<lparr>g_buf := drop (pos + length t) (g_buf p), g_state := next t\<rparr>)"
    using step pt by (simp add: emit_step_def)
  from whole_step [OF this] show ?thesis using pt by simp
next
  case None
  have empty: "whole J d q = Ok []" if "g_state q = g_state p" "g_buf q = []" for q
  proof -
    have "gemma_step J d True q = Ok (False, [], q)"
      using that step none by (simp add: emit_step_def align_down_all)
    from whole_step [OF this] show ?thesis using quiet that by simp
  qed
  show ?thesis
  proof (cases "g_buf p = []")
    case True
    then show ?thesis using empty [of p] emit0 none by simp
  next
    case False
    then have "gemma_step J d True p = Ok (True, emit (g_buf p), p\<lparr>g_buf := []\<rparr>)"
      using step None by (simp add: emit_step_def align_down_all)
    from whole_step [OF this] show ?thesis using None empty [of "p\<lparr>g_buf := []\<rparr>"] by simp
  qed
qed

lemma emit_step_keeps:
  assumes ts: "tag_list ts" and emit: "\<And>a b. coalesce (emit a @ emit b) = coalesce (emit (a @ b))" and emit0: "emit [] = []"
    and step: "\<And>q fin. g_state q = g_state p \<Longrightarrow> gemma_step J d fin q = emit_step ts emit next q fin"
    and quiet: "\<And>q. g_state q = g_state p \<Longrightarrow> fst (gemma_flush q) = []" and none: "earliest_tag ts [] = None"
    and out: "whole J d (feed p r) = Ok out"
  obtains b es p' out' where "gemma_step J d False p = Ok (b, es, p')" "whole J d (feed p' r) = Ok out'"
    "coalesce (es @ out') = coalesce out"
proof (cases "earliest_tag ts (g_buf p)")
  case (Some pt)
  then obtain pos t where pt: "earliest_tag ts (g_buf p) = Some (pos, t)" by (cases pt) simp
  note bound = earliest_tag_bound(1) [OF ts pt] and later = earliest_append [OF ts pt, of r]
  show ?thesis
    by (rule same_step [OF _ _ out])
      (use that step pt later bound in \<open>auto simp: emit_step_def feed_def\<close>)
next
  case None
  let ?s = "g_buf p" and ?w = "g_buf p @ r" and ?k = "ambiguous_tail_start (g_buf p) ts"
  have k: "?k \<le> length ?s" by (rule ambiguous_tail_le)
  have run: "gemma_step J d False p = (if 0 < ?k then Ok (True, emit (take ?k ?s), p\<lparr>g_buf := drop ?k ?s\<rparr>) else Ok (False, [], p))"
    using step None align_down_boundary [OF ambiguous_tail_boundary k] by (simp add: emit_step_def Let_def)
  show ?thesis
  proof (cases "?k = 0")
    case True
    then show ?thesis using that [of False "[]" p out] run out by simp
  next
    case False
    let ?p = "p\<lparr>g_buf := drop ?k ?s\<rparr>"
    have safe: "no_tag_before ts ?w ?k" by (rule ambiguous_tail_safe [OF ts None])
    have w': "g_buf (feed ?p r) = drop ?k ?w" using k by simp
    have W: "whole J d (feed p r) = (case earliest_tag ts ?w of
        None \<Rightarrow> Ok (emit ?w)
      | Some (pos, t) \<Rightarrow> obind (whole J d (p\<lparr>g_buf := drop (pos + length t) ?w, g_state := next t\<rparr>)) (\<lambda>es. Ok (emit (take pos ?w) @ es)))"
      using whole_emit [of "feed p r" J d ts emit "next"] step quiet emit0 none by (simp add: feed_def split: option.split)
    have W': "whole J d (feed ?p r) = (case map_option (\<lambda>(pos, t). (pos - ?k, t)) (earliest_tag ts ?w) of
        None \<Rightarrow> Ok (emit (drop ?k ?w))
      | Some (pos, t) \<Rightarrow> obind (whole J d (p\<lparr>g_buf := drop (pos + length t) (drop ?k ?w), g_state := next t\<rparr>))
          (\<lambda>es. Ok (emit (take pos (drop ?k ?w)) @ es)))"
      using whole_emit [of "feed ?p r" J d ts emit "next"] step quiet emit0 none earliest_drop [OF ts safe]
      unfolding w' by (simp add: feed_def split: option.split)
    have split: "take ?k ?s = take ?k ?w" using k by simp
    obtain out' where "whole J d (feed ?p r) = Ok out'" "coalesce (emit (take ?k ?s) @ out') = coalesce out"
    proof (cases "earliest_tag ts ?w")
      case None
      then show ?thesis using that W W' out emit [of "take ?k ?w" "drop ?k ?w"]
        unfolding split append_take_drop_id by simp
    next
      case (Some pt)
      then obtain pos t where pt: "earliest_tag ts ?w = Some (pos, t)" by (cases pt) simp
      have le: "?k \<le> pos" by (rule earliest_drop_ge [OF ts safe pt])
      then have same: "drop (pos - ?k + length t) (drop ?k ?w) = drop (pos + length t) ?w"
        and cut: "take ?k ?w @ take (pos - ?k) (drop ?k ?w) = take pos ?w"
        by (simp_all only: drop_drop take_add [symmetric] le_add_diff_inverse) (simp add: add.commute)
      obtain es where es: "whole J d (p\<lparr>g_buf := drop (pos + length t) ?w, g_state := next t\<rparr>) = Ok es" "out = emit (take pos ?w) @ es"
        using out W pt by (auto simp: obind_Ok_iff)
      have "whole J d (feed ?p r) = Ok (emit (take (pos - ?k) (drop ?k ?w)) @ es)"
        using W' pt es(1) same by simp
      moreover have "coalesce (emit (take ?k ?w) @ emit (take (pos - ?k) (drop ?k ?w)) @ es) = coalesce out"
        using coalesce_left [OF emit [of "take ?k ?w" "take (pos - ?k) (drop ?k ?w)"], of es] unfolding cut es(2) by simp
      ultimately show ?thesis using that unfolding split by blast
    qed
    then show ?thesis using that run False by simp
  qed
qed

subsection \<open>Calls\<close>

lemma find_opener_append: "find_opener s = Some x \<Longrightarrow> find_opener (s @ r) = Some x"
proof -
  assume x: "find_opener s = Some x"
  have beyond: "p < q" if "find_sub [c] s = Some p" "find_sub [e] s = None" "find_sub [e] (s @ r) = Some q" for c e p q
  proof -
    have "p < length s" using find_sub_bound [OF that(1)] by simp
    moreover have "length s \<le> q"
    proof (rule ccontr)
      assume "\<not> length s \<le> q"
      then have "prefix [e] (drop q s)" "q \<le> length s" using that(3) prefix_drop_append [of q "[e]" s r]
        by (simp_all add: find_sub_Some)
      then show False using that(2) unfolding find_sub_None by blast
    qed
    ultimately show ?thesis by simp
  qed
  have same: "find_sub [c] (s @ r) = Some p" if "find_sub [c] s = Some p" for c p using find_sub_append that .
  show ?thesis
  proof (cases "find_sub ''{'' s")
    case None
    then obtain p where p: "find_sub ''('' s = Some p" "x = (False, p)"
      using x by (auto simp: find_opener_def split: option.splits)
    then show ?thesis using same [OF p(1)] beyond [OF p(1) None]
      by (cases "find_sub ''{'' (s @ r)") (auto simp: find_opener_def)
  next
    case b: (Some q)
    show ?thesis
    proof (cases "find_sub ''('' s")
      case None
      then have "x = (True, q)" using x b by (simp add: find_opener_def)
      then show ?thesis using same [OF b] beyond [OF b None]
        by (cases "find_sub ''('' (s @ r)") (auto simp: find_opener_def dest: less_asym)
    next
      case (Some p)
      then show ?thesis using x b same [OF b] same [OF Some] by (simp add: find_opener_def)
    qed
  qed
qed

lemma find_opener_late:
  assumes "find_opener s = None" and "find_opener (s @ r) = Some (b, q)"
  shows "length s \<le> q"
proof (rule ccontr)
  assume q: "\<not> length s \<le> q"
  have "find_sub [c] (s @ r) \<noteq> Some q" if "find_sub [c] s = None" for c
    using that q prefix_drop_append [of q "[c]" s r] by (fastforce simp: find_sub_None find_sub_Some)
  then show False using assms by (auto simp: find_opener_def split: option.splits if_splits)
qed

text \<open>The position of an opener holds a byte that no closing marker has.\<close>

lemma find_opener_at:
  assumes "find_opener s = Some (b, q)"
  shows "q < length s" and "s ! q \<notin> set tool_call_close"
proof -
  have at: "q < length s \<and> s ! q = c" if "find_sub [c] s = Some q" for c
  proof -
    have "q + 1 \<le> length s" using find_sub_bound [OF that] by simp
    then have "q < length s" by simp
    moreover have "prefix [c] (drop q s)" using that by (simp add: find_sub_Some)
    then have "drop q s ! 0 = c" by (auto simp: prefix_def)
    ultimately show ?thesis by simp
  qed
  have "find_sub ''{'' s = Some q \<or> find_sub ''('' s = Some q"
    using assms by (auto simp: find_opener_def split: option.splits if_splits)
  then show "q < length s" "s ! q \<notin> set tool_call_close"
    using at [of "CHR ''{''"] at [of "CHR ''(''"] by (auto simp: tool_call_close_def)
qed

lemma early_close_append:
  assumes opener: "find_opener s = Some x"
  shows "early_close (s @ r) = early_close s"
proof -
  obtain b q where x: "x = (b, q)" by fastforce
  have o: "find_opener (s @ r) = Some (b, q)" using find_opener_append assms x by blast
  show ?thesis
  proof (cases "find_sub tool_call_close s")
    case (Some c)
    then show ?thesis using find_sub_append [OF Some, of r] o opener x by (simp add: early_close_def)
  next
    case None
    have "\<not> c < q" if c: "find_sub tool_call_close (s @ r) = Some c" for c
    proof
      assume "c < q"
      have q: "q < length s" "s ! q \<notin> set tool_call_close" using find_opener_at opener x by blast+
      have occ: "prefix tool_call_close (drop c (s @ r))" using c by (simp add: find_sub_Some)
      have "\<not> c + length tool_call_close \<le> length s"
        using None occ prefix_drop_append [of c tool_call_close s r] \<open>c < q\<close> q(1) by (auto simp: find_sub_None)
      then have "q - c < length tool_call_close" using q(1) \<open>c < q\<close> by linarith
      moreover obtain zs where "drop c (s @ r) = tool_call_close @ zs" using occ by (auto simp: prefix_def simp del: drop_append)
      ultimately have "drop c (s @ r) ! (q - c) = tool_call_close ! (q - c)" by (simp add: nth_append del: drop_append)
      moreover have "drop c (s @ r) ! (q - c) = s ! q" using q(1) \<open>c < q\<close> by (simp add: nth_append diff_less_mono)
      ultimately show False using q(2) \<open>q - c < length tool_call_close\<close> by (metis nth_mem)
    qed
    then show ?thesis using None o opener x by (auto simp: early_close_def split: option.split)
  qed
qed

lemma early_close_late:
  assumes "early_close s = Some c"
  shows "early_close (s @ r) = Some c"
proof (cases "find_opener s")
  case (Some x)
  then show ?thesis using early_close_append [OF Some] assms by simp
next
  case None
  have c: "find_sub tool_call_close s = Some c" using assms None by (auto simp: early_close_def split: option.splits)
  then have "c < length s" using find_sub_bound [OF c] by (simp add: tool_call_close_def)
  then show ?thesis using find_sub_append [OF c, of r] find_opener_late [OF None, of r]
    by (fastforce simp: early_close_def split: option.splits)
qed

lemma paren_scan_append: "paren_scan i depth q s = Some k \<Longrightarrow> paren_scan i depth q (s @ r) = Some k"
proof (induction i depth q s rule: paren_scan.induct)
  case (2 i depth q c s)
  then show ?case by (cases s) (auto split: if_splits)
qed (auto split: if_splits)

lemma matching_paren_append: "matching_paren s = Some k \<Longrightarrow> matching_paren (s @ r) = Some k"
  using paren_scan_append by (auto simp: matching_paren_def split: if_splits)

lemma paren_scan_bound: "paren_scan i depth q s = Some k \<Longrightarrow> i \<le> k \<and> k < i + length s"
proof (induction i depth q s rule: paren_scan.induct)
  case (2 i depth q c s)
  then show ?case by (cases s) (auto split: if_splits)
qed (force split: if_splits)+

lemma matching_paren_bound: "matching_paren s = Some k \<Longrightarrow> k < length s"
  using paren_scan_bound by (force simp: matching_paren_def split: if_splits)

lemma header_same:
  assumes "gemma_step_in_call_header J p = Ok (True, es, p')"
  shows "gemma_step_in_call_header J (feed p r) = Ok (True, es, feed p' r)"
proof -
  let ?b = "g_buf p"
  define n where "n = (if prefix call_prefix ?b then length call_prefix else 0)"
  have wait: "\<not> (\<not> prefix call_prefix ?b \<and> prefix ?b call_prefix)"
    using assms by (auto simp: gemma_step_in_call_header_def)
  have "prefix call_prefix (?b @ r) \<Longrightarrow> prefix call_prefix ?b"
    using wait prefix_same_cases [of call_prefix "?b @ r" ?b] by auto
  then have n: "n \<le> length ?b" "prefix call_prefix (?b @ r) \<longleftrightarrow> prefix call_prefix ?b"
    "\<not> (\<not> prefix call_prefix (?b @ r) \<and> prefix (?b @ r) call_prefix)"
    using wait by (auto simp: n_def dest: prefix_length_le append_prefixD)
  have n': "n = (if prefix call_prefix (?b @ r) then length call_prefix else 0)" using n(2) by (simp add: n_def)
  let ?rest = "drop n ?b"
  have d: "drop n (?b @ r) = ?rest @ r" using n(1) by simp
  show ?thesis
  proof (cases "early_close ?rest")
    case (Some c)
    have c: "c \<le> length ?rest"
      using Some find_sub_bound [of tool_call_close ?rest] by (fastforce simp: early_close_def split: option.splits if_splits)
    then have "take c (?rest @ r) = take c ?rest" "drop (n + c) (?b @ r) = drop (n + c) ?b @ r" using n(1) by simp_all
    then show ?thesis
      using assms wait n Some early_close_late [OF Some, of r] unfolding gemma_step_in_call_header_def Let_def
      by (auto simp: n_def [symmetric] n' [symmetric] d feed_def simp del: take_append drop_append)
  next
    case None
    then obtain b q where o: "find_opener ?rest = Some (b, q)"
      using assms wait by (auto simp: gemma_step_in_call_header_def Let_def n_def [symmetric] split: option.splits)
    note o' = find_opener_append [OF o, of r] and late = early_close_append [OF o, of r, unfolded None]
    have q: "q < length ?rest" using find_opener_at [OF o] by simp
    then have cut: "take q (?rest @ r) = take q ?rest" "drop (n + q + 1) (?b @ r) = drop (n + q + 1) ?b @ r"
      "drop (n + q) (?b @ r) = drop (n + q) ?b @ r" using n(1) by simp_all
    show ?thesis
    proof (cases b)
      case True
      then show ?thesis using assms wait n None o o' late cut unfolding gemma_step_in_call_header_def Let_def
        by (auto simp: n_def [symmetric] n' [symmetric] d feed_def simp del: take_append drop_append)
    next
      case False
      then obtain k where k: "matching_paren (drop (n + q) ?b) = Some k"
        using assms wait None o by (auto simp: gemma_step_in_call_header_def Let_def n_def [symmetric] split: option.splits)
      have "k < length (drop (n + q) ?b)" by (rule matching_paren_bound [OF k])
      then have "slice_of (?b @ r) (n + q + 1) (n + q + k) = slice_of ?b (n + q + 1) (n + q + k)"
        "drop (n + q + k + 1) (?b @ r) = drop (n + q + k + 1) ?b @ r" by (simp_all add: slice_of_def)
      then show ?thesis
        using False assms wait n None o o' late cut k matching_paren_append [OF k, of r]
        unfolding gemma_step_in_call_header_def Let_def
        by (auto simp: n_def [symmetric] n' [symmetric] d feed_def simp del: take_append drop_append)
    qed
  qed
qed

lemma header_idle:
  obtains "gemma_step_in_call_header J p = Ok (False, [], p)"
  | es p' where "gemma_step_in_call_header J p = Ok (True, es, p')"
proof -
  let ?n = "if prefix call_prefix (g_buf p) then length call_prefix else 0"
  let ?o = "find_opener (drop ?n (g_buf p))"
  have "\<exists>b es p'. gemma_step_in_call_header J p = Ok (b, es, p') \<and> (b \<or> es = [] \<and> p' = p)"
  proof (cases "early_close (drop ?n (g_buf p))")
    case (Some c)
    then show ?thesis by (auto simp: gemma_step_in_call_header_def Let_def)
  next
    case none: None
    show ?thesis
    proof (cases ?o)
      case None
      then show ?thesis using none by (auto simp: gemma_step_in_call_header_def Let_def)
    next
      case (Some bq)
      then obtain b q where bq: "?o = Some (b, q)" by (cases bq) simp
      then show ?thesis using none by (cases b; cases "matching_paren (drop (?n + q) (g_buf p))")
        (auto simp: gemma_step_in_call_header_def Let_def)
    qed
  qed
  then show ?thesis using that by (metis (full_types))
qed

subsection \<open>The scan of the arguments\<close>

lemma at_quote_part:
  assumes "b \<noteq> []" and "at_quote (b @ r) = Ok x"
  shows "at_quote b = Ok (x \<and> length string_quote \<le> length b)"
proof (cases "length b < length string_quote")
  case False
  then have "\<not> length (b @ r) < length string_quote" by simp
  then have ok: "\<not> is_continuation (hd b)" "is_char_boundary (b @ r) (length string_quote)" "x \<longleftrightarrow> prefix string_quote (b @ r)"
    using assms by (auto simp: at_quote_def split: if_splits)
  have "prefix string_quote (b @ r) \<longleftrightarrow> prefix string_quote b" using False prefix_drop_append [of 0 string_quote b r] by simp
  moreover have "is_char_boundary b (length string_quote)"
    using ok(2) False by (auto simp: is_char_boundary_def nth_append split: if_splits)
  ultimately show ?thesis using False ok by (auto simp: at_quote_def)
qed (simp add: at_quote_def)

lemma ahead_0 [simp]: "ahead 0 x = x"
  by (cases "(0::nat, x)" rule: ahead.cases) auto

lemma ahead_ahead: "ahead m (ahead n x) = ahead (m + n) x"
  by (cases "(n, x)" rule: ahead.cases) auto

lemma ahead_Panic [simp]: "ahead n x = Panic \<longleftrightarrow> x = Panic"
  by (cases "(n, x)" rule: ahead.cases) auto

lemma args_scan_split:
  "args_scan d q (b @ r) \<noteq> Panic \<Longrightarrow> \<exists>k d' q' c. args_scan d q b = Ok (k, d', q', c) \<and>
     args_scan d q (b @ r) = (if c then Ok (k, d', q', c) else ahead k (args_scan d' q' (drop k b @ r)))"
proof (induction "length b" arbitrary: d q b rule: less_induct)
  case less
  show ?case
  proof (cases "b = []")
    case True
    then show ?thesis by auto
  next
    case False
    have onward: ?thesis
      if b: "args_scan d q b = ahead n (args_scan e q' (drop n b))" and w: "args_scan d q (b @ r) = ahead n (args_scan e q' (drop n b @ r))"
        and n: "0 < n" for n e q'
    proof -
      have "args_scan e q' (drop n b @ r) \<noteq> Panic" using less.prems w by simp
      with less.hyps [of "drop n b" e q'] n False obtain k d' q'' c where
        "args_scan e q' (drop n b) = Ok (k, d', q'', c)"
        "args_scan e q' (drop n b @ r) = (if c then Ok (k, d', q'', c) else ahead k (args_scan d' q'' (drop k (drop n b) @ r)))"
        by auto
      then show ?thesis using b w by (auto simp: ahead_ahead add.commute)
    qed
    have stop: ?thesis if "at_quote b = Ok False" "prefix b string_quote"
      using that False by (auto simp: args_scan.simps [of d q b])
    have "b @ r \<noteq> []" using False by simp
    then show ?thesis using less.prems
    proof (cases rule: args_scan_cases)
      case 1
      show ?thesis
      proof (cases "length string_quote \<le> length b")
        case True
        then have "at_quote b = Ok True" using at_quote_part [OF False 1(1)] by simp
        then have "args_scan d q b = ahead (length string_quote) (args_scan d (\<not> q) (drop (length string_quote) b))"
          using False by (simp add: args_scan.simps [of d q b])
        then show ?thesis using onward [of "length string_quote" d "\<not> q"] 1(3) True by simp
      next
        case short: False
        have "prefix string_quote (b @ r)" using 1(1) by (auto simp: at_quote_def split: if_splits)
        then have "prefix b string_quote" using short prefix_same_cases [of b "b @ r" string_quote] by (auto dest: prefix_length_le)
        then show ?thesis using stop at_quote_part [OF False 1(1)] short by simp
      qed
    next
      case 2
      then have "prefix b string_quote" by (auto dest: append_prefixD)
      then show ?thesis using stop at_quote_part [OF False 2(1)] by simp
    next
      case 3
      then show ?thesis using stop at_quote_part [OF False 3(1)] False
        by (cases "prefix b string_quote") (auto simp: args_scan.simps [of d q b])
    next
      case (4 e)
      show ?thesis
      proof (cases "prefix b string_quote")
        case True
        then show ?thesis using stop at_quote_part [OF False 4(1)] by simp
      next
        case no: False
        have "args_scan d q b = ahead 1 (args_scan e q (tl b))"
          using no 4(3) at_quote_part [OF False 4(1)] False by (simp add: args_scan.simps [of d q b])
        then show ?thesis using onward [of 1 e q] 4(4) False by (simp add: drop_Suc)
      qed
    qed
  qed
qed

lemma args_scan_rest:
  "args_scan d q s = Ok (k, d', q', False) \<Longrightarrow> args_scan d' q' (drop k s) = Ok (0, d', q', False)"
proof (induction "length s" arbitrary: d q s k rule: less_induct)
  case less
  show ?case
  proof (cases "s = []")
    case False
    have "args_scan d q s \<noteq> Panic" using less.prems by simp
    with False show ?thesis
    proof (cases rule: args_scan_cases)
      case 1
      then obtain k' where k': "args_scan d (\<not> q) (drop 5 s) = Ok (k', d', q', False)" "k = 5 + k'"
        using less.prems ahead_Ok [THEN iffD1] by (metis length_string_quote)
      then show ?thesis using less.hyps [OF _ k'(1)] False by (simp add: add.commute)
    next
      case (4 e)
      then obtain k' where k': "args_scan e q (tl s) = Ok (k', d', q', False)" "k = 1 + k'"
        using less.prems ahead_Ok [THEN iffD1] by metis
      then show ?thesis using less.hyps [OF _ k'(1)] False by (simp add: drop_Suc)
    qed (use less.prems in auto)
  qed (use less.prems in simp)
qed

lemma whole_args:
  assumes st: "g_state p = GInArgs" and scan: "args_scan (g_args_depth p) (g_args_in_string p) (g_buf p) = Ok (k, d', q', c)"
  shows "whole J d p =
    (if c then obind (gemma_args_json J d (g_args_body p @ take k (g_buf p))) (\<lambda>json.
       obind (whole J d (p\<lparr>g_buf := drop (k + 1) (g_buf p), g_args_body := [], g_args_depth := 0,
         g_args_in_string := False, g_state := GAwaitingClose\<rparr>)) (\<lambda>es. Ok (ToolCallArgumentsDelta (g_next_index p) json # es)))
     else Ok [ToolCallArgumentsDelta (g_next_index p) ''{}'', ToolCallClose (g_next_index p)])"
proof (cases c)
  case True
  show ?thesis
  proof (cases "gemma_args_json J d (g_args_body p @ take k (g_buf p))")
    case (Ok json)
    then have "gemma_step J d True p = Ok (True, [ToolCallArgumentsDelta (g_next_index p) json],
        p\<lparr>g_buf := drop (k + 1) (g_buf p), g_args_body := [], g_args_depth := 0, g_args_in_string := False, g_state := GAwaitingClose\<rparr>)"
      using True st scan by (simp add: gemma_step_def gemma_step_in_args_def Let_def)
    from whole_step [OF this] show ?thesis using True Ok by simp
  next
    case Panic
    then have "gemma_step J d True p = Panic"
      using True st scan by (simp add: gemma_step_def gemma_step_in_args_def Let_def)
    from whole_Panic [OF this] show ?thesis using True Panic by simp
  qed (auto simp: gemma_args_json_def split: outcome.splits)
next
  case False
  let ?p = "\<lambda>k. p\<lparr>g_buf := drop k (g_buf p), g_args_body := g_args_body p @ take k (g_buf p), g_args_depth := d',
    g_args_in_string := q'\<rparr>"
  have idle: "whole J d q = Ok [ToolCallArgumentsDelta (g_next_index q) ''{}'', ToolCallClose (g_next_index q)]"
    if a: "g_state q = GInArgs" "args_scan (g_args_depth q) (g_args_in_string q) (g_buf q) = Ok (0, e, x, False)" for q e x
  proof -
    obtain q' where "gemma_step J d True q = Ok (False, [], q')" "g_state q' = GInArgs" "g_next_index q' = g_next_index q"
      using a by (simp add: gemma_step_def gemma_step_in_args_def Let_def)
    from whole_step [OF this(1)] this(2,3) show ?thesis by (simp add: gemma_flush_def Let_def)
  qed
  show ?thesis
  proof (cases "k = 0")
    case True
    then show ?thesis using idle [OF st] scan False by simp
  next
    case pos: False
    then have "gemma_step J d True p = Ok (True, [], ?p k)"
      using False st scan by (simp add: gemma_step_def gemma_step_in_args_def Let_def)
    from whole_step [OF this] show ?thesis
      using idle [of "?p k"] args_scan_rest [of "g_args_depth p" "g_args_in_string p" "g_buf p" k d' q'] scan st False by simp
  qed
qed

lemma args_keeps:
  assumes st: "g_state p = GInArgs" and out: "whole J d (feed p r) = Ok out"
  obtains b es p' out' where "gemma_step J d False p = Ok (b, es, p')" "whole J d (feed p' r) = Ok out'"
    "coalesce (es @ out') = coalesce out"
proof -
  let ?scan = "args_scan (g_args_depth p) (g_args_in_string p)"
  have "?scan (g_buf p @ r) \<noteq> Panic"
  proof
    assume "?scan (g_buf p @ r) = Panic"
    then have "gemma_step J d True (feed p r) = Panic" using st by (simp add: gemma_step_def gemma_step_in_args_def)
    then show False using whole_Panic out by fastforce
  qed
  from args_scan_split [OF this] obtain k d' q' c where scan: "?scan (g_buf p) = Ok (k, d', q', c)"
    "?scan (g_buf p @ r) = (if c then Ok (k, d', q', c) else ahead k (args_scan d' q' (drop k (g_buf p) @ r)))" by blast
  note bound = args_scan_bound [OF scan(1)]
  show ?thesis
  proof (cases c)
    case True
    have e: "feed p r\<lparr>g_buf := x, g_args_body := [], g_args_depth := 0, g_args_in_string := False, g_state := GAwaitingClose\<rparr> =
        p\<lparr>g_buf := x, g_args_body := [], g_args_depth := 0, g_args_in_string := False, g_state := GAwaitingClose\<rparr>"
      "feed (p\<lparr>g_buf := x, g_args_body := [], g_args_depth := 0, g_args_in_string := False, g_state := GAwaitingClose\<rparr>) r =
        p\<lparr>g_buf := x @ r, g_args_body := [], g_args_depth := 0, g_args_in_string := False, g_state := GAwaitingClose\<rparr>" for x
      by (simp_all add: feed_def)
    have W: "whole J d (feed p r) = obind (gemma_args_json J d (g_args_body p @ take k (g_buf p))) (\<lambda>json.
       obind (whole J d (feed (p\<lparr>g_buf := drop (k + 1) (g_buf p), g_args_body := [], g_args_depth := 0,
         g_args_in_string := False, g_state := GAwaitingClose\<rparr>) r)) (\<lambda>es. Ok (ToolCallArgumentsDelta (g_next_index p) json # es)))"
      using whole_args [of "feed p r" k d' q' c J d] st scan True bound unfolding e by simp
    from out [unfolded W] obtain json es where j: "gemma_args_json J d (g_args_body p @ take k (g_buf p)) = Ok json"
      "whole J d (feed (p\<lparr>g_buf := drop (k + 1) (g_buf p), g_args_body := [], g_args_depth := 0,
         g_args_in_string := False, g_state := GAwaitingClose\<rparr>) r) = Ok es" "out = ToolCallArgumentsDelta (g_next_index p) json # es"
      using out by (auto simp: obind_Ok_iff)
    show ?thesis
      by (rule that [of True "[ToolCallArgumentsDelta (g_next_index p) json]", OF _ j(2)])
        (use st scan(1) True j in \<open>simp_all add: gemma_step_def gemma_step_in_args_def Let_def\<close>)
  next
    case False
    let ?p = "p\<lparr>g_buf := drop k (g_buf p), g_args_body := g_args_body p @ take k (g_buf p), g_args_depth := d',
      g_args_in_string := q'\<rparr>"
    obtain k2 d2 q2 c2 where s2: "args_scan d' q' (drop k (g_buf p) @ r) = Ok (k2, d2, q2, c2)"
      using args_scan_split [of d' q' "drop k (g_buf p) @ r" "[]"] scan(2) False \<open>?scan (g_buf p @ r) \<noteq> Panic\<close> by auto
    have "take k (g_buf p @ r) = take k (g_buf p)" "drop k (g_buf p @ r) = drop k (g_buf p) @ r" using bound by simp_all
    then have cut: "take (k + k2) (g_buf p @ r) = take k (g_buf p) @ take k2 (drop k (g_buf p) @ r)"
      "drop (k + k2 + 1) (g_buf p @ r) = drop (k2 + 1) (drop k (g_buf p) @ r)"
      by (metis take_add, metis drop_drop add.commute add.assoc)
    have "whole J d (feed ?p r) = whole J d (feed p r)"
      using whole_args [of "feed p r" "k + k2" d2 q2 c2 J d] whole_args [of "feed ?p r" k2 d2 q2 c2 J d] st scan s2 False cut
      by (simp add: feed_def del: take_append drop_append)
    then show ?thesis
      by (intro that [of "0 < k" "[]" ?p out]) (use st scan(1) False out in \<open>simp_all add: gemma_step_def gemma_step_in_args_def Let_def\<close>)
  qed
qed

subsection \<open>Every step\<close>

lemma header_keeps:
  assumes st: "g_state p = GInCallHeader" and out: "whole J d (feed p r) = Ok out"
  obtains b es p' out' where "gemma_step J d False p = Ok (b, es, p')" "whole J d (feed p' r) = Ok out'"
    "coalesce (es @ out') = coalesce out"
proof (rule header_idle [of J p])
  assume "gemma_step_in_call_header J p = Ok (False, [], p)"
  then show ?thesis using that [of False "[]" p out] out st by (simp add: gemma_step_def)
next
  fix es p' assume h: "gemma_step_in_call_header J p = Ok (True, es, p')"
  show ?thesis
    by (rule same_step [OF _ _ out, of es p']) (use that st h header_same [OF h] in \<open>auto simp: gemma_step_def\<close>)
qed

lemma tagged_keeps:
  assumes ts: "tag_list ts" and found: "\<And>pos t q fin. g_state q = g_state p \<Longrightarrow> earliest_tag ts (g_buf q) = Some (pos, t) \<Longrightarrow>
      act fin q = Ok (True, emit q (take pos (g_buf q)), upd q (take pos (g_buf q)) (drop (pos + length t) (g_buf q)))"
    and emit: "\<And>s. emit (feed p r) s = emit p s" and upd: "\<And>s t. upd (feed p r) s (t @ r) = feed (upd p s t) r"
    and waiting: "earliest_tag ts (g_buf p) = None \<Longrightarrow> act False p = Ok (False, [], p)"
    and step: "\<And>q fin. g_state q = g_state p \<Longrightarrow> gemma_step J d fin q = act fin q"
    and out: "whole J d (feed p r) = Ok out"
  obtains b es p' out' where "gemma_step J d False p = Ok (b, es, p')" "whole J d (feed p' r) = Ok out'"
    "coalesce (es @ out') = coalesce out"
proof (cases "earliest_tag ts (g_buf p)")
  case None
  then show ?thesis using that [of False "[]" p out] out waiting step by simp
next
  case (Some pt)
  then obtain pos t where pt: "earliest_tag ts (g_buf p) = Some (pos, t)" by (cases pt) simp
  have le: "pos + length t \<le> length (g_buf p)" by (rule earliest_tag_bound(1) [OF ts pt])
  then have cut: "take pos (g_buf p @ r) = take pos (g_buf p)"
    "drop (pos + length t) (g_buf p @ r) = drop (pos + length t) (g_buf p) @ r" by simp_all
  have "gemma_step J d False p = Ok (True, emit p (take pos (g_buf p)), upd p (take pos (g_buf p)) (drop (pos + length t) (g_buf p)))"
    using found [of p pos t False] pt step by simp
  moreover have "gemma_step J d True (feed p r) =
      Ok (True, emit p (take pos (g_buf p)), feed (upd p (take pos (g_buf p)) (drop (pos + length t) (g_buf p))) r)"
    using found [of "feed p r" pos t True] earliest_append [OF ts pt, of r] step emit upd cut
    by (simp del: take_append drop_append)
  ultimately show ?thesis using same_step [OF _ _ out] that by blast
qed

lemma close_keeps:
  assumes st: "g_state p = GAwaitingClose" and out: "whole J d (feed p r) = Ok out"
  obtains b es p' out' where "gemma_step J d False p = Ok (b, es, p')" "whole J d (feed p' r) = Ok out'"
    "coalesce (es @ out') = coalesce out"
  by (rule tagged_keeps [OF gemma_tag_lists(3), of p "\<lambda>_. gemma_step_awaiting_close" "\<lambda>q _. [ToolCallClose (g_next_index q)]"
        "\<lambda>q _ t. q\<lparr>g_buf := t, g_next_index := next_call (g_next_index q), g_state := GText\<rparr>" r J d out])
    (use that st out in \<open>auto simp: gemma_step_def gemma_step_awaiting_close_def feed_def\<close>)

lemma earliest_newline: "earliest_tag [t] s = Some (pos, u) \<longleftrightarrow> find_sub t s = Some pos \<and> u = t"
  by (auto simp: earliest_single)

lemma drop_keeps:
  assumes st: "\<And>q fin. g_state q = g_state p \<Longrightarrow> gemma_step J d fin q = drop_through marker q fin"
    and out: "whole J d (feed p r) = Ok out"
  obtains b es p' out' where "gemma_step J d False p = Ok (b, es, p')" "whole J d (feed p' r) = Ok out'"
    "coalesce (es @ out') = coalesce out"
proof (cases "find_sub marker (g_buf p)")
  case None
  then show ?thesis using that [of False "[]" p out] out st by (simp add: drop_through_def)
next
  case (Some pos)
  have "pos + length marker \<le> length (g_buf p)" by (rule find_sub_bound [OF Some])
  then have "gemma_step J d True (feed p r) =
      Ok (True, [], feed (p\<lparr>g_buf := drop (pos + length marker) (g_buf p), g_state := GText\<rparr>) r)"
    using st find_sub_append [OF Some, of r] by (simp add: drop_through_def feed_def)
  moreover have "gemma_step J d False p = Ok (True, [], p\<lparr>g_buf := drop (pos + length marker) (g_buf p), g_state := GText\<rparr>)"
    using st Some by (simp add: drop_through_def)
  ultimately show ?thesis using same_step [OF _ _ out] that by blast
qed

lemma tool_code_keeps:
  assumes st: "g_state p = GInToolCode" and out: "whole J d (feed p r) = Ok out"
  obtains b es p' out' where "gemma_step J d False p = Ok (b, es, p')" "whole J d (feed p' r) = Ok out'"
    "coalesce (es @ out') = coalesce out"
  by (rule tagged_keeps [OF gemma_tag_lists(4), of p "\<lambda>fin q. gemma_step_in_tool_code J q fin"
        "\<lambda>q s. fst (emit_tool_code_block J (g_next_index q) s)"
        "\<lambda>q s t. q\<lparr>g_buf := t, g_state := GText, g_next_index := snd (emit_tool_code_block J (g_next_index q) s)\<rparr>" r J d out])
    (use that st out in \<open>auto simp: gemma_step_def gemma_step_in_tool_code_def feed_def split_def Let_def\<close>)

lemma earliest_empty: "tag_list ts \<Longrightarrow> earliest_tag ts [] = None"
  using tagsD(2) by (fastforce simp: earliest_None)

lemma push_Nil [simp]: "push_text [] = []" "push_think [] = []"
  by (simp_all add: push_text_def push_think_def)

lemma step_keeps:
  assumes out: "whole J d (feed p r) = Ok out"
  obtains b es p' out' where "gemma_step J d False p = Ok (b, es, p')" "whole J d (feed p' r) = Ok out'"
    "coalesce (es @ out') = coalesce out"
proof (cases "g_state p")
  case GText
  show ?thesis
    by (rule emit_step_keeps [OF gemma_tag_lists(1) push_text_append _ _ _ earliest_empty [OF gemma_tag_lists(1)] out, of after_tag])
      (use that GText in \<open>auto simp: gemma_step_def step_text_emit gemma_flush_def Let_def\<close>)
next
  case GInChannel
  show ?thesis
    by (rule emit_step_keeps [OF gemma_tag_lists(2) push_think_append _ _ _ earliest_empty [OF gemma_tag_lists(2)] out, of "\<lambda>_. GText"])
      (use that GInChannel in \<open>auto simp: gemma_step_def step_channel_emit gemma_flush_def Let_def\<close>)
next
  case GInCallHeader
  then show ?thesis using header_keeps out that by blast
next
  case GInArgs
  then show ?thesis using args_keeps out that by blast
next
  case GAwaitingClose
  then show ?thesis using close_keeps out that by blast
next
  case GInToolCode
  then show ?thesis using tool_code_keeps out that by blast
next
  case GInTurnHeader
  then show ?thesis using drop_keeps [OF _ out, of "[CHR 0x0A]"] that
    by (simp add: gemma_step_def gemma_step_in_turn_header_def) blast
next
  case GInToolResponse
  then show ?thesis using drop_keeps [OF _ out, of tool_response_close] that
    by (simp add: gemma_step_def gemma_step_in_tool_response_def) blast
qed

subsection \<open>The drain loop\<close>

lemma step_pending:
  assumes "gemma_step J d fin p = Ok (b, es, p')"
  shows "g_pending_thought_echo p' = g_pending_thought_echo p"
proof (cases "g_state p")
  case GInCallHeader
  then show ?thesis using assms
    by (auto simp: gemma_step_def gemma_step_in_call_header_def Let_def split: if_splits option.splits)
next
  case GInArgs
  then show ?thesis using assms by (auto simp: gemma_step_def gemma_step_in_args_def Let_def obind_Ok_iff split: if_splits)
next
  case GInToolCode
  then show ?thesis using assms
    by (auto simp: gemma_step_def gemma_step_in_tool_code_def Let_def split: if_splits option.splits prod.splits)
qed (use assms in \<open>auto simp: gemma_step_def gemma_step_text_def gemma_step_in_channel_def gemma_step_awaiting_close_def
    gemma_step_in_turn_header_def gemma_step_in_tool_response_def drop_through_def Let_def split: if_splits option.splits\<close>)

lemma drain_keeps:
  "whole J d (feed p r) = Ok out \<Longrightarrow> \<exists>es q out'. gemma_drain J d False p = Ok (es, q) \<and>
     g_pending_thought_echo q = g_pending_thought_echo p \<and> whole J d (feed q r) = Ok out' \<and> coalesce (es @ out') = coalesce out"
proof (induction "gemma_size p" arbitrary: p out rule: less_induct)
  case less
  from step_keeps [OF less.prems] obtain b es p' out' where
    step: "gemma_step J d False p = Ok (b, es, p')" "whole J d (feed p' r) = Ok out'" "coalesce (es @ out') = coalesce out"
    by blast
  note pending = step_pending [OF step(1)]
  show ?case
  proof (cases b)
    case False
    then have "gemma_drain J d False p = Ok (es, p')" using step(1) by (subst gemma_drain.simps) simp
    then show ?thesis using step(2,3) pending by blast
  next
    case True
    from less.hyps [OF gemma_step_size [OF step(1) [unfolded eqTrueI [OF True]]] step(2)] obtain es' q out'' where
      rest: "gemma_drain J d False p' = Ok (es', q)" "g_pending_thought_echo q = g_pending_thought_echo p'"
      "whole J d (feed q r) = Ok out''" "coalesce (es' @ out'') = coalesce out'" by blast
    have "gemma_drain J d False p = Ok (es @ es', q)" using step(1) True rest(1) by (subst gemma_drain.simps) simp
    moreover have "coalesce ((es @ es') @ out'') = coalesce out"
      using coalesce_right [OF rest(4), of es] step(3) by simp
    ultimately show ?thesis using rest(2,3) pending by auto
  qed
qed

subsection \<open>The echo guard lets answers through\<close>

text \<open>A reply whose first line has an ASCII character that no echo has, such as a capital or a digit.\<close>

definition answer_start :: "bytes \<Rightarrow> bool" where
  "answer_start s \<longleftrightarrow>
     list_ex (\<lambda>c. is_ascii c \<and> \<not> scaffold_byte c \<and> \<not> ws1 c) (takeWhile (\<lambda>b. b \<noteq> CHR 0x0A) s)"

lemma ws_taken: "c \<in> set (take (ws_len s) s) \<Longrightarrow> is_ascii c \<Longrightarrow> ws1 c"
  by (cases s rule: ws_len.cases) (auto simp: ws2_def ws3_def is_ascii_def split: if_splits)

lemma all_chars_ascii: "all_chars P s \<Longrightarrow> c \<in> set s \<Longrightarrow> is_ascii c \<Longrightarrow> P c \<or> ws1 c"
proof (induction P s rule: all_chars.induct)
  case (1 P s)
  then have s: "s \<noteq> []" by auto
  show ?case
  proof (cases "ws_len s = 0")
    case True
    then have "P (hd s) \<and> all_chars P (tl s)" using 1(3) s by (simp add: all_chars.simps [of P s])
    moreover have "c = hd s \<or> c \<in> set (tl s)" using 1(4) s by (cases s) auto
    ultimately show ?thesis using 1(2) s True 1(5) by blast
  next
    case False
    then have "all_chars P (drop (ws_len s) s)" using 1(3) s by (simp add: all_chars.simps [of P s])
    moreover have "c \<in> set (take (ws_len s) s) \<or> c \<in> set (drop (ws_len s) s)"
      using 1(4) by (metis Un_iff append_take_drop_id set_append)
    ultimately show ?thesis using 1(1) s False 1(5) ws_taken by blast
  qed
qed

lemma in_trim_start: "c \<in> set s \<Longrightarrow> is_ascii c \<Longrightarrow> \<not> ws1 c \<Longrightarrow> c \<in> set (trim_start s)"
proof (induction s rule: trim_start.induct)
  case (1 s)
  have "c \<in> set (take (ws_len s) s) \<or> c \<in> set (drop (ws_len s) s)"
    using 1(2) by (metis Un_iff append_take_drop_id set_append)
  then show ?case using 1 ws_taken by (subst trim_start.simps) auto
qed

lemma in_trim_end_len: "c \<in> set (take n s) \<Longrightarrow> is_ascii c \<Longrightarrow> \<not> ws1 c \<Longrightarrow> c \<in> set (take (trim_end_len s n) s)"
proof (induction s n rule: trim_end_len.induct)
  case (2 s n)
  have cut: "c \<in> set (take m s)" if "m \<le> n" "ws_len (drop m (take (Suc n) s)) = Suc n - m" for m
  proof -
    have "c \<in> set (take m (take (Suc n) s)) \<or> c \<in> set (drop m (take (Suc n) s))"
      using 2(4) by (metis Un_iff append_take_drop_id set_append)
    moreover have "drop m (take (Suc n) s) = take (ws_len (drop m (take (Suc n) s))) (drop m (take (Suc n) s))"
      using that by simp
    ultimately show ?thesis using ws_taken [of c "drop m (take (Suc n) s)"] 2(5,6) that(1) by auto
  qed
  show ?case using 2 cut [of n] cut [of "n - 1"] cut [of "n - 2"] by auto
qed simp

lemma answer_not_scaffolding:
  assumes "list_ex (\<lambda>c. is_ascii c \<and> \<not> scaffold_byte c \<and> \<not> ws1 c) s"
  shows "\<not> is_scaffolding_line s"
proof -
  obtain c where c: "c \<in> set s" "is_ascii c" "\<not> scaffold_byte c" "\<not> ws1 c" using assms by (auto simp: list_ex_iff)
  then have "c \<in> set (trim s)"
    using in_trim_end_len [of c "length (trim_start s)" "trim_start s"] in_trim_start [of c s] by (simp add: trim_def trim_end_def)
  then have "\<not> all_chars scaffold_byte (trim s)" using all_chars_ascii c by blast
  then show ?thesis by (simp add: is_scaffolding_line_def Let_def)
qed

lemma first_line: "find_sub [CHR 0x0A] s = Some n \<Longrightarrow> takeWhile (\<lambda>b. b \<noteq> CHR 0x0A) (s @ r) = take n s"
proof (induction s arbitrary: n)
  case (Cons x s)
  then show ?case by (cases "x = CHR 0x0A") auto
qed simp

lemma no_line_end: "find_sub [c] s = None \<Longrightarrow> c \<notin> set s"
  by (induction s) (auto split: if_splits)

lemma echo_passes:
  assumes "answer_start (s @ r)" and "fin \<longrightarrow> r = []"
  shows "\<exists>armed. consume_echo fin s = (armed, s) \<and> (fin \<longrightarrow> \<not> armed)"
proof (cases "find_sub [CHR 0x0A] s")
  case (Some n)
  have "\<not> is_scaffolding_line (take n s)"
    by (rule answer_not_scaffolding) (use assms(1) first_line [OF Some, of r] in \<open>simp add: answer_start_def\<close>)
  then show ?thesis using Some by (auto simp: consume_echo.simps [of fin s])
next
  case None
  then have line: "takeWhile (\<lambda>b. b \<noteq> CHR 0x0A) s = s" using no_line_end by (auto intro: takeWhile_eq_all_conv [THEN iffD2])
  have "fin \<Longrightarrow> \<not> is_scaffolding_line s" using assms answer_not_scaffolding [of s] by (simp add: answer_start_def line del: takeWhile_eq_all_conv)
  then show ?thesis using None by (auto simp: consume_echo.simps [of fin s])
qed

subsection \<open>The contract\<close>

definition unguarded :: "gemma \<Rightarrow> gemma" where
  "unguarded p = p\<lparr>g_pending_thought_echo := False\<rparr>"

definition gemma_meaning :: "'n gemma_serde \<Rightarrow> nat \<Rightarrow> gemma \<Rightarrow> bytes \<Rightarrow> parser_event list" where
  "gemma_meaning J d p r = (case whole J d (feed (unguarded p) r) of Ok es \<Rightarrow> es | _ \<Rightarrow> [])"

definition gemma_clean :: "'n gemma_serde \<Rightarrow> nat \<Rightarrow> gemma \<Rightarrow> bytes \<Rightarrow> bool" where
  "gemma_clean J d p r \<longleftrightarrow> (\<exists>es. whole J d (feed (unguarded p) r) = Ok es) \<and>
     (g_pending_thought_echo p \<longrightarrow> answer_start (g_buf p @ r))"

lemma unguarded_idem: "\<not> g_pending_thought_echo p \<Longrightarrow> unguarded p = p"
  by (simp add: unguarded_def)

lemma echo_calm:
  assumes "gemma_clean J d p r" and "fin \<longrightarrow> r = []"
  shows "unguarded (try_consume_echo_prefix p fin) = unguarded p" and "g_buf (try_consume_echo_prefix p fin) = g_buf p"
    and "fin \<Longrightarrow> \<not> g_pending_thought_echo (try_consume_echo_prefix p fin)"
    and "g_pending_thought_echo (try_consume_echo_prefix p fin) \<Longrightarrow> g_pending_thought_echo p"
  using assms echo_passes [of "g_buf p" r fin]
  by (cases "g_pending_thought_echo p"; auto simp: try_consume_echo_prefix_def unguarded_def gemma_clean_def)+

lemma gemma_push_meaning:
  assumes clean: "gemma_clean J d p (c @ rest)"
  shows "\<exists>es p'. gemma_push J d p c = Ok (es, p') \<and> gemma_clean J d p' rest \<and>
    coalesce (es @ gemma_meaning J d p' rest) = coalesce (gemma_meaning J d p (c @ rest))"
proof (cases "c = []")
  case True
  then show ?thesis using clean by (simp add: gemma_push_def)
next
  case False
  let ?p = "p\<lparr>g_buf := g_buf p @ c\<rparr>"
  have same: "feed (unguarded ?p) rest = feed (unguarded p) (c @ rest)" by (simp add: feed_def unguarded_def)
  then have clean': "gemma_clean J d ?p rest" using clean by (simp add: gemma_clean_def)
  note e = echo_calm [OF clean', of False]
  let ?q = "try_consume_echo_prefix ?p False"
  have q: "feed (unguarded ?q) rest = feed (unguarded p) (c @ rest)" using e(1) same by simp
  show ?thesis
  proof (cases "g_pending_thought_echo ?q")
    case True
    have "gemma_clean J d ?q rest" using clean' e q same by (simp add: gemma_clean_def)
    then show ?thesis using True False q by (simp add: gemma_push_def Let_def gemma_meaning_def)
  next
    case off: False
    obtain out where out: "whole J d (feed ?q rest) = Ok out" "gemma_meaning J d p (c @ rest) = out"
      using clean q unguarded_idem [OF off] by (auto simp: gemma_clean_def gemma_meaning_def)
    from drain_keeps [OF out(1)] obtain es q' out' where
      d: "gemma_drain J d False ?q = Ok (es, q')" "\<not> g_pending_thought_echo q'" "whole J d (feed q' rest) = Ok out'"
        "coalesce (es @ out') = coalesce out" using off by auto
    then show ?thesis
      using False off out(2) unguarded_idem [OF d(2)] by (simp add: gemma_push_def Let_def gemma_clean_def gemma_meaning_def)
  qed
qed

lemma gemma_finish_meaning:
  assumes "gemma_clean J d p []"
  shows "\<exists>es p'. gemma_finish J d p = Ok (es, p') \<and> coalesce es = coalesce (gemma_meaning J d p [])"
proof -
  note e = echo_calm [OF assms, of True]
  have "try_consume_echo_prefix p True = unguarded p" using e(1,3) unguarded_idem by metis
  moreover obtain es where "whole J d (unguarded p) = Ok es" using assms by (auto simp: gemma_clean_def)
  ultimately show ?thesis
    by (cases "gemma_drain J d True (unguarded p)") (auto simp: gemma_finish_def gemma_meaning_def whole_def Let_def split: prod.splits)
qed

interpretation gemma: tool_call_parser "gemma_push J d" "gemma_finish J d" "gemma_meaning J d" "gemma_clean J d" for J d
  by unfold_locales (rule gemma_push_meaning gemma_finish_meaning, assumption)+

lemma gemma_reads:
  assumes "answer_start reply" and "whole J d (feed (unguarded with_pending_channel_close) reply) = Ok es" and "concat cs = reply"
  shows "\<exists>es'. run_parser (gemma_push J d) (gemma_finish J d) with_pending_channel_close cs = Ok es' \<and>
    coalesce es' = coalesce es \<and> split_events es' = split_events es"
proof -
  let ?p = with_pending_channel_close
  have "gemma_clean J d ?p reply" "gemma_meaning J d ?p reply = es"
    using assms(1,2) by (simp_all add: gemma_clean_def gemma_meaning_def with_pending_channel_close_def with_thought_echo_guard_def)
  then show ?thesis using gemma.run_meaning [of J d ?p cs] assms(3) split_events_cong by blast
qed

end
