(* ===== verification/Tool_Gemma_Values.thy ===== *)
theory Tool_Gemma_Values
  imports Tool_Gemma_Props
begin

section \<open>What the Gemma 4 template writes is what the argument parser reads\<close>

text \<open>
  The native argument format as a grammar: strings between quote markers, integers, booleans, null,
  arrays and objects, nested to a depth. The parser inverts it, and the scan for the closing brace
  passes over it.
\<close>

definition show_int :: "int \<Rightarrow> bytes" where
  "show_int i = (if i < 0 then CHR ''-'' # show_dec (nat (- i)) else show_dec (nat i))"

definition key_ok :: "bytes \<Rightarrow> bool" where
  "key_ok k \<longleftrightarrow> k \<noteq> [] \<and> list_all ident_char k"

inductive native :: "'n gemma_serde \<Rightarrow> nat \<Rightarrow> 'n jvalue \<Rightarrow> bytes \<Rightarrow> bool"
  and native_elements :: "'n gemma_serde \<Rightarrow> nat \<Rightarrow> 'n jvalue list \<Rightarrow> bytes \<Rightarrow> bool"
  and native_members :: "'n gemma_serde \<Rightarrow> nat \<Rightarrow> (bytes \<times> 'n jvalue) list \<Rightarrow> bytes \<Rightarrow> bool"
  for J where
  native_string: "ascii_text s \<Longrightarrow> find_sub string_quote s = None \<Longrightarrow> native J d (JString s) (string_quote @ s @ string_quote)"
| native_int: "- (2 ^ 63) \<le> i \<Longrightarrow> i < 2 ^ 63 \<Longrightarrow> native J d (JNumber (gs_of_int J i)) (show_int i)"
| native_true: "native J d (JBool True) ''true''"
| native_false: "native J d (JBool False) ''false''"
| native_null: "native J d JNull ''null''"
| native_array0: "native J (Suc d) (JArray []) ''[]''"
| native_array: "native_elements J d vs t \<Longrightarrow> native J (Suc d) (JArray vs) (CHR ''['' # t @ '']'')"
| native_object0: "native J (Suc d) (JObject []) ''{}''"
| native_object: "native_members J d ms t \<Longrightarrow> distinct (map fst ms) \<Longrightarrow> native J (Suc d) (JObject ms) (CHR ''{'' # t @ ''}'')"
| native_one: "native J d v t \<Longrightarrow> native_elements J d [v] t"
| native_more: "native J d v t \<Longrightarrow> native_elements J d vs ts \<Longrightarrow> native_elements J d (v # vs) (t @ CHR '','' # ts)"
| native_last: "key_ok k \<Longrightarrow> native J d v t \<Longrightarrow> native_members J d [(k, v)] (k @ CHR '':'' # t)"
| native_next: "key_ok k \<Longrightarrow> native J d v t \<Longrightarrow> native_members J d ms ts \<Longrightarrow>
    native_members J d ((k, v) # ms) (k @ CHR '':'' # t @ CHR '','' # ts)"

subsection \<open>Bytes that need no care\<close>

definition plain_byte :: "byte \<Rightarrow> bool" where
  "plain_byte c \<longleftrightarrow> is_ascii c \<and> \<not> ws1 c \<and> c \<notin> set '',:{}[]<''"

lemma ident_plain: "ident_char c \<Longrightarrow> plain_byte c"
  by (auto simp: ident_char_def plain_byte_def is_digit_def is_ascii_def ws1_def)

lemma digit_plain: "is_digit c \<Longrightarrow> plain_byte c"
  by (auto simp: plain_byte_def is_digit_def is_ascii_def ws1_def)

lemma plain_not_ws: "plain_byte c \<Longrightarrow> \<not> is_ascii_whitespace c"
  by (auto simp: plain_byte_def is_ascii_whitespace_def ws1_def)

lemma ws_run_visible: "s = [] \<or> \<not> is_ascii_whitespace (hd s) \<Longrightarrow> ws_run s = 0"
  by (cases s) (simp_all add: ws_run_def)

lemma ws_len_visible: "is_ascii c \<Longrightarrow> \<not> ws1 c \<Longrightarrow> ws_len (c # s) = 0"
  by (cases "c # s" rule: ws_len.cases) (auto dest: ws_not_ascii)

lemma ws_len_last:
  assumes "is_ascii c" and "\<not> ws1 c" and "length s = n" and "0 < n"
  shows "ws_len (s @ [c]) \<noteq> Suc n"
  using assms by (cases "s @ [c]" rule: ws_len.cases)
    (auto simp: ws2_def ws3_def is_ascii_def append_eq_Cons_conv split: if_splits)

lemma trim_end_visible:
  assumes "is_ascii c" and "\<not> ws1 c"
  shows "trim_end (s @ [c]) = s @ [c]"
proof -
  let ?s = "s @ [c]"
  have d: "drop m (take (Suc (length s)) ?s) = drop m s @ [c]" if "m \<le> length s" for m using that by simp
  have "trim_end_len ?s (Suc (length s)) = Suc (length s)"
    using d [of "length s"] d [of "length s - 1"] d [of "length s - 2"] ws_len_visible [OF assms, of "[]"]
      ws_len_last [OF assms, of "drop (length s - 1) s" 1] ws_len_last [OF assms, of "drop (length s - 2) s" 2]
    by auto
  then show ?thesis by (simp add: trim_end_def)
qed

lemma trim_plain:
  assumes "list_all plain_byte s"
  shows "trim s = s"
proof (cases s)
  case (Cons c u)
  then have "is_ascii c" "\<not> ws1 c" using assms by (simp_all add: plain_byte_def)
  then have "trim_start s = s" using ws_len_visible Cons by (simp add: trim_start_visible)
  moreover obtain v e where "s = v @ [e]" using Cons by (metis list.distinct(1) rev_exhaust)
  moreover have "is_ascii e" "\<not> ws1 e" using assms calculation(2) by (simp_all add: plain_byte_def)
  ultimately show ?thesis using trim_end_visible by (simp add: trim_def)
qed (simp add: trim_def trim_end_def)

subsection \<open>Integers\<close>

lemma show_dec_digits: "list_all is_digit (show_dec n) \<and> show_dec n \<noteq> []"
proof (induction n rule: show_dec.induct)
  case (1 n)
  have "is_digit (char_of (48 + k))" if "k < 10" for k :: nat
    using that by (simp add: is_digit_def)
  then show ?case using 1 by (subst show_dec.simps) (simp add: show_dec.simps [of n])
qed

lemma digits_value_show: "digits_value (show_dec n) = n"
proof (induction n rule: show_dec.induct)
  case (1 n)
  show ?case
  proof (cases "n < 10")
    case True
    then show ?thesis by (simp add: show_dec.simps [of n] digits_value_def)
  next
    case False
    then have "digits_value (show_dec n) = 10 * digits_value (show_dec (n div 10)) + n mod 10"
      by (simp add: show_dec.simps [of n] digits_value_def)
    then show ?thesis using 1 False by simp
  qed
qed

lemma hd_digit: "is_digit c \<Longrightarrow> c \<noteq> CHR ''-'' \<and> c \<noteq> CHR ''+'' \<and> c \<noteq> CHR ''t'' \<and> c \<noteq> CHR ''f'' \<and> c \<noteq> CHR ''n''"
  by (auto simp: is_digit_def)

lemma parse_show_int: "- (2 ^ 63) \<le> i \<Longrightarrow> i < 2 ^ 63 \<Longrightarrow> parse_i64 (show_int i) = Some i"
proof -
  assume r: "- (2 ^ 63) \<le> i" "i < 2 ^ 63"
  show ?thesis
  proof (cases "i < 0")
    case True
    then show ?thesis using r show_dec_digits [of "nat (- i)"] by (simp add: parse_i64_def show_int_def Let_def digits_value_show)
  next
    case False
    have "show_dec (nat i) \<noteq> []" "is_digit (hd (show_dec (nat i)))"
      using show_dec_digits [of "nat i"] by (cases "show_dec (nat i)"; simp)+
    then show ?thesis using False r show_dec_digits [of "nat i"] hd_digit [of "hd (show_dec (nat i))"]
      by (simp add: parse_i64_def show_int_def Let_def digits_value_show)
  qed
qed

lemma show_int_plain: "list_all plain_byte (show_int i) \<and> show_int i \<noteq> [] \<and> hd (show_int i) \<notin> set ''tfn''"
proof -
  have d: "list_all plain_byte (show_dec n)" "show_dec n \<noteq> []" "hd (show_dec n) \<notin> set ''tfn''" for n
    using show_dec_digits [of n] digit_plain hd_digit by (auto simp: list_all_iff)
  have "plain_byte (CHR ''-'')" by (simp add: plain_byte_def is_ascii_def ws1_def)
  then show ?thesis using d by (simp add: show_int_def)
qed

subsection \<open>The parser inverts the format\<close>

definition delimited :: "bytes \<Rightarrow> bool" where
  "delimited r \<longleftrightarrow> r = [] \<or> hd r \<in> set '',}]''"

lemma delimitedI [simp]: "delimited (CHR '','' # r)" "delimited (CHR ''}'' # r)" "delimited (CHR '']'' # r)" "delimited []"
  by (simp_all add: delimited_def)

text \<open>A written value starts visibly, and not as an end.\<close>

lemma native_start:
  "native J d v t \<Longrightarrow> t \<noteq> [] \<and> \<not> is_ascii_whitespace (hd t) \<and> hd t \<noteq> CHR '']''"
  "native_elements J d vs t \<Longrightarrow> t \<noteq> [] \<and> \<not> is_ascii_whitespace (hd t) \<and> hd t \<noteq> CHR '']''"
  "native_members J d ms t \<Longrightarrow> t \<noteq> [] \<and> \<not> is_ascii_whitespace (hd t) \<and> hd t \<noteq> CHR ''}''"
proof (induction rule: native_native_elements_native_members.inducts)
  case (native_int i d)
  then show ?case using show_int_plain [of i] plain_not_ws
    by (cases "show_int i") (auto simp: plain_byte_def)
next
  case (native_last k d v t)
  then show ?case using ident_plain plain_not_ws by (cases k) (auto simp: key_ok_def plain_byte_def)
next
  case (native_next k d v t ms ts)
  then show ?case using ident_plain plain_not_ws by (cases k) (auto simp: key_ok_def plain_byte_def)
qed (auto simp: string_quote_def is_ascii_whitespace_def)

lemma bare_reads:
  assumes "list_all plain_byte t" and "t \<noteq> []" and "delimited r"
  shows "parse_value J d (t @ r) = Ok (bare_value J t, length t)"
proof -
  have c: "plain_byte (hd t)" using assms(1,2) by (cases t) auto
  have w: "ws_run (t @ r) = 0" using plain_not_ws [OF c] assms(2) by (intro ws_run_visible) simp
  have "takeWhile (\<lambda>b. b \<notin> {CHR '','', CHR ''}'', CHR '']''}) (t @ r) = t"
  proof -
    have "\<And>b. b \<in> set t \<Longrightarrow> b \<notin> {CHR '','', CHR ''}'', CHR '']''}" using assms(1) by (auto simp: list_all_iff plain_byte_def)
    then show ?thesis using assms(3) by (cases r) (simp_all add: delimited_def takeWhile_append2)
  qed
  moreover have "\<not> prefix string_quote (t @ r)" "hd t \<noteq> CHR ''{''" "hd t \<noteq> CHR ''[''"
    using c assms(2) by (cases t; auto simp: string_quote_def plain_byte_def)+
  ultimately show ?thesis using w assms(2) trim_plain [OF assms(1)]
    by (simp add: parse_value.simps [of J d "t @ r"] Let_def del: takeWhile_append)
qed

lemma bare_int: "- (2 ^ 63) \<le> i \<Longrightarrow> i < 2 ^ 63 \<Longrightarrow> bare_value J (show_int i) = JNumber (gs_of_int J i)"
  using parse_show_int [of i] show_int_plain [of i] by (auto simp: bare_value_def)

lemma quote_is_tag: "is_tag string_quote"
  by (simp add: is_tag_def string_quote_def)

lemma find_colon: "key_ok k \<Longrightarrow> find_sub '':'' (k @ CHR '':'' # r) = Some (length k)"
  using ident_plain [of "CHR '':''"] by (intro find_char_plain) (auto simp: key_ok_def list_all_iff plain_byte_def)

lemma key_plain: "key_ok k \<Longrightarrow> trim k = k" "key_ok k \<Longrightarrow> ws_run (k @ r) = 0" "key_ok k \<Longrightarrow> k \<noteq> []"
  "key_ok k \<Longrightarrow> hd (k @ r) \<noteq> CHR ''}''"
proof -
  assume k: "key_ok k"
  then have p: "list_all plain_byte k" using ident_plain by (auto simp: key_ok_def list_all_iff)
  then show "trim k = k" by (rule trim_plain)
  show "k \<noteq> []" using k by (simp add: key_ok_def)
  then have "plain_byte (hd k)" using p by (cases k) auto
  then show "ws_run (k @ r) = 0" "hd (k @ r) \<noteq> CHR ''}''"
    using \<open>k \<noteq> []\<close> plain_not_ws by (auto intro: ws_run_visible simp: plain_byte_def)
qed

lemma native_reads:
  "native J d v t \<Longrightarrow> delimited r \<Longrightarrow> parse_value J d (t @ r) = Ok (v, length t)"
  "native_elements J d vs t \<Longrightarrow> parse_elements J d arr (t @ CHR '']'' # r) = Ok (arr @ vs, length t)"
  "native_members J d ms t \<Longrightarrow> delimited r \<Longrightarrow> \<not> prefix '','' r \<Longrightarrow> distinct (map fst (obj @ ms)) \<Longrightarrow>
     parse_object_body J d obj (t @ r) = Ok (JObject (obj @ ms), length t)"
proof (induction arbitrary: r and arr r and obj r rule: native_native_elements_native_members.inducts)
  case (native_string s d)
  have "find_sub string_quote (s @ string_quote @ r) = Some (length s)"
    by (rule find_sub_plain [OF quote_is_tag native_string(2)])
  moreover have "ws_run (string_quote @ s @ string_quote @ r) = 0"
    by (rule ws_run_visible) (simp add: string_quote_def is_ascii_whitespace_def)
  ultimately show ?case by (simp add: parse_value.simps [of J d] Let_def slice_of_def)
next
  case (native_int i d)
  then show ?case using bare_reads [of "show_int i" r J d] show_int_plain [of i] bare_int [of i J] by simp
next
  case (native_true d)
  then show ?case using bare_reads [of "''true''" r J d] by (simp add: bare_value_def plain_byte_def is_ascii_def ws1_def)
next
  case (native_false d)
  then show ?case using bare_reads [of "''false''" r J d] by (simp add: bare_value_def plain_byte_def is_ascii_def ws1_def)
next
  case (native_null d)
  then show ?case using bare_reads [of "''null''" r J d] by (simp add: bare_value_def plain_byte_def is_ascii_def ws1_def)
next
  case (native_array0 d)
  have "ws_run (CHR ''['' # CHR '']'' # r) = 0" "ws_run (CHR '']'' # r) = 0" by (simp_all add: ws_run_def is_ascii_whitespace_def)
  then show ?case by (simp add: parse_value.simps [of J "Suc d"] parse_elements.simps [of J d] string_quote_def)
next
  case (native_array d vs t)
  have "ws_run (CHR ''['' # t @ CHR '']'' # r) = 0" by (simp add: ws_run_def is_ascii_whitespace_def)
  then show ?case using native_array.IH(2) [of "[]" r] by (simp add: parse_value.simps [of J "Suc d"] string_quote_def Let_def)
next
  case (native_object0 d)
  have "ws_run (CHR ''{'' # CHR ''}'' # r) = 0" "ws_run (CHR ''}'' # r) = 0" by (simp_all add: ws_run_def is_ascii_whitespace_def)
  then show ?case by (simp add: parse_value.simps [of J "Suc d"] parse_object_body.simps [of J d] string_quote_def)
next
  case (native_object d ms t)
  have "ws_run (CHR ''{'' # t @ CHR ''}'' # r) = 0" by (simp add: ws_run_def is_ascii_whitespace_def)
  then show ?case using native_object.IH(2) [of "CHR ''}'' # r" "[]"] native_object.hyps
    by (simp add: parse_value.simps [of J "Suc d"] string_quote_def Let_def)
next
  case (native_one d v t)
  have s: "t \<noteq> []" "ws_run (t @ CHR '']'' # r) = 0" "hd t \<noteq> CHR '']''"
    using native_start(1) [OF native_one.IH(1)] by (auto intro: ws_run_visible)
  have "ws_run (CHR '']'' # r) = 0" by (simp add: ws_run_def is_ascii_whitespace_def)
  then show ?case using s native_one.IH(2) [of "CHR '']'' # r"] by (simp add: parse_elements.simps [of J d arr] Let_def)
next
  case (native_more d v t vs ts)
  let ?s = "t @ CHR '','' # ts @ CHR '']'' # r"
  have s: "t \<noteq> []" "ws_run ?s = 0" "hd t \<noteq> CHR '']''"
    using native_start(1) [OF native_more.IH(1)] by (auto intro: ws_run_visible)
  have "ws_run (CHR '','' # ts @ CHR '']'' # r) = 0" by (simp add: ws_run_def is_ascii_whitespace_def)
  then show ?case using s native_more.IH(2) [of "CHR '','' # ts @ CHR '']'' # r"] native_more.IH(4) [of "arr @ [v]" r]
    by (simp add: parse_elements.simps [of J d arr ?s] Let_def)
next
  case (native_last k d v t)
  have t: "ws_run (t @ r) = 0" using native_start(1) [OF native_last.IH(1)] by (auto intro: ws_run_visible)
  have r: "ws_run r = 0" using native_last.prems(1) by (intro ws_run_visible) (auto simp: delimited_def is_ascii_whitespace_def)
  have "AList.update k v obj = obj @ [(k, v)]" using native_last.prems(3) by (intro update_fresh) auto
  then show ?case
    using t r key_plain [OF native_last.hyps] find_colon [OF native_last.hyps, of "t @ r"] native_last.IH(2) [of r] native_last.prems
    by (simp add: parse_object_body.simps [of J d obj] Let_def)
next
  case (native_next k d v t ms ts)
  let ?r = "CHR '','' # ts @ r"
  have t: "ws_run (t @ ?r) = 0" using native_start(1) [OF native_next.IH(1)] by (auto intro: ws_run_visible)
  have r: "ws_run ?r = 0" by (simp add: ws_run_def is_ascii_whitespace_def)
  have "AList.update k v obj = obj @ [(k, v)]" using native_next.prems(3) by (intro update_fresh) auto
  then show ?case
    using t r key_plain [OF native_next.hyps] find_colon [OF native_next.hyps, of "t @ ?r"]
      native_next.IH(2) [of ?r] native_next.IH(4) [of r "obj @ [(k, v)]"] native_next.prems
    by (simp add: parse_object_body.simps [of J d obj] Let_def)
qed

end
