(* ===== verification/Tool_Gemma_Calls.thy ===== *)
theory Tool_Gemma_Calls
  imports Tool_Gemma_Values
begin

section \<open>Calls in the Gemma 4 format\<close>

text \<open>
  The scan for the closing brace passes over what the template writes, so a turn of written calls comes
  back as these calls. Then the texts on which the parser panics, and those that it reads in two ways.
\<close>

lemma ascii_Cons [simp]: "ascii_text (c # s) \<longleftrightarrow> is_ascii c \<and> ascii_text s"
  by (simp add: ascii_set)

lemma ascii_quote [simp]: "ascii_text string_quote"
  by (simp add: string_quote_def is_ascii_def)

lemma plain_ascii: "list_all plain_byte s \<Longrightarrow> ascii_text s"
  by (auto simp: ascii_set list_all_iff plain_byte_def)

lemma key_ascii: "key_ok k \<Longrightarrow> ascii_text k" "key_ok k \<Longrightarrow> list_all plain_byte k"
  using ident_plain plain_ascii by (auto simp: key_ok_def list_all_iff)

lemma native_ascii:
  "native J d v t \<Longrightarrow> ascii_text t" "native_elements J d vs t \<Longrightarrow> ascii_text t" "native_members J d ms t \<Longrightarrow> ascii_text t"
  by (induction rule: native_native_elements_native_members.inducts)
    (use show_int_plain plain_ascii key_ascii in \<open>simp_all add: is_ascii_def\<close>)

lemma at_quote_ascii:
  assumes "ascii_text s"
  shows "at_quote s = Ok (prefix string_quote s)"
proof (cases "length s < 5")
  case True
  then show ?thesis by (auto simp: at_quote_def dest: prefix_length_le)
next
  case False
  then obtain c u where s: "s = c # u" by (cases s) auto
  then have "\<not> is_continuation (hd s)" using assms by (simp add: is_ascii_def is_continuation_def)
  then show ?thesis using False assms ascii_boundary [of s 5] by (simp add: at_quote_def ascii_set)
qed

lemma scan_one:
  assumes "ascii_text (c # s)" and "\<not> prefix string_quote (c # s)" and "\<not> prefix (c # s) string_quote" and "scan_byte d q c = Some d'"
  shows "args_scan d q (c # s) = ahead 1 (args_scan d' q s)"
  using assms at_quote_ascii [OF assms(1)] by (simp add: args_scan.simps [of d q "c # s"])

lemma scan_char:
  assumes "ascii_text (c # s)" and "c \<noteq> CHR ''<''" and "scan_byte d q c = Some d'"
  shows "args_scan d q (c # s) = ahead 1 (args_scan d' q s)"
  using assms by (intro scan_one) (simp_all add: string_quote_def)

lemma scan_open:
  "c = CHR ''{'' \<or> c = CHR ''['' \<Longrightarrow> ascii_text s \<Longrightarrow> Suc e < 2 ^ 32 \<Longrightarrow>
     args_scan e False (c # s) = ahead 1 (args_scan (Suc e) False s)"
  by (rule scan_char) (auto simp: is_ascii_def scan_byte_def inc_depth_def)

lemma scan_shut:
  "c = CHR ''}'' \<or> c = CHR '']'' \<Longrightarrow> ascii_text s \<Longrightarrow> 0 < e \<Longrightarrow> args_scan (Suc e) False (c # s) = ahead 1 (args_scan e False s)"
  by (rule scan_char) (auto simp: is_ascii_def scan_byte_def)

lemma scan_between:
  "c = CHR '','' \<or> c = CHR '':'' \<Longrightarrow> ascii_text s \<Longrightarrow> args_scan e False (c # s) = ahead 1 (args_scan e False s)"
  by (rule scan_char) (auto simp: is_ascii_def scan_byte_def)

lemma scan_plain:
  "list_all plain_byte t \<Longrightarrow> ascii_text r \<Longrightarrow> args_scan d False (t @ r) = ahead (length t) (args_scan d False r)"
proof (induction t)
  case (Cons c t)
  then have "ascii_text t" "ascii_text (c # t @ r)" using plain_ascii [OF Cons.prems(1)] by simp_all
  moreover have "c \<noteq> CHR ''<''" "scan_byte d False c = Some d" using Cons.prems(1) by (simp_all add: plain_byte_def scan_byte_def)
  ultimately show ?case using Cons scan_char [of c "t @ r" d False d] by (simp add: ahead_ahead)
qed simp

lemma scan_quote: "ascii_text r \<Longrightarrow> args_scan d q (string_quote @ r) = ahead 5 (args_scan d (\<not> q) r)"
proof -
  assume "ascii_text r"
  then have "at_quote (string_quote @ r) = Ok True" using at_quote_ascii [of "string_quote @ r"] by simp
  moreover have "string_quote @ r \<noteq> []" by (simp add: string_quote_def)
  ultimately show ?thesis by (simp add: args_scan.simps [of d q "string_quote @ r"])
qed

lemma scan_string:
  "find_sub string_quote s = None \<Longrightarrow> ascii_text s \<Longrightarrow> ascii_text r \<Longrightarrow>
     args_scan d True (s @ string_quote @ r) = ahead (length s + 5) (args_scan d False r)"
proof (induction s)
  case Nil
  then show ?case using scan_quote [of r d True] by simp
next
  case (Cons c s)
  have none: "find_sub string_quote s = None" using Cons.prems(1) by (auto split: if_splits)
  have a: "ascii_text (c # s @ string_quote @ r)" using Cons.prems by (simp)
  have "find_sub string_quote ((c # s) @ string_quote @ r) = Some (length (c # s))"
    by (rule find_sub_plain [OF quote_is_tag Cons.prems(1)])
  then have n: "\<not> prefix string_quote (c # s @ string_quote @ r)" by (auto split: if_splits)
  have "\<not> prefix (c # s @ string_quote @ r) string_quote" using prefix_length_le [of "c # s @ string_quote @ r" string_quote] by auto
  then show ?case using Cons.IH [OF none] Cons.prems scan_one [OF a n, of d True d]
    by (simp add: scan_byte_def ahead_ahead)
qed

lemma native_scanned:
  "native J d v t \<Longrightarrow> ascii_text r \<Longrightarrow> 0 < e \<Longrightarrow> e + d < 2 ^ 32 \<Longrightarrow> args_scan e False (t @ r) = ahead (length t) (args_scan e False r)"
  "native_elements J d vs t \<Longrightarrow> ascii_text r \<Longrightarrow> 0 < e \<Longrightarrow> e + d < 2 ^ 32 \<Longrightarrow>
     args_scan e False (t @ r) = ahead (length t) (args_scan e False r)"
  "native_members J d ms t \<Longrightarrow> ascii_text r \<Longrightarrow> 0 < e \<Longrightarrow> e + d < 2 ^ 32 \<Longrightarrow>
     args_scan e False (t @ r) = ahead (length t) (args_scan e False r)"
proof (induction arbitrary: r e and r e and r e rule: native_native_elements_native_members.inducts)
  case (native_string s d)
  then have "ascii_text (s @ string_quote @ r)" by (simp)
  then show ?case using scan_quote [of "s @ string_quote @ r" e False] scan_string [of s r e] native_string by (simp add: ahead_ahead)
next
  case (native_int i d)
  then show ?case using scan_plain show_int_plain by blast
next
  case (native_true d)
  then show ?case by (intro scan_plain) (simp_all add: plain_byte_def is_ascii_def ws1_def)
next
  case (native_false d)
  then show ?case by (intro scan_plain) (simp_all add: plain_byte_def is_ascii_def ws1_def)
next
  case (native_null d)
  then show ?case by (intro scan_plain) (simp_all add: plain_byte_def is_ascii_def ws1_def)
next
  case (native_array0 d)
  then show ?case by (simp add: scan_open scan_shut is_ascii_def ahead_ahead)
next
  case (native_array d vs t)
  then show ?case using native_array.IH(2) [of "CHR '']'' # r" "Suc e"] native_ascii(2) [OF native_array.IH(1)]
    by (simp add: scan_open scan_shut is_ascii_def ahead_ahead)
next
  case (native_object0 d)
  then show ?case by (simp add: scan_open scan_shut is_ascii_def ahead_ahead)
next
  case (native_object d ms t)
  then show ?case using native_object.IH(2) [of "CHR ''}'' # r" "Suc e"] native_ascii(3) [OF native_object.IH(1)]
    by (simp add: scan_open scan_shut is_ascii_def ahead_ahead)
next
  case (native_one d v t)
  then show ?case by blast
next
  case (native_more d v t vs ts)
  then have "ascii_text (ts @ r)" "ascii_text (CHR '','' # ts @ r)" using native_ascii(2) by (auto simp: is_ascii_def)
  then show ?case using native_more.IH(2,4) native_more.prems by (simp add: scan_between ahead_ahead)
next
  case (native_last k d v t)
  then have "ascii_text (t @ r)" "ascii_text (CHR '':'' # t @ r)" using native_ascii(1) by (auto simp: is_ascii_def)
  then show ?case using native_last.IH(2) native_last.prems key_ascii(2) [OF native_last.hyps]
    by (simp add: scan_plain scan_between ahead_ahead)
next
  case (native_next k d v t ms ts)
  then have "ascii_text (ts @ r)" "ascii_text (t @ CHR '','' # ts @ r)" "ascii_text (CHR '':'' # t @ CHR '','' # ts @ r)" "ascii_text (CHR '','' # ts @ r)"
    using native_ascii(1,3) by (auto simp: is_ascii_def)
  then show ?case using native_next.IH(2,4) native_next.prems key_ascii(2) [OF native_next.hyps]
    by (simp add: scan_plain scan_between ahead_ahead)
qed

subsection \<open>Written calls\<close>

definition write_gemma_call :: "bytes \<Rightarrow> bytes \<Rightarrow> bytes" where
  "write_gemma_call name body = ''<|tool_call>'' @ call_prefix @ name @ ''{'' @ body @ ''}'' @ tool_call_close"

fun gemma_callable :: "'n gemma_serde \<Rightarrow> nat \<Rightarrow> bytes \<times> (bytes \<times> 'n jvalue) list \<times> bytes \<Rightarrow> bool" where
  "gemma_callable J d (name, ms, body) \<longleftrightarrow>
     key_ok name \<and> (ms = [] \<and> body = [] \<or> native_members J d ms body \<and> distinct (map fst ms))"

fun gemma_written :: "'n gemma_serde \<Rightarrow> nat \<Rightarrow> (bytes \<times> (bytes \<times> 'n jvalue) list \<times> bytes) list \<Rightarrow> tool_call list" where
  "gemma_written J i [] = []"
| "gemma_written J i ((name, ms, body) # calls) =
     \<lparr>tc_id = ''call_'' @ show_dec i, tc_kind = ''function'', tc_name = name, tc_arguments = render_json J (JObject ms)\<rparr>
     # gemma_written J (i + 1) calls"

lemma body_scanned:
  assumes "gemma_callable J d (name, ms, body)" and "ascii_text r" and "d + 1 < 2 ^ 32"
  shows "args_scan 1 False (body @ ''}'' @ r) = Ok (length body, 0, False, True)"
proof -
  have a: "ascii_text (CHR ''}'' # r)" using assms(2) by (simp add: is_ascii_def)
  have "at_quote (CHR ''}'' # r) = Ok False" using at_quote_ascii [OF a] by (simp add: string_quote_def)
  then have stop: "args_scan 1 False (CHR ''}'' # r) = Ok (0, 0, False, True)"
    by (subst args_scan.simps) (simp add: scan_byte_def string_quote_def)
  then have "args_scan 1 False (body @ CHR ''}'' # r) = ahead (length body) (args_scan 1 False (CHR ''}'' # r))"
    using assms(1,3) native_scanned(3) [OF _ a, of J d ms body 1] by auto
  then show ?thesis using stop by simp
qed

lemma body_read:
  assumes "gemma_callable J d (name, ms, body)"
  shows "gemma_args_json J d body = Ok (render_json J (JObject ms))"
proof (cases "body = []")
  case True
  then have "ms = []" using assms native_start(3) by fastforce
  then show ?thesis using True by (simp add: gemma_args_json_def parse_args_body_def)
next
  case False
  then have m: "native_members J d ms body" "distinct (map fst ms)" using assms by auto
  have "ws_run body = 0" using native_start(3) [OF m(1)] by (intro ws_run_visible) simp
  then show ?thesis using False native_reads(3) [OF m(1), of "[]" "[]"] m(2)
    by (simp add: gemma_args_json_def parse_args_body_def)
qed

lemma header_read:
  assumes "key_ok name"
  shows "early_close (name @ CHR ''{'' # r) = None" and "find_opener (name @ CHR ''{'' # r) = Some (True, length name)"
proof -
  let ?s = "name @ CHR ''{'' # r"
  have n: "CHR ''{'' \<notin> set name" "CHR ''('' \<notin> set name" "CHR ''<'' \<notin> set name"
    using assms by (auto simp: key_ok_def list_all_iff ident_char_def is_digit_def)
  have brace: "find_sub ''{'' ?s = Some (length name)" by (rule find_char_plain [OF n(1)])
  have late: "length name \<le> q" if "find_sub t ?s = Some q" "t \<noteq> []" "hd t \<notin> set name" for t q
  proof (rule ccontr)
    assume "\<not> length name \<le> q"
    moreover have "prefix t (drop q ?s)" using that(1) by (simp add: find_sub_Some)
    ultimately have "hd t = name ! q" using that(2)
      by (cases t) (auto simp: prefix_def nth_append Cons_nth_drop_Suc [symmetric] simp del: drop_append)
    then show False using that(3) \<open>\<not> length name \<le> q\<close> by simp
  qed
  show o: "find_opener ?s = Some (True, length name)"
    using brace late [of "''(''"] n(2) by (fastforce simp: find_opener_def split: option.split)
  show "early_close ?s = None"
    using o late [of tool_call_close] n(3) by (fastforce simp: early_close_def tool_call_close_def split: option.split)
qed

lemma whole_empty: "g_state p = GText \<Longrightarrow> g_buf p = [] \<Longrightarrow> whole J d p = Ok []"
  using whole_emit [of p J d gemma_open_tags push_text after_tag] step_text_emit earliest_empty [OF gemma_tag_lists(1)]
  by (simp add: gemma_step_def gemma_flush_def)

lemma whole_call:
  assumes st: "g_state p = GText" and call: "gemma_callable J d (name, ms, body)" and r: "ascii_text r" and d: "d + 1 < 2 ^ 32"
    and buf: "g_buf p = write_gemma_call name body @ r"
  defines "i \<equiv> g_next_index p"
  shows "whole J d p = obind (whole J d (p\<lparr>g_buf := r, g_current_name := name, g_args_body := [], g_args_depth := 0,
      g_args_in_string := False, g_next_index := next_call i\<rparr>))
    (\<lambda>es. Ok ([ToolCallOpen i name, ToolCallArgumentsDelta i (render_json J (JObject ms)), ToolCallClose i] @ es))"
proof -
  let ?args = "body @ ''}'' @ tool_call_close @ r"
  let ?p1 = "p\<lparr>g_buf := call_prefix @ name @ CHR ''{'' # ?args, g_state := GInCallHeader\<rparr>"
  let ?p2 = "p\<lparr>g_buf := ?args, g_current_name := name, g_args_body := [], g_args_depth := 1, g_args_in_string := False, g_state := GInArgs\<rparr>"
  let ?p3 = "p\<lparr>g_buf := tool_call_close @ r, g_current_name := name, g_args_body := [], g_args_depth := 0,
    g_args_in_string := False, g_state := GAwaitingClose\<rparr>"
  let ?p4 = "p\<lparr>g_buf := r, g_current_name := name, g_args_body := [], g_args_depth := 0,
    g_args_in_string := False, g_next_index := next_call i\<rparr>"
  have "earliest_tag gemma_open_tags ([] @ ''<|tool_call>'' @ call_prefix @ name @ CHR ''{'' # ?args) = Some (length ([] :: bytes), ''<|tool_call>'')"
    by (rule earliest_plain [OF gemma_tag_lists(1)]) (simp_all add: gemma_open_tags_def)
  then have s1: "gemma_step J d True p = Ok (True, [], ?p1)"
    using st buf by (simp add: gemma_step_def gemma_step_text_def write_gemma_call_def push_text_def after_tag_def)
  have "trim name = name" using call key_plain(1) by simp
  then have s2: "gemma_step J d True ?p1 = Ok (True, [ToolCallOpen i name], ?p2)"
    using header_read [of name ?args] call by (simp add: gemma_step_def gemma_step_in_call_header_def Let_def i_def)
  have "ascii_text (tool_call_close @ r)" using r by (simp add: tool_call_close_def is_ascii_def)
  then have s3: "gemma_step J d True ?p2 = Ok (True, [ToolCallArgumentsDelta i (render_json J (JObject ms))], ?p3)"
    using body_scanned [OF call _ d] body_read [OF call] by (simp add: gemma_step_def gemma_step_in_args_def Let_def i_def)
  have "earliest_tag [tool_call_close, tool_close, tool_code_close] ([] @ tool_call_close @ r) = Some (length ([] :: bytes), tool_call_close)"
    by (rule earliest_plain [OF gemma_tag_lists(3)]) simp_all
  then have s4: "gemma_step J d True ?p3 = Ok (True, [ToolCallClose i], ?p4)"
    using st by (simp add: gemma_step_def gemma_step_awaiting_close_def i_def)
  show ?thesis using whole_step [OF s1] whole_step [OF s2] whole_step [OF s3] whole_step [OF s4]
    by (cases "whole J d ?p4") simp_all
qed

lemma call_ascii: "gemma_callable J d (name, ms, body) \<Longrightarrow> ascii_text (write_gemma_call name body)"
  using key_ascii(1) native_ascii(3) by (auto simp: write_gemma_call_def call_prefix_def tool_call_close_def is_ascii_def)

lemma calls_ascii:
  "list_all (gemma_callable J d) calls \<Longrightarrow> ascii_text (concat (map (\<lambda>(name, ms, body). write_gemma_call name body) calls))"
  by (induction calls) (auto dest: call_ascii simp del: gemma_callable.simps)

lemma whole_calls:
  assumes "list_all (gemma_callable J d) calls" and "d + 1 < 2 ^ 32" and "g_state p = GText"
    and "g_buf p = concat (map (\<lambda>(name, ms, body). write_gemma_call name body) calls)"
    and "g_next_index p + length calls \<le> 2 ^ 32" and "\<forall>i. as_pending a i = None"
  shows "\<exists>es. whole J d p = Ok es \<and>
    foldl split_event a es = a\<lparr>as_calls := as_calls a @ gemma_written J (g_next_index p) calls\<rparr>"
  using assms
proof (induction calls arbitrary: p a)
  case Nil
  then show ?case using whole_empty [of p J d] by simp
next
  case (Cons call calls)
  obtain name ms body where call: "call = (name, ms, body)" by (cases call)
  let ?r = "concat (map (\<lambda>(name, ms, body). write_gemma_call name body) calls)" and ?i = "g_next_index p"
  have r: "ascii_text ?r" using Cons.prems(1) by (intro calls_ascii [of J d]) simp
  let ?p = "p\<lparr>g_buf := ?r, g_current_name := name, g_args_body := [], g_args_depth := 0,
      g_args_in_string := False, g_next_index := next_call ?i\<rparr>"
  let ?es = "[ToolCallOpen ?i name, ToolCallArgumentsDelta ?i (render_json J (JObject ms)), ToolCallClose ?i]"
  let ?a = "a\<lparr>as_calls := as_calls a @ [\<lparr>tc_id = ''call_'' @ show_dec ?i, tc_kind = ''function'', tc_name = name,
    tc_arguments = render_json J (JObject ms)\<rparr>]\<rparr>"
  have one: "whole J d p = obind (whole J d ?p) (\<lambda>es. Ok (?es @ es))"
    using Cons.prems call by (intro whole_call [OF _ _ r]) simp_all
  have fold: "foldl split_event a ?es = ?a" using Cons.prems(6) by (intro split_call) simp
  show ?case
  proof (cases calls)
    case Nil
    then have "whole J d ?p = Ok []" using Cons.prems(3) by (intro whole_empty) simp_all
    then show ?thesis using one fold call Nil by simp
  next
    case (Cons c cs)
    then have "next_call ?i = ?i + 1" using Cons.prems(5) by (simp add: next_call_def)
    then have "\<exists>es. whole J d ?p = Ok es \<and> foldl split_event ?a es = ?a\<lparr>as_calls := as_calls ?a @ gemma_written J (g_next_index ?p) calls\<rparr>"
      using Cons.prems by (intro Cons.IH) simp_all
    then obtain es where "whole J d ?p = Ok es"
      "foldl split_event ?a es = ?a\<lparr>as_calls := as_calls ?a @ gemma_written J (next_call ?i) calls\<rparr>" by auto
    then show ?thesis using one fold call \<open>next_call ?i = ?i + 1\<close> by (intro exI [of _ "?es @ es"]) simp
  qed
qed

subsection \<open>Texts that break the scan\<close>

text \<open>Once the scan panics behind a byte it panics before it; and at depth 0 nothing closes the call.\<close>

lemma scan_back:
  assumes "c \<noteq> CHR ''<''" and "scan_byte d q c = Some d'" and "args_scan d' q s = Panic"
  shows "args_scan d q (c # s) = Panic"
  using assms by (subst args_scan.simps) (auto simp: at_quote_def string_quote_def)

lemma scan_back_list:
  assumes "args_scan d q s = Panic" and "\<And>c. c \<in> set a \<Longrightarrow> c \<noteq> CHR ''<'' \<and> scan_byte d q c = Some d"
  shows "args_scan d q (a @ s) = Panic"
  using assms by (induction a) (simp_all add: scan_back [where d' = d])

lemma scan_back_quote: "args_scan d (\<not> q) s = Panic \<Longrightarrow> args_scan d q (string_quote @ s) = Panic"
  by (subst args_scan.simps) (auto simp: at_quote_def string_quote_def)

lemma scan_inside_char:
  assumes "\<not> is_ascii lead" and "is_continuation cont" and "4 \<le> length rest"
  shows "args_scan d True (lead # cont # rest) = Panic"
proof (rule scan_back)
  show "args_scan d True (cont # rest) = Panic"
    using assms(2,3) by (subst args_scan.simps) (simp add: at_quote_def)
qed (use assms(1) in \<open>auto simp: scan_byte_def is_ascii_def\<close>)

lemma drain_Panic: "gemma_step J d fin p = Panic \<Longrightarrow> gemma_drain J d fin p = Panic"
  by (subst gemma_drain.simps) simp

lemma drain_step_Panic: "gemma_step J d fin p = Ok (True, es, p') \<Longrightarrow> gemma_drain J d fin p' = Panic \<Longrightarrow> gemma_drain J d fin p = Panic"
  by (subst gemma_drain.simps) simp

text \<open>From free text to the arguments of the first call.\<close>

lemma steps_to_args:
  assumes "key_ok name" and "g_state p = GText" and "g_buf p = ''<|tool_call>call:'' @ name @ ''{'' @ x"
  obtains p1 where "gemma_step J d fin p = Ok (True, [], p1)" and
    "gemma_step J d fin p1 = Ok (True, [ToolCallOpen (g_next_index p) name], p\<lparr>g_buf := x, g_current_name := name,
       g_args_body := [], g_args_depth := 1, g_args_in_string := False, g_state := GInArgs\<rparr>)"
proof
  let ?p1 = "p\<lparr>g_buf := call_prefix @ name @ CHR ''{'' # x, g_state := GInCallHeader\<rparr>"
  have buf: "g_buf p = [] @ ''<|tool_call>'' @ call_prefix @ name @ CHR ''{'' # x" using assms(3) by (simp add: call_prefix_def)
  have "earliest_tag gemma_open_tags (g_buf p) = Some (length ([] :: bytes), ''<|tool_call>'')"
    unfolding buf by (rule earliest_plain [OF gemma_tag_lists(1)]) (simp_all add: gemma_open_tags_def)
  then show "gemma_step J d fin p = Ok (True, [], ?p1)"
    using assms(2) buf by (simp add: gemma_step_def gemma_step_text_def push_text_def after_tag_def)
  have "trim name = name" using assms(1) key_plain(1) by simp
  then show "gemma_step J d fin ?p1 = Ok (True, [ToolCallOpen (g_next_index p) name], p\<lparr>g_buf := x, g_current_name := name,
       g_args_body := [], g_args_depth := 1, g_args_in_string := False, g_state := GInArgs\<rparr>)"
    using header_read [of name x] assms(1) by (simp add: gemma_step_def gemma_step_in_call_header_def Let_def)
qed

lemma whole_two:
  assumes "gemma_step J d True p = Ok (True, es1, p1)" and "gemma_step J d True p1 = Ok (True, es2, p2)" and "whole J d p2 = Ok es3"
  shows "whole J d p = Ok (es1 @ es2 @ es3)"
  using whole_step [OF assms(1)] whole_step [OF assms(2)] assms(3) by simp

lemma scan_stray:
  assumes "list_all (\<lambda>c. is_ascii c \<and> c \<notin> set ''{['') t"
  shows "\<exists>k q'. args_scan 0 q t = Ok (k, 0, q', False)"
  using assms
proof (induction "length t" arbitrary: t q rule: less_induct)
  case less
  have a: "ascii_text t" using less.prems by (auto simp: ascii_set list_all_iff)
  have tail: "list_all (\<lambda>c. is_ascii c \<and> c \<notin> set ''{['') (drop n t)" for n
    using less.prems by (metis append_take_drop_id list_all_append)
  show ?case
  proof (cases t)
    case (Cons c s)
    show ?thesis
    proof (cases "prefix string_quote t")
      case True
      then obtain k q' where "args_scan 0 (\<not> q) (drop 5 t) = Ok (k, 0, q', False)"
        using less.hyps [of "drop 5 t"] tail Cons by fastforce
      then show ?thesis using True at_quote_ascii [OF a] Cons by (subst args_scan.simps) simp
    next
      case no: False
      have "scan_byte 0 q c = Some 0" using less.prems Cons by (auto simp: scan_byte_def)
      moreover obtain k q' where "args_scan 0 q s = Ok (k, 0, q', False)"
        using less.hyps [of s q] tail [of 1] Cons by auto
      ultimately show ?thesis using no at_quote_ascii [OF a] Cons by (subst args_scan.simps) simp
    qed
  qed simp
qed

subsection \<open>The first chunk of a turn\<close>

lemma answer_not_extended:
  assumes "list_ex (\<lambda>c. is_ascii c \<and> \<not> scaffold_byte c \<and> \<not> ws1 c) s"
  shows "\<not> could_extend_to_scaffolding_line s"
proof -
  obtain c where c: "c \<in> set s" "is_ascii c" "\<not> scaffold_byte c" "\<not> ws1 c" using assms by (auto simp: list_ex_iff)
  then have "c \<in> set (trim_start s)" by (intro in_trim_start)
  then have "\<not> all_chars scaffold_byte (trim_start s)" "trim_start s \<noteq> []" using all_chars_ascii c by (blast, auto)
  then show ?thesis by (simp add: could_extend_to_scaffolding_line_def Let_def)
qed

lemma echo_off:
  assumes "answer_start s"
  shows "consume_echo fin s = (False, s)"
proof (cases "find_sub [CHR 0x0A] s")
  case (Some n)
  then have "\<not> is_scaffolding_line (take n s)"
    using assms first_line [OF Some, of "[]"] by (intro answer_not_scaffolding) (simp add: answer_start_def)
  then show ?thesis using Some by (subst consume_echo.simps) simp
next
  case None
  then have "takeWhile (\<lambda>b. b \<noteq> CHR 0x0A) s = s" using no_line_end by (auto intro: takeWhile_eq_all_conv [THEN iffD2])
  then have "list_ex (\<lambda>c. is_ascii c \<and> \<not> scaffold_byte c \<and> \<not> ws1 c) s"
    using assms by (simp add: answer_start_def del: takeWhile_eq_all_conv)
  then show ?thesis using None answer_not_extended answer_not_scaffolding by (subst consume_echo.simps) simp
qed

lemma call_answers: "answer_start (''<|tool_call>'' @ x)"
  by (simp add: answer_start_def is_ascii_def scaffold_byte_def ws1_def)

text \<open>What follows when the guard lets a state \<open>q\<close> through at the first chunk.\<close>

lemma run_after:
  assumes "c \<noteq> []" and q: "try_consume_echo_prefix (p\<lparr>g_buf := g_buf p @ c\<rparr>) False = q" "\<not> g_pending_thought_echo q"
    and out: "whole J d (feed q (concat cs)) = Ok out"
  shows "\<exists>es. run_parser (gemma_push J d) (gemma_finish J d) p (c # cs) = Ok es \<and> coalesce es = coalesce out"
proof -
  from drain_keeps [OF out] obtain es q' out' where
    d: "gemma_drain J d False q = Ok (es, q')" "\<not> g_pending_thought_echo q'" "whole J d (feed q' (concat cs)) = Ok out'"
      "coalesce (es @ out') = coalesce out" using q(2) by auto
  then have "gemma_clean J d q' (concat cs)" "gemma_meaning J d q' (concat cs) = out'"
    using unguarded_idem [of q'] by (simp_all add: gemma_clean_def gemma_meaning_def)
  then obtain es' where "run_parser (gemma_push J d) (gemma_finish J d) q' cs = Ok es'" "coalesce es' = coalesce out'"
    using gemma.run_meaning [of J d q' cs] by auto
  moreover have "gemma_push J d p c = Ok (es, q')" using assms(1) q d(1) by (simp add: gemma_push_def Let_def)
  ultimately show ?thesis using coalesce_right [of es' out' es] d(4) by simp
qed

lemma whole_plain:
  assumes "g_state p = GText" and "CHR ''<'' \<notin> set (g_buf p)"
  shows "whole J d p = Ok (push_text (g_buf p))"
proof -
  have "find_sub t (g_buf p) = None" if "t \<in> set gemma_open_tags" for t
  proof -
    have "is_tag t" using that gemma_tag_lists(1) tagsD(1) by blast
    then have "\<not> prefix t (drop q (g_buf p))" for q using tag_at [of t q "g_buf p"] assms(2) by (metis nth_mem)
    then show ?thesis by (simp add: find_sub_None)
  qed
  then have "earliest_tag gemma_open_tags (g_buf p) = None" by (simp add: earliest_None)
  then show ?thesis using whole_emit [of p J d gemma_open_tags push_text after_tag] step_text_emit earliest_empty [OF gemma_tag_lists(1)] assms(1)
    by (simp add: gemma_step_def gemma_flush_def)
qed

lemma finish_whole:
  assumes "answer_start reply"
  shows "(\<exists>q. gemma_finish J d (with_pending_channel_close\<lparr>g_buf := reply\<rparr>) = Ok (es, q)) \<longleftrightarrow>
    whole J d (feed (unguarded with_pending_channel_close) reply) = Ok es"
proof -
  let ?t = "with_pending_channel_close\<lparr>g_buf := reply\<rparr>" and ?p = "feed (unguarded with_pending_channel_close) reply"
  have "unguarded ?t = ?p" by (simp add: unguarded_def feed_def with_pending_channel_close_def with_thought_echo_guard_def)
  then have "try_consume_echo_prefix ?t True = ?p"
    using echo_off [OF assms, of True]
    by (simp add: try_consume_echo_prefix_def unguarded_def with_pending_channel_close_def with_thought_echo_guard_def)
  then show ?thesis
    by (cases "gemma_drain J d True ?p") (auto simp: gemma_finish_def whole_def Let_def split: prod.splits)
qed

lemma whole_text_before:
  assumes "g_state p = GText" and "CHR ''<'' \<notin> set u" and "t \<in> set gemma_open_tags" and "g_buf p = u @ t @ x"
  shows "whole J d p = obind (whole J d (p\<lparr>g_buf := t @ x\<rparr>)) (\<lambda>es. Ok (push_text u @ es))"
proof -
  have e: "whole J d q = (case earliest_tag gemma_open_tags (g_buf q) of
      None \<Rightarrow> Ok (push_text (g_buf q))
    | Some (pos, t) \<Rightarrow> obind (whole J d (q\<lparr>g_buf := drop (pos + length t) (g_buf q), g_state := after_tag t\<rparr>))
        (\<lambda>es. Ok (push_text (take pos (g_buf q)) @ es)))" if "g_state q = GText" for q
    by (rule whole_emit) (use that step_text_emit earliest_empty [OF gemma_tag_lists(1)] in \<open>simp_all add: gemma_step_def gemma_flush_def\<close>)
  have "earliest_tag gemma_open_tags (u @ t @ x) = Some (length u, t)" "earliest_tag gemma_open_tags ([] @ t @ x) = Some (length ([] :: bytes), t)"
    by (rule earliest_plain [OF gemma_tag_lists(1) assms(3)]; simp add: assms(2))+
  then show ?thesis using e [OF assms(1)] e [of "p\<lparr>g_buf := t @ x\<rparr>"] assms(1,4)
    by (cases "whole J d (p\<lparr>g_buf := x, g_state := after_tag t\<rparr>)") simp_all
qed

subsection \<open>Properties\<close>

text \<open>C32: equivalence. Let the reply be one whose first line has an ASCII character no scaffolding echo has, and that the parser
  reads without a panic when it arrives at once. Then the parser the server uses reads it in every decomposition
  into chunks without a panic, and the events and the response are the same.\<close>

theorem gemma_chunking_invariant:
  assumes "answer_start reply" and "gemma_finish J d (with_pending_channel_close\<lparr>g_buf := reply\<rparr>) = Ok (es, q)"
    and "concat cs = reply"
  shows "\<exists>es'. run_parser (gemma_push J d) (gemma_finish J d) with_pending_channel_close cs = Ok es' \<and>
    coalesce es' = coalesce es \<and> split_events es' = split_events es"
proof -
  have w: "whole J d (feed (unguarded with_pending_channel_close) reply) = Ok es" using assms(2) finish_whole [OF assms(1)] by blast
  from gemma_reads [OF assms(1) w assms(3)] show ?thesis .
qed


text \<open>C34: error. A character beyond ASCII in a string argument aborts the parser. The scan compares a window of five bytes
  at every byte of the buffer, and the slice of a window that begins inside of a character panics. So the chunk
  panics when five bytes are left there, which the closing markers alone provide.\<close>

theorem gemma_non_ascii_panics:
  assumes "key_ok name" and "key_ok k" and "CHR ''<'' \<notin> set s" and "\<not> is_ascii lead" and "is_continuation cont" and "4 \<le> length rest"
  shows "gemma_push J d with_pending_channel_close
    (''<|tool_call>call:'' @ name @ ''{'' @ k @ '':'' @ string_quote @ s @ lead # cont # rest) = Panic"
proof -
  let ?args = "(k @ '':'') @ string_quote @ s @ lead # cont # rest"
  let ?text = "''<|tool_call>call:'' @ name @ ''{'' @ ?args"
  let ?p = "unguarded with_pending_channel_close\<lparr>g_buf := ?text\<rparr>"
  have p: "g_state ?p = GText" "g_buf ?p = ?text" by (simp_all add: unguarded_def with_pending_channel_close_def with_thought_echo_guard_def)
  have "args_scan 1 True (s @ lead # cont # rest) = Panic"
    by (rule scan_back_list [OF scan_inside_char [OF assms(4-6)]]) (use assms(3) in \<open>auto simp: scan_byte_def\<close>)
  then have "args_scan 1 False (string_quote @ s @ lead # cont # rest) = Panic" by (intro scan_back_quote) simp
  then have scan: "args_scan 1 False ?args = Panic"
    by (rule scan_back_list) (use key_ascii(2) [OF assms(2)] in \<open>auto simp: scan_byte_def list_all_iff plain_byte_def\<close>)
  from steps_to_args [OF assms(1) p] obtain p1 where
    steps: "gemma_step J d False ?p = Ok (True, [], p1)"
      "gemma_step J d False p1 = Ok (True, [ToolCallOpen (g_next_index ?p) name], ?p\<lparr>g_buf := ?args, g_current_name := name,
         g_args_body := [], g_args_depth := 1, g_args_in_string := False, g_state := GInArgs\<rparr>)" .
  have "gemma_drain J d False ?p = Panic"
    by (rule drain_step_Panic [OF steps(1)], rule drain_step_Panic [OF steps(2)], rule drain_Panic)
      (simp add: gemma_step_def gemma_step_in_args_def scan [simplified])
  moreover have "consume_echo False ?text = (False, ?text)" using echo_off call_answers [of "''call:'' @ name @ ''{'' @ ?args"] by simp
  ultimately show ?thesis
    by (simp add: gemma_push_def try_consume_echo_prefix_def Let_def unguarded_def with_pending_channel_close_def with_thought_echo_guard_def)
qed


text \<open>functional. The guard against echoes depends on the chunks. A line \<open>model>\<close> before an answer is dropped when it
  arrives at once, and shown when it arrives as two tokens, which the line's own check of a beginning does not foresee.\<close>

theorem gemma_echo_depends_on_chunks:
  assumes "answer_start t" and "CHR ''<'' \<notin> set t"
  shows "\<exists>es es'. run_parser (gemma_push J d) (gemma_finish J d) with_pending_channel_close [''model>'' @ [CHR 0x0A] @ t] = Ok es \<and>
     run_parser (gemma_push J d) (gemma_finish J d) with_pending_channel_close [''model'', ''>'' @ [CHR 0x0A] @ t] = Ok es' \<and>
     split_events es = (t, []) \<and> split_events es' = (''model>'' @ [CHR 0x0A] @ t, [])"
proof -
  let ?p = "with_pending_channel_close" and ?w = "''model>'' @ [CHR 0x0A] @ t"
  let ?q = "\<lambda>u. unguarded ?p\<lparr>g_buf := u\<rparr>"
  have out: "whole J d (?q u) = Ok (push_text u)" if "CHR ''<'' \<notin> set u" for u
    using that whole_plain [of "?q u" J d] by (simp add: unguarded_def with_pending_channel_close_def with_thought_echo_guard_def)
  have content: "split_events es = (u, [])" if "coalesce es = coalesce (push_text u)" for es u
    using split_events_cong [OF that] by (simp add: push_text_def split_events_def Let_def)
  have "is_scaffolding_line ''model>''" by code_simp
  then have "consume_echo False ?w = (False, t)" using echo_off [OF assms(1), of False] by (subst consume_echo.simps) simp
  then have one: "try_consume_echo_prefix (?p\<lparr>g_buf := g_buf ?p @ ?w\<rparr>) False = ?q t"
    by (simp add: try_consume_echo_prefix_def unguarded_def with_pending_channel_close_def with_thought_echo_guard_def)
  have "consume_echo False ''model'' = (False, ''model'')" by code_simp
  then have two: "try_consume_echo_prefix (?p\<lparr>g_buf := g_buf ?p @ ''model''\<rparr>) False = ?q ''model''"
    by (simp add: try_consume_echo_prefix_def unguarded_def with_pending_channel_close_def with_thought_echo_guard_def)
  obtain es where "run_parser (gemma_push J d) (gemma_finish J d) ?p [?w] = Ok es" "coalesce es = coalesce (push_text t)"
    using run_after [OF _ one, of J d "[]"] out [OF assms(2)] by (auto simp: unguarded_def)
  moreover obtain es' where "run_parser (gemma_push J d) (gemma_finish J d) ?p [''model'', ''>'' @ [CHR 0x0A] @ t] = Ok es'"
    "coalesce es' = coalesce (push_text ?w)"
    using run_after [OF _ two, of J d "[''>'' @ [CHR 0x0A] @ t]"] out [of ?w] assms(2) by (auto simp: unguarded_def feed_def)
  ultimately show ?thesis using content by blast
qed

subsection \<open>The properties at concrete texts\<close>

text \<open>A small serializer: integers are numbers, and every value is written as an empty object.\<close>

definition demo_gemma_serde :: "int gemma_serde" where
  "demo_gemma_serde = \<lparr>gs_of_int = (\<lambda>i. i), gs_of_float = (\<lambda>_. None), gs_from_str = (\<lambda>_. None), gs_first = (\<lambda>_. None),
     gs_to_string = (\<lambda>_. None)\<rparr>"

lemma demo_callable:
  "gemma_callable demo_gemma_serde 3 (''f'', [(''a'', JArray [JNumber 1, JString ''}'']), (''b'', JObject [])],
     ''a:[1,'' @ string_quote @ ''}'' @ string_quote @ ''],b:{}'')"
proof -
  have one: "native demo_gemma_serde 2 (JNumber 1) ''1''"
  proof -
    have "show_int 1 = ''1''" by code_simp
    then show ?thesis using native_int [of 1 demo_gemma_serde 2] by (simp add: demo_gemma_serde_def)
  qed
  have brace: "native demo_gemma_serde 2 (JString ''}'') (string_quote @ ''}'' @ string_quote)"
    by (rule native_string) (simp_all add: is_ascii_def string_quote_def)
  have "native_elements demo_gemma_serde 2 [JNumber 1, JString ''}''] (''1'' @ CHR '','' # string_quote @ ''}'' @ string_quote)"
    by (rule native_more [OF one native_one [OF brace]])
  then have a: "native demo_gemma_serde 3 (JArray [JNumber 1, JString ''}'']) (CHR ''['' # (''1,'' @ string_quote @ ''}'' @ string_quote) @ '']'')"
    using native_array [of demo_gemma_serde 2 "[JNumber 1, JString ''}'']" "''1,'' @ string_quote @ ''}'' @ string_quote"]
    by (simp add: numeral_3_eq_3 numeral_2_eq_2)
  have b: "native demo_gemma_serde 3 (JObject []) ''{}''" using native_object0 [of demo_gemma_serde 2] by (simp add: numeral_3_eq_3 numeral_2_eq_2)
  have k: "key_ok ''a''" "key_ok ''b''" "key_ok ''f''" by code_simp+
  from native_next [OF k(1) a native_last [OF k(2) b]] show ?thesis using k(3) by simp
qed

definition demo_text :: bytes where
  "demo_text = write_gemma_call ''f'' (''a:[1,'' @ string_quote @ ''}'' @ string_quote @ ''],b:{}'')"

lemma gemma_chunking_invariant_witness:
  "\<exists>es'. run_parser (gemma_push demo_gemma_serde 3) (gemma_finish demo_gemma_serde 3) with_pending_channel_close
      [''Y'', ''es'' @ take 5 demo_text, drop 5 demo_text] = Ok es' \<and>
    split_events es' = (''Yes'', [\<lparr>tc_id = ''call_0'', tc_kind = ''function'', tc_name = ''f'', tc_arguments = ''{}''\<rparr>])"
proof -
  let ?calls = "[(''f'', [(''a'', JArray [JNumber 1, JString ''}'']), (''b'', JObject [])],
    ''a:[1,'' @ string_quote @ ''}'' @ string_quote @ ''],b:{}'')]"
  let ?reply = "''Yes'' @ demo_text" and ?p = "\<lambda>u. feed (unguarded with_pending_channel_close) u"
  let ?a = "\<lparr>as_content = ''Yes'', as_calls = [], as_pending = (\<lambda>_. None)\<rparr> :: assembly"
  have p: "g_state (?p u) = GText" "g_next_index (?p u) = 0" "g_buf (?p u) = u" "?p u\<lparr>g_buf := v\<rparr> = ?p v" for u v
    by (simp_all add: unguarded_def feed_def with_pending_channel_close_def with_thought_echo_guard_def)
  have "\<exists>es. whole demo_gemma_serde 3 (?p demo_text) = Ok es \<and>
      foldl split_event ?a es = ?a\<lparr>as_calls := as_calls ?a @ gemma_written demo_gemma_serde (g_next_index (?p demo_text)) ?calls\<rparr>"
    by (rule whole_calls) (use demo_callable p in \<open>simp_all add: demo_text_def del: gemma_callable.simps\<close>)
  then obtain es where es: "whole demo_gemma_serde 3 (?p demo_text) = Ok es" "foldl split_event ?a es = ?a\<lparr>as_calls := gemma_written demo_gemma_serde 0 ?calls\<rparr>"
    using p(2) by auto
  have start: "answer_start ?reply" by (simp add: answer_start_def is_ascii_def scaffold_byte_def ws1_def)
  have "demo_text = ''<|tool_call>'' @ drop 12 demo_text" by (simp add: demo_text_def write_gemma_call_def)
  then have "whole demo_gemma_serde 3 (?p ?reply) = obind (whole demo_gemma_serde 3 (?p ?reply\<lparr>g_buf := ''<|tool_call>'' @ drop 12 demo_text\<rparr>))
      (\<lambda>es. Ok (push_text ''Yes'' @ es))"
    by (intro whole_text_before) (use p in \<open>simp_all add: gemma_open_tags_def\<close>)
  then have "whole demo_gemma_serde 3 (?p ?reply) = Ok (TextDelta ''Yes'' # es)"
    using es(1) \<open>demo_text = _\<close> by (simp add: p(4) push_text_def del: append_Cons append.append_Cons)
  then obtain q where "gemma_finish demo_gemma_serde 3 (with_pending_channel_close\<lparr>g_buf := ?reply\<rparr>) = Ok (TextDelta ''Yes'' # es, q)"
    using finish_whole [OF start] by blast
  then have "\<exists>es'. run_parser (gemma_push demo_gemma_serde 3) (gemma_finish demo_gemma_serde 3) with_pending_channel_close
      [''Y'', ''es'' @ take 5 demo_text, drop 5 demo_text] = Ok es' \<and>
      coalesce es' = coalesce (TextDelta ''Yes'' # es) \<and> split_events es' = split_events (TextDelta ''Yes'' # es)"
    by (rule gemma_chunking_invariant [OF start]) simp
  moreover have "split_events (TextDelta ''Yes'' # es) =
      (''Yes'', [\<lparr>tc_id = ''call_0'', tc_kind = ''function'', tc_name = ''f'', tc_arguments = ''{}''\<rparr>])"
    using es(2) by (simp add: split_events_def Let_def show_dec_0 render_json_def demo_gemma_serde_def)
  ultimately show ?thesis by auto
qed


lemma gemma_non_ascii_panics_witness:
  "gemma_push demo_gemma_serde 3 with_pending_channel_close
    (''<|tool_call>call:f{a:'' @ string_quote @ ''caf'' @ [CHR 0xC3, CHR 0xA9] @ string_quote @ ''}<tool_call|>'') = Panic"
  using gemma_non_ascii_panics [of "''f''" "''a''" "''caf''" "CHR 0xC3" "CHR 0xA9" "string_quote @ ''}<tool_call|>''" demo_gemma_serde 3]
  by (simp add: key_ok_def ident_char_def is_ascii_def is_continuation_def)


lemma gemma_echo_depends_on_chunks_witness:
  "\<exists>es es'. run_parser (gemma_push demo_gemma_serde 3) (gemma_finish demo_gemma_serde 3) with_pending_channel_close [''model>'' @ [CHR 0x0A] @ ''Hi''] = Ok es \<and>
     run_parser (gemma_push demo_gemma_serde 3) (gemma_finish demo_gemma_serde 3) with_pending_channel_close [''model'', ''>'' @ [CHR 0x0A] @ ''Hi''] = Ok es' \<and>
     split_events es = (''Hi'', []) \<and> split_events es' = (''model>'' @ [CHR 0x0A] @ ''Hi'', [])"
  by (rule gemma_echo_depends_on_chunks) (simp_all add: answer_start_def is_ascii_def scaffold_byte_def ws1_def)

end
