(* ===== verification/Tool_Gemma_Ascii.thy ===== *)
theory Tool_Gemma_Ascii
  imports Tool_Gemma_Calls
begin

section \<open>ASCII answers in the Gemma 4 format\<close>

text \<open>
  The panics of the parser come from characters beyond ASCII and from the stack. On an ASCII answer with a
  stack for its length nothing panics, whatever the answer holds, so its response does not depend on the chunks.
\<close>

text \<open>Every level of nesting consumes a byte, so the stack never runs out on a short text.\<close>

lemma parse_no_panic:
  "length s \<le> d \<Longrightarrow> parse_object_body J d obj s \<noteq> Panic"
  "length s \<le> d \<Longrightarrow> parse_elements J d arr s \<noteq> Panic"
  "length s \<le> d \<Longrightarrow> parse_value J d s \<noteq> Panic"
proof (induction J d obj s and J d arr s and J d s rule: parse_object_body_parse_elements_parse_value.induct)
  case (1 J d obj s)
  show ?case using 1 by (subst parse_object_body.simps) (auto simp: Let_def obind_Panic_iff split: option.split)
next
  case (2 J d arr s)
  show ?case using 2 by (subst parse_elements.simps) (auto simp: Let_def obind_Panic_iff)
next
  case (3 J d s)
  show ?case using 3 by (subst parse_value.simps) (auto simp: Let_def obind_Panic_iff split: option.split nat.split)
qed

lemma scan_no_panic: "ascii_text s \<Longrightarrow> \<exists>st. args_scan d q s = Ok st"
proof (induction "length s" arbitrary: d q s rule: less_induct)
  case less
  have tail: "ascii_text (drop n s)" for n using less.prems by (metis append_take_drop_id ascii_append)
  show ?case
  proof (cases s)
    case Nil
    have "args_scan d q [] = Ok (0, d, q, False)" by simp
    then show ?thesis unfolding Nil by blast
  next
    case (Cons c t)
    have step: "\<exists>st. args_scan e x (drop n s) = Ok st" if "0 < n" for e x n
      using less.hyps [OF _ tail] that Cons by simp
    have "\<exists>st. ahead n r = Ok st" if "\<exists>st. r = Ok st" for n and r :: "(unit, nat \<times> nat \<times> bool \<times> bool) outcome"
      using that by (auto simp: ahead_Ok)
    then show ?thesis using step [of 5] step [of 1] at_quote_ascii [OF less.prems] Cons
      by (subst args_scan.simps) (auto split: option.split)
  qed
qed

text \<open>What a state needs so that nothing panics on it: ASCII bytes, and a stack for all that is buffered.\<close>

definition quiet :: "nat \<Rightarrow> gemma \<Rightarrow> bool" where
  "quiet d p \<longleftrightarrow> ascii_text (g_buf p) \<and> length (g_args_body p) + length (g_buf p) \<le> d"

lemma ascii_drop: "ascii_text s \<Longrightarrow> ascii_text (drop n s)"
  by (metis append_take_drop_id ascii_append)

lemma args_json_quiet:
  assumes "length body \<le> d"
  shows "\<exists>json. gemma_args_json J d body = Ok json"
proof -
  let ?t = "drop (ws_run body) body"
  have "length ?t \<le> d" using assms by simp
  then have "parse_object_body J d [] ?t \<noteq> Panic" by (rule parse_no_panic)
  then have "parse_args_body J d body \<noteq> Panic" by (auto simp: parse_args_body_def Let_def obind_Panic_iff)
  then show ?thesis by (cases "parse_args_body J d body") (auto simp: gemma_args_json_def)
qed

lemma step_quiet_args:
  assumes st: "g_state p = GInArgs" and q: "quiet d p"
  shows "\<exists>b es p'. gemma_step J d fin p = Ok (b, es, p') \<and> quiet d p'"
proof -
  obtain k e x c where scan: "args_scan (g_args_depth p) (g_args_in_string p) (g_buf p) = Ok (k, e, x, c)"
    using scan_no_panic q by (metis quiet_def prod_cases4)
  have "k \<le> length (g_buf p)" using args_scan_bound [OF scan] by simp
  then show ?thesis
    using st q scan args_json_quiet [of "g_args_body p @ take k (g_buf p)" d J] ascii_drop
    by (cases c) (auto simp: gemma_step_def gemma_step_in_args_def Let_def quiet_def)
qed

lemma step_quiet:
  assumes "quiet d p"
  shows "\<exists>b es p'. gemma_step J d fin p = Ok (b, es, p') \<and> quiet d p'"
proof (cases "g_state p")
  case GInArgs
  then show ?thesis using step_quiet_args assms by blast
next
  case GInCallHeader
  then show ?thesis using assms ascii_drop
    by (auto simp: gemma_step_def gemma_step_in_call_header_def Let_def quiet_def split: option.split)
next
  case GInToolCode
  then show ?thesis using assms ascii_drop
    by (auto simp: gemma_step_def gemma_step_in_tool_code_def Let_def quiet_def split: option.split prod.split)
qed (use assms ascii_drop in \<open>auto simp: gemma_step_def gemma_step_text_def gemma_step_in_channel_def gemma_step_awaiting_close_def
    gemma_step_in_turn_header_def gemma_step_in_tool_response_def drop_through_def Let_def quiet_def split: option.split\<close>)

lemma drain_quiet: "quiet d p \<Longrightarrow> \<exists>es q. gemma_drain J d fin p = Ok (es, q)"
proof (induction "gemma_size p" arbitrary: p rule: less_induct)
  case less
  obtain b es p' where s: "gemma_step J d fin p = Ok (b, es, p')" "quiet d p'" using step_quiet [OF less.prems] by blast
  show ?case
  proof (cases b)
    case True
    then have "gemma_step J d fin p = Ok (True, es, p')" using s(1) by simp
    then have "gemma_size p' < gemma_size p" by (rule gemma_step_size)
    from less.hyps [OF this s(2)] show ?thesis using s(1) by (subst gemma_drain.simps) auto
  qed (use s(1) in \<open>subst gemma_drain.simps, simp\<close>)
qed



end
