(* ===== verification/Tool_Dispatch.thy ===== *)
theory Tool_Dispatch
  imports Tool_Gemma_Calls Tool_Qwen_Calls Tool_Hermes_Json
begin

section \<open>The parser of a request\<close>

text \<open>
  \<^verbatim>\<open>crates/server/src/tool_call_parser/mod.rs\<close>: \<^verbatim>\<open>dispatcher\<close> and \<^verbatim>\<open>dispatcher_with_prompt\<close> choose the
  format and box a parser. The box is a sum of the three parsers, and the contract of the trait holds for the
  sum because it holds for the summands.
\<close>

subsection \<open>The box\<close>

datatype tool_parser = PHermes hermes | PQwen qwen | PGemma gemma

record ('v, 'n) parser_env =
  pe_hermes :: "'v serde"
  pe_qwen :: "(bytes \<times> bytes) list \<Rightarrow> bytes option"
  pe_gemma :: "'n gemma_serde"
  pe_stack :: nat

definition dispatcher_with_prompt ::
    "bytes option \<Rightarrow> tool_call_format \<Rightarrow> bytes \<Rightarrow> bool \<Rightarrow> (bytes, tool_parser) outcome" where
  "dispatcher_with_prompt request_override server_default prompt start_in_reasoning =
     obind (choose_format request_override server_default) (\<lambda>fmt. Ok
       (case fmt of
          Hermes \<Rightarrow> PHermes (if start_in_reasoning then hermes_new_in_think else hermes_new)
        | QwenCoder \<Rightarrow> PQwen (if start_in_reasoning then qwen_new_in_think else qwen_new)
        | Gemma4 \<Rightarrow> PGemma with_pending_channel_close))"

definition dispatcher :: "bytes option \<Rightarrow> tool_call_format \<Rightarrow> (bytes, tool_parser) outcome" where
  "dispatcher request_override server_default = dispatcher_with_prompt request_override server_default [] False"

definition boxed :: "('p \<Rightarrow> tool_parser) \<Rightarrow> (unit, parser_event list \<times> 'p) outcome \<Rightarrow> (unit, parser_event list \<times> tool_parser) outcome" where
  "boxed box r = obind r (\<lambda>(es, p). Ok (es, box p))"

fun parser_push :: "('v, 'n) parser_env \<Rightarrow> tool_parser \<Rightarrow> bytes \<Rightarrow> (unit, parser_event list \<times> tool_parser) outcome" where
  "parser_push env (PHermes p) chunk = boxed PHermes (hermes_push (pe_hermes env) p chunk)"
| "parser_push env (PQwen p) chunk = boxed PQwen (Ok (qwen_push (pe_qwen env) p chunk))"
| "parser_push env (PGemma p) chunk = boxed PGemma (gemma_push (pe_gemma env) (pe_stack env) p chunk)"

fun parser_finish :: "('v, 'n) parser_env \<Rightarrow> tool_parser \<Rightarrow> (unit, parser_event list \<times> tool_parser) outcome" where
  "parser_finish env (PHermes p) = boxed PHermes (hermes_finish (pe_hermes env) p)"
| "parser_finish env (PQwen p) = boxed PQwen (Ok (qwen_finish (pe_qwen env) p))"
| "parser_finish env (PGemma p) = boxed PGemma (gemma_finish (pe_gemma env) (pe_stack env) p)"

text \<open>The meaning and the class of texts of the box are those of the parser in it.\<close>

fun parser_meaning :: "('v, 'n) parser_env \<Rightarrow> tool_parser \<Rightarrow> bytes \<Rightarrow> parser_event list" where
  "parser_meaning env (PHermes p) r = hermes_ref (pe_hermes env) (rest_of p r)"
| "parser_meaning env (PQwen p) r = qwen_ref (pe_qwen env) (with_rest p r)"
| "parser_meaning env (PGemma p) r = gemma_meaning (pe_gemma env) (pe_stack env) p r"

fun parser_clean :: "('v, 'n) parser_env \<Rightarrow> tool_parser \<Rightarrow> bytes \<Rightarrow> bool" where
  "parser_clean env (PHermes p) r \<longleftrightarrow> hermes_clean (pe_hermes env) (rest_of p r)"
| "parser_clean env (PQwen p) r \<longleftrightarrow> qwen_clean (pe_qwen env) (with_rest p r)"
| "parser_clean env (PGemma p) r \<longleftrightarrow> gemma_clean (pe_gemma env) (pe_stack env) p r"

lemma boxed_Ok: "r = Ok (es, p) \<Longrightarrow> boxed box r = Ok (es, box p)"
  by (simp add: boxed_def)

lemma parser_push_meaning:
  assumes "parser_clean env p (c @ rest)"
  shows "\<exists>es p'. parser_push env p c = Ok (es, p') \<and> parser_clean env p' rest \<and>
    coalesce (es @ parser_meaning env p' rest) = coalesce (parser_meaning env p (c @ rest))"
proof (cases p)
  case (PHermes q)
  then obtain es q' where "hermes_push (pe_hermes env) q c = Ok (es, q')" "hermes_clean (pe_hermes env) (rest_of q' rest)"
    "coalesce (es @ hermes_ref (pe_hermes env) (rest_of q' rest)) = coalesce (hermes_ref (pe_hermes env) (rest_of q (c @ rest)))"
    using hermes.push_meaning [of "pe_hermes env" q c rest] assms by auto
  then show ?thesis using PHermes by (intro exI [of _ es] exI [of _ "PHermes q'"]) (simp add: boxed_Ok)
next
  case (PQwen q)
  then obtain es q' where "Ok (qwen_push (pe_qwen env) q c) = (Ok (es, q') :: (unit, _) outcome)" "qwen_clean (pe_qwen env) (with_rest q' rest)"
    "coalesce (es @ qwen_ref (pe_qwen env) (with_rest q' rest)) = coalesce (qwen_ref (pe_qwen env) (with_rest q (c @ rest)))"
    using qwen.push_meaning [of "pe_qwen env" q c rest] assms by auto
  then show ?thesis using PQwen by (intro exI [of _ es] exI [of _ "PQwen q'"]) (simp add: boxed_Ok)
next
  case (PGemma q)
  then obtain es q' where "gemma_push (pe_gemma env) (pe_stack env) q c = Ok (es, q')" "gemma_clean (pe_gemma env) (pe_stack env) q' rest"
    "coalesce (es @ gemma_meaning (pe_gemma env) (pe_stack env) q' rest) = coalesce (gemma_meaning (pe_gemma env) (pe_stack env) q (c @ rest))"
    using gemma.push_meaning [of "pe_gemma env" "pe_stack env" q c rest] assms by auto
  then show ?thesis using PGemma by (intro exI [of _ es] exI [of _ "PGemma q'"]) (simp add: boxed_Ok)
qed

lemma parser_finish_meaning:
  assumes "parser_clean env p []"
  shows "\<exists>es p'. parser_finish env p = Ok (es, p') \<and> coalesce es = coalesce (parser_meaning env p [])"
proof (cases p)
  case (PHermes q)
  then show ?thesis using hermes.finish_meaning [of "pe_hermes env" q] assms by (auto simp: boxed_Ok)
next
  case (PQwen q)
  then show ?thesis using qwen.finish_meaning [of "pe_qwen env" q] assms by (auto simp: boxed_Ok)
next
  case (PGemma q)
  then show ?thesis using gemma.finish_meaning [of "pe_gemma env" "pe_stack env" q] assms by (auto simp: boxed_Ok)
qed

interpretation boxes: tool_call_parser "parser_push env" "parser_finish env" "parser_meaning env" "parser_clean env" for env
  by unfold_locales (rule parser_push_meaning parser_finish_meaning, assumption)+

definition demo_env :: "(unit, int) parser_env" where
  "demo_env = \<lparr>pe_hermes = demo_serde, pe_qwen = (\<lambda>_. None), pe_gemma = demo_gemma_serde, pe_stack = 3\<rparr>"



end
