(* ===== verification/Scheduler.thy ===== *)
theory Scheduler
  imports FB_Prelude
begin

section \<open>The batching scheduler of the server\<close>

text \<open>
  \<^verbatim>\<open>crates/server/src/routes.rs\<close> (slot claims, \<^verbatim>\<open>decode_via_scheduler_into\<close>, the two dispatchers) and
  the loop of \<^verbatim>\<open>chunked_prefill_pp\<close> in \<^verbatim>\<open>routes/decode_loop.rs\<close>: requests as threads over a pool of
  session slots, a queue of pending decode steps and the dispatcher lock whose holder drains the
  queue. A step is what a thread does between two points where another one can interfere. The
  model's forward passes are parameters; so is what a request does next, given the replies so far.
\<close>

subsection \<open>Requests and state\<close>

datatype sched_op =
    PrefillChunk "nat list" nat
  | SchedDecode nat nat
  | OwnDecode nat nat

record pending_decode =
  pd_owner :: nat
  pd_slot :: nat
  pd_token :: nat
  pd_position :: nat

text \<open>
  Where a thread is: \<open>Leading\<close> before the drain loop's lock of the queue, \<open>Holding\<close> with it,
  \<open>Releasing\<close> after the dispatcher lock is dropped and before the queue's is, \<open>Dispatching\<close> with
  the entries it took; \<open>Filling\<close> in a chunk's prefill, holding its slot's mutex.
\<close>

datatype sched_pc =
    Outside
  | Claimed
  | Ready
  | Pushing nat nat
  | Trying
  | Leading
  | Holding
  | Releasing
  | Dispatching "pending_decode list"
  | Waiting
  | FillLocking "nat list" nat
  | FillDraining "nat list" nat
  | FillHaving "nat list" nat "pending_decode list"
  | FillDone "nat list" nat
  | FillPure "nat list" nat
  | Gone

record ('s, 'e, 'l) sched_state =
  sc_pc :: "nat \<Rightarrow> sched_pc"
  sc_slot :: "nat \<Rightarrow> nat"
  sc_replies :: "nat \<Rightarrow> ('e + 'l) list"
  sc_inbox :: "nat \<Rightarrow> ('e + 'l) option"
  sc_queue :: "pending_decode list"
  sc_q_held :: "nat option"
  sc_leader :: "nat option"
  sc_in_use :: "nat \<Rightarrow> bool"
  sc_session :: "nat \<Rightarrow> 's"

text \<open>
  The server: the number of requests and of slots, \<^verbatim>\<open>supports_mixed_batch\<close> and the chunk size, a
  request's next operation, a fresh session, and the forward passes: over sessions with a token
  and a position each, of a prefill chunk, and of both mixed. \<open>sv_closed\<close> is the error of a
  receiver whose sender is gone.
\<close>

record ('s, 'e, 'l) sched_server =
  sv_requests :: nat
  sv_slots :: nat
  sv_mixed :: bool
  sv_chunk :: nat
  sv_next :: "nat \<Rightarrow> ('e + 'l) list \<Rightarrow> sched_op option"
  sv_fresh :: 's
  sv_decode :: "('s \<times> nat \<times> nat) list \<Rightarrow> ('e + 'l list) \<times> 's list"
  sv_prefill :: "'s \<Rightarrow> nat list \<Rightarrow> nat \<Rightarrow> ('e + 'l) \<times> 's"
  sv_both :: "'s \<times> nat list \<times> nat \<Rightarrow> ('s \<times> nat \<times> nat) list \<Rightarrow> ('e + 'l \<times> 'l list) \<times> 's \<times> 's list"
  sv_closed :: 'e

definition sched_start :: "('s, 'e, 'l) sched_server \<Rightarrow> ('s, 'e, 'l) sched_state" where
  "sched_start V = \<lparr>sc_pc = (\<lambda>_. Outside), sc_slot = (\<lambda>_. 0), sc_replies = (\<lambda>_. []), sc_inbox = (\<lambda>_. None),
     sc_queue = [], sc_q_held = None, sc_leader = None, sc_in_use = (\<lambda>_. False), sc_session = (\<lambda>_. sv_fresh V)\<rparr>"

definition goto :: "nat \<Rightarrow> sched_pc \<Rightarrow> ('s, 'e, 'l) sched_state \<Rightarrow> ('s, 'e, 'l) sched_state" where
  "goto i c w = w\<lparr>sc_pc := (sc_pc w)(i := c)\<rparr>"

definition answer :: "nat \<Rightarrow> 'e + 'l \<Rightarrow> ('s, 'e, 'l) sched_state \<Rightarrow> ('s, 'e, 'l) sched_state" where
  "answer i r w = goto i Ready (w\<lparr>sc_replies := (sc_replies w)(i := sc_replies w i @ [r])\<rparr>)"

definition set_session :: "nat \<Rightarrow> 's \<Rightarrow> ('s, 'e, 'l) sched_state \<Rightarrow> ('s, 'e, 'l) sched_state" where
  "set_session j s w = w\<lparr>sc_session := (sc_session w)(j := s)\<rparr>"

fun set_sessions :: "nat list \<Rightarrow> 's list \<Rightarrow> ('s, 'e, 'l) sched_state \<Rightarrow> ('s, 'e, 'l) sched_state" where
  "set_sessions (j # js) (s # ss) w = set_sessions js ss (set_session j s w)"
| "set_sessions _ _ w = w"

text \<open>\<^verbatim>\<open>send\<close>: the reply goes to the channel of the entry's owner.\<close>

fun send_all :: "pending_decode list \<Rightarrow> ('e + 'l) list \<Rightarrow> ('s, 'e, 'l) sched_state \<Rightarrow> ('s, 'e, 'l) sched_state" where
  "send_all (p # ps) (r # rs) w = send_all ps rs (w\<lparr>sc_inbox := (sc_inbox w)(pd_owner p \<mapsto> r)\<rparr>)"
| "send_all _ _ w = w"

subsection \<open>Forward passes\<close>

definition batch_of :: "('s, 'e, 'l) sched_state \<Rightarrow> pending_decode list \<Rightarrow> ('s \<times> nat \<times> nat) list" where
  "batch_of w ps = map (\<lambda>p. (sc_session w (pd_slot p), pd_token p, pd_position p)) ps"

text \<open>The mutexes of the pending slots can be taken: the slots differ and none is in a prefill.\<close>

definition slots_free :: "('s, 'e, 'l) sched_server \<Rightarrow> ('s, 'e, 'l) sched_state \<Rightarrow> pending_decode list \<Rightarrow> bool" where
  "slots_free V w ps \<longleftrightarrow> distinct (map pd_slot ps) \<and>
     list_all (\<lambda>p. list_all (\<lambda>k. case sc_pc w k of
         FillLocking _ _ \<Rightarrow> sc_slot w k \<noteq> pd_slot p
       | FillDraining _ _ \<Rightarrow> sc_slot w k \<noteq> pd_slot p
       | FillHaving _ _ _ \<Rightarrow> sc_slot w k \<noteq> pd_slot p
       | FillDone _ _ \<Rightarrow> sc_slot w k \<noteq> pd_slot p
       | FillPure _ _ \<Rightarrow> sc_slot w k \<noteq> pd_slot p
       | _ \<Rightarrow> True) [0..<sv_requests V]) ps"

text \<open>\<^verbatim>\<open>dispatch_batched_pending\<close> and the leader's answer to its failure.\<close>

definition dispatch_batched_pending ::
    "('s, 'e, 'l) sched_server \<Rightarrow> pending_decode list \<Rightarrow> ('s, 'e, 'l) sched_state \<Rightarrow> ('s, 'e, 'l) sched_state" where
  "dispatch_batched_pending V ps w =
     (let (result, sessions) = sv_decode V (batch_of w ps); w = set_sessions (map pd_slot ps) sessions w in
      case result of
        Inr rows \<Rightarrow> send_all ps (map Inr rows) w
      | Inl e \<Rightarrow> send_all ps (map (\<lambda>_. Inl e) ps) w)"

text \<open>\<^verbatim>\<open>dispatch_decode_one\<close> on the caller's own session.\<close>

definition dispatch_decode_one ::
    "('s, 'e, 'l) sched_server \<Rightarrow> nat \<Rightarrow> nat \<Rightarrow> nat \<Rightarrow> ('s, 'e, 'l) sched_state \<Rightarrow> ('s, 'e, 'l) sched_state" where
  "dispatch_decode_one V i token pos w =
     (let j = sc_slot w i; (result, sessions) = sv_decode V [(sc_session w j, token, pos)];
          w = set_sessions [j] sessions w in
      case result of Inr rows \<Rightarrow> answer i (Inr (rows ! 0)) w | Inl e \<Rightarrow> answer i (Inl e) w)"

text \<open>
  \<^verbatim>\<open>dispatch_mixed_with_pending\<close> on a chunk: on failure the drained entries are dropped with their
  senders.
\<close>

definition dispatch_mixed_with_pending ::
    "('s, 'e, 'l) sched_server \<Rightarrow> nat \<Rightarrow> nat list \<Rightarrow> nat \<Rightarrow> pending_decode list \<Rightarrow> ('s, 'e, 'l) sched_state
      \<Rightarrow> ('s, 'e, 'l) sched_state" where
  "dispatch_mixed_with_pending V i toks start ps w =
     (let j = sc_slot w i; (result, s, sessions) = sv_both V (sc_session w j, toks, start) (batch_of w ps);
          w = set_session j s (set_sessions (map pd_slot ps) sessions w) in
      case result of
        Inr (row, rows) \<Rightarrow> answer i (Inr row) (send_all ps (map Inr rows) w)
      | Inl e \<Rightarrow> answer i (Inl e) (send_all ps (map (\<lambda>_. Inl (sv_closed V)) ps) w))"

definition pure_prefill ::
    "('s, 'e, 'l) sched_server \<Rightarrow> nat \<Rightarrow> nat list \<Rightarrow> nat \<Rightarrow> ('s, 'e, 'l) sched_state \<Rightarrow> ('s, 'e, 'l) sched_state" where
  "pure_prefill V i toks start w =
     (let j = sc_slot w i; (result, s) = sv_prefill V (sc_session w j) toks start in
      answer i result (set_session j s w))"

definition others_active :: "('s, 'e, 'l) sched_server \<Rightarrow> nat \<Rightarrow> ('s, 'e, 'l) sched_state \<Rightarrow> bool" where
  "others_active V j w \<longleftrightarrow> list_ex (\<lambda>k. k \<noteq> j \<and> sc_in_use w k) [0..<sv_slots V]"

subsection \<open>Steps\<close>

definition release_slot :: "nat \<Rightarrow> ('s, 'e, 'l) sched_state \<Rightarrow> ('s, 'e, 'l) sched_state" where
  "release_slot j w = w\<lparr>sc_in_use := (sc_in_use w)(j := False)\<rparr>"

text \<open>
  What a request with a slot does next; without an operation left it releases the slot. A scheduled
  decode step takes the single-user path when no other slot is in use.
\<close>

definition begin_op ::
    "('s, 'e, 'l) sched_server \<Rightarrow> nat \<Rightarrow> ('s, 'e, 'l) sched_state \<Rightarrow> ('s, 'e, 'l) sched_state" where
  "begin_op V i w =
     (case sv_next V i (sc_replies w i) of
        None \<Rightarrow> goto i Gone (release_slot (sc_slot w i) w)
      | Some (PrefillChunk toks start) \<Rightarrow>
          goto i (if sv_mixed V then FillLocking toks start else FillPure toks start) w
      | Some (SchedDecode token pos) \<Rightarrow>
          if others_active V (sc_slot w i) w then goto i (Pushing token pos) w
          else dispatch_decode_one V i token pos w
      | Some (OwnDecode token pos) \<Rightarrow> dispatch_decode_one V i token pos w)"

text \<open>\<open>j\<close> is the slot on which the scan of \<^verbatim>\<open>claim_slot_blocking\<close> succeeds.\<close>

definition claim_slot_blocking ::
    "('s, 'e, 'l) sched_server \<Rightarrow> nat \<Rightarrow> nat \<Rightarrow> ('s, 'e, 'l) sched_state \<Rightarrow> ('s, 'e, 'l) sched_state option" where
  "claim_slot_blocking V i j w =
     (if j < sv_slots V \<and> \<not> sc_in_use w j
      then Some (goto i Claimed (w\<lparr>sc_in_use := (sc_in_use w)(j := True), sc_slot := (sc_slot w)(i := j)\<rparr>))
      else None)"

text \<open>The queued part of \<^verbatim>\<open>decode_via_scheduler_into\<close>: push, try to lead, drain and dispatch, receive.\<close>

definition decode_via_scheduler_into ::
    "('s, 'e, 'l) sched_server \<Rightarrow> nat \<Rightarrow> ('s, 'e, 'l) sched_state \<Rightarrow> ('s, 'e, 'l) sched_state option" where
  "decode_via_scheduler_into V i w =
     (case sc_pc w i of
        Pushing token pos \<Rightarrow>
          if sc_q_held w = None
          then Some (goto i Trying (w\<lparr>sc_queue := sc_queue w @
            [\<lparr>pd_owner = i, pd_slot = sc_slot w i, pd_token = token, pd_position = pos\<rparr>]\<rparr>))
          else None
      | Trying \<Rightarrow>
          if sc_leader w = None then Some (goto i Leading (w\<lparr>sc_leader := Some i\<rparr>)) else Some (goto i Waiting w)
      | Leading \<Rightarrow> if sc_q_held w = None then Some (goto i Holding (w\<lparr>sc_q_held := Some i\<rparr>)) else None
      | Holding \<Rightarrow>
          if sc_queue w = [] then Some (goto i Releasing (w\<lparr>sc_leader := None\<rparr>))
          else Some (goto i (Dispatching (sc_queue w)) (w\<lparr>sc_queue := [], sc_q_held := None\<rparr>))
      | Releasing \<Rightarrow> Some (goto i Waiting (w\<lparr>sc_q_held := None\<rparr>))
      | Dispatching ps \<Rightarrow>
          if slots_free V w ps then Some (goto i Leading (dispatch_batched_pending V ps w)) else None
      | Waiting \<Rightarrow>
          (case sc_inbox w i of
             None \<Rightarrow> None
           | Some r \<Rightarrow> Some (answer i r (w\<lparr>sc_inbox := (sc_inbox w)(i := None)\<rparr>)))
      | _ \<Rightarrow> None)"

text \<open>
  A chunk of \<^verbatim>\<open>chunked_prefill_pp\<close> with the slot's mutex held: with mixed batches the dispatcher lock
  is taken, the queue drained, and the chunk runs with the entries when they fit; otherwise they
  are pushed back, the lock is dropped and the chunk runs alone.
\<close>

definition chunked_prefill_pp ::
    "('s, 'e, 'l) sched_server \<Rightarrow> nat \<Rightarrow> ('s, 'e, 'l) sched_state \<Rightarrow> ('s, 'e, 'l) sched_state option" where
  "chunked_prefill_pp V i w =
     (case sc_pc w i of
        FillLocking toks start \<Rightarrow>
          if sc_leader w = None then Some (goto i (FillDraining toks start) (w\<lparr>sc_leader := Some i\<rparr>)) else None
      | FillDraining toks start \<Rightarrow>
          if sc_q_held w = None
          then (if sc_queue w = [] then Some (goto i (FillDone toks start) w)
                else Some (goto i (FillHaving toks start (sc_queue w)) (w\<lparr>sc_queue := []\<rparr>)))
          else None
      | FillHaving toks start ps \<Rightarrow>
          if sv_chunk V < length toks + length ps
          then (if sc_q_held w = None
                then Some (goto i (FillDone toks start) (w\<lparr>sc_queue := sc_queue w @ ps\<rparr>))
                else None)
          else if slots_free V w ps
          then Some ((dispatch_mixed_with_pending V i toks start ps w)\<lparr>sc_leader := None\<rparr>)
          else None
      | FillDone toks start \<Rightarrow> Some (goto i (FillPure toks start) (w\<lparr>sc_leader := None\<rparr>))
      | FillPure toks start \<Rightarrow> Some (pure_prefill V i toks start w)
      | _ \<Rightarrow> None)"

text \<open>
  One step of request \<open>i\<close>, \<open>None\<close> when it is blocked or over. A claimed slot's session is reset first.
\<close>

definition sched_step ::
    "('s, 'e, 'l) sched_server \<Rightarrow> nat \<Rightarrow> nat \<Rightarrow> ('s, 'e, 'l) sched_state \<Rightarrow> ('s, 'e, 'l) sched_state option" where
  "sched_step V i j w =
     (if i \<ge> sv_requests V then None
      else case sc_pc w i of
        Outside \<Rightarrow> claim_slot_blocking V i j w
      | Claimed \<Rightarrow> Some (goto i Ready (set_session (sc_slot w i) (sv_fresh V) w))
      | Ready \<Rightarrow> Some (begin_op V i w)
      | FillLocking _ _ \<Rightarrow> chunked_prefill_pp V i w
      | FillDraining _ _ \<Rightarrow> chunked_prefill_pp V i w
      | FillHaving _ _ _ \<Rightarrow> chunked_prefill_pp V i w
      | FillDone _ _ \<Rightarrow> chunked_prefill_pp V i w
      | FillPure _ _ \<Rightarrow> chunked_prefill_pp V i w
      | Gone \<Rightarrow> None
      | _ \<Rightarrow> decode_via_scheduler_into V i w)"

lemmas step_unfold = sched_step_def claim_slot_blocking_def decode_via_scheduler_into_def chunked_prefill_pp_def

inductive sched_move :: "('s, 'e, 'l) sched_server \<Rightarrow> ('s, 'e, 'l) sched_state \<Rightarrow> ('s, 'e, 'l) sched_state \<Rightarrow> bool" for V where
  thread_moves: "sched_step V i j w = Some w' \<Longrightarrow> sched_move V w w'"

inductive_cases sched_moveE: "sched_move V w w'"

text \<open>The states that some schedule of \<open>k\<close> steps leads to.\<close>

inductive sched_reach :: "('s, 'e, 'l) sched_server \<Rightarrow> nat \<Rightarrow> ('s, 'e, 'l) sched_state \<Rightarrow> bool" for V where
  sched_begin: "sched_reach V 0 (sched_start V)"
| sched_more: "sched_reach V k w \<Longrightarrow> sched_move V w w' \<Longrightarrow> sched_reach V (Suc k) w'"

fun sched_run ::
    "('s, 'e, 'l) sched_server \<Rightarrow> (nat \<times> nat) list \<Rightarrow> ('s, 'e, 'l) sched_state \<Rightarrow> ('s, 'e, 'l) sched_state option" where
  "sched_run V [] w = Some w"
| "sched_run V ((i, j) # ms) w = Option.bind (sched_step V i j w) (sched_run V ms)"

lemma sched_run_reach:
  "sched_reach V k w \<Longrightarrow> sched_run V ms w = Some w' \<Longrightarrow> sched_reach V (k + length ms) w'"
proof (induction V ms w arbitrary: k rule: sched_run.induct)
  case (2 V i j ms w)
  obtain w1 where st: "sched_step V i j w = Some w1" "sched_run V ms w1 = Some w'"
    using 2(3) by (auto simp: bind_eq_Some_conv)
  have "sched_reach V (Suc k) w1" using 2(2) thread_moves [OF st(1)] by (rule sched_more)
  then show ?case using 2(1) [OF st(1)] st(2) by fastforce
qed simp

end
