(* ===== verification/Scheduler_Inv.thy ===== *)
theory Scheduler_Inv
  imports Scheduler
begin

section \<open>Invariants of the scheduler\<close>

text \<open>
  Slots are owned by one request each; the locks are held where the code says; every request that
  waits for a decode step is the owner of exactly one pending entry or has its reply.
\<close>

subsection \<open>What the helpers change\<close>

lemma goto_sel [simp]:
  "sc_pc (goto i c w) = (sc_pc w)(i := c)" "sc_slot (goto i c w) = sc_slot w" "sc_replies (goto i c w) = sc_replies w"
  "sc_inbox (goto i c w) = sc_inbox w" "sc_queue (goto i c w) = sc_queue w" "sc_q_held (goto i c w) = sc_q_held w"
  "sc_leader (goto i c w) = sc_leader w" "sc_in_use (goto i c w) = sc_in_use w" "sc_session (goto i c w) = sc_session w"
  by (simp_all add: goto_def)

lemma answer_sel [simp]:
  "sc_pc (answer i r w) = (sc_pc w)(i := Ready)" "sc_slot (answer i r w) = sc_slot w"
  "sc_replies (answer i r w) = (sc_replies w)(i := sc_replies w i @ [r])"
  "sc_inbox (answer i r w) = sc_inbox w" "sc_queue (answer i r w) = sc_queue w" "sc_q_held (answer i r w) = sc_q_held w"
  "sc_leader (answer i r w) = sc_leader w" "sc_in_use (answer i r w) = sc_in_use w" "sc_session (answer i r w) = sc_session w"
  by (simp_all add: answer_def)

lemma set_session_sel [simp]:
  "sc_pc (set_session j s w) = sc_pc w" "sc_slot (set_session j s w) = sc_slot w"
  "sc_replies (set_session j s w) = sc_replies w" "sc_inbox (set_session j s w) = sc_inbox w"
  "sc_queue (set_session j s w) = sc_queue w" "sc_q_held (set_session j s w) = sc_q_held w"
  "sc_leader (set_session j s w) = sc_leader w" "sc_in_use (set_session j s w) = sc_in_use w"
  "sc_session (set_session j s w) = (sc_session w)(j := s)"
  by (simp_all add: set_session_def)

lemma set_sessions_sel [simp]:
  "sc_pc (set_sessions js ss w) = sc_pc w" "sc_slot (set_sessions js ss w) = sc_slot w"
  "sc_replies (set_sessions js ss w) = sc_replies w" "sc_inbox (set_sessions js ss w) = sc_inbox w"
  "sc_queue (set_sessions js ss w) = sc_queue w" "sc_q_held (set_sessions js ss w) = sc_q_held w"
  "sc_leader (set_sessions js ss w) = sc_leader w" "sc_in_use (set_sessions js ss w) = sc_in_use w"
  by (induction js ss w rule: set_sessions.induct) simp_all

lemma send_all_sel [simp]:
  "sc_pc (send_all ps rs w) = sc_pc w" "sc_slot (send_all ps rs w) = sc_slot w"
  "sc_replies (send_all ps rs w) = sc_replies w" "sc_queue (send_all ps rs w) = sc_queue w"
  "sc_q_held (send_all ps rs w) = sc_q_held w" "sc_leader (send_all ps rs w) = sc_leader w"
  "sc_in_use (send_all ps rs w) = sc_in_use w" "sc_session (send_all ps rs w) = sc_session w"
  by (induction ps rs w rule: send_all.induct) simp_all

lemma send_all_answers:
  "length rs = length ps \<Longrightarrow> sc_inbox (send_all ps rs w) i = None \<longleftrightarrow> i \<notin> pd_owner ` set ps \<and> sc_inbox w i = None"
  by (induction ps rs w rule: send_all.induct) auto

lemma send_all_others: "i \<notin> pd_owner ` set ps \<Longrightarrow> sc_inbox (send_all ps rs w) i = sc_inbox w i"
  by (induction ps rs w rule: send_all.induct) auto

lemma send_all_row:
  "length rs = length ps \<Longrightarrow> distinct (map pd_owner ps) \<Longrightarrow> k < length ps \<Longrightarrow>
     sc_inbox (send_all ps rs w) (pd_owner (ps ! k)) = Some (rs ! k)"
  by (induction ps rs w arbitrary: k rule: send_all.induct) (auto simp: nth_Cons' send_all_others)

subsection \<open>The invariant\<close>

text \<open>The model writes a row and a session for each entry of a batch.\<close>

definition server_ok :: "('s, 'e, 'l) sched_server \<Rightarrow> bool" where
  "server_ok V \<longleftrightarrow>
     (\<forall>bs. (case fst (sv_decode V bs) of Inr rows \<Rightarrow> length rows = length bs | Inl e \<Rightarrow> True)) \<and>
     (\<forall>c bs. (case fst (sv_both V c bs) of Inr r \<Rightarrow> length (snd r) = length bs | Inl e \<Rightarrow> True))"

fun has_slot :: "sched_pc \<Rightarrow> bool" where
  "has_slot Outside = False"
| "has_slot Gone = False"
| "has_slot _ = True"

text \<open>In \<^verbatim>\<open>decode_via_scheduler_into\<close> after the push.\<close>

fun decoding :: "sched_pc \<Rightarrow> bool" where
  "decoding Trying = True"
| "decoding Leading = True"
| "decoding Holding = True"
| "decoding Releasing = True"
| "decoding (Dispatching ps) = True"
| "decoding Waiting = True"
| "decoding _ = False"

fun leads :: "sched_pc \<Rightarrow> bool" where
  "leads Leading = True"
| "leads Holding = True"
| "leads (Dispatching ps) = True"
| "leads (FillDraining toks start) = True"
| "leads (FillHaving toks start ps) = True"
| "leads (FillDone toks start) = True"
| "leads _ = False"

fun holds_q :: "sched_pc \<Rightarrow> bool" where
  "holds_q Holding = True"
| "holds_q Releasing = True"
| "holds_q _ = False"

fun taken_pc :: "sched_pc \<Rightarrow> pending_decode list" where
  "taken_pc (Dispatching ps) = ps"
| "taken_pc (FillHaving toks start ps) = ps"
| "taken_pc _ = []"

definition taken :: "('s, 'e, 'l) sched_state \<Rightarrow> pending_decode list" where
  "taken w = (case sc_leader w of None \<Rightarrow> [] | Some l \<Rightarrow> taken_pc (sc_pc w l))"

definition entries :: "('s, 'e, 'l) sched_state \<Rightarrow> pending_decode list" where
  "entries w = sc_queue w @ taken w"

definition slots_ok :: "('s, 'e, 'l) sched_server \<Rightarrow> ('s, 'e, 'l) sched_state \<Rightarrow> bool" where
  "slots_ok V w \<longleftrightarrow>
     (\<forall>i < sv_requests V. has_slot (sc_pc w i) \<longrightarrow> sc_slot w i < sv_slots V \<and> sc_in_use w (sc_slot w i)) \<and>
     (\<forall>i < sv_requests V. \<forall>k < sv_requests V.
        has_slot (sc_pc w i) \<longrightarrow> has_slot (sc_pc w k) \<longrightarrow> sc_slot w i = sc_slot w k \<longrightarrow> i = k) \<and>
     (\<forall>j. sc_in_use w j \<longrightarrow> (\<exists>i < sv_requests V. has_slot (sc_pc w i) \<and> sc_slot w i = j))"

definition locks_ok :: "('s, 'e, 'l) sched_server \<Rightarrow> ('s, 'e, 'l) sched_state \<Rightarrow> bool" where
  "locks_ok V w \<longleftrightarrow>
     (\<forall>i < sv_requests V. holds_q (sc_pc w i) \<longleftrightarrow> sc_q_held w = Some i) \<and> (\<forall>i. sc_q_held w = Some i \<longrightarrow> i < sv_requests V) \<and>
     (\<forall>i < sv_requests V. leads (sc_pc w i) \<longleftrightarrow> sc_leader w = Some i) \<and> (\<forall>i. sc_leader w = Some i \<longrightarrow> i < sv_requests V)"

definition entries_ok :: "('s, 'e, 'l) sched_server \<Rightarrow> ('s, 'e, 'l) sched_state \<Rightarrow> bool" where
  "entries_ok V w \<longleftrightarrow> distinct (map pd_owner (entries w)) \<and>
     (\<forall>p \<in> set (entries w). pd_owner p < sv_requests V \<and> pd_slot p = sc_slot w (pd_owner p) \<and>
        decoding (sc_pc w (pd_owner p)) \<and> sc_inbox w (pd_owner p) = None) \<and>
     (\<forall>i < sv_requests V. if decoding (sc_pc w i) then i \<in> pd_owner ` set (entries w) \<or> sc_inbox w i \<noteq> None
        else sc_inbox w i = None)"

definition sched_ok :: "('s, 'e, 'l) sched_server \<Rightarrow> ('s, 'e, 'l) sched_state \<Rightarrow> bool" where
  "sched_ok V w \<longleftrightarrow> slots_ok V w \<and> locks_ok V w \<and> entries_ok V w"

lemma sched_start_ok: "sched_ok V (sched_start V)"
  by (simp add: sched_ok_def slots_ok_def locks_ok_def entries_ok_def entries_def taken_def sched_start_def)

lemmas sched_ops = dispatch_batched_pending_def dispatch_decode_one_def dispatch_mixed_with_pending_def
  pure_prefill_def Let_def case_prod_beta

lemma ops_sel [simp]:
  "sc_slot (dispatch_batched_pending V ps w) = sc_slot w" "sc_pc (dispatch_batched_pending V ps w) = sc_pc w"
  "sc_replies (dispatch_batched_pending V ps w) = sc_replies w" "sc_queue (dispatch_batched_pending V ps w) = sc_queue w"
  "sc_q_held (dispatch_batched_pending V ps w) = sc_q_held w" "sc_leader (dispatch_batched_pending V ps w) = sc_leader w"
  "sc_in_use (dispatch_batched_pending V ps w) = sc_in_use w"
  "sc_slot (dispatch_decode_one V i t p w) = sc_slot w" "sc_pc (dispatch_decode_one V i t p w) = (sc_pc w)(i := Ready)"
  "sc_queue (dispatch_decode_one V i t p w) = sc_queue w" "sc_q_held (dispatch_decode_one V i t p w) = sc_q_held w"
  "sc_leader (dispatch_decode_one V i t p w) = sc_leader w" "sc_in_use (dispatch_decode_one V i t p w) = sc_in_use w"
  "sc_inbox (dispatch_decode_one V i t p w) = sc_inbox w"
  "sc_slot (dispatch_mixed_with_pending V i toks st ps w) = sc_slot w"
  "sc_pc (dispatch_mixed_with_pending V i toks st ps w) = (sc_pc w)(i := Ready)"
  "sc_queue (dispatch_mixed_with_pending V i toks st ps w) = sc_queue w"
  "sc_q_held (dispatch_mixed_with_pending V i toks st ps w) = sc_q_held w"
  "sc_in_use (dispatch_mixed_with_pending V i toks st ps w) = sc_in_use w"
  "sc_slot (pure_prefill V i toks st w) = sc_slot w" "sc_pc (pure_prefill V i toks st w) = (sc_pc w)(i := Ready)"
  "sc_queue (pure_prefill V i toks st w) = sc_queue w" "sc_q_held (pure_prefill V i toks st w) = sc_q_held w"
  "sc_leader (pure_prefill V i toks st w) = sc_leader w" "sc_in_use (pure_prefill V i toks st w) = sc_in_use w"
  "sc_inbox (pure_prefill V i toks st w) = sc_inbox w"
  by (simp_all add: sched_ops split: sum.split)

lemma dispatch_answers:
  assumes "server_ok V"
  shows "sc_inbox (dispatch_batched_pending V ps w) i = None \<longleftrightarrow> i \<notin> pd_owner ` set ps \<and> sc_inbox w i = None"
    and "sc_inbox (dispatch_mixed_with_pending V k toks st ps w) i = None \<longleftrightarrow> i \<notin> pd_owner ` set ps \<and> sc_inbox w i = None"
proof -
  have len: "length (batch_of w ps) = length ps" by (simp add: batch_of_def)
  let ?c = "(sc_session w (sc_slot w k), toks, st)"
  have d: "case fst (sv_decode V (batch_of w ps)) of Inr rows \<Rightarrow> length rows = length ps | Inl e \<Rightarrow> True"
    using assms len unfolding server_ok_def by metis
  show "sc_inbox (dispatch_batched_pending V ps w) i = None \<longleftrightarrow> i \<notin> pd_owner ` set ps \<and> sc_inbox w i = None"
    using d by (cases "fst (sv_decode V (batch_of w ps))") (simp_all add: sched_ops send_all_answers)
  have m: "case fst (sv_both V ?c (batch_of w ps)) of Inr r \<Rightarrow> length (snd r) = length ps | Inl e \<Rightarrow> True"
    using assms len unfolding server_ok_def by metis
  show "sc_inbox (dispatch_mixed_with_pending V k toks st ps w) i = None \<longleftrightarrow> i \<notin> pd_owner ` set ps \<and> sc_inbox w i = None"
    using m by (cases "fst (sv_both V ?c (batch_of w ps))") (simp_all add: sched_ops send_all_answers)
qed

subsection \<open>Every step keeps it\<close>

lemma step_request: "sched_step V i j w = Some w' \<Longrightarrow> i < sv_requests V"
  by (auto simp: step_unfold split: if_splits)

lemma slots_frame:
  assumes "slots_ok V w" and "\<And>k. has_slot (sc_pc w' k) = has_slot (sc_pc w k)" and "sc_slot w' = sc_slot w"
    and "sc_in_use w' = sc_in_use w"
  shows "slots_ok V w'"
  using assms by (simp add: slots_ok_def)

lemma step_slots:
  assumes "sched_step V i j w = Some w'" and "sc_pc w i \<noteq> Outside"
    and "\<not> (sc_pc w i = Ready \<and> sv_next V i (sc_replies w i) = None)"
  shows "has_slot (sc_pc w' k) = has_slot (sc_pc w k)" and "sc_slot w' = sc_slot w" and "sc_in_use w' = sc_in_use w"
  using assms by (cases "sc_pc w i"; auto simp: step_unfold begin_op_def release_slot_def split: if_splits option.splits sched_op.splits)+

lemma slots_step:
  assumes ok: "slots_ok V w" and st: "sched_step V i j w = Some w'"
  shows "slots_ok V w'"
proof -
  note i = step_request [OF st]
  consider "sc_pc w i = Outside" | "sc_pc w i = Ready" "sv_next V i (sc_replies w i) = None"
    | "sc_pc w i \<noteq> Outside" "\<not> (sc_pc w i = Ready \<and> sv_next V i (sc_replies w i) = None)" by metis
  then show ?thesis
  proof cases
    case 1
    then have j: "j < sv_slots V" "\<not> sc_in_use w j"
      and w': "w' = goto i Claimed (w\<lparr>sc_in_use := (sc_in_use w)(j := True), sc_slot := (sc_slot w)(i := j)\<rparr>)"
      using st i by (auto simp: step_unfold split: if_splits)
    have "sc_slot w k \<noteq> j" if h: "k < sv_requests V" "has_slot (sc_pc w k)" for k
      using ok j h unfolding slots_ok_def by blast
    then show ?thesis using ok i j 1 unfolding slots_ok_def w' by (auto simp: 1) (metis 1 has_slot.simps(1))
  next
    case 2
    then have w': "w' = goto i Gone (w\<lparr>sc_in_use := (sc_in_use w)(sc_slot w i := False)\<rparr>)"
      using st i by (simp add: step_unfold begin_op_def release_slot_def)
    show ?thesis using ok i 2 unfolding slots_ok_def w' by (auto simp: 2)
  next
    case 3
    show ?thesis using slots_frame [OF ok] step_slots [OF st 3] by blast
  qed
qed


lemmas step_splits = if_splits option.splits sched_op.splits

lemma step_others: "sched_step V i j w = Some w' \<Longrightarrow> k \<noteq> i \<Longrightarrow> sc_pc w' k = sc_pc w k"
  by (cases "sc_pc w i") (auto simp: step_unfold begin_op_def release_slot_def split: step_splits)

lemma step_queue_lock:
  assumes "sched_step V i j w = Some w'" and "holds_q (sc_pc w i) \<longleftrightarrow> sc_q_held w = Some i"
  shows "sc_q_held w' = (if holds_q (sc_pc w' i) then Some i else if holds_q (sc_pc w i) then None else sc_q_held w)"
    and "holds_q (sc_pc w' i) \<Longrightarrow> \<not> holds_q (sc_pc w i) \<Longrightarrow> sc_q_held w = None"
  using assms by (cases "sc_pc w i"; auto simp: step_unfold begin_op_def release_slot_def split: step_splits)+

lemma step_leader:
  assumes "sched_step V i j w = Some w'" and "leads (sc_pc w i) \<longleftrightarrow> sc_leader w = Some i"
  shows "sc_leader w' = (if leads (sc_pc w' i) then Some i else if leads (sc_pc w i) then None else sc_leader w)"
    and "leads (sc_pc w' i) \<Longrightarrow> \<not> leads (sc_pc w i) \<Longrightarrow> sc_leader w = None"
  using assms by (cases "sc_pc w i"; auto simp: step_unfold begin_op_def release_slot_def split: step_splits)+

lemma locks_step:
  assumes ok: "locks_ok V w" and st: "sched_step V i j w = Some w'"
  shows "locks_ok V w'"
proof -
  note i = step_request [OF st]
  have q: "holds_q (sc_pc w i) \<longleftrightarrow> sc_q_held w = Some i" and l: "leads (sc_pc w i) \<longleftrightarrow> sc_leader w = Some i"
    using ok i by (simp_all add: locks_ok_def)
  have "(holds_q (sc_pc w' k) \<longleftrightarrow> sc_q_held w' = Some k) \<and> (leads (sc_pc w' k) \<longleftrightarrow> sc_leader w' = Some k)"
    if "k < sv_requests V" for k
  proof (cases "k = i")
    case True
    then show ?thesis using step_queue_lock(1) [OF st q] step_leader(1) [OF st l] q l by auto
  next
    case False
    have "holds_q (sc_pc w k) \<longleftrightarrow> sc_q_held w = Some k" "leads (sc_pc w k) \<longleftrightarrow> sc_leader w = Some k"
      using ok that by (simp_all add: locks_ok_def)
    then show ?thesis
      using False step_others [OF st False] step_queue_lock [OF st q] step_leader [OF st l] q l by auto
  qed
  moreover have "(sc_q_held w' = Some k \<longrightarrow> k < sv_requests V) \<and> (sc_leader w' = Some k \<longrightarrow> k < sv_requests V)" for k
    using ok i step_queue_lock(1) [OF st q] step_leader(1) [OF st l] unfolding locks_ok_def by auto
  ultimately show ?thesis by (simp add: locks_ok_def)
qed


text \<open>
  A step pushes an entry, answers the entries taken, consumes a reply, or leaves the entries, the
  replies and who waits for them alone.
\<close>

definition pushed :: "('s, 'e, 'l) sched_state \<Rightarrow> nat \<Rightarrow> nat \<Rightarrow> nat \<Rightarrow> pending_decode" where
  "pushed w i token pos = \<lparr>pd_owner = i, pd_slot = sc_slot w i, pd_token = token, pd_position = pos\<rparr>"

lemma taken_others:
  assumes "locks_ok V w" and "sched_step V i j w = Some w'" and "\<not> leads (sc_pc w i)" and "\<not> leads (sc_pc w' i)"
  shows "taken w' = taken w"
proof -
  have l: "leads (sc_pc w i) \<longleftrightarrow> sc_leader w = Some i"
    using assms(1) step_request [OF assms(2)] by (simp add: locks_ok_def)
  have "sc_leader w' = sc_leader w" using step_leader(1) [OF assms(2) l] assms(3,4) by simp
  then show ?thesis using step_others [OF assms(2)] l assms(3) by (auto simp: taken_def split: option.splits)
qed

lemma step_entries:
  assumes ok: "locks_ok V w" and st: "sched_step V i j w = Some w'"
  obtains (push) token pos where "sc_pc w i = Pushing token pos" "sc_pc w' i = Trying"
      "entries w' = sc_queue w @ pushed w i token pos # taken w" "sc_inbox w' = sc_inbox w" "sc_slot w' = sc_slot w"
    | (answer) ps where "taken_pc (sc_pc w i) = ps" "sc_leader w = Some i" "entries w' = sc_queue w"
      "decoding (sc_pc w' i) = decoding (sc_pc w i)" "sc_slot w' = sc_slot w"
      "(\<exists>ps'. sc_pc w i = Dispatching ps' \<and> w' = goto i Leading (dispatch_batched_pending V ps w)) \<or>
       (\<exists>toks start ps'. sc_pc w i = FillHaving toks start ps' \<and>
          w' = (dispatch_mixed_with_pending V i toks start ps w)\<lparr>sc_leader := None\<rparr>)"
    | (consume) r where "sc_pc w i = Waiting" "sc_pc w' i = Ready" "sc_inbox w i = Some r" "entries w' = entries w"
      "sc_inbox w' = (sc_inbox w)(i := None)" "sc_slot w' = sc_slot w"
    | (quiet) "entries w' = entries w" "decoding (sc_pc w' i) = decoding (sc_pc w i)" "sc_inbox w' = sc_inbox w"
      "sc_slot w' = sc_slot w \<or> \<not> decoding (sc_pc w i) \<and> (\<forall>k. k \<noteq> i \<longrightarrow> sc_slot w' k = sc_slot w k)"
proof -
  note i = step_request [OF st]
  have l: "leads (sc_pc w i) \<longleftrightarrow> sc_leader w = Some i" using ok i by (simp add: locks_ok_def)
  show ?thesis
  proof (cases "leads (sc_pc w i) \<or> leads (sc_pc w' i)")
    case False
    then have t: "taken w' = taken w" using taken_others [OF ok st] by blast
    show ?thesis
    proof (cases "sc_pc w i")
      case (Pushing token pos)
      then show ?thesis using st i t
        by (intro push) (auto simp: step_unfold entries_def pushed_def split: if_splits)
    next
      case Waiting
      then obtain r where "sc_inbox w i = Some r" using st i by (auto simp: step_unfold split: option.splits)
      then show ?thesis using st i t Waiting by (intro consume) (auto simp: step_unfold entries_def)
    qed (use False st i t in \<open>auto simp: step_unfold begin_op_def release_slot_def entries_def split: step_splits intro: quiet\<close>)+
  next
    case True
    show ?thesis
    proof (cases "sc_pc w i")
      case (Dispatching ps)
      then show ?thesis using st i l
        by (intro answer [of ps]) (auto simp: step_unfold entries_def taken_def split: if_splits)
    next
      case (FillHaving toks start ps)
      show ?thesis
      proof (cases "sv_chunk V < length toks + length ps")
        case True
        then show ?thesis using st i l FillHaving
          by (intro quiet) (auto simp: step_unfold entries_def taken_def split: if_splits)
      next
        case False
        then show ?thesis using st i l FillHaving
          by (intro answer [of ps]) (auto simp: step_unfold entries_def taken_def split: if_splits)
      qed
    qed (use True st i l in \<open>auto simp: step_unfold begin_op_def release_slot_def entries_def taken_def split: step_splits intro!: quiet\<close>)+
  qed
qed


lemma entries_owner:
  assumes "entries_ok V w" and "p \<in> set (entries w)"
  shows "pd_owner p < sv_requests V" and "pd_slot p = sc_slot w (pd_owner p)" and "decoding (sc_pc w (pd_owner p))"
    and "sc_inbox w (pd_owner p) = None"
  using assms by (simp_all add: entries_ok_def)

lemma entries_frame:
  assumes ok: "entries_ok V w" and "set (entries w') \<subseteq> set (entries w)" and "distinct (map pd_owner (entries w'))"
    and dec: "\<And>k. k < sv_requests V \<Longrightarrow> decoding (sc_pc w k) \<Longrightarrow> decoding (sc_pc w' k) \<or> sc_inbox w k \<noteq> None"
    and slot: "\<And>k. decoding (sc_pc w k) \<Longrightarrow> sc_slot w' k = sc_slot w k"
    and inbox: "\<And>k. k < sv_requests V \<Longrightarrow>
      if decoding (sc_pc w' k) then k \<in> pd_owner ` set (entries w') \<and> sc_inbox w' k = None \<or> k \<notin> pd_owner ` set (entries w') \<and> sc_inbox w' k \<noteq> None
      else sc_inbox w' k = None"
  shows "entries_ok V w'"
proof -
  have "pd_owner p < sv_requests V \<and> pd_slot p = sc_slot w' (pd_owner p) \<and> decoding (sc_pc w' (pd_owner p)) \<and>
      sc_inbox w' (pd_owner p) = None" if p: "p \<in> set (entries w')" for p
  proof -
    have e: "p \<in> set (entries w)" using assms(2) p by blast
    note o = entries_owner [OF ok e]
    have d: "decoding (sc_pc w' (pd_owner p))" using dec [OF o(1,3)] o(4) by simp
    show ?thesis using inbox [OF o(1)] d o slot [OF o(3)] p by auto
  qed
  moreover have "if decoding (sc_pc w' k) then k \<in> pd_owner ` set (entries w') \<or> sc_inbox w' k \<noteq> None else sc_inbox w' k = None"
    if "k < sv_requests V" for k using inbox [OF that] by (auto split: if_splits)
  ultimately show ?thesis using assms(3) unfolding entries_ok_def by blast
qed

lemma waits_or_answered:
  assumes "entries_ok V w" and "k < sv_requests V" and "decoding (sc_pc w k)"
  shows "k \<in> pd_owner ` set (entries w) \<and> sc_inbox w k = None \<or> k \<notin> pd_owner ` set (entries w) \<and> sc_inbox w k \<noteq> None"
  using assms entries_owner(4) [OF assms(1)] unfolding entries_ok_def by (auto split: if_splits)

lemma no_reply_pending: "entries_ok V w \<Longrightarrow> k < sv_requests V \<Longrightarrow> \<not> decoding (sc_pc w k) \<Longrightarrow> sc_inbox w k = None"
  by (simp add: entries_ok_def split: if_splits)

lemma entries_step:
  assumes srv: "server_ok V" and lok: "locks_ok V w" and ok: "entries_ok V w" and st: "sched_step V i j w = Some w'"
  shows "entries_ok V w'"
proof -
  note i = step_request [OF st] and wait = waits_or_answered [OF ok] and idle = no_reply_pending [OF ok]
  note oth = step_others [OF st]
  show ?thesis
  proof (rule step_entries [OF lok st])
    fix token pos
    assume h: "sc_pc w i = Pushing token pos" "sc_pc w' i = Trying"
      "entries w' = sc_queue w @ pushed w i token pos # taken w" "sc_inbox w' = sc_inbox w" "sc_slot w' = sc_slot w"
    have fresh: "i \<notin> pd_owner ` set (entries w)" "sc_inbox w i = None"
      using entries_owner(3) [OF ok] idle [OF i] h(1) by (force dest: arg_cong [of _ _ decoding], simp)
    have "distinct (map pd_owner (entries w'))" "set (entries w') = insert (pushed w i token pos) (set (entries w))"
      using ok fresh unfolding entries_ok_def h(3) by (auto simp: entries_def pushed_def)
    moreover have "decoding (sc_pc w' k) = (k = i \<or> decoding (sc_pc w k))" for k using oth [of k] h(1,2) by (cases "k = i") auto
    ultimately show ?thesis using ok fresh i h(4,5) unfolding entries_ok_def by (auto simp: pushed_def)
  next
    fix ps
    assume h: "taken_pc (sc_pc w i) = ps" "sc_leader w = Some i" "entries w' = sc_queue w"
      "decoding (sc_pc w' i) = decoding (sc_pc w i)" "sc_slot w' = sc_slot w"
      "(\<exists>ps'. sc_pc w i = Dispatching ps' \<and> w' = goto i Leading (dispatch_batched_pending V ps w)) \<or>
       (\<exists>toks start ps'. sc_pc w i = FillHaving toks start ps' \<and>
          w' = (dispatch_mixed_with_pending V i toks start ps w)\<lparr>sc_leader := None\<rparr>)"
    have e: "entries w = entries w' @ ps" using h(1-3) by (simp add: entries_def taken_def)
    have in': "sc_inbox w' k = None \<longleftrightarrow> k \<notin> pd_owner ` set ps \<and> sc_inbox w k = None" for k
      using h(6) dispatch_answers [OF srv] by auto
    have d: "decoding (sc_pc w' k) = decoding (sc_pc w k)" for k using oth [of k] h(4) by (cases "k = i") auto
    have disj: "distinct (map pd_owner (entries w' @ ps))" using ok unfolding entries_ok_def e by blast
    show ?thesis
    proof (rule entries_frame [OF ok])
      fix k assume k: "k < sv_requests V"
      show "if decoding (sc_pc w' k) then k \<in> pd_owner ` set (entries w') \<and> sc_inbox w' k = None \<or> k \<notin> pd_owner ` set (entries w') \<and> sc_inbox w' k \<noteq> None
        else sc_inbox w' k = None"
        using wait [OF k] idle [OF k] disj entries_owner(3) [OF ok] unfolding d in' e by auto
    qed (use disj e d h(5) in auto)
  next
    fix r
    assume h: "sc_pc w i = Waiting" "sc_pc w' i = Ready" "sc_inbox w i = Some r" "entries w' = entries w"
      "sc_inbox w' = (sc_inbox w)(i := None)" "sc_slot w' = sc_slot w"
    have d: "decoding (sc_pc w' k) = (k \<noteq> i \<and> decoding (sc_pc w k))" for k using oth [of k] h(1,2) by (cases "k = i") auto
    show ?thesis
    proof (rule entries_frame [OF ok])
      show "distinct (map pd_owner (entries w'))" using ok h(4) by (simp add: entries_ok_def)
      fix k assume k: "k < sv_requests V"
      show "if decoding (sc_pc w' k) then k \<in> pd_owner ` set (entries w') \<and> sc_inbox w' k = None \<or> k \<notin> pd_owner ` set (entries w') \<and> sc_inbox w' k \<noteq> None
        else sc_inbox w' k = None"
        using wait [OF k] idle [OF k] h(4,5) unfolding d by auto
    qed (use h d in auto)
  next
    assume h: "entries w' = entries w" "decoding (sc_pc w' i) = decoding (sc_pc w i)" "sc_inbox w' = sc_inbox w"
      "sc_slot w' = sc_slot w \<or> \<not> decoding (sc_pc w i) \<and> (\<forall>k. k \<noteq> i \<longrightarrow> sc_slot w' k = sc_slot w k)"
    have d: "decoding (sc_pc w' k) = decoding (sc_pc w k)" for k using oth [of k] h(2) by (cases "k = i") auto
    show ?thesis
    proof (rule entries_frame [OF ok])
      show "distinct (map pd_owner (entries w'))" using ok h(1) by (simp add: entries_ok_def)
      show "sc_slot w' k = sc_slot w k" if "decoding (sc_pc w k)" for k using h(4) that by (cases "k = i") auto
      fix k assume k: "k < sv_requests V"
      show "if decoding (sc_pc w' k) then k \<in> pd_owner ` set (entries w') \<and> sc_inbox w' k = None \<or> k \<notin> pd_owner ` set (entries w') \<and> sc_inbox w' k \<noteq> None
        else sc_inbox w' k = None"
        using wait [OF k] idle [OF k] unfolding d h(1,3) by auto
    qed (use h d in auto)
  qed
qed

lemma sched_ok_step: "server_ok V \<Longrightarrow> sched_ok V w \<Longrightarrow> sched_step V i j w = Some w' \<Longrightarrow> sched_ok V w'"
  unfolding sched_ok_def using slots_step locks_step entries_step by blast

lemma sched_ok_reach: "sched_reach V k w \<Longrightarrow> server_ok V \<Longrightarrow> sched_ok V w"
  by (induction rule: sched_reach.induct) (auto elim!: sched_moveE intro: sched_start_ok sched_ok_step)

end
