(* ===== verification/Scheduler_Live.thy ===== *)
theory Scheduler_Live
  imports Scheduler_Inv
begin

section \<open>The scheduler ends and does not get stuck\<close>

text \<open>
  A thread in an operation has the operation that its replies call for, and the pending entry is
  that operation's. A potential that every step lowers bounds every schedule.
\<close>

subsection \<open>Operations in progress\<close>

fun plan_ok :: "sched_pc \<Rightarrow> sched_op option \<Rightarrow> bool" where
  "plan_ok (Pushing token pos) f = (f = Some (SchedDecode token pos))"
| "plan_ok (FillLocking toks start) f = (f = Some (PrefillChunk toks start))"
| "plan_ok (FillDraining toks start) f = (f = Some (PrefillChunk toks start))"
| "plan_ok (FillHaving toks start ps) f = (f = Some (PrefillChunk toks start) \<and> ps \<noteq> [])"
| "plan_ok (FillDone toks start) f = (f = Some (PrefillChunk toks start))"
| "plan_ok (FillPure toks start) f = (f = Some (PrefillChunk toks start))"
| "plan_ok (Dispatching ps) f = (f \<noteq> None \<and> ps \<noteq> [])"
| "plan_ok Outside f = True"
| "plan_ok Claimed f = True"
| "plan_ok Ready f = True"
| "plan_ok Gone f = (f = None)"
| "plan_ok _ f = (f \<noteq> None)"

definition plans_ok :: "('s, 'e, 'l) sched_server \<Rightarrow> ('s, 'e, 'l) sched_state \<Rightarrow> bool" where
  "plans_ok V w \<longleftrightarrow>
     (\<forall>i < sv_requests V. plan_ok (sc_pc w i) (sv_next V i (sc_replies w i))) \<and>
     (\<forall>p \<in> set (entries w).
        sv_next V (pd_owner p) (sc_replies w (pd_owner p)) = Some (SchedDecode (pd_token p) (pd_position p)))"

lemma ops_replies [simp]:
  "k \<noteq> i \<Longrightarrow> sc_replies (dispatch_decode_one V i t p w) k = sc_replies w k"
  "k \<noteq> i \<Longrightarrow> sc_replies (dispatch_mixed_with_pending V i toks st ps w) k = sc_replies w k"
  "k \<noteq> i \<Longrightarrow> sc_replies (pure_prefill V i toks st w) k = sc_replies w k"
  by (simp_all add: sched_ops split: sum.split)

lemma ops_reply [simp]:
  "length (sc_replies (dispatch_decode_one V i t p w) i) = Suc (length (sc_replies w i))"
  "length (sc_replies (dispatch_mixed_with_pending V i toks st ps w) i) = Suc (length (sc_replies w i))"
  "length (sc_replies (pure_prefill V i toks st w) i) = Suc (length (sc_replies w i))"
  by (simp_all add: sched_ops split: sum.split)

lemma step_replies_others: "sched_step V i j w = Some w' \<Longrightarrow> k \<noteq> i \<Longrightarrow> sc_replies w' k = sc_replies w k"
  by (cases "sc_pc w i") (auto simp: step_unfold begin_op_def release_slot_def split: step_splits)

lemma step_replies_own:
  "sched_step V i j w = Some w' \<Longrightarrow> sc_pc w' i = Ready \<or> sc_replies w' i = sc_replies w i"
  by (cases "sc_pc w i") (auto simp: step_unfold begin_op_def release_slot_def split: step_splits)

lemma step_plan:
  assumes "sched_step V i j w = Some w'" and "plan_ok (sc_pc w i) (sv_next V i (sc_replies w i))"
  shows "plan_ok (sc_pc w' i) (sv_next V i (sc_replies w' i))"
  using assms by (cases "sc_pc w i") (auto simp: step_unfold begin_op_def release_slot_def split: step_splits)

lemma plans_step:
  assumes ok: "sched_ok V w" and plans: "plans_ok V w" and st: "sched_step V i j w = Some w'"
  shows "plans_ok V w'"
proof -
  note i = step_request [OF st]
  have lok: "locks_ok V w" and eok: "entries_ok V w" using ok by (simp_all add: sched_ok_def)
  have pi: "plan_ok (sc_pc w i) (sv_next V i (sc_replies w i))" using plans i by (simp add: plans_ok_def)
  have "plan_ok (sc_pc w' k) (sv_next V k (sc_replies w' k))" if "k < sv_requests V" for k
    using plans that step_plan [OF st pi] step_others [OF st] step_replies_others [OF st]
    by (cases "k = i") (auto simp: plans_ok_def)
  moreover have "sv_next V (pd_owner p) (sc_replies w' (pd_owner p)) = Some (SchedDecode (pd_token p) (pd_position p))"
    if p: "p \<in> set (entries w')" for p
  proof -
    have same: "sc_replies w' (pd_owner p) = sc_replies w (pd_owner p)" if "p \<in> set (entries w)"
      and "decoding (sc_pc w' i) \<or> pd_owner p \<noteq> i"
      using step_replies_others [OF st, of "pd_owner p"] step_replies_own [OF st] that by (cases "pd_owner p = i") auto
    have old: "sv_next V (pd_owner p) (sc_replies w (pd_owner p)) = Some (SchedDecode (pd_token p) (pd_position p))"
      if "p \<in> set (entries w)" using plans that by (simp add: plans_ok_def)
    have dec: "decoding (sc_pc w (pd_owner p))" "sc_inbox w (pd_owner p) = None" if "p \<in> set (entries w)"
      using entries_owner [OF eok that] by simp_all
    show ?thesis
    proof (rule step_entries [OF lok st])
      fix token pos
      assume h: "sc_pc w i = Pushing token pos" "sc_pc w' i = Trying"
        "entries w' = sc_queue w @ pushed w i token pos # taken w"
      then consider "p = pushed w i token pos" | "p \<in> set (entries w)" using p by (auto simp: entries_def)
      then show ?thesis
      proof cases
        case 1
        have "sc_replies w' i = sc_replies w i" using step_replies_own [OF st] h(2) by simp
        then show ?thesis using pi h(1) 1 by (simp add: pushed_def)
      qed (use same old h(2) in simp)
    next
      fix ps
      assume h: "taken_pc (sc_pc w i) = ps" "sc_leader w = Some i" "entries w' = sc_queue w"
        "decoding (sc_pc w' i) = decoding (sc_pc w i)"
      then have e: "p \<in> set (entries w)" using p by (simp add: entries_def)
      then show ?thesis using same [OF e] old [OF e] dec(1) [OF e] h(4) by (cases "pd_owner p = i") simp_all
    next
      fix r
      assume h: "sc_inbox w i = Some r" "entries w' = entries w"
      then have e: "p \<in> set (entries w)" using p by simp
      then show ?thesis using same [OF e] old [OF e] dec(2) [OF e] h(1) by (cases "pd_owner p = i") simp_all
    next
      assume h: "entries w' = entries w" "decoding (sc_pc w' i) = decoding (sc_pc w i)"
      then have e: "p \<in> set (entries w)" using p by simp
      then show ?thesis using same [OF e] old [OF e] dec(1) [OF e] h(2) by (cases "pd_owner p = i") simp_all
    qed
  qed
  ultimately show ?thesis by (simp add: plans_ok_def)
qed

lemma plans_start: "plans_ok V (sched_start V)"
  by (simp add: plans_ok_def entries_def taken_def sched_start_def)

lemma plans_reach: "sched_reach V k w \<Longrightarrow> server_ok V \<Longrightarrow> plans_ok V w"
  by (induction rule: sched_reach.induct)
    (auto elim!: sched_moveE intro: plans_start plans_step sched_ok_reach)

subsection \<open>A potential\<close>

fun rank :: "sched_pc \<Rightarrow> nat" where
  "rank Outside = 12"
| "rank Claimed = 11"
| "rank Ready = 10"
| "rank (Pushing token pos) = 9"
| "rank Trying = 5"
| "rank Leading = 4"
| "rank Holding = 3"
| "rank (Dispatching ps) = 2"
| "rank Releasing = 1"
| "rank Waiting = 0"
| "rank (FillLocking toks start) = 9"
| "rank (FillDraining toks start) = 8"
| "rank (FillHaving toks start ps) = 7"
| "rank (FillDone toks start) = 6"
| "rank (FillPure toks start) = 5"
| "rank Gone = 0"

definition work_left :: "nat \<Rightarrow> ('s, 'e, 'l) sched_state \<Rightarrow> nat \<Rightarrow> nat" where
  "work_left B w i = 11 * (B - length (sc_replies w i)) + rank (sc_pc w i)"

definition potential :: "nat \<Rightarrow> ('s, 'e, 'l) sched_server \<Rightarrow> ('s, 'e, 'l) sched_state \<Rightarrow> nat" where
  "potential B V w = (\<Sum>i < sv_requests V. work_left B w i) + 3 * length (entries w)"

text \<open>A request that has its \<open>B\<close> replies has no operation left.\<close>

definition at_most :: "nat \<Rightarrow> ('s, 'e, 'l) sched_server \<Rightarrow> bool" where
  "at_most B V \<longleftrightarrow> (\<forall>i rs. B \<le> length rs \<longrightarrow> sv_next V i rs = None)"

lemma at_most_next: "at_most B V \<Longrightarrow> sv_next V i rs = Some f \<Longrightarrow> length rs < B"
  unfolding at_most_def by (metis linorder_not_le option.distinct(1))

lemma reply_cost: "k < B \<Longrightarrow> 11 * (B - Suc k) + 11 = 11 * (B - (k::nat))"
  by simp

lemma step_work:
  assumes B: "at_most B V" and ok: "sched_ok V w" and plans: "plans_ok V w" and st: "sched_step V i j w = Some w'"
  shows "work_left B w' i + 3 * length (entries w') < work_left B w i + 3 * length (entries w)"
proof -
  note i = step_request [OF st]
  have lok: "locks_ok V w" using ok by (simp add: sched_ok_def)
  have l: "leads (sc_pc w i) \<longleftrightarrow> sc_leader w = Some i" using lok i by (simp add: locks_ok_def)
  have pi: "plan_ok (sc_pc w i) (sv_next V i (sc_replies w i))" using plans i by (simp add: plans_ok_def)
  have lt: "length (sc_replies w i) < B" if "sv_next V i (sc_replies w i) \<noteq> None"
    using at_most_next [OF B] that by blast
  note cost = reply_cost [OF lt]
  show ?thesis
  proof (cases "leads (sc_pc w i) \<or> leads (sc_pc w' i)")
    case False
    then have "taken w' = taken w" using taken_others [OF lok st] by blast
    then show ?thesis using st i pi False cost
      by (cases "sc_pc w i") (auto simp: step_unfold begin_op_def release_slot_def entries_def work_left_def split: step_splits)
  next
    case True
    then show ?thesis using st i l pi cost
      by (cases "sc_pc w i") (auto simp: step_unfold begin_op_def release_slot_def entries_def taken_def work_left_def neq_Nil_conv
        split: step_splits)
  qed
qed


lemma potential_step:
  assumes B: "at_most B V" and ok: "sched_ok V w" "plans_ok V w" and st: "sched_step V i j w = Some w'"
  shows "potential B V w' < potential B V w"
proof -
  have i: "i \<in> {..<sv_requests V}" using step_request [OF st] by simp
  have "work_left B w' k = work_left B w k" if "k \<noteq> i" for k
    using step_others [OF st that] step_replies_others [OF st that] by (simp add: work_left_def)
  then have "(\<Sum>k \<in> {..<sv_requests V} - {i}. work_left B w' k) = (\<Sum>k \<in> {..<sv_requests V} - {i}. work_left B w k)"
    by (intro sum.cong) simp_all
  then show ?thesis using step_work [OF B ok st] sum.remove [OF _ i, of "work_left B w'"] sum.remove [OF _ i, of "work_left B w"]
    by (simp add: potential_def)
qed

lemma reach_potential:
  assumes "sched_reach V k w" and "server_ok V" and "at_most B V"
  shows "k + potential B V w \<le> sv_requests V * (11 * B + 12)"
  using assms
proof (induction rule: sched_reach.induct)
  case sched_begin
  show ?case by (simp add: potential_def work_left_def sched_start_def entries_def taken_def)
next
  case (sched_more k w w')
  obtain i j where st: "sched_step V i j w = Some w'" using sched_more.hyps(2) by (rule sched_moveE)
  have "potential B V w' < potential B V w"
    using potential_step [OF sched_more.prems(2) _ _ st] sched_ok_reach plans_reach sched_more by blast
  then show ?case using sched_more by simp
qed

subsection \<open>Someone can always move\<close>

text \<open>Without mixed batches a queued entry has a leader, or a thread that is about to try to lead.\<close>

definition served :: "('s, 'e, 'l) sched_server \<Rightarrow> ('s, 'e, 'l) sched_state \<Rightarrow> bool" where
  "served V w \<longleftrightarrow> sc_queue w \<noteq> [] \<longrightarrow> sc_leader w \<noteq> None \<or> (\<exists>i < sv_requests V. sc_pc w i = Trying)"

fun filling :: "sched_pc \<Rightarrow> bool" where
  "filling (FillLocking toks start) = True"
| "filling (FillDraining toks start) = True"
| "filling (FillHaving toks start ps) = True"
| "filling (FillDone toks start) = True"
| "filling _ = False"

definition unmixed :: "('s, 'e, 'l) sched_server \<Rightarrow> ('s, 'e, 'l) sched_state \<Rightarrow> bool" where
  "unmixed V w \<longleftrightarrow> (\<forall>i < sv_requests V. \<not> filling (sc_pc w i))"

lemma step_unmixed:
  assumes "unmixed V w" and "\<not> sv_mixed V" and st: "sched_step V i j w = Some w'"
  shows "unmixed V w'"
proof -
  have "\<not> filling (sc_pc w i)" using assms(1) step_request [OF st] by (simp add: unmixed_def)
  then have "\<not> filling (sc_pc w' i)" using st assms(2)
    by (cases "sc_pc w i") (auto simp: step_unfold begin_op_def release_slot_def split: step_splits)
  then show ?thesis using assms(1) step_others [OF st] unfolding unmixed_def by metis
qed

lemma step_served:
  assumes sv: "served V w" and um: "unmixed V w" and st: "sched_step V i j w = Some w'"
  shows "served V w'"
proof -
  note i = step_request [OF st]
  have nf: "\<not> filling (sc_pc w i)" using um i by (simp add: unmixed_def)
  have keep: "\<exists>k < sv_requests V. sc_pc w' k = Trying" if "\<exists>k < sv_requests V. sc_pc w k = Trying" "sc_pc w i \<noteq> Trying"
    using that step_others [OF st] by metis
  have t: "sc_pc w' i = Trying \<Longrightarrow> served V w'" using i by (auto simp: served_def)
  show ?thesis
  proof (cases "sc_pc w i")
    case (Pushing token pos)
    then show ?thesis using st i by (intro t) (auto simp: step_unfold split: if_splits)
  qed (use nf sv keep st i in \<open>auto simp: served_def step_unfold begin_op_def release_slot_def split: step_splits\<close>)
qed

lemma unmixed_reach: "sched_reach V k w \<Longrightarrow> \<not> sv_mixed V \<Longrightarrow> unmixed V w"
proof (induction rule: sched_reach.induct)
  case sched_begin
  show ?case by (simp add: unmixed_def sched_start_def)
next
  case (sched_more k w w')
  then show ?case using step_unmixed by (blast elim: sched_moveE)
qed

lemma served_reach: "sched_reach V k w \<Longrightarrow> \<not> sv_mixed V \<Longrightarrow> served V w"
proof (induction rule: sched_reach.induct)
  case sched_begin
  show ?case by (simp add: served_def sched_start_def)
next
  case (sched_more k w w')
  then show ?case using step_served unmixed_reach by (blast elim: sched_moveE)
qed

lemma taken_distinct_slots:
  assumes "slots_ok V w" and "entries_ok V w" and "set ps \<subseteq> set (entries w)" and "distinct (map pd_owner ps)"
  shows "distinct (map pd_slot ps)"
proof -
  have "inj_on pd_slot (set ps)"
  proof (rule inj_onI)
    fix p q assume pq: "p \<in> set ps" "q \<in> set ps" "pd_slot p = pd_slot q"
    note o = entries_owner [OF assms(2), of p] entries_owner [OF assms(2), of q]
    have dec: "has_slot c" if "decoding c" for c using that by (cases c) simp_all
    have "pd_owner p = pd_owner q"
      using assms(1,3) o pq dec unfolding slots_ok_def by (metis subsetD)
    then show "p = q" using assms(4) pq(1,2) by (auto simp: distinct_map dest: inj_onD)
  qed
  then show ?thesis using assms(4) by (simp add: distinct_map)
qed

lemma stuck_pc:
  assumes ok: "sched_ok V w" and um: "unmixed V w" and i: "i < sv_requests V"
    and stuck: "\<And>i j. sched_step V i j w = None"
  shows "sc_pc w i = Outside \<or> sc_pc w i = Waiting \<or> sc_pc w i = Gone"
proof -
  have soft: "sc_pc w k \<noteq> Holding \<and> sc_pc w k \<noteq> Releasing \<and> sc_pc w k \<noteq> FillPure toks st" if "k < sv_requests V" for k toks st
    using stuck [of k 0] that by (auto simp: step_unfold split: if_splits)
  have q: "sc_q_held w = None"
  proof (rule ccontr)
    assume "sc_q_held w \<noteq> None"
    then obtain k where "k < sv_requests V" "holds_q (sc_pc w k)" using ok by (auto simp: sched_ok_def locks_ok_def)
    then show False using soft by (cases "sc_pc w k") auto
  qed
  have nf: "\<not> filling (sc_pc w k)" if "k < sv_requests V" for k using um that by (simp add: unmixed_def)
  show ?thesis
  proof (cases "sc_pc w i")
    case (Dispatching ps)
    then have "sc_leader w = Some i" using ok i by (simp add: sched_ok_def locks_ok_def) (metis leads.simps(3))
    then have e: "entries w = sc_queue w @ ps" using Dispatching by (simp add: entries_def taken_def)
    have "distinct (map pd_slot ps)"
      using ok e by (intro taken_distinct_slots [of V w]) (auto simp: sched_ok_def entries_ok_def)
    moreover have "case sc_pc w k of FillLocking _ _ \<Rightarrow> sc_slot w k \<noteq> s | FillDraining _ _ \<Rightarrow> sc_slot w k \<noteq> s
        | FillHaving _ _ _ \<Rightarrow> sc_slot w k \<noteq> s | FillDone _ _ \<Rightarrow> sc_slot w k \<noteq> s | FillPure _ _ \<Rightarrow> sc_slot w k \<noteq> s
        | _ \<Rightarrow> True" if "k < sv_requests V" for k s using soft [OF that] nf [OF that] by (cases "sc_pc w k") auto
    ultimately have "slots_free V w ps" by (simp add: slots_free_def list_all_iff)
    then show ?thesis using stuck [of i 0] i Dispatching by (simp add: step_unfold)
  qed (use stuck [of i 0] i q soft [OF i] nf [OF i] in \<open>auto simp: step_unfold split: if_splits\<close>)
qed

lemma stuck_over:
  assumes ok: "sched_ok V w" and um: "unmixed V w" and sv: "served V w" and slots: "0 < sv_slots V"
    and stuck: "\<And>i j. sched_step V i j w = None" and i: "i < sv_requests V"
  shows "sc_pc w i = Gone"
proof -
  note pc = stuck_pc [OF ok um _ stuck]
  have l: "sc_leader w = None"
  proof (rule ccontr)
    assume "sc_leader w \<noteq> None"
    then obtain k where "k < sv_requests V" "leads (sc_pc w k)" using ok by (auto simp: sched_ok_def locks_ok_def)
    then show False using pc [of k] by auto
  qed
  then have "sc_queue w = []" using sv pc unfolding served_def by fastforce
  then have "entries w = []" using l by (simp add: entries_def taken_def)
  then have nw: "sc_pc w k \<noteq> Waiting" if "k < sv_requests V" for k
    using waits_or_answered [of V w k] ok stuck [of k 0] that by (auto simp: sched_ok_def step_unfold split: option.splits)
  have "\<not> has_slot (sc_pc w k)" if "k < sv_requests V" for k using pc [OF that] nw [OF that] by auto
  then have free: "\<not> sc_in_use w 0" using ok unfolding sched_ok_def slots_ok_def by blast
  show ?thesis using pc [OF i] nw [OF i] stuck [of i 0] i slots free by (auto simp: step_unfold)
qed

end
