(* ===== verification/Scheduler_Solo.thy ===== *)
theory Scheduler_Solo
  imports Scheduler_Live
begin

section \<open>Batching does not change what a request computes\<close>

text \<open>
  A request's solo run: its operations one after the other on a session of its own. When a row of
  a batched pass is what the pass computes for that session alone, the replies of a request are
  those of its solo run, under every schedule.
\<close>

fun solo_op :: "('s, 'e, 'l) sched_server \<Rightarrow> sched_op \<Rightarrow> 's \<Rightarrow> ('e + 'l) \<times> 's" where
  "solo_op V (PrefillChunk toks start) s = sv_prefill V s toks start"
| "solo_op V (SchedDecode token pos) s =
     (let (result, ss) = sv_decode V [(s, token, pos)] in (map_sum id (\<lambda>rows. rows ! 0) result, ss ! 0))"
| "solo_op V (OwnDecode token pos) s =
     (let (result, ss) = sv_decode V [(s, token, pos)] in (map_sum id (\<lambda>rows. rows ! 0) result, ss ! 0))"

fun solo :: "('s, 'e, 'l) sched_server \<Rightarrow> nat \<Rightarrow> nat \<Rightarrow> ('e + 'l) list \<times> 's" where
  "solo V i 0 = ([], sv_fresh V)"
| "solo V i (Suc m) = (let (rs, s) = solo V i m in
     case sv_next V i rs of None \<Rightarrow> (rs, s) | Some f \<Rightarrow> let (r, s') = solo_op V f s in (rs @ [r], s'))"

declare solo_op.simps [simp del] solo.simps(2) [simp del]

text \<open>
  The law of the forward passes: each row and each session of a batch is the one that the pass
  gives for that session, token and position, whatever else is in the batch.
\<close>

definition batch_transparent ::
    "('s, 'e, 'l) sched_server \<Rightarrow> ('s \<times> nat \<times> nat \<Rightarrow> 'l \<times> 's) \<Rightarrow> ('s \<Rightarrow> nat list \<Rightarrow> nat \<Rightarrow> 'l \<times> 's) \<Rightarrow> bool" where
  "batch_transparent V one pre \<longleftrightarrow>
     (\<forall>bs. sv_decode V bs = (Inr (map (\<lambda>b. fst (one b)) bs), map (\<lambda>b. snd (one b)) bs)) \<and>
     (\<forall>s toks start. sv_prefill V s toks start = (Inr (fst (pre s toks start)), snd (pre s toks start))) \<and>
     (\<forall>s toks start bs. sv_both V (s, toks, start) bs =
        (Inr (fst (pre s toks start), map (\<lambda>b. fst (one b)) bs), snd (pre s toks start), map (\<lambda>b. snd (one b)) bs))"

lemma transparent_ok: "batch_transparent V one pre \<Longrightarrow> server_ok V"
  by (simp add: batch_transparent_def server_ok_def split_paired_all)

subsection \<open>What a forward pass leaves\<close>

lemma set_sessions_other: "j \<notin> set js \<Longrightarrow> sc_session (set_sessions js ss w) j = sc_session w j"
  by (induction js ss w rule: set_sessions.induct) auto

lemma set_sessions_row:
  "length ss = length js \<Longrightarrow> distinct js \<Longrightarrow> k < length js \<Longrightarrow> sc_session (set_sessions js ss w) (js ! k) = ss ! k"
  by (induction js ss w arbitrary: k rule: set_sessions.induct) (auto simp: nth_Cons' set_sessions_other)

definition entry_result :: "('s \<times> nat \<times> nat \<Rightarrow> 'l \<times> 's) \<Rightarrow> ('s, 'e, 'l) sched_state \<Rightarrow> pending_decode \<Rightarrow> 'l \<times> 's" where
  "entry_result one w p = one (sc_session w (pd_slot p), pd_token p, pd_position p)"

lemma batch_results:
  "map (\<lambda>b. fst (one b)) (batch_of w ps) = map (\<lambda>p. fst (entry_result one w p)) ps"
  "map (\<lambda>b. snd (one b)) (batch_of w ps) = map (\<lambda>p. snd (entry_result one w p)) ps"
  by (simp_all add: batch_of_def entry_result_def)

lemma transparent_ops:
  assumes "batch_transparent V one pre"
  shows "dispatch_batched_pending V ps w = send_all ps (map (\<lambda>p. Inr (fst (entry_result one w p))) ps)
      (set_sessions (map pd_slot ps) (map (\<lambda>p. snd (entry_result one w p)) ps) w)"
    and "dispatch_decode_one V i t p w = answer i (Inr (fst (one (sc_session w (sc_slot w i), t, p))))
      (set_session (sc_slot w i) (snd (one (sc_session w (sc_slot w i), t, p))) w)"
    and "dispatch_mixed_with_pending V i toks st ps w = answer i (Inr (fst (pre (sc_session w (sc_slot w i)) toks st)))
      (send_all ps (map (\<lambda>p. Inr (fst (entry_result one w p))) ps)
        (set_session (sc_slot w i) (snd (pre (sc_session w (sc_slot w i)) toks st))
          (set_sessions (map pd_slot ps) (map (\<lambda>p. snd (entry_result one w p)) ps) w)))"
    and "pure_prefill V i toks st w = answer i (Inr (fst (pre (sc_session w (sc_slot w i)) toks st)))
      (set_session (sc_slot w i) (snd (pre (sc_session w (sc_slot w i)) toks st)) w)"
    and "solo_op V (SchedDecode t p) s = (Inr (fst (one (s, t, p))), snd (one (s, t, p)))"
    and "solo_op V (OwnDecode t p) s = (Inr (fst (one (s, t, p))), snd (one (s, t, p)))"
    and "solo_op V (PrefillChunk toks st) s = (Inr (fst (pre s toks st)), snd (pre s toks st))"
  using assms by (simp_all add: batch_transparent_def sched_ops batch_results comp_def solo_op.simps)

lemma batch_rows:
  assumes "distinct (map pd_owner ps)" and "distinct (map pd_slot ps)" and "p \<in> set ps"
  shows "sc_inbox (send_all ps (map f ps) w) (pd_owner p) = Some (f p)"
    and "sc_session (set_sessions (map pd_slot ps) (map g ps) w) (pd_slot p) = g p"
proof -
  obtain k where k: "k < length ps" "ps ! k = p" using assms(3) by (metis in_set_conv_nth)
  show "sc_inbox (send_all ps (map f ps) w) (pd_owner p) = Some (f p)"
    using send_all_row [of "map f ps" ps k w] assms(1) k by simp
  show "sc_session (set_sessions (map pd_slot ps) (map g ps) w) (pd_slot p) = g p"
    using set_sessions_row [of "map g ps" "map pd_slot ps" k w] assms(2) k by simp
qed

subsection \<open>The invariant\<close>

fun seated :: "sched_pc \<Rightarrow> bool" where
  "seated Outside = False"
| "seated Claimed = False"
| "seated Gone = False"
| "seated _ = True"

definition as_solo :: "('s, 'e, 'l) sched_server \<Rightarrow> ('s, 'e, 'l) sched_state \<Rightarrow> nat \<Rightarrow> bool" where
  "as_solo V w i \<longleftrightarrow>
     (if seated (sc_pc w i)
      then (case sc_inbox w i of
          None \<Rightarrow> solo V i (length (sc_replies w i)) = (sc_replies w i, sc_session w (sc_slot w i))
        | Some r \<Rightarrow> solo V i (Suc (length (sc_replies w i))) = (sc_replies w i @ [r], sc_session w (sc_slot w i)) \<and>
            fst (solo V i (length (sc_replies w i))) = sc_replies w i)
      else fst (solo V i (length (sc_replies w i))) = sc_replies w i \<and> (sc_pc w i \<noteq> Gone \<longrightarrow> sc_replies w i = []))"

lemma as_solo_replies: "as_solo V w i \<Longrightarrow> fst (solo V i (length (sc_replies w i))) = sc_replies w i"
  by (auto simp: as_solo_def split: if_splits option.splits)

lemma solo_next:
  assumes "solo V i (length (sc_replies w i)) = (sc_replies w i, s)" and "sv_next V i (sc_replies w i) = Some f"
  shows "solo V i (Suc (length (sc_replies w i))) = (sc_replies w i @ [fst (solo_op V f s)], snd (solo_op V f s))"
  using assms by (simp add: case_prod_beta solo.simps(2))

lemma seated_slot: "seated c \<Longrightarrow> has_slot c"
  by (cases c) simp_all

lemma decoding_seated: "decoding c \<Longrightarrow> seated c"
  by (cases c) simp_all


lemma taken_entries:
  assumes ok: "sched_ok V w" and i: "i < sv_requests V"
  shows "set (taken_pc (sc_pc w i)) \<subseteq> set (entries w)" and "distinct (map pd_owner (taken_pc (sc_pc w i)))"
    and "distinct (map pd_slot (taken_pc (sc_pc w i)))"
proof -
  have "taken_pc (sc_pc w i) \<noteq> [] \<Longrightarrow> sc_leader w = Some i"
    using ok i unfolding sched_ok_def locks_ok_def by (cases "sc_pc w i") (auto; metis leads.simps)+
  then have e: "taken_pc (sc_pc w i) \<noteq> [] \<Longrightarrow> entries w = sc_queue w @ taken_pc (sc_pc w i)"
    by (simp add: entries_def taken_def)
  then show sub: "set (taken_pc (sc_pc w i)) \<subseteq> set (entries w)" by (cases "taken_pc (sc_pc w i)") auto
  show d: "distinct (map pd_owner (taken_pc (sc_pc w i)))"
    using e ok unfolding sched_ok_def entries_ok_def by (cases "taken_pc (sc_pc w i)") auto
  show "distinct (map pd_slot (taken_pc (sc_pc w i)))"
    using ok taken_distinct_slots [OF _ _ sub d, of V] unfolding sched_ok_def by blast
qed

lemma other_slot:
  assumes "sched_ok V w" and "i < sv_requests V" "k < sv_requests V" "k \<noteq> i" "has_slot (sc_pc w k)" "has_slot (sc_pc w i)"
  shows "sc_slot w k \<noteq> sc_slot w i"
  using assms unfolding sched_ok_def slots_ok_def by blast

lemma not_taken_slot:
  assumes ok: "sched_ok V w" and ik: "i < sv_requests V" "k < sv_requests V" and "has_slot (sc_pc w k)"
    and "k \<notin> pd_owner ` set (taken_pc (sc_pc w i))"
  shows "sc_slot w k \<notin> pd_slot ` set (taken_pc (sc_pc w i))"
proof
  assume "sc_slot w k \<in> pd_slot ` set (taken_pc (sc_pc w i))"
  then obtain p where p: "p \<in> set (taken_pc (sc_pc w i))" "pd_slot p = sc_slot w k" by auto
  have e: "entries_ok V w" using ok by (simp add: sched_ok_def)
  note o = entries_owner [OF e, of p]
  have "p \<in> set (entries w)" using taken_entries(1) [OF ok ik(1)] p(1) by blast
  then show False using other_slot [OF ok, of "pd_owner p" k] o assms p
    by (metis decoding_seated imageI seated_slot)
qed

lemma step_untouched:
  assumes tr: "batch_transparent V one pre" and ok: "sched_ok V w" and st: "sched_step V i j w = Some w'"
    and k: "k < sv_requests V" "k \<noteq> i" "k \<notin> pd_owner ` set (taken_pc (sc_pc w i))"
  shows "sc_inbox w' k = sc_inbox w k" and "sc_slot w' k = sc_slot w k"
    and "has_slot (sc_pc w k) \<Longrightarrow> sc_session w' (sc_slot w k) = sc_session w (sc_slot w k)"
proof -
  note i = step_request [OF st]
  show "sc_inbox w' k = sc_inbox w k" using st i k tr
    by (cases "sc_pc w i") (auto simp: step_unfold begin_op_def release_slot_def transparent_ops send_all_others split: step_splits)
  show "sc_slot w' k = sc_slot w k" using st i k
    by (cases "sc_pc w i") (auto simp: step_unfold begin_op_def release_slot_def split: step_splits)
  assume h: "has_slot (sc_pc w k)"
  have ns: "sc_slot w k \<notin> pd_slot ` set (taken_pc (sc_pc w i))" using not_taken_slot [OF ok i k(1) h k(3)] .
  have ne: "sc_pc w i \<noteq> Outside \<Longrightarrow> sc_pc w i \<noteq> Gone \<Longrightarrow> sc_slot w k \<noteq> sc_slot w i"
    using other_slot [OF ok i k(1,2) h] by (cases "sc_pc w i") simp_all
  show "sc_session w' (sc_slot w k) = sc_session w (sc_slot w k)" using st i ns ne
    by (cases "sc_pc w i")
      (auto simp: step_unfold begin_op_def release_slot_def transparent_ops [OF tr] set_sessions_other split: step_splits)
qed

lemma as_solo_frame:
  assumes "as_solo V w k" and "seated (sc_pc w' k) = seated (sc_pc w k)" and "sc_pc w' k = Gone \<longleftrightarrow> sc_pc w k = Gone"
    and "sc_replies w' k = sc_replies w k" and "sc_inbox w' k = sc_inbox w k"
    and "seated (sc_pc w k) \<Longrightarrow> sc_session w' (sc_slot w' k) = sc_session w (sc_slot w k)"
  shows "as_solo V w' k"
  using assms by (auto simp: as_solo_def split: option.splits)

text \<open>The owners of the entries that a step answers.\<close>

lemma as_solo_answered:
  assumes tr: "batch_transparent V one pre" and ok: "sched_ok V w" "plans_ok V w" and st: "sched_step V i j w = Some w'"
    and as: "as_solo V w k" and k: "k < sv_requests V" "k \<noteq> i \<or> (\<exists>ps. sc_pc w i = Dispatching ps)" "k \<in> pd_owner ` set (taken_pc (sc_pc w i))"
    and mixed: "\<And>toks start ps. sc_pc w i = FillHaving toks start ps \<Longrightarrow> \<not> sv_chunk V < length toks + length ps"
  shows "as_solo V w' k"
proof -
  note i = step_request [OF st]
  let ?ps = "taken_pc (sc_pc w i)"
  obtain p where p: "p \<in> set ?ps" "pd_owner p = k" using k(3) by auto
  have eok: "entries_ok V w" using ok(1) by (simp add: sched_ok_def)
  have e: "p \<in> set (entries w)" using taken_entries(1) [OF ok(1) i] p(1) by blast
  note o = entries_owner [OF eok e, unfolded p(2)]
  have next_op: "sv_next V k (sc_replies w k) = Some (SchedDecode (pd_token p) (pd_position p))"
    using ok(2) e p(2) by (auto simp: plans_ok_def)
  have before: "solo V k (length (sc_replies w k)) = (sc_replies w k, sc_session w (sc_slot w k))"
    using as decoding_seated [OF o(3)] o(4) by (simp add: as_solo_def)
  note after = solo_next [where w = w, OF before next_op, unfolded transparent_ops [OF tr], simplified]
  have pc: "seated (sc_pc w' k)" "sc_replies w' k = sc_replies w k"
  proof -
    show "seated (sc_pc w' k)" using st i decoding_seated [OF o(3)] k(2) step_others [OF st, of k]
      by (cases "k = i") (auto simp: step_unfold split: if_splits)
    show "sc_replies w' k = sc_replies w k" using st i k(2) step_replies_others [OF st, of k]
      by (cases "k = i") (auto simp: step_unfold split: if_splits)
  qed
  have hs: "has_slot (sc_pc w k)" using seated_slot [OF decoding_seated [OF o(3)]] .
  have ne: "k \<noteq> i \<Longrightarrow> has_slot (sc_pc w i) \<Longrightarrow> sc_slot w k \<noteq> sc_slot w i"
    using other_slot [OF ok(1) i k(1) _ hs] .
  note rows = batch_rows [OF taken_entries(2,3) [OF ok(1) i] p(1), unfolded p(2) o(2)]
  have "sc_inbox w' k = Some (Inr (fst (entry_result one w p))) \<and> sc_slot w' k = sc_slot w k \<and>
      sc_session w' (sc_slot w k) = snd (entry_result one w p)"
  proof (cases "sc_pc w i")
    case (Dispatching ps)
    then show ?thesis using st i rows by (auto simp: step_unfold transparent_ops [OF tr] split: if_splits)
  next
    case (FillHaving toks start ps)
    have fit: "\<not> sv_chunk V < length toks + length ps"
      using mixed FillHaving by blast
    then show ?thesis using st i rows ne FillHaving k(2) by (auto simp: step_unfold transparent_ops [OF tr] split: if_splits)
  qed (use k(3) in simp_all)
  then show ?thesis using as decoding_seated [OF o(3)] after before pc o by (simp add: as_solo_def entry_result_def)
qed


lemma as_solo_own:
  assumes tr: "batch_transparent V one pre" and ok: "sched_ok V w" "plans_ok V w" and st: "sched_step V i j w = Some w'"
    and as: "as_solo V w i"
  shows "as_solo V w' i"
proof -
  note i = step_request [OF st]
  have pi: "plan_ok (sc_pc w i) (sv_next V i (sc_replies w i))" using ok(2) i by (simp add: plans_ok_def)
  have idle: "\<not> decoding (sc_pc w i) \<Longrightarrow> sc_inbox w i = None"
    using no_reply_pending [OF _ i] ok(1) by (simp add: sched_ok_def)
  have before: "solo V i (length (sc_replies w i)) = (sc_replies w i, sc_session w (sc_slot w i))"
    if "seated (sc_pc w i)" "sc_inbox w i = None" using as that by (simp add: as_solo_def)
  show ?thesis
  proof (cases "sc_pc w i")
    case Ready
    note b = before [unfolded Ready, simplified, OF idle [unfolded Ready, simplified]]
    show ?thesis
    proof (cases "sv_next V i (sc_replies w i)")
      case None
      then show ?thesis using st i Ready b by (auto simp: step_unfold begin_op_def release_slot_def as_solo_def)
    next
      case (Some f)
      note n = solo_next [where w = w, OF b Some]
      show ?thesis using st i Ready b n Some idle
        by (cases f) (auto simp: step_unfold begin_op_def release_slot_def as_solo_def transparent_ops [OF tr] split: if_splits)
    qed
  next
    case (FillHaving toks start ps)
    note b = before [unfolded FillHaving, simplified, OF idle [unfolded FillHaving, simplified]]
    have own: "i \<notin> pd_owner ` set ps"
      using taken_entries(1) [OF ok(1) i] entries_owner(3) [of V w] ok(1) FillHaving by (force simp: sched_ok_def)
    then have slot: "sc_slot w i \<notin> pd_slot ` set ps"
      using not_taken_slot [OF ok(1) i i] FillHaving by simp
    have n: "sv_next V i (sc_replies w i) = Some (PrefillChunk toks start)" using pi FillHaving by simp
    note n = solo_next [where w = w, OF b n]
    show ?thesis using st i FillHaving b n own slot idle
      by (auto simp: step_unfold as_solo_def transparent_ops [OF tr] send_all_others set_sessions_other split: if_splits)
  next
    case (FillPure toks start)
    note b = before [unfolded FillPure, simplified, OF idle [unfolded FillPure, simplified]]
    have n: "sv_next V i (sc_replies w i) = Some (PrefillChunk toks start)" using pi FillPure by simp
    note n = solo_next [where w = w, OF b n]
    show ?thesis using st i FillPure b n idle by (auto simp: step_unfold as_solo_def transparent_ops [OF tr])
  next
    case (Dispatching ps)
    show ?thesis
    proof (cases "i \<in> pd_owner ` set ps")
      case True
      then show ?thesis using as_solo_answered [OF tr ok st as i] Dispatching by simp
    next
      case False
      have slot: "sc_slot w i \<notin> pd_slot ` set ps" using not_taken_slot [OF ok(1) i i] Dispatching False by simp
      show ?thesis using as_solo_frame [OF as] st i Dispatching slot False
        by (auto simp: step_unfold transparent_ops [OF tr] send_all_others set_sessions_other split: if_splits)
    qed
  next
    case Claimed
    then show ?thesis using st i as idle by (auto simp: step_unfold as_solo_def)
  next
    case Waiting
    then show ?thesis using st i as by (auto simp: step_unfold as_solo_def split: option.splits)
  qed (use st i as in \<open>auto simp: step_unfold as_solo_def split: if_splits option.splits\<close>)
qed


lemma as_solo_step:
  assumes tr: "batch_transparent V one pre" and ok: "sched_ok V w" "plans_ok V w" and st: "sched_step V i j w = Some w'"
    and as: "as_solo V w k" and k: "k < sv_requests V"
  shows "as_solo V w' k"
proof (cases "k = i")
  case True
  then show ?thesis using as_solo_own [OF tr ok st] as by simp
next
  case ne: False
  note rest = step_others [OF st ne] step_replies_others [OF st ne]
  show ?thesis
  proof (cases "k \<in> pd_owner ` set (taken_pc (sc_pc w i)) \<and>
      (\<forall>toks start ps. sc_pc w i = FillHaving toks start ps \<longrightarrow> \<not> sv_chunk V < length toks + length ps)")
    case True
    then show ?thesis using as_solo_answered [OF tr ok st as k] ne by blast
  next
    case False
    have "sc_inbox w' k = sc_inbox w k" "sc_slot w' k = sc_slot w k"
      "has_slot (sc_pc w k) \<Longrightarrow> sc_session w' (sc_slot w k) = sc_session w (sc_slot w k)"
      using step_untouched [OF tr ok(1) st k ne] False st step_request [OF st]
      by (cases "sc_pc w i"; auto simp: step_unfold split: if_splits)+
    then show ?thesis using as_solo_frame [OF as] rest seated_slot by simp
  qed
qed

lemma as_solo_reach: "sched_reach V k w \<Longrightarrow> batch_transparent V one pre \<Longrightarrow> i < sv_requests V \<Longrightarrow> as_solo V w i"
proof (induction rule: sched_reach.induct)
  case sched_begin
  show ?case by (simp add: as_solo_def sched_start_def)
next
  case (sched_more k w w')
  obtain i' j where st: "sched_step V i' j w = Some w'" using sched_more.hyps(2) by (rule sched_moveE)
  have "sched_ok V w" "plans_ok V w"
    using sched_more.hyps(1) transparent_ok [OF sched_more.prems(1)] by (auto intro: sched_ok_reach plans_reach)
  then show ?case using as_solo_step [OF sched_more.prems(1) _ _ st] sched_more by blast
qed

end
