(* ===== verification/Scheduler_Props.thy ===== *)
theory Scheduler_Props
  imports Scheduler_Solo
begin

section \<open>Properties of the scheduler\<close>

text \<open>
  Batching does not change what a request computes, schedules are bounded, without mixed batches they end with every request over, and with mixed
  batches a decode step can be left in the queue for good. The witnesses run two requests over a
  model whose session is the number of its forward passes and whose logits are the token.
\<close>

lemma solo_over:
  assumes "fst (solo V i n) = rs" and "sv_next V i rs = None" and "n \<le> m"
  shows "fst (solo V i m) = rs"
  using assms(3)
proof (induction m rule: dec_induct)
  case (step m)
  then show ?case using assms(2) by (simp add: solo.simps(2) case_prod_beta)
qed (simp add: assms(1))

definition demo_ops :: "sched_op list \<Rightarrow> nat \<Rightarrow> sched_op option" where
  "demo_ops ops k = (if k < length ops then Some (ops ! k) else None)"

definition demo_server :: "bool \<Rightarrow> sched_op list \<Rightarrow> sched_op list \<Rightarrow> (nat, unit, nat) sched_server" where
  "demo_server mixed f g = \<lparr>sv_requests = 2, sv_slots = 2, sv_mixed = mixed, sv_chunk = 8,
     sv_next = (\<lambda>i rs. demo_ops (if i = 0 then f else g) (length rs)), sv_fresh = 0,
     sv_decode = (\<lambda>bs. (Inr (map (\<lambda>(s, t, p). t + s) bs), map (\<lambda>(s, t, p). Suc s) bs)),
     sv_prefill = (\<lambda>s toks st. (Inr (sum_list toks + s), Suc s)),
     sv_both = (\<lambda>(s, toks, st) bs.
       (Inr (sum_list toks + s, map (\<lambda>(s, t, p). t + s) bs), Suc s, map (\<lambda>(s, t, p). Suc s) bs)),
     sv_closed = ()\<rparr>"

lemma demo_ok: "server_ok (demo_server m f g)"
  by (simp add: server_ok_def demo_server_def split: prod.split)

lemma demo_at_most: "length f \<le> B \<Longrightarrow> length g \<le> B \<Longrightarrow> at_most B (demo_server m f g)"
  by (auto simp: at_most_def demo_server_def demo_ops_def)

text \<open>C39: every schedule is finite: when each of n requests has at most B operations left, no
  schedule takes more than n * (11 * B + 12) steps, whatever is batched with what, with mixed
  batches and failing forward passes included: the drain loop of the leader and the re-push of the
  prefill thread cannot keep the server busy.\<close>

theorem schedule_bounded:
  assumes "server_ok V" and "at_most B V" and "sched_reach V k w"
  shows "k \<le> sv_requests V * (11 * B + 12)"
  using reach_potential [OF assms(3,1,2)] by simp

lemma schedule_bounded_witness:
  "sched_reach (demo_server True [PrefillChunk [1] 0, SchedDecode 5 1] [SchedDecode 7 0]) 2
     (the (sched_run (demo_server True [PrefillChunk [1] 0, SchedDecode 5 1] [SchedDecode 7 0]) [(0, 1), (1, 0)]
       (sched_start (demo_server True [PrefillChunk [1] 0, SchedDecode 5 1] [SchedDecode 7 0])))) \<and>
   (2::nat) \<le> 2 * (11 * 2 + 12)"
proof -
  let ?V = "demo_server True [PrefillChunk [1] 0, SchedDecode 5 1] [SchedDecode 7 0]"
  let ?run = "sched_run ?V [(0, 1), (1, 0)] (sched_start ?V)"
  have "?run = Some (the ?run)" by (simp add: demo_server_def sched_start_def step_unfold goto_def)
  from sched_run_reach [OF sched_begin this] have r: "sched_reach ?V 2 (the ?run)"
    by (simp del: sched_run.simps add: numeral_2_eq_2)
  have n: "sv_requests ?V = 2" by (simp add: demo_server_def)
  show ?thesis using schedule_bounded [OF demo_ok demo_at_most [of _ 2] r] r n by simp
qed

text \<open>C38: without mixed batches nothing is left behind: a state in which no thread can move, for
  any slot it might claim, is one where every request has finished and released its slot; no
  request waits for a reply that nobody will send, no thread for a lock. With the bound on
  schedules, every request is served under every schedule.\<close>

theorem decode_scheduler_never_strands:
  assumes "server_ok V" and "\<not> sv_mixed V" and "0 < sv_slots V" and "sched_reach V k w"
    and "\<And>i j. sched_step V i j w = None" and "i < sv_requests V"
  shows "sc_pc w i = Gone"
  using stuck_over [OF sched_ok_reach [OF assms(4,1)] unmixed_reach [OF assms(4,2)] served_reach [OF assms(4,2)] assms(3,5,6)] .

text \<open>
  Both decode together: request 1 pushes while request 0 leads, and is answered by it.
\<close>

definition pair_server :: "(nat, unit, nat) sched_server" where
  "pair_server = demo_server False [SchedDecode 5 0] [SchedDecode 7 0]"

definition pair_schedule :: "(nat \<times> nat) list" where
  "pair_schedule = [(0, 0), (1, 1), (0, 0), (1, 0), (0, 0), (1, 0), (0, 0), (0, 0), (1, 0), (1, 0), (0, 0), (0, 0),
     (0, 0), (0, 0), (0, 0), (0, 0), (0, 0), (0, 0), (1, 0), (1, 0)]"

lemmas demo_run = demo_server_def demo_ops_def sched_start_def step_unfold begin_op_def release_slot_def others_active_def goto_def
  upt_rec slots_free_def batch_of_def dispatch_batched_pending_def set_session_def answer_def

lemma decode_scheduler_never_strands_witness:
  "\<exists>w. sched_run pair_server pair_schedule (sched_start pair_server) = Some w \<and>
     (\<forall>i j. sched_step pair_server i j w = None) \<and> sc_replies w 0 = [Inr 5] \<and> sc_replies w 1 = [Inr 7] \<and>
     sc_pc w 0 = Gone \<and> sc_pc w 1 = Gone"
proof -
  let ?run = "sched_run pair_server pair_schedule (sched_start pair_server)"
  have e: "?run = Some (the ?run)" and rep: "sc_replies (the ?run) 0 = [Inr 5]" "sc_replies (the ?run) 1 = [Inr 7]"
    and st: "sched_step pair_server i j (the ?run) = None" for i j
    by (simp_all add: pair_server_def pair_schedule_def demo_run)
  have r: "sched_reach pair_server (length pair_schedule) (the ?run)"
    using sched_run_reach [OF sched_begin e] by simp
  have "sc_pc (the ?run) i = Gone" if "i < 2" for i
    using that by (intro decode_scheduler_never_strands [OF _ _ _ r st]) (simp_all add: pair_server_def demo_ok, simp_all add: demo_server_def)
  then show ?thesis using e rep st by fastforce
qed


lemma pure_prefill_step:
  "pure_prefill V i toks st w = answer i (fst (sv_prefill V (sc_session w (sc_slot w i)) toks st))
     (set_session (sc_slot w i) (snd (sv_prefill V (sc_session w (sc_slot w i)) toks st)) w)"
  by (simp add: pure_prefill_def Let_def case_prod_beta)

text \<open>
  A prefill thread drains an empty queue; the decode thread pushes and fails to lead; the prefill
  thread gives the dispatcher lock back without another look at the queue, and is done.
\<close>

definition strand_schedule :: "(nat \<times> nat) list" where
  "strand_schedule = [(0, 0), (1, 1), (0, 0), (1, 0), (0, 0), (1, 0), (1, 0), (1, 0), (0, 0), (0, 0), (1, 0), (1, 0), (1, 0)]"

text \<open>C40: with mixed batches a decode step can be stranded, whatever the forward passes compute: a
  prefill thread takes the dispatcher lock, finds the queue empty, and drops the lock without
  holding the queue; an entry pushed in between has failed to lead and waits for a reply. When no
  later decode step goes through the scheduler, no thread can move and the request never ends:
  this is the race that the decode leader closes by dropping its lock under the queue's.\<close>

theorem mixed_prefill_strands_decode:
  assumes "sv_requests V = 2" and "sv_slots V = 2" and "sv_mixed V" and "sv_next V 0 [] = Some (SchedDecode token pos)"
    and "sv_next V 1 [] = Some (PrefillChunk toks 0)" and "\<And>r. sv_next V 1 [r] = None"
  shows "\<exists>w. sched_run V strand_schedule (sched_start V) = Some w \<and> (\<forall>i j. sched_step V i j w = None) \<and>
    sc_pc w 0 = Waiting \<and> sc_queue w = [\<lparr>pd_owner = 0, pd_slot = 0, pd_token = token, pd_position = pos\<rparr>] \<and>
    sc_leader w = None \<and> sc_pc w 1 = Gone"
proof -
  let ?run = "sched_run V strand_schedule (sched_start V)"
  have e: "?run = Some (the ?run)" and p0: "sc_pc (the ?run) 0 = Waiting" and p1: "sc_pc (the ?run) 1 = Gone"
    and q: "sc_queue (the ?run) = [\<lparr>pd_owner = 0, pd_slot = 0, pd_token = token, pd_position = pos\<rparr>]"
    and l: "sc_leader (the ?run) = None" and b: "sc_inbox (the ?run) 0 = None"
    using assms by (simp_all add: strand_schedule_def demo_run pure_prefill_step)
  have "sched_step V i j (the ?run) = None" for i j
  proof (cases "i < 2")
    case True
    then have "i = 0 \<or> i = 1" by auto
    then show ?thesis using assms(1) p0 p1 b by (auto simp: step_unfold)
  qed (simp add: step_unfold assms(1))
  then show ?thesis using e p0 p1 q l by fastforce
qed


lemma mixed_prefill_strands_decode_witness:
  "sv_mixed (demo_server True [SchedDecode 5 0] [PrefillChunk [1] 0]) \<and>
   (\<exists>w. sched_run (demo_server True [SchedDecode 5 0] [PrefillChunk [1] 0]) strand_schedule
       (sched_start (demo_server True [SchedDecode 5 0] [PrefillChunk [1] 0])) = Some w \<and> sc_pc w 0 = Waiting)"
proof -
  let ?V = "demo_server True [SchedDecode 5 0] [PrefillChunk [1] 0]"
  have "sv_mixed ?V" by (simp add: demo_server_def)
  moreover have "\<exists>w. sched_run ?V strand_schedule (sched_start ?V) = Some w \<and> (\<forall>i j. sched_step ?V i j w = None) \<and>
    sc_pc w 0 = Waiting \<and> sc_queue w = [\<lparr>pd_owner = 0, pd_slot = 0, pd_token = 5, pd_position = 0\<rparr>] \<and>
    sc_leader w = None \<and> sc_pc w 1 = Gone"
    by (rule mixed_prefill_strands_decode [where toks = "[1]"]) (simp_all add: demo_server_def demo_ops_def)
  ultimately show ?thesis by blast
qed


lemma demo_transparent:
  "batch_transparent (demo_server m f g) (\<lambda>(s, t, p). (t + s, Suc s)) (\<lambda>s toks st. (sum_list toks + s, Suc s))"
  by (auto simp: batch_transparent_def demo_server_def)


end
