(* ===== verification/Spec2Isabelle.thy ===== *)
theory Spec2Isabelle
  imports FB_Prelude Json_Grammar Json_Rfc Json_Schema Json_Schema_Inv Json_Schema_Refine
    Json_Mask Prefix_Keys Prefix_Cache Prefix_Restore Gguf_Dtype Gguf_Parse Gguf_Roundtrip
    Gguf_File Gguf_Reads Iq_Tables Dequant Quantize Quantize_Bits Quantize_Layout Quantize_Q3
    Quantize_Rows Dequant_Props Embedding Tp_Slice Tp_Shards Kv_Cache Kv_Refine Kv_Props
    Collective Collective_Spec Collective_Inv Collective_Props Mesh_Layers Sampling
    Sampling_Props Sampling_Params Text_Scan Tool_Events Tool_Hermes Tool_Hermes_Props
    Tool_Hermes_Json Tool_Qwen Tool_Qwen_Ref Tool_Qwen_Props Tool_Qwen_Calls Tool_Gemma_Args
    Tool_Gemma Tool_Gemma_Props Tool_Gemma_Values Tool_Gemma_Calls Tool_Gemma_Ascii Tool_Dispatch
    Scheduler Scheduler_Inv Scheduler_Live Scheduler_Solo Scheduler_Props
begin

text \<open>
flambeau is an LLM inference engine in Rust: it loads GGUF weight files, shards them over GPU
  ranks, runs a transformer forward pass per token with its keys and values in a device-side cache,
  samples the next token (under a JSON or JSON-Schema constraint when asked) and serves the result
  over HTTP with a prefix cache across requests. This library models the parts of it that are
  programs over data, from the source as it stands, and proves what makes them correct. Paths below
  are relative to \<^verbatim>\<open>crates/\<close>.

  \<^bold>\<open>Theories and the code they model.\<close>

  \<^item> \<open>FB_Prelude\<close>: bytes and ASCII classes, slices and positions, the result type with panics,
    64-bit wrap-around, and the locale \<open>byte_validator\<close> (what a byte-fed validator promises to
    the mask that drives it).
  \<^item> \<open>Json_Grammar\<close> (\<^verbatim>\<open>runtime/src/json_grammar.rs\<close>): the streaming JSON validator, its frames and
    one definition per \<^verbatim>\<open>feed_*\<close> method; the shape of every reachable state. \<open>Json_Rfc\<close>: the
    texts of RFC 8259 as an inductive grammar that shares no byte class with the validator, and the
    proof that the validator accepts them all; the texts it accepts beyond the RFC.
  \<^item> \<open>Json_Schema\<close>, \<open>Json_Schema_Inv\<close>, \<open>Json_Schema_Refine\<close> (\<^verbatim>\<open>runtime/src/json_schema.rs\<close>): the
    compiler from schemas to nodes and the schema-driven validator; its stack invariant, what a
    closed object has seen, and the simulation by the structural validator.
  \<^item> \<open>Json_Mask\<close> (\<^verbatim>\<open>server/src/routes/decode_loop.rs\<close>): the token mask over either validator and
    the decoding run it admits.
  \<^item> \<open>Prefix_Keys\<close>, \<open>Prefix_Cache\<close>, \<open>Prefix_Restore\<close> (\<^verbatim>\<open>server/src/prefix_cache.rs\<close>,
    \<^verbatim>\<open>server/src/state.rs\<close>): chunk keys over an abstract hasher, the index with its byte budget and
    LRU order, and the server's capture and restore of a session's cache.
  \<^item> \<open>Gguf_Dtype\<close>, \<open>Gguf_Parse\<close>, \<open>Gguf_Roundtrip\<close>, \<open>Gguf_File\<close>, \<open>Gguf_Reads\<close>
    (\<^verbatim>\<open>quant/src/dtype.rs\<close>, \<^verbatim>\<open>quant/src/gguf.rs\<close>): the element types, the header parser over octets,
    an encoder it inverts, files in one or several parts, and the payload reads.
  \<^item> \<open>Iq_Tables\<close>, \<open>Dequant\<close>, \<open>Quantize\<close> (\<^verbatim>\<open>quant/src/iq_tables.rs\<close>, \<^verbatim>\<open>dequant.rs\<close>,
    \<^verbatim>\<open>quantize_k.rs\<close>): the codebooks, the dequantiser of every element type as a list of elements per
    block, and the K-quant and \<open>Q8_0\<close> quantisers, over abstract binary32 operations.
    \<open>Quantize_Bits\<close>, \<open>Quantize_Layout\<close>, \<open>Quantize_Q3\<close>, \<open>Quantize_Rows\<close>: the packed layouts hold the
    chosen codes and scales. \<open>Dequant_Props\<close>: dequantisation commutes with row ranges, quantised
    rows read back, codebook indices are in range. \<open>Embedding\<close>
    (\<^verbatim>\<open>models/gemma4-v2/src/model.rs\<close>, \<^verbatim>\<open>forward/src/loader/primitives.rs\<close>): the host
    embedding lookup.
  \<^item> \<open>Tp_Slice\<close>, \<open>Tp_Shards\<close> (\<^verbatim>\<open>runtime/src/tp_layout.rs\<close>, \<^verbatim>\<open>runtime/src/tp_slice.rs\<close>): the
    tensor-parallel layouts and slicers over the GGUF reads, and the proof that the ranks' slices
    are the tensor.
  \<^item> \<open>Kv_Cache\<close>, \<open>Kv_Refine\<close>, \<open>Kv_Props\<close> (\<^verbatim>\<open>runtime/src/kv_cache.rs\<close>,
    \<^verbatim>\<open>backend-hip/src/kv_cache_slot.rs\<close>): the device-side KV cache, its layouts as a locale, the
    refinement to a bounded list of token rows.
  \<^item> \<open>Collective\<close>, \<open>Collective_Spec\<close>, \<open>Collective_Inv\<close>, \<open>Collective_Props\<close>
    (\<^verbatim>\<open>runtime/src/collective.rs\<close>): the reference collectives as interleaved rank threads over
    shared slots and a barrier; every schedule ends with the specified results. \<open>Mesh_Layers\<close>
    (\<^verbatim>\<open>runtime/src/mesh.rs\<close>, \<^verbatim>\<open>runtime/src/registry.rs\<close>): which rank owns which layer, and the
    model registry.
  \<^item> \<open>Sampling\<close>, \<open>Sampling_Props\<close> (\<^verbatim>\<open>runtime/src/sampling.rs\<close>): penalties, filters, the generator
    and the two samplers; \<open>Sampling_Params\<close> (\<^verbatim>\<open>server/src/state.rs\<close>): how a request and the model
    file determine their configuration, and that every such configuration samples a token.
  \<^item> \<open>Text_Scan\<close>, \<open>Tool_Events\<close> (\<^verbatim>\<open>server/src/tool_call_parser/mod.rs\<close>): UTF-8 boundaries, white space
    and tag searches over byte strings; the parsers' events, their normal form, the assembly of a
    response, the formats, and the contract of a streaming parser as the locale \<open>tool_call_parser\<close>.
  \<^item> \<open>Tool_Hermes\<close>, \<open>Tool_Hermes_Props\<close>, \<open>Tool_Hermes_Json\<close> (\<^verbatim>\<open>tool_call_parser/hermes.rs\<close>), \<open>Tool_Qwen\<close>,
    \<open>Tool_Qwen_Ref\<close>, \<open>Tool_Qwen_Props\<close>, \<open>Tool_Qwen_Calls\<close> (\<^verbatim>\<open>tool_call_parser/qwen3_coder.rs\<close>): the two
    parsers, for each a reference parser of the whole text, the proof that the streaming parser
    implements it in any chunks, what becomes of well-formed calls, and where the contract fails.
  \<^item> \<open>Tool_Gemma_Args\<close>, \<open>Tool_Gemma\<close>, \<open>Tool_Gemma_Props\<close>, \<open>Tool_Gemma_Values\<close>, \<open>Tool_Gemma_Calls\<close>,
    \<open>Tool_Gemma_Ascii\<close> (\<^verbatim>\<open>tool_call_parser/gemma4.rs\<close>): the argument formats, the parser and its echo guard;
    its independence of the chunks, the native format as a grammar that the parser inverts, the texts that make
    it panic or lose the rest of a turn, and that ASCII answers never do. The depth of the stack is an
    argument of the recursive value parser. \<open>Tool_Dispatch\<close> (\<^verbatim>\<open>tool_call_parser/mod.rs\<close>): the dispatchers; the
    box they return is a sum of the three parsers and keeps their contract.

  \<^item> \<open>Scheduler\<close>, \<open>Scheduler_Inv\<close>, \<open>Scheduler_Live\<close>, \<open>Scheduler_Solo\<close>, \<open>Scheduler_Props\<close>
    (\<^verbatim>\<open>server/src/routes.rs\<close>, \<^verbatim>\<open>chunked_prefill_pp\<close> of \<^verbatim>\<open>routes/decode_loop.rs\<close>): requests as threads
    over the slot pool, the queue of pending decode steps and the dispatcher lock; ownership of slots,
    locks and entries, a bound on every schedule, progress, and that a request's replies are those of
    its solo run.

  \<^bold>\<open>How the parts interact.\<close> The slicers call the GGUF reads, which use the index the header parser
  built; a row range dequantises to a slice of the dequantised tensor. The mask runs a copy of a validator over a candidate token's bytes. The server's restore
  asks the index for the longest stored prefix of the prompt's keys. The tool-call parsers read the
  text of the sampled tokens.

  \<^bold>\<open>Conventions.\<close> Integers of the source are \<^typ>\<open>nat\<close> with the 64-bit wrap written out where an
  overflow can be reached, errors are values of \<open>outcome\<close>, an abort is \<open>Panic\<close>. Code outside the
  repository is an argument: the hasher, the file system, the allocator's limits, the device, the
  float arithmetic and the standard library's unstable sort and hash order, each with what the code relies on as a named predicate. No definition uses fuel; loops are
  structural recursion or \<^verbatim>\<open>function\<close> with a termination proof.

  \<^bold>\<open>Not modelled.\<close> GPU kernels (HIP and CUDA sources) and the crates that launch them, floating
  point arithmetic, the HTTP layer with its completion loops (the prefill, scheduler, sampler, mask and
  parsers they drive are modelled, the loops that join them are not), the tokenizer and the chat templates (third-party engines), the
  benchmark drivers and the command line.
\<close>

end
